(* ===== verification/Prelude.thy ===== *)
theory Prelude
  imports Main "HOL-Library.Word" "HOL-Library.Signed_Division" "HOL-Library.State_Monad"
begin

text \<open>
  Shared vocabulary of the development: the machine types of \<^verbatim>\<open>src/global.h\<close>
  (64-bit build, \<^verbatim>\<open>USE64\<close>), the reading of a cell as a signed or unsigned number,
  the facts about signed cell arithmetic that the components use, and the small facts about
  lists read off an array that the stack theories share.
  Signed cell arithmetic is two's complement and wraps, the behaviour the interpreter's
  own instructions show; every fact that needs the absence of wrap-around says so.
\<close>

unbundle bit_operations_syntax

section \<open>Machine types\<close>

type_synonym cell = "64 word"
type_synonym ucell = "64 word"
type_synonym byte = "8 word"

text \<open>An allocator answers, for a request in bytes, whether it is met.\<close>

type_synonym allocator = "nat \<Rightarrow> bool"

named_theorems sint_arith "signed reading of cell arithmetic, under the absence of overflow"

abbreviation space_cell :: cell where
  "space_cell \<equiv> 32"

abbreviation chr_cell :: "char \<Rightarrow> cell" where
  "chr_cell c \<equiv> of_nat (of_char c)"

section \<open>Signed reading of cells\<close>

lemma cell_sint_ge: "- (2 ^ 63) \<le> sint (a :: cell)"
  using sint_ge [of a] by simp

lemma cell_sint_lt: "sint (a :: cell) < 2 ^ 63"
  using sint_lt [of a] by simp

lemmas cell_sint_range = cell_sint_ge cell_sint_lt

lemma sint_of_int_cell [sint_arith]:
  "- (2 ^ 63) \<le> k \<Longrightarrow> k < 2 ^ 63 \<Longrightarrow> sint (word_of_int k :: cell) = k"
  using sint_sbintrunc' [of k, where ?'a = 64]
  by (simp add: signed_take_bit_int_eq_self)

lemma sint_add_cell [sint_arith]:
  "- (2 ^ 63) \<le> sint a + sint b \<Longrightarrow> sint a + sint b < 2 ^ 63 \<Longrightarrow>
     sint (a + b :: cell) = sint a + sint b"
  by (simp add: sint_word_add signed_take_bit_int_eq_self)

lemma sint_diff_cell [sint_arith]:
  "- (2 ^ 63) \<le> sint a - sint b \<Longrightarrow> sint a - sint b < 2 ^ 63 \<Longrightarrow>
     sint (a - b :: cell) = sint a - sint b"
  by (simp add: sint_word_diff signed_take_bit_int_eq_self)

lemma sint_mult_cell [sint_arith]:
  "- (2 ^ 63) \<le> sint a * sint b \<Longrightarrow> sint a * sint b < 2 ^ 63 \<Longrightarrow>
     sint (a * b :: cell) = sint a * sint b"
  by (simp add: sint_word_mult signed_take_bit_int_eq_self)

lemma sint_minus_cell [sint_arith]:
  "sint a \<noteq> - (2 ^ 63) \<Longrightarrow> sint (- a :: cell) = - sint a"
proof -
  assume "sint a \<noteq> - (2 ^ 63)"
  with cell_sint_ge [of a] have "- (2 ^ 63) < sint a" by linarith
  moreover have "- (2 ^ 63) \<le> - sint a" using cell_sint_lt [of a] by linarith
  ultimately show ?thesis
    by (simp add: sint_word_minus signed_take_bit_int_eq_self)
qed

lemma cell_less_iff: "(a :: cell) <s b \<longleftrightarrow> sint a < sint b"
  by (simp add: word_sless_alt)

lemma cell_le_iff: "(a :: cell) \<le>s b \<longleftrightarrow> sint a \<le> sint b"
  by (simp add: word_sle_eq)

lemmas cell_order = cell_less_iff cell_le_iff

lemma cell_eq_iff: "(a :: cell) = b \<longleftrightarrow> sint a = sint b"
  by (auto intro: signed_word_eqI)

lemma of_int_sint_cell: "word_of_int (sint a) = (a :: cell)"
  by (rule signed_word_eqI) (simp add: sint_of_int_cell cell_sint_range)

lemma sint_1_cell [simp]: "sint (1 :: cell) = 1"
  by simp

lemma sint_succ_cell:
  "(a :: cell) <s b \<Longrightarrow> sint (a + 1) = sint a + 1"
  using cell_sint_range [of a] cell_sint_range [of b]
  by (simp add: cell_less_iff sint_add_cell)

lemma sint_pred_cell:
  "(b :: cell) <s a \<Longrightarrow> sint (a - 1) = sint a - 1"
  using cell_sint_range [of a] cell_sint_range [of b]
  by (simp add: cell_less_iff sint_diff_cell)

lemma unat_eq_nat_sint: "0 \<le> sint a \<Longrightarrow> unat (a :: cell) = nat (sint a)"
proof -
  assume nonneg: "0 \<le> sint a"
  have "uint a = take_bit 64 (sint a)"
    using uint_sint [of a] by simp
  also have "\<dots> = sint a"
    using nonneg cell_sint_lt [of a] by (simp add: take_bit_int_eq_self)
  finally show ?thesis by (simp add: unat_eq_nat_uint)
qed

section \<open>Lists read off an array\<close>

lemma map_upt_Suc: "map f [0..<Suc n] = map f [0..<n] @ [f n]"
  by simp

lemma map_upt_cong: "(\<And>i. i < n \<Longrightarrow> f i = g i) \<Longrightarrow> map f [0..<n] = map g [0..<n]"
  by simp

lemma map_upt_upd_above: "n \<le> k \<Longrightarrow> map (f(k := v)) [0..<n] = map f [0..<n]"
  by (rule map_upt_cong) simp

lemma take_map_upt: "k \<le> n \<Longrightarrow> take k (map f [0..<n]) = map f [0..<k]"
  by (simp add: take_map)

lemma map_upt_add: "map f [0..<m + n] = map f [0..<m] @ map (\<lambda>i. f (m + i)) [0..<n]"
  by (rule nth_equalityI) (auto simp: nth_append)

lemma butlast_map_upt: "butlast (map f [0..<n]) = map f [0..<n - 1]"
  by (cases n) simp_all

lemma last_map_upt: "0 < n \<Longrightarrow> last (map f [0..<n]) = f (n - 1)"
  by (cases n) simp_all

lemma takeWhile_prefix:
  "\<forall>c\<in>set xs. P c \<Longrightarrow> \<not> P c0 \<Longrightarrow> takeWhile P (xs @ c0 # ys) = xs"
  by (induction xs) auto

lemma dropWhile_prefix:
  "\<forall>c\<in>set xs. P c \<Longrightarrow> \<not> P c0 \<Longrightarrow> dropWhile P (xs @ c0 # ys) = c0 # ys"
  by (induction xs) auto

end
