(* ===== verification/Cells.thy ===== *)
theory Cells
  imports Prelude
begin

text \<open>
  Cells, vectors and rectangles: \<^verbatim>\<open>src/global.h\<close> (cell limits, \<open>ABS\<close>),
  \<^verbatim>\<open>src/division.h\<close> (division and remainder that never trap),
  \<^verbatim>\<open>src/vector.h\<close>, \<^verbatim>\<open>src/vector.c\<close> and \<^verbatim>\<open>src/rect.h\<close>.
\<close>

section \<open>Cell limits and C operators\<close>

definition FUNGECELL_MIN :: cell where
  "FUNGECELL_MIN = 0x8000000000000000"

definition FUNGECELL_MAX :: cell where
  "FUNGECELL_MAX = 0x7FFFFFFFFFFFFFFF"

text \<open>\<open>llabs\<close>; on the least cell it wraps to the least cell.\<close>

definition ABS :: "cell \<Rightarrow> cell" where
  "ABS v = (if v <s 0 then - v else v)"

text \<open>The operators \<open>/\<close> and \<open>%\<close> of C on signed cells, truncating towards zero.\<close>

definition c_div :: "cell \<Rightarrow> cell \<Rightarrow> cell" where
  "c_div a b = word_of_int (sint a sdiv sint b)"

definition c_mod :: "cell \<Rightarrow> cell \<Rightarrow> cell" where
  "c_mod a b = word_of_int (sint a smod sint b)"

definition bool_cell :: "bool \<Rightarrow> cell" where
  "bool_cell b = (if b then 1 else 0)"

lemma sint_FUNGECELL_MIN [simp]: "sint FUNGECELL_MIN = - (2 ^ 63)"
  by (simp add: FUNGECELL_MIN_def)

lemma sint_FUNGECELL_MAX [simp]: "sint FUNGECELL_MAX = 2 ^ 63 - 1"
  by (simp add: FUNGECELL_MAX_def)

lemma eq_FUNGECELL_MIN: "a = FUNGECELL_MIN \<longleftrightarrow> sint a = - (2 ^ 63)"
  by (simp add: cell_eq_iff)

section \<open>Division that never traps\<close>

definition funge_division :: "cell \<Rightarrow> cell \<Rightarrow> cell" where
  "funge_division numerator denominator =
     (if denominator = 0 then 0
      else if numerator = FUNGECELL_MIN \<and> denominator = - 1 then FUNGECELL_MIN
      else c_div numerator denominator)"

definition funge_modulo :: "cell \<Rightarrow> cell \<Rightarrow> cell" where
  "funge_modulo numerator denominator =
     (if denominator = 0 then 0
      else if numerator = FUNGECELL_MIN \<and> denominator = - 1 then 0
      else c_mod numerator denominator)"

lemma abs_sdiv_le: "\<bar>k sdiv l\<bar> \<le> \<bar>k :: int\<bar>"
  using sdiv_int_range [of k l] by auto

lemma sdiv_bound:
  assumes "l \<noteq> - 1 \<or> k \<noteq> - (2 ^ 63)" "- (2 ^ 63) \<le> k" "k < 2 ^ 63"
  shows "- (2 ^ 63) \<le> k sdiv l \<and> k sdiv l < (2 ^ 63 :: int)"
proof -
  have le: "\<bar>k sdiv l\<bar> \<le> \<bar>k\<bar>" by (rule abs_sdiv_le)
  show ?thesis
  proof (cases "k = - (2 ^ 63)")
    case False
    with assms(2,3) have "\<bar>k\<bar> < 2 ^ 63" by linarith
    with le show ?thesis by linarith
  next
    case True
    with assms(1) have "l \<noteq> - 1" by simp
    moreover have "l = 0 \<or> l = 1 \<or> l = - 1 \<or> 2 \<le> \<bar>l\<bar>" by linarith
    moreover have "k sdiv l \<noteq> 2 ^ 63" if "2 \<le> \<bar>l\<bar>"
    proof -
      have "\<bar>k\<bar> div \<bar>l\<bar> \<le> \<bar>k\<bar> div 2"
        using that by (intro zdiv_mono2) auto
      then have "\<bar>k\<bar> div \<bar>l\<bar> < 2 ^ 63" using True by simp
      moreover have "0 \<le> \<bar>k\<bar> div \<bar>l\<bar>"
        using that by (intro pos_imp_zdiv_nonneg_iff [THEN iffD2]) auto
      moreover have "\<bar>sgn k * sgn l\<bar> \<le> 1"
        by (auto simp: sgn_if)
      ultimately show ?thesis
        using True by (auto simp: signed_divide_int_def sgn_if split: if_splits)
    qed
    ultimately show ?thesis using le True by auto
  qed
qed

lemma smod_bound:
  assumes "- (2 ^ 63) \<le> k" "k < (2 ^ 63 :: int)"
  shows "- (2 ^ 63) \<le> k smod l \<and> k smod l < (2 ^ 63 :: int)"
proof -
  have "\<bar>k smod l\<bar> \<le> \<bar>k\<bar>"
    by (cases "l = 0")
      (auto simp: signed_modulo_int_def abs_mult sgn_if zmod_le_nonneg_dividend)
  moreover have "0 \<le> k smod l \<or> k < 0"
    by (cases "l = 0") (auto simp: signed_modulo_int_def sgn_if)
  moreover have "k smod l \<le> 0 \<or> 0 \<le> k"
    by (cases "l = 0") (auto simp: signed_modulo_int_def sgn_if)
  ultimately show ?thesis using assms by linarith
qed

lemma sint_c_div:
  "\<not> (a = FUNGECELL_MIN \<and> b = - 1) \<Longrightarrow> sint (c_div a b) = sint a sdiv sint b"
proof -
  assume nz: "\<not> (a = FUNGECELL_MIN \<and> b = - 1)"
  have "sint b \<noteq> - 1 \<or> sint a \<noteq> - (2 ^ 63)"
    using nz by (auto simp: eq_FUNGECELL_MIN cell_eq_iff [of b])
  from sdiv_bound [OF this cell_sint_ge cell_sint_lt]
  show ?thesis by (simp add: c_div_def sint_of_int_cell)
qed

lemma sint_c_mod: "sint (c_mod a b) = sint a smod sint b"
  using smod_bound [OF cell_sint_ge [of a] cell_sint_lt [of a], of "sint b"]
  by (simp add: c_mod_def sint_of_int_cell)

text \<open>
  division and remainder agree with C on every pair of cells: away from the two cases
  in which the C operators would trap, quotient and remainder are the truncated ones, they
  satisfy the division identity and the remainder is smaller than the divisor; a zero
  divisor gives 0 for both, and the least cell by -1 gives the wrapped quotient and 0.
\<close>

theorem funge_division_modulo:
  "(b \<noteq> 0 \<longrightarrow>
     funge_division a b * b + funge_modulo a b = a \<and>
     \<bar>sint (funge_modulo a b)\<bar> < \<bar>sint b\<bar> \<and>
     (if a = FUNGECELL_MIN \<and> b = - 1 then funge_division a b = FUNGECELL_MIN
      else sint (funge_division a b) = sint a sdiv sint b \<and>
           sint (funge_modulo a b) = sint a smod sint b)) \<and>
   funge_division a 0 = 0 \<and> funge_modulo a 0 = 0"
proof (cases "a = FUNGECELL_MIN \<and> b = - 1")
  case True
  then show ?thesis
    by (simp add: funge_division_def funge_modulo_def FUNGECELL_MIN_def)
next
  case False
  have "word_of_int (sint a sdiv sint b) * b + word_of_int (sint a smod sint b) = a"
  proof -
    have "word_of_int (sint a sdiv sint b) * b + word_of_int (sint a smod sint b) =
        word_of_int (sint a sdiv sint b * sint b + sint a smod sint b)"
      by (simp add: of_int_sint_cell)
    also have "\<dots> = a" by (simp only: sdiv_mult_smod_eq of_int_sint_cell)
    finally show ?thesis .
  qed
  moreover have "\<bar>sint a smod sint b\<bar> < \<bar>sint b\<bar>" if "b \<noteq> 0"
    using that
    by (auto simp: cell_eq_iff [of b] signed_modulo_int_def abs_mult sgn_if)
  ultimately show ?thesis
    using False sint_c_div [OF False, unfolded c_div_def] sint_c_mod [of a b, unfolded c_mod_def]
    by (auto simp: funge_division_def funge_modulo_def c_div_def c_mod_def)
qed

theorem funge_division_modulo_witness:
  "funge_division (- 7) 2 * 2 + funge_modulo (- 7) 2 = (- 7 :: cell) \<and>
   \<bar>sint (funge_modulo (- 7) 2)\<bar> < 2"
  using funge_division_modulo [of 2 "- 7"] by simp

section \<open>Vectors and rectangles\<close>

record funge_vector =
  vec_x :: cell
  vec_y :: cell

abbreviation vector :: "cell \<Rightarrow> cell \<Rightarrow> funge_vector" where
  "vector a b \<equiv> \<lparr>vec_x = a, vec_y = b\<rparr>"

text \<open>Component-wise sum, difference and multiple: how the code moves a position.\<close>

definition vector_add :: "funge_vector \<Rightarrow> funge_vector \<Rightarrow> funge_vector" where
  "vector_add a b = vector (vec_x a + vec_x b) (vec_y a + vec_y b)"

definition vector_sub :: "funge_vector \<Rightarrow> funge_vector \<Rightarrow> funge_vector" where
  "vector_sub a b = vector (vec_x a - vec_x b) (vec_y a - vec_y b)"

definition vector_is_cardinal :: "funge_vector \<Rightarrow> bool" where
  "vector_is_cardinal v =
     (let ax = ABS (vec_x v); ay = ABS (vec_y v) in
      if ax + ay \<noteq> 1 then False
      else if ax \<noteq> 0 \<and> ay \<noteq> 0 then False
      else True)"

record fungeRect =
  rect_x :: cell
  rect_y :: cell
  rect_w :: cell
  rect_h :: cell

lemma vector_eqI: "vec_x a = vec_x b \<Longrightarrow> vec_y a = vec_y b \<Longrightarrow> a = (b :: funge_vector)"
  by simp

lemma vector_eq_iff: "a = b \<longleftrightarrow> vec_x a = vec_x b \<and> vec_y a = vec_y (b :: funge_vector)"
  by (cases a; cases b) simp

lemma vector_sub_add [simp]: "vector_sub (vector_add p d) d = p"
  by (simp add: vector_add_def vector_sub_def)

lemma vector_add_sub [simp]: "vector_add (vector_sub p d) d = p"
  by (simp add: vector_add_def vector_sub_def)

lemma ABS_eq_0: "ABS a = 0 \<longleftrightarrow> a = 0"
  by (simp add: ABS_def)

lemma ABS_eq_1: "ABS a = 1 \<longleftrightarrow> a = 1 \<or> a = - 1"
  by (auto simp: ABS_def cell_less_iff minus_equation_iff)

lemma vector_is_cardinal_cases:
  "vector_is_cardinal v \<longleftrightarrow>
     v \<in> {vector 1 0, vector (- 1) 0, vector 0 1, vector 0 (- 1)}"
proof -
  have "vector_is_cardinal v \<longleftrightarrow>
      (ABS (vec_x v) = 0 \<and> ABS (vec_y v) = 1) \<or> (ABS (vec_x v) = 1 \<and> ABS (vec_y v) = 0)"
    by (auto simp: vector_is_cardinal_def Let_def)
  then show ?thesis
    by (auto simp: ABS_eq_0 ABS_eq_1 vector_eq_iff)
qed

text \<open>
  The cardinality test answers yes on exactly the four unit steps east, west, south
  and north; no wrap-around of the absolute values or of their sum lets another delta pass.
\<close>

theorem vector_is_cardinal_iff:
  "vector_is_cardinal v \<longleftrightarrow>
     v \<in> {vector 1 0, vector (- 1) 0, vector 0 1, vector 0 (- 1)}"
  by (rule vector_is_cardinal_cases)

end
