(* ===== verification/Ght.thy ===== *)
theory Ght
  imports Prelude
begin

text \<open>
  The hash table of \<^verbatim>\<open>lib/libghthash\<close>: \<^verbatim>\<open>hash_table_priv.h\<close> is compiled twice
  (\<^verbatim>\<open>hash_table.c\<close>), once with keys that are positions and cells as data, once with keys
  that are cells and counts as data, so it is generic here: a table has the key type
  \<open>'k\<close>, the data type \<open>'v\<close>, and every operation takes the hash function of its instance.

  A bucket is the list of its entries, first entry of the chain first; the list of ages
  (\<open>p_oldest\<close>, \<open>p_newer\<close>, ...) that iteration follows is the list of the keys from the oldest
  to the newest. Entries have distinct keys, so a key stands for its entry in both lists.
  The build defines no lookup heuristics (\<open>GHT_HEURISTICS_NONE\<close>). Theory \<open>Ght_Links\<close> has the
  same operations on the pointers of the entries, and \<open>Ght_Refine\<close> shows that both agree.
\<close>

section \<open>Hash functions\<close>

definition crc32_table :: "32 word list" where
  "crc32_table =
    [0x00000000, 0x04c11db7, 0x09823b6e, 0x0d4326d9, 0x130476dc, 0x17c56b6b,
     0x1a864db2, 0x1e475005, 0x2608edb8, 0x22c9f00f, 0x2f8ad6d6, 0x2b4bcb61,
     0x350c9b64, 0x31cd86d3, 0x3c8ea00a, 0x384fbdbd, 0x4c11db70, 0x48d0c6c7,
     0x4593e01e, 0x4152fda9, 0x5f15adac, 0x5bd4b01b, 0x569796c2, 0x52568b75,
     0x6a1936c8, 0x6ed82b7f, 0x639b0da6, 0x675a1011, 0x791d4014, 0x7ddc5da3,
     0x709f7b7a, 0x745e66cd, 0x9823b6e0, 0x9ce2ab57, 0x91a18d8e, 0x95609039,
     0x8b27c03c, 0x8fe6dd8b, 0x82a5fb52, 0x8664e6e5, 0xbe2b5b58, 0xbaea46ef,
     0xb7a96036, 0xb3687d81, 0xad2f2d84, 0xa9ee3033, 0xa4ad16ea, 0xa06c0b5d,
     0xd4326d90, 0xd0f37027, 0xddb056fe, 0xd9714b49, 0xc7361b4c, 0xc3f706fb,
     0xceb42022, 0xca753d95, 0xf23a8028, 0xf6fb9d9f, 0xfbb8bb46, 0xff79a6f1,
     0xe13ef6f4, 0xe5ffeb43, 0xe8bccd9a, 0xec7dd02d, 0x34867077, 0x30476dc0,
     0x3d044b19, 0x39c556ae, 0x278206ab, 0x23431b1c, 0x2e003dc5, 0x2ac12072,
     0x128e9dcf, 0x164f8078, 0x1b0ca6a1, 0x1fcdbb16, 0x018aeb13, 0x054bf6a4,
     0x0808d07d, 0x0cc9cdca, 0x7897ab07, 0x7c56b6b0, 0x71159069, 0x75d48dde,
     0x6b93dddb, 0x6f52c06c, 0x6211e6b5, 0x66d0fb02, 0x5e9f46bf, 0x5a5e5b08,
     0x571d7dd1, 0x53dc6066, 0x4d9b3063, 0x495a2dd4, 0x44190b0d, 0x40d816ba,
     0xaca5c697, 0xa864db20, 0xa527fdf9, 0xa1e6e04e, 0xbfa1b04b, 0xbb60adfc,
     0xb6238b25, 0xb2e29692, 0x8aad2b2f, 0x8e6c3698, 0x832f1041, 0x87ee0df6,
     0x99a95df3, 0x9d684044, 0x902b669d, 0x94ea7b2a, 0xe0b41de7, 0xe4750050,
     0xe9362689, 0xedf73b3e, 0xf3b06b3b, 0xf771768c, 0xfa325055, 0xfef34de2,
     0xc6bcf05f, 0xc27dede8, 0xcf3ecb31, 0xcbffd686, 0xd5b88683, 0xd1799b34,
     0xdc3abded, 0xd8fba05a, 0x690ce0ee, 0x6dcdfd59, 0x608edb80, 0x644fc637,
     0x7a089632, 0x7ec98b85, 0x738aad5c, 0x774bb0eb, 0x4f040d56, 0x4bc510e1,
     0x46863638, 0x42472b8f, 0x5c007b8a, 0x58c1663d, 0x558240e4, 0x51435d53,
     0x251d3b9e, 0x21dc2629, 0x2c9f00f0, 0x285e1d47, 0x36194d42, 0x32d850f5,
     0x3f9b762c, 0x3b5a6b9b, 0x0315d626, 0x07d4cb91, 0x0a97ed48, 0x0e56f0ff,
     0x1011a0fa, 0x14d0bd4d, 0x19939b94, 0x1d528623, 0xf12f560e, 0xf5ee4bb9,
     0xf8ad6d60, 0xfc6c70d7, 0xe22b20d2, 0xe6ea3d65, 0xeba91bbc, 0xef68060b,
     0xd727bbb6, 0xd3e6a601, 0xdea580d8, 0xda649d6f, 0xc423cd6a, 0xc0e2d0dd,
     0xcda1f604, 0xc960ebb3, 0xbd3e8d7e, 0xb9ff90c9, 0xb4bcb610, 0xb07daba7,
     0xae3afba2, 0xaafbe615, 0xa7b8c0cc, 0xa379dd7b, 0x9b3660c6, 0x9ff77d71,
     0x92b45ba8, 0x9675461f, 0x8832161a, 0x8cf30bad, 0x81b02d74, 0x857130c3,
     0x5d8a9099, 0x594b8d2e, 0x5408abf7, 0x50c9b640, 0x4e8ee645, 0x4a4ffbf2,
     0x470cdd2b, 0x43cdc09c, 0x7b827d21, 0x7f436096, 0x7200464f, 0x76c15bf8,
     0x68860bfd, 0x6c47164a, 0x61043093, 0x65c52d24, 0x119b4be9, 0x155a565e,
     0x18197087, 0x1cd86d30, 0x029f3d35, 0x065e2082, 0x0b1d065b, 0x0fdc1bec,
     0x3793a651, 0x3352bbe6, 0x3e119d3f, 0x3ad08088, 0x2497d08d, 0x2056cd3a,
     0x2d15ebe3, 0x29d4f654, 0xc5a92679, 0xc1683bce, 0xcc2b1d17, 0xc8ea00a0,
     0xd6ad50a5, 0xd26c4d12, 0xdf2f6bcb, 0xdbee767c, 0xe3a1cbc1, 0xe760d676,
     0xea23f0af, 0xeee2ed18, 0xf0a5bd1d, 0xf464a0aa, 0xf9278673, 0xfde69bc4,
     0x89b8fd09, 0x8d79e0be, 0x803ac667, 0x84fbdbd0, 0x9abc8bd5, 0x9e7d9662,
     0x933eb0bb, 0x97ffad0c, 0xafb010b1, 0xab710d06, 0xa6322bdf, 0xa2f33668,
     0xbcb4666d, 0xb8757bda, 0xb5365d03, 0xb1f740b4]"

definition crc_step :: "32 word \<Rightarrow> byte \<Rightarrow> 32 word" where
  "crc_step crc p = push_bit 8 crc XOR
     crc32_table ! unat (drop_bit 24 crc XOR (ucast p :: 32 word))"

definition crc_hash :: "byte list \<Rightarrow> 32 word" where
  "crc_hash key_bytes = NOT (foldl crc_step 0xffffffff key_bytes)"

text \<open>The bytes of a cell in memory (little endian).\<close>

definition cell_bytes :: "cell \<Rightarrow> byte list" where
  "cell_bytes c = map (\<lambda>i. ucast (drop_bit (8 * i) c)) [0..<8]"

lemma length_crc32_table: "length crc32_table = 256"
  by (simp add: crc32_table_def)

lemma crc_index_in_table:
  "unat (drop_bit 24 (crc :: 32 word) XOR (ucast (p :: byte) :: 32 word)) < length crc32_table"
proof -
  have "drop_bit 24 crc XOR ucast p = (drop_bit 24 crc XOR (ucast p :: 32 word)) AND mask 8"
    by (rule bit_word_eqI) (auto simp: bit_simps dest: bit_imp_le_length)
  also have "\<dots> \<le> mask 8" by (rule word_and_le1)
  finally have "drop_bit 24 crc XOR ucast p \<le> (255 :: 32 word)" by (simp add: mask_eq_exp_minus_1)
  then show ?thesis by (simp add: length_crc32_table word_le_nat_alt)
qed

section \<open>Tables\<close>

record ('k, 'v) ght_hash_table =
  i_items :: nat
  i_size :: nat
  i_automatic_rehash :: bool
  i_size_mask :: "32 word"
  pp_entries :: "nat \<Rightarrow> ('k \<times> 'v) list"
  p_nr :: "nat \<Rightarrow> nat"
  p_order :: "'k list"

text \<open>\<open>while (p_ht->i_size < i_size) p_ht->i_size = 1 << i++;\<close>\<close>

function ght_size_loop :: "nat \<Rightarrow> nat \<Rightarrow> nat \<Rightarrow> nat \<times> nat" where
  "ght_size_loop n sz i = (if sz < n then ght_size_loop n (2 ^ i) (i + 1) else (sz, i))"
  by pat_completeness auto
termination
proof (relation "measure (\<lambda>(n, sz, i). if sz < n then Suc (n - i) else 0)")
  fix n sz i :: nat
  assume less: "sz < n"
  have "n - Suc i < n - i" if "2 ^ i < n"
    using that less_exp [of i] by linarith
  then show "((n, 2 ^ i, i + 1), n, sz, i) \<in>
      measure (\<lambda>(n, sz, i). if sz < n then Suc (n - i) else 0)"
    using less by auto
qed simp

declare ght_size_loop.simps [simp del]

definition ght_create :: "nat \<Rightarrow> ('k, 'v) ght_hash_table" where
  "ght_create n =
     (let (sz, i) = ght_size_loop n 1 1
      in \<lparr>i_items = 0, i_size = sz, i_automatic_rehash = False,
          i_size_mask = of_nat (2 ^ (i - 1) - 1),
          pp_entries = (\<lambda>_. []), p_nr = (\<lambda>_. 0), p_order = []\<rparr>)"

text \<open>
  Creation fails when an allocation does, and beyond \<open>2 ^ 30\<close> buckets, where \<open>1 << i++\<close> leaves
  the range of \<open>int\<close>. The callers here do not survive that (see \<open>ght_rehash\<close>).
\<close>

definition ght_create_fails :: "allocator \<Rightarrow> nat \<Rightarrow> bool" where
  "ght_create_fails al n \<longleftrightarrow>
     (let (sz, i) = ght_size_loop n 1 1
      in \<not> al 56 \<or> 2 ^ 30 < sz \<or> \<not> al (sz * 8) \<or> \<not> al (sz * 4))"

definition ght_set_rehash :: "('k, 'v) ght_hash_table \<Rightarrow> bool \<Rightarrow> ('k, 'v) ght_hash_table" where
  "ght_set_rehash p_ht b_rehash = p_ht\<lparr>i_automatic_rehash := b_rehash\<rparr>"

definition ght_l_key :: "('k \<Rightarrow> 32 word) \<Rightarrow> ('k, 'v) ght_hash_table \<Rightarrow> 'k \<Rightarrow> nat" where
  "ght_l_key hash p_ht k = unat (hash k AND i_size_mask p_ht)"

text \<open>\<open>search_in_bucket\<close>: the data of the first entry of the chain with that key.\<close>

fun search_in_bucket :: "('k \<times> 'v) list \<Rightarrow> 'k \<Rightarrow> 'v option" where
  "search_in_bucket [] key = None"
| "search_in_bucket ((k, v) # chain) key =
     (if k = key then Some v else search_in_bucket chain key)"

definition ght_get :: "('k \<Rightarrow> 32 word) \<Rightarrow> ('k, 'v) ght_hash_table \<Rightarrow> 'k \<Rightarrow> 'v option" where
  "ght_get hash p_ht key = search_in_bucket (pp_entries p_ht (ght_l_key hash p_ht key)) key"

text \<open>The second half of an insertion: the new entry goes first in its bucket and is the newest.\<close>

definition ght_link :: "('k \<Rightarrow> 32 word) \<Rightarrow> ('k, 'v) ght_hash_table \<Rightarrow> 'v \<Rightarrow> 'k \<Rightarrow>
    ('k, 'v) ght_hash_table" where
  "ght_link hash p_ht v k =
     (let l_key = ght_l_key hash p_ht k
      in p_ht\<lparr>pp_entries := (pp_entries p_ht)(l_key := (k, v) # pp_entries p_ht l_key),
              p_nr := (p_nr p_ht)(l_key := p_nr p_ht l_key + 1),
              i_items := i_items p_ht + 1,
              p_order := p_order p_ht @ [k]\<rparr>)"

text \<open>An insertion into a table whose automatic rehashing is off, as \<open>ght_rehash\<close> does them.\<close>

definition ght_insert_plain :: "('k \<Rightarrow> 32 word) \<Rightarrow> ('k, 'v) ght_hash_table \<Rightarrow> 'v \<Rightarrow> 'k \<Rightarrow>
    int \<times> ('k, 'v) ght_hash_table" where
  "ght_insert_plain hash p_ht v k =
     (if ght_get hash p_ht k \<noteq> None then (- 1, p_ht) else (0, ght_link hash p_ht v k))"

text \<open>
  Iteration, \<open>ght_first\<close> and \<open>ght_next\<close>: an iterator holds the current entry and the ones that
  are still newer; the entries come from the oldest to the newest.
\<close>

definition ght_entries :: "('k \<Rightarrow> 32 word) \<Rightarrow> ('k, 'v) ght_hash_table \<Rightarrow> ('k \<times> 'v) list" where
  "ght_entries hash p_ht = map (\<lambda>k. (k, the (ght_get hash p_ht k))) (p_order p_ht)"

type_synonym ('k, 'v) ght_iterator = "('k \<times> 'v) option \<times> ('k \<times> 'v) list"

definition ght_first :: "('k \<Rightarrow> 32 word) \<Rightarrow> ('k, 'v) ght_hash_table \<Rightarrow>
    ('k \<times> 'v) option \<times> ('k, 'v) ght_iterator" where
  "ght_first hash p_ht =
     (case ght_entries hash p_ht of
        [] \<Rightarrow> (None, (None, []))
      | e # newer \<Rightarrow> (Some e, (Some e, newer)))"

fun ght_next :: "('k, 'v) ght_iterator \<Rightarrow> ('k \<times> 'v) option \<times> ('k, 'v) ght_iterator" where
  "ght_next (_, []) = (None, (None, []))"
| "ght_next (_, e # newer) = (Some e, (Some e, newer))"

text \<open>
  \<open>ght_rehash\<close>: all entries, oldest first, are inserted into a new table, which replaces the
  old one. A failed creation or insertion ends the process.
\<close>

definition ght_rehash :: "('k \<Rightarrow> 32 word) \<Rightarrow> ('k, 'v) ght_hash_table \<Rightarrow> nat \<Rightarrow>
    ('k, 'v) ght_hash_table" where
  "ght_rehash hash p_ht n =
     (let p_tmp = ght_set_rehash (ght_create n) False;
          p_tmp = fold (\<lambda>(k, v) t. snd (ght_insert_plain hash t v k)) (ght_entries hash p_ht) p_tmp
      in p_tmp\<lparr>i_automatic_rehash := i_automatic_rehash p_ht\<rparr>)"

definition ght_insert :: "('k \<Rightarrow> 32 word) \<Rightarrow> ('k, 'v) ght_hash_table \<Rightarrow> 'v \<Rightarrow> 'k \<Rightarrow>
    int \<times> ('k, 'v) ght_hash_table" where
  "ght_insert hash p_ht v k =
     (if ght_get hash p_ht k \<noteq> None then (- 1, p_ht)
      else
        (let p_ht = (if i_automatic_rehash p_ht \<and> 2 * i_size p_ht < i_items p_ht
                     then ght_rehash hash p_ht (2 * i_size p_ht) else p_ht)
         in (0, ght_link hash p_ht v k)))"

fun chain_replace :: "('k \<times> 'v) list \<Rightarrow> 'k \<Rightarrow> 'v \<Rightarrow> ('k \<times> 'v) list" where
  "chain_replace [] key d = []"
| "chain_replace ((k, v) # chain) key d =
     (if k = key then (k, d) # chain else (k, v) # chain_replace chain key d)"

fun chain_remove :: "('k \<times> 'v) list \<Rightarrow> 'k \<Rightarrow> ('k \<times> 'v) list" where
  "chain_remove [] key = []"
| "chain_remove ((k, v) # chain) key =
     (if k = key then chain else (k, v) # chain_remove chain key)"

text \<open>Writing through the pointer that \<open>ght_get\<close> returns.\<close>

definition ght_write :: "('k \<Rightarrow> 32 word) \<Rightarrow> ('k, 'v) ght_hash_table \<Rightarrow> 'v \<Rightarrow> 'k \<Rightarrow>
    ('k, 'v) ght_hash_table" where
  "ght_write hash p_ht v k =
     (let l_key = ght_l_key hash p_ht k
      in p_ht\<lparr>pp_entries := (pp_entries p_ht)(l_key := chain_replace (pp_entries p_ht l_key) k v)\<rparr>)"

text \<open>The result \<open>None\<close> is the \<open>-1\<close> of an absent key.\<close>

definition ght_replace :: "('k \<Rightarrow> 32 word) \<Rightarrow> ('k, 'v) ght_hash_table \<Rightarrow> 'v \<Rightarrow> 'k \<Rightarrow>
    'v option \<times> ('k, 'v) ght_hash_table" where
  "ght_replace hash p_ht v k =
     (case ght_get hash p_ht k of
        None \<Rightarrow> (None, p_ht)
      | Some p_old \<Rightarrow> (Some p_old, ght_write hash p_ht v k))"

text \<open>The result \<open>None\<close> is the 0 of an absent key.\<close>

definition ght_remove :: "('k \<Rightarrow> 32 word) \<Rightarrow> ('k, 'v) ght_hash_table \<Rightarrow> 'k \<Rightarrow>
    'v option \<times> ('k, 'v) ght_hash_table" where
  "ght_remove hash p_ht k =
     (case ght_get hash p_ht k of
        None \<Rightarrow> (None, p_ht)
      | Some p_data \<Rightarrow>
        (let l_key = ght_l_key hash p_ht k
         in (Some p_data,
             p_ht\<lparr>pp_entries := (pp_entries p_ht)(l_key := chain_remove (pp_entries p_ht l_key) k),
                  i_items := i_items p_ht - 1,
                  p_nr := (p_nr p_ht)(l_key := p_nr p_ht l_key - 1),
                  p_order := remove1 k (p_order p_ht)\<rparr>)))"

section \<open>What a table represents\<close>

definition ght_ok :: "('k \<Rightarrow> 32 word) \<Rightarrow> ('k, 'v) ght_hash_table \<Rightarrow> bool" where
  "ght_ok hash t \<longleftrightarrow>
     (\<exists>n. i_size t = 2 ^ n \<and> i_size_mask t = of_nat (2 ^ n - 1)) \<and>
     (\<forall>b. distinct (map fst (pp_entries t b)) \<and> p_nr t b = length (pp_entries t b) \<and>
          (\<forall>k\<in>fst ` set (pp_entries t b). b = ght_l_key hash t k)) \<and>
     distinct (p_order t) \<and> i_items t = length (p_order t) \<and>
     set (p_order t) = {k. ght_get hash t k \<noteq> None}"

lemma search_in_bucket_map_of: "search_in_bucket chain k = map_of chain k"
  by (induction chain k rule: search_in_bucket.induct) auto

lemma ght_get_map_of: "ght_get hash t k = map_of (pp_entries t (ght_l_key hash t k)) k"
  by (simp add: ght_get_def search_in_bucket_map_of)

lemma unat_of_nat_le: "unat (of_nat m :: 32 word) \<le> m"
  by (simp add: unat_of_nat)

lemma ght_okD:
  assumes "ght_ok hash t"
  shows "distinct (map fst (pp_entries t b))" "p_nr t b = length (pp_entries t b)"
    "k \<in> fst ` set (pp_entries t b) \<Longrightarrow> b = ght_l_key hash t k"
    "distinct (p_order t)" "i_items t = length (p_order t)"
    "set (p_order t) = {k. ght_get hash t k \<noteq> None}"
  using assms by (auto simp: ght_ok_def)

text \<open>Every entry lies in a bucket of the table.\<close>

lemma ght_l_key_less: "ght_ok hash t \<Longrightarrow> ght_l_key hash t k < i_size t"
proof -
  assume "ght_ok hash t"
  then obtain n where n: "i_size t = 2 ^ n" "i_size_mask t = of_nat (2 ^ n - 1)"
    by (auto simp: ght_ok_def)
  have "hash k AND i_size_mask t \<le> i_size_mask t"
    by (rule word_and_le1)
  then have "unat (hash k AND i_size_mask t) \<le> unat (of_nat (2 ^ n - 1) :: 32 word)"
    unfolding n word_le_nat_alt .
  also have "\<dots> \<le> 2 ^ n - 1" by (rule unat_of_nat_le)
  also have "\<dots> < 2 ^ n" by simp
  finally show ?thesis by (simp add: ght_l_key_def n(1))
qed

lemma ght_size_loop_power:
  "sz = 2 ^ (i - 1) \<Longrightarrow> 0 < i \<Longrightarrow>
     (\<exists>j>0. ght_size_loop n sz i = (2 ^ (j - 1), j)) \<and> n \<le> fst (ght_size_loop n sz i)"
proof (induction n sz i rule: ght_size_loop.induct)
  case (1 n sz i)
  note unfold = ght_size_loop.simps [of n sz i]
  show ?case
  proof (cases "sz < n")
    case True
    then show ?thesis using 1(1) by (simp add: unfold)
  next
    case False
    then show ?thesis using 1(2,3) unfolding unfold by simp
  qed
qed

lemma ght_create_size: "n \<le> i_size (ght_create n) \<and>
   (\<exists>m. i_size (ght_create n) = 2 ^ m \<and> i_size_mask (ght_create n) = of_nat (2 ^ m - 1))"
  using ght_size_loop_power [of 1 1 n]
  by (auto simp: ght_create_def split_beta Let_def) 

lemma ght_create_simps [simp]:
  "pp_entries (ght_create n) = (\<lambda>_. [])" "p_order (ght_create n) = []"
  "i_items (ght_create n) = 0" "p_nr (ght_create n) = (\<lambda>_. 0)"
  by (simp_all add: ght_create_def Let_def split_beta)

lemma ght_create_ok: "ght_ok hash (ght_create n)"
  using ght_create_size [of n] unfolding ght_ok_def by (auto simp: ght_get_map_of)

lemma ght_get_create: "ght_get hash (ght_create n) k = None"
  by (simp add: ght_get_def ght_create_def Let_def split_beta)

lemma ght_set_rehash_simps [simp]:
  "ght_l_key hash (t\<lparr>i_automatic_rehash := b\<rparr>) = ght_l_key hash t"
  "ght_get hash (t\<lparr>i_automatic_rehash := b\<rparr>) = ght_get hash t"
  "ght_ok hash (t\<lparr>i_automatic_rehash := b\<rparr>) = ght_ok hash t"
  "ght_set_rehash t b = t\<lparr>i_automatic_rehash := b\<rparr>"
  by (auto simp: ght_set_rehash_def ght_l_key_def ght_get_def ght_ok_def fun_eq_iff)

lemma ght_l_key_link [simp]: "ght_l_key hash (ght_link hash t v k) = ght_l_key hash t"
  by (auto simp: ght_link_def Let_def ght_l_key_def)

lemma ght_get_link: "ght_get hash (ght_link hash t v k) = (ght_get hash t)(k \<mapsto> v)"
  by (rule ext, simp add: ght_get_map_of) (simp add: ght_link_def Let_def)

lemma ght_order_link [simp]: "p_order (ght_link hash t v k) = p_order t @ [k]"
  by (simp add: ght_link_def Let_def)

lemma ght_ok_link:
  assumes "ght_ok hash t" "ght_get hash t k = None"
  shows "ght_ok hash (ght_link hash t v k)"
proof -
  have "k \<notin> fst ` set (pp_entries t (ght_l_key hash t k))"
    using assms(2) by (simp add: ght_get_map_of map_of_eq_None_iff)
  moreover have "k \<notin> set (p_order t)"
    using assms ght_okD(6) by fastforce
  ultimately show ?thesis
    using assms(1) unfolding ght_ok_def ght_l_key_link ght_get_link
    by (auto simp: ght_link_def Let_def)
qed

lemma ght_get_order: "ght_ok hash t \<Longrightarrow> k \<in> set (p_order t) \<longleftrightarrow> ght_get hash t k \<noteq> None"
  using ght_okD(6) by fastforce

lemma map_of_graph: "map_of (map (\<lambda>k. (k, f k)) ks) x = (if x \<in> set ks then Some (f x) else None)"
  by (induction ks) auto

lemma ght_entries_simps:
  assumes "ght_ok hash t"
  shows "distinct (map fst (ght_entries hash t))" "map_of (ght_entries hash t) = ght_get hash t"
    "map fst (ght_entries hash t) = p_order t"
proof -
  show "map fst (ght_entries hash t) = p_order t" by (simp add: ght_entries_def comp_def)
  then show "distinct (map fst (ght_entries hash t))" using assms ght_okD(4) by metis
  show "map_of (ght_entries hash t) = ght_get hash t"
    using ght_get_order [OF assms]
    by (fastforce simp: ght_entries_def map_of_graph fun_eq_iff)
qed

text \<open>The reinsertion loop: no insertion of a rehash fails, and none is lost.\<close>

lemma ght_reinsert:
  assumes "ght_ok hash t" "distinct (map fst es)" "\<forall>k\<in>set (map fst es). ght_get hash t k = None"
  defines "t' \<equiv> fold (\<lambda>(k, v) t. snd (ght_insert_plain hash t v k)) es t"
  shows "ght_ok hash t' \<and> ght_get hash t' = ght_get hash t ++ map_of es \<and>
         p_order t' = p_order t @ map fst es"
  using assms(1-3) unfolding t'_def
proof (induction es arbitrary: t)
  case (Cons e es)
  obtain k v where e: "e = (k, v)" by (cases e)
  have ins: "snd (ght_insert_plain hash t v k) = ght_link hash t v k"
    using Cons.prems(3) e by (simp add: ght_insert_plain_def)
  have "\<forall>k'\<in>set (map fst es). ght_get hash (ght_link hash t v k) k' = None"
    using Cons.prems(2,3) e by (auto simp: ght_get_link)
  with Cons.IH [of "ght_link hash t v k"] Cons.prems e ins show ?case
    by (auto simp: ght_ok_link ght_get_link fun_eq_iff map_add_def dom_map_of_conv_image_fst
        map_of_eq_None_iff split: option.splits)
qed simp

lemma ght_rehash_keeps:
  assumes "ght_ok hash t"
  shows "ght_ok hash (ght_rehash hash t n) \<and> ght_get hash (ght_rehash hash t n) = ght_get hash t \<and>
         p_order (ght_rehash hash t n) = p_order t"
  using ght_reinsert [of hash "ght_set_rehash (ght_create n) False" "ght_entries hash t"]
    ght_entries_simps [OF assms]
  by (simp add: ght_rehash_def Let_def ght_create_ok ght_get_create map_add_def fun_eq_iff
      split: option.splits)

lemma ght_insert_spec:
  assumes "ght_ok hash t" "ght_get hash t k = None"
  shows "fst (ght_insert hash t v k) = 0 \<and> ght_ok hash (snd (ght_insert hash t v k)) \<and>
         ght_get hash (snd (ght_insert hash t v k)) = (ght_get hash t)(k \<mapsto> v) \<and>
         p_order (snd (ght_insert hash t v k)) = p_order t @ [k]"
  using assms ght_rehash_keeps [OF assms(1)]
  by (simp add: ght_insert_def Let_def ght_ok_link ght_get_link)

lemma map_of_chain_replace:
  "map_of (chain_replace chain k v) =
     (if k \<in> fst ` set chain then (map_of chain)(k \<mapsto> v) else map_of chain)"
  by (induction chain k v rule: chain_replace.induct) (auto simp: fun_eq_iff)

lemma keys_chain_replace [simp]: "map fst (chain_replace chain k v) = map fst chain"
  by (induction chain k v rule: chain_replace.induct) auto

lemma fst_chain_replace [simp]: "fst ` set (chain_replace chain k v) = fst ` set chain"
  by (metis keys_chain_replace set_map)

lemma chain_replace_keyD: "(a, b) \<in> set (chain_replace chain k v) \<Longrightarrow> \<exists>c. (a, c) \<in> set chain"
proof -
  assume "(a, b) \<in> set (chain_replace chain k v)"
  then have "a \<in> fst ` set (chain_replace chain k v)" by (rule rev_image_eqI) simp
  then show ?thesis by auto
qed

lemma length_chain_replace [simp]: "length (chain_replace chain k v) = length chain"
  by (metis keys_chain_replace length_map)

lemma ght_l_key_write [simp]: "ght_l_key hash (ght_write hash t v k) = ght_l_key hash t"
  by (auto simp: ght_write_def Let_def ght_l_key_def)

lemma ght_get_write:
  "ght_get hash t k \<noteq> None \<Longrightarrow> ght_get hash (ght_write hash t v k) = (ght_get hash t)(k \<mapsto> v)"
  using map_of_eq_None_iff [of "pp_entries t (ght_l_key hash t k)" k]
  by (intro ext) (simp add: ght_get_map_of, auto simp: ght_write_def Let_def map_of_chain_replace)

lemma ght_order_write [simp]: "p_order (ght_write hash t v k) = p_order t"
  by (simp add: ght_write_def Let_def)

lemma ght_ok_write:
  assumes "ght_ok hash t" "ght_get hash t k \<noteq> None"
  shows "ght_ok hash (ght_write hash t v k)"
proof -
  have "pp_entries (ght_write hash t v k) =
      (\<lambda>b. if b = ght_l_key hash t k then chain_replace (pp_entries t b) k v else pp_entries t b)"
    by (auto simp: ght_write_def Let_def)
  then show ?thesis
    using assms unfolding ght_ok_def ght_l_key_write ght_get_write [OF assms(2)] ght_order_write
    by (auto simp: ght_write_def Let_def dest!: chain_replace_keyD) fastforce
qed

lemma map_of_chain_remove:
  "distinct (map fst chain) \<Longrightarrow> map_of (chain_remove chain k) = (map_of chain)(k := None)"
  by (induction chain k rule: chain_remove.induct) (auto simp: fun_eq_iff map_of_eq_None_iff)

lemma chain_remove_facts:
  "set (chain_remove chain k) \<subseteq> set chain"
  "distinct (map fst chain) \<Longrightarrow> distinct (map fst (chain_remove chain k))"
  "k \<in> fst ` set chain \<Longrightarrow> length (chain_remove chain k) = length chain - 1"
proof (induction chain k rule: chain_remove.induct)
  case (2 k' v chain k)
  { case 1 then show ?case using "2.IH"(1) by auto }
  { case 2 then show ?case using "2.IH"(1,2) by auto }
  { case 3 then show ?case using "2.IH"(3) by (cases chain) auto }
qed auto

lemma ght_l_key_remove [simp]: "ght_l_key hash (snd (ght_remove hash t k)) = ght_l_key hash t"
  by (auto simp: ght_remove_def Let_def ght_l_key_def split: option.splits)

lemma ght_remove_value: "fst (ght_remove hash t k) = ght_get hash t k"
  by (simp add: ght_remove_def Let_def split: option.splits)

lemma ght_get_remove:
  assumes "ght_ok hash t"
  shows "ght_get hash (snd (ght_remove hash t k)) = (ght_get hash t)(k := None)"
proof (cases "ght_get hash t k")
  case None
  then show ?thesis by (simp add: ght_remove_def fun_eq_iff)
next
  case (Some v)
  have "distinct (map fst (pp_entries t b))" for b using assms ght_okD(1) by metis
  then show ?thesis
    using Some by (intro ext) (simp add: ght_get_map_of,
      auto simp: ght_remove_def ght_get_map_of Let_def map_of_chain_remove)
qed

lemma ght_order_remove:
  assumes "ght_ok hash t"
  shows "p_order (snd (ght_remove hash t k)) = filter (\<lambda>j. j \<noteq> k) (p_order t)"
proof (cases "ght_get hash t k")
  case None
  then have "k \<notin> set (p_order t)" using ght_get_order [OF assms] by simp
  then have "filter (\<lambda>j. j \<noteq> k) (p_order t) = p_order t" by (auto simp: filter_id_conv)
  then show ?thesis using None by (simp add: ght_remove_def)
next
  case (Some v)
  then show ?thesis
    using ght_okD(4) [OF assms]
    by (simp add: ght_remove_def Let_def distinct_remove1_removeAll removeAll_filter_not_eq)
      (metis)
qed

lemma ght_ok_remove:
  assumes "ght_ok hash t"
  shows "ght_ok hash (snd (ght_remove hash t k))"
proof (cases "ght_get hash t k")
  case None
  then show ?thesis using assms by (simp add: ght_remove_def)
next
  case (Some v)
  let ?l = "ght_l_key hash t k" and ?t = "snd (ght_remove hash t k)"
  have key: "k \<in> fst ` set (pp_entries t ?l)"
    using Some map_of_eq_None_iff [of "pp_entries t ?l" k] by (simp add: ght_get_map_of)
  have chain: "pp_entries ?t b = (if b = ?l then chain_remove (pp_entries t ?l) k else pp_entries t b)"
    "p_nr ?t b = (if b = ?l then p_nr t ?l - 1 else p_nr t b)"
    "i_size ?t = i_size t" "i_size_mask ?t = i_size_mask t" "i_items ?t = i_items t - 1" for b
    using Some by (simp_all add: ght_remove_def Let_def)
  have "k \<in> set (p_order t)" using Some ght_get_order [OF assms] by simp
  then have "length (remove1 k (p_order t)) = length (p_order t) - 1"
    by (simp add: length_remove1)
  then have "length (filter (\<lambda>j. j \<noteq> k) (p_order t)) = length (p_order t) - 1"
    using ght_order_remove [OF assms, of k] Some by (simp add: ght_remove_def Let_def)
  moreover have "distinct (map fst (pp_entries ?t b)) \<and> p_nr ?t b = length (pp_entries ?t b) \<and>
      (\<forall>j\<in>fst ` set (pp_entries ?t b). b = ght_l_key hash t j)" for b
  proof (cases "b = ?l")
    case False
    then show ?thesis
      using ght_okD(1,2) [OF assms, of b] ght_okD(3) [OF assms] by (auto simp: chain)
  next
    case True
    have "fst ` set (chain_remove (pp_entries t ?l) k) \<subseteq> fst ` set (pp_entries t ?l)"
      by (intro image_mono chain_remove_facts(1))
    then have "\<forall>j\<in>fst ` set (chain_remove (pp_entries t ?l) k). ?l = ght_l_key hash t j"
      using ght_okD(3) [OF assms] by blast
    then show ?thesis
      using True chain_remove_facts(2) [OF ght_okD(1) [OF assms, of ?l], of k]
        chain_remove_facts(3) [OF key]
        ght_okD(2) [OF assms, of ?l]
      by (simp only: chain if_True simp_thms)
  qed
  ultimately show ?thesis
    using assms unfolding ght_ok_def ght_l_key_remove ght_get_remove [OF assms]
      ght_order_remove [OF assms]
    by (auto simp: chain)
qed

section \<open>The interface funge-space relies on\<close>

text \<open>
  What a client of the table may assume: a lookup after any operation, the keys an iteration
  visits, and that a well-formed table stays well formed. The derived operations are the
  client patterns of \<^verbatim>\<open>funge-space.c\<close>: store a value whatever was there before, and
  change a counter that exists only while it is not at its zero.
\<close>

locale hash_table =
  fixes get :: "'t \<Rightarrow> 'k \<Rightarrow> 'v option"
    and insert :: "'t \<Rightarrow> 'v \<Rightarrow> 'k \<Rightarrow> int \<times> 't"
    and put :: "'t \<Rightarrow> 'v \<Rightarrow> 'k \<Rightarrow> 't"
    and remove :: "'t \<Rightarrow> 'k \<Rightarrow> 'v option \<times> 't"
    and keys :: "'t \<Rightarrow> 'k list"
    and wf :: "'t \<Rightarrow> bool"
  assumes get_insert: "wf t \<Longrightarrow> get t k = None \<Longrightarrow>
      fst (insert t v k) = 0 \<and> get (snd (insert t v k)) = (get t)(k \<mapsto> v)"
    and wf_insert: "wf t \<Longrightarrow> get t k = None \<Longrightarrow> wf (snd (insert t v k))"
    and get_put: "wf t \<Longrightarrow> get t k \<noteq> None \<Longrightarrow> get (put t v k) = (get t)(k \<mapsto> v)"
    and wf_put: "wf t \<Longrightarrow> get t k \<noteq> None \<Longrightarrow> wf (put t v k)"
    and get_remove: "wf t \<Longrightarrow> get (snd (remove t k)) = (get t)(k := None)"
    and wf_remove: "wf t \<Longrightarrow> wf (snd (remove t k))"
    and keys_dom: "wf t \<Longrightarrow> set (keys t) = dom (get t)"
    and keys_distinct: "wf t \<Longrightarrow> distinct (keys t)"
begin

lemma finite_dom: "wf t \<Longrightarrow> finite (dom (get t))"
  using keys_dom by (metis List.finite_set)

lemma length_keys: "wf t \<Longrightarrow> length (keys t) = card (dom (get t))"
  using keys_dom keys_distinct by (metis distinct_card)

text \<open>Store a value, where one particular value is represented by absence.\<close>

lemma store:
  assumes "wf t"
    and "t' = (case get t k of
      None \<Rightarrow> if v = absent then t else snd (insert t v k)
    | Some _ \<Rightarrow> if v = absent then snd (remove t k) else put t v k)"
  shows "wf t' \<and> get t' = (get t)(k := if v = absent then None else Some v)"
  using assms(1) unfolding assms(2)
  by (auto simp: get_insert wf_insert get_put wf_put get_remove wf_remove fun_eq_iff
      split: option.splits)

text \<open>Change a counter; it is removed when it reaches the value that absence stands for.\<close>

lemma count:
  assumes "wf t"
    and "t' = (case get t k of
      None \<Rightarrow> snd (insert t v k)
    | Some c \<Rightarrow> if f c = gone then snd (remove (put t (f c) k) k) else put t (f c) k)"
  shows "wf t' \<and> get t' = (get t)(k := (case get t k of None \<Rightarrow> Some v
           | Some c \<Rightarrow> if f c = gone then None else Some (f c)))"
  using assms(1) unfolding assms(2)
  by (auto simp: get_insert wf_insert get_put wf_put get_remove wf_remove fun_eq_iff
      split: option.splits)

end

lemma ght_is_hash_table:
  "hash_table (ght_get hash) (ght_insert hash) (ght_write hash) (ght_remove hash) p_order (ght_ok hash)"
  by unfold_locales
    (simp_all add: ght_insert_spec ght_get_write ght_ok_write ght_get_remove ght_ok_remove
      ght_okD(4) ght_get_order set_eq_iff domIff)

lemma ght_replace_spec:
  assumes "ght_ok hash t"
  shows "fst (ght_replace hash t v k) = ght_get hash t k \<and> ght_ok hash (snd (ght_replace hash t v k)) \<and>
         ght_get hash (snd (ght_replace hash t v k)) =
           (if ght_get hash t k = None then ght_get hash t else (ght_get hash t)(k \<mapsto> v))"
  using assms by (auto simp: ght_replace_def ght_get_write ght_ok_write split: option.splits)

text \<open>
  C11: the hash table implements a finite map, whatever the hash function: an insertion of a new
  key succeeds, also when it doubles the number of buckets first, an insertion of a present key
  is refused without effect; replacing and removing answer the old value and change that key only;
  rehashing to any size changes no lookup; the item counter is the number of keys; iteration meets
  every key once, from the oldest to the newest; and every key's bucket is one of the table's.
\<close>

theorem ght_implements_map:
  assumes "ght_ok hash t"
  shows "(ght_get hash t k = None \<longrightarrow>
            fst (ght_insert hash t v k) = 0 \<and> ght_ok hash (snd (ght_insert hash t v k)) \<and>
            ght_get hash (snd (ght_insert hash t v k)) = (ght_get hash t)(k \<mapsto> v) \<and>
            p_order (snd (ght_insert hash t v k)) = p_order t @ [k]) \<and>
         (ght_get hash t k \<noteq> None \<longrightarrow> ght_insert hash t v k = (- 1, t)) \<and>
         fst (ght_replace hash t v k) = ght_get hash t k \<and>
         ght_ok hash (snd (ght_replace hash t v k)) \<and>
         ght_get hash (snd (ght_replace hash t v k)) =
           (if ght_get hash t k = None then ght_get hash t else (ght_get hash t)(k \<mapsto> v)) \<and>
         fst (ght_remove hash t k) = ght_get hash t k \<and>
         ght_ok hash (snd (ght_remove hash t k)) \<and>
         ght_get hash (snd (ght_remove hash t k)) = (ght_get hash t)(k := None) \<and>
         ght_ok hash (ght_rehash hash t n) \<and> ght_get hash (ght_rehash hash t n) = ght_get hash t \<and>
         ght_entries hash (ght_rehash hash t n) = ght_entries hash t \<and>
         i_items t = card (dom (ght_get hash t)) \<and>
         map fst (ght_entries hash t) = p_order t \<and> distinct (p_order t) \<and>
         map_of (ght_entries hash t) = ght_get hash t \<and>
         ght_l_key hash t k < i_size t"
proof -
  have "i_items t = card (dom (ght_get hash t))"
    using hash_table.length_keys [OF ght_is_hash_table assms] ght_okD(5) [OF assms] by simp
  moreover have "ght_entries hash (ght_rehash hash t n) = ght_entries hash t"
    using ght_rehash_keeps [OF assms, of n] by (simp add: ght_entries_def)
  moreover have "ght_insert hash t v k = (- 1, t)" if "ght_get hash t k \<noteq> None"
    using that by (simp add: ght_insert_def)
  ultimately show ?thesis
    using ght_insert_spec [OF assms] ght_replace_spec [OF assms] ght_rehash_keeps [OF assms]
      ght_entries_simps [OF assms] ght_okD(4) [OF assms] ght_l_key_less [OF assms]
    by (simp add: ght_remove_value ght_ok_remove [OF assms] ght_get_remove [OF assms])
qed

theorem ght_implements_map_witness:
  "let hash = (\<lambda>c. crc_hash (cell_bytes c)); t = snd (ght_insert hash (ght_create 4) (7 :: ucell) 5)
   in ght_get hash t 5 = Some 7 \<and> ght_get hash t 6 = None \<and> p_order t = [5]"
proof -
  let ?hash = "\<lambda>c. crc_hash (cell_bytes c)"
  have "ght_get ?hash (ght_create 4 :: (cell, ucell) ght_hash_table) 5 = None"
    by (rule ght_get_create)
  with ght_implements_map [OF ght_create_ok, where hash = ?hash and n = 4 and v = "7 :: ucell" and k = 5]
  show ?thesis by (simp add: Let_def ght_get_create)
qed

end
