(* ===== verification/Fspace.thy ===== *)
theory Fspace
  imports Cells Ght
begin

text \<open>
  Funge-space, \<^verbatim>\<open>src/funge-space/funge-space.c\<close>: storage and lookup. Positions near
  the origin live in a static array of 512 x 1024 cells, all others in a hash table that holds
  no spaces; for exact bounds (\<^verbatim>\<open>CFUN_EXACT_BOUNDS\<close>) the number of non-space cells of every
  column and row is kept, again in static arrays and two hash tables. The static variables of the
  code are the fields of \<open>fungeSpace\<close>; the arrays are functions of the index.
  Running out of memory in the hash library ends the process.
\<close>

section \<open>Data\<close>

definition FUNGESPACE_INITIAL_SIZE :: nat where
  "FUNGESPACE_INITIAL_SIZE = 0x40000"

definition FUNGECOUNT_COL_INITIAL_SIZE :: nat where
  "FUNGECOUNT_COL_INITIAL_SIZE = 0x20000"

definition FUNGECOUNT_ROW_INITIAL_SIZE :: nat where
  "FUNGECOUNT_ROW_INITIAL_SIZE = 0x20000"

definition FUNGESPACE_STATIC_OFFSET_X :: ucell where
  "FUNGESPACE_STATIC_OFFSET_X = 64"

definition FUNGESPACE_STATIC_OFFSET_Y :: ucell where
  "FUNGESPACE_STATIC_OFFSET_Y = 64"

definition FUNGESPACE_STATIC_X :: ucell where
  "FUNGESPACE_STATIC_X = 512"

definition FUNGESPACE_STATIC_Y :: ucell where
  "FUNGESPACE_STATIC_Y = 1024"

definition FUNGESPACE_RANGE_CHECK :: "ucell \<Rightarrow> ucell \<Rightarrow> bool" where
  "FUNGESPACE_RANGE_CHECK rx ry \<longleftrightarrow> rx < FUNGESPACE_STATIC_X \<and> ry < FUNGESPACE_STATIC_Y"

definition STATIC_COORD :: "ucell \<Rightarrow> ucell \<Rightarrow> nat" where
  "STATIC_COORD rx ry = unat (rx + ry * FUNGESPACE_STATIC_X)"

definition SIMPLEBOUNDS_MAX :: cell where
  "SIMPLEBOUNDS_MAX = 0x10000"

record fungeSpace =
  topLeftCorner :: funge_vector
  bottomRightCorner :: funge_vector
  entries :: "(funge_vector, cell) ght_hash_table"
  col_count :: "(cell, ucell) ght_hash_table"
  row_count :: "(cell, ucell) ght_hash_table"
  boundsexact :: bool
  boundsvalid :: bool
  cfun_static_space :: "nat \<Rightarrow> cell"
  cfun_static_use_count_col :: "nat \<Rightarrow> ucell"
  cfun_static_use_count_row :: "nat \<Rightarrow> ucell"

text \<open>The two instances of the hash function: over the bytes of a position and of a cell.\<close>

definition fspace_hash :: "funge_vector \<Rightarrow> 32 word" where
  "fspace_hash p = crc_hash (cell_bytes (vec_x p) @ cell_bytes (vec_y p))"

definition fspacecount_hash :: "cell \<Rightarrow> 32 word" where
  "fspacecount_hash c = crc_hash (cell_bytes c)"

abbreviation "fspace_get \<equiv> ght_get fspace_hash"
abbreviation "fspace_insert \<equiv> ght_insert fspace_hash"
abbreviation "fspace_write \<equiv> ght_write fspace_hash"
abbreviation "fspace_remove \<equiv> ght_remove fspace_hash"
abbreviation "fspacecount_get \<equiv> ght_get fspacecount_hash"
abbreviation "fspacecount_insert \<equiv> ght_insert fspacecount_hash"
abbreviation "fspacecount_write \<equiv> ght_write fspacecount_hash"
abbreviation "fspacecount_remove \<equiv> ght_remove fspacecount_hash"

definition fungespace_create :: fungeSpace where
  "fungespace_create =
     \<lparr>topLeftCorner = vector 0 0, bottomRightCorner = vector 0 0,
      entries = ght_set_rehash (ght_create FUNGESPACE_INITIAL_SIZE) True,
      col_count = ght_set_rehash (ght_create FUNGECOUNT_COL_INITIAL_SIZE) True,
      row_count = ght_set_rehash (ght_create FUNGECOUNT_ROW_INITIAL_SIZE) True,
      boundsexact = True, boundsvalid = False,
      cfun_static_space = (\<lambda>_. space_cell),
      cfun_static_use_count_col = (\<lambda>_. 0), cfun_static_use_count_row = (\<lambda>_. 0)\<rparr>"

section \<open>Counts\<close>

definition get_count_col :: "fungeSpace \<Rightarrow> cell \<Rightarrow> ucell" where
  "get_count_col fspace x =
     (let sx = x + FUNGESPACE_STATIC_OFFSET_X
      in if sx < FUNGESPACE_STATIC_X then cfun_static_use_count_col fspace (unat sx)
         else (case fspacecount_get (col_count fspace) x of None \<Rightarrow> 0 | Some tmp \<Rightarrow> tmp))"

definition get_count_row :: "fungeSpace \<Rightarrow> cell \<Rightarrow> ucell" where
  "get_count_row fspace y =
     (let sy = y + FUNGESPACE_STATIC_OFFSET_Y
      in if sy < FUNGESPACE_STATIC_Y then cfun_static_use_count_row fspace (unat sy)
         else (case fspacecount_get (row_count fspace) y of None \<Rightarrow> 0 | Some tmp \<Rightarrow> tmp))"

text \<open>Clear the \<open>boundsexact\<close> flag if a cell at an edge went.\<close>

definition fungespace_check_pos :: "cell \<Rightarrow> cell \<Rightarrow> fungeSpace \<Rightarrow> fungeSpace" where
  "fungespace_check_pos x y fspace =
     (if x = vec_x (bottomRightCorner fspace) then fspace\<lparr>boundsexact := False\<rparr>
      else if y = vec_y (bottomRightCorner fspace) then fspace\<lparr>boundsexact := False\<rparr>
      else if x = vec_x (topLeftCorner fspace) then fspace\<lparr>boundsexact := False\<rparr>
      else if y = vec_y (topLeftCorner fspace) then fspace\<lparr>boundsexact := False\<rparr>
      else fspace)"

text \<open>\<open>m_op\<close> is the increment or the decrement, \<open>m_val\<close> the count of a new entry.\<close>

definition FSPACE_COUNT_OP_OR_NEW ::
    "(ucell \<Rightarrow> ucell) \<Rightarrow> (cell, ucell) ght_hash_table \<Rightarrow> cell \<Rightarrow> ucell \<Rightarrow> (cell, ucell) ght_hash_table" where
  "FSPACE_COUNT_OP_OR_NEW m_op m_a m_key m_val =
     (case fspacecount_get m_a m_key of
        Some m_var \<Rightarrow>
          (if m_op m_var = 0 then snd (fspacecount_remove (fspacecount_write m_a (m_op m_var) m_key) m_key)
           else fspacecount_write m_a (m_op m_var) m_key)
      | None \<Rightarrow>
          (let (ret, t) = fspacecount_insert m_a m_val m_key
           in if ret = - 1 then snd (ght_replace fspacecount_hash t m_val m_key) else t))"

definition fungespace_count_col :: "bool \<Rightarrow> cell \<Rightarrow> fungeSpace \<Rightarrow> fungeSpace" where
  "fungespace_count_col isset x fspace =
     (let sx = x + FUNGESPACE_STATIC_OFFSET_X
      in if sx < FUNGESPACE_STATIC_X then
           fspace\<lparr>cfun_static_use_count_col := (cfun_static_use_count_col fspace)
             (unat sx := (if isset then cfun_static_use_count_col fspace (unat sx) + 1
                          else cfun_static_use_count_col fspace (unat sx) - 1))\<rparr>
         else if isset then
           fspace\<lparr>col_count := FSPACE_COUNT_OP_OR_NEW (\<lambda>c. c + 1) (col_count fspace) x 1\<rparr>
         else
           fspace\<lparr>col_count := FSPACE_COUNT_OP_OR_NEW (\<lambda>c. c - 1) (col_count fspace) x 0\<rparr>)"

definition fungespace_count_row :: "bool \<Rightarrow> cell \<Rightarrow> fungeSpace \<Rightarrow> fungeSpace" where
  "fungespace_count_row isset y fspace =
     (let sy = y + FUNGESPACE_STATIC_OFFSET_Y
      in if sy < FUNGESPACE_STATIC_Y then
           fspace\<lparr>cfun_static_use_count_row := (cfun_static_use_count_row fspace)
             (unat sy := (if isset then cfun_static_use_count_row fspace (unat sy) + 1
                          else cfun_static_use_count_row fspace (unat sy) - 1))\<rparr>
         else if isset then
           fspace\<lparr>row_count := FSPACE_COUNT_OP_OR_NEW (\<lambda>c. c + 1) (row_count fspace) y 1\<rparr>
         else
           fspace\<lparr>row_count := FSPACE_COUNT_OP_OR_NEW (\<lambda>c. c - 1) (row_count fspace) y 0\<rparr>)"

definition fungespace_count :: "bool \<Rightarrow> funge_vector \<Rightarrow> fungeSpace \<Rightarrow> fungeSpace" where
  "fungespace_count isset position fspace =
     (let x = vec_x position; y = vec_y position;
          fspace = fungespace_count_col isset x fspace;
          fspace = fungespace_count_row isset y fspace
      in if \<not> isset then fungespace_check_pos x y fspace else fspace)"

section \<open>Get and set\<close>

definition fungespace_get :: "fungeSpace \<Rightarrow> funge_vector \<Rightarrow> cell" where
  "fungespace_get fspace position =
     (let x = vec_x position + FUNGESPACE_STATIC_OFFSET_X;
          y = vec_y position + FUNGESPACE_STATIC_OFFSET_Y
      in if FUNGESPACE_RANGE_CHECK x y then cfun_static_space fspace (STATIC_COORD x y)
         else (case fspace_get (entries fspace) position of None \<Rightarrow> space_cell | Some tmp \<Rightarrow> tmp))"

definition fungespace_get_offset :: "fungeSpace \<Rightarrow> funge_vector \<Rightarrow> funge_vector \<Rightarrow> cell" where
  "fungespace_get_offset fspace position offset =
     (let tmp = vector (vec_x position + vec_x offset) (vec_y position + vec_y offset);
          x = vec_x tmp + FUNGESPACE_STATIC_OFFSET_X;
          y = vec_y tmp + FUNGESPACE_STATIC_OFFSET_Y
      in if FUNGESPACE_RANGE_CHECK x y then cfun_static_space fspace (STATIC_COORD x y)
         else (case fspace_get (entries fspace) tmp of None \<Rightarrow> space_cell | Some result \<Rightarrow> result))"

definition fungespace_set_no_bounds_update ::
    "cell \<Rightarrow> funge_vector \<Rightarrow> fungeSpace \<Rightarrow> fungeSpace" where
  "fungespace_set_no_bounds_update v position fspace =
     (let x = vec_x position + FUNGESPACE_STATIC_OFFSET_X;
          y = vec_y position + FUNGESPACE_STATIC_OFFSET_Y
      in if FUNGESPACE_RANGE_CHECK x y then
           (let prev = cfun_static_space fspace (STATIC_COORD x y);
                fspace = fspace\<lparr>cfun_static_space := (cfun_static_space fspace)(STATIC_COORD x y := v)\<rparr>
            in if v \<noteq> prev \<and> (prev = space_cell \<or> v = space_cell)
               then fungespace_count (v \<noteq> space_cell) position fspace else fspace)
         else
           (case fspace_get (entries fspace) position of
              None \<Rightarrow>
                (if v = space_cell then fspace
                 else fungespace_count True position
                        (fspace\<lparr>entries := snd (fspace_insert (entries fspace) v position)\<rparr>))
            | Some prev \<Rightarrow>
                (if v = space_cell
                 then fungespace_count False position
                        (fspace\<lparr>entries := snd (fspace_remove (entries fspace) position)\<rparr>)
                 else fspace\<lparr>entries := fspace_write (entries fspace) v position\<rparr>)))"

definition fungespace_extend :: "funge_vector \<Rightarrow> fungeSpace \<Rightarrow> fungeSpace" where
  "fungespace_extend position fspace =
     (let brc = bottomRightCorner fspace; tlc = topLeftCorner fspace;
          brc = (if vec_y brc <s vec_y position then brc\<lparr>vec_y := vec_y position\<rparr> else brc);
          tlc = (if vec_y position <s vec_y tlc then tlc\<lparr>vec_y := vec_y position\<rparr> else tlc);
          brc = (if vec_x brc <s vec_x position then brc\<lparr>vec_x := vec_x position\<rparr> else brc);
          tlc = (if vec_x position <s vec_x tlc then tlc\<lparr>vec_x := vec_x position\<rparr> else tlc)
      in fspace\<lparr>bottomRightCorner := brc, topLeftCorner := tlc\<rparr>)"

definition fungespace_set :: "cell \<Rightarrow> funge_vector \<Rightarrow> fungeSpace \<Rightarrow> fungeSpace" where
  "fungespace_set v position fspace =
     (let fspace = (if v \<noteq> space_cell then fungespace_extend position fspace else fspace)
      in fungespace_set_no_bounds_update v position fspace)"

definition fungespace_set_initial :: "cell \<Rightarrow> funge_vector \<Rightarrow> fungeSpace \<Rightarrow> fungeSpace" where
  "fungespace_set_initial v position fspace =
     (let fspace =
        (if boundsvalid fspace then fungespace_extend position fspace
         else fspace\<lparr>topLeftCorner := position, bottomRightCorner := position, boundsvalid := True\<rparr>)
      in fungespace_set_no_bounds_update v position fspace)"

definition fungespace_set_offset ::
    "cell \<Rightarrow> funge_vector \<Rightarrow> funge_vector \<Rightarrow> fungeSpace \<Rightarrow> fungeSpace" where
  "fungespace_set_offset v position offset fspace =
     fungespace_set v (vector (vec_x position + vec_x offset) (vec_y position + vec_y offset)) fspace"

section \<open>The tables behind funge-space\<close>

interpretation fht: hash_table fspace_get fspace_insert fspace_write fspace_remove p_order
  "ght_ok fspace_hash"
  by (rule ght_is_hash_table)

interpretation cht: hash_table fspacecount_get fspacecount_insert fspacecount_write
  fspacecount_remove p_order "ght_ok fspacecount_hash"
  by (rule ght_is_hash_table)

definition is_static :: "funge_vector \<Rightarrow> bool" where
  "is_static p \<longleftrightarrow>
     FUNGESPACE_RANGE_CHECK (vec_x p + FUNGESPACE_STATIC_OFFSET_X) (vec_y p + FUNGESPACE_STATIC_OFFSET_Y)"

definition static_index :: "funge_vector \<Rightarrow> nat" where
  "static_index p = STATIC_COORD (vec_x p + FUNGESPACE_STATIC_OFFSET_X) (vec_y p + FUNGESPACE_STATIC_OFFSET_Y)"

text \<open>The static array is addressed within its bounds, one place per position.\<close>

lemma STATIC_COORD_unat:
  "FUNGESPACE_RANGE_CHECK rx ry \<Longrightarrow> STATIC_COORD rx ry = unat rx + 512 * unat ry"
proof -
  assume "FUNGESPACE_RANGE_CHECK rx ry"
  then have "unat rx < 512" "unat ry < 1024"
    by (simp_all add: FUNGESPACE_RANGE_CHECK_def FUNGESPACE_STATIC_X_def FUNGESPACE_STATIC_Y_def
        word_less_nat_alt)
  moreover from this have "unat (ry * 512) = unat ry * 512"
    by (simp add: unat_word_ariths)
  ultimately show ?thesis
    by (simp add: STATIC_COORD_def FUNGESPACE_STATIC_X_def unat_word_ariths)
qed

lemma STATIC_COORD_less: "FUNGESPACE_RANGE_CHECK rx ry \<Longrightarrow> STATIC_COORD rx ry < 512 * 1024"
  using STATIC_COORD_unat [of rx ry]
  by (simp add: FUNGESPACE_RANGE_CHECK_def FUNGESPACE_STATIC_X_def FUNGESPACE_STATIC_Y_def
      word_less_nat_alt)

lemma static_coord_inj:
  fixes a b c d :: nat
  assumes "a + 512 * b = c + 512 * d" "a < 512" "c < 512"
  shows "a = c \<and> b = d"
proof -
  have "a = (a + 512 * b) mod 512" "c = (c + 512 * d) mod 512" using assms(2,3) by simp_all
  then have "a = c" using assms(1) by simp
  with assms(1) show ?thesis by simp
qed

lemma unat_offset_eq: "unat (a + c :: cell) = unat (b + c) \<longleftrightarrow> a = b"
  by (simp flip: word_unat_eq_iff)

lemma static_index_eq_iff:
  assumes "is_static p" "is_static q"
  shows "static_index p = static_index q \<longleftrightarrow> p = q"
proof
  assume eq: "static_index p = static_index q"
  let ?x = "\<lambda>r. unat (vec_x r + FUNGESPACE_STATIC_OFFSET_X)"
    and ?y = "\<lambda>r. unat (vec_y r + FUNGESPACE_STATIC_OFFSET_Y)"
  have "?x p < 512" "?x q < 512"
    using assms by (simp_all add: is_static_def FUNGESPACE_RANGE_CHECK_def FUNGESPACE_STATIC_X_def
        word_less_nat_alt)
  moreover have "?x p + 512 * ?y p = ?x q + 512 * ?y q"
    using eq assms by (simp add: static_index_def is_static_def STATIC_COORD_unat)
  ultimately show "p = q"
    using static_coord_inj [of "?x p" "?y p" "?x q" "?y q"] by (simp add: unat_offset_eq vector_eq_iff)
qed simp

lemma fungespace_get_cases:
  "fungespace_get f p =
     (if is_static p then cfun_static_space f (static_index p)
      else (case fspace_get (entries f) p of None \<Rightarrow> space_cell | Some c \<Rightarrow> c))"
  by (simp add: fungespace_get_def is_static_def static_index_def Let_def)

definition store_ok :: "fungeSpace \<Rightarrow> bool" where
  "store_ok f \<longleftrightarrow> ght_ok fspace_hash (entries f) \<and>
     ght_ok fspacecount_hash (col_count f) \<and> ght_ok fspacecount_hash (row_count f) \<and>
     (\<forall>p. fspace_get (entries f) p \<noteq> Some space_cell)"

section \<open>Counting\<close>

lemma count_op_table:
  assumes "ght_ok fspacecount_hash t"
  shows "ght_ok fspacecount_hash (FSPACE_COUNT_OP_OR_NEW m_op t k v) \<and>
         fspacecount_get (FSPACE_COUNT_OP_OR_NEW m_op t k v) =
           (fspacecount_get t)(k := (case fspacecount_get t k of None \<Rightarrow> Some v
              | Some c \<Rightarrow> if m_op c = 0 then None else Some (m_op c)))"
proof -
  have "FSPACE_COUNT_OP_OR_NEW m_op t k v =
      (case fspacecount_get t k of
         None \<Rightarrow> snd (fspacecount_insert t v k)
       | Some c \<Rightarrow> if m_op c = 0 then snd (fspacecount_remove (fspacecount_write t (m_op c) k) k)
                  else fspacecount_write t (m_op c) k)"
    using cht.get_insert [OF assms, of k v]
    by (auto simp: FSPACE_COUNT_OP_OR_NEW_def split_beta split: option.splits)
  from cht.count [OF assms this] show ?thesis .
qed

text \<open>What counting leaves alone.\<close>

lemma fungespace_count_keeps [simp]:
  "entries (fungespace_count b p f) = entries f"
  "cfun_static_space (fungespace_count b p f) = cfun_static_space f"
  "topLeftCorner (fungespace_count b p f) = topLeftCorner f"
  "bottomRightCorner (fungespace_count b p f) = bottomRightCorner f"
  "boundsvalid (fungespace_count b p f) = boundsvalid f"
  by (simp_all add: fungespace_count_def fungespace_count_col_def fungespace_count_row_def
      fungespace_check_pos_def Let_def)

lemma get_count_boundsexact [simp]:
  "get_count_col (f\<lparr>boundsexact := b\<rparr>) = get_count_col f"
  "get_count_row (f\<lparr>boundsexact := b\<rparr>) = get_count_row f"
  by (simp_all add: get_count_col_def get_count_row_def Let_def fun_eq_iff)

lemma fungespace_check_pos_keeps [simp]:
  "col_count (fungespace_check_pos x y f) = col_count f"
  "row_count (fungespace_check_pos x y f) = row_count f"
  "get_count_col (fungespace_check_pos x y f) = get_count_col f"
  "get_count_row (fungespace_check_pos x y f) = get_count_row f"
  by (simp_all add: fungespace_check_pos_def)

lemma fungespace_count_col_keeps [simp]:
  "row_count (fungespace_count_col b x f) = row_count f"
  "get_count_row (fungespace_count_col b x f) = get_count_row f"
  by (simp_all add: fungespace_count_col_def get_count_row_def Let_def fun_eq_iff)

lemma fungespace_count_row_keeps [simp]:
  "col_count (fungespace_count_row b y f) = col_count f"
  "get_count_col (fungespace_count_row b y f) = get_count_col f"
  by (simp_all add: fungespace_count_row_def get_count_col_def Let_def fun_eq_iff)

lemma fungespace_count_col_ok:
  "ght_ok fspacecount_hash (col_count f) \<Longrightarrow>
     ght_ok fspacecount_hash (col_count (fungespace_count_col b x f))"
  by (simp add: fungespace_count_col_def Let_def count_op_table)

lemma fungespace_count_row_ok:
  "ght_ok fspacecount_hash (row_count f) \<Longrightarrow>
     ght_ok fspacecount_hash (row_count (fungespace_count_row b y f))"
  by (simp add: fungespace_count_row_def Let_def count_op_table)

lemma get_count_col_count:
  assumes "ght_ok fspacecount_hash (col_count f)" "b \<or> get_count_col f x \<noteq> 0"
  shows "get_count_col (fungespace_count_col b x f) =
           (get_count_col f)(x := (if b then get_count_col f x + 1 else get_count_col f x - 1))"
  using assms count_op_table [OF assms(1)]
  by (auto simp: get_count_col_def fungespace_count_col_def Let_def fun_eq_iff unat_offset_eq
      split: option.splits if_splits)

lemma get_count_row_count:
  assumes "ght_ok fspacecount_hash (row_count f)" "b \<or> get_count_row f y \<noteq> 0"
  shows "get_count_row (fungespace_count_row b y f) =
           (get_count_row f)(y := (if b then get_count_row f y + 1 else get_count_row f y - 1))"
  using assms count_op_table [OF assms(1)]
  by (auto simp: get_count_row_def fungespace_count_row_def Let_def fun_eq_iff unat_offset_eq
      split: option.splits if_splits)

section \<open>What funge-space represents\<close>

definition used_cells :: "fungeSpace \<Rightarrow> funge_vector set" where
  "used_cells f = {p. fungespace_get f p \<noteq> space_cell}"

definition used_col :: "fungeSpace \<Rightarrow> cell \<Rightarrow> funge_vector set" where
  "used_col f x = {p \<in> used_cells f. vec_x p = x}"

definition used_row :: "fungeSpace \<Rightarrow> cell \<Rightarrow> funge_vector set" where
  "used_row f y = {p \<in> used_cells f. vec_y p = y}"

text \<open>The counts are exact.\<close>

definition counts_ok :: "fungeSpace \<Rightarrow> bool" where
  "counts_ok f \<longleftrightarrow>
     (\<forall>x. get_count_col f x = of_nat (card (used_col f x))) \<and>
     (\<forall>y. get_count_row f y = of_nat (card (used_row f y)))"

text \<open>
  The bounds hold every cell in use. A position is in range when it lies between the corners.
\<close>

definition fungespace_in_range :: "fungeSpace \<Rightarrow> funge_vector \<Rightarrow> bool" where
  "fungespace_in_range fspace position \<longleftrightarrow>
     \<not> (vec_x (bottomRightCorner fspace) <s vec_x position \<or>
        vec_x position <s vec_x (topLeftCorner fspace) \<or>
        vec_y (bottomRightCorner fspace) <s vec_y position \<or>
        vec_y position <s vec_y (topLeftCorner fspace))"

definition bounds_ok :: "fungeSpace \<Rightarrow> bool" where
  "bounds_ok f \<longleftrightarrow>
     (\<forall>p\<in>used_cells f. fungespace_in_range f p) \<and>
     vec_x (topLeftCorner f) \<le>s vec_x (bottomRightCorner f) \<and>
     vec_y (topLeftCorner f) \<le>s vec_y (bottomRightCorner f)"

text \<open>Fewer cells are in use than a count can express; memory ends long before.\<close>

definition capacity_ok :: "fungeSpace \<Rightarrow> bool" where
  "capacity_ok f \<longleftrightarrow> card (used_cells f) < 2 ^ 64"

definition fspace_ok :: "fungeSpace \<Rightarrow> bool" where
  "fspace_ok f \<longleftrightarrow> store_ok f \<and> counts_ok f \<and> bounds_ok f \<and> capacity_ok f"

lemma finite_vectors: "finite (A :: funge_vector set)"
proof (rule finite_subset)
  show "A \<subseteq> range (\<lambda>(x, y). vector x y)"
  proof
    fix p :: funge_vector
    show "p \<in> range (\<lambda>(x, y). vector x y)"
      by (rule range_eqI [of _ _ "(vec_x p, vec_y p)"]) simp
  qed
  have "finite (UNIV :: (cell \<times> cell) set)" by (rule finite)
  then show "finite (range (\<lambda>(x, y). vector x y))" by (rule finite_imageI)
qed

lemma fungespace_get_count [simp]: "fungespace_get (fungespace_count b p f) = fungespace_get f"
  by (rule ext) (simp add: fungespace_get_cases)

lemma fungespace_get_extend [simp]: "fungespace_get (fungespace_extend p f) = fungespace_get f"
  by (rule ext) (simp add: fungespace_get_cases fungespace_extend_def Let_def)

text \<open>A set without bounds in terms of the store and of counting.\<close>

definition store_cell :: "cell \<Rightarrow> funge_vector \<Rightarrow> fungeSpace \<Rightarrow> fungeSpace" where
  "store_cell v p f =
     (if is_static p
      then f\<lparr>cfun_static_space := (cfun_static_space f)(static_index p := v)\<rparr>
      else f\<lparr>entries := (case fspace_get (entries f) p of
           None \<Rightarrow> if v = space_cell then entries f else snd (fspace_insert (entries f) v p)
         | Some _ \<Rightarrow> if v = space_cell then snd (fspace_remove (entries f) p)
                    else fspace_write (entries f) v p)\<rparr>)"

lemma store_cell_table:
  assumes "store_ok f"
  shows "ght_ok fspace_hash (entries (store_cell v p f)) \<and>
         fspace_get (entries (store_cell v p f)) =
           (if is_static p then fspace_get (entries f)
            else (fspace_get (entries f))(p := if v = space_cell then None else Some v))"
proof (cases "is_static p")
  case True
  then show ?thesis using assms by (simp add: store_cell_def store_ok_def)
next
  case False
  have "ght_ok fspace_hash (entries f)" using assms by (simp add: store_ok_def)
  from fht.store [OF this refl, where k = p and v = v and absent = space_cell]
  show ?thesis using False by (simp add: store_cell_def)
qed

lemma store_cell_keeps [simp]:
  "col_count (store_cell v p f) = col_count f" "row_count (store_cell v p f) = row_count f"
  "get_count_col (store_cell v p f) = get_count_col f"
  "get_count_row (store_cell v p f) = get_count_row f"
  "topLeftCorner (store_cell v p f) = topLeftCorner f"
  "bottomRightCorner (store_cell v p f) = bottomRightCorner f"
  by (simp_all add: store_cell_def get_count_col_def get_count_row_def Let_def fun_eq_iff)

lemma store_cell_get:
  "store_ok f \<Longrightarrow> fungespace_get (store_cell v p f) = (fungespace_get f)(p := v)"
  using store_cell_table [of f v p]
  by (auto simp: fungespace_get_cases static_index_eq_iff fun_eq_iff)
    (simp_all add: store_cell_def static_index_eq_iff)

lemma store_cell_ok: "store_ok f \<Longrightarrow> store_ok (store_cell v p f)"
  using store_cell_table [of f v p] by (auto simp: store_ok_def)

lemma set_no_bounds_cases:
  "fungespace_set_no_bounds_update v p f =
     (if (fungespace_get f p = space_cell) \<noteq> (v = space_cell)
      then fungespace_count (v \<noteq> space_cell) p (store_cell v p f) else store_cell v p f)"
  if "store_ok f"
proof (cases "is_static p")
  case True
  let ?prev = "cfun_static_space f (static_index p)"
  have changed: "(v \<noteq> ?prev \<and> (?prev = space_cell \<or> v = space_cell)) =
      ((?prev = space_cell) \<noteq> (v = space_cell))" by auto
  have "fungespace_get f p = ?prev" using True by (simp add: fungespace_get_cases)
  then show ?thesis
    using True unfolding changed [symmetric] store_cell_def
    by (simp only: fungespace_set_no_bounds_update_def is_static_def [symmetric]
        static_index_def [symmetric] Let_def if_True changed)
next
  case False
  have nospace: "fspace_get (entries f) p \<noteq> Some space_cell" using that by (simp add: store_ok_def)
  have get: "fungespace_get f p = (case fspace_get (entries f) p of None \<Rightarrow> space_cell | Some c \<Rightarrow> c)"
    using False by (simp add: fungespace_get_cases)
  show ?thesis
  proof (cases "fspace_get (entries f) p")
    case None
    then show ?thesis using False get
      by (simp add: fungespace_set_no_bounds_update_def store_cell_def is_static_def Let_def)
  next
    case (Some c)
    then show ?thesis using False get nospace
      by (simp add: fungespace_set_no_bounds_update_def store_cell_def is_static_def Let_def)
  qed
qed

lemma get_set_no_bounds:
  "store_ok f \<Longrightarrow> fungespace_get (fungespace_set_no_bounds_update v p f) = (fungespace_get f)(p := v)"
  by (simp add: set_no_bounds_cases store_cell_get)

lemma used_cells_set_no_bounds:
  "store_ok f \<Longrightarrow> used_cells (fungespace_set_no_bounds_update v p f) =
     (if v = space_cell then used_cells f - {p} else insert p (used_cells f))"
  by (auto simp: used_cells_def get_set_no_bounds)

lemma used_col_row_set_no_bounds:
  assumes "store_ok f"
  shows "used_col (fungespace_set_no_bounds_update v p f) x =
           (if vec_x p \<noteq> x then used_col f x
            else if v = space_cell then used_col f x - {p} else insert p (used_col f x))"
    "used_row (fungespace_set_no_bounds_update v p f) y =
           (if vec_y p \<noteq> y then used_row f y
            else if v = space_cell then used_row f y - {p} else insert p (used_row f y))"
  by (auto simp: used_col_def used_row_def used_cells_set_no_bounds [OF assms])

lemma store_ok_count [simp]: "store_ok f \<Longrightarrow> store_ok (fungespace_count b p f)"
  by (simp add: store_ok_def)
    (simp add: fungespace_count_def Let_def fungespace_count_col_ok fungespace_count_row_ok)

lemma store_ok_set_no_bounds:
  "store_ok f \<Longrightarrow> store_ok (fungespace_set_no_bounds_update v p f)"
  by (simp add: set_no_bounds_cases store_cell_ok)

lemma card_used_le:
  "card (used_col f x) \<le> card (used_cells f)" "card (used_row f y) \<le> card (used_cells f)"
  by (auto simp: used_col_def used_row_def intro!: card_mono finite_vectors)

lemma of_nat_cell_neq_0:
  assumes "0 < n" "n < 2 ^ 64"
  shows "(of_nat n :: cell) \<noteq> 0"
proof
  assume "(of_nat n :: cell) = 0"
  then have "unat (of_nat n :: cell) = 0" by simp
  with assms show False by (simp add: unat_of_nat)
qed

lemma get_count_count:
  assumes "store_ok f" "b \<or> get_count_col f (vec_x p) \<noteq> 0 \<and> get_count_row f (vec_y p) \<noteq> 0"
  shows "get_count_col (fungespace_count b p f) = (get_count_col f)
           (vec_x p := (if b then get_count_col f (vec_x p) + 1 else get_count_col f (vec_x p) - 1))"
    "get_count_row (fungespace_count b p f) = (get_count_row f)
           (vec_y p := (if b then get_count_row f (vec_y p) + 1 else get_count_row f (vec_y p) - 1))"
  using assms get_count_col_count [of f b "vec_x p"]
    get_count_row_count [of "fungespace_count_col b (vec_x p) f" b "vec_y p"]
  by (auto simp: fungespace_count_def Let_def store_ok_def)

lemma of_nat_card_remove:
  "(p :: funge_vector) \<in> A \<Longrightarrow> of_nat (card A - Suc 0) = (of_nat (card A) - 1 :: cell)"
  using card_gt_0_iff [of A] finite_vectors [of A]
  by (auto simp: of_nat_diff Suc_le_eq)

lemma counts_ok_set_no_bounds:
  assumes "store_ok f" "counts_ok f" "capacity_ok f"
  shows "counts_ok (fungespace_set_no_bounds_update v p f)"
proof (cases "(fungespace_get f p = space_cell) = (v = space_cell)")
  case True
  then have "used_cells (fungespace_set_no_bounds_update v p f) = used_cells f"
    using assms(1) by (auto simp: used_cells_def get_set_no_bounds)
  then have "used_col (fungespace_set_no_bounds_update v p f) = used_col f"
    "used_row (fungespace_set_no_bounds_update v p f) = used_row f"
    by (simp_all add: used_col_def used_row_def fun_eq_iff)
  with True assms(2) show ?thesis
    by (simp add: counts_ok_def set_no_bounds_cases [OF assms(1)])
next
  case False
  let ?f = "store_cell v p f"
  have eq: "fungespace_set_no_bounds_update v p f = fungespace_count (v \<noteq> space_cell) p ?f"
    using False by (simp add: set_no_bounds_cases [OF assms(1)])
  have used: "p \<in> used_col f (vec_x p) \<longleftrightarrow> v = space_cell" "p \<in> used_row f (vec_y p) \<longleftrightarrow> v = space_cell"
    using False by (auto simp: used_col_def used_row_def used_cells_def)
  have cnt: "get_count_col f x = of_nat (card (used_col f x))"
    "get_count_row f y = of_nat (card (used_row f y))" for x y
    using assms(2) by (auto simp: counts_ok_def)
  have pos: "get_count_col f (vec_x p) \<noteq> 0 \<and> get_count_row f (vec_y p) \<noteq> 0" if "v = space_cell"
  proof -
    have "0 < card (used_col f (vec_x p))" "0 < card (used_row f (vec_y p))"
      using used that by (auto simp: card_gt_0_iff finite_vectors)
    moreover have "card (used_col f (vec_x p)) < 2 ^ 64" "card (used_row f (vec_y p)) < 2 ^ 64"
      using card_used_le [of f "vec_x p"] card_used_le [of f "vec_y p"] assms(3)
      unfolding capacity_ok_def by (auto elim: order_le_less_trans)
    ultimately show ?thesis unfolding cnt by (auto dest: of_nat_cell_neq_0)
  qed
  have "store_ok ?f" using assms(1) by (rule store_cell_ok)
  from get_count_count [OF this, of "v \<noteq> space_cell" p] show ?thesis
    using pos used
    by (auto simp: counts_ok_def used_col_row_set_no_bounds [OF assms(1)] cnt of_nat_card_remove
        finite_vectors simp flip: eq)
qed

section \<open>Bounds\<close>

lemma fungespace_extend_keeps [simp]:
  "store_ok (fungespace_extend p f) = store_ok f"
  "used_cells (fungespace_extend p f) = used_cells f"
  "counts_ok (fungespace_extend p f) = counts_ok f"
  "capacity_ok (fungespace_extend p f) = capacity_ok f"
  by (simp_all add: store_ok_def used_cells_def counts_ok_def capacity_ok_def used_col_def
      used_row_def get_count_col_def get_count_row_def)
    (simp_all add: fungespace_extend_def Let_def)

lemma fungespace_extend_range:
  assumes "vec_x (topLeftCorner f) \<le>s vec_x (bottomRightCorner f)"
    "vec_y (topLeftCorner f) \<le>s vec_y (bottomRightCorner f)"
  shows "fungespace_in_range (fungespace_extend p f) p"
    "fungespace_in_range f q \<Longrightarrow> fungespace_in_range (fungespace_extend p f) q"
    "vec_x (topLeftCorner (fungespace_extend p f)) \<le>s vec_x (bottomRightCorner (fungespace_extend p f))"
    "vec_y (topLeftCorner (fungespace_extend p f)) \<le>s vec_y (bottomRightCorner (fungespace_extend p f))"
  using assms
  by (auto simp: fungespace_extend_def fungespace_in_range_def Let_def cell_order)

lemma set_no_bounds_corners [simp]:
  "topLeftCorner (fungespace_set_no_bounds_update v p f) = topLeftCorner f"
  "bottomRightCorner (fungespace_set_no_bounds_update v p f) = bottomRightCorner f"
  by (auto simp: fungespace_set_no_bounds_update_def Let_def split: option.splits)

lemma set_no_bounds_in_range [simp]:
  "fungespace_in_range (fungespace_set_no_bounds_update v p f) q = fungespace_in_range f q"
  by (simp add: fungespace_in_range_def)

lemma bounds_ok_set_no_bounds:
  assumes "store_ok f" "bounds_ok f" "v = space_cell \<or> fungespace_in_range f p"
  shows "bounds_ok (fungespace_set_no_bounds_update v p f)"
  using assms by (auto simp: bounds_ok_def used_cells_set_no_bounds)

lemma bounds_ok_extend:
  "bounds_ok f \<Longrightarrow> bounds_ok (fungespace_extend p f) \<and> fungespace_in_range (fungespace_extend p f) p"
  using fungespace_extend_range [of f] by (simp add: bounds_ok_def)

lemma bounds_ok_set: "store_ok f \<Longrightarrow> bounds_ok f \<Longrightarrow> bounds_ok (fungespace_set v p f)"
  by (auto simp: fungespace_set_def bounds_ok_extend intro!: bounds_ok_set_no_bounds)

lemma get_fungespace_set:
  "store_ok f \<Longrightarrow> fungespace_get (fungespace_set v p f) = (fungespace_get f)(p := v)"
  by (simp add: fungespace_set_def Let_def get_set_no_bounds)

lemma store_ok_set: "store_ok f \<Longrightarrow> store_ok (fungespace_set v p f)"
  by (simp add: fungespace_set_def Let_def store_ok_set_no_bounds)

text \<open>The first cell of an initial load replaces the corners.\<close>

lemma fungespace_set_initial_cases:
  "fungespace_set_initial v p f =
     (if boundsvalid f then fungespace_set_no_bounds_update v p (fungespace_extend p f)
      else fungespace_set_no_bounds_update v p
             (f\<lparr>topLeftCorner := p, bottomRightCorner := p, boundsvalid := True\<rparr>))"
  by (simp add: fungespace_set_initial_def Let_def)

lemma corner_update_keeps [simp]:
  "store_ok (f\<lparr>topLeftCorner := a, bottomRightCorner := b, boundsvalid := c\<rparr>) = store_ok f"
  "fungespace_get (f\<lparr>topLeftCorner := a, bottomRightCorner := b, boundsvalid := c\<rparr>) = fungespace_get f"
  "counts_ok (f\<lparr>topLeftCorner := a, bottomRightCorner := b, boundsvalid := c\<rparr>) = counts_ok f"
  "capacity_ok (f\<lparr>topLeftCorner := a, bottomRightCorner := b, boundsvalid := c\<rparr>) = capacity_ok f"
  by (simp_all add: store_ok_def counts_ok_def capacity_ok_def used_cells_def used_col_def
      used_row_def fungespace_get_def get_count_col_def get_count_row_def Let_def fun_eq_iff)

lemma store_ok_set_initial: "store_ok f \<Longrightarrow> store_ok (fungespace_set_initial v p f)"
  by (simp add: fungespace_set_initial_cases store_ok_set_no_bounds)

lemma get_fungespace_set_initial:
  "store_ok f \<Longrightarrow> fungespace_get (fungespace_set_initial v p f) = (fungespace_get f)(p := v)"
  by (simp add: fungespace_set_initial_cases get_set_no_bounds)

lemma bounds_ok_set_initial:
  assumes "store_ok f" "bounds_ok f" "boundsvalid f \<or> used_cells f = {}"
  shows "bounds_ok (fungespace_set_initial v p f)"
proof (cases "boundsvalid f")
  case True
  then show ?thesis using assms
    by (auto simp: fungespace_set_initial_cases bounds_ok_extend intro!: bounds_ok_set_no_bounds)
next
  case False
  with assms have "bounds_ok (f\<lparr>topLeftCorner := p, bottomRightCorner := p, boundsvalid := True\<rparr>)"
    by (auto simp: bounds_ok_def used_cells_def cell_order)
  then show ?thesis using False assms
    by (auto simp: fungespace_set_initial_cases fungespace_in_range_def cell_order
        intro!: bounds_ok_set_no_bounds)
qed

section \<open>Properties\<close>

lemma store_ok_create: "store_ok fungespace_create"
  by (simp add: store_ok_def fungespace_create_def ght_create_ok ght_get_create)

lemma get_create: "fungespace_get fungespace_create = (\<lambda>_. space_cell)"
  by (simp add: fungespace_get_def fungespace_create_def ght_get_create Let_def fun_eq_iff)

lemma used_cells_create: "used_cells fungespace_create = {}"
  by (simp add: used_cells_def get_create)

lemma counts_ok_create: "counts_ok fungespace_create"
  by (simp add: counts_ok_def used_col_def used_row_def used_cells_create get_count_col_def
      get_count_row_def Let_def)
    (simp add: fungespace_create_def ght_get_create)

lemma fspace_ok_create: "fspace_ok fungespace_create"
  by (simp add: fspace_ok_def store_ok_create counts_ok_create capacity_ok_def bounds_ok_def
      used_cells_create)
    (simp add: fungespace_create_def cell_order)

text \<open>
  C15: funge-space is a total map from positions to cells, spaces at first: on a well-formed store
  (which creation gives and every set keeps) a set through either routine changes the cell at that
  position and no other, on the static array, in the hash table and across their border, whatever
  the two cells' values; and the offset variants are the plain ones at the sum of the vectors.
\<close>

theorem fungespace_get_set:
  assumes "store_ok f"
  shows "fungespace_get (fungespace_set v p f) q = (if q = p then v else fungespace_get f q) \<and>
         fungespace_get (fungespace_set_initial v p f) q = (if q = p then v else fungespace_get f q) \<and>
         store_ok (fungespace_set v p f) \<and> store_ok (fungespace_set_initial v p f) \<and>
         fungespace_set_offset v p off f = fungespace_set v (vector_add p off) f \<and>
         fungespace_get_offset f p off = fungespace_get f (vector_add p off) \<and>
         store_ok fungespace_create \<and> fungespace_get fungespace_create q = space_cell"
  using assms
  by (simp add: get_fungespace_set get_fungespace_set_initial store_ok_set store_ok_set_initial
      store_ok_create get_create fungespace_set_offset_def fungespace_get_offset_def
      fungespace_get_def vector_add_def)

theorem fungespace_get_set_witness:
  "fungespace_get (fungespace_set 7 (vector 1000 2000) (fungespace_set 9 (vector 447 959)
       fungespace_create)) (vector 447 959) = 9"
proof -
  note get = fungespace_get_set [THEN conjunct1]
  have ok: "store_ok (fungespace_set 9 (vector 447 959) fungespace_create)"
    using fungespace_get_set [OF store_ok_create] by blast
  show ?thesis
    using get [OF ok, of 7 "vector 1000 2000" "vector 447 959"]
      get [OF store_ok_create, of 9 "vector 447 959" "vector 447 959"] by simp
qed

lemma fspace_ok_set:
  assumes "fspace_ok f" "capacity_ok (fungespace_set v p f)"
  shows "fspace_ok (fungespace_set v p f)"
proof -
  have ok: "store_ok f" "counts_ok f" "bounds_ok f" "capacity_ok f"
    using assms(1) by (auto simp: fspace_ok_def)
  have "counts_ok (fungespace_set v p f)"
    by (simp add: fungespace_set_def Let_def ok counts_ok_set_no_bounds)
  then show ?thesis
    using ok assms(2) by (simp add: fspace_ok_def store_ok_set bounds_ok_set)
qed

lemma fspace_ok_set_initial:
  assumes "fspace_ok f" "capacity_ok (fungespace_set_initial v p f)" "boundsvalid f \<or> used_cells f = {}"
  shows "fspace_ok (fungespace_set_initial v p f)"
proof -
  have ok: "store_ok f" "counts_ok f" "bounds_ok f" "capacity_ok f"
    using assms(1) by (auto simp: fspace_ok_def)
  have "counts_ok (fungespace_set_initial v p f)"
    by (simp add: fungespace_set_initial_cases ok counts_ok_set_no_bounds)
  then show ?thesis
    using ok assms(2,3) by (simp add: fspace_ok_def store_ok_set_initial bounds_ok_set_initial)
qed

text \<open>
  C16: the invariant of funge-space: no space is stored in the hash table, every column and row
  count is the exact number of cells in use there (so that a wrapped or stale count is
  impossible), and every cell in use lies between the corners. Creation establishes it and
  every set keeps it, as long as fewer than 2^64 cells are in use; so does a set during the
  initial load, where the first cell replaces the corners.
\<close>

theorem fungespace_set_invariant:
  assumes "fspace_ok f"
  shows "(capacity_ok (fungespace_set v p f) \<longrightarrow> fspace_ok (fungespace_set v p f)) \<and>
         (capacity_ok (fungespace_set_initial v p f) \<and> (boundsvalid f \<or> used_cells f = {}) \<longrightarrow>
            fspace_ok (fungespace_set_initial v p f)) \<and>
         fspace_ok fungespace_create"
  using assms fspace_ok_set fspace_ok_set_initial fspace_ok_create by blast

lemma capacity_ok_small:
  "used_cells f \<subseteq> A \<Longrightarrow> finite A \<Longrightarrow> card A < 2 ^ 64 \<Longrightarrow> capacity_ok f"
  using card_mono [of A "used_cells f"] by (simp add: capacity_ok_def)

theorem fungespace_set_invariant_witness:
  "fspace_ok (fungespace_set 7 (vector 1000 2000) fungespace_create) \<and>
   get_count_col (fungespace_set 7 (vector 1000 2000) fungespace_create) 1000 = 1"
proof -
  let ?f = "fungespace_set 7 (vector 1000 2000) fungespace_create"
  have used: "used_cells ?f = {vector 1000 2000}"
    by (auto simp: used_cells_def get_fungespace_set store_ok_create get_create)
  then have "capacity_ok ?f" by (simp add: capacity_ok_def)
  then have ok: "fspace_ok ?f" using fungespace_set_invariant [OF fspace_ok_create] by blast
  then have "get_count_col ?f 1000 = of_nat (card (used_col ?f 1000))"
    by (simp add: fspace_ok_def counts_ok_def)
  also have "used_col ?f 1000 = {vector 1000 2000}"
    by (auto simp: used_col_def used)
  finally show ?thesis using ok by simp
qed

section \<open>Many cells written one after the other\<close>

lemma get_fold_set:
  "store_ok f \<Longrightarrow> store_ok (fold (\<lambda>i. fungespace_set (v i) (p i)) is f) \<and>
     fungespace_get (fold (\<lambda>i. fungespace_set (v i) (p i)) is f) = fold (\<lambda>i g. g(p i := v i)) is (fungespace_get f)"
  by (induction "is" arbitrary: f) (simp_all add: store_ok_set get_fungespace_set)

lemma fold_upd_other: "q \<notin> p ` set is \<Longrightarrow> fold (\<lambda>i g. g(p i := v i)) is g q = g q"
  by (induction "is" arbitrary: g) auto

lemma fold_upd_at: "inj_on p (set is) \<Longrightarrow> i \<in> set is \<Longrightarrow> fold (\<lambda>i g. g(p i := v i)) is g (p i) = v i"
proof (induction "is" arbitrary: g)
  case (Cons k ks)
  show ?case
  proof (cases "i \<in> set ks")
    case True then show ?thesis using Cons by simp
  next
    case False
    then have "p i \<notin> p ` set ks" using Cons.prems by (auto simp: inj_on_def)
    then show ?thesis using False Cons.prems by (simp add: fold_upd_other del: fun_upd_apply) (simp add: fun_upd_def)
  qed
qed simp

end
