(* ===== verification/Fspace_Bounds.thy ===== *)
theory Fspace_Bounds
  imports Fspace
begin

text \<open>
  The bounds of funge-space and wrapping, \<^verbatim>\<open>src/funge-space/funge-space.c\<close>: minimising the
  bounds with the column and row counts, the bounding rectangle that system information reports,
  and where an instruction pointer that left the bounds comes back in.
\<close>

section \<open>Minimising the bounds\<close>

text \<open>The scans inwards from an edge, until a count is not zero or the other edge is met.\<close>

function scan_up :: "(cell \<Rightarrow> ucell) \<Rightarrow> cell \<Rightarrow> cell \<Rightarrow> cell" where
  "scan_up get_count mn mx =
     (if mn <s mx then (if get_count mn \<noteq> 0 then mn else scan_up get_count (mn + 1) mx) else mn)"
  by pat_completeness auto
termination
  by (relation "measure (\<lambda>(get_count, mn, mx). nat (sint mx - sint mn))")
    (auto simp: sint_succ_cell cell_less_iff)

function scan_down :: "(cell \<Rightarrow> ucell) \<Rightarrow> cell \<Rightarrow> cell \<Rightarrow> cell" where
  "scan_down get_count mn mx =
     (if mn <s mx then (if get_count mx \<noteq> 0 then mx else scan_down get_count mn (mx - 1)) else mx)"
  by pat_completeness auto
termination
  by (relation "measure (\<lambda>(get_count, mn, mx). nat (sint mx - sint mn))")
    (auto simp: sint_pred_cell cell_less_iff)

declare scan_up.simps [simp del] scan_down.simps [simp del]

text \<open>\<open>largemodel_minimise\<close>: both loops grow a pair of maximum and minimum.\<close>

definition grow_bounds :: "cell \<Rightarrow> cell \<times> cell \<Rightarrow> cell \<times> cell" where
  "grow_bounds v = (\<lambda>(max_h, min_h).
     (if max_h <s v then v else max_h, if v <s min_h then v else min_h))"

fun largemodel_hash :: "cell list \<Rightarrow> cell \<times> cell" where
  "largemodel_hash [] = (0, 0)"
| "largemodel_hash (v # vs) = fold grow_bounds vs (v, v)"

definition largemodel_minimise ::
    "(cell, ucell) ght_hash_table \<Rightarrow> (nat \<Rightarrow> ucell) \<Rightarrow> nat \<Rightarrow> ucell \<Rightarrow> cell \<times> cell" where
  "largemodel_minimise hashtable sarray sarray_len sarray_off =
     (let bounds = largemodel_hash (map fst (ght_entries fspacecount_hash hashtable))
      in fold (\<lambda>i bounds. if 0 < sarray i then grow_bounds (of_nat i - sarray_off) bounds else bounds)
           [0..<sarray_len] bounds)"

definition fungespace_minimize_bounds :: "fungeSpace \<Rightarrow> fungeSpace" where
  "fungespace_minimize_bounds fspace =
     (if boundsexact fspace then fspace
      else
        (let minx = vec_x (topLeftCorner fspace); miny = vec_y (topLeftCorner fspace);
             maxx = vec_x (bottomRightCorner fspace); maxy = vec_y (bottomRightCorner fspace);
             (maxx, minx) =
               (if SIMPLEBOUNDS_MAX <s maxx - minx then
                  largemodel_minimise (col_count fspace) (cfun_static_use_count_col fspace)
                    (unat FUNGESPACE_STATIC_X) FUNGESPACE_STATIC_OFFSET_X
                else
                  (let minx = scan_up (get_count_col fspace) minx maxx;
                       maxx = scan_down (get_count_col fspace) minx maxx
                   in (maxx, minx)));
             (maxy, miny) =
               (if SIMPLEBOUNDS_MAX <s maxy - miny then
                  largemodel_minimise (row_count fspace) (cfun_static_use_count_row fspace)
                    (unat FUNGESPACE_STATIC_Y) FUNGESPACE_STATIC_OFFSET_Y
                else
                  (let miny = scan_up (get_count_row fspace) miny maxy;
                       maxy = scan_down (get_count_row fspace) miny maxy
                   in (maxy, miny)))
         in fspace\<lparr>topLeftCorner := vector minx miny, bottomRightCorner := vector maxx maxy,
                   boundsexact := True\<rparr>))"

definition fungespace_get_bounds_rect :: "fungeSpace \<Rightarrow> fungeRect \<times> fungeSpace" where
  "fungespace_get_bounds_rect fspace =
     (let fspace = fungespace_minimize_bounds fspace
      in (\<lparr>rect_x = vec_x (topLeftCorner fspace), rect_y = vec_y (topLeftCorner fspace),
           rect_w = vec_x (bottomRightCorner fspace) - vec_x (topLeftCorner fspace),
           rect_h = vec_y (bottomRightCorner fspace) - vec_y (topLeftCorner fspace)\<rparr>, fspace))"

section \<open>Wrapping\<close>

definition fspace_vector_is_cardinal :: "funge_vector \<Rightarrow> bool" where
  "fspace_vector_is_cardinal v =
     (let x = ABS (vec_x v); y = ABS (vec_y v)
      in if x + y \<noteq> 1 then False else if x \<noteq> 0 \<and> y \<noteq> 0 then False else True)"

definition wrap_frac :: "cell \<Rightarrow> cell \<Rightarrow> cell" where
  "wrap_frac n d = (if c_mod n d = 0 then c_div n d else c_div (n + d) d)"

definition wrap_frac_dir :: "cell \<Rightarrow> cell \<Rightarrow> cell \<Rightarrow> cell \<Rightarrow> cell" where
  "wrap_frac_dir a r s da = (if 0 <s da then wrap_frac (a - r) da else wrap_frac (a - s) da)"

text \<open>The number of steps \<open>m\<close> that \<open>wrap\<close> goes back, and the move.\<close>

definition wrap_steps :: "fungeSpace \<Rightarrow> funge_vector \<Rightarrow> funge_vector \<Rightarrow> cell" where
  "wrap_steps fspace pos delta =
     (let fx = wrap_frac_dir (vec_x pos) (vec_x (topLeftCorner fspace))
                 (vec_x (bottomRightCorner fspace)) (vec_x delta);
          fy = wrap_frac_dir (vec_y pos) (vec_y (topLeftCorner fspace))
                 (vec_y (bottomRightCorner fspace)) (vec_y delta)
      in if vec_x delta = 0 then fy else if vec_y delta = 0 then fx
         else if fx <s fy then fx else fy)"

definition wrap :: "fungeSpace \<Rightarrow> funge_vector \<Rightarrow> funge_vector \<Rightarrow> funge_vector" where
  "wrap fspace pos delta =
     (if vec_x delta = 0 \<and> vec_y delta = 0 then pos
      else
        (let m = wrap_steps fspace pos delta
         in vector (vec_x pos - m * vec_x delta) (vec_y pos - m * vec_y delta)))"

definition BOUNDS_TOO_LARGE_x :: "fungeSpace \<Rightarrow> bool" where
  "BOUNDS_TOO_LARGE_x fspace \<longleftrightarrow>
     SIMPLEBOUNDS_MAX <s vec_x (bottomRightCorner fspace) - vec_x (topLeftCorner fspace)"

definition BOUNDS_TOO_LARGE_y :: "fungeSpace \<Rightarrow> bool" where
  "BOUNDS_TOO_LARGE_y fspace \<longleftrightarrow>
     SIMPLEBOUNDS_MAX <s vec_y (bottomRightCorner fspace) - vec_y (topLeftCorner fspace)"

definition fungespace_wrap :: "funge_vector \<Rightarrow> funge_vector \<Rightarrow> fungeSpace \<Rightarrow> funge_vector \<times> fungeSpace" where
  "fungespace_wrap position delta fspace =
     (let fspace = (if \<not> boundsexact fspace \<and> (BOUNDS_TOO_LARGE_x fspace \<or> BOUNDS_TOO_LARGE_y fspace)
                    then fungespace_minimize_bounds fspace else fspace);
          tlc = topLeftCorner fspace; brc = bottomRightCorner fspace
      in if fungespace_in_range fspace position then (position, fspace)
         else if fspace_vector_is_cardinal delta then
           (vector
              (if vec_x position <s vec_x tlc then vec_x brc + 1
               else if vec_x brc <s vec_x position then vec_x tlc - 1 else vec_x position)
              (if vec_y position <s vec_y tlc then vec_y brc + 1
               else if vec_y brc <s vec_y position then vec_y tlc - 1 else vec_y position),
            fspace)
         else (wrap fspace position delta, fspace))"

section \<open>The minimised bounds\<close>

lemma scan_up_spec:
  "mn \<le>s mx \<Longrightarrow> mn \<le>s scan_up cnt mn mx \<and> scan_up cnt mn mx \<le>s mx \<and>
     (\<forall>x. mn \<le>s x \<and> x <s scan_up cnt mn mx \<longrightarrow> cnt x = 0) \<and>
     (scan_up cnt mn mx = mx \<or> cnt (scan_up cnt mn mx) \<noteq> 0)"
proof (induction cnt mn mx rule: scan_up.induct)
  case (1 cnt mn mx)
  note unfold = scan_up.simps [of cnt mn mx]
  show ?case
  proof (cases "mn <s mx \<and> cnt mn = 0")
    case True
    then have step: "sint (mn + 1) = sint mn + 1" using sint_succ_cell by blast
    have eq: "scan_up cnt mn mx = scan_up cnt (mn + 1) mx" using True by (simp add: unfold)
    have "mn + 1 \<le>s mx" using True step by (simp add: cell_order)
    then have IH: "mn + 1 \<le>s scan_up cnt (mn + 1) mx \<and> scan_up cnt (mn + 1) mx \<le>s mx \<and>
        (\<forall>x. mn + 1 \<le>s x \<and> x <s scan_up cnt (mn + 1) mx \<longrightarrow> cnt x = 0) \<and>
        (scan_up cnt (mn + 1) mx = mx \<or> cnt (scan_up cnt (mn + 1) mx) \<noteq> 0)"
      using 1(1) True by simp
    have "cnt x = 0" if "mn \<le>s x" "x <s scan_up cnt (mn + 1) mx" for x
      using that IH True step cell_eq_iff [of x mn] by (cases "x = mn") (auto simp: cell_order)
    then show ?thesis using IH step unfolding eq by (auto simp: cell_order)
  next
    case False
    then have "scan_up cnt mn mx = mn" by (auto simp: unfold)
    then show ?thesis using 1(2) False cell_eq_iff [of mn mx] by (auto simp: cell_order)
  qed
qed

lemma scan_down_spec:
  "mn \<le>s mx \<Longrightarrow> mn \<le>s scan_down cnt mn mx \<and> scan_down cnt mn mx \<le>s mx \<and>
     (\<forall>x. scan_down cnt mn mx <s x \<and> x \<le>s mx \<longrightarrow> cnt x = 0) \<and>
     (scan_down cnt mn mx = mn \<or> cnt (scan_down cnt mn mx) \<noteq> 0)"
proof (induction cnt mn mx rule: scan_down.induct)
  case (1 cnt mn mx)
  note unfold = scan_down.simps [of cnt mn mx]
  show ?case
  proof (cases "mn <s mx \<and> cnt mx = 0")
    case True
    then have step: "sint (mx - 1) = sint mx - 1" using sint_pred_cell by blast
    have eq: "scan_down cnt mn mx = scan_down cnt mn (mx - 1)" using True by (simp add: unfold)
    have "mn \<le>s mx - 1" using True step by (simp add: cell_order)
    then have IH: "mn \<le>s scan_down cnt mn (mx - 1) \<and> scan_down cnt mn (mx - 1) \<le>s mx - 1 \<and>
        (\<forall>x. scan_down cnt mn (mx - 1) <s x \<and> x \<le>s mx - 1 \<longrightarrow> cnt x = 0) \<and>
        (scan_down cnt mn (mx - 1) = mn \<or> cnt (scan_down cnt mn (mx - 1)) \<noteq> 0)"
      using 1(1) True by simp
    have "cnt x = 0" if "x \<le>s mx" "scan_down cnt mn (mx - 1) <s x" for x
      using that IH True step cell_eq_iff [of x mx] by (cases "x = mx") (auto simp: cell_order)
    then show ?thesis using IH step unfolding eq by (auto simp: cell_order)
  next
    case False
    then have "scan_down cnt mn mx = mx" by (auto simp: unfold)
    then show ?thesis using 1(2) False cell_eq_iff [of mn mx] by (auto simp: cell_order)
  qed
qed

lemma grow_bounds_le:
  assumes "mn \<le>s mx" "grow_bounds v (mx, mn) = (mx', mn')"
  shows "mx \<le>s mx'" "mn' \<le>s mn" "mn' \<le>s mx'" "mn' \<le>s v" "v \<le>s mx'"
  using assms by (auto simp: grow_bounds_def cell_order split: if_splits)

lemma fold_grow_bounds:
  assumes "mn \<le>s mx"
    "fold (\<lambda>i b. if P i then grow_bounds (g i) b else b) is (mx, mn) = (mx', mn')"
  shows "mx \<le>s mx' \<and> mn' \<le>s mn \<and> mn' \<le>s mx' \<and>
         (\<forall>i\<in>set is. P i \<longrightarrow> mn' \<le>s g i \<and> g i \<le>s mx')"
  using assms
proof (induction "is" arbitrary: mx mn)
  case Nil
  then show ?case by (simp add: cell_order)
next
  case (Cons i "is")
  obtain mx1 mn1 where b: "(if P i then grow_bounds (g i) (mx, mn) else (mx, mn)) = (mx1, mn1)"
    by (cases "if P i then grow_bounds (g i) (mx, mn) else (mx, mn)")
  have le: "mx \<le>s mx1" "mn1 \<le>s mn" "mn1 \<le>s mx1" "P i \<Longrightarrow> mn1 \<le>s g i \<and> g i \<le>s mx1"
    using b Cons.prems(1) grow_bounds_le [of mn mx "g i" mx1 mn1]
    by (auto simp: cell_order split: if_splits)
  have "mx1 \<le>s mx' \<and> mn' \<le>s mn1 \<and> mn' \<le>s mx' \<and>
      (\<forall>i\<in>set is. P i \<longrightarrow> mn' \<le>s g i \<and> g i \<le>s mx')"
    using Cons.IH [OF le(3)] Cons.prems(2) b by simp
  then show ?case using le by (auto simp: cell_order)
qed

lemma largemodel_hash_spec:
  assumes "largemodel_hash vs = (mx, mn)"
  shows "mn \<le>s mx \<and> (\<forall>v\<in>set vs. mn \<le>s v \<and> v \<le>s mx)"
proof (cases vs)
  case Nil
  then show ?thesis using assms by (simp add: cell_order)
next
  case (Cons v vs')
  then show ?thesis
    using assms fold_grow_bounds [of v v "\<lambda>_. True" "\<lambda>v. v" vs' mx mn]
    by (auto simp: cell_order)
qed

lemma largemodel_minimise_spec:
  assumes "largemodel_minimise t sarray len off = (mx, mn)"
  shows "mn \<le>s mx \<and>
         (\<forall>v\<in>set (p_order t). mn \<le>s v \<and> v \<le>s mx) \<and>
         (\<forall>i<len. 0 < sarray i \<longrightarrow> mn \<le>s of_nat i - off \<and> of_nat i - off \<le>s mx)"
proof -
  obtain mx0 mn0 where h: "largemodel_hash (p_order t) = (mx0, mn0)"
    by (cases "largemodel_hash (p_order t)")
  note h' = largemodel_hash_spec [OF h]
  have keys: "map fst (ght_entries fspacecount_hash t) = p_order t"
    by (simp add: ght_entries_def comp_def)
  have "fold (\<lambda>i b. if 0 < sarray i then grow_bounds (of_nat i - off) b else b) [0..<len] (mx0, mn0) =
      (mx, mn)"
    using assms by (simp add: largemodel_minimise_def keys h Let_def)
  from fold_grow_bounds [OF h' [THEN conjunct1] this] h' show ?thesis
    by (auto simp: cell_order)
qed

text \<open>Every column or row with a count is within the result, whichever way it was computed.\<close>

lemma largemodel_col:
  assumes "ght_ok fspacecount_hash (col_count f)" "get_count_col f x \<noteq> 0"
    "largemodel_minimise (col_count f) (cfun_static_use_count_col f) (unat FUNGESPACE_STATIC_X)
       FUNGESPACE_STATIC_OFFSET_X = (mx, mn)"
  shows "mn \<le>s x \<and> x \<le>s mx"
proof (cases "x + FUNGESPACE_STATIC_OFFSET_X < FUNGESPACE_STATIC_X")
  case True
  then have "unat (x + FUNGESPACE_STATIC_OFFSET_X) < unat FUNGESPACE_STATIC_X"
    by (simp add: word_less_nat_alt)
  moreover have "0 < cfun_static_use_count_col f (unat (x + FUNGESPACE_STATIC_OFFSET_X))"
    using True assms(2) by (simp add: get_count_col_def word_gt_0)
  ultimately show ?thesis
    using largemodel_minimise_spec [OF assms(3)] by force
next
  case False
  then have "fspacecount_get (col_count f) x \<noteq> None"
    using assms(2) by (auto simp: get_count_col_def split: option.splits)
  then show ?thesis
    using largemodel_minimise_spec [OF assms(3)] ght_get_order [OF assms(1)] by blast
qed

lemma largemodel_row:
  assumes "ght_ok fspacecount_hash (row_count f)" "get_count_row f y \<noteq> 0"
    "largemodel_minimise (row_count f) (cfun_static_use_count_row f) (unat FUNGESPACE_STATIC_Y)
       FUNGESPACE_STATIC_OFFSET_Y = (mx, mn)"
  shows "mn \<le>s y \<and> y \<le>s mx"
proof (cases "y + FUNGESPACE_STATIC_OFFSET_Y < FUNGESPACE_STATIC_Y")
  case True
  then have "unat (y + FUNGESPACE_STATIC_OFFSET_Y) < unat FUNGESPACE_STATIC_Y"
    by (simp add: word_less_nat_alt)
  moreover have "0 < cfun_static_use_count_row f (unat (y + FUNGESPACE_STATIC_OFFSET_Y))"
    using True assms(2) by (simp add: get_count_row_def word_gt_0)
  ultimately show ?thesis
    using largemodel_minimise_spec [OF assms(3)] by force
next
  case False
  then have "fspacecount_get (row_count f) y \<noteq> None"
    using assms(2) by (auto simp: get_count_row_def split: option.splits)
  then show ?thesis
    using largemodel_minimise_spec [OF assms(3)] ght_get_order [OF assms(1)] by blast
qed

lemma scan_axis:
  assumes "mn \<le>s mx" "mn' = scan_up cnt mn mx" "mx' = scan_down cnt mn' mx"
  shows "mn' \<le>s mx' \<and> (\<forall>x. mn \<le>s x \<and> x \<le>s mx \<and> cnt x \<noteq> 0 \<longrightarrow> mn' \<le>s x \<and> x \<le>s mx')"
    "(\<exists>x. mn \<le>s x \<and> x \<le>s mx \<and> cnt x \<noteq> 0) \<Longrightarrow> cnt mn' \<noteq> 0 \<and> cnt mx' \<noteq> 0"
proof -
  have up: "mn \<le>s mn' \<and> mn' \<le>s mx \<and> (\<forall>x. mn \<le>s x \<and> x <s mn' \<longrightarrow> cnt x = 0) \<and>
      (mn' = mx \<or> cnt mn' \<noteq> 0)"
    unfolding assms(2) by (rule scan_up_spec [OF assms(1)])
  then have down: "mn' \<le>s mx' \<and> mx' \<le>s mx \<and> (\<forall>x. mx' <s x \<and> x \<le>s mx \<longrightarrow> cnt x = 0) \<and>
      (mx' = mn' \<or> cnt mx' \<noteq> 0)"
    unfolding assms(3) by (intro scan_down_spec) simp
  show both: "mn' \<le>s mx' \<and> (\<forall>x. mn \<le>s x \<and> x \<le>s mx \<and> cnt x \<noteq> 0 \<longrightarrow> mn' \<le>s x \<and> x \<le>s mx')"
    using up down by (meson cell_order(1,2) not_le)
  assume "\<exists>x. mn \<le>s x \<and> x \<le>s mx \<and> cnt x \<noteq> 0"
  then obtain x where x: "mn' \<le>s x" "x \<le>s mx'" "x \<le>s mx" "cnt x \<noteq> 0" using both by blast
  have "cnt mn' \<noteq> 0"
  proof (cases "mn' = mx")
    case True
    then have "x = mn'" using x by (simp add: cell_order cell_eq_iff)
    then show ?thesis using x(4) by simp
  qed (use up in blast)
  then show "cnt mn' \<noteq> 0 \<and> cnt mx' \<noteq> 0" using down by auto
qed

lemma used_in_counts:
  assumes "counts_ok f" "capacity_ok f" "p \<in> used_cells f"
  shows "get_count_col f (vec_x p) \<noteq> 0" "get_count_row f (vec_y p) \<noteq> 0"
proof -
  have "0 < card (used_col f (vec_x p))" "0 < card (used_row f (vec_y p))"
    using assms(3) by (auto simp: card_gt_0_iff finite_vectors used_col_def used_row_def)
  moreover have "card (used_col f (vec_x p)) < 2 ^ 64" "card (used_row f (vec_y p)) < 2 ^ 64"
    using card_used_le [of f "vec_x p"] card_used_le [of f "vec_y p"] assms(2)
    unfolding capacity_ok_def by (auto elim: order_le_less_trans)
  ultimately show "get_count_col f (vec_x p) \<noteq> 0" "get_count_row f (vec_y p) \<noteq> 0"
    using assms(1) by (auto simp: counts_ok_def dest: of_nat_cell_neq_0)
qed

lemma in_range_alt:
  "fungespace_in_range f p \<longleftrightarrow>
     vec_x (topLeftCorner f) \<le>s vec_x p \<and> vec_x p \<le>s vec_x (bottomRightCorner f) \<and>
     vec_y (topLeftCorner f) \<le>s vec_y p \<and> vec_y p \<le>s vec_y (bottomRightCorner f)"
  by (auto simp: fungespace_in_range_def cell_order)

text \<open>The new corners of either axis, and what they enclose.\<close>

definition minimised_x :: "fungeSpace \<Rightarrow> cell \<times> cell" where
  "minimised_x f =
     (let minx = vec_x (topLeftCorner f); maxx = vec_x (bottomRightCorner f) in
      if SIMPLEBOUNDS_MAX <s maxx - minx then
        largemodel_minimise (col_count f) (cfun_static_use_count_col f)
          (unat FUNGESPACE_STATIC_X) FUNGESPACE_STATIC_OFFSET_X
      else (let minx = scan_up (get_count_col f) minx maxx;
                maxx = scan_down (get_count_col f) minx maxx in (maxx, minx)))"

definition minimised_y :: "fungeSpace \<Rightarrow> cell \<times> cell" where
  "minimised_y f =
     (let miny = vec_y (topLeftCorner f); maxy = vec_y (bottomRightCorner f) in
      if SIMPLEBOUNDS_MAX <s maxy - miny then
        largemodel_minimise (row_count f) (cfun_static_use_count_row f)
          (unat FUNGESPACE_STATIC_Y) FUNGESPACE_STATIC_OFFSET_Y
      else (let miny = scan_up (get_count_row f) miny maxy;
                maxy = scan_down (get_count_row f) miny maxy in (maxy, miny)))"

lemma minimize_bounds_cases:
  "fungespace_minimize_bounds f =
     (if boundsexact f then f
      else f\<lparr>topLeftCorner := vector (snd (minimised_x f)) (snd (minimised_y f)),
             bottomRightCorner := vector (fst (minimised_x f)) (fst (minimised_y f)),
             boundsexact := True\<rparr>)"
  by (simp add: fungespace_minimize_bounds_def minimised_x_def minimised_y_def Let_def split_beta)

lemma minimised_x_spec:
  assumes "fspace_ok f"
  shows "snd (minimised_x f) \<le>s fst (minimised_x f)"
    "p \<in> used_cells f \<Longrightarrow> snd (minimised_x f) \<le>s vec_x p \<and> vec_x p \<le>s fst (minimised_x f)"
proof -
  have b: "vec_x (topLeftCorner f) \<le>s vec_x (bottomRightCorner f)"
    "ght_ok fspacecount_hash (col_count f)"
    using assms by (auto simp: fspace_ok_def bounds_ok_def store_ok_def)
  show "snd (minimised_x f) \<le>s fst (minimised_x f)"
    using largemodel_minimise_spec [OF prod.collapse [symmetric]] scan_axis(1) [OF b(1) refl refl]
    by (auto simp: minimised_x_def Let_def)
  assume p: "p \<in> used_cells f"
  then have "get_count_col f (vec_x p) \<noteq> 0"
    using assms used_in_counts(1) by (auto simp: fspace_ok_def)
  moreover have "fungespace_in_range f p" using assms p by (auto simp: fspace_ok_def bounds_ok_def)
  ultimately show "snd (minimised_x f) \<le>s vec_x p \<and> vec_x p \<le>s fst (minimised_x f)"
    using largemodel_col [OF b(2) _ prod.collapse [symmetric]] scan_axis(1) [OF b(1) refl refl]
    by (auto simp: minimised_x_def Let_def in_range_alt)
qed

lemma minimised_y_spec:
  assumes "fspace_ok f"
  shows "snd (minimised_y f) \<le>s fst (minimised_y f)"
    "p \<in> used_cells f \<Longrightarrow> snd (minimised_y f) \<le>s vec_y p \<and> vec_y p \<le>s fst (minimised_y f)"
proof -
  have b: "vec_y (topLeftCorner f) \<le>s vec_y (bottomRightCorner f)"
    "ght_ok fspacecount_hash (row_count f)"
    using assms by (auto simp: fspace_ok_def bounds_ok_def store_ok_def)
  show "snd (minimised_y f) \<le>s fst (minimised_y f)"
    using largemodel_minimise_spec [OF prod.collapse [symmetric]] scan_axis(1) [OF b(1) refl refl]
    by (auto simp: minimised_y_def Let_def)
  assume p: "p \<in> used_cells f"
  then have "get_count_row f (vec_y p) \<noteq> 0"
    using assms used_in_counts(2) by (auto simp: fspace_ok_def)
  moreover have "fungespace_in_range f p" using assms p by (auto simp: fspace_ok_def bounds_ok_def)
  ultimately show "snd (minimised_y f) \<le>s vec_y p \<and> vec_y p \<le>s fst (minimised_y f)"
    using largemodel_row [OF b(2) _ prod.collapse [symmetric]] scan_axis(1) [OF b(1) refl refl]
    by (auto simp: minimised_y_def Let_def in_range_alt)
qed

lemma minimize_keeps [simp]:
  "fungespace_get (fungespace_minimize_bounds f) = fungespace_get f"
  "store_ok (fungespace_minimize_bounds f) = store_ok f"
  "used_cells (fungespace_minimize_bounds f) = used_cells f"
  "get_count_col (fungespace_minimize_bounds f) = get_count_col f"
  "get_count_row (fungespace_minimize_bounds f) = get_count_row f"
  by (simp_all add: minimize_bounds_cases fungespace_get_cases store_ok_def used_cells_def
      get_count_col_def get_count_row_def Let_def fun_eq_iff)

lemma fspace_ok_minimize:
  assumes "fspace_ok f"
  shows "fspace_ok (fungespace_minimize_bounds f)"
proof (cases "boundsexact f")
  case True
  then show ?thesis using assms by (simp add: minimize_bounds_cases)
next
  case False
  have "fungespace_in_range (fungespace_minimize_bounds f) p" if "p \<in> used_cells f" for p
    using False minimised_x_spec(2) [OF assms that] minimised_y_spec(2) [OF assms that]
    by (simp add: in_range_alt minimize_bounds_cases)
  moreover have "vec_x (topLeftCorner (fungespace_minimize_bounds f)) \<le>s
        vec_x (bottomRightCorner (fungespace_minimize_bounds f))"
    "vec_y (topLeftCorner (fungespace_minimize_bounds f)) \<le>s
        vec_y (bottomRightCorner (fungespace_minimize_bounds f))"
    using False minimised_x_spec(1) [OF assms] minimised_y_spec(1) [OF assms]
    by (simp_all add: minimize_bounds_cases)
  ultimately show ?thesis
    using assms
    by (auto simp: fspace_ok_def bounds_ok_def counts_ok_def capacity_ok_def used_col_def used_row_def)
qed

lemma minimize_exact:
  assumes "fspace_ok f" "\<not> boundsexact f" "used_cells f \<noteq> {}"
    "\<not> BOUNDS_TOO_LARGE_x f" "\<not> BOUNDS_TOO_LARGE_y f"
  shows "used_col f (vec_x (topLeftCorner (fungespace_minimize_bounds f))) \<noteq> {} \<and>
         used_col f (vec_x (bottomRightCorner (fungespace_minimize_bounds f))) \<noteq> {} \<and>
         used_row f (vec_y (topLeftCorner (fungespace_minimize_bounds f))) \<noteq> {} \<and>
         used_row f (vec_y (bottomRightCorner (fungespace_minimize_bounds f))) \<noteq> {}"
proof -
  have ok: "counts_ok f" "bounds_ok f" "capacity_ok f" using assms(1) by (auto simp: fspace_ok_def)
  then have b: "vec_x (topLeftCorner f) \<le>s vec_x (bottomRightCorner f)"
    "vec_y (topLeftCorner f) \<le>s vec_y (bottomRightCorner f)"
    by (auto simp: bounds_ok_def)
  obtain p where p: "p \<in> used_cells f" using assms(3) by blast
  then have range: "fungespace_in_range f p" using ok(2) by (simp add: bounds_ok_def)
  note cnt = used_in_counts [OF ok(1,3) p]
  have used: "get_count_col f x \<noteq> 0 \<Longrightarrow> used_col f x \<noteq> {}"
    "get_count_row f y \<noteq> 0 \<Longrightarrow> used_row f y \<noteq> {}" for x y
    using ok(1) by (auto simp: counts_ok_def)
  have "get_count_col f (snd (minimised_x f)) \<noteq> 0 \<and> get_count_col f (fst (minimised_x f)) \<noteq> 0"
    using scan_axis(2) [OF b(1) refl refl, of "get_count_col f"] cnt(1) range assms(4)
    by (auto simp: minimised_x_def Let_def in_range_alt BOUNDS_TOO_LARGE_x_def)
  moreover have "get_count_row f (snd (minimised_y f)) \<noteq> 0 \<and> get_count_row f (fst (minimised_y f)) \<noteq> 0"
    using scan_axis(2) [OF b(2) refl refl, of "get_count_row f"] cnt(2) range assms(5)
    by (auto simp: minimised_y_def Let_def in_range_alt BOUNDS_TOO_LARGE_y_def)
  ultimately show ?thesis
    using assms(2) used by (simp add: minimize_bounds_cases)
qed

lemma bounds_rect_contains:
  assumes "fspace_ok f" "fungespace_get_bounds_rect f = (rect, f')"
  shows "fungespace_get f' = fungespace_get f" "fspace_ok f'"
    and "p \<in> used_cells f \<Longrightarrow>
      rect_x rect \<le>s vec_x p \<and> vec_x p \<le>s rect_x rect + rect_w rect \<and>
      rect_y rect \<le>s vec_y p \<and> vec_y p \<le>s rect_y rect + rect_h rect"
proof -
  have f': "f' = fungespace_minimize_bounds f"
    and rect: "rect_x rect = vec_x (topLeftCorner f')" "rect_y rect = vec_y (topLeftCorner f')"
    "vec_x (topLeftCorner f') + rect_w rect = vec_x (bottomRightCorner f')"
    "vec_y (topLeftCorner f') + rect_h rect = vec_y (bottomRightCorner f')"
    using assms(2) by (auto simp: fungespace_get_bounds_rect_def Let_def)
  then show "fungespace_get f' = fungespace_get f" "fspace_ok f'"
    using assms(1) fspace_ok_minimize by simp_all
  show "rect_x rect \<le>s vec_x p \<and> vec_x p \<le>s rect_x rect + rect_w rect \<and>
      rect_y rect \<le>s vec_y p \<and> vec_y p \<le>s rect_y rect + rect_h rect" if "p \<in> used_cells f"
  proof -
    have "fungespace_in_range f' p"
      using \<open>fspace_ok f'\<close> that f' by (simp add: fspace_ok_def bounds_ok_def)
    then show ?thesis unfolding rect by (simp add: in_range_alt)
  qed
qed

text \<open>
  C17: the bounding rectangle is right. Asking for it changes no cell and keeps the invariant of
  funge-space, and every cell in use lies within the rectangle that is reported, whichever of the
  two minimising algorithms ran; when the bounds were marked inexact, some cell is in use and the
  box is small enough for the inward scans, the rectangle is tight: a cell is in use on each of
  its four edges.
\<close>

theorem fungespace_get_bounds_rect_correct:
  assumes "fspace_ok f" and "fungespace_get_bounds_rect f = (rect, f')"
  shows "fungespace_get f' = fungespace_get f \<and> fspace_ok f' \<and>
         (p \<in> used_cells f \<longrightarrow>
            rect_x rect \<le>s vec_x p \<and> vec_x p \<le>s rect_x rect + rect_w rect \<and>
            rect_y rect \<le>s vec_y p \<and> vec_y p \<le>s rect_y rect + rect_h rect) \<and>
         (\<not> boundsexact f \<and> used_cells f \<noteq> {} \<and> \<not> BOUNDS_TOO_LARGE_x f \<and> \<not> BOUNDS_TOO_LARGE_y f \<longrightarrow>
            used_col f (rect_x rect) \<noteq> {} \<and> used_col f (rect_x rect + rect_w rect) \<noteq> {} \<and>
            used_row f (rect_y rect) \<noteq> {} \<and> used_row f (rect_y rect + rect_h rect) \<noteq> {})"
proof -
  have f': "f' = fungespace_minimize_bounds f"
    and rect: "rect_x rect = vec_x (topLeftCorner f')" "rect_y rect = vec_y (topLeftCorner f')"
    "vec_x (topLeftCorner f') + rect_w rect = vec_x (bottomRightCorner f')"
    "vec_y (topLeftCorner f') + rect_h rect = vec_y (bottomRightCorner f')"
    using assms(2) by (auto simp: fungespace_get_bounds_rect_def Let_def)
  show ?thesis
    using bounds_rect_contains [OF assms] minimize_exact [OF assms(1)] unfolding rect by (simp add: f')
qed

theorem fungespace_get_bounds_rect_witness:
  "let f = fungespace_set space_cell (vector 0 0) (fungespace_set 7 (vector 3 4)
             (fungespace_set 9 (vector 0 0) fungespace_create)) in
   \<exists>rect f'. fungespace_get_bounds_rect f = (rect, f') \<and> fspace_ok f' \<and>
     rect_x rect \<le>s 3 \<and> 3 \<le>s rect_x rect + rect_w rect"
proof -
  let ?f1 = "fungespace_set 9 (vector 0 0) fungespace_create"
  let ?f2 = "fungespace_set 7 (vector 3 4) ?f1"
  let ?f = "fungespace_set space_cell (vector 0 0) ?f2"
  obtain rect f' where run: "fungespace_get_bounds_rect ?f = (rect, f')" by (cases "fungespace_get_bounds_rect ?f")
  have store: "store_ok ?f1" "store_ok ?f2" by (simp_all add: store_ok_set store_ok_create)
  have used: "used_cells ?f1 \<subseteq> {vector 0 0, vector 3 4}" "used_cells ?f2 \<subseteq> {vector 0 0, vector 3 4}"
    "used_cells ?f \<subseteq> {vector 0 0, vector 3 4}" "vector 3 4 \<in> used_cells ?f"
    by (auto simp: used_cells_def get_fungespace_set store store_ok_create get_create split: if_splits)
  have small: "card {vector 0 0, vector 3 4} < 2 ^ 64"
    by (simp add: card_insert_if)
  have "bounds_ok ?f1 \<and> bounds_ok ?f2 \<and> bounds_ok ?f \<and> counts_ok ?f1 \<and> counts_ok ?f2 \<and> counts_ok ?f"
    using fspace_ok_create capacity_ok_small [OF used(1) _ small] capacity_ok_small [OF used(2) _ small] store
    by (simp add: fspace_ok_def bounds_ok_set) (simp add: fungespace_set_def counts_ok_set_no_bounds Let_def)
  then have "fspace_ok ?f"
    using capacity_ok_small [OF used(3) _ small] store by (simp add: fspace_ok_def store_ok_set)
  from fungespace_get_bounds_rect_correct [OF this run, of "vector 3 4"] used(4) run show ?thesis
    by (auto simp: Let_def)
qed

section \<open>Wrapping comes back to the opposite edge\<close>

lemma cardinal_cases:
  "fspace_vector_is_cardinal d \<longleftrightarrow>
     d = vector 1 0 \<or> d = vector (- 1) 0 \<or> d = vector 0 1 \<or> d = vector 0 (- 1)"
proof -
  have "fspace_vector_is_cardinal d = vector_is_cardinal d"
    by (simp add: fspace_vector_is_cardinal_def vector_is_cardinal_def)
  then show ?thesis by (simp add: vector_is_cardinal_cases)
qed

text \<open>The bounds that a wrap goes by: those of the store, minimised first if they are inexact and the box is too large.\<close>

definition bounds_for_wrap :: "fungeSpace \<Rightarrow> fungeSpace" where
  "bounds_for_wrap f =
     (if \<not> boundsexact f \<and> (BOUNDS_TOO_LARGE_x f \<or> BOUNDS_TOO_LARGE_y f) then fungespace_minimize_bounds f else f)"

lemma bounds_for_wrap_ok: "fspace_ok f \<Longrightarrow> fspace_ok (bounds_for_wrap f)"
  by (simp add: bounds_for_wrap_def fspace_ok_minimize)

text \<open>The box does not touch the limits of a cell, so that one step beyond an edge does not wrap around.\<close>

definition inside_limits :: "fungeSpace \<Rightarrow> bool" where
  "inside_limits f \<longleftrightarrow>
     FUNGECELL_MIN <s vec_x (topLeftCorner f) \<and> FUNGECELL_MIN <s vec_y (topLeftCorner f) \<and>
     vec_x (bottomRightCorner f) <s FUNGECELL_MAX \<and> vec_y (bottomRightCorner f) <s FUNGECELL_MAX"

text \<open>The place after \<open>p\<close> in a cardinal direction: the next one in the box, or the one at the opposite edge of the same row or column.\<close>

definition next_place :: "fungeSpace \<Rightarrow> funge_vector \<Rightarrow> funge_vector \<Rightarrow> funge_vector" where
  "next_place f delta p =
     (if fungespace_in_range f (vector_add p delta) then vector_add p delta
      else if delta = vector 1 0 then vector (vec_x (topLeftCorner f)) (vec_y p)
      else if delta = vector (- 1) 0 then vector (vec_x (bottomRightCorner f)) (vec_y p)
      else if delta = vector 0 1 then vector (vec_x p) (vec_y (topLeftCorner f))
      else vector (vec_x p) (vec_y (bottomRightCorner f)))"

lemma wrap_cardinal:
  assumes "fspace_ok f" and g: "g = bounds_for_wrap f"
    and "fspace_vector_is_cardinal delta" "fungespace_in_range g p" "inside_limits g"
    and run: "fungespace_wrap (vector_add p delta) delta f = (q, f')"
  shows "f' = g" "fungespace_in_range g (next_place g delta p)"
    and "if fungespace_in_range g (vector_add p delta) then q = vector_add p delta
      else \<not> fungespace_in_range g q \<and> vector_add q delta = next_place g delta p"
proof -
  have "fspace_ok g" using assms(1) by (simp add: g bounds_for_wrap_ok)
  then have c: "vec_x (topLeftCorner g) \<le>s vec_x (bottomRightCorner g)"
    "vec_y (topLeftCorner g) \<le>s vec_y (bottomRightCorner g)"
    by (auto simp: fspace_ok_def bounds_ok_def)
  have p: "vec_x (topLeftCorner g) \<le>s vec_x p" "vec_x p \<le>s vec_x (bottomRightCorner g)"
    "vec_y (topLeftCorner g) \<le>s vec_y p" "vec_y p \<le>s vec_y (bottomRightCorner g)"
    using assms(4) by (auto simp: in_range_alt)
  have limits: "FUNGECELL_MIN <s vec_x (topLeftCorner g)" "FUNGECELL_MIN <s vec_y (topLeftCorner g)"
    "vec_x (bottomRightCorner g) <s FUNGECELL_MAX" "vec_y (bottomRightCorner g) <s FUNGECELL_MAX"
    using assms(5) by (simp_all add: inside_limits_def)
  have step: "sint (vec_x p + 1) = sint (vec_x p) + 1" "sint (vec_y p + 1) = sint (vec_y p) + 1"
    "sint (vec_x p - 1) = sint (vec_x p) - 1" "sint (vec_y p - 1) = sint (vec_y p) - 1"
    using limits p by (auto simp: cell_order sint_add_cell sint_diff_cell)
  have edge: "sint (vec_x (topLeftCorner g) - 1) = sint (vec_x (topLeftCorner g)) - 1"
    "sint (vec_y (topLeftCorner g) - 1) = sint (vec_y (topLeftCorner g)) - 1"
    "sint (vec_x (bottomRightCorner g) + 1) = sint (vec_x (bottomRightCorner g)) + 1"
    "sint (vec_y (bottomRightCorner g) + 1) = sint (vec_y (bottomRightCorner g)) + 1"
    using limits c by (auto simp: cell_order sint_add_cell sint_diff_cell)
  have wrapped: "fungespace_wrap (vector_add p delta) delta f =
      (if fungespace_in_range g (vector_add p delta) then (vector_add p delta, g)
       else (vector
         (if vec_x (vector_add p delta) <s vec_x (topLeftCorner g) then vec_x (bottomRightCorner g) + 1
          else if vec_x (bottomRightCorner g) <s vec_x (vector_add p delta) then vec_x (topLeftCorner g) - 1
          else vec_x (vector_add p delta))
         (if vec_y (vector_add p delta) <s vec_y (topLeftCorner g) then vec_y (bottomRightCorner g) + 1
          else if vec_y (bottomRightCorner g) <s vec_y (vector_add p delta) then vec_y (topLeftCorner g) - 1
          else vec_y (vector_add p delta)), g))"
    using assms(3) by (simp add: fungespace_wrap_def Let_def g bounds_for_wrap_def)
  show "f' = g" using run unfolding wrapped by (auto split: if_splits)
  show "fungespace_in_range g (next_place g delta p)"
    using p c by (auto simp: next_place_def in_range_alt cell_order)
  show "if fungespace_in_range g (vector_add p delta) then q = vector_add p delta
      else \<not> fungespace_in_range g q \<and> vector_add q delta = next_place g delta p"
  proof (cases "fungespace_in_range g (vector_add p delta)")
    case True
    then show ?thesis using run unfolding wrapped by simp
  next
    case False
    have q: "q = vector
        (if vec_x (vector_add p delta) <s vec_x (topLeftCorner g) then vec_x (bottomRightCorner g) + 1
         else if vec_x (bottomRightCorner g) <s vec_x (vector_add p delta)
         then vec_x (topLeftCorner g) - 1 else vec_x (vector_add p delta))
        (if vec_y (vector_add p delta) <s vec_y (topLeftCorner g) then vec_y (bottomRightCorner g) + 1
         else if vec_y (bottomRightCorner g) <s vec_y (vector_add p delta)
         then vec_y (topLeftCorner g) - 1 else vec_y (vector_add p delta))"
      using run [unfolded wrapped if_not_P [OF False] prod.inject] by (rule sym [OF conjunct1])
    show ?thesis
      using assms(3) False p c step edge unfolding cardinal_cases
      by (elim disjE) (auto simp: q vector_add_def in_range_alt cell_order vector_eq_iff next_place_def)
  qed
qed


lemma sample_space_ok: "fspace_ok (fungespace_set 7 (vector 3 4) fungespace_create)"
proof -
  have "used_cells (fungespace_set 7 (vector 3 4) fungespace_create) \<subseteq> {vector 3 4}"
    by (auto simp: used_cells_def get_fungespace_set store_ok_create get_create)
  then have "capacity_ok (fungespace_set 7 (vector 3 4) fungespace_create)"
    by (rule capacity_ok_small) simp_all
  moreover have "counts_ok (fungespace_set 7 (vector 3 4) fungespace_create)"
    by (simp add: fungespace_set_def Let_def counts_ok_set_no_bounds store_ok_create
        counts_ok_create fspace_ok_create [unfolded fspace_ok_def])
  ultimately show ?thesis
    using fspace_ok_create by (simp add: fspace_ok_def store_ok_set bounds_ok_set)
qed

lemma sample_space_corners:
  "topLeftCorner (fungespace_set 7 (vector 3 4) fungespace_create) = vector 0 0"
  "bottomRightCorner (fungespace_set 7 (vector 3 4) fungespace_create) = vector 3 4"
  by (simp_all add: fungespace_set_def Let_def fungespace_extend_def)
    (simp_all add: fungespace_create_def cell_order)


section \<open>Wrapping along any line\<close>

text \<open>The quotient of \<open>wrap_frac\<close> over the integers; it is at least the exact quotient.\<close>

definition frac_int :: "int \<Rightarrow> int \<Rightarrow> int" where
  "frac_int n d = (if n smod d = 0 then n sdiv d else (n + d) sdiv d)"

lemma div_le_sdiv: "0 < d \<Longrightarrow> n div d \<le> n sdiv (d :: int)"
proof (cases "0 \<le> n")
  case False
  assume d: "0 < d"
  have "n sdiv d = - ((- n) div d)" using False d by (simp add: signed_divide_int_def sgn_if)
  moreover have "n div d \<le> - ((- n) div d)"
    using d by (simp add: div_minus_minus zdiv_zminus1_eq_if)
  ultimately show ?thesis by simp
qed (simp add: signed_divide_int_def sgn_if)

lemma frac_int_bound:
  assumes "0 < d" "k * d \<le> n"
  shows "k \<le> frac_int n d"
proof -
  have "k * d div d \<le> n div d" using assms(2,1) by (rule zdiv_mono1)
  then have "k \<le> n div d" using assms(1) by simp
  moreover have "n div d \<le> n sdiv d" "(n + d) div d \<le> (n + d) sdiv d"
    using assms(1) by (simp_all add: div_le_sdiv)
  moreover have "(n + d) div d = n div d + 1" using div_add_self2 [of d n] assms(1) by simp
  ultimately show ?thesis by (simp add: frac_int_def)
qed

lemma frac_int_minus: "frac_int (- n) (- d) = frac_int n d"
proof -
  have "- n - d = - (n + d)" by simp
  then show ?thesis
    by (simp add: frac_int_def signed_divide_int_def signed_modulo_int_def sgn_if add.commute)
qed

text \<open>Coordinates far enough from the limits of a cell for the arithmetic not to wrap.\<close>

definition moderate :: "cell \<Rightarrow> bool" where
  "moderate c \<longleftrightarrow> \<bar>sint c\<bar> < 2 ^ 61"

definition moderate_vector :: "funge_vector \<Rightarrow> bool" where
  "moderate_vector v \<longleftrightarrow> moderate (vec_x v) \<and> moderate (vec_y v)"

lemma sint_wrap_frac:
  assumes "\<bar>sint n\<bar> < 2 ^ 62" "moderate d" "d \<noteq> 0"
  shows "sint (wrap_frac n d) = frac_int (sint n) (sint d)"
proof -
  have add: "sint (n + d) = sint n + sint d"
    using assms(1,2) unfolding moderate_def by (intro sint_add_cell) auto
  have "n \<noteq> FUNGECELL_MIN" "n + d \<noteq> FUNGECELL_MIN"
    using assms(1,2) add unfolding eq_FUNGECELL_MIN moderate_def by auto
  then have "sint (c_div n d) = sint n sdiv sint d" "sint (c_div (n + d) d) = (sint n + sint d) sdiv sint d"
    using sint_c_div [of n d] sint_c_div [of "n + d" d] add by auto
  moreover have "c_mod n d = 0 \<longleftrightarrow> sint n smod sint d = 0"
    by (simp add: cell_eq_iff [of "c_mod n d"] sint_c_mod)
  ultimately show ?thesis by (simp add: wrap_frac_def frac_int_def)
qed

lemma wrap_frac_dir_bound:
  assumes "moderate a" "moderate r" "moderate s" "moderate d" "d \<noteq> 0"
    and "sint r \<le> sint a - k * sint d" "sint a - k * sint d \<le> sint s"
  shows "k \<le> sint (wrap_frac_dir a r s d)"
proof -
  have diff: "sint (a - r) = sint a - sint r" "sint (a - s) = sint a - sint s"
    using assms(1-3) unfolding moderate_def by (auto intro: sint_diff_cell)
  then have n: "\<bar>sint (a - r)\<bar> < 2 ^ 62" "\<bar>sint (a - s)\<bar> < 2 ^ 62"
    using assms(1-3) by (auto simp: moderate_def)
  show ?thesis
  proof (cases "0 <s d")
    case True
    then have "k \<le> frac_int (sint a - sint r) (sint d)"
      using assms(6) by (intro frac_int_bound) (auto simp: cell_less_iff)
    with True show ?thesis
      using sint_wrap_frac [OF n(1) assms(4,5)] diff by (simp add: wrap_frac_dir_def)
  next
    case False
    then have "sint d < 0" using assms(5) by (auto simp: cell_less_iff cell_eq_iff)
    then have "k \<le> frac_int (- (sint a - sint s)) (- sint d)"
      using assms(7) by (intro frac_int_bound) auto
    with False show ?thesis
      using sint_wrap_frac [OF n(2) assms(4,5)] diff
      by (simp add: wrap_frac_dir_def frac_int_minus del: minus_diff_eq)
  qed
qed

text \<open>
  C19: wrapping along an oblique line loses no cell. An instruction pointer outside the bounds with
  a delta that is not cardinal is moved back along its own line, by a number \<open>m\<close> of whole steps,
  and far enough: every position of the line that lies within the bounds and is \<open>k\<close> steps back
  has \<open>k \<le> m\<close>, so that the walk forward from the new position meets all of them. (Coordinates
  below \<open>2 ^ 61\<close> in magnitude, where the subtraction and the addition of the code do not wrap.)
\<close>

theorem fungespace_wrap_line:
  assumes "fungespace_wrap pos delta f = (pos', f')" and "\<not> fungespace_in_range f' pos"
    and "\<not> fspace_vector_is_cardinal delta" and "delta \<noteq> vector 0 0"
    and "moderate_vector pos" "moderate_vector delta"
    and "moderate_vector (topLeftCorner f')" "moderate_vector (bottomRightCorner f')"
  shows "\<exists>m. pos' = vector (vec_x pos - m * vec_x delta) (vec_y pos - m * vec_y delta) \<and>
             (\<forall>k q. fungespace_in_range f' q \<and>
                sint (vec_x q) = sint (vec_x pos) - k * sint (vec_x delta) \<and>
                sint (vec_y q) = sint (vec_y pos) - k * sint (vec_y delta) \<longrightarrow> k \<le> sint m)"
proof -
  have pos': "pos' = vector (vec_x pos - wrap_steps f' pos delta * vec_x delta)
      (vec_y pos - wrap_steps f' pos delta * vec_y delta)"
    using assms(1-4)
    by (auto simp: fungespace_wrap_def Let_def wrap_def vector_eq_iff split: if_splits)
  let ?fx = "wrap_frac_dir (vec_x pos) (vec_x (topLeftCorner f')) (vec_x (bottomRightCorner f')) (vec_x delta)"
  let ?fy = "wrap_frac_dir (vec_y pos) (vec_y (topLeftCorner f')) (vec_y (bottomRightCorner f')) (vec_y delta)"
  have "k \<le> sint (wrap_steps f' pos delta)"
    if q: "fungespace_in_range f' q"
      "sint (vec_x q) = sint (vec_x pos) - k * sint (vec_x delta)"
      "sint (vec_y q) = sint (vec_y pos) - k * sint (vec_y delta)" for k q
  proof -
    have "vec_x delta \<noteq> 0 \<Longrightarrow> k \<le> sint ?fx" "vec_y delta \<noteq> 0 \<Longrightarrow> k \<le> sint ?fy"
      using assms(5-8) q
      by (auto simp: moderate_vector_def in_range_alt cell_le_iff intro!: wrap_frac_dir_bound)
    then show ?thesis
      using assms(4) by (auto simp: wrap_steps_def Let_def vector_eq_iff)
  qed
  with pos' show ?thesis by blast
qed

theorem fungespace_wrap_line_witness:
  "let f = fungespace_set 7 (vector 3 4) fungespace_create;
       pos' = fst (fungespace_wrap (vector 4 2) (vector 2 1) f) in
   \<exists>m. pos' = vector (4 - m * 2) (2 - m * 1) \<and> 2 \<le> sint m"
proof -
  let ?f = "fungespace_set 7 (vector 3 4) fungespace_create"
  have small: "\<not> BOUNDS_TOO_LARGE_x ?f" "\<not> BOUNDS_TOO_LARGE_y ?f"
    by (simp_all add: BOUNDS_TOO_LARGE_x_def BOUNDS_TOO_LARGE_y_def sample_space_corners
        SIMPLEBOUNDS_MAX_def cell_order)
  obtain pos' f' where run: "fungespace_wrap (vector 4 2) (vector 2 1) ?f = (pos', f')"
    by (cases "fungespace_wrap (vector 4 2) (vector 2 1) ?f")
  then have f': "f' = ?f"
    using small by (auto simp: fungespace_wrap_def Let_def split: if_splits)
  have out: "\<not> fungespace_in_range f' (vector 4 2)" and inside: "fungespace_in_range f' (vector 0 0)"
    by (simp_all add: f' in_range_alt sample_space_corners cell_order)
  have line: "\<exists>m. pos' = vector (4 - m * 2) (2 - m * 1) \<and>
      (\<forall>k q. fungespace_in_range f' q \<and> sint (vec_x q) = 4 - k * 2 \<and> sint (vec_y q) = 2 - k * 1 \<longrightarrow>
         k \<le> sint m)"
    using fungespace_wrap_line [OF run out]
    by (simp add: f' sample_space_corners cardinal_cases moderate_vector_def moderate_def)
  then obtain m where m: "pos' = vector (4 - m * 2) (2 - m * 1)" "2 \<le> sint m"
    using inside by (auto dest!: spec [of _ 2] spec [of _ "vector 0 0"])
  show ?thesis unfolding Let_def run fst_conv using m by blast
qed

end
