(* ===== verification/Fspace_Load.thy ===== *)
theory Fspace_Load
  imports Fspace_Bounds
begin

text \<open>
  Loading and saving funge-space, \<^verbatim>\<open>src/funge-space/funge-space.c\<close>: the initial load of a
  program, the \<open>i\<close> and \<open>o\<close> instructions' files. The operating system is a parameter: what a file
  holds (\<open>None\<close> when it cannot be opened, read or mapped), and which calls on the output file
  succeed. \<open>mmap\<close> shows exactly the bytes of the file.
\<close>

section \<open>The initial load\<close>

record load_state =
  ld_pos :: funge_vector
  ld_last_was_cr :: bool
  ld_space :: fungeSpace

definition FUNGE_INITIAL_NEWLINE :: "load_state \<Rightarrow> load_state" where
  "FUNGE_INITIAL_NEWLINE s = s\<lparr>ld_pos := vector 0 (vec_y (ld_pos s) + 1)\<rparr>"

definition ld_advance :: "load_state \<Rightarrow> load_state" where
  "ld_advance s = s\<lparr>ld_pos := vector (vec_x (ld_pos s) + 1) (vec_y (ld_pos s))\<rparr>"

definition ld_end_cr :: "load_state \<Rightarrow> load_state" where
  "ld_end_cr s = (if ld_last_was_cr s then FUNGE_INITIAL_NEWLINE (s\<lparr>ld_last_was_cr := False\<rparr>) else s)"

definition load_string_step :: "byte \<Rightarrow> load_state \<Rightarrow> load_state" where
  "load_string_step c s =
     (if c = 32 then ld_advance (ld_end_cr s)
      else if c = 13 then
        (if ld_last_was_cr s then FUNGE_INITIAL_NEWLINE s else s)\<lparr>ld_last_was_cr := True\<rparr>
      else if c = 10 then FUNGE_INITIAL_NEWLINE (s\<lparr>ld_last_was_cr := False\<rparr>)
      else if c = 12 then s
      else
        (let s = ld_end_cr s
         in ld_advance (s\<lparr>ld_space := fungespace_set_initial (ucast c) (ld_pos s) (ld_space s)\<rparr>)))"

definition fungespace_load_string :: "byte list \<Rightarrow> fungeSpace \<Rightarrow> fungeSpace" where
  "fungespace_load_string program fspace =
     ld_space (fold load_string_step program
       \<lparr>ld_pos = vector 0 0, ld_last_was_cr = False, ld_space = fspace\<rparr>)"

text \<open>\<open>do_mmap\<close>: \<open>-1\<close> when the file cannot be had, \<open>-2\<close> when it is empty.\<close>

datatype mapping_result = MapFailed | MapEmpty | Mapped "byte list"

definition do_mmap :: "byte list option \<Rightarrow> mapping_result" where
  "do_mmap file = (case file of None \<Rightarrow> MapFailed | Some b \<Rightarrow> if length b = 0 then MapEmpty else Mapped b)"

definition fungespace_load :: "byte list option \<Rightarrow> fungeSpace \<Rightarrow> bool \<times> fungeSpace" where
  "fungespace_load file fspace =
     (case do_mmap file of
        MapFailed \<Rightarrow> (False, fspace)
      | MapEmpty \<Rightarrow> (True, fspace)
      | Mapped addr \<Rightarrow> (True, fungespace_load_string addr fspace))"

section \<open>Loading at an offset\<close>

record offset_load_state =
  ol_pos :: funge_vector
  ol_size :: funge_vector
  ol_lastwascr :: bool
  ol_space :: fungeSpace

definition FUNGE_OFFSET_NEWLINE :: "offset_load_state \<Rightarrow> offset_load_state" where
  "FUNGE_OFFSET_NEWLINE s =
     s\<lparr>ol_size := (if vec_x (ol_size s) <s vec_x (ol_pos s)
                   then (ol_size s)\<lparr>vec_x := vec_x (ol_pos s)\<rparr> else ol_size s),
       ol_pos := vector 0 (vec_y (ol_pos s) + 1)\<rparr>"

definition offset_load_text_step :: "funge_vector \<Rightarrow> byte \<Rightarrow> offset_load_state \<Rightarrow> offset_load_state" where
  "offset_load_text_step offset c s =
     (if c = 12 then s
      else if c = 13 then
        (if ol_lastwascr s then FUNGE_OFFSET_NEWLINE s else s)\<lparr>ol_lastwascr := True\<rparr>
      else if c = 10 then (FUNGE_OFFSET_NEWLINE s)\<lparr>ol_lastwascr := False\<rparr>
      else
        (let s = (if ol_lastwascr s then FUNGE_OFFSET_NEWLINE (s\<lparr>ol_lastwascr := False\<rparr>) else s);
             s = (if c \<noteq> 32
                  then s\<lparr>ol_space := fungespace_set_offset (ucast c) (ol_pos s) offset (ol_space s)\<rparr>
                  else s)
         in s\<lparr>ol_pos := vector (vec_x (ol_pos s) + 1) (vec_y (ol_pos s))\<rparr>))"

definition offset_load_binary_step :: "byte \<Rightarrow> offset_load_state \<Rightarrow> offset_load_state" where
  "offset_load_binary_step c s =
     (let s = (if c \<noteq> 32 then s\<lparr>ol_space := fungespace_set (ucast c) (ol_pos s) (ol_space s)\<rparr> else s)
      in s\<lparr>ol_pos := vector (vec_x (ol_pos s) + 1) (vec_y (ol_pos s))\<rparr>)"

text \<open>\<open>size\<close> is written unless the file cannot be mapped.\<close>

definition fungespace_load_at_offset ::
    "byte list option \<Rightarrow> funge_vector \<Rightarrow> bool \<Rightarrow> funge_vector \<Rightarrow> fungeSpace \<Rightarrow>
       bool \<times> funge_vector \<times> fungeSpace" where
  "fungespace_load_at_offset file offset binary size0 fspace =
     (case do_mmap file of
        MapFailed \<Rightarrow> (False, size0, fspace)
      | MapEmpty \<Rightarrow> (True, vector 0 0, fspace)
      | Mapped addr \<Rightarrow>
        (let s0 = \<lparr>ol_pos = vector 0 0, ol_size = vector 0 0, ol_lastwascr = False, ol_space = fspace\<rparr>;
             s = (if binary
                  then fold offset_load_binary_step addr
                         (s0\<lparr>ol_pos := vector (vec_x offset) (vec_y offset)\<rparr>)
                  else
                    (let s = fold (offset_load_text_step offset) addr s0
                     in if ol_lastwascr s
                        then s\<lparr>ol_pos := vector (vec_x (ol_pos s)) (vec_y (ol_pos s) + 1)\<rparr> else s));
             sz = ol_size s;
             sz = (if vec_x sz <s vec_x (ol_pos s) then sz\<lparr>vec_x := vec_x (ol_pos s)\<rparr> else sz);
             sz = (if vec_y sz <s vec_y (ol_pos s) then sz\<lparr>vec_y := vec_y (ol_pos s)\<rparr> else sz)
         in (True, sz, ol_space s)))"

section \<open>Saving\<close>

text \<open>What the operating system answers while a file is written.\<close>

record save_env =
  se_open :: bool
  se_fallocate :: bool
  se_alloc :: allocator
  se_write :: bool

text \<open>The values of a loop variable that counts up from \<open>lo\<close> while it is less than \<open>hi\<close>.\<close>

function count_up :: "cell \<Rightarrow> cell \<Rightarrow> cell list" where
  "count_up lo hi = (if lo <s hi then lo # count_up (lo + 1) hi else [])"
  by pat_completeness auto
termination
  by (relation "measure (\<lambda>(lo, hi). nat (sint hi - sint lo))") (auto simp: sint_succ_cell cell_less_iff)

declare count_up.simps [simp del]

definition strip_trailing :: "'a \<Rightarrow> 'a list \<Rightarrow> 'a list" where
  "strip_trailing c xs = rev (dropWhile (\<lambda>x. x = c) (rev xs))"

definition save_row :: "fungeSpace \<Rightarrow> cell \<Rightarrow> cell \<Rightarrow> cell \<Rightarrow> cell list" where
  "save_row fspace minx maxx y = map (\<lambda>x. fungespace_get fspace (vector x y)) (count_up minx maxx)"

text \<open>The text that is written, before its trailing newlines go.\<close>

definition save_text :: "fungeSpace \<Rightarrow> cell \<Rightarrow> cell \<Rightarrow> cell list \<Rightarrow> byte list" where
  "save_text fspace minx maxx ys =
     concat (map (\<lambda>y. map ucast (strip_trailing space_cell (save_row fspace minx maxx y)) @ [10]) ys)"

text \<open>The result is what the function returns and the file's content, \<open>None\<close> if it was not opened.\<close>

definition fungespace_save_to_file ::
    "save_env \<Rightarrow> funge_vector \<Rightarrow> funge_vector \<Rightarrow> bool \<Rightarrow> fungeSpace \<Rightarrow> bool \<times> byte list option" where
  "fungespace_save_to_file env offset sz textfile fspace =
     (let maxy = vec_y offset + vec_y sz; maxx = vec_x offset + vec_x sz;
          minx = vec_x offset; ys = count_up (vec_y offset) maxy
      in if \<not> se_open env then (False, None)
         else if \<not> textfile then
           (if \<not> se_fallocate env then (False, Some [])
            else (True, Some (concat (map (\<lambda>y. map ucast (save_row fspace minx maxx y) @ [10]) ys))))
         else if \<not> se_alloc env (unat (vec_x sz * vec_y sz + vec_y sz)) then (False, Some [])
         else if ys \<noteq> [] \<and> \<not> se_alloc env (unat (vec_x sz * 8)) then (False, Some [])
         else
           (let towrite = strip_trailing 10 (save_text fspace minx maxx ys);
                lastnewline = int (length towrite) - 1
            in if 0 < lastnewline then
                 (if se_write env then (True, Some towrite) else (False, Some []))
               else (True, Some [])))"

section \<open>The layout of a program text\<close>

text \<open>
  What a text means: form feeds are dropped, CR LF and CR are line ends like LF, and the byte
  in column \<open>x\<close> of line \<open>y\<close> goes to the position \<open>(x, y)\<close>.
\<close>

fun unix_newlines :: "byte list \<Rightarrow> byte list" where
  "unix_newlines [] = []"
| "unix_newlines [c] = [if c = 13 then 10 else c]"
| "unix_newlines (c # d # cs) =
     (if c = 13 \<and> d = 10 then 10 # unix_newlines cs
      else if c = 13 then 10 # unix_newlines (d # cs)
      else c # unix_newlines (d # cs))"

fun text_lines :: "byte list \<Rightarrow> byte list list" where
  "text_lines [] = [[]]"
| "text_lines (c # cs) =
     (if c = 10 then [] # text_lines cs else (c # hd (text_lines cs)) # tl (text_lines cs))"

definition program_lines :: "byte list \<Rightarrow> byte list list" where
  "program_lines program = text_lines (unix_newlines (filter (\<lambda>c. c \<noteq> 12) program))"

text \<open>The byte at column \<open>x\<close> of line \<open>y\<close>, by recursion over the text.\<close>

fun text_cell :: "byte list \<Rightarrow> nat \<Rightarrow> nat \<Rightarrow> byte option" where
  "text_cell [] x y = None"
| "text_cell (c # cs) x y =
     (if c = 10 then (if y = 0 then None else text_cell cs x (y - 1))
      else if y = 0 then (if x = 0 then Some c else text_cell cs (x - 1) 0)
      else text_cell cs x y)"

lemma text_lines_nonempty [simp]: "text_lines cs \<noteq> []"
  by (cases cs) simp_all

lemma text_cell_lines:
  "text_cell cs x y =
     (if y < length (text_lines cs) \<and> x < length (text_lines cs ! y) then Some (text_lines cs ! y ! x)
      else None)"
proof (induction cs x y rule: text_cell.induct)
  case (2 c cs x y)
  obtain l ls where ls: "text_lines cs = l # ls" by (cases "text_lines cs") simp_all
  show ?case
  proof (cases "c = 10")
    case True
    then show ?thesis using 2(1) by (cases y) simp_all
  next
    case False
    then show ?thesis using 2(2,3) ls by (cases y; cases x) simp_all
  qed
qed (auto simp: less_Suc0)

lemma length_unix_newlines: "length (unix_newlines cs) \<le> length cs"
  by (induction cs rule: unix_newlines.induct) auto

text \<open>Placing a text whose line ends are LF.\<close>

definition place_step :: "(byte \<Rightarrow> funge_vector \<Rightarrow> fungeSpace \<Rightarrow> fungeSpace) \<Rightarrow> byte \<Rightarrow>
    funge_vector \<times> fungeSpace \<Rightarrow> funge_vector \<times> fungeSpace" where
  "place_step put c = (\<lambda>(pos, f).
     if c = 10 then (vector 0 (vec_y pos + 1), f)
     else (vector (vec_x pos + 1) (vec_y pos), if c = 32 then f else put c pos f))"

definition put_initial :: "byte \<Rightarrow> funge_vector \<Rightarrow> fungeSpace \<Rightarrow> fungeSpace" where
  "put_initial c = fungespace_set_initial (ucast c)"

lemma unix_newlines_Cons:
  "c \<noteq> 13 \<Longrightarrow> unix_newlines (c # cs) = c # unix_newlines cs"
  by (cases cs) simp_all

lemma unix_newlines_cr:
  "unix_newlines (13 # 10 # cs) = 10 # unix_newlines cs"
  "d \<noteq> 10 \<Longrightarrow> unix_newlines (13 # d # cs) = 10 # unix_newlines (d # cs)"
  by simp_all

lemma load_string_place:
  "ld_space (fold load_string_step s \<lparr>ld_pos = pos, ld_last_was_cr = cr, ld_space = f\<rparr>) =
     snd (fold (place_step put_initial)
       (unix_newlines (if cr then 13 # filter (\<lambda>c. c \<noteq> 12) s else filter (\<lambda>c. c \<noteq> 12) s)) (pos, f))"
proof (induction s arbitrary: pos cr f)
  case Nil
  then show ?case by (simp add: place_step_def)
next
  case (Cons c s)
  consider "c = 12" | "c = 13" | "c = 10" | "c \<noteq> 12" "c \<noteq> 13" "c \<noteq> 10" by blast
  then show ?case
  proof cases
    case 1
    then show ?thesis using Cons.IH by (simp add: load_string_step_def)
  next
    case 2
    then show ?thesis using Cons.IH [where cr = True]
      by (cases cr) (simp_all add: load_string_step_def FUNGE_INITIAL_NEWLINE_def place_step_def
          unix_newlines_cr(2))
  next
    case 3
    then show ?thesis using Cons.IH [where cr = False]
      by (cases cr) (simp_all add: load_string_step_def FUNGE_INITIAL_NEWLINE_def place_step_def
          unix_newlines_Cons)
  next
    case 4
    then show ?thesis using Cons.IH [where cr = False]
      by (cases cr) (auto simp: load_string_step_def FUNGE_INITIAL_NEWLINE_def ld_advance_def
          ld_end_cr_def place_step_def put_initial_def unix_newlines_Cons unix_newlines_cr(2) Let_def)
  qed
qed

text \<open>What a placed text leaves at a position, from column \<open>x0\<close> of line \<open>y0\<close> on.\<close>

definition placed_cell :: "byte list \<Rightarrow> nat \<Rightarrow> nat \<Rightarrow> funge_vector \<Rightarrow> cell \<Rightarrow> cell" where
  "placed_cell cs x0 y0 p old =
     (let x = unat (vec_x p); y = unat (vec_y p);
          c = (if y = y0 \<and> x0 \<le> x then text_cell cs (x - x0) 0
               else if y0 < y then text_cell cs x (y - y0) else None)
      in case c of None \<Rightarrow> old | Some c \<Rightarrow> if c = 32 then old else ucast c)"

lemma unat_of_nat_cell: "n < 2 ^ 64 \<Longrightarrow> unat (of_nat n :: cell) = n"
  by (simp add: unat_of_nat)

lemma place_step_simps:
  "place_step put 10 (vector a b, f) = (vector 0 (b + 1), f)"
  "place_step put 32 (vector a b, f) = (vector (a + 1) b, f)"
  "c \<noteq> 10 \<Longrightarrow> c \<noteq> 32 \<Longrightarrow>
     place_step put c (vector a b, f) = (vector (a + 1) b, put c (vector a b) f)"
  by (simp_all add: place_step_def)

lemma of_nat_Suc_cell: "(of_nat (Suc n) :: cell) = of_nat n + 1"
  by simp

text \<open>
  The two loaders differ in how they store a byte. What they share needs only that storing a byte
  for a text position changes one cell, another one for every text position.
\<close>

locale text_sink =
  fixes put :: "byte \<Rightarrow> funge_vector \<Rightarrow> fungeSpace \<Rightarrow> fungeSpace"
    and place :: "funge_vector \<Rightarrow> funge_vector"
  assumes put_get: "store_ok f \<Longrightarrow> fungespace_get (put c p f) = (fungespace_get f)(place p := ucast c)"
    and put_ok: "store_ok f \<Longrightarrow> store_ok (put c p f)"
    and place_inj: "place p = place q \<longleftrightarrow> p = q"
begin

lemma place_cells:
  assumes "store_ok f" "x0 + length cs < 2 ^ 64" "y0 + length cs < 2 ^ 64"
  shows "store_ok (snd (fold (place_step put) cs (vector (of_nat x0) (of_nat y0), f))) \<and>
         fungespace_get (snd (fold (place_step put) cs (vector (of_nat x0) (of_nat y0), f))) (place p) =
           placed_cell cs x0 y0 p (fungespace_get f (place p))"
  using assms
proof (induction cs arbitrary: x0 y0 f)
  case Nil
  then show ?case by (simp add: placed_cell_def Let_def)
next
  case (Cons c cs)
  consider "c = 10" | "c = 32" | "c \<noteq> 10" "c \<noteq> 32" by blast
  then show ?case
  proof cases
    case 1
    have "placed_cell (c # cs) x0 y0 p old = placed_cell cs 0 (Suc y0) p old" for old
      using 1 by (auto simp: placed_cell_def Let_def Suc_diff_Suc not_less_eq_eq split: option.splits)
    then show ?thesis
      using Cons.IH [of f 0 "Suc y0"] Cons.prems 1
      by (simp add: place_step_simps of_nat_Suc_cell del: of_nat_Suc)
  next
    case 2
    have "placed_cell (c # cs) x0 y0 p old = placed_cell cs (Suc x0) y0 p old" for old
      using 2 by (auto simp: placed_cell_def Let_def not_less_eq_eq split: option.splits)
    then show ?thesis
      using Cons.IH [of f "Suc x0" y0] Cons.prems 2
      by (simp add: place_step_simps of_nat_Suc_cell del: of_nat_Suc)
  next
    case 3
    let ?f = "put c (vector (of_nat x0) (of_nat y0)) f"
    have "p = vector (of_nat x0) (of_nat y0) \<longleftrightarrow> unat (vec_x p) = x0 \<and> unat (vec_y p) = y0"
      using Cons.prems(2,3) by (auto simp: vector_eq_iff unat_of_nat_cell word_unat_eq_iff)
    then have "placed_cell (c # cs) x0 y0 p (fungespace_get f (place p)) =
        placed_cell cs (Suc x0) y0 p (fungespace_get ?f (place p))"
      using 3 Cons.prems(1)
      by (auto simp: placed_cell_def Let_def not_less_eq_eq put_get place_inj split: option.splits)
    then show ?thesis
      using Cons.IH [of ?f "Suc x0" y0] Cons.prems 3
      by (simp add: place_step_simps put_ok of_nat_Suc_cell del: of_nat_Suc)
  qed
qed

end

interpretation initial: text_sink put_initial "\<lambda>p. p"
  by unfold_locales (simp_all add: put_initial_def get_fungespace_set_initial store_ok_set_initial)

interpretation offset: text_sink "\<lambda>c p. fungespace_set_offset (ucast c) p off" "\<lambda>p. vector_add p off" for off
  by unfold_locales
    (simp_all add: fungespace_set_offset_def vector_add_def get_fungespace_set store_ok_set vector_eq_iff)

lemma boundsvalid_set_initial: "boundsvalid (fungespace_set_initial v p f)"
  by (auto simp: fungespace_set_initial_def fungespace_set_no_bounds_update_def Let_def
      fungespace_extend_def split: option.splits)

lemma card_used_set_initial:
  "store_ok f \<Longrightarrow> card (used_cells (fungespace_set_initial v p f)) \<le> Suc (card (used_cells f))"
proof -
  assume "store_ok f"
  then have "used_cells (fungespace_set_initial v p f) \<subseteq> insert p (used_cells f)"
    by (auto simp: used_cells_def get_fungespace_set_initial)
  then have "card (used_cells (fungespace_set_initial v p f)) \<le> card (insert p (used_cells f))"
    by (intro card_mono finite_vectors)
  also have "\<dots> \<le> Suc (card (used_cells f))" by (rule card_insert_le_m1) simp_all
  finally show ?thesis .
qed

lemma place_fspace_ok:
  assumes "fspace_ok f" "card (used_cells f) + length cs < 2 ^ 64" "boundsvalid f \<or> used_cells f = {}"
  shows "fspace_ok (snd (fold (place_step put_initial) cs (pos, f)))"
  using assms
proof (induction cs arbitrary: pos f)
  case (Cons c cs)
  obtain a b where pos: "pos = vector a b" by (cases pos) simp
  consider "c = 10" | "c = 32" | "c \<noteq> 10" "c \<noteq> 32" by blast
  then show ?case
  proof cases
    case 3
    let ?f = "fungespace_set_initial (ucast c) pos f"
    have ok: "store_ok f" using Cons.prems(1) by (simp add: fspace_ok_def)
    have "card (used_cells ?f) + length cs < 2 ^ 64"
      using card_used_set_initial [OF ok, of "ucast c" pos] Cons.prems(2) by simp
    moreover from this have "fspace_ok ?f"
      using Cons.prems(1,3) by (intro fspace_ok_set_initial) (auto simp: capacity_ok_def)
    ultimately show ?thesis
      using Cons.IH [of ?f] boundsvalid_set_initial 3
      by (simp add: pos place_step_simps put_initial_def)
  qed (use Cons in \<open>simp_all add: pos place_step_simps\<close>)
qed simp

lemma program_text_length:
  "length (unix_newlines (filter (\<lambda>c. c \<noteq> 12) s)) \<le> length s"
  using length_unix_newlines [of "filter (\<lambda>c. c \<noteq> 12) s"] length_filter_le [of "\<lambda>c. c \<noteq> 12" s]
  by (rule order_trans)

text \<open>
  the initial load lays a program out as its text reads. After loading, the position \<open>(x, y)\<close>
  holds the byte in column \<open>x\<close> of line \<open>y\<close> of the program, where CR, LF and CR LF all end a line
  and form feeds do not count, if there is such a byte and it is not a space; every other cell is
  as it was before. Loading into a fresh funge-space establishes its invariant: in particular the
  corners enclose what was loaded.
\<close>

theorem fungespace_load_string_layout:
  assumes "store_ok f" and "length program < 2 ^ 64"
  shows "fungespace_get (fungespace_load_string program f) (vector x y) =
           (if unat y < length (program_lines program) \<and>
               unat x < length (program_lines program ! unat y) \<and>
               program_lines program ! unat y ! unat x \<noteq> 32
            then ucast (program_lines program ! unat y ! unat x)
            else fungespace_get f (vector x y)) \<and>
         fspace_ok (fungespace_load_string program fungespace_create)"
proof -
  let ?cs = "unix_newlines (filter (\<lambda>c. c \<noteq> 12) program)"
  have len: "length ?cs < 2 ^ 64" using program_text_length assms(2) by (rule le_less_trans)
  have load: "fungespace_load_string program g = snd (fold (place_step put_initial) ?cs (vector 0 0, g))" for g
    by (simp add: fungespace_load_string_def load_string_place)
  have "fungespace_get (fungespace_load_string program f) (vector x y) =
      placed_cell ?cs 0 0 (vector x y) (fungespace_get f (vector x y))"
    using initial.place_cells [OF assms(1), of 0 ?cs 0] len by (simp add: load)
  moreover have "fspace_ok (fungespace_load_string program fungespace_create)"
    unfolding load by (rule place_fspace_ok [OF fspace_ok_create]) (use len in \<open>simp_all add: used_cells_create\<close>)
  ultimately show ?thesis
    by (auto simp: placed_cell_def Let_def text_cell_lines program_lines_def)
qed

theorem fungespace_load_string_layout_witness:
  "fungespace_get (fungespace_load_string [49, 13, 10, 32, 50, 13, 51] fungespace_create) (vector 1 1) = 50"
proof -
  have lines: "program_lines [49, 13, 10, 32, 50, 13, 51] = [[49], [32, 50], [51]]"
    by (simp add: program_lines_def)
  show ?thesis
    using fungespace_load_string_layout [OF store_ok_create, of "[49, 13, 10, 32, 50, 13, 51]" 1 1]
    by (simp add: lines)
qed

section \<open>Loading at an offset: cells and size\<close>

definition smax :: "cell \<Rightarrow> cell \<Rightarrow> cell" where
  "smax a b = (if a <s b then b else a)"

definition width_step :: "byte \<Rightarrow> cell \<times> cell \<Rightarrow> cell \<times> cell" where
  "width_step c = (\<lambda>(x, w). if c = 10 then (0, smax w x) else (x + 1, w))"

lemma width_step_simps:
  "width_step 10 (x, w) = (0, smax w x)"
  "c \<noteq> 10 \<Longrightarrow> width_step c (x, w) = (x + 1, w)"
  by (simp_all add: width_step_def)

lemma width_nonneg: "0 \<le>s w \<Longrightarrow> 0 \<le>s snd (fold width_step t (x, w))"
proof (induction t arbitrary: x w)
  case (Cons c t)
  then show ?case by (cases "c = 10") (auto simp: width_step_simps smax_def cell_order)
qed simp

definition offset_result :: "offset_load_state \<Rightarrow> cell \<times> cell \<times> fungeSpace" where
  "offset_result s =
     (smax (vec_x (ol_size s)) (vec_x (ol_pos s)),
      if ol_lastwascr s then vec_y (ol_pos s) + 1 else vec_y (ol_pos s), ol_space s)"

definition offset_place :: "funge_vector \<Rightarrow> byte list \<Rightarrow> funge_vector \<Rightarrow> cell \<Rightarrow> fungeSpace \<Rightarrow>
    cell \<times> cell \<times> fungeSpace" where
  "offset_place off t pos w f =
     (let (pos', f') = fold (place_step (\<lambda>c p. fungespace_set_offset (ucast c) p off)) t (pos, f);
          (x', w') = fold width_step t (vec_x pos, w)
      in (smax w' x', vec_y pos', f'))"

lemma offset_place_simps:
  "offset_place off [] pos w f = (smax w (vec_x pos), vec_y pos, f)"
  "offset_place off (10 # t) pos w f = offset_place off t (vector 0 (vec_y pos + 1)) (smax w (vec_x pos)) f"
  "c \<noteq> 10 \<Longrightarrow> offset_place off (c # t) pos w f =
     offset_place off t (vector (vec_x pos + 1) (vec_y pos)) w
       (if c = 32 then f else fungespace_set_offset (ucast c) pos off f)"
  by (simp_all add: offset_place_def place_step_def width_step_def split_beta)

abbreviation ol_state :: "funge_vector \<Rightarrow> funge_vector \<Rightarrow> bool \<Rightarrow> fungeSpace \<Rightarrow> offset_load_state" where
  "ol_state pos sz cr f \<equiv> \<lparr>ol_pos = pos, ol_size = sz, ol_lastwascr = cr, ol_space = f\<rparr>"

lemma offset_newline:
  "FUNGE_OFFSET_NEWLINE (ol_state pos sz cr f) =
     ol_state (vector 0 (vec_y pos + 1)) (vector (smax (vec_x sz) (vec_x pos)) (vec_y sz)) cr f"
  by (simp add: FUNGE_OFFSET_NEWLINE_def smax_def)

lemma offset_step_simps:
  "offset_load_text_step off 12 s = s"
  "offset_load_text_step off 13 (ol_state pos sz False f) = ol_state pos sz True f"
  "offset_load_text_step off 13 (ol_state pos sz True f) = FUNGE_OFFSET_NEWLINE (ol_state pos sz True f)"
  "offset_load_text_step off 10 (ol_state pos sz cr f) = FUNGE_OFFSET_NEWLINE (ol_state pos sz False f)"
  "c \<noteq> 12 \<Longrightarrow> c \<noteq> 13 \<Longrightarrow> c \<noteq> 10 \<Longrightarrow> offset_load_text_step off c (ol_state pos sz False f) =
     ol_state (vector (vec_x pos + 1) (vec_y pos)) sz False
       (if c = 32 then f else fungespace_set_offset (ucast c) pos off f)"
  "c \<noteq> 12 \<Longrightarrow> c \<noteq> 13 \<Longrightarrow> c \<noteq> 10 \<Longrightarrow> offset_load_text_step off c (ol_state pos sz True f) =
     offset_load_text_step off c (FUNGE_OFFSET_NEWLINE (ol_state pos sz False f))"
  by (simp_all add: offset_load_text_step_def offset_newline)

lemma offset_load_place:
  assumes "0 \<le>s vec_x sz"
  shows "offset_result (fold (offset_load_text_step off) s (ol_state pos sz cr f)) =
         offset_place off
           (unix_newlines (if cr then 13 # filter (\<lambda>c. c \<noteq> 12) s else filter (\<lambda>c. c \<noteq> 12) s))
           pos (vec_x sz) f \<and>
         vec_y (ol_size (fold (offset_load_text_step off) s (ol_state pos sz cr f))) = vec_y sz"
  using assms
proof (induction s arbitrary: pos sz cr f)
  case Nil
  then show ?case
    by (auto simp: offset_result_def offset_place_simps smax_def cell_order)
next
  case (Cons c s)
  have "0 \<le>s vec_x (vector (smax (vec_x sz) (vec_x pos)) (vec_y sz))"
    using Cons.prems by (simp add: cell_order smax_def)
  note IH = Cons.IH [OF Cons.prems] Cons.IH [OF this]
  consider "c = 12" | "c = 13" | "c = 10" | "c \<noteq> 12" "c \<noteq> 13" "c \<noteq> 10" by blast
  then show ?case
  proof cases
    case 1
    then show ?thesis using IH by (simp add: offset_step_simps)
  next
    case 2
    then show ?thesis using IH(1) [where cr = True] IH(2) [where cr = True]
      by (cases cr) (simp_all add: offset_step_simps offset_newline unix_newlines_cr(2) offset_place_simps)
  next
    case 3
    then show ?thesis using IH(2) [where cr = False]
      by (cases cr) (simp_all add: offset_step_simps offset_newline unix_newlines_Cons offset_place_simps)
  next
    case 4
    then show ?thesis using IH(1) [where cr = False] IH(2) [where cr = False]
      by (cases cr) (simp_all add: offset_step_simps offset_newline unix_newlines_Cons
          unix_newlines_cr(2) offset_place_simps)
  qed
qed

text \<open>The width of a text is that of its longest line, the height the number of its line ends.\<close>

definition text_width :: "byte list list \<Rightarrow> nat" where
  "text_width ls = foldr (\<lambda>l m. max (length l) m) ls 0"

lemma text_width_Cons [simp]: "text_width (l # ls) = max (length l) (text_width ls)"
  by (simp add: text_width_def)

lemma sint_of_nat_cell: "n < 2 ^ 63 \<Longrightarrow> sint (of_nat n :: cell) = int n"
  using sint_of_int_cell [of "int n"] by simp

lemma smax_of_nat:
  "m < 2 ^ 63 \<Longrightarrow> n < 2 ^ 63 \<Longrightarrow> smax (of_nat m) (of_nat n) = of_nat (max m n)"
  by (simp add: smax_def cell_order sint_of_nat_cell max_def)

lemma width_of_text:
  assumes "x0 + length t < 2 ^ 63" "w0 < 2 ^ 63"
    "fold width_step t (of_nat x0, of_nat w0) = (x', w')"
  shows "smax w' x' = of_nat (max w0 (max (x0 + length (hd (text_lines t))) (text_width (tl (text_lines t)))))"
  using assms
proof (induction t arbitrary: x0 w0)
  case Nil
  then show ?case by (auto simp: smax_of_nat text_width_def simp del: of_nat_max)
next
  case (Cons c t)
  obtain l ls where ls: "text_lines t = l # ls" by (cases "text_lines t") simp_all
  show ?case
  proof (cases "c = 10")
    case True
    then have "fold width_step t (of_nat 0, of_nat (max w0 x0)) = (x', w')"
      using Cons.prems by (simp add: width_step_simps smax_of_nat del: of_nat_max)
    from Cons.IH [OF _ _ this] Cons.prems True ls show ?thesis
      by (simp add: max.assoc max.commute max.left_commute)
  next
    case False
    then have "fold width_step t (of_nat (Suc x0), of_nat w0) = (x', w')"
      using Cons.prems by (simp add: width_step_simps of_nat_Suc_cell del: of_nat_Suc)
    from Cons.IH [OF _ _ this] Cons.prems False ls show ?thesis by simp
  qed
qed

lemma height_of_text:
  "vec_y (fst (fold (place_step put) t (pos, f))) = vec_y pos + of_nat (length (text_lines t) - 1)"
proof (induction t arbitrary: pos f)
  case (Cons c t)
  obtain l ls where ls: "text_lines t = l # ls" by (cases "text_lines t") simp_all
  show ?case using Cons.IH by (simp add: place_step_def ls)
qed simp

lemma offset_layout:
  assumes "store_ok f" and "file = Some program" and "program \<noteq> []" and "length program < 2 ^ 63"
    and "fungespace_load_at_offset file offset False sz0 f = (okay, sz, f')"
  shows "okay \<and> vec_x sz = of_nat (text_width (program_lines program)) \<and>
         vec_y sz = of_nat (length (program_lines program) - 1) \<and>
         fungespace_get f' (vector_add (vector x y) offset) =
           (if unat y < length (program_lines program) \<and>
               unat x < length (program_lines program ! unat y) \<and>
               program_lines program ! unat y ! unat x \<noteq> 32
            then ucast (program_lines program ! unat y ! unat x)
            else fungespace_get f (vector_add (vector x y) offset)) \<and>
         fungespace_load_at_offset None offset binary sz0 f = (False, sz0, f) \<and>
         fungespace_load_at_offset (Some []) offset binary sz0 f = (True, vector 0 0, f)"
proof -
  let ?cs = "unix_newlines (filter (\<lambda>c. c \<noteq> 12) program)"
  let ?st = "fold (offset_load_text_step offset) program (ol_state (vector 0 0) (vector 0 0) False f)"
  have len: "length ?cs < 2 ^ 63" using program_text_length assms(4) by (rule le_less_trans)
  have rel: "offset_result ?st = offset_place offset ?cs (vector 0 0) 0 f"
    "vec_y (ol_size ?st) = 0"
    using offset_load_place [of "vector 0 0" offset program "vector 0 0" False f]
    by (simp_all add: cell_order)
  obtain pos' g where place: "fold (place_step (\<lambda>c p. fungespace_set_offset (ucast c) p offset)) ?cs (vector 0 0, f) = (pos', g)"
    by (cases "fold (place_step (\<lambda>c p. fungespace_set_offset (ucast c) p offset)) ?cs (vector 0 0, f)")
  obtain x' w' where width: "fold width_step ?cs (0, 0) = (x', w')" by (cases "fold width_step ?cs (0, 0)")
  obtain l ls where ls: "text_lines ?cs = l # ls" by (cases "text_lines ?cs") simp_all
  have w: "smax w' x' = of_nat (text_width (program_lines program))"
    using width_of_text [of 0 ?cs 0 x' w'] len width by (simp add: program_lines_def ls)
  have h: "vec_y pos' = of_nat (length (program_lines program) - 1)"
    using height_of_text [of "\<lambda>c p. fungespace_set_offset (ucast c) p offset" ?cs "vector 0 0" f] place
    by (simp add: program_lines_def)
  have hlen: "length (program_lines program) - 1 < 2 ^ 63"
  proof -
    have "length (text_lines cs) \<le> Suc (length cs)" for cs by (induction cs) (auto simp: le_Suc_eq)
    from this [of ?cs] len show ?thesis by (simp add: program_lines_def)
  qed
  have cells: "fungespace_get g (vector_add (vector x y) offset) =
      placed_cell ?cs 0 0 (vector x y) (fungespace_get f (vector_add (vector x y) offset))"
    using offset.place_cells [OF assms(1), of 0 ?cs 0 offset "vector x y"] len place by simp
  have res: "offset_result ?st = (smax w' x', vec_y pos', g)"
    using rel place width by (simp add: offset_place_def)
  have "sz = vector (smax w' x') (smax 0 (vec_y pos')) \<and> f' = g \<and> okay"
    using assms(5) res rel(2) unfolding assms(2) fungespace_load_at_offset_def do_mmap_def
    using assms(3)
    by (cases "ol_lastwascr ?st") (auto simp: Let_def offset_result_def smax_def split: if_splits)
  moreover have "smax 0 (vec_y pos') = vec_y pos'"
    using hlen by (simp add: h smax_def cell_order sint_of_nat_cell)
  ultimately show ?thesis
    using cells w h
    by (auto simp: placed_cell_def Let_def text_cell_lines program_lines_def fungespace_load_at_offset_def do_mmap_def)
qed

text \<open>
  C20: loading a text at an offset. The byte in column \<open>x\<close> of line \<open>y\<close> of the file goes to the
  position \<open>(x, y)\<close> from the offset unless it is a space, every other cell keeps its value, and the
  size that is reported is the length of the longest line and the number of line ends. A file that
  cannot be opened changes nothing and reports failure, an empty one has size 0.
\<close>

theorem fungespace_load_at_offset_layout:
  assumes "store_ok f" and "file = Some program" and "program \<noteq> []" and "length program < 2 ^ 63"
    and "fungespace_load_at_offset file offset False sz0 f = (okay, sz, f')"
  shows "okay \<and> vec_x sz = of_nat (text_width (program_lines program)) \<and>
         vec_y sz = of_nat (length (program_lines program) - 1) \<and>
         fungespace_get f' (vector_add (vector x y) offset) =
           (if unat y < length (program_lines program) \<and>
               unat x < length (program_lines program ! unat y) \<and>
               program_lines program ! unat y ! unat x \<noteq> 32
            then ucast (program_lines program ! unat y ! unat x)
            else fungespace_get f (vector_add (vector x y) offset)) \<and>
         fungespace_load_at_offset None offset binary sz0 f = (False, sz0, f) \<and>
         fungespace_load_at_offset (Some []) offset binary sz0 f = (True, vector 0 0, f)"
  by (rule offset_layout [OF assms])

theorem fungespace_load_at_offset_layout_witness:
  "let (okay, sz, f') = fungespace_load_at_offset (Some [49, 50, 13, 10, 51, 10]) (vector 7 8) False
                          (vector 0 0) fungespace_create
   in okay \<and> sz = vector 2 2 \<and> fungespace_get f' (vector 7 9) = 51"
proof -
  obtain okay sz f' where run: "fungespace_load_at_offset (Some [49, 50, 13, 10, 51, 10]) (vector 7 8)
      False (vector 0 0) fungespace_create = (okay, sz, f')"
    by (cases "fungespace_load_at_offset (Some [49, 50, 13, 10, 51, 10]) (vector 7 8)
      False (vector 0 0) fungespace_create")
  have lines: "program_lines [49, 50, 13, 10, 51, 10] = [[49, 50], [51], []]"
    by (simp add: program_lines_def)
  from fungespace_load_at_offset_layout [OF store_ok_create refl _ _ run, of 0 1 False] lines
  have "okay \<and> sz = vector 2 2 \<and> fungespace_get f' (vector 7 9) = 51"
    by (simp add: vector_add_def vector_eq_iff text_width_def)
  with run show ?thesis by simp
qed

lemma unat_pred_cell: "w \<noteq> 0 \<Longrightarrow> unat w = Suc (unat (w - 1 :: cell))"
  using unat_minus_one [of w] unat_gt_0 [of w] by simp

lemma binary_fold:
  assumes "store_ok f"
    and "s' = fold offset_load_binary_step bytes (ol_state pos sz cr f)"
  shows "ol_pos s' = vector (vec_x pos + of_nat (length bytes)) (vec_y pos) \<and> ol_size s' = sz \<and>
         store_ok (ol_space s') \<and>
         (length bytes < 2 ^ 64 \<longrightarrow>
          fungespace_get (ol_space s') p =
           (if vec_y p = vec_y pos \<and> unat (vec_x p - vec_x pos) < length bytes \<and>
               bytes ! unat (vec_x p - vec_x pos) \<noteq> 32
            then ucast (bytes ! unat (vec_x p - vec_x pos)) else fungespace_get f p))"
  using assms(1) unfolding assms(2)
proof (induction bytes arbitrary: pos f)
  case (Cons c bytes)
  let ?f = "if c \<noteq> 32 then fungespace_set (ucast c) pos f else f"
  let ?d = "vec_x p - vec_x pos"
  have ok: "store_ok ?f" using Cons.prems by (simp add: store_ok_set)
  have step: "offset_load_binary_step c (ol_state pos sz cr f) =
      ol_state (vector (vec_x pos + 1) (vec_y pos)) sz cr ?f"
    by (simp add: offset_load_binary_step_def Let_def)
  note d = unat_pred_cell [of ?d]
  have d1: "vec_x p - (vec_x pos + 1) = ?d - 1" by simp
  have last: "unat (- 1 :: cell) = 2 ^ 64 - 1" by (simp add: unsigned_minus_1_eq_mask mask_eq_exp_minus_1)
  show ?case
  proof (cases "?d = 0")
    case True
    then show ?thesis
      using Cons.IH [OF ok, of "vector (vec_x pos + 1) (vec_y pos)"] Cons.prems last
      by (auto simp: step d1 get_fungespace_set vector_eq_iff)
  next
    case False
    then show ?thesis
      using Cons.IH [OF ok, of "vector (vec_x pos + 1) (vec_y pos)"] Cons.prems d [OF False]
      by (auto simp: step d1 get_fungespace_set vector_eq_iff)
  qed
qed simp

text \<open>
  The binary mode writes the bytes of the file one after the other on the row of the offset,
  line ends included, and skips spaces. The size it reports is where the last byte went, with
  the offset included (or 0 where that is negative), and not the size of the area.
\<close>

theorem fungespace_load_at_offset_binary:
  assumes "store_ok f" and "program \<noteq> []" and "length program < 2 ^ 63"
    and "fungespace_load_at_offset (Some program) offset True sz0 f = (okay, sz, f')"
  shows "okay \<and>
         vec_x sz = (if 0 <s vec_x offset + of_nat (length program)
                     then vec_x offset + of_nat (length program) else 0) \<and>
         vec_y sz = (if 0 <s vec_y offset then vec_y offset else 0) \<and>
         fungespace_get f' p =
           (if vec_y p = vec_y offset \<and> unat (vec_x p - vec_x offset) < length program \<and>
               program ! unat (vec_x p - vec_x offset) \<noteq> 32
            then ucast (program ! unat (vec_x p - vec_x offset)) else fungespace_get f p)"
  using assms(2-4) binary_fold [OF assms(1) refl, of program "vector (vec_x offset) (vec_y offset)" "vector 0 0" False p]
  by (auto simp: fungespace_load_at_offset_def do_mmap_def Let_def)

theorem fungespace_load_at_offset_binary_witness:
  "let (okay, sz, f') = fungespace_load_at_offset (Some [49, 32, 50]) (vector 7 8) True
                          (vector 0 0) fungespace_create
   in sz = vector 10 8 \<and> fungespace_get f' (vector 9 8) = 50"
proof -
  obtain okay sz f' where run: "fungespace_load_at_offset (Some [49, 32, 50]) (vector 7 8) True
      (vector 0 0) fungespace_create = (okay, sz, f')"
    by (cases "fungespace_load_at_offset (Some [49, 32, 50]) (vector 7 8) True (vector 0 0) fungespace_create")
  from fungespace_load_at_offset_binary [OF store_ok_create _ _ run, of "vector 9 8"]
  have "sz = vector 10 8 \<and> fungespace_get f' (vector 9 8) = 50"
    by (simp add: vector_eq_iff cell_order)
  with run show ?thesis by simp
qed

section \<open>Saving and loading again\<close>

lemma count_up_spec:
  assumes "sint lo + int n < 2 ^ 63"
  shows "count_up lo (lo + of_nat n) = map (\<lambda>i. lo + of_nat i) [0..<n]"
  using assms
proof (induction n arbitrary: lo)
  case 0
  then show ?case by (simp add: count_up.simps cell_order)
next
  case (Suc n)
  have hi: "sint (lo + of_nat (Suc n)) = sint lo + int (Suc n)"
  proof -
    have "lo + of_nat (Suc n) = word_of_int (sint lo + int (Suc n))"
      by (simp add: of_int_sint_cell)
    moreover have "sint (word_of_int (sint lo + int (Suc n)) :: cell) = sint lo + int (Suc n)"
      using Suc.prems cell_sint_ge [of lo] by (intro sint_of_int_cell) auto
    ultimately show ?thesis by metis
  qed
  then have less: "lo <s lo + of_nat (Suc n)" by (simp add: cell_order)
  have "sint (lo + 1) = sint lo + 1" using less sint_succ_cell by blast
  then have "count_up (lo + 1) (lo + 1 + of_nat n) = map (\<lambda>i. lo + 1 + of_nat i) [0..<n]"
    using Suc by simp
  then show ?case
    using less count_up.simps [of lo "lo + of_nat (Suc n)"]
    by (simp add: upt_conv_Cons map_Suc_upt [symmetric] add.assoc del: upt_Suc map_Suc_upt)
qed

lemma strip_trailing_append:
  "\<exists>k. xs = strip_trailing c xs @ replicate k c"
proof -
  have "rev xs = takeWhile (\<lambda>x. x = c) (rev xs) @ dropWhile (\<lambda>x. x = c) (rev xs)" by simp
  moreover have "takeWhile (\<lambda>x. x = c) (rev xs) = replicate (length (takeWhile (\<lambda>x. x = c) (rev xs))) c"
    by (rule replicate_eqI [symmetric, THEN sym]) (auto dest: set_takeWhileD)
  ultimately have "rev xs = replicate (length (takeWhile (\<lambda>x. x = c) (rev xs))) c @ dropWhile (\<lambda>x. x = c) (rev xs)"
    by metis
  then have "xs = strip_trailing c xs @ replicate (length (takeWhile (\<lambda>x. x = c) (rev xs))) c"
    by (metis rev_append rev_replicate rev_rev_ident strip_trailing_def)
  then show ?thesis by blast
qed

lemma text_cell_trailing: "text_cell (s @ replicate k 10) x y = text_cell s x y"
proof (induction s x y rule: text_cell.induct)
  case (1 x y)
  show ?case
  proof (induction k arbitrary: y)
    case (Suc k)
    then show ?case by (cases y) simp_all
  qed simp
qed simp_all

lemma text_cell_first_line:
  "10 \<notin> set l \<Longrightarrow> text_cell (l @ 10 # r) x 0 = (if x < length l then Some (l ! x) else None)"
  by (induction l arbitrary: x) (auto simp: nth_Cons' less_Suc_eq_0_disj split: nat.splits)

lemma text_cell_next_line: "10 \<notin> set l \<Longrightarrow> text_cell (l @ 10 # r) x (Suc y) = text_cell r x y"
  by (induction l) auto

lemma text_cell_rows:
  assumes "\<forall>l\<in>set ls. 10 \<notin> set l"
  shows "text_cell (concat (map (\<lambda>l. l @ [10]) ls)) x y =
           (if y < length ls \<and> x < length (ls ! y) then Some (ls ! y ! x) else None)"
  using assms
proof (induction ls arbitrary: y)
  case (Cons l ls)
  then show ?case
    by (cases y) (simp_all add: text_cell_first_line text_cell_next_line)
qed simp

lemma unix_newlines_id: "13 \<notin> set cs \<Longrightarrow> unix_newlines cs = cs"
  by (induction cs rule: unix_newlines.induct) auto

text \<open>The rectangle that is saved, by offsets from its corner.\<close>

definition area_cell :: "fungeSpace \<Rightarrow> funge_vector \<Rightarrow> nat \<Rightarrow> nat \<Rightarrow> cell" where
  "area_cell f offset i j = fungespace_get f (vector (vec_x offset + of_nat i) (vec_y offset + of_nat j))"

definition area_row :: "fungeSpace \<Rightarrow> funge_vector \<Rightarrow> nat \<Rightarrow> nat \<Rightarrow> byte list" where
  "area_row f offset w j = map ucast (strip_trailing space_cell (map (\<lambda>i. area_cell f offset i j) [0..<w]))"

definition plain_byte :: "cell \<Rightarrow> bool" where
  "plain_byte c \<longleftrightarrow> unat c < 256 \<and> c \<noteq> 10 \<and> c \<noteq> 12 \<and> c \<noteq> 13"

lemma ucast_ucast_byte: "unat c < 256 \<Longrightarrow> ucast (ucast (c :: cell) :: byte) = c"
proof -
  assume c: "unat c < 256"
  have "ucast (ucast c :: byte) = (take_bit 8 c :: cell)"
    by (rule bit_word_eqI) (auto simp: bit_simps)
  moreover have "unat (take_bit 8 c) = unat c"
    using c by (simp add: unsigned_take_bit_eq take_bit_nat_eq_self)
  ultimately show ?thesis by (simp add: word_unat_eq_iff)
qed

lemma ucast_plain_byte:
  assumes "plain_byte c"
  shows "(ucast c :: byte) \<noteq> 10" "(ucast c :: byte) \<noteq> 12" "(ucast c :: byte) \<noteq> 13"
    "(ucast c :: byte) = 32 \<longleftrightarrow> c = 32" "ucast (ucast c :: byte) = c"
  using assms ucast_ucast_byte [of c] by (auto simp: plain_byte_def)

lemma strip_trailing_nth:
  "strip_trailing c xs = take (length (strip_trailing c xs)) xs"
  "i < length xs \<Longrightarrow> length (strip_trailing c xs) \<le> i \<Longrightarrow> xs ! i = c"
proof -
  obtain k where k: "xs = strip_trailing c xs @ replicate k c" using strip_trailing_append by metis
  then show "strip_trailing c xs = take (length (strip_trailing c xs)) xs" by (metis append_eq_conv_conj)
  assume "i < length xs" "length (strip_trailing c xs) \<le> i"
  moreover have "length xs = length (strip_trailing c xs) + k" by (metis k length_append length_replicate)
  ultimately show "xs ! i = c" by (subst k) (simp add: nth_append)
qed

lemma save_text_rows:
  assumes "0 <s vec_x sz" "0 <s vec_y sz"
    and "sint (vec_x offset) + sint (vec_x sz) < 2 ^ 63" "sint (vec_y offset) + sint (vec_y sz) < 2 ^ 63"
  shows "save_text f (vec_x offset) (vec_x offset + vec_x sz)
           (count_up (vec_y offset) (vec_y offset + vec_y sz)) =
         concat (map (\<lambda>l. l @ [10]) (map (area_row f offset (unat (vec_x sz))) [0..<unat (vec_y sz)]))"
proof -
  have up: "count_up a (a + b) = map (\<lambda>i. a + of_nat i) [0..<unat b]"
    if "0 <s b" "sint a + sint b < 2 ^ 63" for a b
  proof -
    have "int (unat b) = sint b" using that(1) by (simp add: unat_eq_nat_sint cell_less_iff)
    then show ?thesis using count_up_spec [of a "unat b"] that(2) by simp
  qed
  show ?thesis
    unfolding save_text_def save_row_def up [OF assms(1,3)] up [OF assms(2,4)]
    by (simp add: area_row_def area_cell_def comp_def)
qed

lemma area_row_bytes:
  assumes "\<forall>i<w. plain_byte (area_cell f offset i j)" "c \<in> set (area_row f offset w j)"
  shows "c \<noteq> 10 \<and> c \<noteq> 12 \<and> c \<noteq> 13"
proof -
  let ?cells = "map (\<lambda>i. area_cell f offset i j) [0..<w]"
  obtain a where a: "c = ucast a" "a \<in> set (strip_trailing space_cell ?cells)"
    using assms(2) by (auto simp: area_row_def)
  then have "a \<in> set ?cells" by (metis strip_trailing_nth(1) set_take_subset subsetD)
  with assms(1) a(1) show ?thesis by (auto simp: ucast_plain_byte)
qed

lemma area_row_cell:
  assumes "i < w" "plain_byte (area_cell f offset i j)"
  shows "(if i < length (area_row f offset w j) then
            (if area_row f offset w j ! i = 32 then old else ucast (area_row f offset w j ! i))
          else old) = (if area_cell f offset i j = space_cell then old else area_cell f offset i j)"
proof -
  let ?cells = "map (\<lambda>i. area_cell f offset i j) [0..<w]"
  show ?thesis
  proof (cases "i < length (area_row f offset w j)")
    case True
    then have "i < length (strip_trailing space_cell ?cells)" by (simp add: area_row_def)
    then have "strip_trailing space_cell ?cells ! i = area_cell f offset i j"
      using assms(1) by (subst strip_trailing_nth(1)) simp
    then show ?thesis
      using True ucast_plain_byte(4,5) [OF assms(2)] by (simp add: area_row_def)
  next
    case False
    then have "area_cell f offset i j = space_cell"
      using strip_trailing_nth(2) [of i ?cells space_cell] assms(1) by (simp add: area_row_def)
    then show ?thesis using False by simp
  qed
qed

lemma placed_saved_text:
  assumes "0 <s vec_x sz" "0 <s vec_y sz"
    and "sint (vec_x offset) + sint (vec_x sz) < 2 ^ 63" "sint (vec_y offset) + sint (vec_y sz) < 2 ^ 63"
    and "\<forall>i<unat (vec_x sz). \<forall>j<unat (vec_y sz). plain_byte (area_cell f offset i j)"
    and "i < unat (vec_x sz)" "j < unat (vec_y sz)"
  defines "txt \<equiv> strip_trailing 10 (save_text f (vec_x offset) (vec_x offset + vec_x sz)
             (count_up (vec_y offset) (vec_y offset + vec_y sz)))"
  shows "12 \<notin> set txt \<and> 13 \<notin> set txt \<and>
         (if j < length (text_lines txt) \<and> i < length (text_lines txt ! j) \<and> text_lines txt ! j ! i \<noteq> 32
          then ucast (text_lines txt ! j ! i) else old) =
         (if area_cell f offset i j = space_cell then old else area_cell f offset i j)"
proof -
  let ?ls = "map (area_row f offset (unat (vec_x sz))) [0..<unat (vec_y sz)]"
  let ?T = "concat (map (\<lambda>l. l @ [10]) ?ls)"
  have T: "txt = strip_trailing 10 ?T"
    unfolding txt_def save_text_rows [OF assms(1-4)] ..
  have bytes: "\<forall>l\<in>set ?ls. 10 \<notin> set l \<and> 12 \<notin> set l \<and> 13 \<notin> set l"
  proof
    fix l
    assume "l \<in> set ?ls"
    then obtain j' where "l = area_row f offset (unat (vec_x sz)) j'" "j' < unat (vec_y sz)" by auto
    with assms(5) show "10 \<notin> set l \<and> 12 \<notin> set l \<and> 13 \<notin> set l"
      using area_row_bytes [of "unat (vec_x sz)" f offset j'] by blast
  qed
  then have "12 \<notin> set ?T \<and> 13 \<notin> set ?T" by auto
  moreover obtain k where k: "?T = txt @ replicate k 10" using strip_trailing_append T by metis
  moreover have "set ?T = set txt \<union> set (replicate k 10)" using arg_cong [OF k, of set] by (simp only: set_append)
  ultimately have no: "12 \<notin> set txt \<and> 13 \<notin> set txt" by blast
  have "text_cell txt i j = text_cell ?T i j" unfolding k text_cell_trailing ..
  also have "\<dots> = (if i < length (area_row f offset (unat (vec_x sz)) j)
      then Some (area_row f offset (unat (vec_x sz)) j ! i) else None)"
    using text_cell_rows [of ?ls i j] bytes assms(7) by simp
  finally have cell: "(case text_cell txt i j of None \<Rightarrow> old | Some c \<Rightarrow> if c = 32 then old else ucast c) =
      (if area_cell f offset i j = space_cell then old else area_cell f offset i j)"
    using area_row_cell [OF assms(6), of f offset j old] assms(5-7) by (auto split: if_splits)
  show ?thesis
    using no cell by (auto simp: text_cell_lines split: if_splits)
qed

text \<open>
  C21: what \<open>o\<close> writes as text, \<open>i\<close> reads back. An area whose cells are plain bytes is saved in the
  text mode; unless nothing was written, loading that file at the same offset of any funge-space
  puts every cell of the area that is not a space back in its place, although trailing spaces and
  newlines were cut. Nothing is written when the text that is left has a single byte, although that
  byte is part of the area.
\<close>

theorem fungespace_save_load_roundtrip:
  assumes "0 <s vec_x sz" "0 <s vec_y sz"
    and "sint (vec_x offset) + sint (vec_x sz) < 2 ^ 63" "sint (vec_y offset) + sint (vec_y sz) < 2 ^ 63"
    and "\<forall>i<unat (vec_x sz). \<forall>j<unat (vec_y sz). plain_byte (area_cell f offset i j)"
    and "fungespace_save_to_file env offset sz True f = (True, Some txt)"
    and "txt \<noteq> []" "length txt < 2 ^ 63" and "store_ok g"
    and "fungespace_load_at_offset (Some txt) offset False sz0 g = (okay, sz', g')"
    and "i < unat (vec_x sz)" "j < unat (vec_y sz)"
  shows "okay \<and> length txt \<noteq> 1 \<and>
         area_cell g' offset i j =
           (if area_cell f offset i j = space_cell then area_cell g offset i j
            else area_cell f offset i j)"
proof -
  let ?txt = "strip_trailing 10 (save_text f (vec_x offset) (vec_x offset + vec_x sz)
             (count_up (vec_y offset) (vec_y offset + vec_y sz)))"
  have written: "txt = ?txt" "length txt \<noteq> 1"
    using assms(6,7) by (auto simp: fungespace_save_to_file_def Let_def split: if_splits)
  have idx: "i < 2 ^ 64" "j < 2 ^ 64"
    using assms(11,12) unsigned_less [of "vec_x sz", where ?'a = nat]
      unsigned_less [of "vec_y sz", where ?'a = nat] by simp_all
  note placed = placed_saved_text [OF assms(1-5,11,12), folded written(1), of "area_cell g offset i j"]
  have "program_lines txt = text_lines txt"
    using placed by (simp add: program_lines_def unix_newlines_id)
      (metis (mono_tags, lifting) filter_True unix_newlines_id)
  note lines = this
  have at: "vector_add (vector (of_nat i) (of_nat j)) offset =
      vector (vec_x offset + of_nat i) (vec_y offset + of_nat j)"
    by (simp add: vector_add_def add.commute)
  note loaded = offset_layout [OF assms(9) refl assms(7,8,10), of "of_nat i" "of_nat j" True,
      unfolded unat_of_nat_cell [OF idx(1)] unat_of_nat_cell [OF idx(2)] lines at,
      folded area_cell_def]
  show ?thesis using loaded placed written(2) by simp
qed

theorem fungespace_save_load_roundtrip_witness:
  "let f = fungespace_set 66 (vector 1 0) (fungespace_set 65 (vector 0 0) fungespace_create);
       env = \<lparr>se_open = True, se_fallocate = True, se_alloc = (\<lambda>_. True), se_write = True\<rparr>;
       txt = the (snd (fungespace_save_to_file env (vector 0 0) (vector 3 1) True f));
       (okay, sz, g') = fungespace_load_at_offset (Some txt) (vector 0 0) False (vector 0 0) fungespace_create
   in txt = [65, 66] \<and> fungespace_get g' (vector 1 0) = 66"
proof -
  let ?f = "fungespace_set 66 (vector 1 0) (fungespace_set 65 (vector 0 0) fungespace_create)"
  let ?env = "\<lparr>se_open = True, se_fallocate = True, se_alloc = (\<lambda>_. True), se_write = True\<rparr>"
  have up: "count_up 0 3 = [0, 1, 2]" "count_up 0 1 = [0]"
    by (simp_all add: count_up.simps cell_order)
  have get: "fungespace_get ?f = (\<lambda>_. space_cell)(vector 0 0 := 65, vector 1 0 := 66)"
    by (simp add: get_fungespace_set store_ok_set store_ok_create get_create)
  have save: "fungespace_save_to_file ?env (vector 0 0) (vector 3 1) True ?f = (True, Some [65, 66])"
    by (simp add: fungespace_save_to_file_def save_text_def save_row_def get up strip_trailing_def)
  obtain okay sz g' where run: "fungespace_load_at_offset (Some [65, 66]) (vector 0 0) False (vector 0 0)
      fungespace_create = (okay, sz, g')"
    by (cases "fungespace_load_at_offset (Some [65, 66]) (vector 0 0) False (vector 0 0) fungespace_create")
  have plain: "\<forall>i<unat (vec_x (vector 3 1)). \<forall>j<unat (vec_y (vector 3 1)).
      plain_byte (area_cell ?f (vector 0 0) i j)"
    by (auto simp: area_cell_def get plain_byte_def)
  have "area_cell g' (vector 0 0) 1 0 = 66"
    using fungespace_save_load_roundtrip [OF _ _ _ _ plain save _ _ store_ok_create run, of 1 0]
    by (simp add: cell_order area_cell_def get)
  then show ?thesis using save run by (simp add: Let_def area_cell_def)
qed

end
