(* ===== verification/Stack.thy ===== *)
theory Stack
  imports Cells
begin

text \<open>
  The cell stack of \<^verbatim>\<open>src/stack.c\<close> and \<^verbatim>\<open>src/stack.h\<close>: a growable array
  (\<open>stk_entries\<close>, of \<open>stk_size\<close> cells) and a one-indexed top. The array is a function
  from indices, so that what lies above the top stays visible; \<open>stack_list\<close> is the
  content it represents, bottom first, and every operation is related to its effect on that
  list. Sizes are \<open>size_t\<close> values: natural numbers, reduced modulo \<open>2 ^ 64\<close> where
  the code's computation can wrap.

  \<open>stack_oom\<close> ends the process. The operations that call it are functions to the stack
  they leave when they return; the requests they make of the allocator on the way are given by
  \<open>stack_push_oom\<close> and \<open>stack_prealloc_oom\<close>, which say exactly when the process ends
  instead. Allocation failures that the code handles are results (\<open>None\<close>, \<open>False\<close>).
\<close>

section \<open>Data\<close>

definition ALLOCSIZE_STACK :: nat where
  "ALLOCSIZE_STACK = 4096"

definition size_t :: "nat \<Rightarrow> nat" where
  "size_t n = n mod 2 ^ 64"

definition sizeof_funge_cell :: nat where
  "sizeof_funge_cell = 8"

definition sizeof_funge_stack :: nat where
  "sizeof_funge_stack = 24"

record funge_stack =
  stk_size :: nat
  stk_top :: nat
  stk_entries :: "nat \<Rightarrow> cell"

definition stack_list :: "funge_stack \<Rightarrow> cell list" where
  "stack_list s = map (stk_entries s) [0..<stk_top s]"

text \<open>
  Well-formedness: the top is within the array, and the array is an object an allocator can
  have granted. A sane allocator grants no request of \<open>2 ^ 61\<close> bytes or more (no machine
  has that much memory); this is all that is assumed of \<open>malloc\<close> and \<open>realloc\<close>.
\<close>

definition stack_ok :: "funge_stack \<Rightarrow> bool" where
  "stack_ok s \<longleftrightarrow> stk_top s \<le> stk_size s \<and> stk_size s * sizeof_funge_cell < 2 ^ 61"

definition sane_allocator :: "allocator \<Rightarrow> bool" where
  "sane_allocator al \<longleftrightarrow> (\<forall>n. al n \<longrightarrow> n < 2 ^ 61)"

section \<open>Constructor and destructor\<close>

text \<open>Fresh memory reads as 0 here; no operation reads above the top.\<close>

definition empty_stack :: funge_stack where
  "empty_stack = \<lparr>stk_size = ALLOCSIZE_STACK, stk_top = 0, stk_entries = (\<lambda>_. 0)\<rparr>"

definition stack_create :: "allocator \<Rightarrow> funge_stack option" where
  "stack_create al =
     (if \<not> al sizeof_funge_stack then None
      else if \<not> al (ALLOCSIZE_STACK * sizeof_funge_cell) then None
      else Some \<lparr>stk_size = ALLOCSIZE_STACK, stk_top = 0, stk_entries = (\<lambda>_. 0)\<rparr>)"

definition stack_duplicate :: "allocator \<Rightarrow> funge_stack \<Rightarrow> funge_stack option" where
  "stack_duplicate al old =
     (if \<not> al sizeof_funge_stack then None
      else if \<not> al (size_t ((stk_top old + 1) * sizeof_funge_cell)) then None
      else Some \<lparr>stk_size = stk_top old + 1, stk_top = stk_top old,
                 stk_entries = (if stk_top old \<noteq> 0
                    then (\<lambda>i. if i < stk_top old then stk_entries old i else 0)
                    else (\<lambda>_. 0))\<rparr>)"

section \<open>Basic push, pop, peek and preallocation\<close>

text \<open>The size the array is grown to: the space asked for, rounded up to whole blocks.\<close>

definition prealloc_newsize :: "funge_stack \<Rightarrow> nat \<Rightarrow> nat" where
  "prealloc_newsize s minfree =
     (let newsize = size_t (stk_size s + minfree)
      in size_t (newsize + (ALLOCSIZE_STACK - newsize mod ALLOCSIZE_STACK)))"

definition prealloc_needed :: "funge_stack \<Rightarrow> nat \<Rightarrow> bool" where
  "prealloc_needed s minfree \<longleftrightarrow> stk_size s \<le> size_t (stk_top s + minfree)"

definition stack_prealloc_space :: "funge_stack \<Rightarrow> nat \<Rightarrow> funge_stack" where
  "stack_prealloc_space s minfree =
     (if prealloc_needed s minfree then s\<lparr>stk_size := prealloc_newsize s minfree\<rparr> else s)"

definition stack_prealloc_oom :: "allocator \<Rightarrow> funge_stack \<Rightarrow> nat \<Rightarrow> bool" where
  "stack_prealloc_oom al s minfree \<longleftrightarrow>
     prealloc_needed s minfree \<and>
     (let newsize = prealloc_newsize s minfree;
          allocation_size = size_t (newsize * sizeof_funge_cell)
      in allocation_size < newsize \<or> \<not> al allocation_size)"

definition stack_push_no_check :: "funge_stack \<Rightarrow> cell \<Rightarrow> funge_stack" where
  "stack_push_no_check s v =
     s\<lparr>stk_entries := (stk_entries s)(stk_top s := v), stk_top := stk_top s + 1\<rparr>"

definition stack_push :: "funge_stack \<Rightarrow> cell \<Rightarrow> funge_stack" where
  "stack_push s v =
     (let s = (if stk_top s = stk_size s then s\<lparr>stk_size := stk_size s + ALLOCSIZE_STACK\<rparr> else s)
      in s\<lparr>stk_entries := (stk_entries s)(stk_top s := v), stk_top := stk_top s + 1\<rparr>)"

definition stack_push_oom :: "allocator \<Rightarrow> funge_stack \<Rightarrow> bool" where
  "stack_push_oom al s \<longleftrightarrow>
     stk_top s = stk_size s \<and>
     \<not> al (size_t ((stk_size s + ALLOCSIZE_STACK) * sizeof_funge_cell))"

definition stack_pop :: "funge_stack \<Rightarrow> cell \<times> funge_stack" where
  "stack_pop s =
     (if stk_top s = 0 then (0, s)
      else (stk_entries s (stk_top s - 1), s\<lparr>stk_top := stk_top s - 1\<rparr>))"

definition stack_discard :: "funge_stack \<Rightarrow> nat \<Rightarrow> funge_stack" where
  "stack_discard s n =
     (if n < stk_top s then s\<lparr>stk_top := stk_top s - n\<rparr> else s\<lparr>stk_top := 0\<rparr>)"

definition stack_clear :: "funge_stack \<Rightarrow> funge_stack" where
  "stack_clear s = s\<lparr>stk_top := 0\<rparr>"

definition stack_peek :: "funge_stack \<Rightarrow> cell" where
  "stack_peek s = (if stk_top s = 0 then 0 else stk_entries s (stk_top s - 1))"

text \<open>Index from the base, one-based.\<close>

definition stack_get_index :: "funge_stack \<Rightarrow> nat \<Rightarrow> cell" where
  "stack_get_index s index =
     (if stk_top s = 0 then 0
      else if stk_top s < index then 0
      else stk_entries s (index - 1))"

fun stack_strlen_loop :: "funge_stack \<Rightarrow> nat \<Rightarrow> nat" where
  "stack_strlen_loop s 0 = stk_top s"
| "stack_strlen_loop s (Suc i) =
     (if stk_entries s i = 0 then stk_top s - Suc i else stack_strlen_loop s i)"

definition stack_strlen :: "funge_stack \<Rightarrow> nat" where
  "stack_strlen s = stack_strlen_loop s (stk_top s)"

section \<open>Vectors and strings\<close>

definition stack_push_vector :: "funge_stack \<Rightarrow> funge_vector \<Rightarrow> funge_stack" where
  "stack_push_vector s v = stack_push (stack_push s (vec_x v)) (vec_y v)"

definition stack_pop_vector :: "funge_stack \<Rightarrow> funge_vector \<times> funge_stack" where
  "stack_pop_vector s =
     (let (y, s) = stack_pop s; (x, s) = stack_pop s in (vector x y, s))"

text \<open>
  Strings are buffers with their terminator: the caller's \<open>len\<close> is the index of the last
  byte read, normally the terminator. The loop counts \<open>i\<close> down from \<open>len\<close> to 0.
\<close>

definition push_cells_down :: "(nat \<Rightarrow> cell) \<Rightarrow> nat \<Rightarrow> nat \<Rightarrow> (nat \<Rightarrow> cell) \<Rightarrow> (nat \<Rightarrow> cell)" where
  "push_cells_down str len tp entries =
     fold (\<lambda>i entries. entries(tp - i := str i)) (rev [0..<Suc len]) entries"

definition stack_push_string :: "funge_stack \<Rightarrow> byte list \<Rightarrow> nat \<Rightarrow> funge_stack" where
  "stack_push_string s str len =
     (let s = stack_prealloc_space s (len + 1);
          tp = stk_top s + len
      in s\<lparr>stk_entries := push_cells_down (\<lambda>i. ucast (str ! i)) len tp (stk_entries s),
           stk_top := stk_top s + (len + 1)\<rparr>)"

definition stack_push_string_multibyte :: "funge_stack \<Rightarrow> cell list \<Rightarrow> nat \<Rightarrow> funge_stack" where
  "stack_push_string_multibyte s str len =
     (let s = stack_prealloc_space s (len + 1);
          tp = stk_top s + len
      in s\<lparr>stk_entries := push_cells_down (\<lambda>i. str ! i) len tp (stk_entries s),
           stk_top := stk_top s + (len + 1)\<rparr>)"

lemma stack_pop_top: "stk_top (snd (stack_pop s)) = stk_top s - 1"
  by (simp add: stack_pop_def)

text \<open>The loops of the string pops: cells up to the first 0, which is consumed.\<close>

function pop_cells :: "funge_stack \<Rightarrow> cell list \<times> funge_stack" where
  "pop_cells s =
     (let (c, s') = stack_pop s in
      if c \<noteq> 0 then (let (cs, s'') = pop_cells s' in (c # cs, s'')) else ([], s'))"
  by pat_completeness auto
termination
proof (relation "measure stk_top")
  fix s p c s'
  assume "p = stack_pop s" "(c, s') = p" "c \<noteq> 0"
  then show "(s', s) \<in> measure stk_top"
    by (auto simp: stack_pop_def split: if_splits)
qed simp

declare pop_cells.simps [simp del]

text \<open>The result \<open>None\<close> is the null pointer, with the stack untouched; the length is the list's.\<close>

definition stack_pop_string ::
    "allocator \<Rightarrow> funge_stack \<Rightarrow> byte list option \<times> funge_stack" where
  "stack_pop_string al s =
     (if \<not> al (stk_top s + 1) then (None, s)
      else (let (cs, s') = pop_cells s in (Some (map ucast cs @ [0]), s')))"

definition stack_pop_string_multibyte ::
    "allocator \<Rightarrow> funge_stack \<Rightarrow> cell list option \<times> funge_stack" where
  "stack_pop_string_multibyte al s =
     (if \<not> al (size_t ((stk_top s + 1) * sizeof_funge_cell)) then (None, s)
      else (let (cs, s') = pop_cells s in (Some (cs @ [0]), s')))"

section \<open>Other operations\<close>

definition stack_dup_top :: "funge_stack \<Rightarrow> funge_stack" where
  "stack_dup_top s =
     (let tmp = stack_peek s;
          s = stack_push s tmp
      in if stk_top s = 1 then stack_push s 0 else s)"

definition stack_swap_top :: "funge_stack \<Rightarrow> funge_stack" where
  "stack_swap_top s =
     (let (a, s) = stack_pop s;
          (b, s) = stack_pop s;
          s = stack_prealloc_space s 2
      in stack_push_no_check (stack_push_no_check s a) b)"

definition stack_zero_fill :: "funge_stack \<Rightarrow> nat \<Rightarrow> funge_stack" where
  "stack_zero_fill s count =
     (let s = stack_prealloc_space s count
      in s\<lparr>stk_entries := (\<lambda>i. if stk_top s \<le> i \<and> i < stk_top s + count then 0
                               else stk_entries s i),
           stk_top := stk_top s + count\<rparr>)"

definition stack_bulk_copy :: "funge_stack \<Rightarrow> funge_stack \<Rightarrow> nat \<Rightarrow> funge_stack" where
  "stack_bulk_copy dest src count =
     (let dest = stack_prealloc_space dest count;
          (dest, count) =
            (if stk_top src < count
             then (stack_zero_fill dest (count - stk_top src), count - (count - stk_top src))
             else (dest, count))
      in dest\<lparr>stk_entries :=
                (\<lambda>i. if stk_top dest \<le> i \<and> i < stk_top dest + count
                     then stk_entries src (stk_top src - count + (i - stk_top dest))
                     else stk_entries dest i),
              stk_top := stk_top dest + count\<rparr>)"

text \<open>As \<open>stack_prealloc_space\<close>, but the failures are answered with \<open>false\<close>.\<close>

definition stack_prealloc_space_non_fatal ::
    "allocator \<Rightarrow> funge_stack \<Rightarrow> nat \<Rightarrow> bool \<times> funge_stack" where
  "stack_prealloc_space_non_fatal al s minfree =
     (if prealloc_needed s minfree then
        (let newsize = prealloc_newsize s minfree;
             allocation_size = size_t (newsize * sizeof_funge_cell)
         in if allocation_size < newsize then (False, s)
            else if \<not> al allocation_size then (False, s)
            else (True, s\<lparr>stk_size := newsize\<rparr>))
      else (True, s))"


section \<open>Cells counted from the top\<close>

text \<open>
  The stack behaves as if an endless supply of zeros lay below its bottom: \<open>from_top xs k\<close>
  is the cell \<open>k\<close> below the top of the content \<open>xs\<close>, and \<open>drop_top n xs\<close> what is left
  when \<open>n\<close> cells are gone.
\<close>

definition from_top :: "cell list \<Rightarrow> nat \<Rightarrow> cell" where
  "from_top xs k = (if k < length xs then rev xs ! k else 0)"

definition drop_top :: "nat \<Rightarrow> cell list \<Rightarrow> cell list" where
  "drop_top n xs = take (length xs - n) xs"

lemma from_top_Nil [simp]: "from_top [] k = 0"
  by (simp add: from_top_def)

lemma from_top_snoc_0 [simp]: "from_top (xs @ [v]) 0 = v"
  by (simp add: from_top_def)

lemma from_top_snoc_Suc [simp]: "from_top (xs @ [v]) (Suc k) = from_top xs k"
  by (simp add: from_top_def)

lemma last_from_top: "(if xs = [] then 0 else last xs) = from_top xs 0"
  by (cases xs rule: rev_cases) simp_all

lemma from_top_butlast: "from_top (butlast xs) k = from_top xs (Suc k)"
  by (cases xs rule: rev_cases) simp_all

lemma drop_top_0 [simp]: "drop_top 0 xs = xs"
  by (simp add: drop_top_def)

lemma drop_top_Nil [simp]: "drop_top n [] = []"
  by (simp add: drop_top_def)

lemma drop_top_snoc_Suc [simp]: "drop_top (Suc n) (xs @ [v]) = drop_top n xs"
  by (simp add: drop_top_def)

lemma butlast_drop_top: "butlast (drop_top n xs) = drop_top (Suc n) xs"
  by (simp add: drop_top_def butlast_take)

lemma drop_top_1: "butlast xs = drop_top 1 xs"
  by (simp add: drop_top_def butlast_conv_take)

lemma from_top_drop_top [simp]: "from_top (drop_top n xs) k = from_top xs (n + k)"
  by (auto simp: from_top_def drop_top_def rev_take)

lemma drop_top_drop_top [simp]: "drop_top m (drop_top n xs) = drop_top (n + m) xs"
  by (cases "n \<le> length xs") (auto simp: drop_top_def)

lemma length_drop_top [simp]: "length (drop_top n xs) = length xs - n"
  by (simp add: drop_top_def)

lemma from_top_last: "xs \<noteq> [] \<Longrightarrow> last xs = from_top xs 0"
  by (cases xs rule: rev_cases) simp_all

section \<open>Facts about the content\<close>

named_theorems stack_simps "effect of the stack operations on the list they represent"

lemma length_stack_list [simp]: "length (stack_list s) = stk_top s"
  by (simp add: stack_list_def)

lemma stack_list_eq_Nil: "stack_list s = [] \<longleftrightarrow> stk_top s = 0"
  by (simp add: stack_list_def)

lemma nth_stack_list: "i < stk_top s \<Longrightarrow> stack_list s ! i = stk_entries s i"
  by (simp add: stack_list_def)

lemma last_stack_list: "stk_top s \<noteq> 0 \<Longrightarrow> last (stack_list s) = stk_entries s (stk_top s - 1)"
  by (simp add: stack_list_def last_map_upt)

lemma stack_list_size_update [simp]: "stack_list (s\<lparr>stk_size := n\<rparr>) = stack_list s"
  by (simp add: stack_list_def)

lemma stack_list_top_update:
  "n \<le> stk_top s \<Longrightarrow> stack_list (s\<lparr>stk_top := n\<rparr>) = take n (stack_list s)"
  by (simp add: stack_list_def take_map_upt)

lemma stack_list_prealloc [stack_simps]: "stack_list (stack_prealloc_space s n) = stack_list s"
  by (simp add: stack_prealloc_space_def)

lemma stk_prealloc [simp]:
  "stk_top (stack_prealloc_space s n) = stk_top s"
  "stk_entries (stack_prealloc_space s n) = stk_entries s"
  by (simp_all add: stack_prealloc_space_def)

lemma stack_list_push [stack_simps]: "stack_list (stack_push s v) = stack_list s @ [v]"
  by (auto simp: stack_list_def stack_push_def Let_def)

lemma stack_list_push_no_check [stack_simps]:
  "stack_list (stack_push_no_check s v) = stack_list s @ [v]"
  by (auto simp: stack_list_def stack_push_no_check_def)

lemma stack_entries_from_top:
  "stk_top s \<noteq> 0 \<Longrightarrow> stk_entries s (stk_top s - 1) = from_top (stack_list s) 0"
  using from_top_last [of "stack_list s"] by (simp add: last_stack_list stack_list_eq_Nil)

lemma from_top_stack_list_empty: "stk_top s = 0 \<Longrightarrow> from_top (stack_list s) k = 0"
  by (simp add: from_top_def)

lemma stack_pop_fst [stack_simps]: "fst (stack_pop s) = from_top (stack_list s) 0"
  using stack_entries_from_top [of s] by (simp add: stack_pop_def from_top_stack_list_empty)

lemma stack_list_pop [stack_simps]: "stack_list (snd (stack_pop s)) = drop_top 1 (stack_list s)"
  by (simp add: stack_pop_def drop_top_def stack_list_top_update stack_list_eq_Nil)

lemma stack_list_discard [stack_simps]:
  "stack_list (stack_discard s n) = drop_top n (stack_list s)"
  by (simp add: stack_discard_def drop_top_def stack_list_top_update)

lemma stack_list_clear [stack_simps]: "stack_list (stack_clear s) = []"
  by (simp add: stack_clear_def stack_list_def)

lemma stack_peek_list [stack_simps]: "stack_peek s = from_top (stack_list s) 0"
  using stack_entries_from_top [of s] by (simp add: stack_peek_def from_top_stack_list_empty)

lemma stack_get_index_list [stack_simps]:
  "0 < i \<Longrightarrow> stack_get_index s i = (if i \<le> stk_top s then stack_list s ! (i - 1) else 0)"
  by (auto simp: stack_get_index_def nth_stack_list)

lemma stack_list_empty [stack_simps]: "stack_list empty_stack = []"
  by (simp add: empty_stack_def stack_list_def)

lemma stack_list_create: "stack_create al = Some s \<Longrightarrow> stack_list s = [] \<and> s = empty_stack"
  by (auto simp: stack_create_def empty_stack_def stack_list_def split: if_splits)

lemma stack_list_duplicate: "stack_duplicate al s = Some t \<Longrightarrow> stack_list t = stack_list s"
  by (auto simp: stack_duplicate_def stack_list_def split: if_splits)

lemma stack_push_cases:
  "stack_push s v = (if stk_top s = stk_size s
     then s\<lparr>stk_size := stk_size s + ALLOCSIZE_STACK,
            stk_entries := (stk_entries s)(stk_top s := v), stk_top := stk_top s + 1\<rparr>
     else s\<lparr>stk_entries := (stk_entries s)(stk_top s := v), stk_top := stk_top s + 1\<rparr>)"
  by (simp add: stack_push_def Let_def)

lemma stk_top_push [simp]: "stk_top (stack_push s v) = stk_top s + 1"
  by (simp add: stack_push_cases)

lemma stk_top_pop: "stk_top (snd (stack_pop s)) = stk_top s - 1"
  by (simp add: stack_pop_def)

section \<open>Strings\<close>

lemma fold_upd_outside:
  "k \<notin> g ` set is \<Longrightarrow> fold (\<lambda>i e. e(g i := h i)) is e k = (e k :: 'b)"
  by (induction "is" arbitrary: e) auto

lemma fold_upd_inside:
  assumes "inj_on g (set is)" "i \<in> set is"
  shows "fold (\<lambda>i e. e(g i := h i)) is e (g i) = (h i :: 'b)"
  using assms
proof (induction "is" arbitrary: e)
  case (Cons j js)
  show ?case
  proof (cases "i \<in> set js")
    case True
    then show ?thesis using Cons by simp
  next
    case False
    then have "i = j" using Cons.prems by simp
    moreover have "g j \<notin> g ` set js"
      using Cons.prems(1) False \<open>i = j\<close> by (auto simp: inj_on_def)
    ultimately show ?thesis
      by (simp add: fold_upd_outside [where g = g and h = h] del: fun_upd_apply) simp
  qed
qed simp

lemma push_cells_down_below:
  "len \<le> tp \<Longrightarrow> k < tp - len \<Longrightarrow> push_cells_down str len tp e k = e k"
  unfolding push_cells_down_def by (rule fold_upd_outside) auto

lemma push_cells_down_at:
  "len \<le> tp \<Longrightarrow> i \<le> len \<Longrightarrow> push_cells_down str len tp e (tp - i) = str i"
  unfolding push_cells_down_def
  by (rule fold_upd_inside [where g = "\<lambda>i. tp - i"]) (auto simp: inj_on_def)

lemma stack_list_push_cells_down:
  "map (push_cells_down str len (n + len) e) [0..<Suc (n + len)] =
     map e [0..<n] @ rev (map str [0..<Suc len])"
proof (rule nth_equalityI)
  fix k
  assume "k < length (map (push_cells_down str len (n + len) e) [0..<Suc (n + len)])"
  then have k: "k < Suc (n + len)" by simp
  show "map (push_cells_down str len (n + len) e) [0..<Suc (n + len)] ! k =
      (map e [0..<n] @ rev (map str [0..<Suc len])) ! k"
  proof (cases "k < n")
    case True
    then show ?thesis using k by (simp add: push_cells_down_below nth_append del: upt_Suc)
  next
    case False
    have "push_cells_down str len (n + len) e (n + len - (n + len - k)) = str (n + len - k)"
      using False k by (intro push_cells_down_at) auto
    then show ?thesis
      using False k by (simp add: nth_append rev_nth add.commute del: upt_Suc)
  qed
qed simp

lemma stack_list_push_string:
  assumes "len < length str"
  shows "stack_list (stack_push_string s str len) =
           stack_list s @ map ucast (rev (take (len + 1) str))"
proof -
  have "map (\<lambda>i. ucast (str ! i)) [0..<Suc len] = map ucast (take (Suc len) str)"
    using assms by (auto intro!: nth_equalityI simp del: upt_Suc)
  then show ?thesis
    by (simp add: stack_push_string_def stack_list_def Let_def
        stack_list_push_cells_down rev_map [symmetric] del: upt_Suc)
qed

lemma stack_list_push_string_multibyte:
  assumes "len < length str"
  shows "stack_list (stack_push_string_multibyte s str len) =
           stack_list s @ rev (take (len + 1) str)"
proof -
  have "map (\<lambda>i. str ! i) [0..<Suc len] = take (Suc len) str"
    using assms by (auto intro!: nth_equalityI simp del: upt_Suc)
  then show ?thesis
    by (simp add: stack_push_string_multibyte_def stack_list_def Let_def
        stack_list_push_cells_down del: upt_Suc)
qed


lemma pop_cells_list:
  "fst (pop_cells s) = takeWhile (\<lambda>c. c \<noteq> 0) (rev (stack_list s)) \<and>
   stack_list (snd (pop_cells s)) = rev (drop 1 (dropWhile (\<lambda>c. c \<noteq> 0) (rev (stack_list s))))"
proof (induction s rule: pop_cells.induct)
  case (1 s)
  obtain c s' where pop: "stack_pop s = (c, s')" by (cases "stack_pop s")
  have c: "c = from_top (stack_list s) 0"
    using stack_pop_fst [of s] pop by simp
  have s': "stack_list s' = drop_top 1 (stack_list s)"
    using stack_list_pop [of s] pop by simp
  show ?case
  proof (cases "c = 0")
    case True
    then show ?thesis using c s'
      by (cases "stack_list s" rule: rev_cases) (simp_all add: pop_cells.simps [of s] pop)
  next
    case False
    then obtain xs where xs: "stack_list s = xs @ [c]" "stack_list s' = xs"
      using c s' by (cases "stack_list s" rule: rev_cases) (auto split: if_splits)
    have IH: "fst (pop_cells s') = takeWhile (\<lambda>c. c \<noteq> 0) (rev xs)"
      "stack_list (snd (pop_cells s')) = rev (drop 1 (dropWhile (\<lambda>c. c \<noteq> 0) (rev xs)))"
      using 1 [OF pop [symmetric] refl False] xs(2) by auto
    show ?thesis
      using False IH xs by (simp add: pop_cells.simps [of s] pop split_beta)
  qed
qed

lemma length_pop_cells: "length (fst (pop_cells s)) \<le> stk_top s"
  using length_takeWhile_le [of "\<lambda>c. c \<noteq> 0" "rev (stack_list s)"]
  by (simp add: pop_cells_list)

lemma stack_strlen_loop_list:
  "n \<le> stk_top s \<Longrightarrow> stack_strlen_loop s n =
     (stk_top s - n) + length (takeWhile (\<lambda>c. c \<noteq> 0) (rev (take n (stack_list s))))"
proof (induction n)
  case (Suc n)
  then have "take (Suc n) (stack_list s) = take n (stack_list s) @ [stk_entries s n]"
    by (simp add: take_Suc_conv_app_nth nth_stack_list)
  then show ?case using Suc by auto
qed simp

lemma stack_strlen_list [stack_simps]:
  "stack_strlen s = length (takeWhile (\<lambda>c. c \<noteq> 0) (rev (stack_list s)))"
  using stack_strlen_loop_list [of "stk_top s" s] by (simp add: stack_strlen_def)

section \<open>The interface the interpreter relies on\<close>

text \<open>
  Every instruction sees a stack through \<open>push\<close> and \<open>pop\<close> only. The laws: a push adds one
  cell on top, a pop removes the top cell or, on an empty stack, answers 0. The client
  lemmas say what the instruction patterns of the interpreter (pop two, push one; move
  cells between two stacks) do to the content.
\<close>

locale cell_stack =
  fixes push :: "'s \<Rightarrow> cell \<Rightarrow> 's"
    and pop :: "'s \<Rightarrow> cell \<times> 's"
    and content :: "'s \<Rightarrow> cell list"
    and wf :: "'s \<Rightarrow> bool"
  assumes content_push: "content (push s v) = content s @ [v]"
    and pop_value: "fst (pop s) = from_top (content s) 0"
    and content_pop: "content (snd (pop s)) = drop_top 1 (content s)"
    and wf_pop: "wf s \<Longrightarrow> wf (snd (pop s))"
begin

lemma pop_push: "fst (pop (push s v)) = v \<and> content (snd (pop (push s v))) = content s"
  by (simp add: pop_value content_pop content_push)

lemma pop_empty: "content s = [] \<Longrightarrow> fst (pop s) = 0 \<and> content (snd (pop s)) = []"
  by (simp add: pop_value content_pop)

lemma binary:
  assumes "pop s = (b, s1)" "pop s1 = (a, s2)"
  shows "content (push s2 (f a b)) =
           drop_top 2 (content s) @ [f (from_top (content s) 1) (from_top (content s) 0)]"
proof -
  have "b = from_top (content s) 0" "content s1 = drop_top 1 (content s)"
    using pop_value [of s] content_pop [of s] assms(1) by auto
  moreover have "a = from_top (content s1) 0" "content s2 = drop_top 1 (content s1)"
    using pop_value [of s1] content_pop [of s1] assms(2) by auto
  ultimately show ?thesis
    by (simp add: content_push numeral_2_eq_2)
qed

text \<open>Moving cells one at a time from one stack onto another reverses their order.\<close>

lemma move_cells:
  "content (fst (((\<lambda>(t, s). (push t (fst (pop s)), snd (pop s))) ^^ n) (t, s))) =
     content t @ map (from_top (content s)) [0..<n] \<and>
   content (snd (((\<lambda>(t, s). (push t (fst (pop s)), snd (pop s))) ^^ n) (t, s))) =
     drop_top n (content s)"
proof (induction n)
  case (Suc n)
  then show ?case
    by (auto simp: split_beta content_push pop_value content_pop)
qed simp

end

lemma stack_ok_pop: "stack_ok s \<Longrightarrow> stack_ok (snd (stack_pop s))"
  by (auto simp: stack_ok_def stack_pop_def)

interpretation cs: cell_stack stack_push stack_pop stack_list stack_ok
  by unfold_locales (auto simp: stack_simps stack_ok_pop)

section \<open>Bulk operations\<close>

lemma stack_list_zero_fill [stack_simps]:
  "stack_list (stack_zero_fill s n) = stack_list s @ replicate n 0"
  by (rule nth_equalityI)
    (auto simp: stack_zero_fill_def stack_list_def Let_def nth_append simp del: upt_Suc)

lemma stk_zero_fill [simp]:
  "stk_top (stack_zero_fill s n) = stk_top s + n"
  by (simp add: stack_zero_fill_def Let_def)

lemma stack_list_copy:
  assumes "n \<le> stk_top src"
  shows "stack_list (d\<lparr>stk_entries :=
             (\<lambda>i. if stk_top d \<le> i \<and> i < stk_top d + n
                  then stk_entries src (stk_top src - n + (i - stk_top d)) else stk_entries d i),
           stk_top := stk_top d + n\<rparr>) =
         stack_list d @ drop (stk_top src - n) (stack_list src)"
proof (rule nth_equalityI)
  fix i
  assume "i < length (stack_list (d\<lparr>stk_entries :=
             (\<lambda>i. if stk_top d \<le> i \<and> i < stk_top d + n
                  then stk_entries src (stk_top src - n + (i - stk_top d)) else stk_entries d i),
           stk_top := stk_top d + n\<rparr>))"
  then show "stack_list (d\<lparr>stk_entries :=
             (\<lambda>i. if stk_top d \<le> i \<and> i < stk_top d + n
                  then stk_entries src (stk_top src - n + (i - stk_top d)) else stk_entries d i),
           stk_top := stk_top d + n\<rparr>) ! i =
      (stack_list d @ drop (stk_top src - n) (stack_list src)) ! i"
    using assms by (auto simp: stack_list_def nth_append simp del: upt_Suc)
qed (use assms in simp)

lemma stack_list_bulk_copy [stack_simps]:
  "stack_list (stack_bulk_copy dest src n) =
     stack_list dest @ replicate (n - stk_top src) 0 @ drop (stk_top src - n) (stack_list src)"
proof (cases "stk_top src < n")
  case True
  let ?d = "stack_zero_fill (stack_prealloc_space dest n) (n - stk_top src)"
  have "stack_bulk_copy dest src n = ?d\<lparr>stk_entries :=
             (\<lambda>i. if stk_top ?d \<le> i \<and> i < stk_top ?d + stk_top src
                  then stk_entries src (stk_top src - stk_top src + (i - stk_top ?d))
                  else stk_entries ?d i),
           stk_top := stk_top ?d + stk_top src\<rparr>"
    using True by (simp add: stack_bulk_copy_def Let_def)
  then show ?thesis
    using True stack_list_copy [of "stk_top src" src ?d] by (simp add: stack_simps)
next
  case False
  then show ?thesis
    using stack_list_copy [of n src "stack_prealloc_space dest n"]
    by (simp add: stack_bulk_copy_def Let_def stack_simps)
qed

lemma stack_list_dup_top [stack_simps]:
  "stack_list (stack_dup_top s) =
     (if stack_list s = [] then [0, 0] else stack_list s @ [from_top (stack_list s) 0])"
  by (auto simp: stack_dup_top_def Let_def stack_simps stack_list_eq_Nil from_top_def)

lemma stack_list_swap_top [stack_simps]:
  "stack_list (stack_swap_top s) =
     drop_top 2 (stack_list s) @ [from_top (stack_list s) 0, from_top (stack_list s) 1]"
  by (auto simp: stack_swap_top_def Let_def split_beta stack_simps numeral_2_eq_2)


section \<open>Memory safety\<close>

text \<open>No cell beyond the array was written.\<close>

definition writes_within :: "funge_stack \<Rightarrow> funge_stack \<Rightarrow> bool" where
  "writes_within s s' \<longleftrightarrow> (\<forall>i\<ge>stk_size s'. stk_entries s' i = stk_entries s i)"

lemma prealloc_newsize_bounds:
  assumes "stack_ok s" "minfree \<le> 2 ^ 63 + 2"
  shows "stk_size s + minfree < prealloc_newsize s minfree \<and>
         prealloc_newsize s minfree \<le> stk_size s + minfree + 4096"
proof -
  have "stk_size s < 2 ^ 61" using assms(1) by (simp add: stack_ok_def sizeof_funge_cell_def)
  with assms(2) show ?thesis
    by (simp add: prealloc_newsize_def size_t_def ALLOCSIZE_STACK_def Let_def)
qed

lemma prealloc_needed_iff:
  assumes "stack_ok s" "minfree \<le> 2 ^ 63 + 2"
  shows "prealloc_needed s minfree \<longleftrightarrow> stk_size s \<le> stk_top s + minfree"
  using assms by (simp add: prealloc_needed_def size_t_def stack_ok_def sizeof_funge_cell_def)

text \<open>The overflow guard, with a sane allocator behind it, admits only sizes that do not wrap.\<close>

lemma prealloc_guard:
  assumes "stack_ok s" "minfree \<le> 2 ^ 63 + 2" "sane_allocator al"
    and "\<not> size_t (prealloc_newsize s minfree * sizeof_funge_cell) < prealloc_newsize s minfree"
    and "al (size_t (prealloc_newsize s minfree * sizeof_funge_cell))"
  shows "prealloc_newsize s minfree * sizeof_funge_cell < 2 ^ 61"
proof -
  let ?n = "prealloc_newsize s minfree"
  have granted: "size_t (?n * sizeof_funge_cell) < 2 ^ 61"
    using assms(3,5) by (simp add: sane_allocator_def)
  with assms(4) have "?n < 2 ^ 61" by simp
  then have "size_t (?n * sizeof_funge_cell) = ?n * sizeof_funge_cell"
    by (simp add: size_t_def sizeof_funge_cell_def)
  with granted show ?thesis by simp
qed

lemma stack_prealloc_safe:
  assumes "stack_ok s" "minfree \<le> 2 ^ 63 + 2" "sane_allocator al"
    and "\<not> stack_prealloc_oom al s minfree"
  shows "stack_ok (stack_prealloc_space s minfree) \<and>
         stk_top s + minfree < stk_size (stack_prealloc_space s minfree)"
proof (cases "prealloc_needed s minfree")
  case True
  then have "prealloc_newsize s minfree * sizeof_funge_cell < 2 ^ 61"
    using assms by (intro prealloc_guard [where al = al]) (auto simp: stack_prealloc_oom_def Let_def)
  with True assms(1) prealloc_newsize_bounds [OF assms(1,2)] show ?thesis
    by (auto simp: stack_prealloc_space_def stack_ok_def)
next
  case False
  with assms(1) prealloc_needed_iff [OF assms(1,2)] show ?thesis
    by (simp add: stack_prealloc_space_def)
qed

lemma stack_push_safe:
  assumes "stack_ok s" "sane_allocator al" "\<not> stack_push_oom al s"
  shows "stack_ok (stack_push s v) \<and> writes_within s (stack_push s v)"
proof (cases "stk_top s = stk_size s")
  case True
  then have "size_t ((stk_size s + ALLOCSIZE_STACK) * sizeof_funge_cell) < 2 ^ 61"
    using assms(2,3) by (auto simp: stack_push_oom_def sane_allocator_def)
  moreover have "size_t ((stk_size s + ALLOCSIZE_STACK) * sizeof_funge_cell) =
      (stk_size s + ALLOCSIZE_STACK) * sizeof_funge_cell"
    using assms(1) by (simp add: size_t_def stack_ok_def sizeof_funge_cell_def ALLOCSIZE_STACK_def)
  ultimately show ?thesis
    using True by (auto simp: stack_push_cases stack_ok_def writes_within_def ALLOCSIZE_STACK_def)
next
  case False
  with assms(1) show ?thesis
    by (auto simp: stack_push_cases stack_ok_def writes_within_def)
qed

lemma stack_ok_same_size:
  "stack_ok s \<Longrightarrow> stk_size t = stk_size s \<Longrightarrow> stk_top t \<le> stk_size s \<Longrightarrow> stack_ok t"
  by (simp add: stack_ok_def)

lemma stack_zero_fill_safe:
  assumes "stack_ok s" "n \<le> 2 ^ 63 + 2" "sane_allocator al" "\<not> stack_prealloc_oom al s n"
  shows "stack_ok (stack_zero_fill s n) \<and> writes_within s (stack_zero_fill s n)"
  using stack_prealloc_safe [OF assms]
  by (auto simp: stack_zero_fill_def Let_def stack_ok_def writes_within_def)

lemma stack_push_string_safe:
  assumes "stack_ok s" "len < 2 ^ 63" "sane_allocator al"
    and "\<not> stack_prealloc_oom al s (len + 1)"
  shows "stack_ok (stack_push_string s str len) \<and> writes_within s (stack_push_string s str len)"
proof -
  have safe: "stack_ok (stack_prealloc_space s (len + 1))"
    "stk_top s + (len + 1) < stk_size (stack_prealloc_space s (len + 1))"
    using stack_prealloc_safe [of s "len + 1" al] assms by auto
  have "push_cells_down f len (stk_top s + len) e i = e i"
    if "stk_top s + len < i" for f e i
    unfolding push_cells_down_def using that by (intro fold_upd_outside) auto
  with safe show ?thesis
    by (auto simp: stack_push_string_def Let_def stack_ok_def writes_within_def)
qed

lemma stack_prealloc_newsize_le: "stk_size s \<le> stk_size (stack_prealloc_space s n)"
  if "stack_ok s" "n \<le> 2 ^ 63 + 2"
  using prealloc_newsize_bounds [OF that] by (simp add: stack_prealloc_space_def)

text \<open>
  C8: a write never leaves the array. Starting from a well-formed stack, whenever \<open>stack_push\<close>,
  the zero fill or the string push returns (the allocator did not make it end the process),
  the stack it leaves is well formed and only cells inside its array were changed; and the
  non-fatal preallocation answers \<open>true\<close> only with room for the cells asked for, even though
  its overflow guard does not catch every wrapped size.
\<close>

theorem stack_memory_safe:
  assumes "stack_ok s" and "sane_allocator al" and "n < 2 ^ 63"
  shows "(stack_push_oom al s \<or>
            stack_ok (stack_push s v) \<and> writes_within s (stack_push s v)) \<and>
         (stack_prealloc_oom al s n \<or>
            stack_ok (stack_zero_fill s n) \<and> writes_within s (stack_zero_fill s n)) \<and>
         (stack_prealloc_oom al s (n + 1) \<or>
            stack_ok (stack_push_string s str n) \<and> writes_within s (stack_push_string s str n)) \<and>
         (case stack_prealloc_space_non_fatal al s (n + 2) of (okay, s') \<Rightarrow>
            stack_ok s' \<and> stack_list s' = stack_list s \<and>
            (if okay then stk_top s' + (n + 2) < stk_size s' else s' = s))"
proof -
  have "case stack_prealloc_space_non_fatal al s (n + 2) of (okay, s') \<Rightarrow>
            stack_ok s' \<and> stack_list s' = stack_list s \<and>
            (if okay then stk_top s' + (n + 2) < stk_size s' else s' = s)"
  proof (cases "stack_prealloc_oom al s (n + 2)")
    case True
    then show ?thesis using assms(1)
      by (auto simp: stack_prealloc_oom_def stack_prealloc_space_non_fatal_def Let_def)
  next
    case False
    then have "stack_prealloc_space_non_fatal al s (n + 2) = (True, stack_prealloc_space s (n + 2))"
      by (auto simp: stack_prealloc_oom_def stack_prealloc_space_non_fatal_def
          stack_prealloc_space_def Let_def)
    then show ?thesis
      using stack_prealloc_safe [of s "n + 2" al] assms False by (auto simp: stack_simps)
  qed
  then show ?thesis
    using stack_push_safe [of s al v] stack_zero_fill_safe [of s n al]
      stack_push_string_safe [of s n al str] assms by auto
qed

theorem stack_memory_safe_witness:
  "stack_ok (stack_push empty_stack 7) \<and>
   fst (stack_prealloc_space_non_fatal (\<lambda>n. n < 1000000) empty_stack (5000 + 2))"
proof -
  have okay: "stack_ok empty_stack"
    by (simp add: stack_ok_def empty_stack_def ALLOCSIZE_STACK_def sizeof_funge_cell_def)
  have sane: "sane_allocator (\<lambda>n. n < 1000000)"
    by (simp add: sane_allocator_def)
  have "\<not> stack_push_oom (\<lambda>n. n < 1000000) empty_stack"
    by (simp add: stack_push_oom_def empty_stack_def ALLOCSIZE_STACK_def)
  with stack_memory_safe [OF okay sane, of 5000 7 "[]"]
  have "stack_ok (stack_push empty_stack 7)" by simp
  then show ?thesis
    by (simp add: stack_prealloc_space_non_fatal_def prealloc_needed_def prealloc_newsize_def
        size_t_def empty_stack_def ALLOCSIZE_STACK_def sizeof_funge_cell_def)
qed

section \<open>Properties\<close>

text \<open>
  C9: the array stack implements a list of cells with endless zeros below it: what each
  operation returns and leaves, on every stack, empty and short ones included, is what the
  list operation says. In particular a pop or peek of an empty stack gives 0 and leaves it
  empty, duplicating the top of an empty stack leaves two zeros, swapping the top of a
  one-element stack brings a zero to the top, and copying more cells than the source holds
  puts zeros below the copy.
\<close>

theorem stack_refines_list:
  "stack_list (stack_push s v) = stack_list s @ [v] \<and>
   fst (stack_pop s) = from_top (stack_list s) 0 \<and>
   stack_list (snd (stack_pop s)) = drop_top 1 (stack_list s) \<and>
   stack_peek s = from_top (stack_list s) 0 \<and>
   stack_get_index s (Suc i) = (if i < length (stack_list s) then stack_list s ! i else 0) \<and>
   stack_list (stack_discard s n) = drop_top n (stack_list s) \<and>
   stack_list (stack_clear s) = [] \<and>
   stack_strlen s = length (takeWhile (\<lambda>c. c \<noteq> 0) (rev (stack_list s))) \<and>
   stack_list (stack_dup_top s) =
     (if stack_list s = [] then [0, 0] else stack_list s @ [from_top (stack_list s) 0]) \<and>
   stack_list (stack_swap_top s) =
     drop_top 2 (stack_list s) @ [from_top (stack_list s) 0, from_top (stack_list s) 1] \<and>
   stack_list (stack_zero_fill s n) = stack_list s @ replicate n 0 \<and>
   stack_list (stack_bulk_copy s t n) =
     stack_list s @ replicate (n - length (stack_list t)) 0 @
     drop (length (stack_list t) - n) (stack_list t)"
  by (simp add: stack_simps Suc_le_eq)

lemma ucast_byte_cell: "(ucast (ucast b :: cell) :: byte) = b"
  by (rule bit_word_eqI) (simp add: bit_simps)

lemma ucast_byte_cell_eq_0: "(ucast b :: cell) = 0 \<longleftrightarrow> b = (0 :: byte)"
  using ucast_byte_cell [of b] by (metis unsigned_0)

text \<open>
  a byte string without embedded terminators that is pushed as a 0"gnirts" comes back
  byte for byte, terminator included, when it is popped, and the stack below it is as
  before; the buffer the pop allocates is never overrun, whatever is on the stack.
\<close>

theorem stack_string_roundtrip:
  assumes "0 \<notin> set str"
    and "al (stk_top (stack_push_string s (str @ [0]) (length str)) + 1)"
  shows "\<exists>s'. stack_pop_string al (stack_push_string s (str @ [0]) (length str)) =
             (Some (str @ [0]), s') \<and> stack_list s' = stack_list s \<and>
             length (fst (pop_cells t)) + 1 \<le> stk_top t + 1"
proof -
  let ?p = "stack_push_string s (str @ [0]) (length str)"
  have list: "stack_list ?p = stack_list s @ 0 # rev (map ucast str)"
    by (simp add: stack_list_push_string rev_map)
  have nz: "\<forall>c\<in>set (map ucast str :: cell list). c \<noteq> 0"
    using assms(1) by (auto simp: ucast_byte_cell_eq_0)
  have "fst (pop_cells ?p) = map ucast str" "stack_list (snd (pop_cells ?p)) = stack_list s"
    using takeWhile_prefix [OF nz, of 0 "rev (stack_list s)"]
      dropWhile_prefix [OF nz, of 0 "rev (stack_list s)"]
    by (simp_all add: pop_cells_list list rev_map)
  moreover have "map ucast (map ucast str :: cell list) = str"
    by (simp add: ucast_byte_cell comp_def)
  ultimately show ?thesis
    using assms(2) length_pop_cells [of t]
    by (cases "pop_cells ?p") (simp add: stack_pop_string_def)
qed

theorem stack_string_roundtrip_witness:
  "\<exists>s'. stack_pop_string (\<lambda>n. n < 100) (stack_push_string empty_stack [72, 105, 0] 2) =
     (Some [72, 105, 0], s') \<and> stack_list s' = []"
proof -
  have nz: "0 \<notin> set [72, 105 :: byte]" by simp
  have room: "stk_top (stack_push_string empty_stack ([72, 105] @ [0]) (length [72, 105 :: byte])) + 1 < 100"
    by (simp add: stack_push_string_def empty_stack_def Let_def)
  have two: "length [72, 105 :: byte] = 2" by simp
  from stack_string_roundtrip [of _ "\<lambda>n. n < 100", OF nz room, of empty_stack, unfolded two]
  show ?thesis by (auto simp: stack_simps)
qed

end
