(* ===== verification/Ip.thy ===== *)
theory Ip
  imports Stack
begin

text \<open>
  The instruction pointer of \<^verbatim>\<open>src/ip.h\<close> and the stack-stack it owns
  (\<^verbatim>\<open>src/stack.c\<close>, \<^verbatim>\<open>src/stack.h\<close>), with the opcode stacks of
  \<^verbatim>\<open>src/fingerprints/manager.h\<close> that it carries.

  Pointers: the field \<open>ip->stack\<close> of the code always aliases
  \<open>ip->stackstack->stacks[ip->stackstack->current]\<close>; here it is the derived
  \<open>ip_stack\<close>, and writing through it is \<open>ip_stack_update\<close>.
\<close>

section \<open>Names of the fingerprint instructions\<close>

text \<open>
  A \<open>fingerprintOpcode\<close> of the code is a pointer to the C function of an instruction; here
  it is that function's name. The instructions of a fingerprint that is not modelled are
  \<open>Fp_other\<close> with the fingerprint's and the function's name.
\<close>

datatype BOOL_op = BOOL_and | BOOL_not | BOOL_or | BOOL_xor

datatype ROMA_op = ROMA_pushC | ROMA_pushD | ROMA_pushI | ROMA_pushL | ROMA_pushM
  | ROMA_pushV | ROMA_pushX

datatype MODU_op = MODU_signed_result | MODU_unsigned_result | MODU_remainder

datatype FING_op = FING_swap | FING_drop | FING_push

datatype FRTH_op = FRTH_stack_size | FRTH_forth_roll | FRTH_forth_over | FRTH_forth_pick
  | FRTH_forth_rot

datatype ORTH_op = ORTH_bit_and | ORTH_bit_or | ORTH_bit_xor | ORTH_get | ORTH_put
  | ORTH_output_string | ORTH_change_dx | ORTH_change_dy | ORTH_change_x | ORTH_change_y
  | ORTH_ramp_if_zero

datatype REFC_op = REFC_reference | REFC_dereference

datatype INDV_op = INDV_get_num | INDV_put_num | INDV_get_vec | INDV_put_vec

datatype JSTR_op = JSTR_push_n | JSTR_pop_n

datatype SUBR_op = SUBR_absolute | SUBR_call | SUBR_jump | SUBR_relative | SUBR_return

datatype fingerprintOpcode =
    Fp_reflect
  | Fp_NULL_reverse
  | Fp_BOOL BOOL_op
  | Fp_ROMA ROMA_op
  | Fp_MODU MODU_op
  | Fp_FING FING_op
  | Fp_FRTH FRTH_op
  | Fp_ORTH ORTH_op
  | Fp_REFC REFC_op
  | Fp_INDV INDV_op
  | Fp_JSTR JSTR_op
  | Fp_SUBR SUBR_op
  | Fp_other string string

section \<open>Data\<close>

text \<open>An entry of an opcode stack may be the null pointer.\<close>

record fungeOpcodeStack =
  ops_size :: nat
  ops_top :: nat
  ops_entries :: "nat \<Rightarrow> fingerprintOpcode option"

definition empty_opcode_stack :: fungeOpcodeStack where
  "empty_opcode_stack = \<lparr>ops_size = 0, ops_top = 0, ops_entries = (\<lambda>_. None)\<rparr>"

definition ALLOCSIZE_STACKSTACK :: nat where
  "ALLOCSIZE_STACKSTACK = 32"

definition sizeof_funge_stackstack :: nat where
  "sizeof_funge_stackstack = 16"

definition sizeof_pointer :: nat where
  "sizeof_pointer = 8"

record funge_stackstack =
  ss_size :: nat
  ss_current :: nat
  ss_stacks :: "nat \<Rightarrow> funge_stack"

datatype ipMode = IpmCODE | IpmSTRING

definition FINGEROPCODECOUNT :: nat where
  "FINGEROPCODECOUNT = 26"

record instructionPointer =
  ip_position :: funge_vector
  ip_delta :: funge_vector
  ip_storageOffset :: funge_vector
  ip_mode :: ipMode
  ip_needMove :: bool
  ip_stringLastWasSpace :: bool
  ip_fingerSUBRisRelative :: bool
  ip_ID :: cell
  ip_stackstack :: funge_stackstack
  ip_fingerOpcodes :: "nat \<Rightarrow> fungeOpcodeStack"
  ip_fingerHRTItimestamp :: "(cell \<times> cell) option"

definition ip_stack :: "instructionPointer \<Rightarrow> funge_stack" where
  "ip_stack ip = ss_stacks (ip_stackstack ip) (ss_current (ip_stackstack ip))"

definition ss_set_stack :: "funge_stackstack \<Rightarrow> nat \<Rightarrow> funge_stack \<Rightarrow> funge_stackstack" where
  "ss_set_stack ss i s = ss\<lparr>ss_stacks := (ss_stacks ss)(i := s)\<rparr>"

definition ip_set_stack :: "funge_stack \<Rightarrow> instructionPointer \<Rightarrow> instructionPointer" where
  "ip_set_stack s ip =
     ip\<lparr>ip_stackstack := ss_set_stack (ip_stackstack ip) (ss_current (ip_stackstack ip)) s\<rparr>"

section \<open>Direction\<close>

definition ip_reverse :: "instructionPointer \<Rightarrow> instructionPointer" where
  "ip_reverse ip = ip\<lparr>ip_delta := vector (vec_x (ip_delta ip) * - 1) (vec_y (ip_delta ip) * - 1)\<rparr>"

definition ip_turn_left :: "instructionPointer \<Rightarrow> instructionPointer" where
  "ip_turn_left ip = ip\<lparr>ip_delta := vector (vec_y (ip_delta ip)) (- vec_x (ip_delta ip))\<rparr>"

definition ip_turn_right :: "instructionPointer \<Rightarrow> instructionPointer" where
  "ip_turn_right ip = ip\<lparr>ip_delta := vector (- vec_y (ip_delta ip)) (vec_x (ip_delta ip))\<rparr>"

definition ip_go_west :: "instructionPointer \<Rightarrow> instructionPointer" where
  "ip_go_west ip = ip\<lparr>ip_delta := vector (- 1) 0\<rparr>"

definition ip_go_east :: "instructionPointer \<Rightarrow> instructionPointer" where
  "ip_go_east ip = ip\<lparr>ip_delta := vector 1 0\<rparr>"

definition ip_go_north :: "instructionPointer \<Rightarrow> instructionPointer" where
  "ip_go_north ip = ip\<lparr>ip_delta := vector 0 (- 1)\<rparr>"

definition ip_go_south :: "instructionPointer \<Rightarrow> instructionPointer" where
  "ip_go_south ip = ip\<lparr>ip_delta := vector 0 1\<rparr>"

definition ip_forward_no_wrap :: "instructionPointer \<Rightarrow> instructionPointer" where
  "ip_forward_no_wrap ip = ip\<lparr>ip_position := vector_add (ip_position ip) (ip_delta ip)\<rparr>"

definition ip_backward_no_wrap :: "instructionPointer \<Rightarrow> instructionPointer" where
  "ip_backward_no_wrap ip = ip\<lparr>ip_position := vector_sub (ip_position ip) (ip_delta ip)\<rparr>"

text \<open>
  The direction macros form the expected algebra: turning left and right are inverse to
  each other, two turns the same way are a reflection, a reflection undoes itself, and no
  direction change touches anything but the delta; a step backwards undoes a step forwards
  before any wrapping.
\<close>

theorem ip_direction_algebra:
  "ip_turn_right (ip_turn_left ip) = ip \<and> ip_turn_left (ip_turn_right ip) = ip \<and>
   ip_turn_left (ip_turn_left ip) = ip_reverse ip \<and>
   ip_turn_right (ip_turn_right ip) = ip_reverse ip \<and>
   ip_reverse (ip_reverse ip) = ip \<and>
   ip_turn_left (ip_go_east ip) = ip_go_north ip \<and>
   ip_turn_right (ip_go_east ip) = ip_go_south ip \<and>
   ip_backward_no_wrap (ip_forward_no_wrap ip) = ip"
  by (simp add: ip_turn_left_def ip_turn_right_def ip_reverse_def ip_go_east_def
      ip_go_north_def ip_go_south_def ip_backward_no_wrap_def ip_forward_no_wrap_def)

section \<open>The stack-stack\<close>

definition stackstack_create :: "allocator \<Rightarrow> funge_stackstack option" where
  "stackstack_create al =
     (if \<not> al (sizeof_funge_stackstack + sizeof_pointer * ALLOCSIZE_STACKSTACK) then None
      else (case stack_create al of
              None \<Rightarrow> None
            | Some stack \<Rightarrow> Some \<lparr>ss_size = ALLOCSIZE_STACKSTACK, ss_current = 0,
                                ss_stacks = (\<lambda>_. stack)\<rparr>))"

text \<open>All stacks up to the current one are duplicated; one failure fails the whole.\<close>

definition stackstack_duplicate :: "allocator \<Rightarrow> funge_stackstack \<Rightarrow> funge_stackstack option" where
  "stackstack_duplicate al old =
     (if \<not> al (size_t (sizeof_funge_stackstack + ss_size old * sizeof_pointer)) then None
      else if \<exists>i\<in>set [0..<Suc (ss_current old)]. stack_duplicate al (ss_stacks old i) = None
      then None
      else Some \<lparr>ss_size = ss_size old, ss_current = ss_current old,
                 ss_stacks = (\<lambda>i. if i \<le> ss_current old
                                  then the (stack_duplicate al (ss_stacks old i))
                                  else ss_stacks old i)\<rparr>)"

definition stackstack_begin ::
    "allocator \<Rightarrow> instructionPointer \<Rightarrow> cell \<Rightarrow> funge_vector \<Rightarrow> bool \<times> instructionPointer" where
  "stackstack_begin al ip count storageOffset =
     (case stack_create al of
        None \<Rightarrow> (False, ip)
      | Some TOSS \<Rightarrow>
        (case stack_prealloc_space_non_fatal al TOSS (unat (ABS count + 2)) of
           (False, _) \<Rightarrow> (False, ip)
         | (True, TOSS) \<Rightarrow>
           let ss = ip_stackstack ip in
           if ss_size ss - 1 = ss_current ss \<and>
              \<not> al (size_t (sizeof_funge_stackstack +
                            (ss_size ss + ALLOCSIZE_STACKSTACK) * sizeof_pointer))
           then (False, ip)
           else
             let ss = (if ss_size ss - 1 = ss_current ss
                       then ss\<lparr>ss_size := ss_size ss + ALLOCSIZE_STACKSTACK\<rparr> else ss);
                 SOSS = ss_stacks ss (ss_current ss);
                 (TOSS, SOSS) =
                   (if 0 <s count then
                      (stack_bulk_copy TOSS SOSS (unat count),
                       if stk_top SOSS < unat count then SOSS\<lparr>stk_top := 0\<rparr>
                       else SOSS\<lparr>stk_top := stk_top SOSS - unat count\<rparr>)
                    else if count <s 0 then (TOSS, stack_zero_fill SOSS (unat (- count)))
                    else (TOSS, SOSS));
                 SOSS = stack_push_vector SOSS (ip_storageOffset ip);
                 cur = ss_current ss;
                 ss = ss\<lparr>ss_current := cur + 1,
                         ss_stacks := (ss_stacks ss)(cur := SOSS, cur + 1 := TOSS)\<rparr>
             in (True, ip\<lparr>ip_storageOffset := storageOffset, ip_stackstack := ss\<rparr>)))"

text \<open>The caller has checked that there is a second stack.\<close>

definition stackstack_end :: "instructionPointer \<Rightarrow> cell \<Rightarrow> bool \<times> instructionPointer" where
  "stackstack_end ip count =
     (let ss = ip_stackstack ip;
          TOSS = ss_stacks ss (ss_current ss);
          SOSS = ss_stacks ss (ss_current ss - 1);
          (storageOffset, SOSS) = stack_pop_vector SOSS;
          SOSS = (if 0 <s count then stack_bulk_copy SOSS TOSS (unat count)
                  else if count <s 0 then stack_discard SOSS (unat (- count))
                  else SOSS);
          ss = ss\<lparr>ss_stacks := (ss_stacks ss)(ss_current ss - 1 := SOSS),
                  ss_current := ss_current ss - 1\<rparr>
      in (True, ip\<lparr>ip_storageOffset := storageOffset, ip_stackstack := ss\<rparr>))"

text \<open>The two loops of \<open>stackstack_transfer\<close>: move cells one by one from the second to the first.\<close>

fun transfer_cells :: "nat \<Rightarrow> funge_stack \<Rightarrow> funge_stack \<Rightarrow> funge_stack \<times> funge_stack" where
  "transfer_cells 0 dst src = (dst, src)"
| "transfer_cells (Suc n) dst src =
     (let (c, src) = stack_pop src in transfer_cells n (stack_push dst c) src)"

definition stackstack_transfer ::
    "cell \<Rightarrow> funge_stack \<Rightarrow> funge_stack \<Rightarrow> funge_stack \<times> funge_stack" where
  "stackstack_transfer count TOSS SOSS =
     (if 0 <s count then transfer_cells (unat count) TOSS SOSS
      else if count <s 0 then
        (let (SOSS, TOSS) = transfer_cells (unat (- count)) SOSS TOSS in (TOSS, SOSS))
      else (TOSS, SOSS))"

section \<open>The stack-stack as a list of contents\<close>

definition ss_lists :: "funge_stackstack \<Rightarrow> cell list list" where
  "ss_lists ss = map (\<lambda>i. stack_list (ss_stacks ss i)) [0..<Suc (ss_current ss)]"

definition ss_below :: "funge_stackstack \<Rightarrow> cell list list" where
  "ss_below ss = map (\<lambda>i. stack_list (ss_stacks ss i)) [0..<ss_current ss]"

lemma ss_lists_below: "ss_lists ss = ss_below ss @ [stack_list (ss_stacks ss (ss_current ss))]"
  by (simp add: ss_lists_def ss_below_def)

lemma map_stacks_upd:
  "n \<le> c \<Longrightarrow> map (\<lambda>i. stack_list ((f(c := s)) i)) [0..<n] = map (\<lambda>i. stack_list (f i)) [0..<n]"
  by (rule map_upt_cong) simp

lemma ss_lists_set_current:
  "ss_lists (ss_set_stack ss (ss_current ss) s) = ss_below ss @ [stack_list s]"
  by (simp add: ss_lists_def ss_below_def ss_set_stack_def map_stacks_upd)

lemma stack_push_vector_list [stack_simps]:
  "stack_list (stack_push_vector s v) = stack_list s @ [vec_x v, vec_y v]"
  by (simp add: stack_push_vector_def stack_simps)

lemma stack_pop_vector_fst [stack_simps]:
  "fst (stack_pop_vector s) = vector (from_top (stack_list s) 1) (from_top (stack_list s) 0)"
  by (simp add: stack_pop_vector_def split_beta stack_simps)

lemma stack_list_pop_vector [stack_simps]:
  "stack_list (snd (stack_pop_vector s)) = drop_top 2 (stack_list s)"
  by (simp add: stack_pop_vector_def split_beta stack_simps numeral_2_eq_2)

lemma non_fatal_list:
  "stack_prealloc_space_non_fatal al s n = (b, t) \<Longrightarrow> stack_list t = stack_list s"
  by (auto simp: stack_prealloc_space_non_fatal_def Let_def split: if_splits)

lemma stack_discard_as_top:
  "(if stk_top s < n then s\<lparr>stk_top := 0\<rparr> else s\<lparr>stk_top := stk_top s - n\<rparr>) = stack_discard s n"
  by (cases "n < stk_top s") (auto simp: stack_discard_def)

text \<open>What a begun block finds on its own stack, and what is left on the one below.\<close>

definition begin_toss :: "cell \<Rightarrow> cell list \<Rightarrow> cell list" where
  "begin_toss count soss =
     (if 0 <s count then replicate (unat count - length soss) 0 @ drop (length soss - unat count) soss
      else [])"

definition begin_soss :: "cell \<Rightarrow> funge_vector \<Rightarrow> cell list \<Rightarrow> cell list" where
  "begin_soss count offset soss =
     (if 0 <s count then drop_top (unat count) soss
      else soss @ replicate (unat (- count)) 0) @ [vec_x offset, vec_y offset]"

lemma not_sless_0: "\<not> 0 <s count \<Longrightarrow> \<not> count <s 0 \<Longrightarrow> count = (0 :: cell)"
  by (simp add: cell_less_iff cell_eq_iff)

lemma stackstack_begin_lists:
  "case stackstack_begin al ip count offset of (okay, ip') \<Rightarrow>
     if okay then
       ss_lists (ip_stackstack ip') =
         ss_below (ip_stackstack ip) @
         [begin_soss count (ip_storageOffset ip) (stack_list (ip_stack ip)),
          begin_toss count (stack_list (ip_stack ip))] \<and>
       ip_storageOffset ip' = offset \<and>
       ip'\<lparr>ip_storageOffset := ip_storageOffset ip, ip_stackstack := ip_stackstack ip\<rparr> = ip
     else ip' = ip"
proof (cases "fst (stackstack_begin al ip count offset)")
  case False
  then show ?thesis
    by (auto simp: stackstack_begin_def Let_def split_beta split: option.splits prod.splits bool.splits if_splits)
next
  case True
  then obtain TOSS t2 where create: "stack_create al = Some TOSS"
    and space: "stack_prealloc_space_non_fatal al TOSS (unat (ABS count + 2)) = (True, t2)"
    by (auto simp: stackstack_begin_def split: option.splits prod.splits bool.splits)
  have "stack_list t2 = []"
    using non_fatal_list [OF space] stack_list_create [OF create] by (simp add: stack_simps)
  with True create space show ?thesis
    by (auto simp: stackstack_begin_def Let_def split_beta ss_lists_def ss_below_def ip_stack_def
        begin_toss_def begin_soss_def stack_simps stack_discard_as_top map_stacks_upd
        split: if_splits dest: not_sless_0)
qed

text \<open>
  \<open>stackstack_begin\<close> either fails and leaves the instruction pointer untouched, or pushes a
  new stack: a positive count moves that many cells, in order, from the stack below, padded
  with zeros at the bottom when it has fewer; a negative count adds that many zeros to the stack
  below; then the old storage offset is pushed there and the new one installed. Nothing else of
  the instruction pointer and no deeper stack changes.
\<close>

theorem stackstack_begin_spec:
  "case stackstack_begin al ip count offset of (okay, ip') \<Rightarrow>
     if okay then
       ss_lists (ip_stackstack ip') =
         ss_below (ip_stackstack ip) @
         [begin_soss count (ip_storageOffset ip) (stack_list (ip_stack ip)),
          begin_toss count (stack_list (ip_stack ip))] \<and>
       ip_storageOffset ip' = offset \<and>
       ip'\<lparr>ip_storageOffset := ip_storageOffset ip, ip_stackstack := ip_stackstack ip\<rparr> = ip
     else ip' = ip"
  by (rule stackstack_begin_lists)


lemma transfer_cells_iterate:
  "transfer_cells n dst src =
     ((\<lambda>(t, s). (stack_push t (fst (stack_pop s)), snd (stack_pop s))) ^^ n) (dst, src)"
  by (induction n arbitrary: dst src) (simp_all add: split_beta funpow_Suc_right del: funpow.simps)

lemma transfer_cells_list:
  "stack_list (fst (transfer_cells n dst src)) =
     stack_list dst @ map (from_top (stack_list src)) [0..<n]"
  "stack_list (snd (transfer_cells n dst src)) = drop_top n (stack_list src)"
  using cs.move_cells [of n dst src] by (simp_all add: transfer_cells_iterate)

lemma stackstack_end_lists:
  "let soss = stack_list (ss_stacks (ip_stackstack ip) (ss_current (ip_stackstack ip) - 1));
       toss = stack_list (ip_stack ip);
       ip' = snd (stackstack_end ip count)
   in ss_current (ip_stackstack ip') = ss_current (ip_stackstack ip) - 1 \<and>
      (\<forall>i. i < ss_current (ip_stackstack ip) - 1 \<longrightarrow>
         ss_stacks (ip_stackstack ip') i = ss_stacks (ip_stackstack ip) i) \<and>
      stack_list (ip_stack ip') =
        (if 0 <s count then
           drop_top 2 soss @ replicate (unat count - length toss) 0 @ drop (length toss - unat count) toss
         else drop_top (2 + unat (- count)) soss) \<and>
      ip_storageOffset ip' = vector (from_top soss 1) (from_top soss 0)"
  by (auto simp: stackstack_end_def Let_def split_beta stack_simps ip_stack_def numeral_2_eq_2
      dest!: not_sless_0)

lemma begin_soss_end:
  "from_top (begin_soss count offset soss) 0 = vec_y offset"
  "from_top (begin_soss count offset soss) 1 = vec_x offset"
  "drop_top 2 (begin_soss count offset soss) =
     (if 0 <s count then drop_top (unat count) soss else soss @ replicate (unat (- count)) 0)"
  by (auto simp: begin_soss_def from_top_def drop_top_def)

lemma drop_top_snoc_all: "n = length ys \<Longrightarrow> drop_top n (xs @ ys) = xs"
  by (simp add: drop_top_def)

lemma drop_top_take_all: "drop_top n xs @ drop (length xs - n) xs = xs"
  by (simp add: drop_top_def)

lemma empty_stack_ok: "stack_create (\<lambda>n. n < 40000) = Some empty_stack"
  by (simp add: stack_create_def empty_stack_def sizeof_funge_stack_def ALLOCSIZE_STACK_def
      sizeof_funge_cell_def)

definition sample_ip :: instructionPointer where
  "sample_ip = \<lparr>ip_position = vector 0 0, ip_delta = vector 1 0, ip_storageOffset = vector 0 0,
     ip_mode = IpmCODE, ip_needMove = True, ip_stringLastWasSpace = False,
     ip_fingerSUBRisRelative = False, ip_ID = 0,
     ip_stackstack = \<lparr>ss_size = ALLOCSIZE_STACKSTACK, ss_current = 0,
                      ss_stacks = (\<lambda>_. stack_push (stack_push empty_stack 7) 8)\<rparr>,
     ip_fingerOpcodes = (\<lambda>_. empty_opcode_stack), ip_fingerHRTItimestamp = None\<rparr>"

text \<open>
  C10: leaving a block undoes entering it. After a successful \<open>stackstack_begin\<close> that moves cells
  the stack has (or adds zeros, for a negative count), \<open>stackstack_end\<close> with the same count
  leaves the content of every stack, the storage offset and everything else as they were.
\<close>

theorem stackstack_begin_end:
  assumes "stackstack_begin al ip count offset = (True, ip')"
    and "count <s 0 \<or> unat count \<le> length (stack_list (ip_stack ip))"
  shows "ss_lists (ip_stackstack (snd (stackstack_end ip' count))) = ss_lists (ip_stackstack ip) \<and>
         (snd (stackstack_end ip' count))\<lparr>ip_stackstack := ip_stackstack ip\<rparr> = ip"
proof -
  let ?ss = "ip_stackstack ip'" and ?soss = "stack_list (ip_stack ip)"
  let ?ended = "snd (stackstack_end ip' count)"
  have lists: "ss_lists ?ss = ss_below (ip_stackstack ip) @
      [begin_soss count (ip_storageOffset ip) ?soss, begin_toss count ?soss]"
    and rest: "ip'\<lparr>ip_storageOffset := ip_storageOffset ip, ip_stackstack := ip_stackstack ip\<rparr> = ip"
    using stackstack_begin_lists [where al = al and ip = ip and count = count and offset = offset]
      assms(1) by auto
  have cur: "ss_current ?ss = Suc (ss_current (ip_stackstack ip))"
    using arg_cong [OF lists, of length] by (simp add: ss_lists_def ss_below_def)
  have below: "ss_below (ip_stackstack ip) =
      map (\<lambda>i. stack_list (ss_stacks ?ss i)) [0..<ss_current (ip_stackstack ip)]"
    and soss: "stack_list (ss_stacks ?ss (ss_current (ip_stackstack ip))) =
      begin_soss count (ip_storageOffset ip) ?soss"
    and toss: "stack_list (ip_stack ip') = begin_toss count ?soss"
    using lists by (simp_all add: ss_lists_def cur ip_stack_def)
  have same: "ss_current (ip_stackstack ?ended) = ss_current (ip_stackstack ip)"
    "\<And>i. i < ss_current (ip_stackstack ip) \<Longrightarrow>
        ss_stacks (ip_stackstack ?ended) i = ss_stacks ?ss i"
    "ip_storageOffset ?ended = ip_storageOffset ip"
    using stackstack_end_lists [of ip' count] by (simp_all add: Let_def cur soss begin_soss_end [simplified])
  have "stack_list (ip_stack ?ended) = ?soss"
  proof (cases "0 <s count")
    case True
    then have "unat count \<le> length ?soss" using assms(2) by (auto simp: cell_less_iff)
    then show ?thesis
      using True stackstack_end_lists [of ip' count]
      by (simp add: Let_def cur soss toss begin_soss_end begin_toss_def
          drop_top_take_all [of _ "stack_list s" for s, simplified])
  next
    case False
    have "drop_top (2 + unat (- count)) (begin_soss count (ip_storageOffset ip) ?soss) = ?soss"
      unfolding drop_top_drop_top [symmetric] begin_soss_end
      using False by (simp add: drop_top_snoc_all)
    then show ?thesis
      using False stackstack_end_lists [of ip' count] by (simp add: Let_def cur soss del: add_2_eq_Suc)
  qed
  then have "ss_lists (ip_stackstack ?ended) = ss_lists (ip_stackstack ip)"
    using below by (simp add: ss_lists_below ip_stack_def)
      (simp add: ss_below_def same)
  moreover have "?ended\<lparr>ip_stackstack := ip_stackstack ip\<rparr> =
      ip'\<lparr>ip_storageOffset := ip_storageOffset ?ended, ip_stackstack := ip_stackstack ip\<rparr>"
    by (simp add: stackstack_end_def Let_def split_beta)
  ultimately show ?thesis using rest same(3) by simp
qed

theorem stackstack_begin_end_witness:
  "\<exists>ip'. stackstack_begin (\<lambda>n. n < 40000) sample_ip 1 (vector 5 6) = (True, ip') \<and>
     ss_lists (ip_stackstack (snd (stackstack_end ip' 1))) = [[7, 8]]"
proof -
  let ?r = "stackstack_begin (\<lambda>n. n < 40000) sample_ip 1 (vector 5 6)"
  have okay: "fst ?r"
    by (simp add: stackstack_begin_def empty_stack_ok stack_prealloc_space_non_fatal_def
        prealloc_needed_def size_t_def empty_stack_def ALLOCSIZE_STACK_def sample_ip_def
        ALLOCSIZE_STACKSTACK_def ABS_def Let_def split_beta)
  then have run: "?r = (True, snd ?r)"
    by (metis prod.collapse)
  have "(1 :: cell) <s 0 \<or> unat (1 :: cell) \<le> length (stack_list (ip_stack sample_ip))"
    by (simp add: sample_ip_def ip_stack_def stack_simps)
  from stackstack_begin_end [OF run this] run show ?thesis
    by (auto simp: ss_lists_def sample_ip_def stack_simps)
qed

text \<open>
  \<open>stackstack_transfer\<close> with a positive count moves that many cells from the second stack
  to the first, one at a time, so that they arrive in reverse order, and with a negative
  count from the first to the second; when the source runs out, zeros are moved.
\<close>

theorem stackstack_transfer_spec:
  "map_prod stack_list stack_list (stackstack_transfer count TOSS SOSS) =
     (if 0 <s count then
        (stack_list TOSS @ map (from_top (stack_list SOSS)) [0..<unat count],
         drop_top (unat count) (stack_list SOSS))
      else
        (drop_top (unat (- count)) (stack_list TOSS),
         stack_list SOSS @ map (from_top (stack_list TOSS)) [0..<unat (- count)]))"
  by (auto simp: stackstack_transfer_def split_beta transfer_cells_list prod_eq_iff dest!: not_sless_0)

end
