(* ===== verification/Manager.thy ===== *)
theory Manager
  imports Ip "HOL-Library.Multiset"
begin

text \<open>
  The fingerprint manager, \<^verbatim>\<open>src/fingerprints/manager.c\<close>, the table of fingerprints
  (\<^verbatim>\<open>src/fingerprints/fingerprints.h\<close>) and the loaders of all fingerprints of the full build
  (with floats and ncurses). Every instruction letter has a stack of opcodes; loading a
  fingerprint pushes its instructions, unloading drops the topmost opcode of each of its letters.

  A loader is the list of its \<open>manager_add_opcode\<close> calls. Six loaders first set something up
  (handle lists, the clock, the terminal); whether that succeeds is an argument
  here; theory \<open>Interp\<close> gives it from the state of the world.
\<close>

section \<open>Opcode stacks\<close>

definition OPCODE_ALLOCCHUNKSIZE :: nat where
  "OPCODE_ALLOCCHUNKSIZE = 2"

text \<open>\<open>opcode - 'A'\<close>\<close>

definition opcode_index :: "char \<Rightarrow> nat" where
  "opcode_index opcode = of_char opcode - 65"

definition opcode_stack_duplicate :: "fungeOpcodeStack \<Rightarrow> fungeOpcodeStack" where
  "opcode_stack_duplicate old =
     (if ops_top old \<noteq> 0
      then \<lparr>ops_size = ops_top old + 1, ops_top = ops_top old,
            ops_entries = (\<lambda>i. if i < ops_top old then ops_entries old i else None)\<rparr>
      else \<lparr>ops_size = 0, ops_top = 0, ops_entries = (\<lambda>_. None)\<rparr>)"

definition opcode_stack_push ::
    "allocator \<Rightarrow> instructionPointer \<Rightarrow> char \<Rightarrow> fingerprintOpcode option \<Rightarrow> bool \<times> instructionPointer" where
  "opcode_stack_push al ip opcode func =
     (let i = opcode_index opcode; stack = ip_fingerOpcodes ip i in
      if ops_top stack = ops_size stack \<and>
         \<not> al (size_t ((ops_size stack + OPCODE_ALLOCCHUNKSIZE) * sizeof_pointer))
      then (False, ip)
      else
        (let stack = (if ops_top stack = ops_size stack
                      then stack\<lparr>ops_size := ops_size stack + OPCODE_ALLOCCHUNKSIZE\<rparr> else stack);
             stack = stack\<lparr>ops_entries := (ops_entries stack)(ops_top stack := func),
                            ops_top := ops_top stack + 1\<rparr>
         in (True, ip\<lparr>ip_fingerOpcodes := (ip_fingerOpcodes ip)(i := stack)\<rparr>)))"

definition opcode_stack_pop ::
    "instructionPointer \<Rightarrow> char \<Rightarrow> fingerprintOpcode option \<times> instructionPointer" where
  "opcode_stack_pop ip opcode =
     (let i = opcode_index opcode; stack = ip_fingerOpcodes ip i in
      if ops_top stack = 0 then (None, ip)
      else (ops_entries stack (ops_top stack - 1),
            ip\<lparr>ip_fingerOpcodes := (ip_fingerOpcodes ip)(i := stack\<lparr>ops_top := ops_top stack - 1\<rparr>)\<rparr>))"

definition opcode_stack_drop :: "fungeOpcodeStack \<Rightarrow> fungeOpcodeStack" where
  "opcode_stack_drop stack =
     (if ops_top stack = 0 then stack else stack\<lparr>ops_top := ops_top stack - 1\<rparr>)"

definition manager_duplicate :: "instructionPointer \<Rightarrow> instructionPointer \<Rightarrow> instructionPointer" where
  "manager_duplicate oldip newip =
     newip\<lparr>ip_fingerOpcodes :=
       (\<lambda>i. if i < FINGEROPCODECOUNT then opcode_stack_duplicate (ip_fingerOpcodes oldip i)
            else ip_fingerOpcodes newip i)\<rparr>"

section \<open>The loaders\<close>

definition finger_3DSP_load :: "(char \<times> fingerprintOpcode) list" where
  "finger_3DSP_load = 
    [(CHR ''A'', Fp_other ''3DSP'' ''add''),
     (CHR ''B'', Fp_other ''3DSP'' ''sub''),
     (CHR ''C'', Fp_other ''3DSP'' ''cross''),
     (CHR ''D'', Fp_other ''3DSP'' ''dot''),
     (CHR ''L'', Fp_other ''3DSP'' ''length''),
     (CHR ''M'', Fp_other ''3DSP'' ''mul''),
     (CHR ''N'', Fp_other ''3DSP'' ''normalise''),
     (CHR ''P'', Fp_other ''3DSP'' ''matrix_copy''),
     (CHR ''R'', Fp_other ''3DSP'' ''matrix_rotate''),
     (CHR ''S'', Fp_other ''3DSP'' ''matrix_scale''),
     (CHR ''T'', Fp_other ''3DSP'' ''matrix_translate''),
     (CHR ''U'', Fp_other ''3DSP'' ''duplicate''),
     (CHR ''V'', Fp_other ''3DSP'' ''map''),
     (CHR ''X'', Fp_other ''3DSP'' ''transform''),
     (CHR ''Y'', Fp_other ''3DSP'' ''matrix_mul''),
     (CHR ''Z'', Fp_other ''3DSP'' ''scale'')]"

definition finger_BASE_load :: "(char \<times> fingerprintOpcode) list" where
  "finger_BASE_load = 
    [(CHR ''B'', Fp_other ''BASE'' ''output_binary''),
     (CHR ''H'', Fp_other ''BASE'' ''output_hex''),
     (CHR ''I'', Fp_other ''BASE'' ''input_base''),
     (CHR ''N'', Fp_other ''BASE'' ''output_base''),
     (CHR ''O'', Fp_other ''BASE'' ''output_octal'')]"

definition finger_BOOL_load :: "(char \<times> fingerprintOpcode) list" where
  "finger_BOOL_load = 
    [(CHR ''A'', Fp_BOOL BOOL_and),
     (CHR ''N'', Fp_BOOL BOOL_not),
     (CHR ''O'', Fp_BOOL BOOL_or),
     (CHR ''X'', Fp_BOOL BOOL_xor)]"

definition finger_CPLI_load :: "(char \<times> fingerprintOpcode) list" where
  "finger_CPLI_load = 
    [(CHR ''A'', Fp_other ''CPLI'' ''add''),
     (CHR ''D'', Fp_other ''CPLI'' ''div''),
     (CHR ''M'', Fp_other ''CPLI'' ''mul''),
     (CHR ''O'', Fp_other ''CPLI'' ''out''),
     (CHR ''S'', Fp_other ''CPLI'' ''sub''),
     (CHR ''V'', Fp_other ''CPLI'' ''abs'')]"

definition finger_DATE_load :: "(char \<times> fingerprintOpcode) list" where
  "finger_DATE_load = 
    [(CHR ''A'', Fp_other ''DATE'' ''add_days''),
     (CHR ''C'', Fp_other ''DATE'' ''jdn_to_ymd''),
     (CHR ''D'', Fp_other ''DATE'' ''day_diff''),
     (CHR ''J'', Fp_other ''DATE'' ''ymd_to_jdn''),
     (CHR ''T'', Fp_other ''DATE'' ''year_day_to_full''),
     (CHR ''W'', Fp_other ''DATE'' ''week_day''),
     (CHR ''Y'', Fp_other ''DATE'' ''year_day'')]"

definition finger_DIRF_load :: "(char \<times> fingerprintOpcode) list" where
  "finger_DIRF_load = 
    [(CHR ''C'', Fp_other ''DIRF'' ''chdir''),
     (CHR ''M'', Fp_other ''DIRF'' ''mkdir''),
     (CHR ''R'', Fp_other ''DIRF'' ''rmdir'')]"

definition finger_FILE_load :: "(char \<times> fingerprintOpcode) list" where
  "finger_FILE_load = 
    [(CHR ''C'', Fp_other ''FILE'' ''fclose''),
     (CHR ''D'', Fp_other ''FILE'' ''delete''),
     (CHR ''G'', Fp_other ''FILE'' ''fgets''),
     (CHR ''L'', Fp_other ''FILE'' ''ftell''),
     (CHR ''O'', Fp_other ''FILE'' ''fopen''),
     (CHR ''P'', Fp_other ''FILE'' ''fputs''),
     (CHR ''R'', Fp_other ''FILE'' ''fread''),
     (CHR ''S'', Fp_other ''FILE'' ''fseek''),
     (CHR ''W'', Fp_other ''FILE'' ''fwrite'')]"

definition finger_FING_load :: "(char \<times> fingerprintOpcode) list" where
  "finger_FING_load = 
    [(CHR ''X'', Fp_FING FING_swap),
     (CHR ''Y'', Fp_FING FING_drop),
     (CHR ''Z'', Fp_FING FING_push)]"

definition finger_FIXP_load :: "(char \<times> fingerprintOpcode) list" where
  "finger_FIXP_load = 
    [(CHR ''A'', Fp_other ''FIXP'' ''and''),
     (CHR ''B'', Fp_other ''FIXP'' ''acos''),
     (CHR ''C'', Fp_other ''FIXP'' ''cos''),
     (CHR ''D'', Fp_other ''FIXP'' ''rand''),
     (CHR ''I'', Fp_other ''FIXP'' ''sin''),
     (CHR ''J'', Fp_other ''FIXP'' ''asin''),
     (CHR ''N'', Fp_other ''FIXP'' ''neg''),
     (CHR ''O'', Fp_other ''FIXP'' ''or''),
     (CHR ''P'', Fp_other ''FIXP'' ''mulpi''),
     (CHR ''Q'', Fp_other ''FIXP'' ''sqrt''),
     (CHR ''R'', Fp_other ''FIXP'' ''pow''),
     (CHR ''S'', Fp_other ''FIXP'' ''signbit''),
     (CHR ''T'', Fp_other ''FIXP'' ''tan''),
     (CHR ''U'', Fp_other ''FIXP'' ''atan''),
     (CHR ''V'', Fp_other ''FIXP'' ''abs''),
     (CHR ''X'', Fp_other ''FIXP'' ''xor'')]"

definition finger_FPDP_load :: "(char \<times> fingerprintOpcode) list" where
  "finger_FPDP_load = 
    [(CHR ''A'', Fp_other ''FPDP'' ''add''),
     (CHR ''B'', Fp_other ''FPDP'' ''sin''),
     (CHR ''C'', Fp_other ''FPDP'' ''cos''),
     (CHR ''D'', Fp_other ''FPDP'' ''div''),
     (CHR ''E'', Fp_other ''FPDP'' ''asin''),
     (CHR ''F'', Fp_other ''FPDP'' ''fromint''),
     (CHR ''G'', Fp_other ''FPDP'' ''atan''),
     (CHR ''H'', Fp_other ''FPDP'' ''acos''),
     (CHR ''I'', Fp_other ''FPDP'' ''toint''),
     (CHR ''K'', Fp_other ''FPDP'' ''ln''),
     (CHR ''L'', Fp_other ''FPDP'' ''log10''),
     (CHR ''M'', Fp_other ''FPDP'' ''mul''),
     (CHR ''N'', Fp_other ''FPDP'' ''neg''),
     (CHR ''P'', Fp_other ''FPDP'' ''print''),
     (CHR ''Q'', Fp_other ''FPDP'' ''sqrt''),
     (CHR ''R'', Fp_other ''FPDP'' ''fromascii''),
     (CHR ''S'', Fp_other ''FPDP'' ''sub''),
     (CHR ''T'', Fp_other ''FPDP'' ''tan''),
     (CHR ''V'', Fp_other ''FPDP'' ''abs''),
     (CHR ''X'', Fp_other ''FPDP'' ''exp''),
     (CHR ''Y'', Fp_other ''FPDP'' ''pow'')]"

definition finger_FPSP_load :: "(char \<times> fingerprintOpcode) list" where
  "finger_FPSP_load = 
    [(CHR ''A'', Fp_other ''FPSP'' ''add''),
     (CHR ''B'', Fp_other ''FPSP'' ''sin''),
     (CHR ''C'', Fp_other ''FPSP'' ''cos''),
     (CHR ''D'', Fp_other ''FPSP'' ''div''),
     (CHR ''E'', Fp_other ''FPSP'' ''asin''),
     (CHR ''F'', Fp_other ''FPSP'' ''fromint''),
     (CHR ''G'', Fp_other ''FPSP'' ''atan''),
     (CHR ''H'', Fp_other ''FPSP'' ''acos''),
     (CHR ''I'', Fp_other ''FPSP'' ''toint''),
     (CHR ''K'', Fp_other ''FPSP'' ''ln''),
     (CHR ''L'', Fp_other ''FPSP'' ''log10''),
     (CHR ''M'', Fp_other ''FPSP'' ''mul''),
     (CHR ''N'', Fp_other ''FPSP'' ''neg''),
     (CHR ''P'', Fp_other ''FPSP'' ''print''),
     (CHR ''Q'', Fp_other ''FPSP'' ''sqrt''),
     (CHR ''R'', Fp_other ''FPSP'' ''fromascii''),
     (CHR ''S'', Fp_other ''FPSP'' ''sub''),
     (CHR ''T'', Fp_other ''FPSP'' ''tan''),
     (CHR ''V'', Fp_other ''FPSP'' ''abs''),
     (CHR ''X'', Fp_other ''FPSP'' ''exp''),
     (CHR ''Y'', Fp_other ''FPSP'' ''pow'')]"

definition finger_FRTH_load :: "(char \<times> fingerprintOpcode) list" where
  "finger_FRTH_load = 
    [(CHR ''D'', Fp_FRTH FRTH_stack_size),
     (CHR ''L'', Fp_FRTH FRTH_forth_roll),
     (CHR ''O'', Fp_FRTH FRTH_forth_over),
     (CHR ''P'', Fp_FRTH FRTH_forth_pick),
     (CHR ''R'', Fp_FRTH FRTH_forth_rot)]"

definition finger_HRTI_load :: "(char \<times> fingerprintOpcode) list" where
  "finger_HRTI_load = 
    [(CHR ''E'', Fp_other ''HRTI'' ''erase_mark''),
     (CHR ''G'', Fp_other ''HRTI'' ''granularity''),
     (CHR ''M'', Fp_other ''HRTI'' ''mark''),
     (CHR ''T'', Fp_other ''HRTI'' ''timer''),
     (CHR ''S'', Fp_other ''HRTI'' ''second'')]"

definition finger_INDV_load :: "(char \<times> fingerprintOpcode) list" where
  "finger_INDV_load = 
    [(CHR ''G'', Fp_INDV INDV_get_num),
     (CHR ''P'', Fp_INDV INDV_put_num),
     (CHR ''V'', Fp_INDV INDV_get_vec),
     (CHR ''W'', Fp_INDV INDV_put_vec)]"

definition finger_JSTR_load :: "(char \<times> fingerprintOpcode) list" where
  "finger_JSTR_load = 
    [(CHR ''G'', Fp_JSTR JSTR_push_n),
     (CHR ''P'', Fp_JSTR JSTR_pop_n)]"

definition finger_MODU_load :: "(char \<times> fingerprintOpcode) list" where
  "finger_MODU_load = 
    [(CHR ''M'', Fp_MODU MODU_signed_result),
     (CHR ''R'', Fp_MODU MODU_remainder),
     (CHR ''U'', Fp_MODU MODU_unsigned_result)]"

definition finger_NCRS_load :: "(char \<times> fingerprintOpcode) list" where
  "finger_NCRS_load = 
    [(CHR ''B'', Fp_other ''NCRS'' ''beep''),
     (CHR ''C'', Fp_other ''NCRS'' ''clear''),
     (CHR ''E'', Fp_other ''NCRS'' ''toggle_echo''),
     (CHR ''G'', Fp_other ''NCRS'' ''get''),
     (CHR ''I'', Fp_other ''NCRS'' ''init''),
     (CHR ''K'', Fp_other ''NCRS'' ''toggle_keypad''),
     (CHR ''M'', Fp_other ''NCRS'' ''goto_xy''),
     (CHR ''N'', Fp_other ''NCRS'' ''toggle_input''),
     (CHR ''P'', Fp_other ''NCRS'' ''put''),
     (CHR ''R'', Fp_other ''NCRS'' ''refresh''),
     (CHR ''S'', Fp_other ''NCRS'' ''write''),
     (CHR ''U'', Fp_other ''NCRS'' ''unget'')]"

definition finger_NULL_load :: "(char \<times> fingerprintOpcode) list" where
  "finger_NULL_load = map (\<lambda>c. (char_of c, Fp_NULL_reverse)) [65..<90]"

definition finger_ORTH_load :: "(char \<times> fingerprintOpcode) list" where
  "finger_ORTH_load = 
    [(CHR ''A'', Fp_ORTH ORTH_bit_and),
     (CHR ''O'', Fp_ORTH ORTH_bit_or),
     (CHR ''E'', Fp_ORTH ORTH_bit_xor),
     (CHR ''G'', Fp_ORTH ORTH_get),
     (CHR ''P'', Fp_ORTH ORTH_put),
     (CHR ''S'', Fp_ORTH ORTH_output_string),
     (CHR ''V'', Fp_ORTH ORTH_change_dx),
     (CHR ''W'', Fp_ORTH ORTH_change_dy),
     (CHR ''X'', Fp_ORTH ORTH_change_x),
     (CHR ''Y'', Fp_ORTH ORTH_change_y),
     (CHR ''Z'', Fp_ORTH ORTH_ramp_if_zero)]"

definition finger_PERL_load :: "(char \<times> fingerprintOpcode) list" where
  "finger_PERL_load = 
    [(CHR ''E'', Fp_other ''PERL'' ''eval''),
     (CHR ''I'', Fp_other ''PERL'' ''int_eval''),
     (CHR ''S'', Fp_other ''PERL'' ''shelled'')]"

definition finger_REFC_load :: "(char \<times> fingerprintOpcode) list" where
  "finger_REFC_load = 
    [(CHR ''D'', Fp_REFC REFC_dereference),
     (CHR ''R'', Fp_REFC REFC_reference)]"

definition finger_REXP_load :: "(char \<times> fingerprintOpcode) list" where
  "finger_REXP_load = 
    [(CHR ''C'', Fp_other ''REXP'' ''compile''),
     (CHR ''E'', Fp_other ''REXP'' ''execute''),
     (CHR ''F'', Fp_other ''REXP'' ''free'')]"

definition finger_ROMA_load :: "(char \<times> fingerprintOpcode) list" where
  "finger_ROMA_load = 
    [(CHR ''C'', Fp_ROMA ROMA_pushC),
     (CHR ''D'', Fp_ROMA ROMA_pushD),
     (CHR ''I'', Fp_ROMA ROMA_pushI),
     (CHR ''L'', Fp_ROMA ROMA_pushL),
     (CHR ''M'', Fp_ROMA ROMA_pushM),
     (CHR ''V'', Fp_ROMA ROMA_pushV),
     (CHR ''X'', Fp_ROMA ROMA_pushX)]"

definition finger_SCKE_load :: "(char \<times> fingerprintOpcode) list" where
  "finger_SCKE_load = 
    [(CHR ''H'', Fp_other ''SCKE'' ''gethostbyname''),
     (CHR ''P'', Fp_other ''SCKE'' ''peek'')]"

definition finger_SOCK_load :: "(char \<times> fingerprintOpcode) list" where
  "finger_SOCK_load = 
    [(CHR ''A'', Fp_other ''SOCK'' ''accept''),
     (CHR ''B'', Fp_other ''SOCK'' ''bind''),
     (CHR ''C'', Fp_other ''SOCK'' ''open''),
     (CHR ''I'', Fp_other ''SOCK'' ''fromascii''),
     (CHR ''K'', Fp_other ''SOCK'' ''kill''),
     (CHR ''L'', Fp_other ''SOCK'' ''listen''),
     (CHR ''O'', Fp_other ''SOCK'' ''setopt''),
     (CHR ''R'', Fp_other ''SOCK'' ''receive''),
     (CHR ''S'', Fp_other ''SOCK'' ''create''),
     (CHR ''W'', Fp_other ''SOCK'' ''write'')]"

definition finger_STRN_load :: "(char \<times> fingerprintOpcode) list" where
  "finger_STRN_load = 
    [(CHR ''A'', Fp_other ''STRN'' ''append''),
     (CHR ''C'', Fp_other ''STRN'' ''compare''),
     (CHR ''D'', Fp_other ''STRN'' ''display''),
     (CHR ''F'', Fp_other ''STRN'' ''search''),
     (CHR ''G'', Fp_other ''STRN'' ''get''),
     (CHR ''I'', Fp_other ''STRN'' ''input''),
     (CHR ''L'', Fp_other ''STRN'' ''left''),
     (CHR ''M'', Fp_other ''STRN'' ''slice''),
     (CHR ''N'', Fp_other ''STRN'' ''length''),
     (CHR ''P'', Fp_other ''STRN'' ''put''),
     (CHR ''R'', Fp_other ''STRN'' ''right''),
     (CHR ''S'', Fp_other ''STRN'' ''itoa''),
     (CHR ''V'', Fp_other ''STRN'' ''atoi'')]"

definition finger_SUBR_load :: "(char \<times> fingerprintOpcode) list" where
  "finger_SUBR_load = 
    [(CHR ''A'', Fp_SUBR SUBR_absolute),
     (CHR ''C'', Fp_SUBR SUBR_call),
     (CHR ''J'', Fp_SUBR SUBR_jump),
     (CHR ''O'', Fp_SUBR SUBR_relative),
     (CHR ''R'', Fp_SUBR SUBR_return)]"

definition finger_TERM_load :: "(char \<times> fingerprintOpcode) list" where
  "finger_TERM_load = 
    [(CHR ''C'', Fp_other ''TERM'' ''clear_screen''),
     (CHR ''D'', Fp_other ''TERM'' ''go_down''),
     (CHR ''G'', Fp_other ''TERM'' ''goto_xy''),
     (CHR ''H'', Fp_other ''TERM'' ''go_home''),
     (CHR ''L'', Fp_other ''TERM'' ''clear_to_eol''),
     (CHR ''S'', Fp_other ''TERM'' ''clear_to_eos''),
     (CHR ''U'', Fp_other ''TERM'' ''go_up'')]"

definition finger_TIME_load :: "(char \<times> fingerprintOpcode) list" where
  "finger_TIME_load = 
    [(CHR ''D'', Fp_other ''TIME'' ''day''),
     (CHR ''F'', Fp_other ''TIME'' ''day_of_year''),
     (CHR ''G'', Fp_other ''TIME'' ''use_gmt''),
     (CHR ''H'', Fp_other ''TIME'' ''hour''),
     (CHR ''L'', Fp_other ''TIME'' ''use_local''),
     (CHR ''M'', Fp_other ''TIME'' ''minute''),
     (CHR ''O'', Fp_other ''TIME'' ''month''),
     (CHR ''S'', Fp_other ''TIME'' ''second''),
     (CHR ''W'', Fp_other ''TIME'' ''day_of_week''),
     (CHR ''Y'', Fp_other ''TIME'' ''year'')]"

definition finger_TOYS_load :: "(char \<times> fingerprintOpcode) list" where
  "finger_TOYS_load = 
    [(CHR ''A'', Fp_other ''TOYS'' ''gable''),
     (CHR ''B'', Fp_other ''TOYS'' ''pair_of_shoes''),
     (CHR ''C'', Fp_other ''TOYS'' ''bracelet''),
     (CHR ''D'', Fp_other ''TOYS'' ''toilet_seat''),
     (CHR ''E'', Fp_other ''TOYS'' ''pitchfork_head''),
     (CHR ''F'', Fp_other ''TOYS'' ''calipers''),
     (CHR ''G'', Fp_other ''TOYS'' ''counterclockwise''),
     (CHR ''H'', Fp_other ''TOYS'' ''pair_of_stilts''),
     (CHR ''I'', Fp_other ''TOYS'' ''doric_column''),
     (CHR ''J'', Fp_other ''TOYS'' ''fishhook''),
     (CHR ''K'', Fp_other ''TOYS'' ''scissors''),
     (CHR ''L'', Fp_other ''TOYS'' ''corner''),
     (CHR ''M'', Fp_other ''TOYS'' ''kittycat''),
     (CHR ''N'', Fp_other ''TOYS'' ''lightning_bolt''),
     (CHR ''O'', Fp_other ''TOYS'' ''boulder''),
     (CHR ''P'', Fp_other ''TOYS'' ''mailbox''),
     (CHR ''Q'', Fp_other ''TOYS'' ''necklace''),
     (CHR ''R'', Fp_other ''TOYS'' ''can_opener''),
     (CHR ''S'', Fp_other ''TOYS'' ''chicane''),
     (CHR ''T'', Fp_other ''TOYS'' ''barstool''),
     (CHR ''U'', Fp_other ''TOYS'' ''tumbler''),
     (CHR ''V'', Fp_other ''TOYS'' ''dixiecup''),
     (CHR ''W'', Fp_other ''TOYS'' ''television_antenna''),
     (CHR ''X'', Fp_other ''TOYS'' ''buried_treasure''),
     (CHR ''Y'', Fp_other ''TOYS'' ''slingshot''),
     (CHR ''Z'', Fp_other ''TOYS'' ''barn_door'')]"

definition finger_TURT_load :: "(char \<times> fingerprintOpcode) list" where
  "finger_TURT_load = 
    [(CHR ''A'', Fp_other ''TURT'' ''query_heading''),
     (CHR ''B'', Fp_other ''TURT'' ''back''),
     (CHR ''C'', Fp_other ''TURT'' ''pen_colour''),
     (CHR ''D'', Fp_other ''TURT'' ''show_display''),
     (CHR ''E'', Fp_other ''TURT'' ''query_pen''),
     (CHR ''F'', Fp_other ''TURT'' ''forward''),
     (CHR ''H'', Fp_other ''TURT'' ''set_heading''),
     (CHR ''I'', Fp_other ''TURT'' ''print_drawing''),
     (CHR ''L'', Fp_other ''TURT'' ''turn_left''),
     (CHR ''N'', Fp_other ''TURT'' ''clear_paper''),
     (CHR ''P'', Fp_other ''TURT'' ''pen_position''),
     (CHR ''Q'', Fp_other ''TURT'' ''query_position''),
     (CHR ''R'', Fp_other ''TURT'' ''turn_right''),
     (CHR ''T'', Fp_other ''TURT'' ''teleport''),
     (CHR ''U'', Fp_other ''TURT'' ''query_bounds'')]"

section \<open>The table\<close>

text \<open>The URLs, which are only printed, are left out.\<close>

record ImplementedFingerprintEntry =
  fe_fprint :: cell
  fe_loader :: "(char \<times> fingerprintOpcode) list"
  fe_opcodes :: string
  fe_safe :: bool

definition ImplementedFingerprints :: "ImplementedFingerprintEntry list" where
  "ImplementedFingerprints =
    [\<lparr>fe_fprint = 0x33445350, fe_loader = finger_3DSP_load, fe_opcodes = ''ABCDLMNPRSTUVXYZ'', fe_safe = True\<rparr>,
     \<lparr>fe_fprint = 0x42415345, fe_loader = finger_BASE_load, fe_opcodes = ''BHINO'', fe_safe = True\<rparr>,
     \<lparr>fe_fprint = 0x424f4f4c, fe_loader = finger_BOOL_load, fe_opcodes = ''ANOX'', fe_safe = True\<rparr>,
     \<lparr>fe_fprint = 0x43504c49, fe_loader = finger_CPLI_load, fe_opcodes = ''ADMOSV'', fe_safe = True\<rparr>,
     \<lparr>fe_fprint = 0x44415445, fe_loader = finger_DATE_load, fe_opcodes = ''ACDJTWY'', fe_safe = True\<rparr>,
     \<lparr>fe_fprint = 0x44495246, fe_loader = finger_DIRF_load, fe_opcodes = ''CMR'', fe_safe = False\<rparr>,
     \<lparr>fe_fprint = 0x46494c45, fe_loader = finger_FILE_load, fe_opcodes = ''CDGLOPRSW'', fe_safe = False\<rparr>,
     \<lparr>fe_fprint = 0x46494e47, fe_loader = finger_FING_load, fe_opcodes = ''XYZ'', fe_safe = True\<rparr>,
     \<lparr>fe_fprint = 0x46495850, fe_loader = finger_FIXP_load, fe_opcodes = ''ABCDIJNOPQRSTUVX'', fe_safe = True\<rparr>,
     \<lparr>fe_fprint = 0x46504450, fe_loader = finger_FPDP_load, fe_opcodes = ''ABCDEFGHIKLMNPQRSTVXY'', fe_safe = True\<rparr>,
     \<lparr>fe_fprint = 0x46505350, fe_loader = finger_FPSP_load, fe_opcodes = ''ABCDEFGHIKLMNPQRSTVXY'', fe_safe = True\<rparr>,
     \<lparr>fe_fprint = 0x46525448, fe_loader = finger_FRTH_load, fe_opcodes = ''DLOPR'', fe_safe = True\<rparr>,
     \<lparr>fe_fprint = 0x48525449, fe_loader = finger_HRTI_load, fe_opcodes = ''EGMST'', fe_safe = True\<rparr>,
     \<lparr>fe_fprint = 0x494e4456, fe_loader = finger_INDV_load, fe_opcodes = ''GPVW'', fe_safe = True\<rparr>,
     \<lparr>fe_fprint = 0x4a535452, fe_loader = finger_JSTR_load, fe_opcodes = ''GP'', fe_safe = True\<rparr>,
     \<lparr>fe_fprint = 0x4d4f4455, fe_loader = finger_MODU_load, fe_opcodes = ''MRU'', fe_safe = True\<rparr>,
     \<lparr>fe_fprint = 0x4e435253, fe_loader = finger_NCRS_load, fe_opcodes = ''BCEGIKMNPRSU'', fe_safe = True\<rparr>,
     \<lparr>fe_fprint = 0x4e554c4c, fe_loader = finger_NULL_load, fe_opcodes = ''ABCDEFGHIJKLMNOPQRSTUVWXYZ'', fe_safe = True\<rparr>,
     \<lparr>fe_fprint = 0x4f525448, fe_loader = finger_ORTH_load, fe_opcodes = ''AEGOPSVWXYZ'', fe_safe = True\<rparr>,
     \<lparr>fe_fprint = 0x5045524c, fe_loader = finger_PERL_load, fe_opcodes = ''EIS'', fe_safe = False\<rparr>,
     \<lparr>fe_fprint = 0x52454643, fe_loader = finger_REFC_load, fe_opcodes = ''DR'', fe_safe = True\<rparr>,
     \<lparr>fe_fprint = 0x52455850, fe_loader = finger_REXP_load, fe_opcodes = ''CEF'', fe_safe = True\<rparr>,
     \<lparr>fe_fprint = 0x524f4d41, fe_loader = finger_ROMA_load, fe_opcodes = ''CDILMVX'', fe_safe = True\<rparr>,
     \<lparr>fe_fprint = 0x53434b45, fe_loader = finger_SCKE_load, fe_opcodes = ''HP'', fe_safe = False\<rparr>,
     \<lparr>fe_fprint = 0x534f434b, fe_loader = finger_SOCK_load, fe_opcodes = ''ABCIKLORSW'', fe_safe = False\<rparr>,
     \<lparr>fe_fprint = 0x5354524e, fe_loader = finger_STRN_load, fe_opcodes = ''ACDFGILMNPRSV'', fe_safe = True\<rparr>,
     \<lparr>fe_fprint = 0x53554252, fe_loader = finger_SUBR_load, fe_opcodes = ''ACJOR'', fe_safe = True\<rparr>,
     \<lparr>fe_fprint = 0x5445524d, fe_loader = finger_TERM_load, fe_opcodes = ''CDGHLSU'', fe_safe = True\<rparr>,
     \<lparr>fe_fprint = 0x54494d45, fe_loader = finger_TIME_load, fe_opcodes = ''DFGHLMOSWY'', fe_safe = True\<rparr>,
     \<lparr>fe_fprint = 0x544f5953, fe_loader = finger_TOYS_load, fe_opcodes = ''ABCDEFGHIJKLMNOPQRSTUVWXYZ'', fe_safe = True\<rparr>,
     \<lparr>fe_fprint = 0x54555254, fe_loader = finger_TURT_load, fe_opcodes = ''ABCDEFHILNPQRTU'', fe_safe = True\<rparr>]"

section \<open>Loading and unloading\<close>

fun run_loader :: "allocator \<Rightarrow> (char \<times> fingerprintOpcode) list \<Rightarrow> instructionPointer \<Rightarrow>
    bool \<times> instructionPointer" where
  "run_loader al [] ip = (True, ip)"
| "run_loader al ((c, func) # calls) ip =
     (case opcode_stack_push al ip c (Some func) of
        (False, ip) \<Rightarrow> (False, ip)
      | (True, ip) \<Rightarrow> run_loader al calls ip)"

text \<open>The search goes by signed comparison and stops at the first entry that is not less.\<close>

fun find_fingerprint_loop :: "bool \<Rightarrow> cell \<Rightarrow> ImplementedFingerprintEntry list \<Rightarrow> nat \<Rightarrow> nat option" where
  "find_fingerprint_loop sandbox fingerprint [] i = None"
| "find_fingerprint_loop sandbox fingerprint (e # es) i =
     (if fingerprint \<le>s fe_fprint e then
        (if fingerprint \<noteq> fe_fprint e then None
         else if sandbox \<and> \<not> fe_safe e then None
         else Some i)
      else find_fingerprint_loop sandbox fingerprint es (i + 1))"

definition find_fingerprint :: "bool \<Rightarrow> cell \<Rightarrow> nat option" where
  "find_fingerprint sandbox fingerprint =
     find_fingerprint_loop sandbox fingerprint ImplementedFingerprints 0"

text \<open>\<open>setup fp\<close> tells whether the set-up part of the loader of \<open>fp\<close> succeeds.\<close>

definition manager_load ::
    "allocator \<Rightarrow> (cell \<Rightarrow> bool) \<Rightarrow> bool \<Rightarrow> instructionPointer \<Rightarrow> cell \<Rightarrow> bool \<times> instructionPointer" where
  "manager_load al setup sandbox ip fingerprint =
     (case find_fingerprint sandbox fingerprint of
        None \<Rightarrow> (False, ip)
      | Some index \<Rightarrow>
        (if \<not> setup fingerprint then (False, ip)
         else (case run_loader al (fe_loader (ImplementedFingerprints ! index)) ip of
                 (False, ip) \<Rightarrow> (False, ip)
               | (True, ip) \<Rightarrow>
                   (True, ip_set_stack (stack_push (stack_push (ip_stack ip) fingerprint) 1) ip))))"

definition manager_unload :: "bool \<Rightarrow> instructionPointer \<Rightarrow> cell \<Rightarrow> bool \<times> instructionPointer" where
  "manager_unload sandbox ip fingerprint =
     (case find_fingerprint sandbox fingerprint of
        None \<Rightarrow> (False, ip)
      | Some index \<Rightarrow>
        (True, ip\<lparr>ip_fingerOpcodes :=
           fold (\<lambda>c ops. ops(opcode_index c := opcode_stack_drop (ops (opcode_index c))))
             (fe_opcodes (ImplementedFingerprints ! index)) (ip_fingerOpcodes ip)\<rparr>))"

section \<open>Effect on the opcode stacks\<close>

definition ops_list :: "fungeOpcodeStack \<Rightarrow> fingerprintOpcode option list" where
  "ops_list s = map (ops_entries s) [0..<ops_top s]"

abbreviation ip_ops :: "instructionPointer \<Rightarrow> nat \<Rightarrow> fingerprintOpcode option list" where
  "ip_ops ip i \<equiv> ops_list (ip_fingerOpcodes ip i)"

lemma ops_list_duplicate [simp]: "ops_list (opcode_stack_duplicate s) = ops_list s"
  by (simp add: ops_list_def opcode_stack_duplicate_def)

lemma ops_list_drop [simp]: "ops_list (opcode_stack_drop s) = butlast (ops_list s)"
  by (simp add: ops_list_def opcode_stack_drop_def butlast_map_upt)

lemma ops_list_empty [simp]: "ops_list empty_opcode_stack = []"
  by (simp add: ops_list_def empty_opcode_stack_def)

lemma opcode_stack_push_ops:
  "opcode_stack_push al ip c func = (True, ip') \<Longrightarrow>
     ip_ops ip' i = (if i = opcode_index c then ip_ops ip i @ [func] else ip_ops ip i)"
  by (auto simp: opcode_stack_push_def Let_def ops_list_def split: if_splits)

lemma opcode_stack_push_rest:
  "opcode_stack_push al ip c func = (b, ip') \<Longrightarrow>
     ip'\<lparr>ip_fingerOpcodes := ip_fingerOpcodes ip\<rparr> = ip \<and> (\<not> b \<longrightarrow> ip' = ip)"
  by (auto simp: opcode_stack_push_def Let_def split: if_splits)

lemma opcode_stack_pop_ops:
  "fst (opcode_stack_pop ip c) =
     (if ip_ops ip (opcode_index c) = [] then None else last (ip_ops ip (opcode_index c)))"
  "ip_ops (snd (opcode_stack_pop ip c)) i =
     (if i = opcode_index c then butlast (ip_ops ip i) else ip_ops ip i)"
  by (auto simp: opcode_stack_pop_def Let_def ops_list_def butlast_map_upt last_map_upt)

lemma opcode_stack_pop_rest:
  "(snd (opcode_stack_pop ip c))\<lparr>ip_fingerOpcodes := ip_fingerOpcodes ip\<rparr> = ip"
  by (simp add: opcode_stack_pop_def Let_def)

lemma run_loader_ops:
  "run_loader al calls ip = (True, ip') \<Longrightarrow>
     ip_ops ip' i = ip_ops ip i @ map (\<lambda>x. Some (snd x)) (filter (\<lambda>x. opcode_index (fst x) = i) calls) \<and>
     ip'\<lparr>ip_fingerOpcodes := ip_fingerOpcodes ip\<rparr> = ip"
proof (induction al calls ip rule: run_loader.induct)
  case (2 al c func calls ip)
  obtain ip1 where push: "opcode_stack_push al ip c (Some func) = (True, ip1)"
    and run: "run_loader al calls ip1 = (True, ip')"
    using 2(2) by (auto split: prod.splits bool.splits)
  note rest = opcode_stack_push_rest [OF push]
  have IH: "ip_ops ip' i = ip_ops ip1 i @ map (\<lambda>x. Some (snd x)) (filter (\<lambda>x. opcode_index (fst x) = i) calls) \<and>
      ip'\<lparr>ip_fingerOpcodes := ip_fingerOpcodes ip1\<rparr> = ip1"
    using 2(1) [OF push [symmetric] refl run] by simp
  have "ip'\<lparr>ip_fingerOpcodes := ip_fingerOpcodes ip\<rparr> =
      (ip'\<lparr>ip_fingerOpcodes := ip_fingerOpcodes ip1\<rparr>)\<lparr>ip_fingerOpcodes := ip_fingerOpcodes ip\<rparr>"
    by simp
  then show ?case
    using IH rest opcode_stack_push_ops [OF push, of i] by simp
qed simp

lemma run_loader_partial:
  "run_loader al calls ip = (b, ip') \<Longrightarrow>
     \<exists>n. ip_ops ip' i = ip_ops ip i @ map (\<lambda>x. Some (snd x)) (filter (\<lambda>x. opcode_index (fst x) = i) (take n calls))"
proof (induction al calls ip rule: run_loader.induct)
  case (2 al c func calls ip)
  show ?case
  proof (cases "opcode_stack_push al ip c (Some func)")
    case (Pair okay ip1)
    show ?thesis
    proof (cases okay)
      case True
      then have push: "opcode_stack_push al ip c (Some func) = (True, ip1)" using Pair by simp
      obtain n where "ip_ops ip' i = ip_ops ip1 i @
          map (\<lambda>x. Some (snd x)) (filter (\<lambda>x. opcode_index (fst x) = i) (take n calls))"
        using 2(1) [OF push [symmetric] refl] 2(2) push by auto
      then show ?thesis
        using opcode_stack_push_ops [OF push, of i] by (intro exI [of _ "Suc n"]) auto
    next
      case False
      then show ?thesis
        using 2(2) Pair opcode_stack_push_rest [OF Pair] by (intro exI [of _ 0]) simp
    qed
  qed
qed (auto intro!: exI [of _ 0])

lemma fold_drop_ops:
  "ops_list (fold (\<lambda>c ops. ops(opcode_index c := opcode_stack_drop (ops (opcode_index c)))) cs ops i) =
     (butlast ^^ (length (filter (\<lambda>c. opcode_index c = i) cs))) (ops_list (ops i))"
  by (induction cs arbitrary: ops) (auto simp: funpow_swap1)

lemma butlast_funpow: "(butlast ^^ n) xs = take (length xs - n) xs"
  by (induction n) (auto simp: butlast_take)

section \<open>The table is consistent\<close>

lemmas loader_defs =
  finger_3DSP_load_def finger_BASE_load_def finger_BOOL_load_def finger_CPLI_load_def
  finger_DATE_load_def finger_DIRF_load_def finger_FILE_load_def finger_FING_load_def
  finger_FIXP_load_def finger_FPDP_load_def finger_FPSP_load_def finger_FRTH_load_def
  finger_HRTI_load_def finger_INDV_load_def finger_JSTR_load_def finger_MODU_load_def
  finger_NCRS_load_def finger_NULL_load_def finger_ORTH_load_def finger_PERL_load_def
  finger_REFC_load_def finger_REXP_load_def finger_ROMA_load_def finger_SCKE_load_def
  finger_SOCK_load_def finger_STRN_load_def finger_SUBR_load_def finger_TERM_load_def
  finger_TIME_load_def finger_TOYS_load_def finger_TURT_load_def

abbreviation NULL_fingerprint :: cell where
  "NULL_fingerprint \<equiv> 0x4e554c4c"

lemma table_sorted: "sorted_wrt (\<lambda>a b. fe_fprint a <s fe_fprint b) ImplementedFingerprints"
  by (simp add: ImplementedFingerprints_def cell_less_iff)

lemma table_opcodes:
  "\<forall>e\<in>set ImplementedFingerprints. fe_fprint e \<noteq> NULL_fingerprint \<longrightarrow>
     mset (map fst (fe_loader e)) = mset (fe_opcodes e)"
  by (simp add: ImplementedFingerprints_def loader_defs add_mset_commute)

definition unsafe_fingerprints :: "string list" where
  "unsafe_fingerprints = [''DIRF'', ''FILE'', ''PERL'', ''SCKE'', ''SOCK'']"

definition opcode_safe :: "fingerprintOpcode option \<Rightarrow> bool" where
  "opcode_safe func = (case func of Some (Fp_other fp name) \<Rightarrow> fp \<notin> set unsafe_fingerprints | _ \<Rightarrow> True)"

lemma table_safe:
  "\<forall>e\<in>set ImplementedFingerprints. fe_safe e \<longrightarrow> (\<forall>x\<in>set (fe_loader e). opcode_safe (Some (snd x)))"
  by (simp add: ImplementedFingerprints_def loader_defs opcode_safe_def unsafe_fingerprints_def)

section \<open>Properties\<close>

lemma find_fingerprint_loop_spec:
  assumes "sorted_wrt (\<lambda>a b. fe_fprint a <s fe_fprint b) es"
  shows "case find_fingerprint_loop sandbox fp es n of
           Some i \<Rightarrow> n \<le> i \<and> i - n < length es \<and> fe_fprint (es ! (i - n)) = fp \<and>
                     (sandbox \<longrightarrow> fe_safe (es ! (i - n)))
         | None \<Rightarrow> \<forall>e\<in>set es. fe_fprint e = fp \<longrightarrow> sandbox \<and> \<not> fe_safe e"
  using assms
proof (induction es arbitrary: n)
  case (Cons e es)
  have later: "\<forall>x\<in>set es. fe_fprint e <s fe_fprint x" using Cons.prems by simp
  show ?case
  proof (cases "fp \<le>s fe_fprint e")
    case True
    then have "\<forall>x\<in>set es. fe_fprint x \<noteq> fp" using later by (auto simp: cell_order)
    then show ?thesis using True by auto
  next
    case False
    then have ne: "fe_fprint e \<noteq> fp" by (auto simp: cell_order)
    have "case find_fingerprint_loop sandbox fp es (n + 1) of
           Some i \<Rightarrow> n + 1 \<le> i \<and> i - (n + 1) < length es \<and> fe_fprint (es ! (i - (n + 1))) = fp \<and>
                     (sandbox \<longrightarrow> fe_safe (es ! (i - (n + 1))))
         | None \<Rightarrow> \<forall>e\<in>set es. fe_fprint e = fp \<longrightarrow> sandbox \<and> \<not> fe_safe e"
      using Cons.IH [of "n + 1"] Cons.prems by simp
    then show ?thesis
      using False ne
      by (auto split: option.splits simp: nth_Cons' Suc_diff_Suc Suc_le_eq)
  qed
qed simp

lemma find_fingerprint_spec:
  "case find_fingerprint sandbox fp of
     Some i \<Rightarrow> i < length ImplementedFingerprints \<and> fe_fprint (ImplementedFingerprints ! i) = fp \<and>
               (sandbox \<longrightarrow> fe_safe (ImplementedFingerprints ! i))
   | None \<Rightarrow> \<forall>e\<in>set ImplementedFingerprints. fe_fprint e = fp \<longrightarrow> sandbox \<and> \<not> fe_safe e"
  using find_fingerprint_loop_spec [OF table_sorted, where sandbox = sandbox and fp = fp and n = 0]
  by (auto simp: find_fingerprint_def split: option.splits)

lemma manager_load_cases:
  assumes "manager_load al setup sandbox ip fp = (okay, ip')"
  shows "(\<not> okay \<and> ip' = ip) \<or>
         (\<exists>i r. find_fingerprint sandbox fp = Some i \<and>
            run_loader al (fe_loader (ImplementedFingerprints ! i)) ip = (okay, r) \<and>
            ip' = (if okay then ip_set_stack (stack_push (stack_push (ip_stack r) fp) 1) r else r))"
  using assms by (auto simp: manager_load_def split: option.splits if_splits prod.splits bool.splits)

lemma ip_fingerOpcodes_set_stack [simp]: "ip_fingerOpcodes (ip_set_stack s ip) = ip_fingerOpcodes ip"
  by (simp add: ip_set_stack_def)

lemma ip_stack_set_stack [simp]: "ip_stack (ip_set_stack s ip) = s"
  by (simp add: ip_stack_def ip_set_stack_def ss_set_stack_def)

text \<open>
  The search for a fingerprint is exact although it stops early: it finds an entry exactly when
  the table has one with that number and, in sandbox mode, that entry is marked safe.
\<close>

theorem find_fingerprint_exact:
  "find_fingerprint sandbox fp \<noteq> None \<longleftrightarrow>
     (\<exists>e\<in>set ImplementedFingerprints. fe_fprint e = fp \<and> (if sandbox then fe_safe e else True))"
proof (cases "find_fingerprint sandbox fp")
  case None
  then show ?thesis using find_fingerprint_spec [where sandbox = sandbox and fp = fp] by auto
next
  case (Some i)
  then show ?thesis using find_fingerprint_spec [where sandbox = sandbox and fp = fp] by (auto intro!: bexI [OF _ nth_mem])
qed

text \<open>
  C23: unloading undoes loading. After a successful \<open>manager_load\<close> the fingerprint and a 1 lie on the
  stack; unloading the same fingerprint then leaves the opcode stack of every letter as it was
  before the load, for every fingerprint of the table except NULL. The NULL loader leaves out the
  letter Z that the table lists, so that unloading it drops the opcode that Z had before.
\<close>

theorem manager_load_unload:
  assumes "manager_load al setup sandbox ip fp = (True, ip1)"
    and "manager_unload sandbox ip1 fp = (okay, ip2)"
  shows "okay \<and> stack_list (ip_stack ip1) = stack_list (ip_stack ip) @ [fp, 1] \<and>
         ip_ops ip2 i = (if fp = NULL_fingerprint \<and> i = opcode_index (CHR ''Z'') then butlast (ip_ops ip i)
                         else ip_ops ip i)"
proof -
  obtain k r where k: "find_fingerprint sandbox fp = Some k"
    and run: "run_loader al (fe_loader (ImplementedFingerprints ! k)) ip = (True, r)"
    and ip1: "ip1 = ip_set_stack (stack_push (stack_push (ip_stack r) fp) 1) r"
    using manager_load_cases [OF assms(1)] by auto
  let ?e = "ImplementedFingerprints ! k"
  have e: "?e \<in> set ImplementedFingerprints" "fe_fprint ?e = fp"
    using find_fingerprint_spec [where sandbox = sandbox and fp = fp] k by auto
  note ops = run_loader_ops [OF run, of i]
  have "ip_stack (r\<lparr>ip_fingerOpcodes := ip_fingerOpcodes ip\<rparr>) = ip_stack r" by (simp add: ip_stack_def)
  then have stack: "ip_stack r = ip_stack ip" using ops by metis
  let ?n = "length (filter (\<lambda>c. opcode_index c = i) (fe_opcodes ?e))"
  have ip2: "okay \<and> ip_ops ip2 i = take (length (ip_ops r i) - ?n) (ip_ops r i)"
    using assms(2) k
    by (auto simp: manager_unload_def ip1 fold_drop_ops butlast_funpow)
  show ?thesis
  proof (cases "fp = NULL_fingerprint")
    case False
    then have "mset (map fst (fe_loader ?e)) = mset (fe_opcodes ?e)" using table_opcodes e by auto
    then have "mset (filter (\<lambda>c. opcode_index c = i) (map fst (fe_loader ?e))) =
        mset (filter (\<lambda>c. opcode_index c = i) (fe_opcodes ?e))" by simp
    then have "length (filter (\<lambda>c. opcode_index c = i) (map fst (fe_loader ?e))) = ?n"
      by (metis size_mset)
    then have "?n = length (filter (\<lambda>x. opcode_index (fst x) = i) (fe_loader ?e))"
      by (simp add: filter_map comp_def)
    then show ?thesis using ip2 ops False stack by (simp add: ip1 stack_simps)
  next
    case True
    have null: "\<forall>e\<in>set ImplementedFingerprints. fe_fprint e = NULL_fingerprint \<longrightarrow>
        fe_loader e = finger_NULL_load \<and> fe_opcodes e = ''ABCDEFGHIJKLMNOPQRSTUVWXYZ''"
      by (simp add: ImplementedFingerprints_def)
    have letters: "map fst finger_NULL_load = ''ABCDEFGHIJKLMNOPQRSTUVWXY''"
      by (simp add: finger_NULL_load_def comp_def upt_conv_Cons char_of_def bit_0)
    have l: "fe_loader ?e = finger_NULL_load" "fe_opcodes ?e = map fst finger_NULL_load @ ''Z''"
      using null e True unfolding letters by auto
    have "length (filter (\<lambda>x. opcode_index (fst x) = i) (fe_loader ?e)) =
        length (filter (\<lambda>c. opcode_index c = i) (map fst finger_NULL_load))"
      by (simp add: l filter_map comp_def)
    then have n: "?n = length (filter (\<lambda>x. opcode_index (fst x) = i) (fe_loader ?e)) +
        (if opcode_index (CHR ''Z'') = i then 1 else 0)"
      by (simp add: l(2))
    show ?thesis using ip2 ops True stack n
      by (auto simp: ip1 stack_simps butlast_conv_take)
  qed
qed

theorem manager_load_unload_witness:
  "\<exists>ip1 ip2. manager_load (\<lambda>_. True) (\<lambda>_. True) False sample_ip 0x4d4f4455 = (True, ip1) \<and>
     ip_ops ip1 (opcode_index (CHR ''M'')) = [Some (Fp_MODU MODU_signed_result)] \<and>
     manager_unload False ip1 0x4d4f4455 = (True, ip2) \<and> ip_ops ip2 (opcode_index (CHR ''M'')) = []"
proof -
  let ?load = "manager_load (\<lambda>_. True) (\<lambda>_. True) False sample_ip 0x4d4f4455"
  have entry: "find_fingerprint False 0x4d4f4455 = Some 15"
    "ImplementedFingerprints ! 15 =
       \<lparr>fe_fprint = 0x4d4f4455, fe_loader = finger_MODU_load, fe_opcodes = ''MRU'', fe_safe = True\<rparr>"
    by (simp_all add: find_fingerprint_def ImplementedFingerprints_def cell_le_iff)
  have okay: "fst ?load" and ops: "ip_ops (snd ?load) (opcode_index (CHR ''M'')) = [Some (Fp_MODU MODU_signed_result)]"
    by (simp_all add: manager_load_def entry finger_MODU_load_def opcode_stack_push_def Let_def
        sample_ip_def empty_opcode_stack_def opcode_index_def OPCODE_ALLOCCHUNKSIZE_def ops_list_def)
  have load: "?load = (True, snd ?load)" using okay by (metis prod.collapse)
  obtain okay2 ip2 where unload: "manager_unload False (snd ?load) 0x4d4f4455 = (okay2, ip2)"
    by (cases "manager_unload False (snd ?load) 0x4d4f4455")
  have "okay2 \<and> ip_ops ip2 (opcode_index (CHR ''M'')) = []"
    using manager_load_unload [OF load unload, of "opcode_index (CHR ''M'')"] by (simp add: sample_ip_def)
  then have "manager_unload False (snd ?load) 0x4d4f4455 = (True, ip2)"
    "ip_ops ip2 (opcode_index (CHR ''M'')) = []" using unload by simp_all
  with load ops show ?thesis by blast
qed

text \<open>
  The sandbox: no instruction of a fingerprint that touches files, the file system, the network or
  another interpreter is on an opcode stack.
\<close>

definition ip_sandboxed :: "instructionPointer \<Rightarrow> bool" where
  "ip_sandboxed ip \<longleftrightarrow> (\<forall>i. \<forall>func\<in>set (ip_ops ip i). opcode_safe func)"

lemma ip_sandboxed_unload: "ip_sandboxed ip \<Longrightarrow> ip_sandboxed (snd (manager_unload sandbox ip fp))"
  by (auto simp: manager_unload_def ip_sandboxed_def fold_drop_ops butlast_funpow
      dest!: in_set_takeD split: option.splits)

lemma ip_sandboxed_load:
  assumes "ip_sandboxed ip"
  shows "ip_sandboxed (snd (manager_load al setup True ip fp))"
proof -
  obtain okay ip' where load: "manager_load al setup True ip fp = (okay, ip')"
    by (cases "manager_load al setup True ip fp")
  from manager_load_cases [OF load] show ?thesis
  proof (elim disjE exE conjE)
    fix k r
    assume k: "find_fingerprint True fp = Some k"
      and run: "run_loader al (fe_loader (ImplementedFingerprints ! k)) ip = (okay, r)"
      and ip': "ip' = (if okay then ip_set_stack (stack_push (stack_push (ip_stack r) fp) 1) r else r)"
    let ?e = "ImplementedFingerprints ! k"
    have "?e \<in> set ImplementedFingerprints" "fe_safe ?e"
      using find_fingerprint_spec [where sandbox = True and fp = fp] k by auto
    then have safe: "\<forall>x\<in>set (fe_loader ?e). opcode_safe (Some (snd x))" using table_safe by blast
    have "opcode_safe func" if "func \<in> set (ip_ops r i)" for func i
    proof -
      obtain n where "ip_ops r i = ip_ops ip i @ map (\<lambda>x. Some (snd x))
          (filter (\<lambda>x. opcode_index (fst x) = i) (take n (fe_loader ?e)))"
        using run_loader_partial [OF run, of i] by blast
      then show ?thesis using that assms safe by (auto simp: ip_sandboxed_def dest: in_set_takeD)
    qed
    then show ?thesis by (simp add: load ip' ip_sandboxed_def)
  qed (use assms load in simp)
qed

end
