(* ===== verification/Iplist.thy ===== *)
theory Iplist
  imports Manager Fspace_Bounds
begin

text \<open>
  Instruction pointers and their list, \<^verbatim>\<open>src/ip.c\<close> (concurrent build with
  \<^verbatim>\<open>LARGE_IPLIST\<close>: the list holds pointers, and the null pointer is \<open>None\<close>): creation, moving
  with wrapping, duplication for the \<open>t\<close> instruction and termination for \<open>@\<close>.
  \<open>DIAG_OOM\<close> ends the process: the result \<open>None\<close> of \<open>iplist_duplicate_ip\<close>.
\<close>

section \<open>One instruction pointer\<close>

text \<open>
  When fingerprints are disabled the opcode stacks stay as allocated, and are never read; they are
  the empty ones here.
\<close>

definition ip_create_in_place :: "allocator \<Rightarrow> instructionPointer option" where
  "ip_create_in_place al =
     (case stackstack_create al of
        None \<Rightarrow> None
      | Some stackstack \<Rightarrow> Some
         \<lparr>ip_position = vector 0 0, ip_delta = vector 1 0, ip_storageOffset = vector 0 0,
          ip_mode = IpmCODE, ip_needMove = True, ip_stringLastWasSpace = False,
          ip_fingerSUBRisRelative = False, ip_ID = 0, ip_stackstack = stackstack,
          ip_fingerOpcodes = (\<lambda>_. empty_opcode_stack), ip_fingerHRTItimestamp = None\<rparr>)"

definition ip_duplicate_in_place ::
    "allocator \<Rightarrow> bool \<Rightarrow> instructionPointer \<Rightarrow> instructionPointer option" where
  "ip_duplicate_in_place al disable_fingerprints old =
     (case stackstack_duplicate al (ip_stackstack old) of
        None \<Rightarrow> None
      | Some stackstack \<Rightarrow>
        (let new = old\<lparr>ip_stackstack := stackstack\<rparr>;
             new = (if \<not> disable_fingerprints then manager_duplicate old new else new)
         in Some (new\<lparr>ip_fingerHRTItimestamp := None\<rparr>)))"

definition ip_forward :: "instructionPointer \<Rightarrow> fungeSpace \<Rightarrow> instructionPointer \<times> fungeSpace" where
  "ip_forward ip fspace =
     (let ip = ip_forward_no_wrap ip;
          (position, fspace) = fungespace_wrap (ip_position ip) (ip_delta ip) fspace
      in (ip\<lparr>ip_position := position\<rparr>, fspace))"

definition ip_backward :: "instructionPointer \<Rightarrow> fungeSpace \<Rightarrow> instructionPointer \<times> fungeSpace" where
  "ip_backward ip fspace =
     (let ip = ip_backward_no_wrap ip;
          (position, fspace) = fungespace_wrap (ip_position ip) (ip_delta ip) fspace
      in (ip\<lparr>ip_position := position\<rparr>, fspace))"

definition ip_set_position ::
    "instructionPointer \<Rightarrow> funge_vector \<Rightarrow> fungeSpace \<Rightarrow> instructionPointer \<times> fungeSpace" where
  "ip_set_position ip position fspace =
     (let (position, fspace) = fungespace_wrap position (ip_delta ip) fspace
      in (ip\<lparr>ip_position := position\<rparr>, fspace))"

section \<open>The list\<close>

definition IP_ALLOCCHUNKSIZE :: nat where
  "IP_ALLOCCHUNKSIZE = 256"

definition sizeof_ipList :: nat where
  "sizeof_ipList = 24"

record ipList =
  il_size :: nat
  il_top :: nat
  il_highestID :: nat
  il_ips :: "nat \<Rightarrow> instructionPointer option"

text \<open>\<open>pool\<close> tells whether the memory pool can be set up and hands out an instruction pointer.\<close>

definition iplist_create :: "allocator \<Rightarrow> bool \<Rightarrow> ipList option" where
  "iplist_create al pool =
     (if \<not> al (sizeof_ipList + sizeof_pointer * IP_ALLOCCHUNKSIZE) then None
      else if \<not> pool then None
      else (case ip_create_in_place al of
              None \<Rightarrow> None
            | Some ip \<Rightarrow> Some \<lparr>il_size = IP_ALLOCCHUNKSIZE, il_top = 0, il_highestID = 0,
                               il_ips = (\<lambda>i. if i = 0 then Some ip else None)\<rparr>))"

definition move_up :: "nat \<Rightarrow> nat \<Rightarrow> (nat \<Rightarrow> 'a) \<Rightarrow> (nat \<Rightarrow> 'a)" where
  "move_up index tp ips = fold (\<lambda>i ips. ips(i := ips (i - 1))) (rev [Suc index..<Suc (Suc tp)]) ips"

definition move_down :: "nat \<Rightarrow> nat \<Rightarrow> (nat \<Rightarrow> 'a) \<Rightarrow> (nat \<Rightarrow> 'a)" where
  "move_down index tp ips = fold (\<lambda>i ips. ips(i := ips (i + 1))) [index..<tp] ips"

text \<open>
  The result is the index to go on with, \<open>-1\<close> when the list could not grow. The instruction
  pointer at \<open>index\<close> exists.
\<close>

definition iplist_duplicate_ip ::
    "allocator \<Rightarrow> bool \<Rightarrow> bool \<Rightarrow> ipList \<Rightarrow> nat \<Rightarrow> fungeSpace \<Rightarrow> (int \<times> ipList \<times> fungeSpace) option" where
  "iplist_duplicate_ip al pool disable_fingerprints list index fspace =
     (if il_size list \<le> il_top list + 1 \<and>
         \<not> al (size_t (sizeof_ipList + sizeof_pointer * (il_size list + IP_ALLOCCHUNKSIZE)))
      then Some (- 1, list, fspace)
      else
        (let list = (if il_size list \<le> il_top list + 1
                     then list\<lparr>il_size := il_size list + IP_ALLOCCHUNKSIZE\<rparr> else list);
             list = (if index \<noteq> il_top list
                     then list\<lparr>il_ips := move_up index (il_top list) (il_ips list)\<rparr> else list)
         in if \<not> pool then None
            else (case ip_duplicate_in_place al disable_fingerprints (the (il_ips list index)) of
                    None \<Rightarrow> None
                  | Some new \<Rightarrow>
                    (let (new, fspace) = ip_forward (ip_reverse new) fspace;
                         highestID = il_highestID list + 1;
                         new = new\<lparr>ip_ID := of_nat highestID\<rparr>
                     in Some (int index,
                          list\<lparr>il_ips := (il_ips list)(index + 1 := Some new),
                               il_highestID := highestID, il_top := il_top list + 1\<rparr>,
                          fspace)))))"

definition iplist_terminate_ip :: "ipList \<Rightarrow> nat \<Rightarrow> nat \<times> ipList" where
  "iplist_terminate_ip list index =
     (let list = (if index \<noteq> il_top list
                  then list\<lparr>il_ips := move_down index (il_top list) (il_ips list)\<rparr> else list);
          list = list\<lparr>il_ips := (il_ips list)(il_top list := None), il_top := il_top list - 1\<rparr>
      in (if 0 < index then index - 1 else 0, list))"

section \<open>The list as a list\<close>

definition il_list :: "ipList \<Rightarrow> instructionPointer option list" where
  "il_list l = map (il_ips l) [0..<Suc (il_top l)]"

lemma move_up_spec:
  "index \<le> tp \<Longrightarrow> move_up index tp ips i =
     (if index < i \<and> i \<le> Suc tp then ips (i - 1) else ips i)"
proof (induction tp arbitrary: i ips)
  case 0
  then show ?case by (auto simp: move_up_def le_Suc_eq)
next
  case (Suc tp)
  show ?case
  proof (cases "index = Suc tp")
    case True
    then show ?thesis by (auto simp: move_up_def not_le le_Suc_eq)
  next
    case False
    let ?ips = "ips(Suc (Suc tp) := ips (Suc tp))"
    have "move_up index (Suc tp) ips = move_up index tp ?ips"
      using Suc.prems False by (simp add: move_up_def)
    then show ?thesis using Suc False by (auto simp: Suc.IH le_Suc_eq)
  qed
qed

lemma move_down_spec:
  "index \<le> tp \<Longrightarrow> move_down index tp ips i = (if index \<le> i \<and> i < tp then ips (i + 1) else ips i)"
proof (induction tp arbitrary: i)
  case (Suc tp)
  show ?case
  proof (cases "index = Suc tp")
    case True
    then show ?thesis by (auto simp: move_down_def)
  next
    case False
    then have "move_down index (Suc tp) ips =
        (move_down index tp ips)(tp := move_down index tp ips (tp + 1))"
      using Suc.prems by (simp add: move_down_def)
    then show ?thesis using Suc False by (auto simp: le_less_Suc_eq)
  qed
qed (simp add: move_down_def)

lemma il_list_nth: "i \<le> il_top l \<Longrightarrow> il_list l ! i = il_ips l i"
  by (simp add: il_list_def nth_map del: upt_Suc)

lemma length_il_list [simp]: "length (il_list l) = Suc (il_top l)"
  by (simp add: il_list_def)

lemma terminate_list:
  assumes "index \<le> il_top l" "0 < il_top l"
  shows "il_list (snd (iplist_terminate_ip l index)) =
           take index (il_list l) @ drop (Suc index) (il_list l)"
  using assms
  by (auto simp: iplist_terminate_ip_def Let_def il_list_def nth_append move_down_spec
      simp del: upt_Suc intro!: nth_equalityI)

text \<open>
  A list is well formed when it fits its allocation, every place up to the top holds an instruction
  pointer, and the IDs are distinct and at most the highest ID given out.
\<close>

definition il_IDs :: "ipList \<Rightarrow> cell list" where
  "il_IDs l = map (\<lambda>ip. ip_ID (the ip)) (il_list l)"

definition iplist_ok :: "ipList \<Rightarrow> bool" where
  "iplist_ok l \<longleftrightarrow> il_top l < il_size l \<and> None \<notin> set (il_list l) \<and> distinct (il_IDs l) \<and>
     (\<forall>n\<in>set (il_IDs l). unat n \<le> il_highestID l)"

lemma iplist_ok_live: "iplist_ok l \<Longrightarrow> i \<le> il_top l \<Longrightarrow> \<exists>ip. il_ips l i = Some ip"
  using nth_mem [of i "il_list l"]
  by (cases "il_ips l i") (auto simp: iplist_ok_def il_list_nth less_Suc_eq_le)

lemma iplist_ok_create: "iplist_create al pool = Some l \<Longrightarrow> iplist_ok l"
  by (auto simp: iplist_create_def ip_create_in_place_def iplist_ok_def il_IDs_def il_list_def
      IP_ALLOCCHUNKSIZE_def split: if_splits option.splits)

lemma terminate_ok:
  assumes "iplist_ok l" "index \<le> il_top l" "0 < il_top l"
  shows "iplist_ok (snd (iplist_terminate_ip l index))"
proof -
  have "il_top (snd (iplist_terminate_ip l index)) < il_size (snd (iplist_terminate_ip l index)) \<and>
      il_highestID (snd (iplist_terminate_ip l index)) = il_highestID l"
    using assms by (auto simp: iplist_terminate_ip_def Let_def iplist_ok_def)
  moreover have "il_list l = take index (il_list l) @ il_list l ! index # drop (Suc index) (il_list l)"
    using assms(2) by (intro id_take_nth_drop) simp
  then have "il_IDs l = map (\<lambda>ip. ip_ID (the ip)) (take index (il_list l)) @
      ip_ID (the (il_list l ! index)) # map (\<lambda>ip. ip_ID (the ip)) (drop (Suc index) (il_list l))"
    unfolding il_IDs_def by (metis list.simps(9) map_append)
  ultimately show ?thesis
    using assms terminate_list [OF assms(2,3)]
    by (auto simp: iplist_ok_def il_IDs_def dest: in_set_takeD in_set_dropD)
qed

lemma stackstack_duplicate_lists:
  "stackstack_duplicate al ss = Some ss' \<Longrightarrow> ss_lists ss' = ss_lists ss"
  by (auto simp: stackstack_duplicate_def ss_lists_def intro!: map_upt_cong stack_list_duplicate
      split: if_splits simp del: upt_Suc)

text \<open>A split, in terms of the list of instruction pointers.\<close>

lemma ip_forward_fields:
  "fst (ip_forward ip f) = ip\<lparr>ip_position := fst (fungespace_wrap (vector_add (ip_position ip) (ip_delta ip))
     (ip_delta ip) f)\<rparr>"
  by (simp add: ip_forward_def ip_forward_no_wrap_def Let_def split_beta)

lemma move_up_list:
  assumes "index \<le> tp"
  shows "map ((if index \<noteq> tp then move_up index tp f else f)(Suc index := x)) [0..<Suc (Suc tp)] =
    take (Suc index) (map f [0..<Suc tp]) @ x # drop (Suc index) (map f [0..<Suc tp])"
proof (rule nth_equalityI)
  fix i
  assume "i < length (map ((if index \<noteq> tp then move_up index tp f else f)(Suc index := x)) [0..<Suc (Suc tp)])"
  then have i: "i \<le> Suc tp" by simp
  consider "i < Suc index" | "i = Suc index" | j where "i = Suc (Suc (index + j))"
    by (metis add_Suc less_imp_Suc_add linorder_neqE_nat)
  then show "map ((if index \<noteq> tp then move_up index tp f else f)(Suc index := x)) [0..<Suc (Suc tp)] ! i =
    (take (Suc index) (map f [0..<Suc tp]) @ x # drop (Suc index) (map f [0..<Suc tp])) ! i"
    using assms i
    by cases (auto simp: nth_append move_up_spec min_def simp del: upt_Suc)
qed (use assms in simp)

lemma duplicate_cases:
  assumes "iplist_duplicate_ip al pool df l index f = Some (r, l', f')" "r \<noteq> -1" "index \<le> il_top l"
  shows "\<exists>dup child. ip_duplicate_in_place al df (the (il_ips l index)) = Some dup \<and>
      child = (fst (ip_forward (ip_reverse dup) f))\<lparr>ip_ID := of_nat (il_highestID l + 1)\<rparr> \<and>
      r = int index \<and> f' = snd (ip_forward (ip_reverse dup) f) \<and>
      il_list l' = take (Suc index) (il_list l) @ Some child # drop (Suc index) (il_list l) \<and>
      il_highestID l' = il_highestID l + 1 \<and> il_top l' = il_top l + 1 \<and>
      (il_top l < il_size l \<longrightarrow> il_top l' < il_size l')"
proof -
  let ?l = "if il_size l \<le> il_top l + 1 then l\<lparr>il_size := il_size l + IP_ALLOCCHUNKSIZE\<rparr> else l"
  let ?l2 = "if index \<noteq> il_top ?l then ?l\<lparr>il_ips := move_up index (il_top ?l) (il_ips ?l)\<rparr> else ?l"
  have at: "il_ips ?l2 index = il_ips l index"
    using assms(3) by (auto simp: move_up_spec)
  obtain dup where dup: "ip_duplicate_in_place al df (the (il_ips ?l2 index)) = Some dup"
    and l': "l' = ?l2\<lparr>il_ips := (il_ips ?l2)(index + 1 := Some ((fst (ip_forward (ip_reverse dup) f))
          \<lparr>ip_ID := of_nat (il_highestID ?l2 + 1)\<rparr>)),
        il_highestID := il_highestID ?l2 + 1, il_top := il_top ?l2 + 1\<rparr>"
    and r: "r = int index" "f' = snd (ip_forward (ip_reverse dup) f)"
    using assms(1,2) unfolding iplist_duplicate_ip_def Let_def
    by (auto split: if_splits option.splits simp del: One_nat_def simp: split_beta)
  have "il_list l' = take (Suc index) (il_list l) @
      Some ((fst (ip_forward (ip_reverse dup) f))\<lparr>ip_ID := of_nat (il_highestID l + 1)\<rparr>) #
      drop (Suc index) (il_list l)"
    using move_up_list [OF assms(3), of "il_ips l"]
    by (cases "index = il_top l") (simp_all add: l' il_list_def del: upt_Suc)
  then show ?thesis
    using dup r at by (auto simp: l' IP_ALLOCCHUNKSIZE_def)
qed

lemma duplicate_ok:
  assumes "iplist_ok l" "index \<le> il_top l" "il_highestID l < 2 ^ 64 - 1" "r \<noteq> -1"
    and "iplist_duplicate_ip al pool df l index f = Some (r, l', f')"
  shows "iplist_ok l'"
proof -
  obtain child where l': "il_list l' = take (Suc index) (il_list l) @ Some child # drop (Suc index) (il_list l)"
    "ip_ID child = of_nat (il_highestID l + 1)" "il_highestID l' = il_highestID l + 1"
    "il_top l' = il_top l + 1" "il_top l < il_size l \<longrightarrow> il_top l' < il_size l'"
    using duplicate_cases [OF assms(5,4,2)] by auto
  have new: "unat (of_nat (il_highestID l + 1) :: cell) = il_highestID l + 1"
    using assms(3) by (simp add: unat_of_nat take_bit_nat_eq_self del: of_nat_add of_nat_Suc)
  then have fresh: "of_nat (il_highestID l + 1) \<notin> set (il_IDs l)"
    using assms(1) by (force simp: iplist_ok_def)
  have "mset (take n xs) + mset (drop n xs) = mset xs" for n and xs :: "instructionPointer option list"
    by (simp flip: mset_append)
  then have add_child: "mset (il_list l') = add_mset (Some child) (mset (il_list l))"
    by (simp add: l'(1))
  have IDs: "mset (il_IDs l') = add_mset (of_nat (il_highestID l + 1)) (mset (il_IDs l))"
    using l'(2) by (simp add: il_IDs_def add_child)
  then have "set (il_IDs l') = insert (of_nat (il_highestID l + 1)) (set (il_IDs l))"
    by (metis set_mset_add_mset_insert set_mset_mset)
  moreover have "distinct (il_IDs l')"
    using fresh IDs assms(1) unfolding iplist_ok_def
    by (metis distinct.simps(2) mset.simps(2) mset_eq_imp_distinct_iff)
  moreover have "None \<notin> set (il_list l')"
    using assms(1) by (auto simp: l'(1) iplist_ok_def dest: in_set_takeD in_set_dropD)
  ultimately show ?thesis
    using assms(1) l'(3-5) new by (auto simp: iplist_ok_def)
qed

text \<open>
  C24: a split (\<open>iplist_duplicate_ip\<close>) keeps the list well formed with pairwise distinct IDs, puts
  the child directly after its parent and leaves every other instruction pointer as it was. The
  child carries a fresh ID, runs in the opposite direction of its parent, holds equal stacks on all
  levels, and terminating it again gives back the list. The code executes the list from the top
  downwards, so the child first runs in the next round.
\<close>

theorem iplist_split:
  assumes "iplist_ok l" "index \<le> il_top l" "il_highestID l < 2 ^ 64 - 1"
    and "iplist_duplicate_ip al pool df l index f = Some (r, l', f')" "r \<noteq> -1"
  shows "iplist_ok l' \<and> r = int index \<and>
    (\<exists>parent child. il_ips l index = Some parent \<and>
       il_list l' = take (Suc index) (il_list l) @ Some child # drop (Suc index) (il_list l) \<and>
       ip_ID child \<notin> set (il_IDs l) \<and> ip_delta child = ip_delta (ip_reverse parent) \<and>
       ss_lists (ip_stackstack child) = ss_lists (ip_stackstack parent) \<and>
       ip_storageOffset child = ip_storageOffset parent \<and>
       il_list (snd (iplist_terminate_ip l' (Suc index))) = il_list l)"
proof -
  obtain parent where parent: "il_ips l index = Some parent"
    using iplist_ok_live [OF assms(1,2)] by blast
  obtain dup child where dup: "ip_duplicate_in_place al df parent = Some dup"
    and child: "child = (fst (ip_forward (ip_reverse dup) f))\<lparr>ip_ID := of_nat (il_highestID l + 1)\<rparr>"
    and l': "il_list l' = take (Suc index) (il_list l) @ Some child # drop (Suc index) (il_list l)"
    and r: "r = int index" and tp: "il_top l' = il_top l + 1"
    using duplicate_cases [OF assms(4,5,2)] parent by auto
  have fields: "ip_delta child = ip_delta (ip_reverse parent) \<and>
       ss_lists (ip_stackstack child) = ss_lists (ip_stackstack parent) \<and>
       ip_storageOffset child = ip_storageOffset parent"
    using dup stackstack_duplicate_lists
    by (auto simp: child ip_forward_fields ip_reverse_def ip_duplicate_in_place_def Let_def
        manager_duplicate_def split: option.splits if_splits)
  have ok: "iplist_ok l'" using duplicate_ok [OF assms(1-3,5,4)] .
  then have "distinct (map (\<lambda>ip. ip_ID (the ip)) (take (Suc index) (il_list l)) @
      ip_ID child # map (\<lambda>ip. ip_ID (the ip)) (drop (Suc index) (il_list l)))"
    by (simp add: iplist_ok_def il_IDs_def l' del: distinct_append)
  moreover have "il_IDs l = map (\<lambda>ip. ip_ID (the ip)) (take (Suc index) (il_list l)) @
      map (\<lambda>ip. ip_ID (the ip)) (drop (Suc index) (il_list l))"
    by (simp add: il_IDs_def flip: map_append)
  ultimately have "ip_ID child \<notin> set (il_IDs l)"
    by simp
  moreover have "il_list (snd (iplist_terminate_ip l' (Suc index))) = il_list l"
    using assms(2) tp by (simp add: terminate_list l' min_def)
  ultimately show ?thesis using ok r parent fields l' by blast
qed

text \<open>The list a program starts with, and its split.\<close>

definition sample_list :: ipList where
  "sample_list = the (iplist_create (\<lambda>_. True) True)"

lemma sample_list_ok: "iplist_ok sample_list"
  by (rule iplist_ok_create [of "\<lambda>_. True" True])
    (simp add: sample_list_def iplist_create_def ip_create_in_place_def stackstack_create_def
      stack_create_def)

lemma sample_list_fields: "il_top sample_list = 0" "il_highestID sample_list = 0" "il_size sample_list = 256"
  by (simp_all add: sample_list_def iplist_create_def ip_create_in_place_def stackstack_create_def
      stack_create_def IP_ALLOCCHUNKSIZE_def)

theorem iplist_split_witness:
  "\<exists>r l' f'. iplist_duplicate_ip (\<lambda>_. True) True False sample_list 0 fungespace_create = Some (r, l', f') \<and>
     r = 0 \<and> length (il_list l') = 2 \<and> iplist_ok l'"
proof -
  obtain ip where "il_ips sample_list 0 = Some ip"
    using iplist_ok_live [OF sample_list_ok] by blast
  then have "\<exists>l' f'. iplist_duplicate_ip (\<lambda>_. True) True False sample_list 0 fungespace_create = Some (0, l', f')"
    by (simp add: iplist_duplicate_ip_def sample_list_fields ip_duplicate_in_place_def
        stackstack_duplicate_def stack_duplicate_def Let_def split_beta)
  then obtain l' f' where run: "iplist_duplicate_ip (\<lambda>_. True) True False sample_list 0 fungespace_create = Some (0, l', f')"
    by blast
  have "iplist_ok l' \<and> (\<exists>child. il_list l' =
      take (Suc 0) (il_list sample_list) @ Some child # drop (Suc 0) (il_list sample_list))"
    using iplist_split [OF sample_list_ok _ _ run] by (auto simp: sample_list_fields)
  moreover from this have "length (il_list l') = 2"
    by (auto simp: sample_list_fields simp del: length_il_list simp add: length_il_list [of sample_list])
  ultimately show ?thesis using run by blast
qed

text \<open>
  Termination (\<open>iplist_terminate_ip\<close>) removes exactly the instruction pointer at the index,
  keeps the order of the others and a well formed list, clears the place that fell free, and
  answers the index of the one before.
\<close>

theorem iplist_terminate:
  assumes "iplist_ok l" "index \<le> il_top l" "0 < il_top l"
    and "iplist_terminate_ip l index = (next, l')"
  shows "iplist_ok l' \<and> il_list l' = take index (il_list l) @ drop (Suc index) (il_list l) \<and>
    il_ips l' (il_top l) = None \<and> next = index - 1 \<and> il_highestID l' = il_highestID l"
  using terminate_ok [OF assms(1-3)] terminate_list [OF assms(2,3)] assms(4)
  by (auto simp: iplist_terminate_ip_def Let_def split: if_splits)

theorem iplist_terminate_witness:
  "\<exists>l next l'. iplist_terminate_ip l 1 = (next, l') \<and> il_list l' = il_list sample_list \<and> next = 0"
proof -
  obtain ip where ip: "il_ips sample_list 0 = Some ip" "ip_ID ip = 0"
    by (simp add: sample_list_def iplist_create_def ip_create_in_place_def stackstack_create_def
        stack_create_def)
  let ?l = "sample_list\<lparr>il_top := 1, il_highestID := 1, il_ips := (il_ips sample_list)(1 := Some (ip\<lparr>ip_ID := 1\<rparr>))\<rparr>"
  have "iplist_ok ?l"
    using ip by (simp add: iplist_ok_def il_IDs_def il_list_def sample_list_fields)
  from iplist_terminate [OF this, of 1 "fst (iplist_terminate_ip ?l 1)" "snd (iplist_terminate_ip ?l 1)"]
  have "il_list (snd (iplist_terminate_ip ?l 1)) = take 1 (il_list ?l) @ drop 2 (il_list ?l) \<and>
      fst (iplist_terminate_ip ?l 1) = 0"
    by simp
  moreover have "take 1 (il_list ?l) @ drop 2 (il_list ?l) = il_list sample_list"
    by (simp add: il_list_def sample_list_fields)
  ultimately show ?thesis by (metis prod.collapse)
qed

end
