(* ===== verification/Input.thy ===== *)
theory Input
  imports Cells
begin

text \<open>
  Line-buffered input, \<^verbatim>\<open>src/input.c\<close>, over the line reader of \<^verbatim>\<open>src/support.c\<close>:
  reading a character for \<open>~\<close>, a number for \<open>&\<close> and a whole line for the fingerprints.
  Standard input is the list of the bytes that are still to come. The buffer \<open>lastline\<close> is the
  list of its \<open>linelength\<close> bytes, the terminating zero byte after them left implicit;
  \<open>lastline_current\<close> is an offset into it, or the null pointer.
\<close>

section \<open>The buffer\<close>

record input_state =
  in_stdin :: "byte list"
  in_lastline :: "byte list option"
  in_current :: "nat option"

fun cf_getdelim_loop :: "byte \<Rightarrow> byte list \<Rightarrow> byte list \<times> byte list" where
  "cf_getdelim_loop delimiter [] = ([], [])"
| "cf_getdelim_loop delimiter (i # stream) =
     (if i = delimiter then ([i], stream)
      else (let (line, rest) = cf_getdelim_loop delimiter stream in (i # line, rest)))"

definition cf_getline :: "byte list \<Rightarrow> (byte list \<times> byte list) option" where
  "cf_getline stream =
     (let (line, rest) = cf_getdelim_loop 10 stream in if line = [] then None else Some (line, rest))"

definition linelength :: "input_state \<Rightarrow> nat" where
  "linelength st = (case in_lastline st of None \<Rightarrow> 0 | Some line \<Rightarrow> length line)"

definition IS_LINE_END :: "input_state \<Rightarrow> nat \<Rightarrow> bool" where
  "IS_LINE_END st ptr \<longleftrightarrow> linelength st \<le> ptr"

definition get_line :: "input_state \<Rightarrow> bool \<times> input_state" where
  "get_line st =
     (if in_lastline st = None \<or> in_current st = None \<or> IS_LINE_END st (the (in_current st)) then
        (case cf_getline (in_stdin st) of
           None \<Rightarrow> (False, st)
         | Some (line, rest) \<Rightarrow>
             (True, st\<lparr>in_stdin := rest, in_lastline := Some line, in_current := Some 0\<rparr>))
      else (True, st))"

definition discard_line :: "input_state \<Rightarrow> input_state" where
  "discard_line st = st\<lparr>in_lastline := None, in_current := None\<rparr>"

text \<open>The byte at an offset of the buffer; the byte after the line is the terminating zero.\<close>

definition line_byte :: "input_state \<Rightarrow> nat \<Rightarrow> byte" where
  "line_byte st i = (case in_lastline st of None \<Rightarrow> 0 | Some line \<Rightarrow> (line @ [0]) ! i)"

definition input_getchar :: "input_state \<Rightarrow> cell option \<times> input_state" where
  "input_getchar st =
     (let (okay, st) = get_line st in
      if \<not> okay then (None, st)
      else
        (let tmp = line_byte st (the (in_current st));
             st = st\<lparr>in_current := Some (the (in_current st) + 1)\<rparr>;
             st = (if IS_LINE_END st (the (in_current st)) then discard_line st else st)
         in (Some (ucast tmp), st)))"

text \<open>The line is copied as a C string: up to its first zero byte.\<close>

definition input_getline :: "input_state \<Rightarrow> byte list option \<times> input_state" where
  "input_getline st =
     (let (okay, st) = get_line st in
      if \<not> okay then (None, st)
      else (Some (takeWhile (\<lambda>b. b \<noteq> 0) (drop (the (in_current st)) (the (in_lastline st)))),
            discard_line st))"

section \<open>Numbers\<close>

text \<open>The place of a byte in \<open>digits\<close>; the terminating zero of that string is found at 36.\<close>

definition digits_index :: "byte \<Rightarrow> nat option" where
  "digits_index c =
     (if c = 0 then Some 36
      else if 48 \<le> c \<and> c \<le> 57 then Some (unat c - 48)
      else if 97 \<le> c \<and> c \<le> 122 then Some (unat c - 97 + 10)
      else None)"

definition isdigit :: "byte \<Rightarrow> bool" where
  "isdigit c \<longleftrightarrow> 48 \<le> c \<and> c \<le> 57"

definition isxdigit :: "byte \<Rightarrow> bool" where
  "isxdigit c \<longleftrightarrow> isdigit c \<or> 97 \<le> c \<and> c \<le> 102 \<or> 65 \<le> c \<and> c \<le> 70"

text \<open>
  The loop over \<open>s[i]\<close>, with the bytes of \<open>s\<close> from \<open>i\<close> on. The result is the value and the index
  of the byte that stopped the loop.
\<close>

fun parse_int_loop :: "cell \<Rightarrow> byte list \<Rightarrow> cell \<Rightarrow> nat \<Rightarrow> cell \<times> nat" where
  "parse_int_loop base [] result i = (result, i)"
| "parse_int_loop base (c # s) result i =
     (if c_div FUNGECELL_MAX base <s result then (result, i)
      else (case digits_index c of
              None \<Rightarrow> (result, i)
            | Some p \<Rightarrow>
               if base \<le>s of_nat p then (result, i)
               else if FUNGECELL_MAX - of_nat p <s result * base then (result, i)
               else parse_int_loop base s (result * base + of_nat p) (i + 1)))"

definition parse_int :: "byte list \<Rightarrow> cell \<Rightarrow> nat \<Rightarrow> cell \<times> nat" where
  "parse_int s base len = parse_int_loop base (take (len + 1) s) 0 0"

datatype ret_getint = Rgi_success | Rgi_eof | Rgi_noint

text \<open>Whether a byte can start a number, as the three branches test it.\<close>

definition starts_number :: "int \<Rightarrow> byte \<Rightarrow> bool" where
  "starts_number base c =
     (if base = 10 then isdigit c
      else if base = 16 then isxdigit c
      else (case digits_index c of None \<Rightarrow> False | Some p \<Rightarrow> int p < base))"

text \<open>
  The scan of the line from an offset: the offsets up to and including the one of the terminating
  zero are tried. The answer is the offset of the first byte that starts a number.
\<close>

function getint_scan :: "int \<Rightarrow> input_state \<Rightarrow> nat \<Rightarrow> nat option" where
  "getint_scan base st i =
     (if starts_number base (line_byte st i) then Some i
      else if i < linelength st then getint_scan base st (i + 1)
      else None)"
  by pat_completeness auto
termination by (relation "measure (\<lambda>(base, st, i). linelength st - i)") auto

declare getint_scan.simps [simp del]

definition input_getint :: "int \<Rightarrow> input_state \<Rightarrow> ret_getint \<times> cell option \<times> input_state" where
  "input_getint base st =
     (let (okay, st) = get_line st in
      if \<not> okay then (Rgi_eof, None, st)
      else
        (case getint_scan base st (the (in_current st)) of
           None \<Rightarrow> (Rgi_noint, None, st\<lparr>in_current := None\<rparr>)
         | Some start \<Rightarrow>
            (let (value, n) = parse_int (drop start (the (in_lastline st) @ [0])) (of_int base)
                                (start + linelength st);
                 endptr = start + n;
                 st = (if line_byte st endptr = 10 \<or> line_byte st endptr = 13 \<or> IS_LINE_END st endptr
                       then discard_line st else st\<lparr>in_current := Some endptr\<rparr>)
             in (Rgi_success, Some value, st))))"

section \<open>What is still to be read\<close>

text \<open>
  The buffer holds a line only while its offset lies within it; a line holds no newline before its
  last byte, and lacks one only at the end of the input. The bytes not yet consumed are the rest of
  the line and standard input.
\<close>

definition input_ok :: "input_state \<Rightarrow> bool" where
  "input_ok st \<longleftrightarrow> (\<forall>i. in_current st = Some i \<longrightarrow>
     (\<exists>line. in_lastline st = Some line \<and> i < length line \<and> 10 \<notin> set (butlast line) \<and>
        (last line \<noteq> 10 \<longrightarrow> in_stdin st = [])))"

definition unread :: "input_state \<Rightarrow> byte list" where
  "unread st =
     (case in_current st of None \<Rightarrow> [] | Some i \<Rightarrow> drop i (the (in_lastline st))) @ in_stdin st"

definition fresh_input :: "byte list \<Rightarrow> input_state" where
  "fresh_input bytes = \<lparr>in_stdin = bytes, in_lastline = None, in_current = None\<rparr>"

lemma input_ok_fresh [simp]: "input_ok (fresh_input bytes)" "unread (fresh_input bytes) = bytes"
  by (simp_all add: input_ok_def unread_def fresh_input_def)

text \<open>The line that the next byte belongs to, and what follows it.\<close>

definition this_line :: "byte list \<Rightarrow> byte list" where
  "this_line bytes = fst (cf_getdelim_loop 10 bytes)"

definition next_lines :: "byte list \<Rightarrow> byte list" where
  "next_lines bytes = snd (cf_getdelim_loop 10 bytes)"

lemma cf_getdelim_split:
  "cf_getdelim_loop d s = (line, rest) \<Longrightarrow>
     line @ rest = s \<and> (line = [] \<longleftrightarrow> s = []) \<and> d \<notin> set (butlast line) \<and>
     (line \<noteq> [] \<and> last line \<noteq> d \<longrightarrow> rest = [])"
  by (induction d s arbitrary: line rule: cf_getdelim_loop.induct) (auto split: if_splits prod.splits)

lemma cf_getdelim_append:
  "d \<notin> set (butlast line) \<Longrightarrow> line \<noteq> [] \<Longrightarrow> last line \<noteq> d \<longrightarrow> rest = [] \<Longrightarrow>
     cf_getdelim_loop d (line @ rest) = (line, rest)"
  by (induction line) (auto split: if_splits)

lemma cf_getline_cases:
  "cf_getline s = (if s = [] then None else Some (this_line s, next_lines s))"
  using cf_getdelim_split [of 10 s]
  by (cases "cf_getdelim_loop 10 s") (auto simp: cf_getline_def this_line_def next_lines_def)

lemma this_line_split: "this_line s @ next_lines s = s" "this_line s = [] \<longleftrightarrow> s = []"
  using cf_getdelim_split [of 10 s]
  by (cases "cf_getdelim_loop 10 s"; simp add: this_line_def next_lines_def)+

lemma lines_shorter: "s \<noteq> [] \<Longrightarrow> length (next_lines s) < length s"
  using this_line_split [of s] by (metis length_append length_greater_0_conv less_add_same_cancel2)

lemma get_line_ok:
  assumes "input_ok st"
  shows "case get_line st of (okay, st') \<Rightarrow>
     if okay then input_ok st' \<and> unread st' = unread st \<and>
       (\<exists>i line. in_current st' = Some i \<and> in_lastline st' = Some line \<and> i < length line \<and>
          drop i line = this_line (unread st) \<and> in_stdin st' = next_lines (unread st))
     else st' = st \<and> unread st = []"
proof (cases "in_current st")
  case None
  then show ?thesis
    using cf_getdelim_split [of 10 "in_stdin st"]
    by (cases "cf_getdelim_loop 10 (in_stdin st)")
      (auto simp: get_line_def input_ok_def unread_def cf_getline_cases this_line_def next_lines_def)
next
  case (Some i)
  then obtain line where line: "in_lastline st = Some line" "i < length line"
    "10 \<notin> set (butlast line)" "last line \<noteq> 10 \<longrightarrow> in_stdin st = []"
    using assms by (auto simp: input_ok_def)
  then have "cf_getdelim_loop 10 (drop i line @ in_stdin st) = (drop i line, in_stdin st)"
    by (intro cf_getdelim_append) (auto simp: butlast_drop dest: in_set_dropD)
  then show ?thesis
    using assms Some line
    by (simp add: get_line_def unread_def IS_LINE_END_def linelength_def this_line_def next_lines_def)
qed

text \<open>
  \<open>input_getchar\<close> hands out the bytes of standard input one by one, in order, none lost and
  none repeated, whatever the lines are; it fails exactly at the end of the input.
\<close>

theorem input_getchar_spec:
  assumes "input_ok st"
  shows "case input_getchar st of (c, st') \<Rightarrow> input_ok st' \<and>
     (case unread st of [] \<Rightarrow> c = None \<and> unread st' = []
      | b # bs \<Rightarrow> c = Some (ucast b) \<and> unread st' = bs)"
proof -
  obtain okay s where s: "get_line st = (okay, s)" by (cases "get_line st")
  show ?thesis
  proof (cases okay)
    case False
    then show ?thesis using get_line_ok [OF assms] s assms by (simp add: input_getchar_def)
  next
    case True
    then obtain i line where i: "in_current s = Some i" "in_lastline s = Some line" "i < length line"
      and s': "unread s = unread st" "input_ok s"
      using get_line_ok [OF assms] s by auto
    then have "unread st = line ! i # drop (Suc i) line @ in_stdin s"
      by (simp add: unread_def [of s] Cons_nth_drop_Suc flip: s'(1))
    then show ?thesis
      using s i s' True
      by (auto simp: input_getchar_def Let_def line_byte_def nth_append IS_LINE_END_def
          linelength_def discard_line_def input_ok_def unread_def)
  qed
qed

theorem input_getchar_spec_witness:
  "case input_getchar (fresh_input [104, 105, 10]) of (c, st') \<Rightarrow> c = Some 104 \<and> unread st' = [105, 10]"
  using input_getchar_spec [of "fresh_input [104, 105, 10]"] by (simp add: split_beta)

lemma getline_line:
  assumes "input_ok st"
  shows "case input_getline st of (c, st') \<Rightarrow> input_ok st' \<and> unread st' = next_lines (unread st) \<and>
     c = (if unread st = [] then None else Some (takeWhile (\<lambda>b. b \<noteq> 0) (this_line (unread st))))"
  using get_line_ok [OF assms] assms this_line_split [of "unread st"]
  by (cases "get_line st")
    (auto simp: input_getline_def Let_def discard_line_def input_ok_def unread_def
      next_lines_def split: if_splits)

section \<open>Numbers never overflow\<close>

definition digit_of :: "int \<Rightarrow> byte \<Rightarrow> int option" where
  "digit_of base c =
     (case digits_index c of None \<Rightarrow> None | Some p \<Rightarrow> if int p < base then Some (int p) else None)"

definition digits_value :: "int \<Rightarrow> int \<Rightarrow> byte list \<Rightarrow> int" where
  "digits_value base v ds = foldl (\<lambda>v c. v * base + the (digit_of base c)) v ds"

lemma digits_value_simps [simp]:
  "digits_value base v [] = v"
  "digits_value base v (c # ds) = digits_value base (v * base + the (digit_of base c)) ds"
  by (simp_all add: digits_value_def)

lemma digits_index_le: "digits_index c = Some p \<Longrightarrow> p \<le> 36"
  by (auto simp: digits_index_def word_le_nat_alt split: if_splits)

lemma sint_of_nat_small: "p \<le> 36 \<Longrightarrow> sint (of_nat p :: cell) = int p"
  using sint_of_int_cell [of "int p"] by simp

lemma no_fit:
  fixes v base :: int
  assumes "(2 ^ 63 - 1) div base < v" "0 < base"
  shows "2 ^ 63 \<le> v * base"
proof -
  have "((2 ^ 63 - 1) div base + 1) * base \<le> v * base"
    using assms by (intro mult_right_mono) auto
  moreover have "2 ^ 63 - 1 < ((2 ^ 63 - 1) div base + 1) * base"
    using pos_mod_bound [OF assms(2), of "2 ^ 63 - 1"] div_mult_mod_eq [of "2 ^ 63 - 1" base]
    unfolding distrib_right by linarith
  ultimately show ?thesis by linarith
qed

lemma fit:
  fixes v base :: int
  assumes "v \<le> (2 ^ 63 - 1) div base" "0 < base"
  shows "v * base \<le> 2 ^ 63 - 1"
proof -
  have "v * base \<le> (2 ^ 63 - 1) div base * base"
    using assms by (intro mult_right_mono) auto
  also have "\<dots> \<le> 2 ^ 63 - 1"
    using div_mult_mod_eq [of "2 ^ 63 - 1" base] pos_mod_sign [OF assms(2), of "2 ^ 63 - 1"] by linarith
  finally show ?thesis .
qed

lemma sint_max_div:
  assumes "0 < sint base"
  shows "sint (c_div FUNGECELL_MAX base) = (2 ^ 63 - 1) div sint base"
  using assms by (subst sint_c_div) (auto simp: signed_divide_int_def cell_eq_iff)

text \<open>One digit more either overflows a cell, or is added without wrap-around.\<close>

lemma next_digit:
  assumes "2 \<le> sint base" "0 \<le> sint result" "digits_index c = Some p" "int p < sint base" "p \<le> 36"
  shows "c_div FUNGECELL_MAX base <s result \<or> FUNGECELL_MAX - of_nat p <s result * base \<Longrightarrow>
           2 ^ 63 \<le> sint result * sint base + int p"
    and "\<not> (c_div FUNGECELL_MAX base <s result \<or> FUNGECELL_MAX - of_nat p <s result * base) \<Longrightarrow>
           sint (result * base + of_nat p) = sint result * sint base + int p"
proof -
  have p: "sint (FUNGECELL_MAX - of_nat p) = 2 ^ 63 - 1 - int p"
    using assms(5) by (simp add: sint_diff_cell sint_of_nat_small)
  have base: "0 < sint base" using assms(1) by simp
  have mult: "sint (result * base) = sint result * sint base" "sint result * sint base \<le> 2 ^ 63 - 1"
    if "\<not> c_div FUNGECELL_MAX base <s result"
  proof -
    show le: "sint result * sint base \<le> 2 ^ 63 - 1"
      using that fit [OF _ base, of "sint result"] by (simp add: cell_less_iff sint_max_div base)
    have "0 \<le> sint result * sint base" using assms(1,2) by simp
    then show "sint (result * base) = sint result * sint base"
      using le by (intro sint_mult_cell) auto
  qed
  show "2 ^ 63 \<le> sint result * sint base + int p"
    if "c_div FUNGECELL_MAX base <s result \<or> FUNGECELL_MAX - of_nat p <s result * base"
    using that no_fit [of "sint base" "sint result"] mult base p
    by (cases "c_div FUNGECELL_MAX base <s result") (auto simp: cell_less_iff sint_max_div)
  show "sint (result * base + of_nat p) = sint result * sint base + int p"
    if no: "\<not> (c_div FUNGECELL_MAX base <s result \<or> FUNGECELL_MAX - of_nat p <s result * base)"
  proof -
    have "0 \<le> sint result * sint base" using assms(1,2) by simp
    then show ?thesis
      using no mult p assms(5) by (subst sint_add_cell) (auto simp: cell_less_iff sint_of_nat_small)
  qed
qed

text \<open>The loop reads the longest run of digits whose value still fits a cell.\<close>

lemma parse_int_loop_spec:
  assumes "2 \<le> sint base" "sint base \<le> 36" "0 \<le> sint result"
    and "parse_int_loop base s result i = (v, n)"
  shows "i \<le> n \<and> n - i \<le> length s \<and> 0 \<le> sint v \<and>
     list_all (\<lambda>c. digit_of (sint base) c \<noteq> None) (take (n - i) s) \<and>
     sint v = digits_value (sint base) (sint result) (take (n - i) s) \<and>
     (n - i < length s \<longrightarrow> (case digit_of (sint base) (s ! (n - i)) of
        None \<Rightarrow> True | Some d \<Rightarrow> 2 ^ 63 \<le> sint v * sint base + d))"
  using assms(3,4)
proof (induction s arbitrary: result i)
  case (Cons c s)
  show ?case
  proof (cases "digit_of (sint base) c")
    case None
    then have "v = result \<and> n = i"
      using Cons.prems assms(2) digits_index_le [of c]
      by (auto simp: digit_of_def cell_le_iff sint_of_nat_small split: option.splits if_splits)
    then show ?thesis using None Cons.prems by simp
  next
    case (Some d)
    then obtain p where p: "digits_index c = Some p" "int p < sint base" "d = int p" "p \<le> 36"
      using digits_index_le by (auto simp: digit_of_def split: option.splits if_splits)
    let ?stop = "c_div FUNGECELL_MAX base <s result \<or> FUNGECELL_MAX - of_nat p <s result * base"
    have below: "\<not> base \<le>s of_nat p" using p by (simp add: cell_le_iff sint_of_nat_small)
    note digit = next_digit [OF assms(1) Cons.prems(1) p(1,2,4)]
    show ?thesis
    proof (cases ?stop)
      case True
      then have "v = result \<and> n = i" using Cons.prems(2) p below by (auto split: if_splits)
      then show ?thesis using digit(1) [OF True] Some p Cons.prems by simp
    next
      case False
      have "0 \<le> sint (result * base + of_nat p)"
        using digit(2) [OF False] Cons.prems(1) assms(1) by simp
      moreover have "parse_int_loop base s (result * base + of_nat p) (i + 1) = (v, n)"
        using Cons.prems(2) p below False by auto
      ultimately show ?thesis
        using Cons.IH [of "result * base + of_nat p" "i + 1"] digit(2) [OF False] Some p
        by (cases "n - i") (auto simp: Suc_le_eq diff_Suc split: nat.splits)
    qed
  qed
qed auto

text \<open>
  C26: \<open>parse_int\<close> reads, in any base from 2 to 36, the longest run of digits whose value fits a
  signed cell: the value is that of the digits read, the arithmetic never wraps, and the byte it
  stops at is no digit of the base or would take the value past \<open>FUNGECELL_MAX\<close>.
\<close>

theorem parse_int_spec:
  assumes "2 \<le> base" "base \<le> 36" "length s \<le> len + 1" "parse_int s (of_int base) len = (v, n)"
  shows "n \<le> length s \<and> list_all (\<lambda>c. digit_of base c \<noteq> None) (take n s) \<and>
     sint v = digits_value base 0 (take n s) \<and>
     (n < length s \<longrightarrow> (case digit_of base (s ! n) of
        None \<Rightarrow> True | Some d \<Rightarrow> 2 ^ 63 \<le> sint v * base + d))"
proof -
  have "sint (of_int base :: cell) = base"
    using assms(1,2) by (intro sint_of_int_cell) auto
  then show ?thesis
    using parse_int_loop_spec [of "of_int base" 0 s 0 v n] assms
    by (auto simp: parse_int_def split: option.splits)
qed

theorem parse_int_spec_witness:
  "\<exists>v n. parse_int [49, 102, 0] 16 2 = (v, n) \<and> n = 2 \<and> sint v = 31"
proof -
  have run: "parse_int [49, 102, 0] 16 2 = (31, 2)"
    by code_simp
  have "sint (31 :: cell) = digits_value 16 0 (take 2 [49, 102, 0])"
    using parse_int_spec [of 16 "[49, 102, 0]" 2 31 2] run by simp
  then show ?thesis using run by simp
qed

section \<open>A number on a line\<close>

lemma starts_number_0 [simp]: "base \<le> 36 \<Longrightarrow> \<not> starts_number base 0"
  by (simp add: starts_number_def isdigit_def isxdigit_def digits_index_def)

lemma getint_scan_spec:
  assumes "in_lastline st = Some line" "i \<le> length line"
  shows "getint_scan base st i =
    (if \<exists>c\<in>set (drop i (line @ [0])). starts_number base c
     then Some (i + length (takeWhile (\<lambda>c. \<not> starts_number base c) (drop i (line @ [0])))) else None)"
  using assms
proof (induction base st i rule: getint_scan.induct)
  case (1 base st i)
  have split: "drop i (line @ [0]) = (line @ [0]) ! i # drop (Suc i) (line @ [0])"
    using 1(3) by (simp add: Cons_nth_drop_Suc del: drop_append)
  have byte: "line_byte st i = (line @ [0]) ! i"
    by (simp add: line_byte_def 1(2))
  have len: "linelength st = length line" by (simp add: linelength_def 1(2))
  show ?case
  proof (cases "starts_number base (line_byte st i) \<or> length line \<le> i")
    case True
    then show ?thesis
      using 1(3) by (subst getint_scan.simps, subst (1 2) split) (auto simp: byte len)
  next
    case False
    then show ?thesis
      using 1 by (subst getint_scan.simps, subst (1 2) split) (auto simp: byte len simp del: drop_append)
  qed
qed

lemma parse_int_cut:
  "length s \<le> len + 1 \<Longrightarrow> length s \<le> len' + 1 \<Longrightarrow> parse_int s base len = parse_int s base len'"
  by (simp add: parse_int_def)

lemma parse_int_stop:
  assumes "2 \<le> base" "base \<le> 36" "parse_int (s @ [0]) (of_int base) (length s) = (v, n)"
  shows "n \<le> length s"
proof (rule ccontr)
  have b: "sint (of_int base :: cell) = base"
    using assms(1,2) by (intro sint_of_int_cell) auto
  assume "\<not> n \<le> length s"
  then have "list_all (\<lambda>c. digit_of base c \<noteq> None) (s @ [0])"
    using parse_int_loop_spec [of "of_int base" 0 "s @ [0]" 0 v n] assms b
    by (auto simp: parse_int_def)
  then show False using assms(2) by (simp add: digit_of_def digits_index_def)
qed

lemma input_ok_discard [simp]: "input_ok (discard_line st)" "unread (discard_line st) = in_stdin st"
  by (simp_all add: discard_line_def input_ok_def unread_def)

lemma getint_cases:
  assumes "input_ok st" "2 \<le> base" "base \<le> 36"
  shows "case input_getint base st of (r, value, st') \<Rightarrow>
    (let line = this_line (unread st); rest = next_lines (unread st);
         s = dropWhile (\<lambda>c. \<not> starts_number base c) line;
         (v, n) = parse_int (s @ [0]) (of_int base) (length s)
     in input_ok st' \<and>
        (if line = [] then r = Rgi_eof \<and> value = None \<and> unread st' = []
         else if s = [] then r = Rgi_noint \<and> value = None \<and> unread st' = rest
         else r = Rgi_success \<and> value = Some v \<and>
           unread st' = (if n = length s \<or> s ! n = 10 \<or> s ! n = 13 then rest else drop n s @ rest)))"
proof -
  obtain okay s where s: "get_line st = (okay, s)" by (cases "get_line st")
  show ?thesis
  proof (cases okay)
    case False
    then show ?thesis
      using get_line_ok [OF assms(1)] s assms(1) this_line_split [of "unread st"]
      by (auto simp: input_getint_def Let_def split_beta)
  next
    case True
    then obtain i full where i: "in_current s = Some i" "in_lastline s = Some full" "i < length full"
      and line: "drop i full = this_line (unread st)" and rest: "in_stdin s = next_lines (unread st)"
      and s': "unread s = unread st" "input_ok s"
      using get_line_ok [OF assms(1)] s by auto
    define L where "L = drop i full"
    define ds where "ds = dropWhile (\<lambda>c. \<not> starts_number base c) L"
    define start where "start = i + length (takeWhile (\<lambda>c. \<not> starts_number base c) L)"
    have L: "this_line (unread st) = L" "L \<noteq> []" "drop i (full @ [0]) = L @ [0]"
      using line i by (auto simp: L_def)
    have scan: "getint_scan base s i = (if ds = [] then None else Some start)"
      using getint_scan_spec [OF i(2), of i base] i(3) assms(3) L
      by (auto simp: ds_def start_def takeWhile_append dropWhile_eq_Nil_conv)
    show ?thesis
    proof (cases "ds = []")
      case none: True
      then show ?thesis
        using True s i s' rest L scan
        by (simp add: input_getint_def Let_def ds_def split_beta input_ok_def unread_def)
    next
      case some: False
      have at: "drop start full = ds"
        by (simp add: start_def ds_def L_def dropWhile_eq_drop add.commute)
      then have start: "start + length ds = length full"
        using some by (metis (no_types) drop_eq_Nil length_drop le_add_diff_inverse linorder_linear)
      then have at0: "drop start (full @ [0]) = ds @ [0]" using at by simp
      obtain v n where vn: "parse_int (ds @ [0]) (of_int base) (length ds) = (v, n)"
        by (cases "parse_int (ds @ [0]) (of_int base) (length ds)")
      then have vn': "parse_int (ds @ [0]) (of_int base) (start + length full) = (v, n)"
        using parse_int_cut [of "ds @ [0]" "length ds" "start + length full"] start by simp
      have n: "n \<le> length ds"
        using parse_int_stop [OF assms(2,3) vn] .
      have byte: "line_byte s (start + n) = (ds @ [0]) ! n"
        using start n i(2) nth_drop [of start "full @ [0]" n] by (simp add: line_byte_def at)
      have ended: "IS_LINE_END s (start + n) \<longleftrightarrow> n = length ds"
        using start n i(2) by (auto simp: IS_LINE_END_def linelength_def)
      have stop: "line_byte s (start + n) = 10 \<or> line_byte s (start + n) = 13 \<or> IS_LINE_END s (start + n) \<longleftrightarrow>
          n = length ds \<or> ds ! n = 10 \<or> ds ! n = 13"
        using n by (auto simp: byte ended nth_append)
      have "input_getint base st = (Rgi_success, Some v,
          if n = length ds \<or> ds ! n = 10 \<or> ds ! n = 13 then discard_line s
          else s\<lparr>in_current := Some (start + n)\<rparr>)"
        using True s i scan some vn' stop
        by (simp add: input_getint_def Let_def at0 linelength_def del: drop_append)
      moreover have "n \<noteq> length ds \<Longrightarrow> input_ok (s\<lparr>in_current := Some (start + n)\<rparr>)"
        using s'(2) i start n by (auto simp: input_ok_def)
      moreover have "unread (s\<lparr>in_current := Some (start + n)\<rparr>) = drop n ds @ in_stdin s"
        using i at by (simp add: unread_def add.commute flip: drop_drop)
      ultimately show ?thesis
        using vn some L rest by (simp add: Let_def ds_def)
    qed
  qed
qed

text \<open>After a line without a number a later call sees less of the input: the loop of \<open>&\<close> ends.\<close>

lemma getint_noint_shrinks:
  assumes "input_getint base st = (Rgi_noint, value, st')"
  shows "length (in_stdin st') + (if in_current st' = None then 0 else 1) <
     length (in_stdin st) + (if in_current st = None then 0 else (1 :: nat))"
proof -
  obtain okay s where s: "get_line st = (okay, s)" by (cases "get_line st")
  have st': "st' = s\<lparr>in_current := None\<rparr>" and "okay"
    using assms s by (auto simp: input_getint_def Let_def split: if_splits option.splits prod.splits)
  then have "in_stdin s = in_stdin st \<and> in_current st \<noteq> None \<or> length (in_stdin s) < length (in_stdin st)"
    using s lines_shorter [of "in_stdin st"]
    by (auto simp: get_line_def cf_getline_cases split: if_splits)
  then show ?thesis by (auto simp: st')
qed

lemma digit_isdigit: "digit_of 10 c \<noteq> None \<longleftrightarrow> isdigit c"
proof -
  have "digits_index c = (if unat c = 0 then Some 36 else if 48 \<le> unat c \<and> unat c \<le> 57 then Some (unat c - 48)
      else if 97 \<le> unat c \<and> unat c \<le> 122 then Some (unat c - 97 + 10) else None)"
    by (simp add: digits_index_def word_le_nat_alt unat_eq_0)
  moreover have "isdigit c \<longleftrightarrow> 48 \<le> unat c \<and> unat c \<le> 57"
    by (simp add: isdigit_def word_le_nat_alt)
  moreover obtain n where "unat c = n" by simp
  ultimately show ?thesis by (simp add: digit_of_def)
qed

lemma starts_10: "starts_number 10 = isdigit"
  by (simp add: fun_eq_iff starts_number_def)

lemma digits_value_prefix:
  assumes "list_all (\<lambda>c. digit_of base c \<noteq> None) ds" "0 \<le> v" "2 \<le> base"
  shows "v \<le> digits_value base v ds"
  using assms
proof (induction ds arbitrary: v)
  case (Cons c ds)
  obtain d where d: "digit_of base c = Some d" "0 \<le> d"
    using Cons.prems(1) by (auto simp: digit_of_def split: option.splits if_splits)
  have "v \<le> v * base" using Cons.prems(2,3) by (simp add: mult_le_cancel_left1)
  then show ?case
    using Cons.IH [of "v * base + d"] Cons.prems d by simp
qed simp

text \<open>The run that \<open>parse_int\<close> takes from a number that fits is the whole number.\<close>

lemma parse_digits_loop:
  assumes "digit_of (sint base) c = None" "2 \<le> sint base" "sint base \<le> 36"
  shows "list_all (\<lambda>c. digit_of (sint base) c \<noteq> None) ds \<Longrightarrow> 0 \<le> sint result \<Longrightarrow>
     digits_value (sint base) (sint result) ds < 2 ^ 63 \<Longrightarrow>
     parse_int_loop base (ds @ c # cs) result i =
       (of_int (digits_value (sint base) (sint result) ds), i + length ds)"
proof (induction ds arbitrary: result i)
  case Nil
  then show ?case
    using assms digits_index_le [of c]
    by (auto simp: digit_of_def cell_le_iff sint_of_nat_small of_int_sint_cell
        split: option.splits if_splits)
next
  case (Cons d ds)
  obtain p where p: "digits_index d = Some p" "int p < sint base" "digit_of (sint base) d = Some (int p)" "p \<le> 36"
    using Cons.prems(1) digits_index_le
    by (auto simp: digit_of_def split: option.splits if_splits)
  let ?stop = "c_div FUNGECELL_MAX base <s result \<or> FUNGECELL_MAX - of_nat p <s result * base"
  have ds: "list_all (\<lambda>c. digit_of (sint base) c \<noteq> None) ds" using Cons.prems(1) by simp
  have pos: "0 \<le> sint result * sint base + int p" using Cons.prems(2) assms(2) by simp
  have "sint result * sint base + int p < 2 ^ 63"
    using digits_value_prefix [OF ds pos assms(2)] Cons.prems(3) p by simp
  then have go: "\<not> ?stop"
    using next_digit(1) [of base result d p] assms(2) Cons.prems(2) p by auto
  have val: "sint (result * base + of_nat p) = sint result * sint base + int p"
    using next_digit(2) [of base result d p] assms(2) Cons.prems(2) p go by auto
  have "\<not> base \<le>s (of_nat p :: cell)" using p by (simp add: cell_le_iff sint_of_nat_small)
  then show ?case
    using Cons.IH [of "result * base + of_nat p" "i + 1"] Cons.prems p pos go val by auto
qed

lemma digit_starts: "digit_of base c \<noteq> None \<Longrightarrow> 2 \<le> base \<Longrightarrow> base \<le> 36 \<Longrightarrow> starts_number base c"
proof -
  assume c: "digit_of base c \<noteq> None" "2 \<le> base" "base \<le> 36"
  have "\<exists>n. digits_index c = (if n = 0 then Some 36 else if 48 \<le> n \<and> n \<le> 57 then Some (n - 48)
      else if 97 \<le> n \<and> n \<le> 122 then Some (n - 97 + 10) else None) \<and>
    (isdigit c \<longleftrightarrow> 48 \<le> n \<and> n \<le> 57) \<and>
    (isxdigit c \<longleftrightarrow> 48 \<le> n \<and> n \<le> 57 \<or> 97 \<le> n \<and> n \<le> 102 \<or> 65 \<le> n \<and> n \<le> 70)"
    by (rule exI [of _ "unat c"])
      (simp add: digits_index_def isxdigit_def isdigit_def word_le_nat_alt unat_eq_0)
  then obtain n where n: "digits_index c = (if n = 0 then Some 36 else if 48 \<le> n \<and> n \<le> 57 then Some (n - 48)
      else if 97 \<le> n \<and> n \<le> 122 then Some (n - 97 + 10) else None)"
    "isdigit c \<longleftrightarrow> 48 \<le> n \<and> n \<le> 57"
    "isxdigit c \<longleftrightarrow> 48 \<le> n \<and> n \<le> 57 \<or> 97 \<le> n \<and> n \<le> 102 \<or> 65 \<le> n \<and> n \<le> 70"
    by blast
  show ?thesis
    using c by (auto simp: starts_number_def digit_of_def n split: option.splits if_splits)
qed

lemma newline_no_digit: "base \<le> 36 \<Longrightarrow> digit_of base 10 = None"
  by (simp add: digit_of_def digits_index_def)

lemma getint_digits:
  assumes "input_ok st" "unread st = junk @ ds @ c # rest" "2 \<le> base" "base \<le> 36"
    and "list_all (\<lambda>b. \<not> starts_number base b \<and> b \<noteq> 10) junk"
    and "list_all (\<lambda>c. digit_of base c \<noteq> None) ds" "ds \<noteq> []" "digit_of base c = None"
    and "digits_value base 0 ds < 2 ^ 63"
  shows "case input_getint base st of (r, value, st') \<Rightarrow>
     r = Rgi_success \<and> value = Some (of_int (digits_value base 0 ds)) \<and> input_ok st' \<and>
     unread st' = (if c = 10 then rest else if c = 13 then next_lines rest else c # rest)"
proof -
  have nl: "10 \<notin> set ds" using assms(6) newline_no_digit [OF assms(4)] by (auto simp: list_all_iff)
  let ?l = "if c = 10 then [] else this_line rest"
  let ?r = "if c = 10 then rest else next_lines rest"
  have app: "10 \<notin> set xs \<Longrightarrow> cf_getdelim_loop 10 (xs @ ys) =
      (xs @ this_line ys, next_lines ys)" for xs ys
    by (induction xs) (auto simp: this_line_def next_lines_def)
  have "10 \<notin> set junk" using assms(5) by (auto simp: list_all_iff)
  then have line: "this_line (unread st) = junk @ ds @ c # ?l" "next_lines (unread st) = ?r"
    using app [of junk "ds @ c # rest"] app [of ds "c # rest"] nl
    by (simp_all add: assms(2) this_line_def next_lines_def split_beta)
  have s: "dropWhile (\<lambda>c. \<not> starts_number base c) (junk @ ds @ c # ?l) = ds @ c # ?l"
    using assms(5,6,7) digit_starts [OF _ assms(3,4)]
    by (cases ds) (auto simp: list_all_iff dropWhile_append)
  have b: "sint (of_int base :: cell) = base"
    using assms(3,4) by (intro sint_of_int_cell) auto
  have "parse_int ((ds @ c # ?l) @ [0]) (of_int base) (length (ds @ c # ?l)) =
      (of_int (digits_value base 0 ds), length ds)"
    using parse_digits_loop [of "of_int base" c ds 0 "?l @ [0]" 0] assms(3,4,6,8,9)
    by (simp add: parse_int_def b)
  then show ?thesis
    using getint_cases [OF assms(1,3,4)] assms(7)
    unfolding line Let_def s by (simp add: split_beta nth_append this_line_split)
qed

lemma getint_decimal:
  assumes "input_ok st" "unread st = junk @ ds @ c # rest"
    and "list_all (\<lambda>b. \<not> isdigit b \<and> b \<noteq> 10) junk" "list_all isdigit ds" "ds \<noteq> []" "\<not> isdigit c"
    and "digits_value 10 0 ds < 2 ^ 63"
  shows "case input_getint 10 st of (r, value, st') \<Rightarrow>
     r = Rgi_success \<and> value = Some (of_int (digits_value 10 0 ds)) \<and> input_ok st' \<and>
     unread st' = (if c = 10 then rest else if c = 13 then next_lines rest else c # rest)"
  using assms digit_isdigit
  by (intro getint_digits) (auto simp: starts_10 list_all_iff simp del: not_None_eq)

text \<open>
  \<open>&\<close> on a line: bytes that are no digits are skipped, the number is read in full when it fits
  a cell, and what follows it on the line stays for the next instruction, save that a rest of the
  line that begins with a line end is dropped.
\<close>

theorem input_getint_decimal:
  assumes "input_ok st" "unread st = junk @ ds @ c # rest"
    and "list_all (\<lambda>b. \<not> isdigit b \<and> b \<noteq> 10) junk" "list_all isdigit ds" "ds \<noteq> []" "\<not> isdigit c"
    and "digits_value 10 0 ds < 2 ^ 63"
  shows "case input_getint 10 st of (r, value, st') \<Rightarrow>
     r = Rgi_success \<and> value = Some (of_int (digits_value 10 0 ds)) \<and> input_ok st' \<and>
     unread st' = (if c = 10 then rest else if c = 13 then next_lines rest else c # rest)"
  using getint_decimal [OF assms] .

theorem input_getint_decimal_witness:
  "unread (snd (snd (input_getint 10 (fresh_input [120, 52, 50, 44, 10])))) = [44, 10] \<and>
     fst (snd (input_getint 10 (fresh_input [120, 52, 50, 44, 10]))) = Some 42"
proof -
  have "digit_of 10 52 = Some 4" "digit_of 10 50 = Some 2"
    by (simp_all add: digit_of_def digits_index_def)
  then show ?thesis
    using input_getint_decimal [of "fresh_input [120, 52, 50, 44, 10]" "[120]" "[52, 50]" 44 "[10]"]
    by (simp add: isdigit_def split_beta)
qed

end
