(* ===== verification/Safe_Env.thy ===== *)
theory Safe_Env
  imports Prelude
begin

text \<open>
  Which environment variables the sandbox lets through, \<^verbatim>\<open>src/instructions/safe_env.c\<close>: a
  perfect hash over the length, the fourth and the last character selects the one word to compare
  with. The list that the tables come from, \<^verbatim>\<open>sysinfo-misc/safe_env.gperf\<close>, is the
  specification here.
\<close>

definition MIN_WORD_LENGTH :: nat where
  "MIN_WORD_LENGTH = 2"

definition MAX_WORD_LENGTH :: nat where
  "MAX_WORD_LENGTH = 17"

definition MAX_HASH_VALUE :: nat where
  "MAX_HASH_VALUE = 54"

definition asso_values :: "nat list" where
  "asso_values =
    [55, 55, 55, 55, 55, 55, 55, 55, 55, 55, 55, 55, 55, 55, 55, 55, 55, 55, 55, 55,
     55, 55, 55, 55, 55, 55, 55, 55, 55, 55, 55, 55, 55, 55, 55, 55, 55, 55, 55, 55,
     55, 55, 55, 55, 55, 55, 55, 55, 55, 5, 55, 55, 55, 55, 55, 55, 55, 55, 55, 55,
     55, 55, 55, 55, 55, 15, 55, 0, 0, 5, 55, 25, 20, 0, 55, 55, 15, 15, 15, 15,
     0, 55, 10, 15, 0, 0, 55, 55, 55, 0, 0, 55, 55, 55, 55, 55, 55, 55, 55, 55,
     55, 55, 55, 55, 55, 55, 55, 55, 55, 55, 55, 55, 55, 55, 55, 55, 55, 55, 55, 55,
     55, 55, 55, 55, 55, 55, 55, 55, 55, 55, 55, 55, 55, 55, 55, 55, 55, 55, 55, 55,
     55, 55, 55, 55, 55, 55, 55, 55, 55, 55, 55, 55, 55, 55, 55, 55, 55, 55, 55, 55,
     55, 55, 55, 55, 55, 55, 55, 55, 55, 55, 55, 55, 55, 55, 55, 55, 55, 55, 55, 55,
     55, 55, 55, 55, 55, 55, 55, 55, 55, 55, 55, 55, 55, 55, 55, 55, 55, 55, 55, 55,
     55, 55, 55, 55, 55, 55, 55, 55, 55, 55, 55, 55, 55, 55, 55, 55, 55, 55, 55, 55,
     55, 55, 55, 55, 55, 55, 55, 55, 55, 55, 55, 55, 55, 55, 55, 55, 55, 55, 55, 55,
     55, 55, 55, 55, 55, 55, 55, 55, 55, 55, 55, 55, 55, 55, 55, 55]"

definition safe_env_hash :: "byte list \<Rightarrow> nat \<Rightarrow> nat" where
  "safe_env_hash str len =
     (let hval = len;
          hval = (if len = 2 \<or> len = 3 then hval else hval + asso_values ! unat (str ! 3))
      in hval + asso_values ! unat (str ! (len - 1)))"

definition lengthtable :: "nat list" where
  "lengthtable =
    [0, 0, 2, 3, 4, 5, 0, 7, 3, 0, 0, 6, 7, 8, 4, 10, 6, 12,
     8, 0, 5, 6, 7, 0, 4, 10, 11, 7, 0, 14, 0, 0, 17, 8, 4, 5,
     6, 0, 0, 9, 10, 11, 0, 0, 4, 0, 0, 0, 0, 0, 0, 0, 0, 0,
     4]"

definition wordlist :: "string list" where
  "wordlist =
    ['''', '''', ''TZ'', ''PWD'', ''HOST'', ''GROUP'', '''', ''DISPLAY'',
     ''PS1'', '''', '''', ''OSTYPE'', ''LC_TIME'', ''LC_CTYPE'', ''HOME'', ''LC_COLLATE'',
     ''EDITOR'', ''LC_TELEPHONE'', ''LC_PAPER'', '''', ''PAGER'', ''VISUAL'', ''COLUMNS'', '''',
     ''USER'', ''LC_NUMERIC'', ''LC_MONETARY'', ''LC_NAME'', '''', ''LC_MEASUREMENT'', '''', '''',
     ''LC_IDENTIFICATION'', ''MACHTYPE'', ''TERM'', ''SHELL'', ''LC_ALL'', '''', '''', ''COLORTERM'',
     ''LC_ADDRESS'', ''LC_MESSAGES'', '''', '''', ''PATH'', '''', '''', '''',
     '''', '''', '''', '''', '''', '''', ''LANG'']"

definition bytes_of :: "string \<Rightarrow> byte list" where
  "bytes_of = map of_char"

definition safe_in_word_set :: "byte list \<Rightarrow> nat \<Rightarrow> string option" where
  "safe_in_word_set str len =
     (if len \<le> MAX_WORD_LENGTH \<and> MIN_WORD_LENGTH \<le> len then
        (let key = safe_env_hash str len in
         if key \<le> MAX_HASH_VALUE \<and> len = lengthtable ! key \<and>
            take len str = take len (bytes_of (wordlist ! key))
         then Some (wordlist ! key) else None)
      else None)"

text \<open>A variable is its name, \<open>=\<close> and its value; one without \<open>=\<close> is not safe.\<close>

definition check_env_is_safe :: "byte list \<Rightarrow> bool" where
  "check_env_is_safe envvar =
     (if 61 \<notin> set envvar then False
      else safe_in_word_set envvar (length (takeWhile (\<lambda>c. c \<noteq> 61) envvar)) \<noteq> None)"

definition safe_env_names :: "string list" where
  "safe_env_names =
    [''COLORTERM'', ''COLUMNS'', ''DISPLAY'', ''EDITOR'', ''GROUP'', ''HOME'',
     ''HOST'', ''LANG'', ''LC_ADDRESS'', ''LC_ALL'', ''LC_COLLATE'', ''LC_CTYPE'',
     ''LC_IDENTIFICATION'', ''LC_MEASUREMENT'', ''LC_MESSAGES'', ''LC_MONETARY'', ''LC_NAME'', ''LC_NUMERIC'',
     ''LC_PAPER'', ''LC_TELEPHONE'', ''LC_TIME'', ''MACHTYPE'', ''OSTYPE'', ''PAGER'',
     ''PATH'', ''PS1'', ''PWD'', ''SHELL'', ''TERM'', ''TZ'',
     ''USER'', ''VISUAL'']"

lemma word_tables: "list_all (\<lambda>k. length (wordlist ! k) = lengthtable ! k \<and>
    (lengthtable ! k < 2 \<or> wordlist ! k \<in> set safe_env_names)) [0..<55]"
  by code_simp

lemma word_table:
  "k \<le> 54 \<Longrightarrow> length (wordlist ! k) = lengthtable ! k \<and>
    (lengthtable ! k < 2 \<or> wordlist ! k \<in> set safe_env_names)"
  using word_tables by (simp add: list_all_iff)

lemma word_hashes:
  "list_all (\<lambda>w. 2 \<le> length w \<and> length w \<le> 17 \<and> safe_env_hash (bytes_of w) (length w) \<le> 54 \<and>
     wordlist ! safe_env_hash (bytes_of w) (length w) = w) safe_env_names"
  by code_simp

lemma hash_prefix: "2 \<le> length w \<Longrightarrow> safe_env_hash (w @ s) (length w) = safe_env_hash w (length w)"
  by (auto simp: safe_env_hash_def Let_def nth_append)

lemma length_bytes_of [simp]: "length (bytes_of w) = length w"
  by (simp add: bytes_of_def)

lemma safe_in_word_set_iff:
  "safe_in_word_set (w @ s) (length w) \<noteq> None \<longleftrightarrow> w \<in> bytes_of ` set safe_env_names"
proof
  assume "safe_in_word_set (w @ s) (length w) \<noteq> None"
  moreover define key where "key = safe_env_hash (w @ s) (length w)"
  ultimately have key: "key \<le> 54" "length w = lengthtable ! key" "2 \<le> length w"
    "w = take (length w) (bytes_of (wordlist ! key))"
    by (simp_all add: safe_in_word_set_def Let_def MAX_HASH_VALUE_def MIN_WORD_LENGTH_def split: if_splits)
  moreover have "length (wordlist ! key) = lengthtable ! key \<and>
      (lengthtable ! key < 2 \<or> wordlist ! key \<in> set safe_env_names)"
    using word_table key(1) .
  ultimately show "w \<in> bytes_of ` set safe_env_names"
    by (metis image_eqI length_bytes_of not_less take_all_iff order_refl)
next
  assume "w \<in> bytes_of ` set safe_env_names"
  then obtain v where v: "v \<in> set safe_env_names" "w = bytes_of v" by blast
  moreover have "2 \<le> length v \<and> length v \<le> 17 \<and> safe_env_hash (bytes_of v) (length v) \<le> 54 \<and>
     wordlist ! safe_env_hash (bytes_of v) (length v) = v"
    using word_hashes v(1) by (simp only: list_all_iff)
  moreover from this have "lengthtable ! safe_env_hash (bytes_of v) (length v) = length v"
    using word_table [of "safe_env_hash (bytes_of v) (length v)"] by simp
  ultimately show "safe_in_word_set (w @ s) (length w) \<noteq> None"
    using hash_prefix [of w s]
    by (simp add: safe_in_word_set_def Let_def MAX_HASH_VALUE_def MIN_WORD_LENGTH_def
        MAX_WORD_LENGTH_def)
qed

text \<open>
  C27: the perfect hash is exact. The sandbox lets an environment variable through if and only if
  the text before its first \<open>=\<close> is one of the 32 names of the gperf list: no safe name is missed
  by the tables, and no other name is let through, whatever follows the \<open>=\<close>.
\<close>

theorem check_env_is_safe_iff:
  "check_env_is_safe envvar \<longleftrightarrow>
     (\<exists>name\<in>set safe_env_names. \<exists>val. envvar = bytes_of name @ 61 # val)"
proof -
  let ?w = "takeWhile (\<lambda>c. c \<noteq> 61) envvar"
  have no_eq: "list_all (\<lambda>w. 61 \<notin> set (bytes_of w)) safe_env_names"
    by code_simp
  have "check_env_is_safe envvar \<longleftrightarrow> 61 \<in> set envvar \<and> ?w \<in> bytes_of ` set safe_env_names"
    using safe_in_word_set_iff [of ?w "dropWhile (\<lambda>c. c \<noteq> 61) envvar"]
    by (simp add: check_env_is_safe_def)
  also have "\<dots> \<longleftrightarrow> (\<exists>name\<in>set safe_env_names. \<exists>val. envvar = bytes_of name @ 61 # val)"
  proof
    assume a: "61 \<in> set envvar \<and> ?w \<in> bytes_of ` set safe_env_names"
    then have "dropWhile (\<lambda>c. c \<noteq> 61) envvar \<noteq> []" by (auto simp: dropWhile_eq_Nil_conv)
    then obtain val where "dropWhile (\<lambda>c. c \<noteq> 61) envvar = 61 # val"
      using hd_dropWhile [of "\<lambda>c. c \<noteq> 61" envvar] by (metis list.exhaust_sel)
    then have "envvar = ?w @ 61 # val"
      using takeWhile_dropWhile_id [of "\<lambda>c. c \<noteq> 61" envvar] by simp
    moreover obtain name where "name \<in> set safe_env_names" "?w = bytes_of name" using a by auto
    ultimately show "\<exists>name\<in>set safe_env_names. \<exists>val. envvar = bytes_of name @ 61 # val"
      by auto
  next
    assume "\<exists>name\<in>set safe_env_names. \<exists>val. envvar = bytes_of name @ 61 # val"
    then obtain name val where n: "name \<in> set safe_env_names" "envvar = bytes_of name @ 61 # val"
      by blast
    then have "61 \<notin> set (bytes_of name)" using no_eq by (simp add: list_all_iff)
    then have "?w = bytes_of name"
      unfolding n(2) by (intro takeWhile_prefix) auto
    then show "61 \<in> set envvar \<and> ?w \<in> bytes_of ` set safe_env_names" using n by auto
  qed
  finally show ?thesis .
qed

end
