(* ===== verification/Libc.thy ===== *)
theory Libc
  imports Cells
begin

text \<open>
  What the interpreter uses of the C library and the operating system and what is not a matter of the
  sources: floating-point arithmetic, clocks, regular expressions, system calls. All of it is a
  parameter of the model: a record of functions, or a sequence of answers. Floating-point numbers
  are the words that represent them.
\<close>

section \<open>Floating-point arithmetic\<close>

type_synonym float32 = "32 word"
type_synonym float64 = "64 word"
type_synonym ldouble = "80 word"

text \<open>The operators and functions of one floating-point type.\<close>

record 'f arith =
  fl_add :: "'f \<Rightarrow> 'f \<Rightarrow> 'f"
  fl_sub :: "'f \<Rightarrow> 'f \<Rightarrow> 'f"
  fl_mul :: "'f \<Rightarrow> 'f \<Rightarrow> 'f"
  fl_div :: "'f \<Rightarrow> 'f \<Rightarrow> 'f"
  fl_pow :: "'f \<Rightarrow> 'f \<Rightarrow> 'f"
  fl_less :: "'f \<Rightarrow> 'f \<Rightarrow> bool"
  fl_iszero :: "'f \<Rightarrow> bool"
  fl_neg :: "'f \<Rightarrow> 'f"
  fl_abs :: "'f \<Rightarrow> 'f"
  fl_round :: "'f \<Rightarrow> 'f"
  fl_sqrt :: "'f \<Rightarrow> 'f"
  fl_sin :: "'f \<Rightarrow> 'f"
  fl_cos :: "'f \<Rightarrow> 'f"
  fl_tan :: "'f \<Rightarrow> 'f"
  fl_asin :: "'f \<Rightarrow> 'f"
  fl_acos :: "'f \<Rightarrow> 'f"
  fl_atan :: "'f \<Rightarrow> 'f"
  fl_log :: "'f \<Rightarrow> 'f"
  fl_log10 :: "'f \<Rightarrow> 'f"
  fl_exp :: "'f \<Rightarrow> 'f"
  fl_of_cell :: "cell \<Rightarrow> 'f"
  fl_to_cell :: "'f \<Rightarrow> cell"
  fl_to_int :: "'f \<Rightarrow> 32 word"
  fl_show :: "'f \<Rightarrow> byte list"
  fl_read :: "byte list \<Rightarrow> 'f"

text \<open>
  \<open>lm_floor_div a b\<close> is \<open>floorl\<close> of the quotient of \<open>a\<close> and the constant \<open>b\<close>, and
  \<open>lm_digits base val\<close> the number of digits estimated by the logarithm. \<open>lm_pi\<close> and \<open>lm_pil\<close> are
  \<open>M_PI\<close> and \<open>M_PIl\<close>.
\<close>

record libm =
  lm_floor_div :: "cell \<Rightarrow> cell \<Rightarrow> cell"
  lm_digits :: "cell \<Rightarrow> cell \<Rightarrow> nat"
  lm_float :: "float32 arith"
  lm_double :: "float64 arith"
  lm_ldouble :: "ldouble arith"
  lm_float_double :: "float32 \<Rightarrow> float64"
  lm_double_float :: "float64 \<Rightarrow> float32"
  lm_double_ldouble :: "float64 \<Rightarrow> ldouble"
  lm_ldouble_double :: "ldouble \<Rightarrow> float64"
  lm_pi :: float64
  lm_pil :: ldouble

text \<open>A concrete instance, with which the hypotheses of the theorems can be met: integers.\<close>

definition sample_arith :: "'f::len word arith" where
  "sample_arith =
     \<lparr>fl_add = (+), fl_sub = (-), fl_mul = (*), fl_div = (\<lambda>a b. word_of_int (sint a sdiv sint b)),
      fl_pow = (\<lambda>a b. a ^ unat b), fl_less = (<s), fl_iszero = (\<lambda>a. a = 0), fl_neg = uminus,
      fl_abs = (\<lambda>a. if a <s 0 then - a else a), fl_round = id, fl_sqrt = id, fl_sin = (\<lambda>_. 0),
      fl_cos = (\<lambda>_. 1), fl_tan = id, fl_asin = id, fl_acos = id, fl_atan = id, fl_log = id, fl_log10 = id,
      fl_exp = id, fl_of_cell = scast, fl_to_cell = scast, fl_to_int = scast, fl_show = (\<lambda>_. [48]), fl_read = (\<lambda>_. 0)\<rparr>"

definition sample_libm :: libm where
  "sample_libm =
     \<lparr>lm_floor_div = (\<lambda>a b. word_of_int (sint a div sint b)), lm_digits = (\<lambda>base val. 64),
      lm_float = sample_arith, lm_double = sample_arith, lm_ldouble = sample_arith,
      lm_float_double = scast, lm_double_float = scast, lm_double_ldouble = scast, lm_ldouble_double = scast,
      lm_pi = 3, lm_pil = 3\<rparr>"

section \<open>Time\<close>

text \<open>The fields of \<open>struct tm\<close> that the interpreter reads.\<close>

record tm =
  tm_year :: "32 word"
  tm_mon :: "32 word"
  tm_mday :: "32 word"
  tm_hour :: "32 word"
  tm_min :: "32 word"
  tm_sec :: "32 word"
  tm_wday :: "32 word"
  tm_yday :: "32 word"

record timespec =
  tv_sec :: cell
  tv_nsec :: cell

section \<open>Regular expressions\<close>

record regex_flags =
  re_extended :: bool
  re_icase :: bool
  re_nosub :: bool
  re_newline :: bool

datatype regex_error =
  REG_BADBR | REG_BADPAT | REG_BADRPT | REG_EBRACE | REG_EBRACK | REG_ECOLLATE | REG_ECTYPE
  | REG_EESCAPE | REG_EPAREN | REG_ERANGE | REG_ESPACE | REG_ESUBREG | REG_unknown

text \<open>
  \<open>rx_comp\<close> is what \<open>regcomp\<close> makes of a pattern: no error, or one. \<open>rx_exec\<close> is what \<open>regexec\<close> finds:
  the places of the match and of its parts, each a start and an end, or nothing for a part that took no
  part in it.
\<close>

record regex_lib =
  rx_comp :: "byte list \<Rightarrow> regex_flags \<Rightarrow> regex_error option"
  rx_exec :: "byte list \<Rightarrow> regex_flags \<Rightarrow> byte list \<Rightarrow> bool \<Rightarrow> bool \<Rightarrow> (nat \<times> nat) option list option"

section \<open>The XML writer genx\<close>

datatype genx_call =
  Start_element string | Add_attribute string "byte list" | Add_text string | End_element

section \<open>System calls\<close>

datatype sock_family = AF_UNIX | AF_INET | AF_UNSPEC
datatype sock_type = SOCK_DGRAM | SOCK_STREAM
datatype sock_option = SO_DEBUG | SO_REUSEADDR | SO_KEEPALIVE | SO_DONTROUTE | SO_BROADCAST | SO_OOBINLINE

text \<open>What the C library asks of the system for a file: that it is granted is one answer.\<close>

datatype file_op =
  File_open "byte list" nat | File_cloexec | File_close | File_unlink "byte list"
  | File_read | File_write | File_seek | File_tell

text \<open>The terminal: the capabilities whose strings are written, and the functions of the curses library.\<close>

datatype capability =
  Clear_screen | Cursor_up | Cursor_down | Cursor_home | Clr_eol | Clr_eos | Enter_ca_mode
  | Cursor_address

datatype term_op =
  Term_setupterm | Term_capability capability | Term_putp capability | Term_tparm "32 word" "32 word"
  | Term_beep | Term_werase | Term_wclrtoeol | Term_wclrtobot | Term_echo bool | Term_wgetch
  | Term_newterm | Term_newwin | Term_endwin | Term_delwin | Term_keypad bool | Term_wmove "32 word" "32 word"
  | Term_cbreak bool | Term_waddch cell | Term_wrefresh | Term_waddstr "byte list option" | Term_ungetch cell

datatype syscall =
  Sys_file file_op
  | Sys_term term_op
  | Sys_chdir "byte list" | Sys_mkdir "byte list" | Sys_rmdir "byte list"
  | Sys_socket sock_family sock_type | Sys_cloexec "32 word" | Sys_close "32 word"
  | Sys_bind "32 word" "32 word" "16 word" | Sys_connect "32 word" "32 word" "16 word"
  | Sys_listen "32 word" "32 word" | Sys_accept "32 word" | Sys_shutdown "32 word"
  | Sys_setsockopt "32 word" sock_option "32 word"
  | Sys_recv "32 word" nat | Sys_send "32 word" "byte list"
  | Sys_inet_pton "byte list option" | Sys_getaddrinfo "byte list option" | Sys_poll "32 word"
  | Sys_pipe | Sys_nonblock | Sys_fork "byte list" | Sys_waitpid | Sys_read

text \<open>
  What a system call answers: the value it returns, the bytes, the address and the port it stores
  (the status in place of the address, for \<open>waitpid\<close>), a flag that is particular to the call, and what
  the files are afterwards. The flag tells whether an operation on a file is granted, whether the error of a
  \<open>read\<close> is \<open>EAGAIN\<close>, whether \<open>poll\<close> reports \<open>POLLIN\<close>, whether the first answer of
  \<open>getaddrinfo\<close> is of the family \<open>AF_INET\<close>, whether \<open>newterm\<close>, \<open>newwin\<close> and \<open>tparm\<close> give a pointer, and whether reading a
  capability faults when there is no current terminal. The address is the error that \<open>setupterm\<close> stores; the bytes are
  what goes to standard output.
\<close>

record sysret =
  sr_value :: cell
  sr_bytes :: "byte list"
  sr_addr :: "32 word"
  sr_port :: "16 word"
  sr_flag :: bool
  sr_files :: "(byte list \<Rightarrow> byte list option) \<Rightarrow> byte list \<Rightarrow> byte list option"

definition sample_sysret :: sysret where
  "sample_sysret = \<lparr>sr_value = 0, sr_bytes = [], sr_addr = 0, sr_port = 0, sr_flag = True, sr_files = id\<rparr>"

end
