(* ===== verification/Statics.thy ===== *)
theory Statics
  imports Libc
begin

text \<open>
  What the fingerprints keep in static variables of their own: the drawing of TURT, the compiled
  expression of REXP, the registers of FPDP, the tables of handles of FILE and SOCK, the settings of
  TIME and HRTI, the state of the terminal of NCRS and TERM.
\<close>

section \<open>TURT\<close>

text \<open>\<open>tc\<close>: a turtle coordinate.\<close>

type_synonym tc = "32 word"

record Point =
  pt_x :: tc
  pt_y :: tc

record Turtle =
  tu_heading :: ldouble
  tu_sin :: ldouble
  tu_cos :: ldouble
  tu_p :: Point
  tu_min :: Point
  tu_max :: Point
  tu_colour :: "32 word"
  tu_penDown :: bool
  tu_movedWithoutDraw :: bool

record Dot =
  dot_p :: Point
  dot_colour :: "32 word"

record Path =
  path_d :: Dot
  path_penDown :: bool

text \<open>The list of paths that hangs on \<open>pathBeg\<close>; the pointer \<open>path\<close> is that to its last element.\<close>

record Drawing =
  pic_dots :: "Dot list"
  pic_paths :: "Path list"
  pic_bgColour :: "32 word"
  pic_bgSet :: bool

definition origin :: Point where
  "origin = \<lparr>pt_x = 0, pt_y = 0\<rparr>"

text \<open>Static variables start as zeros.\<close>

definition initial_turtle :: Turtle where
  "initial_turtle =
     \<lparr>tu_heading = 0, tu_sin = 0, tu_cos = 0, tu_p = origin, tu_min = origin, tu_max = origin,
      tu_colour = 0, tu_penDown = False, tu_movedWithoutDraw = False\<rparr>"

definition initial_drawing :: Drawing where
  "initial_drawing = \<lparr>pic_dots = [], pic_paths = [], pic_bgColour = 0, pic_bgSet = False\<rparr>"

section \<open>Handles of FILE and SOCK\<close>

text \<open>
  An open stream of the C library, as far as FILE uses it: the file, by its name, or by a number when
  the name has been removed; the position; and what the mode allows.
\<close>

record stream =
  sm_file :: "byte list + nat"
  sm_pos :: nat
  sm_reads :: bool
  sm_writes :: bool
  sm_appends :: bool

text \<open>The null pointer in a handle whose file is not open yet.\<close>

definition null_stream :: stream where
  "null_stream = \<lparr>sm_file = Inr 0, sm_pos = 0, sm_reads = False, sm_writes = False, sm_appends = False\<rparr>"

record FungeFileHandle =
  fh_file :: stream
  fh_buffvect :: funge_vector

record FungeSocketHandle =
  sk_fd :: "32 word"
  sk_family :: sock_family

section \<open>All of them\<close>

text \<open>
  Of the screen and the window of NCRS and of the current terminal of the curses library, whether there is one.
  A table of handles that is \<open>NULL\<close> in C is the empty list. \<open>st_regex\<close> is the pattern and the flags of
  the compiled expression, \<open>None\<close> when there is no valid one.
\<close>

record statics =
  st_TIMEuseUTC :: bool
  st_HRTIresolution :: cell
  st_turt :: Turtle
  st_pic :: Drawing
  st_turt_initialised :: bool
  st_regex :: "(byte list \<times> regex_flags) option"
  st_compiled_nosub :: bool
  st_FPDP_u :: float64
  st_FPDP_d :: float64
  st_handles :: "FungeFileHandle option list"
  st_orphans :: "byte list list"
  st_sockets :: "FungeSocketHandle option list"
  st_ncrs_initialised :: bool
  st_ncrs_valid_state :: bool
  st_ncrs_screen :: bool
  st_ncrs_window :: bool
  st_term_initialised :: bool
  st_cur_term :: bool

definition initial_statics :: statics where
  "initial_statics =
     \<lparr>st_TIMEuseUTC = False, st_HRTIresolution = 0, st_turt = initial_turtle, st_pic = initial_drawing,
      st_turt_initialised = False, st_regex = None, st_compiled_nosub = False, st_FPDP_u = 0, st_FPDP_d = 0,
      st_handles = [], st_orphans = [], st_sockets = [], st_ncrs_initialised = False, st_ncrs_valid_state = False,
      st_ncrs_screen = False, st_ncrs_window = False, st_term_initialised = False, st_cur_term = False\<rparr>"

end
