(* ===== verification/World.thy ===== *)
theory World
  imports Iplist Input Fspace_Load Safe_Env Statics
begin

text \<open>
  What an instruction works on: its instruction pointer, and the rest of the interpreter's state,
  gathered in the record \<open>world\<close> (the C program keeps it in the static variables of its files).
  The record \<open>config\<close> holds what does not change during a run: the settings of
  \<^verbatim>\<open>src/settings.c\<close>, and the answers of the operating system and the C library, which are
  parameters of the model.
\<close>

section \<open>Results\<close>

text \<open>
  What running a piece of the program comes to. A loop that goes on for ever is \<open>None\<close> of the option
  around it.
\<close>

datatype 'a result = Running 'a | Exited "32 word" | Crashed | OutOfMemory

definition bind_run :: "'a result option \<Rightarrow> ('a \<Rightarrow> 'b result option) \<Rightarrow> 'b result option" where
  "bind_run x f =
     Option.bind x (\<lambda>r. case r of Running s \<Rightarrow> f s | Exited code \<Rightarrow> Some (Exited code)
                      | Crashed \<Rightarrow> Some Crashed | OutOfMemory \<Rightarrow> Some OutOfMemory)"

lemma bind_run_mono [partial_function_mono]:
  assumes "mono_option (\<lambda>f. B f)" "\<And>y. mono_option (\<lambda>f. C y f)"
  shows "mono_option (\<lambda>f. bind_run (B f) (\<lambda>y. C y f))"
  unfolding bind_run_def
proof (rule bind_mono [OF assms(1)])
  fix y :: "'c result"
  show "mono_option (\<lambda>f. case y of Running s \<Rightarrow> C s f | Exited code \<Rightarrow> Some (Exited code)
      | Crashed \<Rightarrow> Some Crashed | OutOfMemory \<Rightarrow> Some OutOfMemory)"
    by (cases y) (simp_all add: assms(2) option.const_mono)
qed

lemma bind_run_Running:
  "bind_run x f = Some (Running s') \<longleftrightarrow> (\<exists>s. x = Some (Running s) \<and> f s = Some (Running s'))"
  by (auto simp: bind_run_def split: Option.bind_splits result.split)

lemma bind_run_Crashed:
  "bind_run x f = Some Crashed \<longleftrightarrow> x = Some Crashed \<or> (\<exists>s. x = Some (Running s) \<and> f s = Some Crashed)"
  by (auto simp: bind_run_def split: Option.bind_splits result.split)

section \<open>State and parameters\<close>

datatype standardVersion = Stdver98 | Stdver93 | Stdver109

record world =
  w_space :: fungeSpace
  w_input :: input_state
  w_output :: "byte list"
  w_files :: "byte list \<Rightarrow> byte list option"
  w_random :: nat
  w_clock :: nat
  w_timer :: nat
  w_calls :: nat
  w_statics :: statics
  w_references :: "funge_vector list"
  w_referencesSize :: nat
  w_TOSSSize :: nat
  w_tmp_stack :: "funge_stack option"
  w_cache_stack :: "funge_stack option"

type_synonym mach = "instructionPointer \<times> world"

text \<open>
  \<open>cf_stdout out bytes\<close> tells whether standard output, having taken \<open>out\<close>, takes \<open>bytes\<close>;
  \<open>cf_random\<close> is the sequence that the random generator yields, \<open>cf_gmtime\<close> the times that are read
  in turn, \<open>cf_localtime\<close> the same in the local time zone, \<open>cf_timer\<close> the readings of the timer;
  \<open>cf_libm\<close> is floating-point arithmetic, \<open>cf_regex\<close> the regular expressions, \<open>cf_syscall n\<close> the answer
  to the system call that is the \<open>n\<close>-th of those a fingerprint makes; \<open>cf_svg\<close> is what genx makes of
  the calls it gets, if it can be set up: whether it succeeds, and the text it writes; \<open>cf_system\<close> is the exit status of a command and what the file system holds after it;
  \<open>cf_oob\<close> is the word that lies in memory in front of the array of a stack;
  \<open>cf_shift a n\<close> is what the machine makes of a shift by a number \<open>n\<close> of places that is not below the
  width of a cell, which C leaves undefined.
\<close>

record config =
  cf_standard :: standardVersion
  cf_sandbox :: bool
  cf_disable_fingerprints :: bool
  cf_al :: allocator
  cf_pool :: bool
  cf_stdout :: "byte list \<Rightarrow> byte list \<Rightarrow> bool"
  cf_random :: "nat \<Rightarrow> ucell"
  cf_gmtime :: "nat \<Rightarrow> tm"
  cf_localtime :: "nat \<Rightarrow> tm"
  cf_timer :: "nat \<Rightarrow> timespec"
  cf_libm :: libm
  cf_regex :: regex_lib
  cf_syscall :: "nat \<Rightarrow> syscall \<Rightarrow> sysret"
  cf_svg :: "genx_call list \<Rightarrow> (bool \<times> byte list) option"
  cf_system :: "byte list \<Rightarrow> world \<Rightarrow> 32 word \<times> (byte list \<Rightarrow> byte list option)"
  cf_save :: save_env
  cf_environ :: "byte list list"
  cf_argv :: "byte list list"
  cf_oob :: cell
  cf_shift :: "cell \<Rightarrow> cell \<Rightarrow> cell"

section \<open>The stack of an instruction pointer\<close>

definition toss :: "instructionPointer \<Rightarrow> cell list" where
  "toss ip = stack_list (ip_stack ip)"

definition ip_push :: "cell \<Rightarrow> instructionPointer \<Rightarrow> instructionPointer" where
  "ip_push v ip = ip_set_stack (stack_push (ip_stack ip) v) ip"

definition ip_pop :: "instructionPointer \<Rightarrow> cell \<times> instructionPointer" where
  "ip_pop ip = (let (v, s) = stack_pop (ip_stack ip) in (v, ip_set_stack s ip))"

definition ip_push_vector :: "funge_vector \<Rightarrow> instructionPointer \<Rightarrow> instructionPointer" where
  "ip_push_vector v ip = ip_set_stack (stack_push_vector (ip_stack ip) v) ip"

definition ip_pop_vector :: "instructionPointer \<Rightarrow> funge_vector \<times> instructionPointer" where
  "ip_pop_vector ip = (let (v, s) = stack_pop_vector (ip_stack ip) in (v, ip_set_stack s ip))"

text \<open>A popped string as the C string that the caller sees: it ends at the first zero byte.\<close>

definition ip_pop_string :: "config \<Rightarrow> instructionPointer \<Rightarrow> byte list option \<times> instructionPointer" where
  "ip_pop_string cf ip =
     (let (str, s) = stack_pop_string (cf_al cf) (ip_stack ip)
      in (map_option (takeWhile (\<lambda>c. c \<noteq> 0)) str, ip_set_stack s ip))"

named_theorems ip_simps "how the stack operations act on an instruction pointer"

text \<open>Everything of an instruction pointer but the contents and the sizes of its current stack.\<close>

definition same_but_stack :: "instructionPointer \<Rightarrow> instructionPointer \<Rightarrow> bool" where
  "same_but_stack ip ip' \<longleftrightarrow> ip' = ip_set_stack (ip_stack ip') ip"

lemma ip_set_stack_again [simp]: "ip_set_stack s (ip_set_stack t ip) = ip_set_stack s ip"
  by (simp add: ip_set_stack_def ss_set_stack_def)

lemma ip_set_stack_same [simp]: "ip_set_stack (ip_stack ip) ip = ip"
  by (simp add: ip_set_stack_def ss_set_stack_def ip_stack_def)

lemma ip_set_stack_fields [ip_simps]:
  "ip_position (ip_set_stack s ip) = ip_position ip"
  "ip_delta (ip_set_stack s ip) = ip_delta ip"
  "ip_storageOffset (ip_set_stack s ip) = ip_storageOffset ip"
  "ip_mode (ip_set_stack s ip) = ip_mode ip"
  "ip_needMove (ip_set_stack s ip) = ip_needMove ip"
  "ip_stringLastWasSpace (ip_set_stack s ip) = ip_stringLastWasSpace ip"
  "ip_fingerSUBRisRelative (ip_set_stack s ip) = ip_fingerSUBRisRelative ip"
  "ip_ID (ip_set_stack s ip) = ip_ID ip"
  "ip_fingerOpcodes (ip_set_stack s ip) = ip_fingerOpcodes ip"
  by (simp_all add: ip_set_stack_def)

lemma toss_set_stack [ip_simps]: "toss (ip_set_stack s ip) = stack_list s"
  by (simp add: toss_def)

lemma toss_update [ip_simps]:
  "toss (ip\<lparr>ip_delta := d\<rparr>) = toss ip" "toss (ip\<lparr>ip_position := d\<rparr>) = toss ip"
  "toss (ip\<lparr>ip_mode := md\<rparr>) = toss ip" "toss (ip\<lparr>ip_needMove := b\<rparr>) = toss ip"
  "toss (ip\<lparr>ip_stringLastWasSpace := b\<rparr>) = toss ip" "toss (ip\<lparr>ip_fingerOpcodes := ops\<rparr>) = toss ip"
  "toss (ip\<lparr>ip_fingerSUBRisRelative := b\<rparr>) = toss ip" "toss (ip\<lparr>ip_storageOffset := d\<rparr>) = toss ip"
  by (simp_all add: toss_def ip_stack_def)

lemma toss_push [ip_simps]: "toss (ip_push v ip) = toss ip @ [v]"
  by (simp add: ip_push_def ip_simps stack_simps) (simp add: toss_def)

lemma ip_pop_fst [ip_simps]: "fst (ip_pop ip) = from_top (toss ip) 0"
  by (simp add: ip_pop_def toss_def split_beta stack_simps)

lemma toss_pop [ip_simps]: "toss (snd (ip_pop ip)) = drop_top 1 (toss ip)"
  by (simp add: ip_pop_def split_beta ip_simps stack_simps) (simp add: toss_def)

lemma toss_push_vector [ip_simps]: "toss (ip_push_vector v ip) = toss ip @ [vec_x v, vec_y v]"
  by (simp add: ip_push_vector_def ip_simps stack_simps) (simp add: toss_def)

lemma ip_pop_vector_fst [ip_simps]:
  "fst (ip_pop_vector ip) = vector (from_top (toss ip) 1) (from_top (toss ip) 0)"
  by (simp add: ip_pop_vector_def toss_def split_beta stack_simps)

lemma toss_pop_vector [ip_simps]: "toss (snd (ip_pop_vector ip)) = drop_top 2 (toss ip)"
  by (simp add: ip_pop_vector_def split_beta ip_simps stack_simps) (simp add: toss_def)

lemma stack_ops_set [ip_simps]:
  "\<exists>s. ip_push v ip = ip_set_stack s ip" "\<exists>s. snd (ip_pop ip) = ip_set_stack s ip"
  "\<exists>s. ip_push_vector p ip = ip_set_stack s ip" "\<exists>s. snd (ip_pop_vector ip) = ip_set_stack s ip"
  "\<exists>s. snd (ip_pop_string cf ip) = ip_set_stack s ip"
  by (auto simp: ip_push_def ip_pop_def ip_push_vector_def ip_pop_vector_def ip_pop_string_def
      split_beta)

text \<open>
  The stack operations as explicit pairs, for running an instruction symbolically: with these the
  simplifier evaluates the sequence of pops and pushes of an instruction in terms of \<open>toss\<close>.
\<close>

lemma ip_pop_run:
  "ip_pop ip = (from_top (toss ip) 0, ip_set_stack (snd (stack_pop (ip_stack ip))) ip)"
  by (simp add: ip_pop_def split_beta toss_def stack_simps)

lemma ip_pop_vector_run:
  "ip_pop_vector ip = (vector (from_top (toss ip) 1) (from_top (toss ip) 0),
     ip_set_stack (snd (stack_pop_vector (ip_stack ip))) ip)"
  by (simp add: ip_pop_vector_def split_beta toss_def stack_simps)

lemma stack_list_toss: "stack_list (ip_stack ip) = toss ip"
  by (simp add: toss_def)

lemma ip_push_fields [ip_simps]:
  "ip_position (ip_push v ip) = ip_position ip" "ip_delta (ip_push v ip) = ip_delta ip"
  "ip_storageOffset (ip_push v ip) = ip_storageOffset ip"
  "ip_position (ip_push_vector p ip) = ip_position ip" "ip_delta (ip_push_vector p ip) = ip_delta ip"
  "ip_storageOffset (ip_push_vector p ip) = ip_storageOffset ip"
  by (simp_all add: ip_push_def ip_push_vector_def ip_simps)

lemmas ip_runs = ip_push_fields ip_pop_run ip_pop_vector_run stack_list_toss toss_set_stack stack_list_pop
  stack_list_pop_vector toss_push toss_push_vector toss_update ip_set_stack_fields

section \<open>Moving\<close>

definition m_forward :: "mach \<Rightarrow> mach" where
  "m_forward m =
     (let (ip, w) = m; (ip, space) = ip_forward ip (w_space w) in (ip, w\<lparr>w_space := space\<rparr>))"

definition m_backward :: "mach \<Rightarrow> mach" where
  "m_backward m =
     (let (ip, w) = m; (ip, space) = ip_backward ip (w_space w) in (ip, w\<lparr>w_space := space\<rparr>))"

definition m_set_position :: "funge_vector \<Rightarrow> mach \<Rightarrow> mach" where
  "m_set_position pos m =
     (let (ip, w) = m; (ip, space) = ip_set_position ip pos (w_space w) in (ip, w\<lparr>w_space := space\<rparr>))"

text \<open>Standard output either takes all bytes of a call or, when the call fails, none.\<close>

definition put_bytes :: "config \<Rightarrow> byte list \<Rightarrow> world \<Rightarrow> bool \<times> world" where
  "put_bytes cf bytes w =
     (if cf_stdout cf (w_output w) bytes then (True, w\<lparr>w_output := w_output w @ bytes\<rparr>) else (False, w))"

text \<open>
  \<open>prng_generate_unsigned\<close>, in the build without \<open>arc4random\<close>: \<open>random() % max_value\<close>.
\<close>

definition prng_generate_unsigned :: "config \<Rightarrow> ucell \<Rightarrow> world \<Rightarrow> ucell \<times> world" where
  "prng_generate_unsigned cf max_value w =
     (cf_random cf (w_random w) mod max_value, w\<lparr>w_random := w_random w + 1\<rparr>)"

section \<open>The system\<close>

text \<open>
  Each system call is answered in its turn. An operation on a file that is granted has the effect that the
  fingerprint FILE models, and no other.
\<close>

definition sys_call :: "config \<Rightarrow> syscall \<Rightarrow> world \<Rightarrow> sysret \<times> world" where
  "sys_call cf call w =
     (let ret = cf_syscall cf (w_calls w) call
      in (ret, w\<lparr>w_calls := w_calls w + 1, w_files := sr_files ret (w_files w)\<rparr>))"

definition granted :: "config \<Rightarrow> file_op \<Rightarrow> world \<Rightarrow> bool \<times> world" where
  "granted cf fo w = (sr_flag (cf_syscall cf (w_calls w) (Sys_file fo)), w\<lparr>w_calls := w_calls w + 1\<rparr>)"

section \<open>Conditional turns\<close>

definition if_east_west :: "instructionPointer \<Rightarrow> instructionPointer" where
  "if_east_west ip = (let (v, ip) = ip_pop ip in if v = 0 then ip_go_east ip else ip_go_west ip)"

definition if_north_south :: "instructionPointer \<Rightarrow> instructionPointer" where
  "if_north_south ip = (let (v, ip) = ip_pop ip in if v = 0 then ip_go_south ip else ip_go_north ip)"

section \<open>A sample\<close>

text \<open>A run with a cooperative system and empty surroundings, for the concrete instances.\<close>

definition sample_tm :: tm where
  "sample_tm = \<lparr>tm_year = 0, tm_mon = 0, tm_mday = 1, tm_hour = 0, tm_min = 0, tm_sec = 0, tm_wday = 1,
     tm_yday = 0\<rparr>"

definition sample_config :: config where
  "sample_config =
     \<lparr>cf_standard = Stdver98, cf_sandbox = False, cf_disable_fingerprints = False, cf_al = (\<lambda>_. True),
      cf_pool = True, cf_stdout = (\<lambda>_ _. True), cf_random = (\<lambda>_. 0),
      cf_gmtime = (\<lambda>_. sample_tm), cf_localtime = (\<lambda>_. sample_tm),
      cf_timer = (\<lambda>n. \<lparr>tv_sec = of_nat n + 1, tv_nsec = 0\<rparr>), cf_libm = sample_libm,
      cf_regex = \<lparr>rx_comp = (\<lambda>_ _. None), rx_exec = (\<lambda>_ _ _ _ _. None)\<rparr>,
      cf_syscall = (\<lambda>_ call. sample_sysret\<lparr>sr_value := if call = Sys_read then - 1 else 0,
        sr_flag := (case call of Sys_term (Term_capability _) \<Rightarrow> False | _ \<Rightarrow> True)\<rparr>), cf_svg = (\<lambda>_. Some (True, [])),
      cf_system = (\<lambda>_ w. (0, w_files w)),
      cf_save = \<lparr>se_open = True, se_fallocate = True, se_alloc = (\<lambda>_. True), se_write = True\<rparr>,
      cf_environ = [], cf_argv = [], cf_oob = 0, cf_shift = (\<lambda>_ _. 0)\<rparr>"

definition sample_world :: world where
  "sample_world =
     \<lparr>w_space = fungespace_create, w_input = fresh_input [], w_output = [], w_files = (\<lambda>_. None),
      w_random = 0, w_clock = 0, w_timer = 0, w_calls = 0, w_statics = initial_statics, w_references = [], w_referencesSize = 0, w_TOSSSize = 0,
      w_tmp_stack = None, w_cache_stack = None\<rparr>"

end
