(* ===== verification/Io.thy ===== *)
theory Io
  imports World
begin

text \<open>
  The instructions that talk to the outside: character and number output and input
  (the cases \<open>,\<close> \<open>.\<close> \<open>~\<close> \<open>&\<close> of \<^verbatim>\<open>src/interpreter.c\<close>), file input and output
  (\<^verbatim>\<open>src/instructions/io.c\<close>) and the execution of a system command
  (\<^verbatim>\<open>src/instructions/execute.c\<close>).
\<close>

section \<open>Characters and numbers\<close>

fun dec_digits :: "nat \<Rightarrow> byte list" where
  "dec_digits n = (if n < 10 then [of_nat (48 + n)] else dec_digits (n div 10) @ [of_nat (48 + n mod 10)])"

declare dec_digits.simps [simp del]

text \<open>What \<open>printf\<close> writes for a cell: \<open>%ld\<close>.\<close>

definition show_cell :: "cell \<Rightarrow> byte list" where
  "show_cell v = (if sint v < 0 then 45 # dec_digits (nat (- sint v)) else dec_digits (nat (sint v)))"

definition output_char :: "config \<Rightarrow> mach \<Rightarrow> mach" where
  "output_char cf m =
     (let (ip, w) = m;
          (a, ip) = ip_pop ip;
          (okay, w) = put_bytes cf [ucast a] w
      in (if \<not> okay then ip_reverse ip else ip, w))"

definition output_number :: "config \<Rightarrow> mach \<Rightarrow> mach" where
  "output_number cf m =
     (let (ip, w) = m;
          (a, ip) = ip_pop ip;
          (okay, w) = put_bytes cf (show_cell a @ [32]) w
      in (if \<not> okay then ip_reverse ip else ip, w))"

definition read_char :: "mach \<Rightarrow> mach" where
  "read_char m =
     (let (ip, w) = m;
          (a, input) = input_getchar (w_input w);
          w = w\<lparr>w_input := input\<rparr>
      in case a of Some a \<Rightarrow> (ip_push a ip, w) | None \<Rightarrow> (ip_reverse ip, w))"

text \<open>The loop of \<open>&\<close>: a line without a number is passed over.\<close>

function getint_loop :: "int \<Rightarrow> input_state \<Rightarrow> ret_getint \<times> cell option \<times> input_state" where
  "getint_loop base st =
     (let (gotint, a, st') = input_getint base st
      in if gotint = Rgi_noint then getint_loop base st' else (gotint, a, st'))"
  by pat_completeness auto
termination
proof (relation "measure (\<lambda>(base, st). length (in_stdin st) + (if in_current st = None then 0 else 1))")
  fix base :: int and st p gotint q a st'
  assume "p = input_getint base st" "(gotint, q) = p" "(a, st') = q" "gotint = Rgi_noint"
  then show "((base, st'), base, st) \<in>
      measure (\<lambda>(base, st). length (in_stdin st) + (if in_current st = None then 0 else 1))"
    using getint_noint_shrinks [of base st a st'] by (metis (no_types, lifting) case_prod_conv in_measure)
qed simp

declare getint_loop.simps [simp del]

definition read_number :: "mach \<Rightarrow> mach" where
  "read_number m =
     (let (ip, w) = m;
          (gotint, a, input) = getint_loop 10 (w_input w);
          w = w\<lparr>w_input := input\<rparr>
      in if gotint = Rgi_success then (ip_push (the a) ip, w) else (ip_reverse ip, w))"

section \<open>Files\<close>

definition run_file_input :: "config \<Rightarrow> mach \<Rightarrow> mach" where
  "run_file_input cf m =
     (let (ip, w) = m in
      if cf_sandbox cf then (ip_reverse ip, w)
      else
        (let (filename, ip) = ip_pop_string cf ip in
         if filename = None \<or> the filename = [] then (ip_reverse ip, w)
         else
           (let (flags, ip) = ip_pop ip;
                binary = (flags AND 1 \<noteq> 0);
                (offset, ip) = ip_pop_vector ip;
                (okay, sz, space) =
                  fungespace_load_at_offset (w_files w (the filename))
                    (vector (vec_x offset + vec_x (ip_storageOffset ip))
                            (vec_y offset + vec_y (ip_storageOffset ip)))
                    binary (vector 0 0) (w_space w);
                w = w\<lparr>w_space := space\<rparr>
            in if \<not> okay then (ip_reverse ip, w)
               else (ip_push_vector offset (ip_push_vector sz ip), w))))"

definition run_file_output :: "config \<Rightarrow> mach \<Rightarrow> mach" where
  "run_file_output cf m =
     (let (ip, w) = m in
      if cf_sandbox cf then (ip_reverse ip, w)
      else
        (let (filename, ip) = ip_pop_string cf ip;
             (flags, ip) = ip_pop ip;
             textfile = (flags AND 1 \<noteq> 0);
             (offset, ip) = ip_pop_vector ip;
             (sz, ip) = ip_pop_vector ip
         in if filename = None \<or> the filename = [] \<or> vec_x sz <s 1 \<or> vec_y sz <s 1
            then (ip_reverse ip, w)
            else
              (let (okay, content) =
                     fungespace_save_to_file (cf_save cf)
                       (vector (vec_x offset + vec_x (ip_storageOffset ip))
                               (vec_y offset + vec_y (ip_storageOffset ip)))
                       sz textfile (w_space w);
                   w = (case content of None \<Rightarrow> w
                        | Some bytes \<Rightarrow> w\<lparr>w_files := (w_files w)(the filename := Some bytes)\<rparr>)
               in (if \<not> okay then ip_reverse ip else ip, w))))"

section \<open>System commands\<close>

definition FUNGE_NOCOMMAND :: cell where
  "FUNGE_NOCOMMAND = - 2"

text \<open>The status macros of POSIX, on the status word as Linux lays it out.\<close>

definition WIFEXITED :: "32 word \<Rightarrow> bool" where
  "WIFEXITED status \<longleftrightarrow> status AND 0x7F = 0"

definition WEXITSTATUS :: "32 word \<Rightarrow> 32 word" where
  "WEXITSTATUS status = drop_bit 8 (status AND 0xFF00)"

definition run_system_execute :: "config \<Rightarrow> mach \<Rightarrow> mach" where
  "run_system_execute cf m =
     (let (ip, w) = m in
      if cf_sandbox cf then (ip_reverse ip, w)
      else
        (let (command, ip) = ip_pop_string cf ip in
         if command = None \<or> the command = [] then (ip_push FUNGE_NOCOMMAND ip, w)
         else
           (let (retval, files) = cf_system cf (the command) w;
                w = w\<lparr>w_files := files\<rparr>
            in if WIFEXITED retval then (ip_push (scast (WEXITSTATUS retval)) ip, w)
               else (ip_push (scast retval) ip, w))))"

section \<open>Numbers read back\<close>

lemma digit_byte:
  assumes "k < 10"
  shows "isdigit (of_nat (48 + k))" "digit_of 10 (of_nat (48 + k)) = Some (int k)"
proof -
  have "k \<in> set [0..<10]" using assms by simp
  then have "isdigit (of_nat (48 + k)) \<and> digit_of 10 (of_nat (48 + k)) = Some (int k)"
    by (simp add: upt_rec isdigit_def digit_of_def digits_index_def) (elim disjE; simp)
  then show "isdigit (of_nat (48 + k))" "digit_of 10 (of_nat (48 + k)) = Some (int k)" by auto
qed

lemma digits_value_append:
  "digits_value base v (xs @ ys) = digits_value base (digits_value base v xs) ys"
  by (simp add: digits_value_def)

lemma dec_digits_spec:
  "list_all isdigit (dec_digits n) \<and> dec_digits n \<noteq> [] \<and> digits_value 10 0 (dec_digits n) = int n"
proof (induction n rule: dec_digits.induct)
  case (1 n)
  show ?case
  proof (cases "n < 10")
    case True
    then show ?thesis
      using digit_byte [OF True] by (subst (1 2 3) dec_digits.simps) simp
  next
    case False
    have "n mod 10 < 10" by simp
    note digit = digit_byte [OF this]
    have "int (n div 10) * 10 + int (n mod 10) = int n"
      by (metis div_mult_mod_eq of_nat_add of_nat_mult of_nat_numeral)
    then show ?thesis
      using 1 [OF False] digit False
      by (subst (1 2 3) dec_digits.simps) (simp add: digits_value_append)
  qed
qed

lemma show_cell_spec:
  assumes "v \<noteq> FUNGECELL_MIN"
  shows "\<exists>junk ds. show_cell v = junk @ ds \<and> list_all (\<lambda>b. \<not> isdigit b \<and> b \<noteq> 10) junk \<and>
     list_all isdigit ds \<and> ds \<noteq> [] \<and> digits_value 10 0 ds < 2 ^ 63 \<and>
     of_int (digits_value 10 0 ds) = ABS v"
proof -
  let ?n = "nat (if sint v < 0 then - sint v else sint v)"
  have "show_cell v = (if sint v < 0 then [45] else []) @ dec_digits ?n"
    by (simp add: show_cell_def)
  moreover have "digits_value 10 0 (dec_digits ?n) < 2 ^ 63"
    using dec_digits_spec [of ?n] cell_sint_range [of v] assms
    by (simp add: eq_FUNGECELL_MIN)
  moreover have "of_int (digits_value 10 0 (dec_digits ?n)) = ABS v"
    using dec_digits_spec [of ?n] of_int_sint_cell [of v]
    by (auto simp: ABS_def cell_less_iff simp flip: of_int_sint_cell)
  moreover have "\<not> isdigit 45" by (simp add: isdigit_def)
  ultimately show ?thesis
    using dec_digits_spec [of ?n] by (intro exI conjI) auto
qed

text \<open>
  C28: what \<open>.\<close> prints, \<open>&\<close> reads: when the text of \<open>.\<close> comes back as input, \<open>&\<close> pushes the
  magnitude of the number (the sign is no digit and is skipped) and leaves the blank that \<open>.\<close> writes
  after it and all that follows. The one exception is the least cell, whose magnitude is no cell.
\<close>

theorem number_output_input:
  assumes "output_number cf (ip, w) = (ip1, w1)" "cf_stdout cf (w_output w) = (\<lambda>_. True)"
    and "from_top (toss ip) 0 = v" "v \<noteq> FUNGECELL_MIN"
    and "input_ok (w_input w2)" "w_output w @ unread (w_input w2) = w_output w1 @ rest"
    and "read_number (ip2, w2) = (ip3, w3)"
  shows "toss ip1 = drop_top 1 (toss ip) \<and> toss ip3 = toss ip2 @ [ABS v] \<and>
     unread (w_input w3) = 32 # rest \<and> input_ok (w_input w3)"
proof -
  have out: "w_output w1 = w_output w @ show_cell v @ [32]" "toss ip1 = drop_top 1 (toss ip)"
    using assms(1-3) by (auto simp: output_number_def put_bytes_def split_beta Let_def ip_simps)
  obtain junk ds where ds: "show_cell v = junk @ ds" "list_all (\<lambda>b. \<not> isdigit b \<and> b \<noteq> 10) junk"
    "list_all isdigit ds" "ds \<noteq> []" "digits_value 10 0 ds < 2 ^ 63" "of_int (digits_value 10 0 ds) = ABS v"
    using show_cell_spec [OF assms(4)] by blast
  have "unread (w_input w2) = junk @ ds @ 32 # rest"
    using assms(6) out(1) ds(1) by simp
  then have "case input_getint 10 (w_input w2) of (r, value, st') \<Rightarrow>
     r = Rgi_success \<and> value = Some (ABS v) \<and> input_ok st' \<and> unread st' = 32 # rest"
    using getint_decimal [OF assms(5) _ ds(2,3,4) _ ds(5), of 32 rest] ds(6)
    by (simp add: isdigit_def)
  then show ?thesis
    using assms(7) out(2)
    by (auto simp: read_number_def getint_loop.simps [of 10 "w_input w2"] Let_def ip_simps
        split: prod.splits)
qed

theorem number_output_input_witness:
  "\<exists>ip3 w3. read_number (sample_ip, sample_world\<lparr>w_input := fresh_input [45, 55, 32]\<rparr>) = (ip3, w3) \<and>
     toss ip3 = toss sample_ip @ [7] \<and> unread (w_input w3) = [32]"
proof -
  let ?ip = "ip_push (- 7) sample_ip"
  obtain ip1 w1 where run: "output_number sample_config (?ip, sample_world) = (ip1, w1)"
    by (cases "output_number sample_config (?ip, sample_world)")
  moreover have "w_output w1 = [45, 55, 32]"
    using run
    by (auto simp: output_number_def put_bytes_def sample_config_def sample_world_def split_beta
        ip_simps show_cell_def dec_digits.simps)
  moreover obtain ip3 w3 where
    "read_number (sample_ip, sample_world\<lparr>w_input := fresh_input [45, 55, 32]\<rparr>) = (ip3, w3)"
    by (cases "read_number (sample_ip, sample_world\<lparr>w_input := fresh_input [45, 55, 32]\<rparr>)")
  moreover have "ABS (- 7) = 7" by code_simp
  ultimately show ?thesis
    using number_output_input [of sample_config ?ip sample_world ip1 w1 "- 7"
        "sample_world\<lparr>w_input := fresh_input [45, 55, 32]\<rparr>" "[]" sample_ip ip3 w3]
    by (auto simp: sample_config_def sample_world_def ip_simps FUNGECELL_MIN_def)
qed

end
