(* ===== verification/Fingerprints.thy ===== *)
theory Fingerprints
  imports Io
begin

text \<open>
  Instructions of fingerprints, one C file each under \<^verbatim>\<open>src/fingerprints\<close>: BOOL, ROMA, MODU,
  NULL, FING, FRTH, ORTH, REFC, INDV, JSTR and SUBR. An instruction that leaves the world alone is
  a function on the instruction pointer. The scratch stack of SUBR and its allocation are as in a
  run where that allocation succeeds (the code does not check it).
\<close>

section \<open>BOOL and ROMA\<close>

definition finger_BOOL_and :: "instructionPointer \<Rightarrow> instructionPointer" where
  "finger_BOOL_and ip = (let (a, ip) = ip_pop ip; (b, ip) = ip_pop ip in ip_push (a AND b) ip)"

definition finger_BOOL_not :: "instructionPointer \<Rightarrow> instructionPointer" where
  "finger_BOOL_not ip = (let (a, ip) = ip_pop ip in ip_push (NOT a) ip)"

definition finger_BOOL_or :: "instructionPointer \<Rightarrow> instructionPointer" where
  "finger_BOOL_or ip = (let (a, ip) = ip_pop ip; (b, ip) = ip_pop ip in ip_push (a OR b) ip)"

definition finger_BOOL_xor :: "instructionPointer \<Rightarrow> instructionPointer" where
  "finger_BOOL_xor ip = (let (a, ip) = ip_pop ip; (b, ip) = ip_pop ip in ip_push (a XOR b) ip)"

definition finger_ROMA_push :: "ROMA_op \<Rightarrow> instructionPointer \<Rightarrow> instructionPointer" where
  "finger_ROMA_push r ip =
     ip_push (case r of ROMA_pushI \<Rightarrow> 1 | ROMA_pushV \<Rightarrow> 5 | ROMA_pushX \<Rightarrow> 10 | ROMA_pushL \<Rightarrow> 50
                      | ROMA_pushC \<Rightarrow> 100 | ROMA_pushD \<Rightarrow> 500 | ROMA_pushM \<Rightarrow> 1000) ip"

section \<open>MODU\<close>

definition floordiv :: "cell \<Rightarrow> cell \<Rightarrow> cell" where
  "floordiv x y = (let x = c_div x y in if x <s 0 then x - 1 else x)"

definition finger_MODU_signed_result :: "instructionPointer \<Rightarrow> instructionPointer" where
  "finger_MODU_signed_result ip =
     (let (y, ip) = ip_pop ip; (x, ip) = ip_pop ip
      in if x = FUNGECELL_MIN \<and> y = - 1 then ip_push 0 ip
         else if y \<noteq> 0 then ip_push (x - floordiv x y * y) ip
         else ip_push 0 ip)"

definition finger_MODU_unsigned_result :: "instructionPointer \<Rightarrow> instructionPointer" where
  "finger_MODU_unsigned_result ip =
     (let (y, ip) = ip_pop ip; (x, ip) = ip_pop ip
      in if x = FUNGECELL_MIN \<and> y = - 1 then ip_push 0 ip
         else if y \<noteq> 0 then ip_push (ABS (c_mod x y)) ip
         else ip_push 0 ip)"

definition finger_MODU_remainder :: "instructionPointer \<Rightarrow> instructionPointer" where
  "finger_MODU_remainder ip =
     (let (y, ip) = ip_pop ip; (x, ip) = ip_pop ip
      in if x = FUNGECELL_MIN \<and> y = - 1 then ip_push 0 ip
         else if y \<noteq> 0 then ip_push (c_mod x y) ip
         else ip_push 0 ip)"

section \<open>NULL and FING\<close>

definition finger_NULL_reverse :: "instructionPointer \<Rightarrow> instructionPointer" where
  "finger_NULL_reverse ip = ip_reverse ip"

definition do_reflect :: "instructionPointer \<Rightarrow> instructionPointer" where
  "do_reflect ip = ip_reverse ip"

text \<open>The answer 0 of the code, for an invalid specification, is \<open>None\<close>.\<close>

definition pop_stack_spec :: "instructionPointer \<Rightarrow> char option \<times> instructionPointer" where
  "pop_stack_spec ip =
     (let (n, ip) = ip_pop ip
      in if n <s 0 then (None, ip)
         else if n \<le>s 25 then (Some (char_of (65 + unat n)), ip)
         else if n <s 65 then (None, ip)
         else if n \<le>s 90 then (Some (char_of (unat n)), ip)
         else (None, ip))"

definition finger_FING_swap :: "allocator \<Rightarrow> instructionPointer \<Rightarrow> instructionPointer" where
  "finger_FING_swap al ip =
     (let (first, ip) = pop_stack_spec ip;
          (second, ip) = pop_stack_spec ip
      in case (first, second) of
           (Some first, Some second) \<Rightarrow>
             (let (op1, ip) = opcode_stack_pop ip first;
                  (op2, ip) = opcode_stack_pop ip second;
                  op1 = (if op1 = None then Some Fp_reflect else op1);
                  op2 = (if op2 = None then Some Fp_reflect else op2)
              in case opcode_stack_push al ip second op1 of
                   (False, ip) \<Rightarrow> ip_reverse ip
                 | (True, ip) \<Rightarrow>
                    (case opcode_stack_push al ip first op2 of
                       (False, ip) \<Rightarrow> ip_reverse ip
                     | (True, ip) \<Rightarrow> ip))
         | _ \<Rightarrow> ip_reverse ip)"

definition finger_FING_drop :: "instructionPointer \<Rightarrow> instructionPointer" where
  "finger_FING_drop ip =
     (case pop_stack_spec ip of
        (None, ip) \<Rightarrow> ip_reverse ip
      | (Some opcode, ip) \<Rightarrow> snd (opcode_stack_pop ip opcode))"

definition finger_FING_push :: "allocator \<Rightarrow> instructionPointer \<Rightarrow> instructionPointer" where
  "finger_FING_push al ip =
     (let (dst, ip) = pop_stack_spec ip;
          (src, ip) = pop_stack_spec ip
      in case (src, dst) of
           (Some src, Some dst) \<Rightarrow>
             (case opcode_stack_pop ip src of
                (None, ip) \<Rightarrow>
                  (case opcode_stack_push al ip dst (Some Fp_reflect) of
                     (okay, ip) \<Rightarrow> if \<not> okay then ip_reverse ip else ip)
              | (Some func, ip) \<Rightarrow>
                  (case opcode_stack_push al ip src (Some func) of
                     (False, ip) \<Rightarrow> ip_reverse ip
                   | (True, ip) \<Rightarrow>
                      (case opcode_stack_push al ip dst (Some func) of
                         (okay, ip) \<Rightarrow> if \<not> okay then ip_reverse ip else ip)))
         | _ \<Rightarrow> ip_reverse ip)"

section \<open>FRTH\<close>

definition finger_FRTH_stack_size :: "instructionPointer \<Rightarrow> instructionPointer" where
  "finger_FRTH_stack_size ip = ip_push (of_nat (stk_top (ip_stack ip))) ip"

definition finger_FRTH_forth_roll :: "allocator \<Rightarrow> instructionPointer \<Rightarrow> instructionPointer" where
  "finger_FRTH_forth_roll al ip =
     (let (u, ip) = ip_pop ip in
      if u <s 0 then ip_reverse ip
      else
        (let s = stk_top (ip_stack ip) in
         if of_nat s \<le>s u then ip_push 0 ip
         else if \<not> al (size_t (sizeof_funge_cell * s)) then ip_reverse ip
         else
           (let elems = stk_entries (ip_stack ip);
                xu = elems (s - (unat u + 1));
                stack = stack_discard (ip_stack ip) (unat u + 1);
                stack = fold (\<lambda>i stack. stack_push stack (elems i)) [s - unat u..<s] stack
            in ip_set_stack (stack_push stack xu) ip)))"

definition finger_FRTH_forth_over :: "instructionPointer \<Rightarrow> instructionPointer" where
  "finger_FRTH_forth_over ip =
     (let (b, ip) = ip_pop ip; (a, ip) = ip_pop ip
      in ip_push a (ip_push b (ip_push a ip)))"

definition finger_FRTH_forth_pick :: "instructionPointer \<Rightarrow> instructionPointer" where
  "finger_FRTH_forth_pick ip =
     (let (u, ip) = ip_pop ip in
      if u <s 0 then ip_reverse ip
      else if stk_top (ip_stack ip) \<le> unat u then ip_push 0 ip
      else ip_push (stack_get_index (ip_stack ip) (stk_top (ip_stack ip) - unat u)) ip)"

definition finger_FRTH_forth_rot :: "instructionPointer \<Rightarrow> instructionPointer" where
  "finger_FRTH_forth_rot ip =
     (let (c, ip) = ip_pop ip; (b, ip) = ip_pop ip; (a, ip) = ip_pop ip
      in ip_push a (ip_push c (ip_push b ip)))"

section \<open>ORTH\<close>

definition finger_ORTH_bit_and :: "instructionPointer \<Rightarrow> instructionPointer" where
  "finger_ORTH_bit_and ip = (let (x, ip) = ip_pop ip; (y, ip) = ip_pop ip in ip_push (x AND y) ip)"

definition finger_ORTH_bit_or :: "instructionPointer \<Rightarrow> instructionPointer" where
  "finger_ORTH_bit_or ip = (let (x, ip) = ip_pop ip; (y, ip) = ip_pop ip in ip_push (x OR y) ip)"

definition finger_ORTH_bit_xor :: "instructionPointer \<Rightarrow> instructionPointer" where
  "finger_ORTH_bit_xor ip = (let (x, ip) = ip_pop ip; (y, ip) = ip_pop ip in ip_push (x XOR y) ip)"

definition finger_ORTH_get :: "mach \<Rightarrow> mach" where
  "finger_ORTH_get m =
     (let (ip, w) = m; (v, ip) = ip_pop_vector ip
      in (ip_push (fungespace_get (w_space w) (vector (vec_y v) (vec_x v))) ip, w))"

definition finger_ORTH_put :: "mach \<Rightarrow> mach" where
  "finger_ORTH_put m =
     (let (ip, w) = m; (v, ip) = ip_pop_vector ip; (c, ip) = ip_pop ip
      in (ip, w\<lparr>w_space := fungespace_set c (vector (vec_y v) (vec_x v)) (w_space w)\<rparr>))"

definition finger_ORTH_output_string :: "config \<Rightarrow> mach \<Rightarrow> mach" where
  "finger_ORTH_output_string cf m =
     (let (ip, w) = m; (str, ip) = ip_pop_string cf ip
      in case str of None \<Rightarrow> (ip_reverse ip, w)
         | Some str \<Rightarrow> (ip, snd (put_bytes cf str w)))"

definition finger_ORTH_change_dx :: "instructionPointer \<Rightarrow> instructionPointer" where
  "finger_ORTH_change_dx ip =
     (let (v, ip) = ip_pop ip in ip\<lparr>ip_delta := (ip_delta ip)\<lparr>vec_x := v\<rparr>\<rparr>)"

definition finger_ORTH_change_dy :: "instructionPointer \<Rightarrow> instructionPointer" where
  "finger_ORTH_change_dy ip =
     (let (v, ip) = ip_pop ip in ip\<lparr>ip_delta := (ip_delta ip)\<lparr>vec_y := v\<rparr>\<rparr>)"

definition finger_ORTH_change_x :: "mach \<Rightarrow> mach" where
  "finger_ORTH_change_x m =
     (let (ip, w) = m; (v, ip) = ip_pop ip in m_set_position (vector v (vec_y (ip_position ip))) (ip, w))"

definition finger_ORTH_change_y :: "mach \<Rightarrow> mach" where
  "finger_ORTH_change_y m =
     (let (ip, w) = m; (v, ip) = ip_pop ip in m_set_position (vector (vec_x (ip_position ip)) v) (ip, w))"

definition finger_ORTH_ramp_if_zero :: "mach \<Rightarrow> mach" where
  "finger_ORTH_ramp_if_zero m =
     (let (ip, w) = m; (v, ip) = ip_pop ip in if v = 0 then m_forward (ip, w) else (ip, w))"

section \<open>REFC\<close>

definition REFC_ALLOCCHUNK :: nat where
  "REFC_ALLOCCHUNK = 5"

definition sizeof_funge_vector :: nat where
  "sizeof_funge_vector = 16"

text \<open>
  The array \<open>references\<close> is null while its size is 0; its cells \<open>1\<close> to \<open>referencesTop\<close> are the
  list of the references.
\<close>

definition finger_REFC_reference :: "config \<Rightarrow> mach \<Rightarrow> mach" where
  "finger_REFC_reference cf m =
     (let (ip, w) = m; (y, ip) = ip_pop ip; (x, ip) = ip_pop ip;
          referencesTop = length (w_references w)
      in if w_referencesSize w = referencesTop + 1 \<and>
            \<not> cf_al cf (size_t ((w_referencesSize w + REFC_ALLOCCHUNK) * sizeof_funge_vector))
         then (ip_reverse ip, w)
         else
           (let w = (if w_referencesSize w = referencesTop + 1
                     then w\<lparr>w_referencesSize := w_referencesSize w + REFC_ALLOCCHUNK\<rparr> else w);
                w = w\<lparr>w_references := w_references w @ [vector x y]\<rparr>
            in (ip_push (of_nat (length (w_references w))) ip, w)))"

definition finger_REFC_dereference :: "mach \<Rightarrow> mach" where
  "finger_REFC_dereference m =
     (let (ip, w) = m; (ref, ip) = ip_pop ip
      in if ref \<le>s 0 \<or> length (w_references w) < unat ref then (ip_reverse ip, w)
         else (ip_push_vector (w_references w ! (unat ref - 1)) ip, w))"

definition init_references :: "config \<Rightarrow> world \<Rightarrow> bool \<times> world" where
  "init_references cf w =
     (if \<not> cf_al cf (REFC_ALLOCCHUNK * sizeof_funge_vector) then (False, w)
      else (True, w\<lparr>w_referencesSize := REFC_ALLOCCHUNK\<rparr>))"

section \<open>INDV\<close>

definition get_second_vector :: "mach \<Rightarrow> funge_vector \<times> mach" where
  "get_second_vector m =
     (let (ip, w) = m; (a, ip) = ip_pop_vector ip;
          a = vector_add a (ip_storageOffset ip);
          b = vector (fungespace_get (w_space w) (vector (vec_x a + 1) (vec_y a)))
                     (fungespace_get (w_space w) a)
      in (vector_add b (ip_storageOffset ip), (ip, w)))"

definition finger_INDV_get_num :: "mach \<Rightarrow> mach" where
  "finger_INDV_get_num m =
     (let (v, (ip, w)) = get_second_vector m in (ip_push (fungespace_get (w_space w) v) ip, w))"

definition finger_INDV_put_num :: "mach \<Rightarrow> mach" where
  "finger_INDV_put_num m =
     (let (v, (ip, w)) = get_second_vector m; (c, ip) = ip_pop ip
      in (ip, w\<lparr>w_space := fungespace_set c v (w_space w)\<rparr>))"

definition finger_INDV_get_vec :: "mach \<Rightarrow> mach" where
  "finger_INDV_get_vec m =
     (let (v, (ip, w)) = get_second_vector m
      in (ip_push_vector
            (vector (fungespace_get (w_space w) (vector (vec_x v + 1) (vec_y v)))
                    (fungespace_get (w_space w) v)) ip, w))"

definition finger_INDV_put_vec :: "mach \<Rightarrow> mach" where
  "finger_INDV_put_vec m =
     (let (a, (ip, w)) = get_second_vector m; (b, ip) = ip_pop_vector ip;
          space = fungespace_set (vec_y b) a (w_space w);
          space = fungespace_set (vec_x b) (vector (vec_x a + 1) (vec_y a)) space
      in (ip, w\<lparr>w_space := space\<rparr>))"

section \<open>JSTR\<close>

fun jstr_read :: "nat \<Rightarrow> funge_vector \<Rightarrow> funge_vector \<Rightarrow> fungeSpace \<Rightarrow> instructionPointer \<Rightarrow>
    instructionPointer" where
  "jstr_read 0 pos delta space ip = ip"
| "jstr_read (Suc n) pos delta space ip =
     jstr_read n (vector_add pos delta) delta space (ip_push (fungespace_get space pos) ip)"

fun jstr_write :: "nat \<Rightarrow> funge_vector \<Rightarrow> funge_vector \<Rightarrow> mach \<Rightarrow> mach" where
  "jstr_write 0 pos delta m = m"
| "jstr_write (Suc n) pos delta (ip, w) =
     (let (c, ip) = ip_pop ip
      in jstr_write n (vector_add pos delta) delta
           (ip, w\<lparr>w_space := fungespace_set c pos (w_space w)\<rparr>))"

definition finger_JSTR_push_n :: "mach \<Rightarrow> mach" where
  "finger_JSTR_push_n m =
     (let (ip, w) = m; (n, ip) = ip_pop ip; (pos, ip) = ip_pop_vector ip; (delta, ip) = ip_pop_vector ip;
          pos = vector_add pos (ip_storageOffset ip)
      in if n \<le>s 0 then (ip_reverse ip, w)
         else (jstr_read (unat n) pos delta (w_space w) (ip_push 0 ip), w))"

definition finger_JSTR_pop_n :: "mach \<Rightarrow> mach" where
  "finger_JSTR_pop_n m =
     (let (ip, w) = m; (n, ip) = ip_pop ip; (pos, ip) = ip_pop_vector ip; (delta, ip) = ip_pop_vector ip;
          pos = vector_add pos (ip_storageOffset ip)
      in if n \<le>s 0 then (ip_reverse ip, w)
         else jstr_write (unat n) pos delta (ip, w))"

section \<open>SUBR\<close>

definition SUBRnewDelta :: funge_vector where
  "SUBRnewDelta = vector 1 0"

definition finger_SUBR_absolute :: "instructionPointer \<Rightarrow> instructionPointer" where
  "finger_SUBR_absolute ip = ip\<lparr>ip_fingerSUBRisRelative := False\<rparr>"

definition finger_SUBR_relative :: "instructionPointer \<Rightarrow> instructionPointer" where
  "finger_SUBR_relative ip = ip\<lparr>ip_fingerSUBRisRelative := True\<rparr>"

text \<open>The popped position, made absolute in the relative mode.\<close>

definition subr_target :: "instructionPointer \<Rightarrow> funge_vector \<Rightarrow> funge_vector" where
  "subr_target ip pos =
     (if ip_fingerSUBRisRelative ip then vector_add pos (ip_storageOffset ip) else pos)"

definition finger_SUBR_call :: "mach \<Rightarrow> mach" where
  "finger_SUBR_call m =
     (let (ip, w) = m; (n, ip) = ip_pop ip
      in if n <s 0 then (ip_reverse ip, w)
         else
           (let (pos, ip) = ip_pop_vector ip;
                pos = subr_target ip pos;
                (tmpstack, stack) = transfer_cells (unat n) empty_stack (ip_stack ip);
                stack = stack_push_vector stack (ip_position ip);
                stack = stack_push_vector stack (ip_delta ip);
                (stack, tmpstack) = transfer_cells (unat n) stack tmpstack;
                (ip, w) = m_set_position pos (ip_set_stack stack ip, w)
            in (ip\<lparr>ip_delta := SUBRnewDelta, ip_needMove := False\<rparr>, w)))"

definition finger_SUBR_jump :: "mach \<Rightarrow> mach" where
  "finger_SUBR_jump m =
     (let (ip, w) = m; (pos, ip) = ip_pop_vector ip;
          (ip, w) = m_set_position (subr_target ip pos) (ip, w)
      in (ip\<lparr>ip_delta := SUBRnewDelta\<rparr>, w))"

definition finger_SUBR_return :: "mach \<Rightarrow> mach" where
  "finger_SUBR_return m =
     (let (ip, w) = m; (n, ip) = ip_pop ip
      in if n <s 0 then (ip_reverse ip, w)
         else
           (let (tmpstack, stack) = transfer_cells (unat n) empty_stack (ip_stack ip);
                (vec, stack) = stack_pop_vector stack;
                (pos, stack) = stack_pop_vector stack;
                (ip, w) = m_set_position pos (ip_set_stack stack ip, w);
                ip = ip\<lparr>ip_delta := vec\<rparr>;
                (stack, tmpstack) = transfer_cells (unat n) (ip_stack ip) tmpstack
            in (ip_set_stack stack ip, w)))"

section \<open>Contents after a known top\<close>

lemma from_top_append:
  "from_top (xs @ ys) k = (if k < length ys then rev ys ! k else from_top xs (k - length ys))"
  by (auto simp: from_top_def nth_append)

lemma drop_top_append:
  "drop_top n (xs @ ys) = (if n \<le> length ys then xs @ take (length ys - n) ys
     else drop_top (n - length ys) xs)"
  by (auto simp: drop_top_def)

lemma map_from_top_append: "map (from_top (xs @ ys)) [0..<length ys] = rev ys"
  by (rule nth_equalityI) (auto simp: from_top_append)

lemma push_again: "map (from_top ys) [0..<length ys] = rev ys"
  using map_from_top_append [of "[]" ys] by simp

lemma vector_collapse [simp]: "vector (vec_x v) (vec_y v) = v"
  by (rule vector_eqI) simp_all

definition pushed :: "cell list \<Rightarrow> instructionPointer" where
  "pushed xs = fold ip_push xs sample_ip"

lemma pushes_fields:
  "toss (fold ip_push xs ip) = toss ip @ xs \<and> ip_position (fold ip_push xs ip) = ip_position ip \<and>
   ip_delta (fold ip_push xs ip) = ip_delta ip \<and> ip_storageOffset (fold ip_push xs ip) = ip_storageOffset ip"
  by (induction xs arbitrary: ip) (simp_all add: ip_simps)

lemma pushed_fields [simp]:
  "toss (pushed xs) = [7, 8] @ xs" "ip_position (pushed xs) = vector 0 0" "ip_delta (pushed xs) = vector 1 0"
  "ip_storageOffset (pushed xs) = vector 0 0"
  using pushes_fields [of xs sample_ip]
  by (simp_all add: pushed_def sample_ip_def toss_def ip_stack_def stack_simps)

lemmas tops = from_top_append drop_top_append

lemma toss_m_set_position [ip_simps]: "toss (fst (m_set_position pos (ip, w))) = toss ip"
  by (simp add: m_set_position_def ip_set_position_def split_beta Let_def ip_simps)

lemma m_set_position_fields [ip_simps]:
  "ip_position (fst (m_set_position pos (ip, w))) = fst (fungespace_wrap pos (ip_delta ip) (w_space w))"
  "ip_storageOffset (fst (m_set_position pos (ip, w))) = ip_storageOffset ip"
  by (simp_all add: m_set_position_def ip_set_position_def split_beta Let_def)

section \<open>MODU\<close>

lemma floor_case:
  fixes x y :: int
  assumes "y \<noteq> 0"
  shows "x - (if x sdiv y < 0 then x sdiv y - 1 else x sdiv y) * y =
    (if x sdiv y < 0 \<and> y dvd x then y else if x sdiv y = 0 then x else x mod y)"
proof -
  have qr: "x - x sdiv y * y = x smod y"
    using sdiv_mult_smod_eq [of x y] by linarith
  have abs: "x sdiv y = sgn x * sgn y * (\<bar>x\<bar> div \<bar>y\<bar>)" "x smod y = sgn x * (\<bar>x\<bar> mod \<bar>y\<bar>)"
    by (simp_all add: signed_divide_int_def signed_modulo_int_def)
  have nonneg: "0 \<le> \<bar>x\<bar> div \<bar>y\<bar>" by (simp add: pos_imp_zdiv_nonneg_iff assms)
  have exact: "x smod y = 0 \<longleftrightarrow> y dvd x"
    by (auto simp: abs dvd_eq_mod_eq_0 [of "\<bar>y\<bar>" "\<bar>x\<bar>", symmetric] sgn_0_0)
  consider (pp) "0 \<le> x" "0 < y" | (pn) "0 \<le> x" "y < 0" | (np) "x < 0" "0 < y" | (nn) "x < 0" "y < 0"
    using assms by linarith
  then show ?thesis
  proof cases
    case pp
    then have "x sdiv y = x div y" "x smod y = x mod y" by (simp_all add: abs sgn_if)
    then show ?thesis using pp qr nonneg by auto
  next
    case nn
    then have "x sdiv y = x div y" "x smod y = x mod y"
      by (simp_all add: abs sgn_if mod_minus_right)
    then show ?thesis using nn qr nonneg by auto
  next
    case pn
    then have q: "x sdiv y = - (x div - y)" "x smod y = x mod - y"
      by (simp_all add: abs sgn_if)
    have "x mod y = (if x mod - y = 0 then 0 else x mod - y + y)"
      using zmod_zminus2_eq_if [of x "- y"] by simp
    then show ?thesis using pn qr q nonneg exact by (auto simp: left_diff_distrib)
  next
    case np
    then have q: "x sdiv y = - (- x div y)" "x smod y = - (- x mod y)"
      by (simp_all add: abs sgn_if)
    have "x mod y = (if - x mod y = 0 then 0 else y - (- x mod y))"
      using zmod_zminus1_eq_if [of "- x" y] by simp
    then show ?thesis using np qr q nonneg exact by (auto simp: left_diff_distrib)
  qed
qed

text \<open>
  \<open>M\<close> of MODU is not quite the floored remainder it stands for. On cells whose quotient is a
  cell the result is \<open>x mod y\<close>, with the sign of the divisor, except that it is \<open>y\<close> itself where
  the division is exact with a negative quotient (where the remainder is 0), and \<open>x\<close> where the
  quotient is 0 (which is the remainder only if the signs agree). A zero divisor gives 0.
\<close>

theorem modu_signed_result:
  assumes "toss ip = base @ [x, y]" "x \<noteq> FUNGECELL_MIN"
  shows "\<exists>r. toss (finger_MODU_signed_result ip) = base @ [r] \<and>
    sint r = (if y = 0 then 0
              else if sint x sdiv sint y < 0 \<and> sint y dvd sint x then sint y
              else if sint x sdiv sint y = 0 then sint x
              else sint x mod sint y)"
proof (cases "y = 0")
  case True
  then show ?thesis
    using assms by (simp add: finger_MODU_signed_result_def ip_runs tops FUNGECELL_MIN_def)
next
  case False
  have q: "sint (c_div x y) = sint x sdiv sint y"
    using assms(2) by (simp add: sint_c_div)
  have toss: "toss (finger_MODU_signed_result ip) = base @ [x - floordiv x y * y]"
    using assms False by (simp add: finger_MODU_signed_result_def ip_runs tops)
  let ?q = "sint x sdiv sint y"
  let ?r = "sint x - (if ?q < 0 then ?q - 1 else ?q) * sint y"
  have "floordiv x y = of_int (if ?q < 0 then ?q - 1 else ?q)"
    using q by (simp add: floordiv_def Let_def cell_less_iff c_div_def)
  then have "x - floordiv x y * y = of_int ?r"
    by (simp add: of_int_sint_cell)
  moreover have r: "?r = (if ?q < 0 \<and> sint y dvd sint x then sint y
      else if ?q = 0 then sint x else sint x mod sint y)"
    using False by (intro floor_case) (simp add: cell_eq_iff)
  moreover have mod_range: "- (2 ^ 63) \<le> sint x mod sint y \<and> sint x mod sint y < 2 ^ 63"
  proof (cases "0 < sint y")
    case True
    show ?thesis
      using pos_mod_bound [OF True, of "sint x"] pos_mod_sign [OF True, of "sint x"] cell_sint_lt [of y]
      by linarith
  next
    case nonpos: False
    then have neg: "sint y < 0" using False by (simp add: cell_eq_iff)
    show ?thesis
      using neg_mod_bound [OF neg, of "sint x"] neg_mod_sign [OF neg, of "sint x"] cell_sint_ge [of y]
      by linarith
  qed
  have "- (2 ^ 63) \<le> ?r \<and> ?r < 2 ^ 63"
    unfolding r using cell_sint_range [of x] cell_sint_range [of y] mod_range by (simp split: if_split)
  ultimately show ?thesis
    using toss False by (auto simp: sint_of_int_cell)
qed

theorem modu_signed_result_witness:
  "toss (finger_MODU_signed_result (pushed [- 7, 2])) = [7, 8, 1]"
proof -
  obtain r where r: "toss (finger_MODU_signed_result (pushed [- 7, 2])) = [7, 8] @ [r]"
    "sint r = (if sint (- 7 :: cell) sdiv sint (2 :: cell) < 0 \<and> sint (2 :: cell) dvd sint (- 7 :: cell)
       then sint (2 :: cell)
       else if sint (- 7 :: cell) sdiv sint (2 :: cell) = 0 then sint (- 7 :: cell)
       else sint (- 7 :: cell) mod sint (2 :: cell))"
    using modu_signed_result [of "pushed [- 7, 2]" "[7, 8]" "- 7" 2] by (auto simp: FUNGECELL_MIN_def)
  then have "sint r = 1" by (simp add: signed_divide_int_def)
  then have "r = 1" by (simp add: cell_eq_iff)
  then show ?thesis using r by simp
qed

section \<open>FRTH\<close>

lemma stack_list_pushes:
  "stack_list (fold (\<lambda>i stack. stack_push stack (f i)) is s) = stack_list s @ map f is"
  by (induction "is" arbitrary: s) (simp_all add: stack_simps)

text \<open>
  \<open>L\<close> of FRTH rolls: with a count \<open>u\<close> on top, the cell \<open>u\<close> places below the next one is taken
  out and pushed, all others keep their order. A count beyond the depth pushes 0, a negative one
  reflects, and both leave the cells below alone.
\<close>

theorem frth_roll:
  assumes "toss ip = xs @ [u]" "length xs < 2 ^ 63" "al (size_t (sizeof_funge_cell * length xs))"
  shows "toss (finger_FRTH_forth_roll al ip) =
    (if u <s 0 then xs
     else if length xs \<le> unat u then xs @ [0]
     else (let k = length xs - unat u in take (k - 1) xs @ drop k xs @ [xs ! (k - 1)])) \<and>
    ip_delta (finger_FRTH_forth_roll al ip) = (if u <s 0 then ip_delta (ip_reverse ip) else ip_delta ip)"
proof -
  obtain ip' where pop: "ip_pop ip = (u, ip')" "toss ip' = xs" "ip_delta ip' = ip_delta ip"
    using assms(1) by (simp add: ip_runs tops)
  have s: "stk_top (ip_stack ip') = length xs" "stack_list (ip_stack ip') = xs"
    using pop(2) length_stack_list [of "ip_stack ip'"] by (simp_all add: toss_def)
  have len: "sint (of_nat (length xs) :: cell) = int (length xs)"
    using sint_of_int_cell [of "int (length xs)"] assms(2) by simp
  show ?thesis
  proof (cases "u <s 0")
    case True
    then show ?thesis by (simp add: finger_FRTH_forth_roll_def pop ip_reverse_def ip_simps)
  next
    case False
    then have "int (unat u) = sint u" by (simp add: cell_less_iff unat_eq_nat_sint)
    then have deep: "of_nat (length xs) \<le>s u \<longleftrightarrow> length xs \<le> unat u"
      using len unfolding cell_le_iff by linarith
    show ?thesis
    proof (cases "length xs \<le> unat u")
      case True
      then show ?thesis using False deep s
        by (simp add: finger_FRTH_forth_roll_def pop ip_simps)
    next
      case shallow: False
      have e: "stk_entries (ip_stack ip') i = xs ! i" if "i < length xs" for i
        using nth_stack_list [of i "ip_stack ip'"] that s by simp
      have "map (stk_entries (ip_stack ip')) [length xs - unat u..<length xs] =
          drop (length xs - unat u) xs"
        by (rule nth_equalityI) (auto simp: e)
      moreover have "stk_entries (ip_stack ip') (length xs - (unat u + 1)) = xs ! (length xs - unat u - 1)"
        using shallow by (subst e) auto
      ultimately show ?thesis
        using False deep shallow s assms(3)
        by (simp add: finger_FRTH_forth_roll_def pop ip_simps stack_simps stack_list_pushes Let_def
            drop_top_def)
    qed
  qed
qed

theorem frth_roll_witness:
  "toss (finger_FRTH_forth_roll (\<lambda>_. True) (pushed [9, 2])) = [8, 9, 7]"
  using frth_roll [of "pushed [9, 2]" "[7, 8, 9]" 2 "\<lambda>_. True"] by (simp add: cell_order)

section \<open>SUBR\<close>

text \<open>
  a subroutine call and its return. \<open>C\<close> with \<open>n\<close> arguments pushes the position and the delta of
  the caller below them, and goes to the target with delta \<open>(1, 0)\<close>, not moving afterwards. When
  the subroutine has left any number \<open>k\<close> of results on top of that, \<open>R\<close> with the count \<open>k\<close> hands
  the results to the caller's stack and restores the caller's delta and position (the latter
  wrapped into funge-space).
\<close>

theorem subr_call_return:
  assumes "toss ip = base @ args @ [vec_x target, vec_y target, n]" "0 \<le>s n" "length args = unat n"
    and "finger_SUBR_call (ip, w) = (ip1, w1)"
    and "toss ip2 = base @ [vec_x (ip_position ip), vec_y (ip_position ip),
           vec_x (ip_delta ip), vec_y (ip_delta ip)] @ results @ [k]"
    and "0 \<le>s k" "length results = unat k"
    and "finger_SUBR_return (ip2, w2) = (ip3, w3)"
  shows "toss ip1 = base @ [vec_x (ip_position ip), vec_y (ip_position ip),
           vec_x (ip_delta ip), vec_y (ip_delta ip)] @ args \<and>
    ip_delta ip1 = vector 1 0 \<and> \<not> ip_needMove ip1 \<and>
    ip_position ip1 = fst (fungespace_wrap (subr_target ip target) (ip_delta ip) (w_space w)) \<and>
    toss ip3 = base @ results \<and> ip_delta ip3 = ip_delta ip \<and>
    ip_position ip3 = fst (fungespace_wrap (ip_position ip) (ip_delta ip2) (w_space w2))"
proof -
  let ?frame = "[vec_x (ip_position ip), vec_y (ip_position ip), vec_x (ip_delta ip), vec_y (ip_delta ip)]"
  have up: "map (from_top (xs @ args)) [0..<unat n] = rev args"
    "map (from_top (xs @ results)) [0..<unat k] = rev results"
    "map (from_top (rev args)) [0..<unat n] = args" "map (from_top (rev results)) [0..<unat k] = results" for xs
    using map_from_top_append [of xs args] map_from_top_append [of xs results]
      push_again [of "rev args"] push_again [of "rev results"] assms(3,7) by simp_all
  have up2: "map (from_top (base @ vec_x (ip_position ip) # vec_y (ip_position ip) # vec_x (ip_delta ip) #
      vec_y (ip_delta ip) # results)) [0..<unat k] = rev results"
    using up(2) [of "base @ ?frame"] by simp
  have nn: "\<not> n <s 0" "\<not> k <s 0"
    using assms(2,6) by (simp_all add: cell_order)
  have "toss ip1 = base @ ?frame @ args \<and> ip_delta ip1 = vector 1 0 \<and> \<not> ip_needMove ip1 \<and>
      ip_position ip1 = fst (fungespace_wrap (subr_target ip target) (ip_delta ip) (w_space w))"
    using assms(1,3,4) nn
    by (auto simp: finger_SUBR_call_def split_beta Let_def ip_runs ip_simps tops transfer_cells_list
        stack_simps up SUBRnewDelta_def subr_target_def)
  moreover have "toss ip3 = base @ results \<and> ip_delta ip3 = ip_delta ip \<and>
      ip_position ip3 = fst (fungespace_wrap (ip_position ip) (ip_delta ip2) (w_space w2))"
    using assms(5,7,8) nn
    by (auto simp: finger_SUBR_return_def split_beta Let_def ip_runs ip_simps tops transfer_cells_list
        stack_simps up up2)
  ultimately show ?thesis by simp
qed

theorem subr_call_return_witness:
  "\<exists>ip3 w3. finger_SUBR_return (pushed [0, 0, 1, 0, 40, 41, 2], sample_world) = (ip3, w3) \<and>
     toss ip3 = [7, 8, 40, 41] \<and> ip_delta ip3 = vector 1 0"
proof -
  obtain ip1 w1 where "finger_SUBR_call (pushed [5, 20, 30, 1], sample_world) = (ip1, w1)"
    by (cases "finger_SUBR_call (pushed [5, 20, 30, 1], sample_world)")
  moreover obtain ip3 w3 where
    "finger_SUBR_return (pushed [0, 0, 1, 0, 40, 41, 2], sample_world) = (ip3, w3)"
    by (cases "finger_SUBR_return (pushed [0, 0, 1, 0, 40, 41, 2], sample_world)")
  ultimately show ?thesis
    using subr_call_return [of "pushed [5, 20, 30, 1]" "[7, 8]" "[5]" "vector 20 30" 1 sample_world ip1 w1
        "pushed [0, 0, 1, 0, 40, 41, 2]" "[40, 41]" 2 sample_world ip3 w3]
    by (simp add: cell_order)
qed

section \<open>REFC\<close>

definition references_ok :: "world \<Rightarrow> bool" where
  "references_ok w \<longleftrightarrow> length (w_references w) < w_referencesSize w"

text \<open>
  references are memory safe and stable. Once the array exists, \<open>R\<close> either reflects without
  any other effect on the world, or stores within the bounds of the array; the number it pushes is
  dereferenced to the same vector by \<open>D\<close> at any later time, whatever references were added since.
\<close>

theorem refc_roundtrip:
  assumes "references_ok w" "length (w_references w) < 2 ^ 63 - 1" "toss ip = base @ [x, y]"
    and "finger_REFC_reference cf (ip, w) = (ip1, w1)"
    and "w_references w2 = w_references w1 @ added" "toss ip2 = base2 @ [r]"
    and "finger_REFC_dereference (ip2, w2) = (ip3, w3)"
  shows "references_ok w1 \<and>
    (if w_references w1 = w_references w then w1 = w \<and> toss ip1 = base \<and> ip_delta ip1 = ip_delta (ip_reverse ip)
     else (\<exists>ref. toss ip1 = base @ [ref] \<and> (r \<noteq> ref \<or> (toss ip3 = base2 @ [x, y] \<and> w3 = w2))))"
proof (cases "w_referencesSize w = length (w_references w) + 1 \<and>
    \<not> cf_al cf (size_t ((w_referencesSize w + REFC_ALLOCCHUNK) * sizeof_funge_vector))")
  case True
  let ?s = "snd (stack_pop (snd (stack_pop (ip_stack ip))))"
  have "stack_list ?s = base" using assms(3) by (simp add: ip_runs tops)
  moreover have "finger_REFC_reference cf (ip, w) = (ip_reverse (ip_set_stack ?s ip), w)"
    unfolding finger_REFC_reference_def Let_def ip_pop_run prod.case if_P [OF True] by simp
  ultimately show ?thesis
    using assms(1,4) by (auto simp: ip_reverse_def ip_simps)
next
  case False
  let ?ref = "of_nat (length (w_references w) + 1) :: cell"
  have ref: "sint ?ref = int (length (w_references w) + 1)" "unat ?ref = length (w_references w) + 1"
    using assms(2) sint_of_int_cell [of "int (length (w_references w) + 1)"] unat_eq_nat_sint [of ?ref]
    by simp_all
  have one: "toss ip1 = base @ [?ref]" "w_references w1 = w_references w @ [vector x y]" "references_ok w1"
    using False assms(1,3,4)
    by (auto simp: finger_REFC_reference_def references_ok_def split_beta Let_def ip_runs ip_simps tops
        REFC_ALLOCCHUNK_def split: if_splits)
  moreover have "toss ip3 = base2 @ [x, y] \<and> w3 = w2" if "r = ?ref"
    using assms(5-7) ref that one(2)
    by (auto simp: finger_REFC_dereference_def split_beta Let_def ip_runs ip_simps tops cell_le_iff
        nth_append)
  ultimately show ?thesis by auto
qed

theorem refc_roundtrip_witness:
  "\<exists>ip1 w1 ref ip3 w3. finger_REFC_reference sample_config
      (pushed [3, 4], sample_world\<lparr>w_referencesSize := 5\<rparr>) = (ip1, w1) \<and>
     toss ip1 = [7, 8, ref] \<and>
     finger_REFC_dereference (pushed [ref], w1) = (ip3, w3) \<and> toss ip3 = [7, 8, 3, 4]"
proof -
  let ?w = "sample_world\<lparr>w_referencesSize := 5\<rparr>"
  obtain ip1 w1 where run: "finger_REFC_reference sample_config (pushed [3, 4], ?w) = (ip1, w1)"
    by (cases "finger_REFC_reference sample_config (pushed [3, 4], ?w)")
  then have new: "w_references w1 \<noteq> w_references ?w"
    by (auto simp: finger_REFC_reference_def sample_world_def Let_def ip_pop_run)
  have ok: "references_ok ?w" "length (w_references ?w) < 2 ^ 63 - 1"
    by (simp_all add: references_ok_def sample_world_def)
  have deref: "\<exists>ref. toss ip1 = [7, 8, ref] \<and> (r \<noteq> ref \<or> toss ip3 = [7, 8, 3, 4])"
    if "finger_REFC_dereference (pushed [r], w1) = (ip3, w3)" for r ip3 w3
    using refc_roundtrip [OF ok, of "pushed [3, 4]" "[7, 8]" 3 4 sample_config ip1 w1 w1 "[]"
        "pushed [r]" "[7, 8]" r ip3 w3] run new that by auto
  obtain ref where ref: "toss ip1 = [7, 8, ref]"
    using deref [of 0 "fst (finger_REFC_dereference (pushed [0], w1))"
        "snd (finger_REFC_dereference (pushed [0], w1))"] by auto
  moreover obtain ip3 w3 where run2: "finger_REFC_dereference (pushed [ref], w1) = (ip3, w3)"
    by (cases "finger_REFC_dereference (pushed [ref], w1)")
  moreover have "toss ip3 = [7, 8, 3, 4]" using deref [OF run2] ref by auto
  ultimately show ?thesis using run by blast
qed

section \<open>JSTR\<close>

definition jpos :: "funge_vector \<Rightarrow> funge_vector \<Rightarrow> nat \<Rightarrow> funge_vector" where
  "jpos pos delta i = vector (vec_x pos + of_nat i * vec_x delta) (vec_y pos + of_nat i * vec_y delta)"

lemma jpos_Suc: "jpos (vector_add pos delta) delta i = jpos pos delta (Suc i)"
  by (simp add: jpos_def vector_add_def algebra_simps)

lemma jpos_0: "jpos pos delta 0 = pos"
  by (simp add: jpos_def)

lemma jpos_shift:
  "map (jpos pos delta) [0..<Suc n] = pos # map (jpos (vector_add pos delta) delta) [0..<n]"
  unfolding upt_conv_Cons [OF zero_less_Suc] by (simp add: jpos_0 jpos_Suc map_Suc_upt [symmetric] comp_def
      del: upt_Suc)

lemma jstr_read_toss:
  "toss (jstr_read n pos delta space ip) =
     toss ip @ map (fungespace_get space) (map (jpos pos delta) [0..<n])"
  by (induction n pos delta space ip rule: jstr_read.induct)
    (simp_all add: jpos_shift ip_simps del: upt_Suc map_map)

lemma jstr_write_spec:
  assumes "store_ok (w_space w)" "distinct (map (jpos pos delta) [0..<n])"
    and "jstr_write n pos delta (ip, w) = (ip', w')"
  shows "toss ip' = drop_top n (toss ip) \<and>
    map (fungespace_get (w_space w')) (map (jpos pos delta) [0..<n]) = map (from_top (toss ip)) [0..<n] \<and>
    (\<forall>p. p \<notin> set (map (jpos pos delta) [0..<n]) \<longrightarrow>
       fungespace_get (w_space w') p = fungespace_get (w_space w) p)"
  using assms
proof (induction n arbitrary: pos ip w)
  case (Suc n)
  let ?w = "w\<lparr>w_space := fungespace_set (from_top (toss ip) 0) pos (w_space w)\<rparr>"
  let ?ps = "map (jpos (vector_add pos delta) delta) [0..<n]"
  obtain ip1 where ip1: "ip_pop ip = (from_top (toss ip) 0, ip1)" "toss ip1 = drop_top 1 (toss ip)"
    by (simp add: ip_runs)
  have new: "pos \<notin> set ?ps" "distinct ?ps"
    using Suc.prems(2) unfolding jpos_shift by simp_all
  have "jstr_write n (vector_add pos delta) delta (ip1, ?w) = (ip', w')"
    using Suc.prems(3) ip1 by simp
  from Suc.IH [OF _ new(2) this] Suc.prems(1)
  have IH: "toss ip' = drop_top n (toss ip1)"
    "map (fungespace_get (w_space w')) ?ps = map (from_top (toss ip1)) [0..<n]"
    "\<forall>p. p \<notin> set ?ps \<longrightarrow> fungespace_get (w_space w') p =
       ((fungespace_get (w_space w))(pos := from_top (toss ip) 0)) p"
    by (simp_all add: store_ok_set get_fungespace_set)
  have "map (from_top (toss ip)) [0..<Suc n] = from_top (toss ip) 0 # map (from_top (toss ip1)) [0..<n]"
    by (rule nth_equalityI) (auto simp: nth_Cons' ip1(2) simp del: upt_Suc)
  then show ?case
    unfolding jpos_shift using IH new ip1(2) by simp
qed (simp add: jpos_def)

text \<open>
  what \<open>P\<close> of JSTR writes along a delta, \<open>G\<close> reads back: \<open>P\<close> consumes exactly the \<open>n\<close> cells of the
  string, and \<open>G\<close> with the same count, position, delta and storage offset pushes a 0 and the cells
  in the order in which \<open>P\<close> popped them, provided that the \<open>n\<close> positions are different.
\<close>

theorem jstr_roundtrip:
  assumes "toss ip = base @ str @ [vec_x delta, vec_y delta, vec_x pos, vec_y pos, n]"
    and "0 <s n" "length str = unat n" "store_ok (w_space w)"
    and "distinct (map (jpos (vector_add pos (ip_storageOffset ip)) delta) [0..<unat n])"
    and "finger_JSTR_pop_n (ip, w) = (ip1, w1)"
    and "toss ip2 = base2 @ [vec_x delta, vec_y delta, vec_x pos, vec_y pos, n]"
    and "ip_storageOffset ip2 = ip_storageOffset ip"
    and "finger_JSTR_push_n (ip2, w1) = (ip3, w3)"
  shows "toss ip1 = base \<and> toss ip3 = base2 @ 0 # rev str \<and> w3 = w1"
proof -
  let ?pos = "vector_add pos (ip_storageOffset ip)"
  let ?ps = "map (jpos ?pos delta) [0..<unat n]"
  have pos: "\<not> n \<le>s 0" using assms(2) by (simp add: cell_order)
  obtain s where "jstr_write (unat n) ?pos delta (ip_set_stack s ip, w) = (ip1, w1)"
    "stack_list s = base @ str"
    using assms(1,6) pos
    by (auto simp: finger_JSTR_pop_n_def split_beta Let_def ip_runs ip_simps tops)
  from jstr_write_spec [OF assms(4,5) this(1)] this(2)
  have w: "toss ip1 = base" "map (fungespace_get (w_space w1)) ?ps = rev str"
    using assms(3) map_from_top_append [of base str] by (simp_all add: ip_simps tops del: map_map map_eq_conv)
  have "toss ip3 = base2 @ 0 # map (fungespace_get (w_space w1)) ?ps \<and> w3 = w1"
    using assms(7-9) pos
    by (auto simp: finger_JSTR_push_n_def split_beta Let_def ip_runs ip_simps tops jstr_read_toss
        simp del: map_map map_eq_conv)
  then show ?thesis using w by simp
qed

theorem jstr_roundtrip_witness:
  "\<exists>ip1 w1 ip3 w3. finger_JSTR_pop_n (pushed [65, 66, 1, 0, 5, 6, 2], sample_world) = (ip1, w1) \<and>
     finger_JSTR_push_n (pushed [1, 0, 5, 6, 2], w1) = (ip3, w3) \<and> toss ip3 = [7, 8, 0, 66, 65]"
proof -
  obtain ip1 w1 where one: "finger_JSTR_pop_n (pushed [65, 66, 1, 0, 5, 6, 2], sample_world) = (ip1, w1)"
    by (cases "finger_JSTR_pop_n (pushed [65, 66, 1, 0, 5, 6, 2], sample_world)")
  moreover obtain ip3 w3 where two: "finger_JSTR_push_n (pushed [1, 0, 5, 6, 2], w1) = (ip3, w3)"
    by (cases "finger_JSTR_push_n (pushed [1, 0, 5, 6, 2], w1)")
  moreover have "toss ip3 = [7, 8, 0, 66, 65]"
    using jstr_roundtrip [of "pushed [65, 66, 1, 0, 5, 6, 2]" "[7, 8]" "[65, 66]" "vector 1 0" "vector 5 6"
        2 sample_world ip1 w1 "pushed [1, 0, 5, 6, 2]" "[7, 8]" ip3 w3] one two store_ok_create
    by (simp add: cell_order sample_world_def upt_rec jpos_def vector_add_def vector_eq_iff)
  ultimately show ?thesis by blast
qed

end
