(* ===== verification/Sysinfo.thy ===== *)
theory Sysinfo
  imports Fingerprints
begin

text \<open>
  The instruction \<open>y\<close>, \<^verbatim>\<open>src/instructions/sysinfo.c\<close>: system information, one cell of it, or
  a cell of the stack. The static variables \<open>TOSSSize\<close>, \<open>sysinfo_tmp_stack\<close> and
  \<open>sysinfo_cache_stack\<close> are fields of the world; \<open>environ_count\<close> is only used while the cache is
  built, which happens once. The allocations of the two stacks succeed (a failure ends the process).
\<close>

section \<open>The pieces\<close>

definition FUNGE_FLAGS_CONCURRENT :: cell where
  "FUNGE_FLAGS_CONCURRENT = 0x01"

definition FUNGE_FLAGS_NOTSANDBOX :: cell where
  "FUNGE_FLAGS_NOTSANDBOX = 0x02 OR 0x04 OR 0x08"

definition FUNGE_FLAGS_STD109 :: cell where
  "FUNGE_FLAGS_STD109 = 0x20"

definition FUNGE_OLD_HANDPRINT :: cell where
  "FUNGE_OLD_HANDPRINT = 0x4346554e"

definition FUNGE_NEW_HANDPRINT :: "byte list" where
  "FUNGE_NEW_HANDPRINT = bytes_of ''https://github.com/VorpalBlade/cfunge''"

definition CFUNGE_VERSION_Y :: cell where
  "CFUNGE_VERSION_Y = 10010"

definition PUSH_REQ_1 :: "config \<Rightarrow> funge_stack \<Rightarrow> funge_stack" where
  "PUSH_REQ_1 cf s =
     (let tmp = FUNGE_FLAGS_CONCURRENT;
          tmp = (if \<not> cf_sandbox cf then tmp OR FUNGE_FLAGS_NOTSANDBOX else tmp);
          tmp = (if cf_standard cf = Stdver109 then tmp OR FUNGE_FLAGS_STD109 else tmp)
      in stack_push s tmp)"

definition PUSH_REQ_5 :: "config \<Rightarrow> funge_stack \<Rightarrow> funge_stack" where
  "PUSH_REQ_5 cf s = (if cf_sandbox cf then stack_push s 0 else stack_push s 1)"

text \<open>The date and the time are computed in \<open>int\<close>, and then made a cell.\<close>

definition PUSH_REQ_15 :: "tm \<Rightarrow> funge_stack \<Rightarrow> funge_stack" where
  "PUSH_REQ_15 t s = stack_push s (scast (tm_year t * 256 * 256 + (tm_mon t + 1) * 256 + tm_mday t))"

definition PUSH_REQ_16 :: "tm \<Rightarrow> funge_stack \<Rightarrow> funge_stack" where
  "PUSH_REQ_16 t s = stack_push s (scast (tm_hour t * 256 * 256 + tm_min t * 256 + tm_sec t))"

definition PUSH_REQ_17 :: "funge_stackstack \<Rightarrow> funge_stack \<Rightarrow> funge_stack" where
  "PUSH_REQ_17 ss s = stack_push s (of_nat (ss_current ss) + 1)"

definition PUSH_REQ_18 :: "nat \<Rightarrow> funge_stackstack \<Rightarrow> funge_stack \<Rightarrow> funge_stack" where
  "PUSH_REQ_18 TOSSSize ss s =
     stack_push (fold (\<lambda>i s. stack_push s (of_nat (stk_top (ss_stacks ss i)))) [0..<ss_current ss] s)
       (of_nat TOSSSize)"

text \<open>Strings of the environment and the command line: bytes without the terminating zero.\<close>

definition push_c_string :: "byte list \<Rightarrow> funge_stack \<Rightarrow> funge_stack" where
  "push_c_string str s = stack_push_string s (str @ [0]) (length str)"

definition create_cache_stack :: "config \<Rightarrow> funge_stack" where
  "create_cache_stack cf =
     (let s = empty_stack;
          s = (if cf_standard cf = Stdver109 then push_c_string FUNGE_NEW_HANDPRINT s else s);
          s = stack_push s 0;
          s = fold (\<lambda>env s. if cf_sandbox cf \<and> \<not> check_env_is_safe env then s else push_c_string env s)
                (cf_environ cf) s;
          environ_count = length (filter (\<lambda>env. \<not> (cf_sandbox cf \<and> \<not> check_env_is_safe env)) (cf_environ cf));
          s = (if cf_standard cf = Stdver109 then stack_push s (of_nat environ_count) else s);
          s = stack_push s 0;
          s = stack_push s 0;
          s = fold push_c_string (rev (cf_argv cf)) s;
          s = (if cf_standard cf = Stdver109 then stack_push s (of_nat (length (cf_argv cf))) else s)
      in s)"

definition cache_stack :: "config \<Rightarrow> world \<Rightarrow> funge_stack" where
  "cache_stack cf w =
     (case w_cache_stack w of None \<Rightarrow> create_cache_stack cf | Some s \<Rightarrow> s)"

definition read_clock :: "config \<Rightarrow> world \<Rightarrow> tm \<times> world" where
  "read_clock cf w = (cf_gmtime cf (w_clock w), w\<lparr>w_clock := w_clock w + 1\<rparr>)"

definition read_bounds :: "world \<Rightarrow> fungeRect \<times> world" where
  "read_bounds w =
     (let (rect, space) = fungespace_get_bounds_rect (w_space w) in (rect, w\<lparr>w_space := space\<rparr>))"

section \<open>The instruction\<close>

definition push_all :: "config \<Rightarrow> instructionPointer \<Rightarrow> funge_stack \<Rightarrow> world \<Rightarrow> funge_stack \<times> world" where
  "push_all cf ip s w =
     (let w = w\<lparr>w_cache_stack := Some (cache_stack cf w)\<rparr>;
          cache = cache_stack cf w;
          s = stack_bulk_copy s cache (stk_top cache);
          s = PUSH_REQ_18 (w_TOSSSize w) (ip_stackstack ip) s;
          s = PUSH_REQ_17 (ip_stackstack ip) s;
          (curTime, w) = read_clock cf w;
          s = PUSH_REQ_16 curTime s;
          s = PUSH_REQ_15 curTime s;
          (rect, w) = read_bounds w;
          s = stack_push_vector s (vector (rect_w rect) (rect_h rect));
          s = stack_push_vector s (vector (rect_x rect) (rect_y rect));
          s = stack_push_vector s (ip_storageOffset ip);
          s = stack_push_vector s (ip_delta ip);
          s = stack_push_vector s (ip_position ip);
          s = stack_push s 0;
          s = stack_push s (ip_ID ip);
          s = stack_push s 2;
          s = stack_push s (chr_cell CHR ''/'');
          s = PUSH_REQ_5 cf s;
          s = stack_push s CFUNGE_VERSION_Y;
          s = stack_push s FUNGE_OLD_HANDPRINT;
          s = stack_push s (of_nat sizeof_funge_cell);
          s = PUSH_REQ_1 cf s
      in (s, w))"

text \<open>A request outside 1 to 23 is a critical error of the code, and does not occur.\<close>

definition push_yval :: "config \<Rightarrow> cell \<Rightarrow> instructionPointer \<Rightarrow> funge_stack \<Rightarrow> world \<Rightarrow> funge_stack \<times> world" where
  "push_yval cf request ip s w =
     (if request = 1 then (PUSH_REQ_1 cf s, w)
      else if request = 2 then (stack_push s (of_nat sizeof_funge_cell), w)
      else if request = 3 then (stack_push s FUNGE_OLD_HANDPRINT, w)
      else if request = 4 then (stack_push s CFUNGE_VERSION_Y, w)
      else if request = 5 then (PUSH_REQ_5 cf s, w)
      else if request = 6 then (stack_push s (chr_cell CHR ''/''), w)
      else if request = 7 then (stack_push s 2, w)
      else if request = 8 then (stack_push s (ip_ID ip), w)
      else if request = 9 then (stack_push s 0, w)
      else if request = 10 then (stack_push s (vec_y (ip_position ip)), w)
      else if request = 11 then (stack_push s (vec_x (ip_position ip)), w)
      else if request = 12 then (stack_push s (vec_y (ip_delta ip)), w)
      else if request = 13 then (stack_push s (vec_x (ip_delta ip)), w)
      else if request = 14 then (stack_push s (vec_y (ip_storageOffset ip)), w)
      else if request = 15 then (stack_push s (vec_x (ip_storageOffset ip)), w)
      else if request = 16 then (let (rect, w) = read_bounds w in (stack_push s (rect_y rect), w))
      else if request = 17 then (let (rect, w) = read_bounds w in (stack_push s (rect_x rect), w))
      else if request = 18 then (let (rect, w) = read_bounds w in (stack_push s (rect_h rect), w))
      else if request = 19 then (let (rect, w) = read_bounds w in (stack_push s (rect_w rect), w))
      else if request = 20 then (let (t, w) = read_clock cf w in (PUSH_REQ_15 t s, w))
      else if request = 21 then (let (t, w) = read_clock cf w in (PUSH_REQ_16 t s, w))
      else if request = 22 then (PUSH_REQ_17 (ip_stackstack ip) s, w)
      else if request = 23 then (stack_push s (of_nat (w_TOSSSize w)), w)
      else (s, w))"

text \<open>
  In the last branch the index is computed in \<open>size_t\<close>. When it is 0 the code reads the word in
  front of the array of the stack (its assertion against that is not part of a release build).
\<close>

definition pick_index :: "nat \<Rightarrow> nat \<Rightarrow> cell \<Rightarrow> nat" where
  "pick_index tp tmptop request = (tp + 1 + 2 ^ 64 - (unat request - tmptop)) mod 2 ^ 64"

definition run_sys_info :: "config \<Rightarrow> mach \<Rightarrow> mach" where
  "run_sys_info cf m =
     (let (ip, w) = m;
          (request, ip) = ip_pop ip;
          w = w\<lparr>w_TOSSSize := stk_top (ip_stack ip)\<rparr>
      in if request \<le>s 0 then
           (let (s, w) = push_all cf ip (ip_stack ip) w in (ip_set_stack s ip, w))
         else if request <s 24 then
           (let (s, w) = push_yval cf request ip (ip_stack ip) w in (ip_set_stack s ip, w))
         else
           (let tmp = (case w_tmp_stack w of None \<Rightarrow> empty_stack | Some s \<Rightarrow> s);
                (tmp, w) = push_all cf ip tmp w;
                ip = (if unat request \<le> stk_top tmp
                      then ip_push (stk_entries tmp (stk_top tmp - unat request)) ip
                      else
                        (let index = pick_index (stk_top (ip_stack ip)) (stk_top tmp) request
                         in if index = 0 \<and> stk_top (ip_stack ip) \<noteq> 0 then ip_push (cf_oob cf) ip
                            else ip_push (stack_get_index (ip_stack ip) index) ip))
            in (ip, w\<lparr>w_tmp_stack := Some (stack_clear tmp)\<rparr>)))"

section \<open>The cells of a full report\<close>

definition sysinfo_cells :: "config \<Rightarrow> instructionPointer \<Rightarrow> world \<Rightarrow> cell list" where
  "sysinfo_cells cf ip w =
     (let t = cf_gmtime cf (w_clock w); rect = fst (fungespace_get_bounds_rect (w_space w)) in
      stack_list (cache_stack cf w) @
      map (\<lambda>i. of_nat (stk_top (ss_stacks (ip_stackstack ip) i))) [0..<ss_current (ip_stackstack ip)] @
      [of_nat (w_TOSSSize w), of_nat (ss_current (ip_stackstack ip)) + 1,
       scast (tm_hour t * 256 * 256 + tm_min t * 256 + tm_sec t),
       scast (tm_year t * 256 * 256 + (tm_mon t + 1) * 256 + tm_mday t),
       rect_w rect, rect_h rect, rect_x rect, rect_y rect,
       vec_x (ip_storageOffset ip), vec_y (ip_storageOffset ip), vec_x (ip_delta ip), vec_y (ip_delta ip),
       vec_x (ip_position ip), vec_y (ip_position ip), 0, ip_ID ip, 2, chr_cell CHR ''/'',
       if cf_sandbox cf then 0 else 1, CFUNGE_VERSION_Y, FUNGE_OLD_HANDPRINT, of_nat sizeof_funge_cell,
       from_top (stack_list (PUSH_REQ_1 cf empty_stack)) 0])"

lemma stack_list_REQ_18 [stack_simps]:
  "stack_list (PUSH_REQ_18 n ss s) =
     stack_list s @ map (\<lambda>i. of_nat (stk_top (ss_stacks ss i))) [0..<ss_current ss] @ [of_nat n]"
  by (simp add: PUSH_REQ_18_def stack_simps stack_list_pushes)

lemma from_top_single [simp]: "from_top [v] 0 = v"
  using from_top_snoc_0 [of "[]" v] by simp

lemma push_all_list:
  "stack_list (fst (push_all cf ip s w)) = stack_list s @ sysinfo_cells cf ip w"
  by (simp add: push_all_def sysinfo_cells_def Let_def split_beta stack_simps read_clock_def read_bounds_def
      PUSH_REQ_17_def PUSH_REQ_16_def PUSH_REQ_15_def PUSH_REQ_5_def PUSH_REQ_1_def cache_stack_def)

lemma push_all_world: "snd (push_all cf ip s w) = snd (push_all cf ip empty_stack w)"
  by (simp add: push_all_def Let_def split_beta)

lemma sysinfo_cells_same:
  "ip_stackstack ip' = ip_stackstack ip \<Longrightarrow> ip_position ip' = ip_position ip \<Longrightarrow> ip_delta ip' = ip_delta ip \<Longrightarrow>
   ip_storageOffset ip' = ip_storageOffset ip \<Longrightarrow> ip_ID ip' = ip_ID ip \<Longrightarrow>
   sysinfo_cells cf ip' w = sysinfo_cells cf ip w"
  by (simp add: sysinfo_cells_def)

text \<open>The report does not depend on the current stack, but for its size in \<open>TOSSSize\<close>.\<close>

lemma sysinfo_cells_set_stack: "sysinfo_cells cf (ip_set_stack s ip) w = sysinfo_cells cf ip w"
proof -
  have "map (\<lambda>i. of_nat (stk_top (ss_stacks (ip_stackstack (ip_set_stack s ip)) i)))
      [0..<ss_current (ip_stackstack ip)] =
    map (\<lambda>i. of_nat (stk_top (ss_stacks (ip_stackstack ip) i)) :: cell) [0..<ss_current (ip_stackstack ip)]"
    by (rule map_upt_cong) (simp add: ip_set_stack_def ss_set_stack_def)
  moreover have "ss_current (ip_stackstack (ip_set_stack s ip)) = ss_current (ip_stackstack ip)"
    by (simp add: ip_set_stack_def ss_set_stack_def)
  ultimately show ?thesis by (simp add: sysinfo_cells_def Let_def ip_simps del: map_eq_conv)
qed

lemma small_request:
  assumes "0 <s (r :: cell)" "r <s 24"
  shows "r \<in> {1, 2, 3, 4, 5, 6, 7, 8, 9, 10, 11, 12, 13, 14, 15, 16, 17, 18, 19, 20, 21, 22, 23}"
proof -
  have "sint r \<in> {1..<24}" using assms by (simp add: cell_less_iff)
  then have "sint r \<in> set [1..23]" by simp
  then show ?thesis
    by (simp add: upto.simps cell_eq_iff [of r])
qed

lemma sysinfo_cells_top:
  "sysinfo_cells cf ip w = xs @ ys \<Longrightarrow> k < length ys \<Longrightarrow> from_top (sysinfo_cells cf ip w) k = rev ys ! k"
  by (simp add: from_top_append)

text \<open>A single value is the cell at its place of the full report.\<close>

lemma push_yval_list:
  assumes "0 <s r" "r <s 24"
  shows "stack_list (fst (push_yval cf r ip s w)) =
    stack_list s @ [from_top (sysinfo_cells cf ip w) (unat r - 1)]"
proof -
  show ?thesis
    using small_request [OF assms]
    by (elim insertE; simp add: push_yval_def sysinfo_cells_def from_top_append Let_def split_beta
        read_bounds_def read_clock_def stack_simps PUSH_REQ_1_def PUSH_REQ_5_def PUSH_REQ_15_def
        PUSH_REQ_16_def PUSH_REQ_17_def)
qed

lemma push_yval_world:
  "ip_stackstack ip' = ip_stackstack ip \<Longrightarrow> snd (push_yval cf r ip' s w) = snd (push_yval cf r ip s w)"
  by (simp only: push_yval_def Let_def split_beta if_distrib [of snd] snd_conv)

lemma run_sys_info_all:
  assumes "toss ip = base @ [r]" "r \<le>s 0"
  shows "toss (fst (run_sys_info cf (ip, w))) =
    base @ sysinfo_cells cf ip (w\<lparr>w_TOSSSize := length base\<rparr>)"
proof -
  let ?s = "snd (stack_pop (ip_stack ip))"
  have s: "stack_list ?s = base" "stk_top ?s = length base"
    using assms(1) length_stack_list [of ?s] by (simp_all add: ip_runs tops)
  show ?thesis
    using assms(2) by (simp add: run_sys_info_def Let_def split_beta ip_pop_run assms(1) from_top_append s
        push_all_list sysinfo_cells_set_stack ip_simps)
qed

lemma run_sys_info_one:
  assumes "toss ip = base @ [r]" "0 <s r" "r <s 24"
  shows "toss (fst (run_sys_info cf (ip, w))) =
    base @ [from_top (sysinfo_cells cf ip (w\<lparr>w_TOSSSize := length base\<rparr>)) (unat r - 1)]"
proof -
  let ?s = "snd (stack_pop (ip_stack ip))"
  have s: "stack_list ?s = base" "stk_top ?s = length base"
    using assms(1) length_stack_list [of ?s] by (simp_all add: ip_runs tops)
  have "\<not> r \<le>s 0" using assms(2) by (simp add: cell_order)
  then show ?thesis
    using assms(2,3) by (simp add: run_sys_info_def Let_def split_beta ip_pop_run assms(1) from_top_append s
        push_yval_list sysinfo_cells_set_stack ip_simps)
qed

text \<open>
  asking \<open>y\<close> for a single cell is asking for all and taking that cell: for every request from 1
  to 23 the fast path pushes exactly the cell that lies at that depth of the full report of a
  request that is not positive, made at the same moment with the same stack below.
\<close>

theorem sysinfo_single_value:
  assumes "toss ip = base @ [r]" "0 <s r" "r <s 24"
    and "toss (ip_set_stack s ip) = base @ [q]" "q \<le>s 0"
  shows "toss (fst (run_sys_info cf (ip, w))) =
    base @ [from_top (toss (fst (run_sys_info cf (ip_set_stack s ip, w)))) (unat r - 1)]"
proof -
  let ?cells = "sysinfo_cells cf ip (w\<lparr>w_TOSSSize := length base\<rparr>)"
  have "unat r - 1 < 23"
    using small_request [OF assms(2,3)] by auto
  moreover have "23 \<le> length ?cells" by (simp add: sysinfo_cells_def Let_def)
  ultimately have "from_top (base @ ?cells) (unat r - 1) = from_top ?cells (unat r - 1)"
    by (simp add: from_top_def nth_append)
  then show ?thesis
    by (simp add: run_sys_info_one [OF assms(1-3)] run_sys_info_all [OF assms(4,5)] sysinfo_cells_set_stack)
qed

theorem sysinfo_single_value_witness:
  "toss (fst (run_sys_info sample_config (pushed [4], sample_world))) = [7, 8, 10010]"
proof -
  let ?s = "stack_push (stack_push (stack_push empty_stack 7) 8) 0"
  have "toss (ip_set_stack ?s (pushed [4])) = [7, 8] @ [0]"
    by (simp add: ip_simps stack_simps)
  from sysinfo_single_value [OF _ _ _ this, of 4 sample_config sample_world]
    run_sys_info_all [OF this, of sample_config sample_world]
  show ?thesis
    by (simp add: cell_order sysinfo_cells_def Let_def from_top_def nth_append CFUNGE_VERSION_Y_def)
qed

text \<open>Where the index of the last branch points to.\<close>

lemma pick_cell:
  assumes "stack_list s = base" "0 < k" "k < 2 ^ 64" "length base < 2 ^ 63"
    and "i = (length base + 1 + 2 ^ 64 - k) mod 2 ^ 64"
  shows "(i = 0 \<longleftrightarrow> k = length base + 1) \<and> (0 < i \<or> base = [] \<longrightarrow> stack_get_index s i = from_top base (k - 1))"
proof -
  have len: "stk_top s = length base" using assms(1) length_stack_list [of s] by simp
  consider "k \<le> length base" | "k = length base + 1" | "length base + 1 < k" by linarith
  then show ?thesis
  proof cases
    case 1
    then have "length base + 1 + 2 ^ 64 - k = (length base + 1 - k) + 2 ^ 64" by linarith
    then have i: "i = length base + 1 - k"
      using assms(4,5) by (simp only: mod_add_self2) simp
    have "length base - k < length base" using 1 assms(2) by linarith
    then have "stk_entries s (length base - k) = base ! (length base - k)"
      using nth_stack_list [of "length base - k" s] len assms(1) by simp
    then show ?thesis
      using i 1 assms(2) len by (auto simp: stack_get_index_def from_top_def rev_nth)
  next
    case 2
    then show ?thesis using assms(5) len by (auto simp: stack_get_index_def from_top_def)
  next
    case 3
    then have "i = length base + 1 + 2 ^ 64 - k" using assms(5) by simp
    then have "length base < i" using assms(3) by linarith
    moreover have "\<not> k - 1 < length base" "k \<noteq> length base + 1" using 3 by linarith+
    ultimately show ?thesis using len by (simp add: stack_get_index_def from_top_def)
  qed
qed

text \<open>
  a request of 24 or more takes the cell at that depth of the full report, or, beyond the
  report, picks a cell of the stack, \<open>k\<close> cells below its top for the \<open>k\<close>-th cell past the report
  (counted from 1). Past the bottom of the stack the result is 0, but for the first position past the
  bottom of a stack that is not empty: there the code reads the memory in front of the array.
\<close>

theorem sysinfo_pick:
  assumes "toss ip = base @ [r]" "24 \<le>s r" "length base < 2 ^ 63"
    and "w_tmp_stack w = None \<or> (\<exists>t. w_tmp_stack w = Some t \<and> stack_list t = [])"
  shows "let cells = sysinfo_cells cf ip (w\<lparr>w_TOSSSize := length base\<rparr>); k = unat r - length cells
    in toss (fst (run_sys_info cf (ip, w))) = base @
      [if unat r \<le> length cells then from_top cells (unat r - 1)
       else if k = length base + 1 \<and> base \<noteq> [] then cf_oob cf
       else from_top base (k - 1)]"
proof -
  let ?s = "snd (stack_pop (ip_stack ip))"
  let ?cells = "sysinfo_cells cf ip (w\<lparr>w_TOSSSize := length base\<rparr>)"
  have s: "stack_list ?s = base" "stk_top ?s = length base"
    using assms(1) length_stack_list [of ?s] by (simp_all add: ip_runs tops)
  let ?tmp0 = "case w_tmp_stack w of None \<Rightarrow> empty_stack | Some s \<Rightarrow> s"
  define tmp where "tmp = fst (push_all cf (ip_set_stack ?s ip) ?tmp0 (w\<lparr>w_TOSSSize := length base\<rparr>))"
  have tmp: "stack_list tmp = ?cells"
    using assms(4) by (auto simp: tmp_def push_all_list sysinfo_cells_set_stack stack_simps)
  then have len: "stk_top tmp = length ?cells" using length_stack_list [of tmp] by simp
  have r: "24 \<le> unat r"
    using assms(2) unat_eq_nat_sint [of r] by (simp add: cell_le_iff)
  have top: "stk_entries tmp (stk_top tmp - unat r) = from_top ?cells (unat r - 1)" if "unat r \<le> length ?cells"
  proof -
    have "length ?cells - unat r < length ?cells" "unat r - 1 < length ?cells" using that r by linarith+
    then show ?thesis
      using that r nth_stack_list [of "length ?cells - unat r" tmp] tmp len
      by (simp add: from_top_def rev_nth)
  qed
  let ?k = "unat r - length ?cells"
  let ?i = "pick_index (length base) (length ?cells) r"
  have pick: "(if ?i = 0 \<and> base \<noteq> [] then ip_push (cf_oob cf) ip' else ip_push (stack_get_index ?s ?i) ip') =
      ip_push (if ?k = length base + 1 \<and> base \<noteq> [] then cf_oob cf else from_top base (?k - 1)) ip'"
    if "\<not> unat r \<le> length ?cells" for ip'
  proof -
    have "0 < ?k" "?k < 2 ^ 64" using that unsigned_less [of r, where ?'a = nat] by simp_all
    from pick_cell [OF s(1) this assms(3) pick_index_def]
    show ?thesis by (cases "?i = 0") auto
  qed
  have "\<not> r \<le>s 0" "\<not> r <s 24" using assms(2) by (simp_all add: cell_order)
  then have "fst (run_sys_info cf (ip, w)) = (let ip = ip_set_stack ?s ip in
      if unat r \<le> length ?cells then ip_push (from_top ?cells (unat r - 1)) ip
      else if ?i = 0 \<and> base \<noteq> [] then ip_push (cf_oob cf) ip
      else ip_push (stack_get_index ?s ?i) ip)"
    using top by (simp add: run_sys_info_def Let_def split_beta ip_pop_run assms(1) from_top_append s
        tmp_def [symmetric] len)
  then show ?thesis
    using pick s(1) by (simp add: Let_def ip_simps)
qed

theorem sysinfo_pick_witness:
  "toss (fst (run_sys_info (sample_config\<lparr>cf_oob := 99\<rparr>) (pushed [29], sample_world))) = [7, 8, 99] \<and>
   toss (fst (run_sys_info (sample_config\<lparr>cf_oob := 99\<rparr>) (pushed [27], sample_world))) = [7, 8, 8]"
proof -
  let ?cf = "sample_config\<lparr>cf_oob := 99\<rparr>"
  have "length (sysinfo_cells ?cf (pushed [r]) (sample_world\<lparr>w_TOSSSize := Suc (Suc 0)\<rparr>)) = 26" for r
  proof -
    have "ss_current (ip_stackstack (pushed [r])) = 0"
      by (simp add: pushed_def ip_push_def ip_set_stack_def ss_set_stack_def sample_ip_def)
    then show ?thesis
      by (simp add: sysinfo_cells_def Let_def cache_stack_def sample_world_def create_cache_stack_def
          sample_config_def stack_simps)
  qed
  moreover have "w_tmp_stack sample_world = None" by (simp add: sample_world_def)
  ultimately show ?thesis
    using sysinfo_pick [of "pushed [29]" "[7, 8]" 29 sample_world ?cf]
      sysinfo_pick [of "pushed [27]" "[7, 8]" 27 sample_world ?cf]
    by (simp add: cell_order from_top_def Let_def)
qed

text \<open>
  C7: the sandbox keeps the environment secret: what \<open>y\<close> does under the sandbox does not depend on
  any environment variable whose name is not on the list of safe names.
\<close>

theorem sysinfo_sandbox_environment:
  assumes "cf_sandbox cf"
  shows "run_sys_info cf m = run_sys_info (cf\<lparr>cf_environ := filter check_env_is_safe (cf_environ cf)\<rparr>) m"
proof -
  let ?cf = "cf\<lparr>cf_environ := filter check_env_is_safe (cf_environ cf)\<rparr>"
  have skip: "fold (\<lambda>x s. if \<not> P x then s else f x s) (filter P xs) s =
      fold (\<lambda>x s. if \<not> P x then s else f x s) xs s" for P f and s :: funge_stack and xs :: "byte list list"
    by (induction xs arbitrary: s) simp_all
  have "create_cache_stack ?cf = create_cache_stack cf"
    using assms by (simp add: create_cache_stack_def Let_def skip cong: if_cong)
  then have "cache_stack ?cf w = cache_stack cf w" for w
    by (simp add: cache_stack_def split: option.splits)
  then have "push_all ?cf ip s w = push_all cf ip s w" for ip s w
    by (simp add: push_all_def PUSH_REQ_1_def PUSH_REQ_5_def read_clock_def)
  moreover have "push_yval ?cf r ip s w = push_yval cf r ip s w" for r ip s w
    by (simp add: push_yval_def PUSH_REQ_1_def PUSH_REQ_5_def read_clock_def)
  ultimately show ?thesis by (simp add: run_sys_info_def Let_def split_beta cong: if_cong)
qed

theorem sysinfo_sandbox_environment_witness:
  "let cf = sample_config\<lparr>cf_sandbox := True, cf_environ := [bytes_of ''S=1'']\<rparr>
   in run_sys_info cf (sample_ip, sample_world) = run_sys_info (cf\<lparr>cf_environ := []\<rparr>) (sample_ip, sample_world)"
proof -
  let ?cf = "sample_config\<lparr>cf_sandbox := True, cf_environ := [bytes_of ''S=1'']\<rparr>"
  have "filter check_env_is_safe (cf_environ ?cf) = []"
    by (simp add: check_env_is_safe_def safe_in_word_set_def MIN_WORD_LENGTH_def bytes_of_def)
  then show ?thesis
    using sysinfo_sandbox_environment [of ?cf "(sample_ip, sample_world)"] by simp
qed

end
