(* ===== verification/Operation.thy ===== *)
theory Operation
  imports Fingerprints
begin

text \<open>
  What the instructions of all fingerprints have in common: the type \<open>operation\<close> of the instructions
  in the tables of the fingerprints that have their own theory, and the part of the state, the
  \<open>frame\<close>, that an instruction of a fingerprint leaves alone. One lemma for each operation, collected
  in \<open>frames\<close>.
\<close>

section \<open>Operations\<close>

text \<open>An instruction of a fingerprint: most return, and most of these work on the instruction pointer.\<close>

type_synonym operation = "config \<Rightarrow> mach \<Rightarrow> mach result option"

definition on_ip :: "(instructionPointer \<Rightarrow> instructionPointer) \<Rightarrow> mach \<Rightarrow> mach" where
  "on_ip f m = (f (fst m), snd m)"

definition returns :: "(mach \<Rightarrow> mach) \<Rightarrow> operation" where
  "returns f cf m = Some (Running (f m))"

section \<open>Cells on top of the stack\<close>

lemma ip_pop_top:
  assumes "toss ip = xs @ [c]"
  shows "\<exists>s. ip_pop ip = (c, ip_set_stack s ip) \<and> stack_list s = xs"
proof (intro exI conjI)
  show "ip_pop ip = (c, ip_set_stack (snd (stack_pop (ip_stack ip))) ip)"
    using assms by (simp add: ip_pop_run from_top_def)
  show "stack_list (snd (stack_pop (ip_stack ip))) = xs"
    using assms by (simp add: stack_list_pop drop_top_def stack_list_toss)
qed

lemma ip_pop_vector_top:
  assumes "toss ip = xs @ [x, y]"
  shows "\<exists>s. ip_pop_vector ip = (vector x y, ip_set_stack s ip) \<and> stack_list s = xs"
proof (intro exI conjI)
  show "ip_pop_vector ip = (vector x y, ip_set_stack (snd (stack_pop_vector (ip_stack ip))) ip)"
    using assms by (simp add: ip_pop_vector_run from_top_def nth_append)
  show "stack_list (snd (stack_pop_vector (ip_stack ip))) = xs"
    using assms by (simp add: stack_list_pop_vector drop_top_def stack_list_toss)
qed

lemma sample_ip_simps [ip_simps]: "toss sample_ip = [7, 8]" "ip_storageOffset sample_ip = vector 0 0"
  by (simp_all add: toss_def ip_stack_def sample_ip_def stack_simps)

lemma sample_memory [simp]: "cf_al sample_config n"
  by (simp add: sample_config_def)

section \<open>The parts of the state that are rarely changed\<close>

text \<open>The drawing of TURT is a file that even the sandbox lets a program write.\<close>

definition turt_filename :: "byte list" where
  "turt_filename = bytes_of ''cfunge_TURT.svg''"

definition other_files :: "world \<Rightarrow> byte list \<Rightarrow> byte list option" where
  "other_files w = (w_files w)(turt_filename := None)"

definition frame :: "mach \<Rightarrow> ipMode \<times> cell \<times> (nat \<Rightarrow> fungeOpcodeStack) \<times> (byte list \<Rightarrow> byte list option)" where
  "frame m = (ip_mode (fst m), ip_ID (fst m), ip_fingerOpcodes (fst m), other_files (snd m))"

lemma other_files_update [simp]:
  "other_files (w\<lparr>w_space := f\<rparr>) = other_files w" "other_files (w\<lparr>w_input := i\<rparr>) = other_files w"
  "other_files (w\<lparr>w_output := bs\<rparr>) = other_files w" "other_files (w\<lparr>w_random := n\<rparr>) = other_files w"
  "other_files (w\<lparr>w_clock := n\<rparr>) = other_files w" "other_files (w\<lparr>w_references := r\<rparr>) = other_files w"
  "other_files (w\<lparr>w_referencesSize := n\<rparr>) = other_files w" "other_files (w\<lparr>w_TOSSSize := n\<rparr>) = other_files w"
  "other_files (w\<lparr>w_timer := n\<rparr>) = other_files w" "other_files (w\<lparr>w_statics := st\<rparr>) = other_files w"
  "other_files (w\<lparr>w_tmp_stack := s\<rparr>) = other_files w" "other_files (w\<lparr>w_cache_stack := s\<rparr>) = other_files w"
  "other_files (w\<lparr>w_calls := n\<rparr>) = other_files w"
  "other_files (w\<lparr>w_files := (w_files w)(turt_filename := x)\<rparr>) = other_files w"
  by (simp_all add: other_files_def)

named_theorems frames "operations that keep the frame"

lemma frame_ip_cong:
  "frame (ip, w) = frame (ip', w) \<longleftrightarrow>
     ip_mode ip = ip_mode ip' \<and> ip_ID ip = ip_ID ip' \<and> ip_fingerOpcodes ip = ip_fingerOpcodes ip'"
  by (simp add: frame_def)

lemma frame_set_stack [frames]: "frame (ip_set_stack s ip, w) = frame (ip, w)"
  by (simp add: frame_def ip_simps)

lemma frame_stack_ops [frames]:
  "frame (ip_push v ip, w) = frame (ip, w)" "frame (snd (ip_pop ip), w) = frame (ip, w)"
  "frame (ip_push_vector p ip, w) = frame (ip, w)" "frame (snd (ip_pop_vector ip), w) = frame (ip, w)"
  "frame (snd (ip_pop_string cf ip), w) = frame (ip, w)"
  by (simp_all add: ip_push_def ip_pop_def ip_push_vector_def ip_pop_vector_def ip_pop_string_def
      split_beta frames)

lemma frame_ip_update [frames]:
  "frame (ip\<lparr>ip_delta := d\<rparr>, w) = frame (ip, w)" "frame (ip\<lparr>ip_position := d\<rparr>, w) = frame (ip, w)"
  "frame (ip\<lparr>ip_needMove := b\<rparr>, w) = frame (ip, w)" "frame (ip\<lparr>ip_storageOffset := d\<rparr>, w) = frame (ip, w)"
  "frame (ip\<lparr>ip_fingerSUBRisRelative := b\<rparr>, w) = frame (ip, w)"
  "frame (ip\<lparr>ip_stackstack := ss\<rparr>, w) = frame (ip, w)"
  "frame (ip\<lparr>ip_fingerHRTItimestamp := ts\<rparr>, w) = frame (ip, w)"
  "frame (ip\<lparr>ip_stringLastWasSpace := b\<rparr>, w) = frame (ip, w)"
  by (simp_all add: frame_def)

lemma frame_world_update [frames]:
  "frame (ip, w\<lparr>w_space := f\<rparr>) = frame (ip, w)" "frame (ip, w\<lparr>w_input := i\<rparr>) = frame (ip, w)"
  "frame (ip, w\<lparr>w_output := bs\<rparr>) = frame (ip, w)" "frame (ip, w\<lparr>w_random := n\<rparr>) = frame (ip, w)"
  "frame (ip, w\<lparr>w_clock := n\<rparr>) = frame (ip, w)" "frame (ip, w\<lparr>w_references := r\<rparr>) = frame (ip, w)"
  "frame (ip, w\<lparr>w_referencesSize := n\<rparr>) = frame (ip, w)" "frame (ip, w\<lparr>w_TOSSSize := n\<rparr>) = frame (ip, w)"
  "frame (ip, w\<lparr>w_timer := n\<rparr>) = frame (ip, w)" "frame (ip, w\<lparr>w_calls := n\<rparr>) = frame (ip, w)"
  "frame (ip, w\<lparr>w_statics := st\<rparr>) = frame (ip, w)"
  "frame (ip, w\<lparr>w_tmp_stack := s\<rparr>) = frame (ip, w)" "frame (ip, w\<lparr>w_cache_stack := s\<rparr>) = frame (ip, w)"
  by (simp_all add: frame_def)

lemma frame_turns [frames]:
  "frame (ip_reverse ip, w) = frame (ip, w)" "frame (ip_turn_left ip, w) = frame (ip, w)"
  "frame (ip_turn_right ip, w) = frame (ip, w)" "frame (ip_go_north ip, w) = frame (ip, w)"
  "frame (ip_go_south ip, w) = frame (ip, w)" "frame (ip_go_east ip, w) = frame (ip, w)"
  "frame (ip_go_west ip, w) = frame (ip, w)" "frame (ip_forward_no_wrap ip, w) = frame (ip, w)"
  by (simp_all add: frame_def ip_reverse_def ip_turn_left_def ip_turn_right_def ip_go_north_def
      ip_go_south_def ip_go_east_def ip_go_west_def ip_forward_no_wrap_def)

lemma frame_moves [frames]:
  "frame (m_forward m) = frame m" "frame (m_backward m) = frame m" "frame (m_set_position pos m) = frame m"
  by (simp_all add: frame_def m_forward_def m_backward_def m_set_position_def ip_forward_def
      ip_backward_def ip_set_position_def ip_forward_no_wrap_def ip_backward_no_wrap_def Let_def split_beta)

lemma frame_put_bytes [frames]: "frame (ip, snd (put_bytes cf bytes w)) = frame (ip, w)"
  by (simp add: put_bytes_def frames)

lemma frame_prng [frames]: "frame (ip, snd (prng_generate_unsigned cf k w)) = frame (ip, w)"
  by (simp add: prng_generate_unsigned_def frames)

text \<open>The pair that an operation answers, taken apart again by the next one.\<close>

lemma frame_pair [frames]: "frame (fst m, snd m) = frame m"
  by simp

lemma frame_if_turns [frames]:
  "frame (if_east_west ip, w) = frame (ip, w)" "frame (if_north_south ip, w) = frame (ip, w)"
  by (simp_all add: if_east_west_def if_north_south_def split_beta Let_def frames)

lemma frame_on_ip [frames]: "(\<And>w. frame (f (fst m), w) = frame (fst m, w)) \<Longrightarrow> frame (on_ip f m) = frame m"
  by (cases m) (simp add: on_ip_def)

section \<open>Fingerprint instructions\<close>

lemma frame_fingers_ip [frames]:
  "frame (finger_BOOL_and ip, w) = frame (ip, w)" "frame (finger_BOOL_not ip, w) = frame (ip, w)"
  "frame (finger_BOOL_or ip, w) = frame (ip, w)" "frame (finger_BOOL_xor ip, w) = frame (ip, w)"
  "frame (finger_ROMA_push r ip, w) = frame (ip, w)" "frame (finger_MODU_signed_result ip, w) = frame (ip, w)"
  "frame (finger_MODU_unsigned_result ip, w) = frame (ip, w)"
  "frame (finger_MODU_remainder ip, w) = frame (ip, w)" "frame (finger_NULL_reverse ip, w) = frame (ip, w)"
  "frame (do_reflect ip, w) = frame (ip, w)" "frame (finger_FRTH_stack_size ip, w) = frame (ip, w)"
  "frame (finger_FRTH_forth_roll al ip, w) = frame (ip, w)" "frame (finger_FRTH_forth_over ip, w) = frame (ip, w)"
  "frame (finger_FRTH_forth_pick ip, w) = frame (ip, w)" "frame (finger_FRTH_forth_rot ip, w) = frame (ip, w)"
  "frame (finger_ORTH_bit_and ip, w) = frame (ip, w)" "frame (finger_ORTH_bit_or ip, w) = frame (ip, w)"
  "frame (finger_ORTH_bit_xor ip, w) = frame (ip, w)" "frame (finger_ORTH_change_dx ip, w) = frame (ip, w)"
  "frame (finger_ORTH_change_dy ip, w) = frame (ip, w)" "frame (finger_SUBR_absolute ip, w) = frame (ip, w)"
  "frame (finger_SUBR_relative ip, w) = frame (ip, w)"
  by (simp_all add: finger_BOOL_and_def finger_BOOL_not_def finger_BOOL_or_def finger_BOOL_xor_def
      finger_ROMA_push_def finger_MODU_signed_result_def finger_MODU_unsigned_result_def
      finger_MODU_remainder_def finger_NULL_reverse_def do_reflect_def finger_FRTH_stack_size_def
      finger_FRTH_forth_roll_def finger_FRTH_forth_over_def finger_FRTH_forth_pick_def
      finger_FRTH_forth_rot_def finger_ORTH_bit_and_def finger_ORTH_bit_or_def finger_ORTH_bit_xor_def
      finger_ORTH_change_dx_def finger_ORTH_change_dy_def finger_SUBR_absolute_def
      finger_SUBR_relative_def split_beta Let_def frames)

lemma frame_fingers_mach [frames]:
  "frame (finger_ORTH_get m) = frame m" "frame (finger_ORTH_put m) = frame m"
  "frame (finger_ORTH_output_string cf m) = frame m" "frame (finger_ORTH_change_x m) = frame m"
  "frame (finger_ORTH_change_y m) = frame m" "frame (finger_ORTH_ramp_if_zero m) = frame m"
  "frame (finger_REFC_reference cf m) = frame m" "frame (finger_REFC_dereference m) = frame m"
  "frame (finger_SUBR_call m) = frame m" "frame (finger_SUBR_jump m) = frame m"
  "frame (finger_SUBR_return m) = frame m"
  by (auto simp: finger_ORTH_get_def finger_ORTH_put_def finger_ORTH_output_string_def
      finger_ORTH_change_x_def finger_ORTH_change_y_def finger_ORTH_ramp_if_zero_def
      finger_REFC_reference_def finger_REFC_dereference_def finger_SUBR_call_def finger_SUBR_jump_def
      finger_SUBR_return_def split_beta Let_def frames split: option.split)

lemma frame_get_second [frames]: "frame (snd (get_second_vector m)) = frame m"
  by (simp add: get_second_vector_def split_beta Let_def frames)

lemma frame_second_pair [frames]:
  "frame (ip, snd (snd (get_second_vector m))) = frame (ip, snd m)"
  by (simp add: get_second_vector_def split_beta Let_def)

lemma frame_INDV [frames]:
  "frame (finger_INDV_get_num m) = frame m" "frame (finger_INDV_put_num m) = frame m"
  "frame (finger_INDV_get_vec m) = frame m" "frame (finger_INDV_put_vec m) = frame m"
  by (simp_all add: finger_INDV_get_num_def finger_INDV_put_num_def finger_INDV_get_vec_def
      finger_INDV_put_vec_def get_second_vector_def split_beta Let_def frames)

lemma frame_jstr_loops [frames]:
  "frame (jstr_read n pos delta f ip, w) = frame (ip, w)" "frame (jstr_write n pos delta m) = frame m"
proof (induction n arbitrary: pos ip m)
  case (Suc n)
  { case 1 then show ?case by (simp add: Suc.IH(1) frames) }
  { case 2 then show ?case by (cases m) (simp add: Suc.IH(2) split_beta Let_def frames) }
qed simp_all

lemma frame_JSTR [frames]:
  "frame (finger_JSTR_push_n m) = frame m" "frame (finger_JSTR_pop_n m) = frame m"
  by (simp_all add: finger_JSTR_push_n_def finger_JSTR_pop_n_def split_beta Let_def frames)

section \<open>Tables of operations\<close>

text \<open>
  What the tables promise: an operation keeps the frame, and it does not go through a null pointer
  as long as every allocation succeeds.
\<close>

definition keeps_frame :: "operation \<Rightarrow> bool" where
  "keeps_frame operation \<longleftrightarrow> (\<forall>cf m m'. operation cf m = Some (Running m') \<longrightarrow> frame m' = frame m)"

lemma keeps_frame_returns [intro]: "(\<And>m. frame (f m) = frame m) \<Longrightarrow> keeps_frame (returns f)"
  by (simp add: keeps_frame_def returns_def)

lemma keeps_frame_config: "(\<And>cf m. frame (f cf m) = frame m) \<Longrightarrow> keeps_frame (\<lambda>cf. returns (f cf) cf)"
  by (auto simp: keeps_frame_def returns_def)

lemma frame_repeat: "(\<And>ip. frame (f ip, w) = frame (ip, w)) \<Longrightarrow> frame ((f ^^ n) ip, w) = frame (ip, w)"
  by (induction n) simp_all

lemma frame_fold: "(\<And>x m. frame (f x m) = frame m) \<Longrightarrow> frame (fold f xs m) = frame m"
  by (induction xs arbitrary: m) simp_all

lemma frame_fold_ip: "(\<And>x ip. frame (f x ip, w) = frame (ip, w)) \<Longrightarrow> frame (fold f xs ip, w) = frame (ip, w)"
  by (induction xs arbitrary: ip) simp_all

text \<open>
  What the instructions rely on: memory is not exhausted, and the number of digits that the logarithm
  estimates is enough, as documented. Two fingerprints go through a null pointer all the same, PERL and TERM: they have lemmas of their own.
\<close>

definition digits_suffice :: "libm \<Rightarrow> bool" where
  "digits_suffice lm \<longleftrightarrow>
     (\<forall>base val. 1 <s base \<longrightarrow> 0 <s val \<longrightarrow> nat (sint val) < nat (sint base) ^ lm_digits lm base val)"

definition benign :: "config \<Rightarrow> bool" where
  "benign cf \<longleftrightarrow> cf_al cf = (\<lambda>_. True) \<and> digits_suffice (cf_libm cf)"

definition crash_free :: "operation \<Rightarrow> bool" where
  "crash_free operation \<longleftrightarrow> (\<forall>cf m. benign cf \<longrightarrow> operation cf m \<noteq> Some Crashed)"

lemma crash_freeI:
  "(\<And>cf ip w. (\<And>n. cf_al cf n) \<Longrightarrow> operation cf (ip, w) \<noteq> Some Crashed) \<Longrightarrow> crash_free operation"
  by (auto simp: crash_free_def benign_def)

lemma crash_free_digits:
  "(\<And>cf ip w. digits_suffice (cf_libm cf) \<Longrightarrow> operation cf (ip, w) \<noteq> Some Crashed) \<Longrightarrow> crash_free operation"
  by (auto simp: crash_free_def benign_def)

lemma sample_digits: "digits_suffice sample_libm"
proof -
  have "nat (sint val) < nat (sint base) ^ 64" if "1 <s base" for val base :: cell
  proof -
    have "nat (sint val) < 2 ^ 63"
      using cell_sint_lt [of val] by (simp add: nat_less_iff zero_less_power_eq)
    also have "(2 :: nat) ^ 63 \<le> 2 ^ 64" by simp
    also have "(2 :: nat) ^ 64 \<le> nat (sint base) ^ 64"
      using that by (intro power_mono) (auto simp: cell_less_iff)
    finally show ?thesis .
  qed
  then show ?thesis by (simp add: digits_suffice_def sample_libm_def)
qed

lemma benign_sample: "benign sample_config"
  using sample_digits by (simp add: benign_def sample_config_def)

lemma crash_free_returns: "crash_free (returns f)" "crash_free (\<lambda>cf. returns (f' cf) cf)"
  by (simp_all add: crash_free_def returns_def)

end
