(* ===== verification/Toys.thy ===== *)
theory Toys
  imports Operation
begin

text \<open>
  The fingerprint TOYS, \<^verbatim>\<open>src/fingerprints/TOYS/TOYS.c\<close>: all its 26 instructions. A loop of the
  code that counts through the whole range of cells without meeting its end is \<open>None\<close>.
\<close>

section \<open>Counting loops\<close>

text \<open>\<open>for (x = lo; x <= hi; ++x)\<close> and \<open>for (x = hi; x >= lo; --x)\<close>: the values of \<open>x\<close> in turn.\<close>

definition loop_up :: "cell \<Rightarrow> cell \<Rightarrow> cell list option" where
  "loop_up lo hi =
     (if hi <s lo then Some [] else if hi = FUNGECELL_MAX then None else Some (count_up lo hi @ [hi]))"

definition loop_down :: "cell \<Rightarrow> cell \<Rightarrow> cell list option" where
  "loop_down hi lo =
     (if hi <s lo then Some [] else if lo = FUNGECELL_MIN then None else Some (hi # rev (count_up lo hi)))"

section \<open>The stack\<close>

definition finger_TOYS_gable :: "instructionPointer \<Rightarrow> instructionPointer" where
  "finger_TOYS_gable ip =
     (let (n, ip) = ip_pop ip; (c, ip) = ip_pop ip
      in if n <s 0 then ip_reverse ip else (ip_push c ^^ unat n) ip)"

definition finger_TOYS_pair_of_shoes :: "instructionPointer \<Rightarrow> instructionPointer" where
  "finger_TOYS_pair_of_shoes ip =
     (let (y, ip) = ip_pop ip; (x, ip) = ip_pop ip in ip_push (x - y) (ip_push (x + y) ip))"

definition finger_TOYS_toilet_seat :: "instructionPointer \<Rightarrow> instructionPointer" where
  "finger_TOYS_toilet_seat ip = (let (v, ip) = ip_pop ip in ip_push (v - 1) ip)"

definition finger_TOYS_pitchfork_head :: "instructionPointer \<Rightarrow> instructionPointer" where
  "finger_TOYS_pitchfork_head ip =
     (let s = ip_stack ip;
          sum = fold (\<lambda>i sum. sum + stk_entries s i) [0..<stk_top s] 0
      in ip_push sum (ip_set_stack (stack_clear s) ip))"

definition finger_TOYS_pair_of_stilts :: "config \<Rightarrow> instructionPointer \<Rightarrow> instructionPointer" where
  "finger_TOYS_pair_of_stilts cf ip =
     (let (b, ip) = ip_pop ip; (a, ip) = ip_pop ip
      in if 64 \<le> unat (ABS b) then ip_push (cf_shift cf a b) ip
         else if b <s 0 then ip_push (signed_drop_bit (unat (- b)) a) ip
         else ip_push (push_bit (unat b) a) ip)"

definition finger_TOYS_doric_column :: "instructionPointer \<Rightarrow> instructionPointer" where
  "finger_TOYS_doric_column ip = (let (v, ip) = ip_pop ip in ip_push (v + 1) ip)"

definition finger_TOYS_lightning_bolt :: "instructionPointer \<Rightarrow> instructionPointer" where
  "finger_TOYS_lightning_bolt ip = (let (v, ip) = ip_pop ip in ip_push (- v) ip)"

definition finger_TOYS_mailbox :: "instructionPointer \<Rightarrow> instructionPointer" where
  "finger_TOYS_mailbox ip =
     (let s = ip_stack ip;
          product = fold (\<lambda>i product. product * stk_entries s i) [0..<stk_top s] 1
      in ip_push product (ip_set_stack (stack_clear s) ip))"

section \<open>Areas of funge-space\<close>

text \<open>
  The four copies: of the area with the corner \<open>og\<close> and the size \<open>d\<close> to the corner \<open>t\<close>, in the order
  of \<open>xs\<close> and \<open>ys\<close>; a move blanks each cell after it was copied.
\<close>

definition copy_cell :: "bool \<Rightarrow> funge_vector \<Rightarrow> funge_vector \<Rightarrow> cell \<Rightarrow> cell \<Rightarrow> fungeSpace \<Rightarrow> fungeSpace" where
  "copy_cell move og t y x f =
     (let f = fungespace_set_offset (fungespace_get_offset f (vector x y) og) (vector x y) t f
      in if move then fungespace_set_offset space_cell (vector x y) og f else f)"

definition copy_area ::
    "bool \<Rightarrow> funge_vector \<Rightarrow> funge_vector \<Rightarrow> cell list \<Rightarrow> cell list \<Rightarrow> fungeSpace \<Rightarrow> fungeSpace" where
  "copy_area move og t xs ys f = fold (\<lambda>y f. fold (\<lambda>x f. copy_cell move og t y x f) xs f) ys f"

definition toys_copy :: "bool \<Rightarrow> (cell list \<Rightarrow> cell list) \<Rightarrow> mach \<Rightarrow> mach" where
  "toys_copy move order m =
     (let (ip, w) = m; (t, ip) = ip_pop_vector ip; (d, ip) = ip_pop_vector ip; (og, ip) = ip_pop_vector ip
      in if vec_x d = 0 \<or> vec_y d = 0 then (ip, w)
         else if vec_x d <s 0 \<or> vec_y d <s 0 then (ip_reverse ip, w)
         else (ip, w\<lparr>w_space := copy_area move og t (order (count_up 0 (vec_x d)))
                                  (order (count_up 0 (vec_y d))) (w_space w)\<rparr>))"

definition finger_TOYS_bracelet :: "mach \<Rightarrow> mach" where
  "finger_TOYS_bracelet = toys_copy False id"

definition finger_TOYS_scissors :: "mach \<Rightarrow> mach" where
  "finger_TOYS_scissors = toys_copy False rev"

definition finger_TOYS_kittycat :: "mach \<Rightarrow> mach" where
  "finger_TOYS_kittycat = toys_copy True id"

definition finger_TOYS_dixiecup :: "mach \<Rightarrow> mach" where
  "finger_TOYS_dixiecup = toys_copy True rev"

text \<open>The cells of an area, row by row.\<close>

definition area_cells :: "cell list \<Rightarrow> cell list \<Rightarrow> funge_vector list" where
  "area_cells xs ys = concat (map (\<lambda>y. map (\<lambda>x. vector x y) xs) ys)"

definition finger_TOYS_calipers :: "mach \<Rightarrow> mach" where
  "finger_TOYS_calipers m =
     (let (ip, w) = m; (t, ip) = ip_pop_vector ip; (j, ip) = ip_pop ip; (i, ip) = ip_pop ip
      in fold (\<lambda>pos (ip, w). let (v, ip) = ip_pop ip
                              in (ip, w\<lparr>w_space := fungespace_set v pos (w_space w)\<rparr>))
           (area_cells (count_up (vec_x t) (vec_x t + i)) (count_up (vec_y t) (vec_y t + j))) (ip, w))"

definition finger_TOYS_counterclockwise :: "mach \<Rightarrow> mach" where
  "finger_TOYS_counterclockwise m =
     (let (ip, w) = m; (og, ip) = ip_pop_vector ip; (j, ip) = ip_pop ip; (i, ip) = ip_pop ip
      in (fold (\<lambda>pos. ip_push (fungespace_get (w_space w) pos))
            (area_cells (rev (count_up (vec_x og) (vec_x og + i))) (rev (count_up (vec_y og) (vec_y og + j)))) ip, w))"

definition finger_TOYS_chicane :: "mach \<Rightarrow> mach" where
  "finger_TOYS_chicane m =
     (let (ip, w) = m; (og, ip) = ip_pop_vector ip; (d, ip) = ip_pop_vector ip; (c, ip) = ip_pop ip
      in if vec_x d = 0 \<or> vec_y d = 0 then (ip, w)
         else if vec_x d <s 0 \<or> vec_y d <s 0 then (ip_reverse ip, w)
         else (ip, w\<lparr>w_space := fold (fungespace_set c)
                 (area_cells (count_up (vec_x og) (vec_x og + vec_x d)) (count_up (vec_y og) (vec_y og + vec_y d)))
                 (w_space w)\<rparr>))"

section \<open>Rows and columns\<close>

text \<open>
  A row or a column is translated cell by cell, from the side to which it moves; \<open>at k\<close> is the place
  on it with the coordinate \<open>k\<close>.
\<close>

definition translate :: "(cell \<Rightarrow> funge_vector) \<Rightarrow> cell \<Rightarrow> cell list \<Rightarrow> fungeSpace \<Rightarrow> fungeSpace" where
  "translate at n ks f = fold (\<lambda>k f. fungespace_set (fungespace_get f (at k)) (at (k + n)) f) ks f"

definition translate_line :: "(cell \<Rightarrow> funge_vector) \<Rightarrow> cell \<Rightarrow> cell \<Rightarrow> cell \<Rightarrow> mach \<Rightarrow> mach result option" where
  "translate_line at n lo hi m =
     (let (ip, w) = m in
      if n = 0 then Some (Running (ip, w))
      else map_option (\<lambda>ks. Running (ip, w\<lparr>w_space := translate at n ks (w_space w)\<rparr>))
             (if n <s 0 then loop_up lo hi else loop_down hi lo))"

definition finger_TOYS_fishhook :: operation where
  "finger_TOYS_fishhook cf m =
     (let (ip, w) = m; (n, ip) = ip_pop ip;
          (bounds, space) = fungespace_get_bounds_rect (w_space w)
      in translate_line (\<lambda>y. vector (vec_x (ip_position ip)) y) n (rect_y bounds)
           (rect_y bounds + rect_h bounds) (ip, w\<lparr>w_space := space\<rparr>))"

definition finger_TOYS_boulder :: operation where
  "finger_TOYS_boulder cf m =
     (let (ip, w) = m; (n, ip) = ip_pop ip;
          (bounds, space) = fungespace_get_bounds_rect (w_space w)
      in translate_line (\<lambda>x. vector x (vec_y (ip_position ip))) n (rect_x bounds)
           (rect_x bounds + rect_w bounds) (ip, w\<lparr>w_space := space\<rparr>))"

section \<open>The instruction pointer\<close>

definition finger_TOYS_corner :: "mach \<Rightarrow> mach" where
  "finger_TOYS_corner m =
     (let m = m_forward (on_ip ip_turn_left m);
          m = on_ip (ip_push (fungespace_get (w_space (snd m)) (ip_position (fst m)))) m
      in on_ip ip_turn_right (m_backward m))"

definition finger_TOYS_can_opener :: "mach \<Rightarrow> mach" where
  "finger_TOYS_can_opener m =
     (let m = m_forward (on_ip ip_turn_right m);
          m = on_ip (ip_push (fungespace_get (w_space (snd m)) (ip_position (fst m)))) m
      in on_ip ip_turn_left (m_backward m))"

definition finger_TOYS_necklace :: "mach \<Rightarrow> mach" where
  "finger_TOYS_necklace m =
     (let (ip, w) = m; (v, ip) = ip_pop ip; (ip, w) = m_backward (ip, w)
      in m_forward (ip, w\<lparr>w_space := fungespace_set v (ip_position ip) (w_space w)\<rparr>))"

definition finger_TOYS_barstool :: "instructionPointer \<Rightarrow> instructionPointer" where
  "finger_TOYS_barstool ip =
     (let (v, ip) = ip_pop ip
      in if v = 0 then if_east_west ip else if v = 1 then if_north_south ip else ip_reverse ip)"

definition finger_TOYS_tumbler :: "config \<Rightarrow> mach \<Rightarrow> mach" where
  "finger_TOYS_tumbler cf m =
     (let (ip, w) = m; (rnd, w) = prng_generate_unsigned cf 4 w;
          put = (\<lambda>c. w\<lparr>w_space := fungespace_set (chr_cell c) (ip_position ip) (w_space w)\<rparr>)
      in if rnd = 0 then (ip_go_north ip, put CHR ''^'') else if rnd = 1 then (ip_go_east ip, put CHR ''>'')
         else if rnd = 2 then (ip_go_south ip, put CHR ''v'')
         else if rnd = 3 then (ip_go_west ip, put CHR ''<'') else (ip, w))"

definition finger_TOYS_television_antenna :: "mach \<Rightarrow> mach" where
  "finger_TOYS_television_antenna m =
     (let (ip, w) = m; (vect, ip) = ip_pop_vector ip; (v, ip) = ip_pop ip;
          c = fungespace_get (w_space w) vect
      in if c <s v then
           m_backward (ip_push_vector (vector (vec_x vect - vec_x (ip_storageOffset ip))
                                              (vec_y vect - vec_y (ip_storageOffset ip))) (ip_push v ip), w)
         else if v <s c then (ip_reverse ip, w) else (ip, w))"

definition finger_TOYS_buried_treasure :: "instructionPointer \<Rightarrow> instructionPointer" where
  "finger_TOYS_buried_treasure ip =
     ip\<lparr>ip_position := vector (vec_x (ip_position ip) + 1) (vec_y (ip_position ip))\<rparr>"

definition finger_TOYS_slingshot :: "instructionPointer \<Rightarrow> instructionPointer" where
  "finger_TOYS_slingshot ip =
     ip\<lparr>ip_position := vector (vec_x (ip_position ip)) (vec_y (ip_position ip) + 1)\<rparr>"

definition finger_TOYS_barn_door :: "instructionPointer \<Rightarrow> instructionPointer" where
  "finger_TOYS_barn_door ip = ip_reverse ip"

section \<open>The table\<close>

definition TOYS_operations :: "(string \<times> operation) list" where
  "TOYS_operations =
     [(''gable'', returns (on_ip finger_TOYS_gable)),
      (''pair_of_shoes'', returns (on_ip finger_TOYS_pair_of_shoes)),
      (''bracelet'', returns finger_TOYS_bracelet),
      (''toilet_seat'', returns (on_ip finger_TOYS_toilet_seat)),
      (''pitchfork_head'', returns (on_ip finger_TOYS_pitchfork_head)),
      (''calipers'', returns finger_TOYS_calipers),
      (''counterclockwise'', returns finger_TOYS_counterclockwise),
      (''pair_of_stilts'', \<lambda>cf. returns (on_ip (finger_TOYS_pair_of_stilts cf)) cf),
      (''doric_column'', returns (on_ip finger_TOYS_doric_column)),
      (''fishhook'', finger_TOYS_fishhook),
      (''scissors'', returns finger_TOYS_scissors),
      (''corner'', returns finger_TOYS_corner),
      (''kittycat'', returns finger_TOYS_kittycat),
      (''lightning_bolt'', returns (on_ip finger_TOYS_lightning_bolt)),
      (''boulder'', finger_TOYS_boulder),
      (''mailbox'', returns (on_ip finger_TOYS_mailbox)),
      (''necklace'', returns finger_TOYS_necklace),
      (''can_opener'', returns finger_TOYS_can_opener),
      (''chicane'', returns finger_TOYS_chicane),
      (''barstool'', returns (on_ip finger_TOYS_barstool)),
      (''tumbler'', \<lambda>cf. returns (finger_TOYS_tumbler cf) cf),
      (''dixiecup'', returns finger_TOYS_dixiecup),
      (''television_antenna'', returns finger_TOYS_television_antenna),
      (''buried_treasure'', returns (on_ip finger_TOYS_buried_treasure)),
      (''slingshot'', returns (on_ip finger_TOYS_slingshot)),
      (''barn_door'', returns (on_ip finger_TOYS_barn_door))]"

section \<open>The frame\<close>

lemma frame_TOYS_ip [frames]:
  "frame (finger_TOYS_gable ip, w) = frame (ip, w)" "frame (finger_TOYS_pair_of_shoes ip, w) = frame (ip, w)"
  "frame (finger_TOYS_toilet_seat ip, w) = frame (ip, w)" "frame (finger_TOYS_pitchfork_head ip, w) = frame (ip, w)"
  "frame (finger_TOYS_pair_of_stilts cf ip, w) = frame (ip, w)" "frame (finger_TOYS_doric_column ip, w) = frame (ip, w)"
  "frame (finger_TOYS_lightning_bolt ip, w) = frame (ip, w)" "frame (finger_TOYS_mailbox ip, w) = frame (ip, w)"
  "frame (finger_TOYS_barstool ip, w) = frame (ip, w)" "frame (finger_TOYS_buried_treasure ip, w) = frame (ip, w)"
  "frame (finger_TOYS_slingshot ip, w) = frame (ip, w)" "frame (finger_TOYS_barn_door ip, w) = frame (ip, w)"
  by (simp_all add: finger_TOYS_gable_def finger_TOYS_pair_of_shoes_def finger_TOYS_toilet_seat_def
      finger_TOYS_pitchfork_head_def finger_TOYS_pair_of_stilts_def finger_TOYS_doric_column_def
      finger_TOYS_lightning_bolt_def finger_TOYS_mailbox_def finger_TOYS_barstool_def
      finger_TOYS_buried_treasure_def finger_TOYS_slingshot_def finger_TOYS_barn_door_def
      split_beta Let_def frames frame_repeat)

lemma frame_toys_copy [frames]: "frame (toys_copy move order m) = frame m"
  by (simp add: toys_copy_def split_beta Let_def frames)

lemma frame_TOYS_mach [frames]:
  "frame (finger_TOYS_bracelet m) = frame m" "frame (finger_TOYS_scissors m) = frame m"
  "frame (finger_TOYS_kittycat m) = frame m" "frame (finger_TOYS_dixiecup m) = frame m"
  "frame (finger_TOYS_calipers m) = frame m" "frame (finger_TOYS_counterclockwise m) = frame m"
  "frame (finger_TOYS_chicane m) = frame m" "frame (finger_TOYS_corner m) = frame m"
  "frame (finger_TOYS_can_opener m) = frame m" "frame (finger_TOYS_necklace m) = frame m"
  "frame (finger_TOYS_tumbler cf m) = frame m" "frame (finger_TOYS_television_antenna m) = frame m"
  by (simp_all add: finger_TOYS_bracelet_def finger_TOYS_scissors_def finger_TOYS_kittycat_def
      finger_TOYS_dixiecup_def finger_TOYS_calipers_def finger_TOYS_counterclockwise_def
      finger_TOYS_chicane_def finger_TOYS_corner_def finger_TOYS_can_opener_def finger_TOYS_necklace_def
      finger_TOYS_tumbler_def finger_TOYS_television_antenna_def split_beta Let_def frames
      frame_fold frame_fold_ip)

lemma frame_translate_line:
  "translate_line at n lo hi m = Some (Running m') \<Longrightarrow> frame m' = frame m"
  by (auto simp: translate_line_def split_beta Let_def frames split: if_splits)

lemma keeps_frame_lines: "keeps_frame finger_TOYS_fishhook" "keeps_frame finger_TOYS_boulder"
  by (auto simp: keeps_frame_def finger_TOYS_fishhook_def finger_TOYS_boulder_def split_beta Let_def frames
      dest!: frame_translate_line)

lemma TOYS_keeps_frame: "\<forall>(name, operation) \<in> set TOYS_operations. keeps_frame operation"
  by (simp add: TOYS_operations_def keeps_frame_lines keeps_frame_returns frames frame_on_ip keeps_frame_config)

lemma crash_free_lines: "crash_free finger_TOYS_fishhook" "crash_free finger_TOYS_boulder"
  by (auto simp: crash_free_def finger_TOYS_fishhook_def finger_TOYS_boulder_def translate_line_def
      split_beta Let_def)

lemma TOYS_crash_free: "\<forall>(name, operation) \<in> set TOYS_operations. crash_free operation"
  by (simp add: TOYS_operations_def crash_free_lines crash_free_returns)

end
