(* ===== verification/Stringbuffer.thy ===== *)
theory Stringbuffer
  imports Prelude
begin

text \<open>
  The growing buffer of \<^verbatim>\<open>lib/stringbuffer/stringbuffer.c\<close>. The first \<open>pos\<close> cells of the buffer
  are the list \<open>sb_buf\<close>; \<open>sb_size\<close> is the number of cells that are allocated. The appends do not
  look at the answer of \<open>stringbuffer_ensure\<close>: one that then writes past the allocation is \<open>None\<close>.
\<close>

section \<open>The operations\<close>

record string_buffer =
  sb_buf :: "cell list"
  sb_size :: nat

definition sizeof_StringBuffer :: nat where
  "sizeof_StringBuffer = 24"

definition sb_bytes :: "nat \<Rightarrow> nat" where
  "sb_bytes n = n * 8 mod 2 ^ 64"

definition stringbuffer_new :: "allocator \<Rightarrow> string_buffer option" where
  "stringbuffer_new al =
     (if \<not> al sizeof_StringBuffer then None
      else if \<not> al (sb_bytes 256) then None
      else Some \<lparr>sb_buf = [], sb_size = 256\<rparr>)"

definition stringbuffer_ensure :: "allocator \<Rightarrow> string_buffer \<Rightarrow> nat \<Rightarrow> bool \<times> string_buffer" where
  "stringbuffer_ensure al sb len =
     (if length (sb_buf sb) + len \<le> sb_size sb then (True, sb)
      else
        (let new_size = length (sb_buf sb) + len + 256
         in if \<not> al (sb_bytes new_size) then (False, sb)
            else (True, sb\<lparr>sb_size := new_size\<rparr>)))"

text \<open>Writing cells from \<open>pos\<close> on, and moving \<open>pos\<close> after them.\<close>

definition sb_write :: "string_buffer \<Rightarrow> cell list \<Rightarrow> string_buffer option" where
  "sb_write sb cs =
     (if sb_size sb < length (sb_buf sb) + length cs then None
      else Some (sb\<lparr>sb_buf := sb_buf sb @ cs\<rparr>))"

definition stringbuffer_append_cell :: "allocator \<Rightarrow> string_buffer \<Rightarrow> cell \<Rightarrow> string_buffer option" where
  "stringbuffer_append_cell al sb c = sb_write (snd (stringbuffer_ensure al sb 2)) [c]"

text \<open>A \<open>char\<close> is signed.\<close>

definition stringbuffer_append_char :: "allocator \<Rightarrow> string_buffer \<Rightarrow> byte \<Rightarrow> string_buffer option" where
  "stringbuffer_append_char al sb c = sb_write (snd (stringbuffer_ensure al sb 2)) [scast c]"

definition stringbuffer_append_buffer ::
    "allocator \<Rightarrow> string_buffer \<Rightarrow> byte list \<Rightarrow> nat \<Rightarrow> string_buffer option" where
  "stringbuffer_append_buffer al sb buffer len =
     sb_write (snd (stringbuffer_ensure al sb (len + 1))) (map scast (take len buffer))"

definition stringbuffer_append_string :: "allocator \<Rightarrow> string_buffer \<Rightarrow> byte list \<Rightarrow> string_buffer option" where
  "stringbuffer_append_string al sb str = stringbuffer_append_buffer al sb str (length str)"

text \<open>
  \<open>text\<close> is what the format and the arguments come to. The first round has room for 100 bytes, the
  second for precisely what is needed.
\<close>

definition stringbuffer_append_printf ::
    "allocator \<Rightarrow> string_buffer \<Rightarrow> byte list \<Rightarrow> (bool \<times> string_buffer) option" where
  "stringbuffer_append_printf al sb text =
     (if \<not> al 100 then Some (False, sb)
      else if length text < 100 then map_option (Pair True) (stringbuffer_append_string al sb text)
      else if \<not> al (length text + 1) then Some (False, sb)
      else map_option (Pair True) (stringbuffer_append_string al sb text))"

definition stringbuffer_finish :: "allocator \<Rightarrow> string_buffer \<Rightarrow> byte list option" where
  "stringbuffer_finish al sb =
     (if \<not> al (length (sb_buf sb) + 1) then None else Some (map ucast (sb_buf sb)))"

text \<open>The answer leaves out the 0 that is written after the cells.\<close>

definition stringbuffer_finish_multibyte :: "string_buffer \<Rightarrow> cell list option" where
  "stringbuffer_finish_multibyte sb = map_option (\<lambda>_. sb_buf sb) (sb_write sb [0])"

section \<open>Room for the terminating zero\<close>

text \<open>The invariant that the C file states, \<open>pos < size\<close>.\<close>

definition sb_ok :: "string_buffer \<Rightarrow> bool" where
  "sb_ok sb \<longleftrightarrow> length (sb_buf sb) < sb_size sb"

lemma ensure_ok:
  assumes "stringbuffer_ensure al sb len = (True, sb')" "length cs < len"
  shows "sb_write sb' cs = Some (sb'\<lparr>sb_buf := sb_buf sb @ cs\<rparr>) \<and> sb_ok (sb'\<lparr>sb_buf := sb_buf sb @ cs\<rparr>)"
  using assms by (auto simp: stringbuffer_ensure_def sb_write_def sb_ok_def Let_def split: if_splits)

lemma ensure_fails: "stringbuffer_ensure al sb len = (False, sb') \<Longrightarrow> sb' = sb"
  by (auto simp: stringbuffer_ensure_def Let_def split: if_splits)

text \<open>The appends of a list of cells, one after the other.\<close>

fun append_cells :: "allocator \<Rightarrow> string_buffer \<Rightarrow> cell list \<Rightarrow> string_buffer option" where
  "append_cells al sb [] = Some sb"
| "append_cells al sb (c # cs) =
     (case stringbuffer_append_cell al sb c of None \<Rightarrow> None | Some sb \<Rightarrow> append_cells al sb cs)"

lemma append_cell_grown:
  assumes "fst (stringbuffer_ensure al sb 2)"
  shows "\<exists>sb'. stringbuffer_append_cell al sb c = Some sb' \<and> sb_buf sb' = sb_buf sb @ [c] \<and> sb_ok sb'"
  using assms ensure_ok [of al sb 2 "snd (stringbuffer_ensure al sb 2)" "[c]"]
  by (cases "stringbuffer_ensure al sb 2") (simp add: stringbuffer_append_cell_def)

lemma append_cell_full:
  assumes "\<not> fst (stringbuffer_ensure al sb 2)" "sb_ok sb"
  shows "stringbuffer_append_cell al sb c = Some (sb\<lparr>sb_buf := sb_buf sb @ [c]\<rparr>)"
  using assms ensure_fails [of al sb 2]
  by (cases "stringbuffer_ensure al sb 2") (auto simp: stringbuffer_append_cell_def sb_write_def sb_ok_def)

lemma ensure_grows: "(\<And>n. al n) \<Longrightarrow> fst (stringbuffer_ensure al sb len)"
  by (simp add: stringbuffer_ensure_def Let_def)

lemma append_cells_grown:
  assumes "\<And>n. al n" "sb_ok sb"
  shows "\<exists>sb'. append_cells al sb cs = Some sb' \<and> sb_buf sb' = sb_buf sb @ cs \<and> sb_ok sb'"
  using assms(2)
proof (induction cs arbitrary: sb)
  case (Cons c cs)
  obtain sb' where sb': "stringbuffer_append_cell al sb c = Some sb'" "sb_buf sb' = sb_buf sb @ [c]" "sb_ok sb'"
    using append_cell_grown ensure_grows assms(1) by blast
  then show ?case using Cons.IH [of sb'] by auto
qed simp

lemma append_string_grown:
  assumes "\<And>n. al n"
  shows "\<exists>sb'. stringbuffer_append_string al sb str = Some sb' \<and> sb_buf sb' = sb_buf sb @ map scast str \<and> sb_ok sb'"
  using ensure_grows [of al sb "length str + 1"] assms
    ensure_ok [of al sb "length str + 1" "snd (stringbuffer_ensure al sb (length str + 1))" "map scast str"]
  by (cases "stringbuffer_ensure al sb (length str + 1)")
    (simp add: stringbuffer_append_string_def stringbuffer_append_buffer_def)

lemma finish_multibyte_ok: "sb_ok sb \<Longrightarrow> stringbuffer_finish_multibyte sb = Some (sb_buf sb)"
  by (simp add: stringbuffer_finish_multibyte_def sb_write_def sb_ok_def)

lemma new_ok: "stringbuffer_new al = Some sb \<Longrightarrow> sb_ok sb \<and> sb_buf sb = []"
  by (auto simp: stringbuffer_new_def sb_ok_def split: if_splits)

lemma new_granted:
  assumes "\<And>n. al n"
  shows "\<exists>sb. stringbuffer_new al = Some sb \<and> sb_ok sb \<and> sb_buf sb = []"
proof -
  have "stringbuffer_new al \<noteq> None" by (simp add: stringbuffer_new_def assms)
  then show ?thesis using new_ok by blast
qed

lemma ucast_scast_byte: "ucast (scast (b :: byte) :: cell) = b"
  by (rule bit_word_eqI) (auto simp: bit_simps)

text \<open>
  nothing is lost or written out of bounds while memory can be had. The cells appended to a new buffer
  one by one, and after them the bytes of a text, however long, are what the finish answers; the
  writes, that of the terminating zero included, stay inside the allocation, across any number of times that
  the buffer grows; and a text finished as bytes comes back unchanged.
\<close>

theorem stringbuffer_roundtrip:
  assumes "\<And>n. al n"
  shows "\<exists>new sb sb'. stringbuffer_new al = Some new \<and> append_cells al new cs = Some sb \<and>
    stringbuffer_append_printf al sb str = Some (True, sb') \<and>
    stringbuffer_finish_multibyte sb' = Some (cs @ map scast str) \<and>
    stringbuffer_finish al sb' = Some (map ucast cs @ str)"
proof -
  obtain new where new: "stringbuffer_new al = Some new" "sb_ok new" "sb_buf new = []"
    using new_granted assms by blast
  then obtain sb where sb: "append_cells al new cs = Some sb" "sb_buf sb = cs" "sb_ok sb"
    using append_cells_grown [of al new cs] assms by auto
  then obtain sb' where sb': "stringbuffer_append_string al sb str = Some sb'" "sb_buf sb' = cs @ map scast str"
    "sb_ok sb'"
    using append_string_grown [of al sb str] assms by auto
  then have "stringbuffer_append_printf al sb str = Some (True, sb')"
    by (simp add: stringbuffer_append_printf_def assms)
  moreover have "stringbuffer_finish al sb' = Some (map ucast cs @ str)"
    using sb' assms by (simp add: stringbuffer_finish_def ucast_scast_byte comp_def)
  moreover have "stringbuffer_finish_multibyte sb' = Some (cs @ map scast str)"
    using sb' finish_multibyte_ok by simp
  ultimately show ?thesis by (intro exI conjI) (rule new sb; assumption?)+
qed

theorem stringbuffer_roundtrip_witness:
  "\<exists>new sb sb'. stringbuffer_new (\<lambda>_. True) = Some new \<and> append_cells (\<lambda>_. True) new [104, 105] = Some sb \<and>
    stringbuffer_append_printf (\<lambda>_. True) sb [33] = Some (True, sb') \<and>
    stringbuffer_finish_multibyte sb' = Some ([104, 105] @ map scast [33 :: byte]) \<and>
    stringbuffer_finish (\<lambda>_. True) sb' = Some (map ucast [104 :: cell, 105] @ [33])"
  by (rule stringbuffer_roundtrip) simp

end
