(* ===== verification/Critical.thy ===== *)
theory Critical
  imports Main
begin

text \<open>
  The words behind the two-way string search: periods, local periods, maximal suffixes, and the theorem that a maximal suffix gives a
  place where the local period is the period of the whole word. Words are lists and their parts are given by indices.
\<close>

section \<open>Periods\<close>

definition has_period :: "'a list \<Rightarrow> nat \<Rightarrow> bool" where
  "has_period x r \<longleftrightarrow> 1 \<le> r \<and> (\<forall>t. t + r < length x \<longrightarrow> x ! t = x ! (t + r))"

definition least_period :: "'a list \<Rightarrow> nat" where
  "least_period x = (LEAST r. has_period x r)"

text \<open>A repetition at the place \<open>l\<close>: a word of length \<open>r\<close> fits to the left and to the right of it, as far as there are letters.\<close>

definition repetition :: "'a list \<Rightarrow> nat \<Rightarrow> nat \<Rightarrow> bool" where
  "repetition x l r \<longleftrightarrow> 1 \<le> r \<and> (\<forall>t < l. l \<le> t + r \<longrightarrow> t + r < length x \<longrightarrow> x ! t = x ! (t + r))"

definition critical :: "'a list \<Rightarrow> nat \<Rightarrow> bool" where
  "critical x l \<longleftrightarrow> (\<forall>r. repetition x l r \<longrightarrow> least_period x \<le> r)"

lemma repetitionD: "repetition x l r \<Longrightarrow> t < l \<Longrightarrow> l \<le> t + r \<Longrightarrow> t + r < length x \<Longrightarrow> x ! t = x ! (t + r)"
  by (simp add: repetition_def)

lemma period_repetition: "has_period x r \<Longrightarrow> repetition x l r"
  by (simp add: has_period_def repetition_def)

lemma period_length: "x \<noteq> [] \<Longrightarrow> has_period x (length x)"
  by (simp add: has_period_def Suc_le_eq)

lemma least_period: "x \<noteq> [] \<Longrightarrow> has_period x (least_period x)"
  unfolding least_period_def using period_length by (rule LeastI)

lemma least_period_le: "has_period x r \<Longrightarrow> least_period x \<le> r"
  unfolding least_period_def by (rule Least_le)

text \<open>From the place \<open>l\<close> on, the letters repeat with the distance \<open>p\<close>.\<close>

definition period_from :: "'a list \<Rightarrow> nat \<Rightarrow> nat \<Rightarrow> bool" where
  "period_from x l p \<longleftrightarrow> (\<forall>t \<ge> l. t + p < length x \<longrightarrow> x ! t = x ! (t + p))"

lemma period_from_mult:
  assumes "period_from x l p" "l \<le> t" "t + c * p < length x"
  shows "x ! t = x ! (t + c * p)"
  using assms(3)
proof (induction c)
  case (Suc c)
  then have "x ! t = x ! (t + c * p)" "x ! (t + c * p) = x ! (t + c * p + p)"
    using assms(1,2) by (auto simp: period_from_def algebra_simps)
  then show ?case by (simp add: algebra_simps)
qed simp

lemma period_period_from: "has_period x p \<Longrightarrow> period_from x l p"
  by (simp add: has_period_def period_from_def)

section \<open>Comparing suffixes\<close>

text \<open>
  The two orders in which the routine compares letters. The suffix from \<open>s\<close> comes before the one from \<open>t\<close> if it is a proper prefix of it or
  has the lesser letter at the first difference.
\<close>

locale letter_order =
  fixes lt :: "'a \<Rightarrow> 'a \<Rightarrow> bool"
  assumes irrefl: "\<not> lt a a"
    and trans: "lt a b \<Longrightarrow> lt b c \<Longrightarrow> lt a c"
    and total: "lt a b \<or> a = b \<or> lt b a"

definition suffix_less :: "('a \<Rightarrow> 'a \<Rightarrow> bool) \<Rightarrow> 'a list \<Rightarrow> nat \<Rightarrow> nat \<Rightarrow> bool" where
  "suffix_less lt x s t \<longleftrightarrow>
     (\<exists>e. t + e < length x \<and> s + e \<le> length x \<and> (\<forall>f < e. x ! (s + f) = x ! (t + f)) \<and>
          (s + e = length x \<or> lt (x ! (s + e)) (x ! (t + e))))"

definition maximal_suffix :: "('a \<Rightarrow> 'a \<Rightarrow> bool) \<Rightarrow> 'a list \<Rightarrow> nat \<Rightarrow> bool" where
  "maximal_suffix lt x l \<longleftrightarrow> l < length x \<and> (\<forall>s < length x. s \<noteq> l \<longrightarrow> suffix_less lt x s l)"

lemma suffix_lessI:
  "t + e < length x \<Longrightarrow> s + e \<le> length x \<Longrightarrow> (\<And>f. f < e \<Longrightarrow> x ! (s + f) = x ! (t + f)) \<Longrightarrow>
     s + e = length x \<or> lt (x ! (s + e)) (x ! (t + e)) \<Longrightarrow> suffix_less lt x s t"
  unfolding suffix_less_def by blast

lemma suffix_less_prefix:
  assumes "suffix_less lt x (s + d) (t + d)" "\<And>f. f < d \<Longrightarrow> x ! (s + f) = x ! (t + f)"
  shows "suffix_less lt x s t"
proof -
  obtain e where e: "t + d + e < length x" "s + d + e \<le> length x" "\<forall>f < e. x ! (s + d + f) = x ! (t + d + f)"
    "s + d + e = length x \<or> lt (x ! (s + d + e)) (x ! (t + d + e))"
    using assms(1) by (auto simp: suffix_less_def)
  show ?thesis
  proof (rule suffix_lessI [of _ "d + e"])
    fix f assume f: "f < d + e"
    show "x ! (s + f) = x ! (t + f)"
    proof (cases "f < d")
      case False
      then have "f = d + (f - d)" "f - d < e" using f by simp_all
      then show ?thesis using e(3) by (metis add.assoc)
    qed (rule assms(2))
  qed (use e in \<open>simp_all add: add.assoc\<close>)
qed

context letter_order
begin

lemma suffix_less_trans:
  assumes "suffix_less lt x r s" "suffix_less lt x s t"
  shows "suffix_less lt x r t"
proof -
  obtain e where e: "s + e < length x" "r + e \<le> length x" "\<forall>f < e. x ! (r + f) = x ! (s + f)"
    "r + e = length x \<or> lt (x ! (r + e)) (x ! (s + e))"
    using assms(1) by (auto simp: suffix_less_def)
  obtain d where d: "t + d < length x" "s + d \<le> length x" "\<forall>f < d. x ! (s + f) = x ! (t + f)"
    "s + d = length x \<or> lt (x ! (s + d)) (x ! (t + d))"
    using assms(2) by (auto simp: suffix_less_def)
  show ?thesis
  proof (rule suffix_lessI [of _ "min d e"])
    show "r + min d e = length x \<or> lt (x ! (r + min d e)) (x ! (t + min d e))"
      using d e trans by (cases d e rule: linorder_cases) (auto simp: min_def)
  qed (use d e in auto)
qed

lemma suffix_less_irrefl: "\<not> suffix_less lt x s s"
  by (auto simp: suffix_less_def irrefl)

lemma suffix_less_asym: "suffix_less lt x s t \<Longrightarrow> \<not> suffix_less lt x t s"
  using suffix_less_trans suffix_less_irrefl by blast

lemma suffix_less_cancel:
  assumes "suffix_less lt x s t" "\<And>f. f < d \<Longrightarrow> x ! (s + f) = x ! (t + f)" "s + d \<le> length x"
  shows "suffix_less lt x (s + d) (t + d)"
proof -
  obtain e where e: "t + e < length x" "s + e \<le> length x" "\<forall>f < e. x ! (s + f) = x ! (t + f)"
    "s + e = length x \<or> lt (x ! (s + e)) (x ! (t + e))"
    using assms(1) by (auto simp: suffix_less_def)
  have "d \<le> e"
  proof (rule ccontr)
    assume "\<not> d \<le> e"
    then show False using e assms(2) [of e] assms(3) irrefl by auto
  qed
  then show ?thesis by (intro suffix_lessI [of _ "e - d"]) (use e in \<open>auto simp: add.assoc\<close>)
qed

section \<open>The critical factorization\<close>

text \<open>In front of a maximal suffix there is no square: a repetition is longer than the part to its left.\<close>

lemma repetition_long:
  assumes max: "maximal_suffix lt x l" and rep: "repetition x l r"
  shows "l < r"
proof (rule ccontr)
  assume "\<not> l < r"
  then have r: "r \<le> l" "1 \<le> r" using rep by (simp_all add: repetition_def)
  have l: "l < length x" using max by (simp add: maximal_suffix_def)
  have same: "x ! (l + f) = x ! (l - r + f)" if "f < r" "l + f < length x" for f
    using repetitionD [OF rep, of "l - r + f"] that r by simp
  have "suffix_less lt x l (l - r)"
  proof (cases "l + r < length x")
    case True
    then have "suffix_less lt x (l + r) (l - r + r)" using max r by (simp add: maximal_suffix_def)
    then show ?thesis by (rule suffix_less_prefix) (use same True in simp)
  next
    case False
    then show ?thesis by (intro suffix_lessI [of _ "length x - l"]) (use same l r in auto)
  qed
  moreover have "suffix_less lt x (l - r) l" using max r l by (simp add: maximal_suffix_def)
  ultimately show False using suffix_less_asym by blast
qed

end

text \<open>The shorter of the maximal suffixes under an order and its reverse begins at a critical place.\<close>

locale two_orders = letter_order lt for lt :: "'a \<Rightarrow> 'a \<Rightarrow> bool" +
  fixes gt
  assumes gt: "gt a b = lt b a"

sublocale two_orders \<subseteq> reverse: letter_order gt
  by unfold_locales (use irrefl trans total gt in blast)+

context two_orders
begin

lemma both_less_prefix:
  assumes "suffix_less lt x s l" "suffix_less gt x s l" "l < s" "l \<le> t" "t + (s - l) < length x"
  shows "x ! t = x ! (t + (s - l))"
proof -
  obtain e where e: "l + e < length x" "s + e \<le> length x" "\<forall>f < e. x ! (s + f) = x ! (l + f)"
    "s + e = length x \<or> lt (x ! (s + e)) (x ! (l + e))"
    using assms(1) by (auto simp: suffix_less_def)
  obtain d where d: "l + d < length x" "s + d \<le> length x" "\<forall>f < d. x ! (s + f) = x ! (l + f)"
    "s + d = length x \<or> lt (x ! (l + d)) (x ! (s + d))"
    using assms(2) by (auto simp: suffix_less_def gt)
  have "s + e = length x"
  proof (rule ccontr)
    assume no: "s + e \<noteq> length x"
    then have lt: "lt (x ! (s + e)) (x ! (l + e))" using e(4) by simp
    show False
    proof (cases d e rule: linorder_cases)
      case less
      then show False using d(1,4) e(2,3) assms(3) irrefl [of "x ! (l + d)"] by auto
    next
      case equal
      then show False using d(4) lt no irrefl trans by blast
    next
      case greater
      then show False using d(3) lt irrefl [of "x ! (l + e)"] by simp
    qed
  qed
  then have "t - l < e" using assms(3-5) by linarith
  then have "x ! (s + (t - l)) = x ! (l + (t - l))" using e(3) by blast
  then show ?thesis using assms by (simp add: add.commute)
qed

theorem repetition_period:
  assumes lt: "maximal_suffix lt x l" and gt: "maximal_suffix gt x l'" "l' \<le> l" and rep: "repetition x l r"
  shows "has_period x r"
proof -
  have r: "l < r" "1 \<le> r" using repetition_long [OF lt rep] rep by (simp_all add: repetition_def)
  have "x ! t = x ! (t + r)" if t: "t + r < length x" for t
  proof (cases "t < l")
    case True
    then show ?thesis using repetitionD [OF rep, of t] t r by simp
  next
    case False
    then have inside: "l + r < length x" using t by simp
    have "suffix_less lt x (l + r) l" using lt inside r by (simp add: maximal_suffix_def)
    moreover have "suffix_less gt x (l' + r) l'" using gt inside r by (simp add: maximal_suffix_def)
    then have "suffix_less gt x (l' + r + (l - l')) (l' + (l - l'))"
    proof (rule reverse.suffix_less_cancel)
      fix f assume "f < l - l'"
      then show "x ! (l' + r + f) = x ! (l' + f)"
        using repetitionD [OF rep, of "l' + f"] inside r gt(2) by (simp add: algebra_simps)
    qed (use inside gt(2) in simp)
    then have "suffix_less gt x (l + r) l" using gt(2) by (simp add: algebra_simps)
    ultimately show ?thesis using both_less_prefix [of x "l + r" l t] r t False by simp
  qed
  with r show ?thesis by (simp add: has_period_def)
qed

theorem shorter_suffix_critical:
  "maximal_suffix lt x l \<Longrightarrow> maximal_suffix gt x l' \<Longrightarrow> l' \<le> l \<Longrightarrow> critical x l"
  unfolding critical_def using repetition_period least_period_le by blast

end

section \<open>The period of the right half\<close>

text \<open>
  How the routine knows the period of a suffix: from \<open>l\<close> on the letters repeat with the distance \<open>p\<close>, and no part of the
  first \<open>p\<close> letters is the beginning of them.
\<close>

definition unbordered :: "'a list \<Rightarrow> nat \<Rightarrow> nat \<Rightarrow> bool" where
  "unbordered x l p \<longleftrightarrow> (\<forall>d. 0 < d \<longrightarrow> d < p \<longrightarrow> (\<exists>e. d + e < p \<and> x ! (l + d + e) \<noteq> x ! (l + e)))"

lemma unbordered_least:
  assumes "unbordered x l p" "l + p \<le> length x" "has_period x r"
  shows "p \<le> r"
proof (rule ccontr)
  assume "\<not> p \<le> r"
  moreover have "0 < r" using assms(3) by (simp add: has_period_def)
  ultimately obtain e where e: "r + e < p" "x ! (l + r + e) \<noteq> x ! (l + e)"
    using assms(1) by (meson not_le unbordered_def)
  have "l + e + r < length x" using e(1) assms(2) by linarith
  then have "x ! (l + e) = x ! (l + e + r)" using assms(3) by (simp add: has_period_def)
  then show False using e(2) by (simp add: algebra_simps)
qed

text \<open>If the period of the word is not longer than the right half, then it is the period of the right half.\<close>

lemma short_period:
  assumes crit: "critical x l" and p: "unbordered x l p" "period_from x l p" "1 \<le> p" "l + p \<le> length x"
    and r: "r = least_period x" "l < r" "l + r \<le> length x"
  shows "has_period x p"
proof -
  have "x \<noteq> []" using r by auto
  then have per: "has_period x r" using least_period r(1) by simp
  have "p \<le> r" by (rule unbordered_least [OF p(1,4) per])
  define c d where cd: "c = r div p" "d = r mod p"
  have "d = 0"
  proof (rule ccontr)
    assume "d \<noteq> 0"
    have split: "r = c * p + d" "d < p" using p(3) by (simp_all add: cd)
    have "repetition x l d"
      unfolding repetition_def
    proof (intro conjI allI impI)
      fix t assume t: "t < l" "l \<le> t + d" "t + d < length x"
      have "x ! t = x ! (t + r)" using per t(1) r(3) by (simp add: has_period_def)
      also have "t + r = t + d + c * p" using split by simp
      also have "x ! ... = x ! (t + d)" using period_from_mult [OF p(2) t(2), of c] t(1) r(3) split by simp
      finally show "x ! t = x ! (t + d)" .
    qed (use \<open>d \<noteq> 0\<close> in simp)
    then have "r \<le> d" using crit r(1) by (simp add: critical_def)
    with split \<open>p \<le> r\<close> show False by simp
  qed
  then have split: "r = c * p" using div_mult_mod_eq [of r p] by (simp add: cd)
  have "x ! t = x ! (t + p)" if t: "t + p < length x" for t
  proof (cases "l \<le> t")
    case True
    then show ?thesis using p(2) t by (simp add: period_from_def)
  next
    case False
    then have far: "x ! t = x ! (t + r)" using per r(3) by (simp add: has_period_def)
    show ?thesis
    proof (cases "l \<le> t + p")
      case True
      have eq: "t + r = t + p + (c - 1) * p" using split \<open>p \<le> r\<close> p(3) by (cases c) simp_all
      have "t + p + (c - 1) * p < length x" using False r(3) by (simp only: eq [symmetric])
      then have "x ! (t + p) = x ! (t + r)" unfolding eq by (rule period_from_mult [OF p(2) True])
      then show ?thesis using far by simp
    next
      case before: False
      then have "x ! (t + p) = x ! (t + p + r)" using per r(3) by (simp add: has_period_def)
      also have "... = x ! (t + r)" using p(2) before r by (simp add: period_from_def algebra_simps)
      finally show ?thesis using far by simp
    qed
  qed
  with p(3) show ?thesis by (simp add: has_period_def)
qed

section \<open>Shifting the window\<close>

text \<open>The word is in the text \<open>h\<close> at the place \<open>j\<close>.\<close>

definition occurs_at :: "'a list \<Rightarrow> 'a list \<Rightarrow> nat \<Rightarrow> bool" where
  "occurs_at x h j \<longleftrightarrow> j + length x \<le> length h \<and> (\<forall>t < length x. h ! (j + t) = x ! t)"

lemma occurs_atD: "occurs_at x h j \<Longrightarrow> t < length x \<Longrightarrow> h ! (j + t) = x ! t"
  by (simp add: occurs_at_def)

text \<open>If the letters from \<open>l\<close> to \<open>i\<close> have matched, an occurrence further right shows a repetition.\<close>

lemma shifted_repetition:
  assumes match: "\<And>t. l \<le> t \<Longrightarrow> t < i \<Longrightarrow> h ! (j + t) = x ! t" and occ: "occurs_at x h (j + s)"
    and s: "1 \<le> s" "l + s \<le> i \<or> i = length x" "i \<le> length x"
  shows "repetition x l s"
  unfolding repetition_def
proof (intro conjI allI impI)
  fix t assume t: "t < l" "l \<le> t + s" "t + s < length x"
  have "h ! (j + (t + s)) = x ! (t + s)" using match [of "t + s"] t s by linarith
  moreover have "h ! (j + s + t) = x ! t" using occurs_atD [OF occ, of t] t by simp
  ultimately show "x ! t = x ! (t + s)" by (simp add: algebra_simps)
qed (rule s)

text \<open>After a mismatch in the right half at \<open>i\<close> the window moves by \<open>i - l + 1\<close>.\<close>

lemma right_shift_safe:
  assumes crit: "critical x l" "l < least_period x"
    and match: "\<And>t. l \<le> t \<Longrightarrow> t < i \<Longrightarrow> h ! (j + t) = x ! t" and miss: "h ! (j + i) \<noteq> x ! i" "l \<le> i" "i < length x"
    and s: "1 \<le> s" "s \<le> i - l"
  shows "\<not> occurs_at x h (j + s)"
proof
  assume occ: "occurs_at x h (j + s)"
  let ?r = "least_period x"
  have per: "has_period x ?r" using miss(3) by (intro least_period) auto
  have rep: "repetition x l s" by (rule shifted_repetition [OF match occ]) (use s miss in auto)
  define c d where cd: "c = s div ?r" "d = s mod ?r"
  have split: "s = c * ?r + d" "d < ?r" using per by (simp_all add: cd has_period_def)
  have from0: "period_from x 0 ?r" by (rule period_period_from [OF per])
  have "d = 0"
  proof (rule ccontr)
    assume "d \<noteq> 0"
    have "repetition x l d"
      unfolding repetition_def
    proof (intro conjI allI impI)
      fix t assume t: "t < l" "l \<le> t + d" "t + d < length x"
      have "x ! t = x ! (t + s)" using repetitionD [OF rep t(1)] t s miss split(1) by simp
      also have "t + s = t + d + c * ?r" using split by simp
      also have "x ! ... = x ! (t + d)" using period_from_mult [OF from0, of "t + d" c] t(1) s miss split(1) by simp
      finally show "x ! t = x ! (t + d)" .
    qed (use \<open>d \<noteq> 0\<close> in simp)
    then show False using crit(1) split(2) by (force simp: critical_def)
  qed
  then have "x ! i = x ! (i - s)"
    using period_from_mult [OF from0, of "i - s" c] split(1) s miss by simp
  moreover have "h ! (j + s + (i - s)) = x ! (i - s)" by (rule occurs_atD [OF occ]) (use miss in simp)
  ultimately show False using miss(1) s by simp
qed

text \<open>After the whole right half has matched the window moves at least to the next place within a period.\<close>

lemma left_shift_safe:
  assumes "critical x l" "\<And>t. l \<le> t \<Longrightarrow> t < length x \<Longrightarrow> h ! (j + t) = x ! t" "1 \<le> s" "s < least_period x"
  shows "\<not> occurs_at x h (j + s)"
proof
  assume "occurs_at x h (j + s)"
  then have "repetition x l s" using shifted_repetition [OF assms(2)] assms(3) by blast
  then show False using assms(1,4) by (force simp: critical_def)
qed

section \<open>Finding a maximal suffix\<close>

text \<open>
  What the loop knows when it has read the letters in front of \<open>j + k\<close>: no suffix that begins before \<open>i\<close> is maximal, and from
  \<open>i\<close> on the letters are repetitions of \<open>p\<close> letters, whose proper suffixes are all less than they are.
\<close>

lemma mult_rest_unique: "u + c * p = v + m * p \<Longrightarrow> u < p \<Longrightarrow> v < p \<Longrightarrow> u = v" for u v p :: nat
  by (metis mod_less mod_mult_self1)

definition suffix_scan :: "('a \<Rightarrow> 'a \<Rightarrow> bool) \<Rightarrow> 'a list \<Rightarrow> nat \<Rightarrow> nat \<Rightarrow> nat \<Rightarrow> nat \<Rightarrow> bool" where
  "suffix_scan lt x i j k p \<longleftrightarrow>
     1 \<le> k \<and> k \<le> p \<and> (\<exists>m \<ge> 1. j + 1 = i + m * p) \<and> j + k \<le> length x \<and>
     (\<forall>s < i. suffix_less lt x s i) \<and>
     (\<forall>d. 0 < d \<longrightarrow> d < p \<longrightarrow>
       (\<exists>e. d + e < p \<and> (\<forall>f < e. x ! (i + d + f) = x ! (i + f)) \<and> lt (x ! (i + d + e)) (x ! (i + e)))) \<and>
     period_from (take (j + k) x) i p"

lemma suffix_scan_start: "x \<noteq> [] \<Longrightarrow> suffix_scan lt x 0 0 1 1"
  by (auto simp: suffix_scan_def period_from_def Suc_le_eq)

lemma suffix_scanE:
  assumes "suffix_scan lt x i j k p"
  obtains m where "1 \<le> k" "k \<le> p" "1 \<le> m" "j + 1 = i + m * p" "j + k = i + m * p + (k - 1)" "j + k \<le> length x"
    "\<forall>s < i. suffix_less lt x s i"
    "\<forall>d. 0 < d \<longrightarrow> d < p \<longrightarrow>
       (\<exists>e. d + e < p \<and> (\<forall>f < e. x ! (i + d + f) = x ! (i + f)) \<and> lt (x ! (i + d + e)) (x ! (i + e)))"
    "\<forall>c f. i + f + c * p < j + k \<longrightarrow> x ! (i + f + c * p) = x ! (i + f)"
proof -
  obtain m where m: "1 \<le> m" "j + 1 = i + m * p" using assms by (auto simp: suffix_scan_def)
  have rep: "x ! (i + f + c * p) = x ! (i + f)" if "i + f + c * p < j + k" for c f
    using assms period_from_mult [of "take (j + k) x" i p "i + f" c] that by (simp add: suffix_scan_def)
  show ?thesis by (rule that [OF _ _ m]) (use assms m rep in \<open>auto simp: suffix_scan_def\<close>)
qed

context letter_order
begin

lemma suffix_scan_less:
  assumes scan: "suffix_scan lt x i j k p" and less: "j + k < length x" "lt (x ! (j + k)) (x ! (i + k - 1))"
  shows "suffix_scan lt x i (j + k) 1 (j + k + 1 - i)"
proof -
  obtain m where kp: "1 \<le> k" "k \<le> p" "1 \<le> m" "j + 1 = i + m * p" "j + k = i + m * p + (k - 1)" "j + k \<le> length x"
    and before: "\<forall>s < i. suffix_less lt x s i"
    and parts: "\<forall>d. 0 < d \<longrightarrow> d < p \<longrightarrow>
       (\<exists>e. d + e < p \<and> (\<forall>f < e. x ! (i + d + f) = x ! (i + f)) \<and> lt (x ! (i + d + e)) (x ! (i + e)))"
    and rep: "\<forall>c f. i + f + c * p < j + k \<longrightarrow> x ! (i + f + c * p) = x ! (i + f)"
    using scan by (rule suffix_scanE)
  have "\<exists>e. d + e < j + k + 1 - i \<and> (\<forall>f < e. x ! (i + d + f) = x ! (i + f)) \<and> lt (x ! (i + d + e)) (x ! (i + e))"
    if d: "0 < d" "d < j + k + 1 - i" for d
  proof -
    define c u where cu: "c = d div p" "u = d mod p"
    have split: "d = u + c * p" "u < p" using kp by (simp_all add: cu)
    have same: "x ! (i + d + f) = x ! (i + u + f)" if "i + d + f < j + k" for f
      using rep [rule_format, of "u + f" c] that split by (simp add: algebra_simps)
    have last: "x ! (i + k - 1) = x ! (i + u + f)" if "i + d + f = j + k" "u + f < p" for f
    proof -
      have "(u + f) + c * p = (k - 1) + m * p" using that split kp by (simp add: algebra_simps)
      then have "u + f = k - 1" by (rule mult_rest_unique) (use that(2) kp(1,2) in simp_all)
      then have "i + u + f = i + k - 1" using kp(1) by simp
      then show ?thesis by simp
    qed
    show ?thesis
    proof (cases "u = 0")
      case True
      define e where "e = j + k - i - d"
      have e: "i + d + e = j + k" using d kp by (simp add: e_def)
      have d_mult: "d = c * p" using split True by simp
      then have "c * p < (m + 1) * p" using d kp by simp
      then have "c \<le> m" unfolding mult_less_cancel2 by simp
      then have e_eq: "e = (k - 1) + (m - c) * p" using e d_mult kp by (simp add: algebra_simps diff_mult_distrib)
      have "x ! (i + (k - 1) + (m - c) * p) = x ! (i + (k - 1))" by (rule rep [rule_format]) (use e e_eq d in simp)
      then have "x ! (i + e) = x ! (i + k - 1)" using kp by (simp add: e_eq add.assoc)
      then have "lt (x ! (i + d + e)) (x ! (i + e))" using less(2) e by simp
      then show ?thesis using e same True by (intro exI [of _ e]) auto
    next
      case False
      obtain e where e: "u + e < p" "\<forall>f < e. x ! (i + u + f) = x ! (i + f)" "lt (x ! (i + u + e)) (x ! (i + e))"
        using parts False split by blast
      consider "i + d + e < j + k" | "i + d + e = j + k" | "j + k < i + d + e" by linarith
      then show ?thesis
      proof cases
        case 1
        then show ?thesis using e same by (intro exI [of _ e]) auto
      next
        case 2
        then have "lt (x ! (i + d + e)) (x ! (i + e))" using less(2) last [OF 2] e trans by simp
        then show ?thesis using 2 e same by (intro exI [of _ e]) auto
      next
        case 3
        define g where "g = j + k - i - d"
        have g: "i + d + g = j + k" "g < e" using 3 d kp by (simp_all add: g_def)
        then have "lt (x ! (i + d + g)) (x ! (i + g))" using less(2) last [OF g(1)] e by simp
        then show ?thesis using g e same by (intro exI [of _ g]) auto
      qed
    qed
  qed
  moreover have "j + k + 1 = i + 1 * (j + k + 1 - i)" using kp by simp
  moreover have "period_from (take (j + k + 1) x) i (j + k + 1 - i)" using kp by (simp add: period_from_def)
  ultimately show ?thesis using before less(1) kp unfolding suffix_scan_def by (intro conjI exI [of _ 1]) auto
qed

lemma suffix_scan_equal:
  assumes scan: "suffix_scan lt x i j k p" and same: "j + k < length x" "x ! (j + k) = x ! (i + k - 1)"
  shows "period_from (take (j + k + 1) x) i p"
proof -
  obtain m where kp: "1 \<le> k" "k \<le> p" "1 \<le> m" "j + 1 = i + m * p" "j + k = i + m * p + (k - 1)" "j + k \<le> length x"
    and rep: "\<forall>c f. i + f + c * p < j + k \<longrightarrow> x ! (i + f + c * p) = x ! (i + f)"
    using scan by (rule suffix_scanE)
  have "x ! t = x ! (t + p)" if t: "i \<le> t" "t + p < j + k + 1" for t
  proof (cases "t + p = j + k")
    case True
    obtain n where n: "m = n + 1" using kp(3) by (metis add.commute le_Suc_ex)
    have "t = i + (k - 1) + n * p" using True kp n by simp
    moreover have "x ! (i + (k - 1) + n * p) = x ! (i + (k - 1))"
      by (rule rep [rule_format]) (use kp n in simp)
    ultimately show ?thesis using True same(2) kp(1) by simp
  next
    case False
    then show ?thesis using scan t same(1) by (simp add: suffix_scan_def period_from_def)
  qed
  then show ?thesis by (simp add: period_from_def)
qed

lemma suffix_scan_step:
  assumes "suffix_scan lt x i j k p" "j + k < length x" "x ! (j + k) = x ! (i + k - 1)"
  shows "k \<noteq> p \<Longrightarrow> suffix_scan lt x i j (k + 1) p" "k = p \<Longrightarrow> suffix_scan lt x i (j + p) 1 p"
proof -
  note longer = suffix_scan_equal [OF assms]
  show "suffix_scan lt x i j (k + 1) p" if "k \<noteq> p"
    using assms(1,2) longer that by (simp add: suffix_scan_def)
  show "suffix_scan lt x i (j + p) 1 p" if "k = p"
  proof -
    obtain m where "1 \<le> m" "j + 1 = i + m * p" using assms(1) by (auto simp: suffix_scan_def)
    then have "\<exists>m \<ge> 1. j + p + 1 = i + m * p" by (intro exI [of _ "m + 1"]) simp
    then show ?thesis using assms(1,2) longer that by (simp add: suffix_scan_def)
  qed
qed

lemma suffix_scan_greater:
  assumes scan: "suffix_scan lt x i j k p" and greater: "j + k < length x" "lt (x ! (i + k - 1)) (x ! (j + k))"
  shows "suffix_scan lt x (j + 1) (j + 1) 1 1"
proof -
  obtain m where kp: "1 \<le> k" "k \<le> p" "1 \<le> m" "j + 1 = i + m * p" "j + k = i + m * p + (k - 1)" "j + k \<le> length x"
    and before: "\<forall>s < i. suffix_less lt x s i"
    and parts: "\<forall>d. 0 < d \<longrightarrow> d < p \<longrightarrow>
       (\<exists>e. d + e < p \<and> (\<forall>f < e. x ! (i + d + f) = x ! (i + f)) \<and> lt (x ! (i + d + e)) (x ! (i + e)))"
    and rep: "\<forall>c f. i + f + c * p < j + k \<longrightarrow> x ! (i + f + c * p) = x ! (i + f)"
    using scan by (rule suffix_scanE)
  have whole: "suffix_less lt x (i + c * p) (j + 1)" if c: "c < m" for c
  proof -
    have "(c + 1) * p \<le> m * p" using c by (intro mult_le_mono1) simp
    then have inside: "i + (k - 1) + c * p < j + k" using kp by simp
    have left: "x ! (i + c * p + f) = x ! (i + f)" if "f \<le> k - 1" for f
      using rep [rule_format, of f c] inside that by (simp add: algebra_simps)
    have right: "x ! (j + 1 + f) = x ! (i + f)" if "f < k - 1" for f
      using rep [rule_format, of f m] kp that by (simp add: algebra_simps)
    show ?thesis
    proof (rule suffix_lessI)
      show "j + 1 + (k - 1) < length x" "i + c * p + (k - 1) \<le> length x" using greater(1) inside kp(1) by simp_all
      show "x ! (i + c * p + f) = x ! (j + 1 + f)" if "f < k - 1" for f using left right that by simp
      have "lt (x ! (i + (k - 1))) (x ! (j + 1 + (k - 1)))" using greater(2) kp(1) by simp
      then show "i + c * p + (k - 1) = length x \<or> lt (x ! (i + c * p + (k - 1))) (x ! (j + 1 + (k - 1)))"
        using left [of "k - 1"] by simp
    qed
  qed
  have part: "suffix_less lt x (i + u + c * p) i" if c: "c < m" and u: "0 < u" "u < p" for c u
  proof -
    obtain e where e: "u + e < p" "\<forall>f < e. x ! (i + u + f) = x ! (i + f)" "lt (x ! (i + u + e)) (x ! (i + e))"
      using parts u by blast
    have "(c + 1) * p \<le> m * p" using c by (intro mult_le_mono1) simp
    then have inside: "i + (u + e) + c * p < j + k" using kp e(1) by simp
    have same: "x ! (i + u + c * p + f) = x ! (i + u + f)" if "f \<le> e" for f
      using rep [rule_format, of "u + f" c] inside that by (simp add: algebra_simps)
    show ?thesis
      by (rule suffix_lessI [of _ e]) (use e same inside greater(1) in \<open>auto simp: algebra_simps\<close>)
  qed
  have "suffix_less lt x s (j + 1)" if s: "s < j + 1" for s
  proof -
    have i: "suffix_less lt x i (j + 1)" using whole [of 0] kp by simp
    show ?thesis
    proof (cases "s < i")
      case True
      then show ?thesis using before i suffix_less_trans by blast
    next
      case False
      define c u where cu: "c = (s - i) div p" "u = (s - i) mod p"
      have split: "s = i + u + c * p" "u < p" using False kp by (simp_all add: cu)
      then have "u + c * p < m * p" using s kp by simp
      then have "c * p < m * p" by linarith
      then have "c < m" by simp
      then show ?thesis using whole [of c] part [of c u] i suffix_less_trans split by (cases "u = 0") auto
    qed
  qed
  then show ?thesis using greater(1) kp by (auto simp: suffix_scan_def period_from_def)
qed

lemma suffix_scan_done:
  assumes scan: "suffix_scan lt x i j k p" and all: "length x \<le> j + k"
  shows "maximal_suffix lt x i \<and> unbordered x i p \<and> period_from x i p \<and> 1 \<le> p \<and> i + p \<le> length x"
proof -
  obtain m where kp: "1 \<le> k" "k \<le> p" "1 \<le> m" "j + 1 = i + m * p" "j + k = i + m * p + (k - 1)" "j + k \<le> length x"
    and before: "\<forall>s < i. suffix_less lt x s i"
    and parts: "\<forall>d. 0 < d \<longrightarrow> d < p \<longrightarrow>
       (\<exists>e. d + e < p \<and> (\<forall>f < e. x ! (i + d + f) = x ! (i + f)) \<and> lt (x ! (i + d + e)) (x ! (i + e)))"
    and rep: "\<forall>c f. i + f + c * p < j + k \<longrightarrow> x ! (i + f + c * p) = x ! (i + f)"
    using scan by (rule suffix_scanE)
  have len: "length x = j + k" using all kp(6) by simp
  have "1 * p \<le> m * p" using kp(3) by (rule mult_le_mono1)
  then have p: "i + p \<le> length x" using kp len by linarith
  have "suffix_less lt x s i" if s: "s < length x" "i < s" for s
  proof -
    define c u where cu: "c = (s - i) div p" "u = (s - i) mod p"
    have split: "s = i + u + c * p" "u < p" using s kp by (simp_all add: cu)
    have same: "x ! (s + f) = x ! (i + u + f)" if "s + f < length x" for f
      using rep [rule_format, of "u + f" c] that split len by (simp add: algebra_simps)
    show ?thesis
    proof (cases "u = 0")
      case True
      then show ?thesis using same s by (intro suffix_lessI [of _ "length x - s"]) auto
    next
      case False
      then obtain e where e: "u + e < p" "\<forall>f < e. x ! (i + u + f) = x ! (i + f)" "lt (x ! (i + u + e)) (x ! (i + e))"
        using parts split by blast
      have equal: "x ! (s + f) = x ! (i + f)" if "f < e" "s + f < length x" for f using e(2) same that by simp
      show ?thesis
      proof (cases "s + e < length x")
        case True
        then show ?thesis by (intro suffix_lessI [of _ e]) (use e same s equal in auto)
      next
        case False
        then show ?thesis by (intro suffix_lessI [of _ "length x - s"]) (use s equal in auto)
      qed
    qed
  qed
  then have "maximal_suffix lt x i" using before p kp by (auto simp: maximal_suffix_def nat_neq_iff)
  moreover have "unbordered x i p"
    using parts irrefl unfolding unbordered_def by metis
  moreover have "period_from x i p" using scan len by (simp add: suffix_scan_def)
  ultimately show ?thesis using p kp by simp
qed

end

end
