(* ===== verification/Fungestring.thy ===== *)
theory Fungestring
  imports World Critical
begin

text \<open>
  The string functions of \<^verbatim>\<open>lib/fungestring\<close>: the search for a string of cells within another one by the two-way algorithm, in
  constant space and linear time. A string is the list of its cells in front of the terminating zero; reading behind the zero is
  \<open>Crashed\<close>, and a loop that does not end is \<open>None\<close>.
\<close>

section \<open>Reading\<close>

definition fetch :: "cell list \<Rightarrow> nat \<Rightarrow> (cell \<Rightarrow> 'a result option) \<Rightarrow> 'a result option" where
  "fetch s i f =
     (if i < length s then f (s ! i) else if i = length s then f 0 else Some Crashed)"

lemma fetch_mono [partial_function_mono]:
  "(\<And>c. mono_option (\<lambda>f. C c f)) \<Longrightarrow> mono_option (\<lambda>f. fetch s i (\<lambda>c. C c f))"
  by (cases "i < length s"; cases "i = length s") (simp_all add: fetch_def option.const_mono)

partial_function (option) funge_strlen :: "cell list \<Rightarrow> nat \<Rightarrow> nat result option" where
  "funge_strlen s p = fetch s p (\<lambda>c. if c \<noteq> 0 then funge_strlen s (p + 1) else Some (Running p))"

partial_function (option) funge_strchr :: "cell list \<Rightarrow> cell \<Rightarrow> nat \<Rightarrow> nat option result option" where
  "funge_strchr s c p =
     fetch s p (\<lambda>a.
       if a \<noteq> 0 then if a = c then Some (Running (Some p)) else funge_strchr s c (p + 1)
       else Some (Running None))"

text \<open>\<open>p\<close> and \<open>end\<close> are places in \<open>s\<close>.\<close>

partial_function (option) funge_memchr :: "cell list \<Rightarrow> cell \<Rightarrow> nat \<Rightarrow> nat \<Rightarrow> nat option result option" where
  "funge_memchr s c end p =
     (if p < end then fetch s p (\<lambda>a. if a = c then Some (Running (Some p)) else funge_memchr s c end (p + 1))
      else Some (Running None))"

section \<open>The critical factorization\<close>

text \<open>
  The two loops of \<open>critical_factorization\<close> differ in the direction of the comparison \<open>lt\<close> only. \<open>max_suffix\<close> begins with
  \<open>SIZE_MAX\<close>, which is -1 in the sums it is used in.
\<close>

partial_function (option) max_suffix_loop ::
    "(cell \<Rightarrow> cell \<Rightarrow> bool) \<Rightarrow> cell list \<Rightarrow> int \<Rightarrow> nat \<Rightarrow> nat \<Rightarrow> nat \<Rightarrow> (int \<times> nat) result option" where
  "max_suffix_loop lt needle max_suffix j k p =
     (if j + k < length needle then
        fetch needle (j + k) (\<lambda>a. fetch needle (nat (max_suffix + int k)) (\<lambda>b.
          if lt a b then max_suffix_loop lt needle max_suffix (j + k) 1 (nat (int (j + k) - max_suffix))
          else if a = b then
            if k \<noteq> p then max_suffix_loop lt needle max_suffix j (k + 1) p
            else max_suffix_loop lt needle max_suffix (j + p) 1 p
          else max_suffix_loop lt needle (int j) (j + 1) 1 1))
      else Some (Running (max_suffix, p)))"

definition critical_factorization :: "cell list \<Rightarrow> (nat \<times> nat) result option" where
  "critical_factorization needle =
     bind_run (max_suffix_loop (<) needle (- 1) 0 1 1) (\<lambda>(max_suffix, period).
       bind_run (max_suffix_loop (\<lambda>a b. b < a) needle (- 1) 0 1 1) (\<lambda>(max_suffix_rev, p).
         if max_suffix_rev + 1 < max_suffix + 1 then Some (Running (nat (max_suffix + 1), period))
         else Some (Running (nat (max_suffix_rev + 1), p))))"

section \<open>The search\<close>

text \<open>
  \<open>AVAILABLE\<close>: that the haystack has \<open>n_l\<close> cells from \<open>j\<close> on, and the length that is known then. The difference of the lengths
  is unsigned and must not be negative.
\<close>

definition AVAILABLE :: "cell list \<Rightarrow> nat \<Rightarrow> nat \<Rightarrow> nat \<Rightarrow> (bool \<times> nat) result option" where
  "AVAILABLE h h_l j n_l =
     (if j + n_l < h_l then Some Crashed
      else bind_run (funge_memchr h 0 (j + n_l) h_l) (\<lambda>r.
        case r of None \<Rightarrow> Some (Running (j + n_l \<noteq> 0, j + n_l)) | Some _ \<Rightarrow> Some (Running (False, h_l))))"

text \<open>The scans of the two halves: where they stop, and the cell of the haystack that was read last. \<open>i1\<close> is \<open>i + 1\<close>, which does not wrap.\<close>

partial_function (option) scan_right ::
    "cell list \<Rightarrow> cell list \<Rightarrow> nat \<Rightarrow> nat \<Rightarrow> cell \<Rightarrow> (nat \<times> cell) result option" where
  "scan_right needle h j i c =
     (if i < length needle then
        fetch needle i (\<lambda>a. fetch h (i + j) (\<lambda>c. if a = c then scan_right needle h j (i + 1) c else Some (Running (i, c))))
      else Some (Running (i, c)))"

partial_function (option) scan_left ::
    "cell list \<Rightarrow> cell list \<Rightarrow> nat \<Rightarrow> nat \<Rightarrow> nat \<Rightarrow> cell \<Rightarrow> (nat \<times> cell) result option" where
  "scan_left needle h j memory i1 c =
     (if memory < i1 then
        fetch needle (i1 - 1) (\<lambda>a. fetch h (i1 - 1 + j) (\<lambda>c.
          if a = c then scan_left needle h j memory (i1 - 1) c else Some (Running (i1, c))))
      else Some (Running (i1, c)))"

text \<open>The loop for a needle that is periodic, with the number of letters that are known to match.\<close>

partial_function (option) periodic_loop ::
    "cell list \<Rightarrow> nat \<Rightarrow> nat \<Rightarrow> cell list \<Rightarrow> nat \<Rightarrow> nat \<Rightarrow> nat \<Rightarrow> nat option result option" where
  "periodic_loop needle suffix period h h_l j memory =
     bind_run (AVAILABLE h h_l j (length needle)) (\<lambda>(available, h_l).
       if \<not> available then Some (Running None)
       else bind_run (scan_right needle h j (max suffix memory) 0) (\<lambda>(i, _).
         if length needle \<le> i then
           bind_run (scan_left needle h j memory suffix 0) (\<lambda>(i1, _).
             if i1 < memory + 1 then Some (Running (Some j))
             else periodic_loop needle suffix period h h_l (j + period) (length needle - period))
         else periodic_loop needle suffix period h h_l (j + (i - suffix + 1)) 0))"

text \<open>
  The loop for the other needles, which goes to the next place where the first letter of the right half is; \<open>ph\<close> is the place of
  \<open>phaystack\<close>. The comparison at that place either gives the result or the next place of the window.
\<close>

definition distinct_window ::
    "cell list \<Rightarrow> nat \<Rightarrow> nat \<Rightarrow> cell list \<Rightarrow> nat \<Rightarrow> cell \<Rightarrow> (nat option + nat) result option" where
  "distinct_window needle suffix period h j c =
     bind_run (scan_right needle h j (suffix + 1) c) (\<lambda>(i, c).
       if i < length needle then Some (Running (if c = 0 then Inl None else Inr (j + (i - suffix + 1))))
       else bind_run (scan_left needle h j 0 suffix c) (\<lambda>(i1, c).
         Some (Running (if i1 = 0 then Inl (Some j) else if c = 0 then Inl None else Inr (j + period)))))"

partial_function (option) distinct_loop ::
    "cell list \<Rightarrow> nat \<Rightarrow> nat \<Rightarrow> cell list \<Rightarrow> nat \<Rightarrow> nat \<Rightarrow> nat option result option" where
  "distinct_loop needle suffix period h h_l ph =
     fetch needle suffix (\<lambda>needle_suffix. fetch h ph (\<lambda>c.
       if needle_suffix \<noteq> c then
         if c = 0 then Some (Running None) else distinct_loop needle suffix period h h_l (ph + 1)
       else bind_run (distinct_window needle suffix period h (ph - suffix) c) (\<lambda>r. case r of
         Inl r \<Rightarrow> Some (Running r)
       | Inr j \<Rightarrow>
           bind_run (AVAILABLE h h_l j (length needle)) (\<lambda>(available, h_l).
             if \<not> available then Some (Running None)
             else distinct_loop needle suffix period h h_l (suffix + j)))))"

text \<open>\<open>memcmp\<close> of two parts of the needle that do not leave it.\<close>

definition same_parts :: "cell list \<Rightarrow> nat \<Rightarrow> nat \<Rightarrow> bool result option" where
  "same_parts needle period suffix =
     (if length needle + 1 < period + suffix then Some Crashed
      else Some (Running (take suffix (needle @ [0]) = take suffix (drop period (needle @ [0])))))"

definition two_way_short_needle :: "cell list \<Rightarrow> nat \<Rightarrow> cell list \<Rightarrow> nat option result option" where
  "two_way_short_needle h h_l needle =
     bind_run (critical_factorization needle) (\<lambda>(suffix, period).
       bind_run (same_parts needle period suffix) (\<lambda>periodic.
         if periodic then periodic_loop needle suffix period h h_l 0 0
         else if h_l < suffix + 1 then
           bind_run (AVAILABLE h h_l 0 (suffix + 1)) (\<lambda>(available, h_l).
             if \<not> available then Some (Running None)
             else distinct_loop needle suffix (max suffix (length needle - suffix) + 1) h h_l suffix)
         else distinct_loop needle suffix (max suffix (length needle - suffix) + 1) h h_l suffix))"

section \<open>funge\_strstr\<close>

text \<open>The first loop: how far both strings go, and whether they have been the same.\<close>

partial_function (option) prefix_loop :: "cell list \<Rightarrow> cell list \<Rightarrow> nat \<Rightarrow> bool \<Rightarrow> (nat \<times> bool) result option" where
  "prefix_loop h needle i okay =
     fetch h i (\<lambda>a.
       if a = 0 then Some (Running (i, okay))
       else fetch needle i (\<lambda>b. if b = 0 then Some (Running (i, okay)) else prefix_loop h needle (i + 1) (okay \<and> a = b)))"

definition funge_strstr :: "cell list \<Rightarrow> cell list \<Rightarrow> nat option result option" where
  "funge_strstr h needle =
     bind_run (prefix_loop h needle 0 True) (\<lambda>(i, okay).
       fetch needle i (\<lambda>c.
         if c \<noteq> 0 then Some (Running None)
         else if okay then Some (Running (Some 0))
         else fetch needle 0 (\<lambda>first.
           bind_run (funge_strchr h first 1) (\<lambda>q. case q of
             None \<Rightarrow> Some (Running None)
           | Some q \<Rightarrow>
               if i = 1 then Some (Running (Some q))
               else bind_run (two_way_short_needle (drop q h) (if q > i then 1 else i - q) needle) (\<lambda>r.
                 Some (Running (map_option (\<lambda>j. q + j) r)))))))"

section \<open>The factorization is critical\<close>

interpretation cell_order: two_orders "(<) :: cell \<Rightarrow> cell \<Rightarrow> bool" "\<lambda>a b. b < a"
  by unfold_locales auto

interpretation reverse_cell_order: two_orders "\<lambda>a b :: cell. b < a" "(<)"
  by unfold_locales auto

lemma fetch_inside [simp]: "i < length s \<Longrightarrow> fetch s i f = f (s ! i)"
  by (simp add: fetch_def)

lemma fetch_end [simp]: "length s = i \<Longrightarrow> fetch s i f = f 0"
  by (simp add: fetch_def)

lemma bind_run_returns [simp]: "bind_run (Some (Running s)) f = f s"
  by (simp add: bind_run_def)

definition half_found :: "(cell \<Rightarrow> cell \<Rightarrow> bool) \<Rightarrow> cell list \<Rightarrow> nat \<Rightarrow> nat \<Rightarrow> bool" where
  "half_found lt x l p \<longleftrightarrow> maximal_suffix lt x l \<and> unbordered x l p \<and> period_from x l p \<and> 1 \<le> p \<and> l + p \<le> length x"

lemma max_suffix_loop_returns:
  fixes lt :: "cell \<Rightarrow> cell \<Rightarrow> bool"
  assumes lt: "letter_order lt" and scan: "suffix_scan lt x i j k p"
  shows "\<exists>l p'. max_suffix_loop lt x (int i - 1) j k p = Some (Running (int l - 1, p')) \<and> half_found lt x l p'"
  using scan
proof (induction "2 * length x - (i + j + k)" arbitrary: i j k p rule: less_induct)
  case less
  note scan = less.prems
  obtain m where kp: "1 \<le> k" "k \<le> p" "1 \<le> m" "j + 1 = i + m * p" "j + k \<le> length x"
    using scan by (auto simp: suffix_scan_def)
  have "1 * p \<le> m * p" using kp(3) by (rule mult_le_mono1)
  with kp have ik: "i + k \<le> j + 1" "i \<le> j + 1" by linarith+
  show ?case
  proof (cases "j + k < length x")
    case False
    then show ?thesis
      using letter_order.suffix_scan_done [OF lt scan]
      by (subst max_suffix_loop.simps) (auto simp: half_found_def intro!: exI [of _ i])
  next
    case True
    let ?a = "x ! (j + k)" and ?b = "x ! (i + k - 1)"
    have place: "nat (int i - 1 + int k) = i + k - 1" using kp(1) by simp
    have next_period: "nat (int j + int k - (int i - 1)) = j + k + 1 - i" using ik(2) by linarith
    have inside: "i + k - 1 < length x" using ik(1) kp(1) True by simp
    have unfold: "max_suffix_loop lt x (int i - 1) j k p =
        (if lt ?a ?b then max_suffix_loop lt x (int i - 1) (j + k) 1 (j + k + 1 - i)
         else if ?a = ?b then
           if k \<noteq> p then max_suffix_loop lt x (int i - 1) j (k + 1) p else max_suffix_loop lt x (int i - 1) (j + p) 1 p
         else max_suffix_loop lt x (int (j + 1) - 1) (j + 1) 1 1)"
      using True inside by (subst max_suffix_loop.simps) (simp add: place next_period)
    consider "lt ?a ?b" | "\<not> lt ?a ?b" "?a = ?b" "k \<noteq> p" | "\<not> lt ?a ?b" "?a = ?b" "k = p" | "\<not> lt ?a ?b" "?a \<noteq> ?b" by blast
    then show ?thesis
    proof cases
      case 1
      have "suffix_scan lt x i (j + k) 1 (j + k + 1 - i)" by (rule letter_order.suffix_scan_less [OF lt scan True 1])
      from less.hyps [OF _ this] show ?thesis using 1 True ik by (simp add: unfold)
    next
      case 2
      from less.hyps [OF _ letter_order.suffix_scan_step(1) [OF lt scan True 2(2,3)]] show ?thesis
        using 2 True ik by (simp add: unfold)
    next
      case 3
      from less.hyps [OF _ letter_order.suffix_scan_step(2) [OF lt scan True 3(2,3)]] show ?thesis
        unfolding unfold using 3 True ik kp by simp
    next
      case 4
      then have "lt ?b ?a" using letter_order.total [OF lt] by blast
      from less.hyps [OF _ letter_order.suffix_scan_greater [OF lt scan True this]] show ?thesis
        using 4 True ik by (simp add: unfold)
    qed
  qed
qed

text \<open>What the search needs to know of the factorization.\<close>

definition factorized :: "cell list \<Rightarrow> nat \<Rightarrow> nat \<Rightarrow> bool" where
  "factorized x l p \<longleftrightarrow> critical x l \<and> l < least_period x \<and> l < length x \<and>
     unbordered x l p \<and> period_from x l p \<and> 1 \<le> p \<and> l + p \<le> length x"

lemma critical_factorization_correct:
  assumes "x \<noteq> []"
  shows "\<exists>l p. critical_factorization x = Some (Running (l, p)) \<and> factorized x l p"
proof -
  have orders: "letter_order ((<) :: cell \<Rightarrow> cell \<Rightarrow> bool)" "letter_order (\<lambda>a b :: cell. b < a)"
    by unfold_locales auto
  obtain l p where l: "max_suffix_loop (<) x (- 1) 0 1 1 = Some (Running (int l - 1, p))" "half_found (<) x l p"
    using max_suffix_loop_returns [OF orders(1) suffix_scan_start [OF assms]] by auto
  obtain l' p' where l': "max_suffix_loop (\<lambda>a b. b < a) x (- 1) 0 1 1 = Some (Running (int l' - 1, p'))"
    "half_found (\<lambda>a b. b < a) x l' p'"
    using max_suffix_loop_returns [OF orders(2) suffix_scan_start [OF assms]] by auto
  have rep: "repetition x n (least_period x)" for n
    using least_period [OF assms] by (rule period_repetition)
  show ?thesis
  proof (cases "l' < l")
    case True
    then have "critical x l"
      using cell_order.shorter_suffix_critical l(2) l'(2) by (auto simp: half_found_def)
    moreover have "l < least_period x"
      using cell_order.repetition_long [OF _ rep] l(2) by (simp add: half_found_def)
    ultimately show ?thesis
      using True l l' by (simp add: critical_factorization_def factorized_def half_found_def maximal_suffix_def)
  next
    case False
    then have "critical x l'"
      using reverse_cell_order.shorter_suffix_critical l(2) l'(2) by (auto simp: half_found_def)
    moreover have "l' < least_period x"
      using cell_order.reverse.repetition_long [OF _ rep] l'(2) by (simp add: half_found_def)
    ultimately show ?thesis
      using False l l' by (simp add: critical_factorization_def factorized_def half_found_def maximal_suffix_def)
  qed
qed

section \<open>What is searched for\<close>

definition first_occurrence :: "cell list \<Rightarrow> cell list \<Rightarrow> nat option" where
  "first_occurrence x h = find (occurs_at x h) [0..<length h + 1]"

lemma first_occurrence_Some:
  assumes "occurs_at x h j" "\<forall>s < j. \<not> occurs_at x h s"
  shows "first_occurrence x h = Some j"
proof -
  have "j < length h + 1" using assms(1) by (simp add: occurs_at_def)
  then have split: "[0..<length h + 1] = [0..<j] @ j # [j + 1..<length h + 1]"
    by (metis less_eq_nat.simps(1) upt_add_eq_append upt_conv_Cons le_add_diff_inverse less_or_eq_imp_le Suc_eq_plus1)
  have "find (occurs_at x h) ([0..<j] @ rest) = find (occurs_at x h) rest" for rest
    using assms(2) by (induction j arbitrary: rest) auto
  then show ?thesis using assms(1) unfolding first_occurrence_def split by simp
qed

lemma occurs_at_take: "occurs_at x h j \<longleftrightarrow> j \<le> length h \<and> take (length x) (drop j h) = x"
  by (auto simp: occurs_at_def list_eq_iff_nth_eq min_def)

lemma first_occurrence_None: "\<forall>s. \<not> occurs_at x h s \<Longrightarrow> first_occurrence x h = None"
  by (simp add: first_occurrence_def find_None_iff)

lemma first_occurrence_is:
  "case first_occurrence x h of None \<Rightarrow> \<forall>j. \<not> occurs_at x h j
   | Some j \<Rightarrow> occurs_at x h j \<and> (\<forall>s < j. \<not> occurs_at x h s)"
proof (cases "\<exists>j. occurs_at x h j")
  case True
  define j where "j = (LEAST j. occurs_at x h j)"
  have "occurs_at x h j" using True unfolding j_def by (rule LeastI_ex)
  moreover have "\<forall>s < j. \<not> occurs_at x h s" using not_less_Least unfolding j_def by blast
  ultimately show ?thesis by (simp add: first_occurrence_Some)
next
  case False
  then show ?thesis by (simp add: first_occurrence_None)
qed

text \<open>With no occurrence in front of \<open>j\<close> and no room for one from there on.\<close>

lemma first_occurrence_no_room:
  assumes "\<forall>s < j. \<not> occurs_at x h s" "length h < j + length x"
  shows "first_occurrence x h = None"
proof (rule first_occurrence_None, intro allI notI)
  fix s assume occ: "occurs_at x h s"
  then have "j \<le> s" using assms(1) by (meson not_le)
  then show False using occ assms(2) by (simp add: occurs_at_def)
qed

lemma no_occurrence_add:
  assumes "\<forall>s < j. \<not> occurs_at x h s" "\<not> occurs_at x h j" "\<And>s. 1 \<le> s \<Longrightarrow> s < d \<Longrightarrow> \<not> occurs_at x h (j + s)"
  shows "\<forall>s < j + d. \<not> occurs_at x h s"
proof (intro allI impI)
  fix s assume s: "s < j + d"
  consider "s < j" | "s = j" | "1 \<le> s - j" "s - j < d" "s = j + (s - j)" using s by linarith
  then show "\<not> occurs_at x h s" using assms by cases metis+
qed

lemma first_occurrence_drop:
  assumes "\<forall>s < q. \<not> occurs_at x h s" "q \<le> length h"
  shows "first_occurrence x h = map_option (\<lambda>j. q + j) (first_occurrence x (drop q h))"
proof -
  have occ: "occurs_at x (drop q h) j \<longleftrightarrow> occurs_at x h (q + j)" for j
    using assms(2) by (auto simp: occurs_at_def add.assoc)
  show ?thesis
  proof (cases "\<exists>j. occurs_at x h (q + j)")
    case True
    define j where "j = (LEAST j. occurs_at x h (q + j))"
    have j: "occurs_at x h (q + j)" using True unfolding j_def by (rule LeastI_ex)
    have least: "\<not> occurs_at x h (q + s)" if "s < j" for s using that not_less_Least unfolding j_def by blast
    have "\<forall>s < q + j. \<not> occurs_at x h s"
    proof (intro allI impI)
      fix s assume "s < q + j"
      then show "\<not> occurs_at x h s" using assms(1) least [of "s - q"] by (cases "s < q") auto
    qed
    then show ?thesis
      using first_occurrence_Some [OF j] first_occurrence_Some [of x "drop q h" j] occ j least by simp
  next
    case False
    have "\<forall>s. \<not> occurs_at x h s"
    proof
      fix s show "\<not> occurs_at x h s" using assms(1) False by (cases "s < q") (auto dest: spec [of _ "s - q"])
    qed
    then show ?thesis using first_occurrence_None [of x h] first_occurrence_None [of x "drop q h"] occ by simp
  qed
qed

section \<open>The parts of the search\<close>

lemma funge_memchr_zero:
  "0 \<notin> set h \<Longrightarrow> p \<le> length h \<Longrightarrow>
     funge_memchr h 0 end p = Some (Running (if end \<le> length h then None else Some (length h)))"
proof (induction "length h - p" arbitrary: p)
  case 0
  then show ?case by (subst funge_memchr.simps) auto
next
  case (Suc n)
  then have "h ! p \<noteq> 0" by (metis nth_mem zero_less_Suc zero_less_diff)
  then show ?case using Suc by (subst funge_memchr.simps) auto
qed

lemma AVAILABLE_returns:
  "0 \<notin> set h \<Longrightarrow> h_l \<le> length h \<Longrightarrow> h_l \<le> j + n \<Longrightarrow> 0 < n \<Longrightarrow>
     AVAILABLE h h_l j n = Some (Running (if j + n \<le> length h then (True, j + n) else (False, h_l)))"
  by (simp add: AVAILABLE_def funge_memchr_zero)

text \<open>The letters from \<open>i\<close> to \<open>i'\<close> match, and the one at \<open>i'\<close>, if the needle has one, does not.\<close>

lemma scan_right_returns:
  assumes "0 \<notin> set x" "i \<le> length x" "i + j \<le> length h"
  shows "\<exists>i' c'. scan_right x h j i c = Some (Running (i', c')) \<and> i \<le> i' \<and> i' \<le> length x \<and> i' + j \<le> length h \<and>
    (\<forall>t. i \<le> t \<longrightarrow> t < i' \<longrightarrow> h ! (j + t) = x ! t) \<and>
    (i' < length x \<longrightarrow> (if j + i' < length h then c' = h ! (j + i') \<and> c' \<noteq> x ! i' else c' = 0))"
  using assms(2,3)
proof (induction "length x - i" arbitrary: i c)
  case 0
  then show ?case by (subst scan_right.simps) auto
next
  case (Suc n)
  then have i: "i < length x" by simp
  have "x ! i \<noteq> 0" using assms(1) i by (metis nth_mem)
  show ?case
  proof (cases "i + j < length h \<and> x ! i = h ! (i + j)")
    case True
    then have "scan_right x h j i c = scan_right x h j (i + 1) (h ! (i + j))"
      using i by (subst scan_right.simps) simp
    moreover obtain i' c' where "scan_right x h j (i + 1) (h ! (i + j)) = Some (Running (i', c'))" "i + 1 \<le> i'" "i' \<le> length x"
      "i' + j \<le> length h" "\<forall>t. i + 1 \<le> t \<longrightarrow> t < i' \<longrightarrow> h ! (j + t) = x ! t"
      "i' < length x \<longrightarrow> (if j + i' < length h then c' = h ! (j + i') \<and> c' \<noteq> x ! i' else c' = 0)"
    proof -
      have "n = length x - (i + 1)" "i + 1 \<le> length x" "i + 1 + j \<le> length h" using Suc.hyps(2) i True by simp_all
      then show thesis using Suc.hyps(1) [of "i + 1" "h ! (i + j)"] that by blast
    qed
    moreover have "h ! (j + t) = x ! t" if "i \<le> t" "t < i'" for t
      using that calculation(6) True by (cases "t = i") (auto simp: add.commute [of i j])
    ultimately show ?thesis by auto
  next
    case False
    then have "scan_right x h j i c = Some (Running (i, if i + j < length h then h ! (i + j) else 0))"
      using i \<open>x ! i \<noteq> 0\<close> Suc(4) by (subst scan_right.simps) (auto simp: fetch_def)
    then show ?thesis using False Suc(4) i by (auto simp: add.commute)
  qed
qed

lemma scan_left_returns:
  assumes "i1 \<le> length x" "i1 + j \<le> length h"
  shows "\<exists>i' c'. scan_left x h j memory i1 c = Some (Running (i', c')) \<and> i' \<le> i1 \<and> (memory \<le> i1 \<longrightarrow> memory \<le> i') \<and>
    (\<forall>t. i' \<le> t \<longrightarrow> t < i1 \<longrightarrow> h ! (j + t) = x ! t) \<and>
    (memory < i' \<longrightarrow> c' = h ! (j + (i' - 1)) \<and> c' \<noteq> x ! (i' - 1))"
  using assms
proof (induction i1 arbitrary: c)
  case 0
  then show ?case by (subst scan_left.simps) auto
next
  case (Suc i1)
  show ?case
  proof (cases "memory < Suc i1 \<and> x ! i1 = h ! (i1 + j)")
    case True
    then have "scan_left x h j memory (Suc i1) c = scan_left x h j memory i1 (h ! (i1 + j))"
      using Suc(2,3) by (subst scan_left.simps) simp
    moreover obtain i' c' where "scan_left x h j memory i1 (h ! (i1 + j)) = Some (Running (i', c'))" "i' \<le> i1"
      "memory \<le> i1 \<longrightarrow> memory \<le> i'" "\<forall>t. i' \<le> t \<longrightarrow> t < i1 \<longrightarrow> h ! (j + t) = x ! t"
      "memory < i' \<longrightarrow> c' = h ! (j + (i' - 1)) \<and> c' \<noteq> x ! (i' - 1)"
      using Suc.IH [of "h ! (i1 + j)"] Suc(2,3) by auto
    moreover have "h ! (j + t) = x ! t" if "i' \<le> t" "t < Suc i1" for t
      using that calculation(5) True by (cases "t = i1") (auto simp: add.commute [of i1 j])
    ultimately show ?thesis using True by auto
  next
    case False
    then have "scan_left x h j memory (Suc i1) c = Some (Running (Suc i1, if memory < Suc i1 then h ! (i1 + j) else c))"
      using Suc(2,3) by (subst scan_left.simps) auto
    then show ?thesis using False Suc(2,3) by (auto simp: add.commute)
  qed
qed

section \<open>The two loops\<close>

lemma right_mismatch:
  assumes fact: "factorized x l p" and none: "\<forall>s < j. \<not> occurs_at x h s"
    and match: "\<forall>t. l \<le> t \<longrightarrow> t < i \<longrightarrow> h ! (j + t) = x ! t" and miss: "h ! (j + i) \<noteq> x ! i" "l \<le> i" "i < length x"
  shows "\<forall>s < j + (i - l + 1). \<not> occurs_at x h s"
proof (rule no_occurrence_add [OF none])
  show "\<not> occurs_at x h j" using occurs_atD [of x h j i] miss(1,3) by blast
  show "\<not> occurs_at x h (j + s)" if "1 \<le> s" "s < i - l + 1" for s
    by (rule right_shift_safe [of x l i h j]) (use fact match miss that in \<open>auto simp: factorized_def\<close>)
qed

lemma left_mismatch:
  assumes fact: "factorized x l p" and none: "\<forall>s < j. \<not> occurs_at x h s"
    and match: "\<forall>t. l \<le> t \<longrightarrow> t < length x \<longrightarrow> h ! (j + t) = x ! t" and miss: "h ! (j + i) \<noteq> x ! i" "i < length x"
    and d: "d \<le> least_period x"
  shows "\<forall>s < j + d. \<not> occurs_at x h s"
proof (rule no_occurrence_add [OF none])
  show "\<not> occurs_at x h j" using occurs_atD [of x h j i] miss by blast
  show "\<not> occurs_at x h (j + s)" if "1 \<le> s" "s < d" for s
    by (rule left_shift_safe [of x l h j]) (use fact match d that in \<open>auto simp: factorized_def\<close>)
qed

lemma whole_match:
  "j + length x \<le> length h \<Longrightarrow> \<forall>t < i. h ! (j + t) = x ! t \<Longrightarrow> \<forall>t. i \<le> t \<longrightarrow> t < length x \<longrightarrow> h ! (j + t) = x ! t \<Longrightarrow>
     occurs_at x h j"
  unfolding occurs_at_def by (meson not_le)

lemma periodic_loop_correct:
  assumes x: "0 \<notin> set x" "0 \<notin> set h" and fact: "factorized x l p" and p: "has_period x p"
  shows "\<forall>s < j. \<not> occurs_at x h s \<Longrightarrow> h_l \<le> length h \<Longrightarrow> h_l \<le> j + length x \<Longrightarrow> memory < length x \<Longrightarrow>
    (j + length x \<le> length h \<Longrightarrow> \<forall>t < memory. h ! (j + t) = x ! t) \<Longrightarrow>
    periodic_loop x l p h h_l j memory = Some (Running (first_occurrence x h))"
proof (induction "length h + 1 - j" arbitrary: j h_l memory rule: less_induct)
  case less
  note none = less.prems(1)
  have n: "0 < length x" using less.prems(4) by linarith
  have lp: "l < length x" "1 \<le> p" "l + p \<le> length x" and crit: "critical x l" "l < least_period x"
    using fact by (auto simp: factorized_def)
  have least: "least_period x = p"
    using least_period_le [OF p] unbordered_least [of x l p "least_period x"] least_period [of x] fact n
    by (force simp: factorized_def)
  note unfold = periodic_loop.simps [of x l p h h_l j memory]
  note available = AVAILABLE_returns [OF x(2) less.prems(2,3) n]
  show ?case
  proof (cases "j + length x \<le> length h")
    case False
    then show ?thesis using first_occurrence_no_room [OF none] by (simp add: unfold available)
  next
    case room: True
    then have mem: "\<forall>t < memory. h ! (j + t) = x ! t" using less.prems(5) by simp
    have "max l memory \<le> length x" "max l memory + j \<le> length h" using lp less.prems(4) room by simp_all
    from scan_right_returns [OF x(1) this, of 0] obtain i c where
      scan: "scan_right x h j (max l memory) 0 = Some (Running (i, c))" and i: "max l memory \<le> i" "i \<le> length x"
      and match: "\<forall>t. max l memory \<le> t \<longrightarrow> t < i \<longrightarrow> h ! (j + t) = x ! t"
      and stop: "i < length x \<longrightarrow> (if j + i < length h then c = h ! (j + i) \<and> c \<noteq> x ! i else c = 0)"
      by blast
    have right: "\<forall>t. l \<le> t \<longrightarrow> t < i \<longrightarrow> h ! (j + t) = x ! t"
      using match mem by (metis max.boundedI not_le)
    show ?thesis
    proof (cases "i < length x")
      case True
      then have "h ! (j + i) \<noteq> x ! i" using stop room by auto
      then have "\<forall>s < j + (i - l + 1). \<not> occurs_at x h s"
        using right_mismatch [OF fact none right] i True by simp
      from less.hyps [OF _ this, of "j + length x" 0] show ?thesis
        using True room n by (simp add: unfold available scan)
    next
      case False
      then have ix: "i = length x" using i(2) by simp
      have "l \<le> length x" "l + j \<le> length h" using lp room by simp_all
      from scan_left_returns [OF this, of memory 0] obtain i1 c1 where
        left: "scan_left x h j memory l 0 = Some (Running (i1, c1))" "i1 \<le> l"
        "\<forall>t. i1 \<le> t \<longrightarrow> t < l \<longrightarrow> h ! (j + t) = x ! t" "memory < i1 \<longrightarrow> c1 = h ! (j + (i1 - 1)) \<and> c1 \<noteq> x ! (i1 - 1)"
        by blast
      show ?thesis
      proof (cases "i1 < memory + 1")
        case True
        have "\<forall>t < l. h ! (j + t) = x ! t" using True left(3) mem by (metis not_le less_Suc_eq_le Suc_eq_plus1 le_trans)
        then have "occurs_at x h j" using whole_match [OF room] right ix by blast
        then show ?thesis using True first_occurrence_Some [OF _ none] by (simp add: unfold available room scan ix left(1))
      next
        case no: False
        then have miss: "h ! (j + (i1 - 1)) \<noteq> x ! (i1 - 1)" "i1 - 1 < length x" using left(2,4) lp by auto
        then have shifted: "\<forall>s < j + p. \<not> occurs_at x h s"
          using left_mismatch [OF fact none _ miss, of p] right ix least by simp
        have known: "\<forall>t < length x - p. h ! (j + p + t) = x ! t"
        proof (intro allI impI)
          fix t assume t: "t < length x - p"
          then have "h ! (j + (p + t)) = x ! (p + t)" using right ix crit(2) least by simp
          also have "... = x ! t" using p t by (simp add: has_period_def add.commute)
          finally show "h ! (j + p + t) = x ! t" by (simp add: add.assoc)
        qed
        from less.hyps [OF _ shifted, of "j + length x" "length x - p"] show ?thesis
          using no room n lp known by (simp add: unfold available scan ix left(1))
      qed
    qed
  qed
qed

lemma distinct_window_correct:
  assumes x: "0 \<notin> set x" "0 \<notin> set h" and fact: "factorized x l p" and q: "q \<le> least_period x" "0 < q"
    and none: "\<forall>s < j. \<not> occurs_at x h s" and first: "h ! (j + l) = x ! l" "j + l < length h"
  shows "\<exists>r. distinct_window x l q h j c = Some (Running r) \<and>
    (case r of Inl r \<Rightarrow> r = first_occurrence x h | Inr j' \<Rightarrow> j < j' \<and> (\<forall>s < j'. \<not> occurs_at x h s))"
proof -
  have lp: "l < length x" using fact by (simp add: factorized_def)
  have "l + 1 \<le> length x" "l + 1 + j \<le> length h" using lp first(2) by simp_all
  from scan_right_returns [OF x(1) this, of c] obtain i c1 where
    scan: "scan_right x h j (Suc l) c = Some (Running (i, c1))" and i: "l + 1 \<le> i" "i \<le> length x" "i + j \<le> length h"
    and match: "\<forall>t. l + 1 \<le> t \<longrightarrow> t < i \<longrightarrow> h ! (j + t) = x ! t"
    and stop: "i < length x \<longrightarrow> (if j + i < length h then c1 = h ! (j + i) \<and> c1 \<noteq> x ! i else c1 = 0)"
    unfolding Suc_eq_plus1 by blast
  have right: "\<forall>t. l \<le> t \<longrightarrow> t < i \<longrightarrow> h ! (j + t) = x ! t"
    using match first(1) by (metis Suc_eq_plus1 le_antisym not_less_eq_eq)
  show ?thesis
  proof (cases "i < length x")
    case True
    show ?thesis
    proof (cases "j + i < length h")
      case False
      then show ?thesis
        using True stop first_occurrence_no_room [OF none] by (simp add: distinct_window_def scan)
    next
      case inside: True
      then have "c1 \<noteq> 0" using True stop x(2) by (metis nth_mem)
      moreover have "\<forall>s < j + (i - l + 1). \<not> occurs_at x h s"
        using right_mismatch [OF fact none right _ _ True] i True stop inside by (metis Suc_eq_plus1 Suc_leD)
      ultimately show ?thesis using True i by (simp add: distinct_window_def scan)
    qed
  next
    case False
    then have ix: "i = length x" using i(2) by simp
    have "l \<le> length x" "l + j \<le> length h" using lp first(2) by simp_all
    from scan_left_returns [OF this, of 0 c1] obtain i1 c2 where
      left: "scan_left x h j 0 l c1 = Some (Running (i1, c2))" "i1 \<le> l"
      "\<forall>t. i1 \<le> t \<longrightarrow> t < l \<longrightarrow> h ! (j + t) = x ! t" "0 < i1 \<longrightarrow> c2 = h ! (j + (i1 - 1)) \<and> c2 \<noteq> x ! (i1 - 1)"
      by blast
    show ?thesis
    proof (cases "i1 = 0")
      case True
      have "occurs_at x h j" by (rule whole_match [of _ _ _ l]) (use i ix left(3) True right in \<open>auto simp: add.commute\<close>)
      then show ?thesis using True first_occurrence_Some [OF _ none] by (simp add: distinct_window_def scan ix left(1))
    next
      case no: False
      then have miss: "h ! (j + (i1 - 1)) \<noteq> x ! (i1 - 1)" "i1 - 1 < length x" using left(2,4) lp by auto
      have "j + (i1 - 1) < length h" using no left(2) first(2) by simp
      then have "c2 \<noteq> 0" using no left(4) x(2) by (metis neq0_conv nth_mem)
      moreover have "\<forall>s < j + q. \<not> occurs_at x h s"
        using left_mismatch [OF fact none _ miss q(1)] right ix by simp
      ultimately show ?thesis using no q(2) by (simp add: distinct_window_def scan ix left(1))
    qed
  qed
qed

lemma distinct_loop_correct:
  assumes x: "0 \<notin> set x" "0 \<notin> set h" and fact: "factorized x l p" and q: "q \<le> least_period x" "0 < q"
  shows "\<forall>s < ph - l. \<not> occurs_at x h s \<Longrightarrow> l \<le> ph \<Longrightarrow> ph \<le> length h \<Longrightarrow> h_l \<le> length h \<Longrightarrow> h_l \<le> ph - l + length x \<Longrightarrow>
    distinct_loop x l q h h_l ph = Some (Running (first_occurrence x h))"
proof (induction "length h - ph" arbitrary: ph h_l rule: less_induct)
  case less
  note none = less.prems(1)
  have lp: "l < length x" using fact by (simp add: factorized_def)
  note unfold = distinct_loop.simps [of x l q h h_l ph]
  show ?case
  proof (cases "ph < length h")
    case False
    then have ph: "ph = length h" using less.prems(3) by simp
    have "x ! l \<noteq> 0" using x(1) lp by (metis nth_mem)
    moreover have "first_occurrence x h = None"
      by (rule first_occurrence_no_room [OF none]) (use ph lp less.prems(2) in simp)
    ultimately show ?thesis unfolding unfold using lp by (simp add: ph)
  next
    case inside: True
    have c: "h ! ph \<noteq> 0" using x(2) inside by (metis nth_mem)
    show ?thesis
    proof (cases "x ! l = h ! ph")
      case False
      have "\<not> occurs_at x h (ph - l)"
        using occurs_atD [of x h "ph - l" l] lp False less.prems(2) by auto
      then have "\<forall>s < ph + 1 - l. \<not> occurs_at x h s"
        using none less.prems(2) by (metis Suc_diff_le Suc_eq_plus1 less_Suc_eq)
      from less.hyps [OF _ this] show ?thesis using False c lp inside less.prems by (simp add: unfold)
    next
      case True
      have "h ! (ph - l + l) = x ! l" "ph - l + l < length h" using True inside less.prems(2) by simp_all
      from distinct_window_correct [OF x fact q none this, of "h ! ph"] obtain r where
        r: "distinct_window x l q h (ph - l) (h ! ph) = Some (Running r)"
        "case r of Inl r \<Rightarrow> r = first_occurrence x h | Inr j' \<Rightarrow> ph - l < j' \<and> (\<forall>s < j'. \<not> occurs_at x h s)"
        by blast
      show ?thesis
      proof (cases r)
        case (Inl a)
        then show ?thesis using r True lp inside by (simp add: unfold)
      next
        case (Inr j)
        then have j: "ph - l < j" "\<forall>s < j. \<not> occurs_at x h s" using r(2) by simp_all
        have "h_l \<le> j + length x" "0 < length x" using less.prems(5) j(1) lp by linarith+
        note available = AVAILABLE_returns [OF x(2) less.prems(4) this]
        show ?thesis
        proof (cases "j + length x \<le> length h")
          case no: False
          then show ?thesis
            using r(1) Inr True lp inside first_occurrence_no_room [OF j(2)] by (simp add: unfold available)
        next
          case room: True
          have "\<forall>s < l + j - l. \<not> occurs_at x h s" using j(2) by simp
          from less.hyps [OF _ this, of "j + length x"] show ?thesis
            using r(1) Inr True lp inside room j(1) less.prems(2) by (simp add: unfold available)
        qed
      qed
    qed
  qed
qed

section \<open>The whole search\<close>

text \<open>The comparison of two parts of the needle tells whether the period of its right half is one of the whole needle.\<close>

lemma same_parts_period:
  assumes fact: "factorized x l p"
  shows "same_parts x p l = Some (Running (has_period x p))"
proof -
  have lp: "l + p \<le> length x" "1 \<le> p" "period_from x l p" using fact by (simp_all add: factorized_def)
  have "take l (x @ [0]) = take l (drop p (x @ [0])) \<longleftrightarrow> (\<forall>t < l. x ! t = x ! (t + p))"
    using lp(1) by (auto simp: list_eq_iff_nth_eq nth_append add.commute)
  also have "... \<longleftrightarrow> has_period x p"
    using lp unfolding has_period_def period_from_def by (meson add_less_mono1 le_less_trans less_le_trans not_le)
  finally show ?thesis using lp(1) by (simp add: same_parts_def)
qed

lemma two_way_correct:
  assumes x: "0 \<notin> set x" "0 \<notin> set h" and "x \<noteq> []" and h_l: "h_l \<le> length h" "h_l \<le> length x"
  shows "two_way_short_needle h h_l x = Some (Running (first_occurrence x h))"
proof -
  obtain l p where lp: "critical_factorization x = Some (Running (l, p))" and fact: "factorized x l p"
    using critical_factorization_correct [OF \<open>x \<noteq> []\<close>] by blast
  show ?thesis
  proof (cases "has_period x p")
    case True
    have "periodic_loop x l p h h_l 0 0 = Some (Running (first_occurrence x h))"
      by (rule periodic_loop_correct [OF x fact True]) (use h_l \<open>x \<noteq> []\<close> in simp_all)
    then show ?thesis using True by (simp add: two_way_short_needle_def lp same_parts_period [OF fact])
  next
    case False
    let ?q = "max l (length x - l) + 1"
    have l: "l < length x" "l < least_period x" using fact by (simp_all add: factorized_def)
    have "length x - l < least_period x"
    proof (rule ccontr)
      assume "\<not> length x - l < least_period x"
      then have "l + least_period x \<le> length x" using l(1) by simp
      then show False
        using short_period [OF _ _ _ _ _ refl l(2)] fact False by (auto simp: factorized_def)
    qed
    then have q: "?q \<le> least_period x" "0 < ?q" using l(2) by simp_all
    have loop: "distinct_loop x l ?q h k l = Some (Running (first_occurrence x h))"
      if "l \<le> length h" "k \<le> length h" "k \<le> length x" for k
      by (rule distinct_loop_correct [OF x fact q]) (use that in simp_all)
    have available: "h_l < l + 1 \<Longrightarrow> AVAILABLE h h_l 0 (l + 1) =
        Some (Running (if l + 1 \<le> length h then (True, l + 1) else (False, h_l)))"
      using AVAILABLE_returns [OF x(2) h_l(1), of 0 "l + 1"] by simp
    have short: "length h < l + 1 \<Longrightarrow> first_occurrence x h = None"
      using first_occurrence_no_room [of 0 x h] l(1) by simp
    show ?thesis
    proof (cases "h_l < l + 1")
      case True
      then show ?thesis
        using False available loop [of "l + 1"] short l(1)
        by (simp add: two_way_short_needle_def lp same_parts_period [OF fact])
    next
      case long: False
      then show ?thesis
        using False loop [of h_l] h_l by (simp add: two_way_short_needle_def lp same_parts_period [OF fact])
    qed
  qed
qed

section \<open>The functions on strings\<close>

lemma funge_strlen_length: "0 \<notin> set s \<Longrightarrow> p \<le> length s \<Longrightarrow> funge_strlen s p = Some (Running (length s))"
proof (induction "length s - p" arbitrary: p)
  case 0
  then show ?case by (subst funge_strlen.simps) simp
next
  case (Suc n)
  then have "s ! p \<noteq> 0" by (metis nth_mem zero_less_Suc zero_less_diff)
  then show ?case using Suc by (subst funge_strlen.simps) simp
qed

text \<open>The first place from \<open>p\<close> on with the cell \<open>c\<close>.\<close>

lemma funge_strchr_first:
  assumes "0 \<notin> set s" "p \<le> length s"
  shows "\<exists>r. funge_strchr s c p = Some (Running r) \<and>
    (case r of None \<Rightarrow> \<forall>t. p \<le> t \<longrightarrow> t < length s \<longrightarrow> s ! t \<noteq> c
     | Some q \<Rightarrow> p \<le> q \<and> q < length s \<and> s ! q = c \<and> (\<forall>t. p \<le> t \<longrightarrow> t < q \<longrightarrow> s ! t \<noteq> c))"
  using assms(2)
proof (induction "length s - p" arbitrary: p)
  case 0
  then show ?case by (subst funge_strchr.simps) simp
next
  case (Suc n)
  then have p: "p < length s" by simp
  then have nz: "s ! p \<noteq> 0" using assms(1) by (metis nth_mem)
  show ?case
  proof (cases "s ! p = c")
    case True
    then show ?thesis using p nz by (subst funge_strchr.simps) auto
  next
    case False
    then have step: "funge_strchr s c p = funge_strchr s c (p + 1)" using p nz by (subst funge_strchr.simps) simp
    have "n = length s - (p + 1)" "p + 1 \<le> length s" using Suc.hyps(2) by simp_all
    from Suc.hyps(1) [OF this] obtain r where r: "funge_strchr s c (p + 1) = Some (Running r)"
      "case r of None \<Rightarrow> \<forall>t. p + 1 \<le> t \<longrightarrow> t < length s \<longrightarrow> s ! t \<noteq> c
       | Some q \<Rightarrow> p + 1 \<le> q \<and> q < length s \<and> s ! q = c \<and> (\<forall>t. p + 1 \<le> t \<longrightarrow> t < q \<longrightarrow> s ! t \<noteq> c)"
      by blast
    have earlier: "\<forall>t. p + 1 \<le> t \<longrightarrow> t < m \<longrightarrow> s ! t \<noteq> c \<Longrightarrow> \<forall>t. p \<le> t \<longrightarrow> t < m \<longrightarrow> s ! t \<noteq> c" for m
      using False by (metis Suc_eq_plus1 le_antisym not_less_eq_eq)
    show ?thesis
    proof (cases r)
      case None
      then show ?thesis using r earlier [of "length s"] by (simp add: step)
    next
      case (Some q)
      then show ?thesis using r earlier [of q] by (simp add: step)
    qed
  qed
qed

lemma prefix_loop_returns:
  assumes "0 \<notin> set h" "0 \<notin> set x" "i \<le> length h" "i \<le> length x"
  shows "prefix_loop h x i okay =
    (let n = min (length h) (length x) in Some (Running (n, okay \<and> (\<forall>t. i \<le> t \<longrightarrow> t < n \<longrightarrow> h ! t = x ! t))))"
  using assms(3,4)
proof (induction "min (length h) (length x) - i" arbitrary: i okay)
  case 0
  then have "i = length h \<or> i < length h \<and> i = length x" by auto
  then show ?case
  proof
    assume "i = length h"
    then show ?thesis using 0 by (subst prefix_loop.simps) (simp add: min_def Let_def)
  next
    assume i: "i < length h \<and> i = length x"
    then have "h ! i \<noteq> 0" using assms(1) by (metis nth_mem)
    then show ?thesis using i by (subst prefix_loop.simps) (simp add: min_def Let_def)
  qed
next
  case (Suc n)
  then have i: "i < length h" "i < length x" by auto
  then have "h ! i \<noteq> 0" "x ! i \<noteq> 0" using assms(1,2) by (metis nth_mem)+
  then have step: "prefix_loop h x i okay = prefix_loop h x (i + 1) (okay \<and> h ! i = x ! i)"
    using i by (subst prefix_loop.simps) simp
  have "n = min (length h) (length x) - (i + 1)" "i + 1 \<le> length h" "i + 1 \<le> length x" using Suc.hyps(2) i by auto
  note ih = Suc.hyps(1) [OF this, of "okay \<and> h ! i = x ! i"]
  have "(h ! i = x ! i \<and> (\<forall>t. i + 1 \<le> t \<longrightarrow> t < m \<longrightarrow> h ! t = x ! t)) \<longleftrightarrow> (\<forall>t. i \<le> t \<longrightarrow> t < m \<longrightarrow> h ! t = x ! t)"
    if "i < m" for m
    using that by (metis Suc_eq_plus1 le_antisym not_less_eq_eq order_refl le_SucI)
  from this [of "min (length h) (length x)"] i show ?case unfolding step ih Let_def by auto
qed

text \<open>
  \<open>funge_strstr\<close> finds the first occurrence. For any two strings the search ends, it does not read behind the end of either of
  them, and it gives the first place at which the needle is, or none if there is none.
\<close>

lemma funge_strstr_finds:
  assumes "0 \<notin> set h" "0 \<notin> set x"
  shows "funge_strstr h x = Some (Running (first_occurrence x h))"
proof (cases "length h < length x")
  case True
  then have "x ! length h \<noteq> 0" using assms(2) by (metis nth_mem)
  moreover have "first_occurrence x h = None" using first_occurrence_no_room [of 0 x h] True by simp
  ultimately show ?thesis
    using True by (simp add: funge_strstr_def prefix_loop_returns [OF assms] Let_def)
next
  case False
  have run: "prefix_loop h x 0 True = Some (Running (length x, \<forall>t < length x. h ! t = x ! t))"
    using False by (simp add: prefix_loop_returns [OF assms] Let_def)
  show ?thesis
  proof (cases "\<forall>t < length x. h ! t = x ! t")
    case True
    then have "occurs_at x h 0" using False by (simp add: occurs_at_def)
    then show ?thesis using True first_occurrence_Some [of x h 0] by (simp add: funge_strstr_def run)
  next
    case differ: False
    then have x: "x \<noteq> []" "1 \<le> length h" and zero: "\<not> occurs_at x h 0" using False by (auto simp: occurs_at_def Suc_le_eq)
    obtain r where r: "funge_strchr h (x ! 0) 1 = Some (Running r)"
      "case r of None \<Rightarrow> \<forall>t. 1 \<le> t \<longrightarrow> t < length h \<longrightarrow> h ! t \<noteq> x ! 0
       | Some q \<Rightarrow> 1 \<le> q \<and> q < length h \<and> h ! q = x ! 0 \<and> (\<forall>t. 1 \<le> t \<longrightarrow> t < q \<longrightarrow> h ! t \<noteq> x ! 0)"
      using funge_strchr_first [OF assms(1) x(2)] by blast
    have first: "occurs_at x h s \<Longrightarrow> h ! s = x ! 0 \<and> s < length h" for s
      using occurs_atD [of x h s 0] x(1) by (cases x) (auto simp: occurs_at_def)
    have unfold: "funge_strstr h x = (case r of None \<Rightarrow> Some (Running None)
        | Some q \<Rightarrow> if length x = 1 then Some (Running (Some q))
            else bind_run (two_way_short_needle (drop q h) (if q > length x then 1 else length x - q) x)
              (\<lambda>r. Some (Running (map_option (\<lambda>j. q + j) r))))"
    proof -
      have "prefix_loop h x 0 True = Some (Running (length x, False))" using run differ by simp
      then show ?thesis using x(1) r(1) [unfolded One_nat_def] by (cases r) (simp_all add: funge_strstr_def)
    qed
    have not_before: "\<not> occurs_at x h s" if "\<forall>t. 1 \<le> t \<longrightarrow> t < m \<longrightarrow> h ! t \<noteq> x ! 0" "s < m" for s m
      using that zero first [of s] by (cases "s = 0") auto
    show ?thesis
    proof (cases r)
      case None
      then have "\<forall>s. \<not> occurs_at x h s" using r(2) not_before [of "length h"] first by auto
      then show ?thesis using None by (simp add: unfold first_occurrence_None)
    next
      case (Some q)
      then have q: "1 \<le> q" "q < length h" "h ! q = x ! 0" "\<forall>t. 1 \<le> t \<longrightarrow> t < q \<longrightarrow> h ! t \<noteq> x ! 0" using r(2) by simp_all
      have none: "\<forall>s < q. \<not> occurs_at x h s" using not_before [OF q(4)] by blast
      show ?thesis
      proof (cases "length x = 1")
        case True
        then have "occurs_at x h q" using q by (simp add: occurs_at_def)
        then show ?thesis using True Some first_occurrence_Some [OF _ none] by (simp add: unfold)
      next
        case long: False
        have "two_way_short_needle (drop q h) (if q > length x then 1 else length x - q) x =
            Some (Running (first_occurrence x (drop q h)))"
          by (rule two_way_correct) (use assms x(1) q False in \<open>auto dest: in_set_dropD simp: Suc_le_eq\<close>)
        then show ?thesis using Some long first_occurrence_drop [OF none] q(2) by (simp add: unfold)
      qed
    qed
  qed
qed

text \<open>
  C22: \<open>funge_strstr\<close> finds the first occurrence. For any two strings the search ends, it does not read behind the end of either of
  them, and it gives the first place at which the needle is, or none if there is none.
\<close>

theorem funge_strstr_first:
  assumes "0 \<notin> set h" "0 \<notin> set x"
  shows "\<exists>r. funge_strstr h x = Some (Running r) \<and>
    (case r of None \<Rightarrow> \<forall>j. \<not> occurs_at x h j | Some j \<Rightarrow> occurs_at x h j \<and> (\<forall>s < j. \<not> occurs_at x h s))"
  using funge_strstr_finds [OF assms] first_occurrence_is [of x h] by blast

theorem funge_strstr_first_witness:
  "funge_strstr [97, 98, 97, 98, 97, 99] [97, 98, 97, 99] = Some (Running (Some 2))"
proof -
  let ?h = "[97, 98, 97, 98, 97, 99 :: cell]" and ?x = "[97, 98, 97, 99 :: cell]"
  obtain r where r: "funge_strstr ?h ?x = Some (Running r)"
    "case r of None \<Rightarrow> \<forall>j. \<not> occurs_at ?x ?h j | Some j \<Rightarrow> occurs_at ?x ?h j \<and> (\<forall>s < j. \<not> occurs_at ?x ?h s)"
    using funge_strstr_first [of ?h ?x] by auto
  have occ: "occurs_at ?x ?h 2" "\<not> occurs_at ?x ?h 0" "\<not> occurs_at ?x ?h 1" by (simp_all add: occurs_at_take)
  have "r = Some 2"
  proof (cases r)
    case None
    then show ?thesis using r(2) occ(1) by auto
  next
    case (Some j)
    then have j: "occurs_at ?x ?h j" "\<forall>s < j. \<not> occurs_at ?x ?h s" using r(2) by simp_all
    consider "j = 0" | "j = 1" | "j = 2" | "2 < j" by linarith
    then show ?thesis using j occ Some by cases blast+
  qed
  with r(1) show ?thesis by simp
qed

end
