(* ===== verification/Strn.thy ===== *)
theory Strn
  imports Operation Stringbuffer Fungestring
begin

text \<open>
  The fingerprint STRN, \<^verbatim>\<open>src/fingerprints/STRN/STRN.c\<close>. A string that could not be popped for lack
  of memory is the null pointer \<open>None\<close>, of length 0; going through it is \<open>Crashed\<close>, as is an
  assertion that fails. A popped string ends with its 0, so that its length is one less than that
  of the list.
\<close>

section \<open>Strings of cells\<close>

definition ip_pop_cells :: "config \<Rightarrow> instructionPointer \<Rightarrow> cell list option \<times> instructionPointer" where
  "ip_pop_cells cf ip =
     (let (str, s) = stack_pop_string_multibyte (cf_al cf) (ip_stack ip) in (str, ip_set_stack s ip))"

definition ip_push_cells :: "cell list \<Rightarrow> nat \<Rightarrow> instructionPointer \<Rightarrow> instructionPointer" where
  "ip_push_cells str len ip = ip_set_stack (stack_push_string_multibyte (ip_stack ip) str len) ip"

definition ip_push_bytes :: "byte list \<Rightarrow> nat \<Rightarrow> instructionPointer \<Rightarrow> instructionPointer" where
  "ip_push_bytes str len ip = ip_set_stack (stack_push_string (ip_stack ip) str len) ip"

definition str_length :: "cell list option \<Rightarrow> nat" where
  "str_length str = (case str of None \<Rightarrow> 0 | Some str \<Rightarrow> length str - 1)"

definition finger_STRN_append :: "config \<Rightarrow> instructionPointer \<Rightarrow> instructionPointer" where
  "finger_STRN_append cf ip =
     (let (upper, ip) = ip_pop_cells cf ip; (bottom, ip) = ip_pop_cells cf ip
      in case (upper, bottom) of
           (Some upper, Some bottom) \<Rightarrow>
             (let top_len = length upper - 1; bottom_len = length bottom - 1
              in if \<not> cf_al cf (size_t ((top_len + bottom_len + 1) * sizeof_funge_cell)) then ip_reverse ip
                 else ip_push_cells (take top_len upper @ take bottom_len bottom @ [0])
                        (bottom_len + top_len) ip)
         | _ \<Rightarrow> ip_reverse ip)"

text \<open>\<open>n\<close> cells are left to be compared.\<close>

fun compare_loop :: "nat \<Rightarrow> cell list \<Rightarrow> cell list \<Rightarrow> cell" where
  "compare_loop (Suc n) (a # as) (b # bs) = (if a - b \<noteq> 0 then a - b else compare_loop n as bs)"
| "compare_loop _ _ _ = 0"

definition finger_STRN_compare :: "config \<Rightarrow> instructionPointer \<Rightarrow> instructionPointer" where
  "finger_STRN_compare cf ip =
     (let (a, ip) = ip_pop_cells cf ip; (b, ip) = ip_pop_cells cf ip
      in case (a, b) of
           (Some a, Some b) \<Rightarrow>
             (let minlen = min (length a - 1) (length b - 1)
              in ip_push (compare_loop (minlen + 1) a b) ip)
         | _ \<Rightarrow> ip_reverse ip)"

definition finger_STRN_search :: "config \<Rightarrow> mach \<Rightarrow> mach result option" where
  "finger_STRN_search cf m =
     (let (ip, w) = m; (upper, ip) = ip_pop_cells cf ip; (bottom, ip) = ip_pop_cells cf ip
      in case (upper, bottom) of
           (Some upper, Some bottom) \<Rightarrow>
             bind_run (funge_strstr (butlast upper) (butlast bottom)) (\<lambda>c. case c of
               Some c \<Rightarrow> bind_run (funge_strlen (butlast upper) c) (\<lambda>p. Some (Running (ip_push_cells (drop c upper) (p - c) ip, w)))
             | None \<Rightarrow> Some (Running (ip_push 0 ip, w)))
         | _ \<Rightarrow> Some (Running (ip_reverse ip, w)))"

definition finger_STRN_left :: "config \<Rightarrow> mach \<Rightarrow> mach result option" where
  "finger_STRN_left cf m =
     (let (ip, w) = m; (n, ip) = ip_pop ip; (s, ip) = ip_pop_cells cf ip; len = str_length s
      in if n <s 0 then Some (Running (ip_reverse ip, w))
         else if n = 0 then Some (Running (ip_push 0 ip, w))
         else
           (let n = min len (unat n); ip = ip_push 0 ip
            in case s of
                 None \<Rightarrow> Some Crashed
               | Some str \<Rightarrow>
                   \<comment> \<open>for \<open>n = 0\<close> the length wraps to the greatest one, the number of cells to 0\<close>
                   Some (Running (if n = 0 then ip_set_stack (stack_prealloc_space (ip_stack ip) 0) ip
                                  else ip_push_cells str (n - 1) ip, w))))"

definition finger_STRN_slice :: "config \<Rightarrow> mach \<Rightarrow> mach result option" where
  "finger_STRN_slice cf m =
     (let (ip, w) = m; (n, ip) = ip_pop ip; (p, ip) = ip_pop ip; (s, ip) = ip_pop_cells cf ip;
          slen = str_length s
      in if p <s 0 \<or> n <s 0 \<or> slen < unat p then Some (Running (ip_reverse ip, w))
         else
           (let n = (if slen < unat (p + n) then slen - unat p else unat n)
            in case s of
                 None \<Rightarrow> Some Crashed
               | Some str \<Rightarrow>
                   (let str = str[unat p + n := 0]
                    in Some (Running (ip_push_cells (drop (unat p) str) (slen - unat p) ip, w)))))"

definition finger_STRN_length :: "instructionPointer \<Rightarrow> instructionPointer" where
  "finger_STRN_length ip = ip_push (of_nat (stack_strlen (ip_stack ip))) ip"

definition finger_STRN_right :: "config \<Rightarrow> mach \<Rightarrow> mach result option" where
  "finger_STRN_right cf m =
     (let (ip, w) = m; (n, ip) = ip_pop ip; (s, ip) = ip_pop_cells cf ip; len = str_length s
      in if n <s 0 then Some (Running (ip_reverse ip, w))
         else
           (let n = min len (unat n)
            in case s of
                 None \<Rightarrow> Some Crashed
               | Some str \<Rightarrow> Some (Running (ip_push_cells (drop (len - n) str) n ip, w))))"

lemma ip_pop_cells_top:
  assumes "toss ip = rest @ 0 # rev cs" "0 \<notin> set cs" "\<And>n. cf_al cf n"
  shows "\<exists>s. ip_pop_cells cf ip = (Some (cs @ [0]), ip_set_stack s ip) \<and> stack_list s = rest"
proof -
  have rev: "rev (stack_list (ip_stack ip)) = cs @ 0 # rev rest" using assms(1) by (simp add: toss_def)
  have nonzero: "\<forall>c\<in>set cs. c \<noteq> 0" using assms(2) by metis
  have "fst (pop_cells (ip_stack ip)) = cs" "stack_list (snd (pop_cells (ip_stack ip))) = rest"
    using pop_cells_list [of "ip_stack ip"] takeWhile_prefix [of cs "\<lambda>c. c \<noteq> 0" 0 "rev rest"]
      dropWhile_prefix [of cs "\<lambda>c. c \<noteq> 0" 0 "rev rest"] nonzero by (simp_all add: rev)
  then show ?thesis
    by (auto simp: ip_pop_cells_def stack_pop_string_multibyte_def assms(3) split_beta)
qed

text \<open>A string on top of the stack, as it is popped.\<close>

lemma ip_pop_string_top:
  assumes "toss ip = rest @ 0 # map ucast (rev str)" "0 \<notin> set str" "\<And>n. cf_al cf n"
  shows "\<exists>s. ip_pop_string cf ip = (Some str, ip_set_stack s ip) \<and> stack_list s = rest"
proof -
  have rev: "rev (stack_list (ip_stack ip)) = map ucast str @ 0 # rev rest"
    using assms(1) by (simp add: toss_def rev_map)
  have nz: "\<forall>c\<in>set (map ucast str :: cell list). c \<noteq> 0"
    using assms(2) by (auto simp: ucast_byte_cell_eq_0)
  have "fst (pop_cells (ip_stack ip)) = map ucast str" "stack_list (snd (pop_cells (ip_stack ip))) = rest"
    using takeWhile_prefix [OF nz, of 0 "rev rest"] dropWhile_prefix [OF nz, of 0 "rev rest"]
    by (simp_all add: pop_cells_list rev)
  moreover have "map ucast (map ucast str :: cell list) = str" by (simp add: ucast_byte_cell comp_def)
  moreover have "takeWhile (\<lambda>c. c \<noteq> 0) (str @ [0]) = str"
    using takeWhile_prefix [of str "\<lambda>c. c \<noteq> 0" 0 "[]"] assms(2) by (metis)
  ultimately show ?thesis
    by (cases "pop_cells (ip_stack ip)") (auto simp: ip_pop_string_def stack_pop_string_def assms(3))
qed

section \<open>Strings in funge-space\<close>

text \<open>
  The loop of \<open>G\<close>. The answer is the buffer, or \<open>None\<close> if the string runs out of the bounds; \<open>get_loop\<close>
  itself is \<open>None\<close> if the loop goes on for ever.
\<close>

partial_function (option) get_loop ::
    "allocator \<Rightarrow> fungeRect \<Rightarrow> fungeSpace \<Rightarrow> funge_vector \<Rightarrow> string_buffer \<Rightarrow> string_buffer option result option" where
  "get_loop al bounds space pos sb =
     (let val = fungespace_get space pos in
      if val = 0 then Some (Running (Some sb))
      else
        (case stringbuffer_append_cell al sb val of
           None \<Rightarrow> Some Crashed
         | Some sb \<Rightarrow>
             if vec_x pos <s rect_x bounds \<or> rect_x bounds + rect_w bounds <s vec_x pos
             then Some (Running None)
             else get_loop al bounds space (vector (vec_x pos + 1) (vec_y pos)) sb))"

definition finger_STRN_get :: "config \<Rightarrow> mach \<Rightarrow> mach result option" where
  "finger_STRN_get cf m =
     (let (ip, w) = m; (bounds, space) = fungespace_get_bounds_rect (w_space w);
          w = w\<lparr>w_space := space\<rparr>; (pos, ip) = ip_pop_vector ip; pos = vector_add pos (ip_storageOffset ip)
      in if vec_y pos <s rect_y bounds \<or> rect_y bounds + rect_h bounds <s vec_y pos
         then Some (Running (ip_reverse ip, w))
         else
           (case stringbuffer_new (cf_al cf) of
              None \<Rightarrow> Some (Running (ip_reverse ip, w))
            | Some sb \<Rightarrow>
                bind_run (get_loop (cf_al cf) bounds space pos sb) (\<lambda>sb. case sb of
                  None \<Rightarrow> Some (Running (ip_reverse ip, w))
                | Some sb \<Rightarrow>
                    (case stringbuffer_finish_multibyte sb of
                       None \<Rightarrow> Some Crashed
                     | Some s \<Rightarrow> Some (Running (ip_push_cells (s @ [0]) (length s) ip, w))))))"

function put_loop :: "funge_vector \<Rightarrow> mach \<Rightarrow> mach" where
  "put_loop pos (ip, w) =
     (let (v, ip') = ip_pop ip; w = w\<lparr>w_space := fungespace_set v pos (w_space w)\<rparr>
      in if v \<noteq> 0 then put_loop (vector (vec_x pos + 1) (vec_y pos)) (ip', w) else (ip', w))"
  by pat_completeness auto
termination
proof (relation "measure (\<lambda>(pos, ip, w). length (toss ip))")
  fix pos :: funge_vector and ip p v ip' and w wa :: world
  assume "p = ip_pop ip" "(v, ip') = p" "v \<noteq> 0"
  then have "v = fst (ip_pop ip)" "ip' = snd (ip_pop ip)" by (metis fst_conv, metis snd_conv)
  then have "v = from_top (toss ip) 0" "toss ip' = drop_top 1 (toss ip)" by (simp_all only: ip_pop_fst toss_pop)
  then show "((vector (vec_x pos + 1) (vec_y pos), ip', wa), pos, ip, w) \<in> measure (\<lambda>(pos, ip, w). length (toss ip))"
    using \<open>v \<noteq> 0\<close> by (auto simp: from_top_def drop_top_def split: if_splits)
qed simp

declare put_loop.simps [simp del]

definition finger_STRN_put :: "mach \<Rightarrow> mach" where
  "finger_STRN_put m =
     (let (ip, w) = m; (pos, ip) = ip_pop_vector ip in put_loop (vector_add pos (ip_storageOffset ip)) (ip, w))"

section \<open>Input, output and numbers\<close>

definition finger_STRN_display :: "config \<Rightarrow> mach \<Rightarrow> mach" where
  "finger_STRN_display cf m =
     (let (ip, w) = m; (s, ip) = ip_pop_string cf ip
      in case s of None \<Rightarrow> (ip_reverse ip, w) | Some s \<Rightarrow> (ip, snd (put_bytes cf s w)))"

text \<open>The part of a line in front of its last newline.\<close>

definition cut_newline :: "byte list \<Rightarrow> byte list" where
  "cut_newline line =
     (if 10 \<in> set line then rev (drop 1 (dropWhile (\<lambda>c. c \<noteq> 10) (rev line))) else line)"

definition finger_STRN_input :: "mach \<Rightarrow> mach" where
  "finger_STRN_input m =
     (let (ip, w) = m; (line, input) = input_getline (w_input w); w = w\<lparr>w_input := input\<rparr>
      in case line of None \<Rightarrow> (ip_reverse ip, w)
         | Some line \<Rightarrow>
             (let line = cut_newline line in (ip_push_bytes (line @ [0]) (length line) ip, w)))"

definition finger_STRN_itoa :: "config \<Rightarrow> mach \<Rightarrow> mach result option" where
  "finger_STRN_itoa cf m =
     (let (ip, w) = m; (n, ip) = ip_pop ip
      in case stringbuffer_new (cf_al cf) of
           None \<Rightarrow> Some (Running (ip_reverse ip, w))
         | Some sb \<Rightarrow>
             (case stringbuffer_append_printf (cf_al cf) sb (show_cell n) of
                None \<Rightarrow> Some Crashed
              | Some (_, sb) \<Rightarrow>
                  (case stringbuffer_finish (cf_al cf) sb of
                     None \<Rightarrow> Some Crashed
                   | Some s \<Rightarrow> Some (Running (ip_push_bytes (s @ [0]) (length s) ip, w)))))"

text \<open>
  \<open>atoll\<close> of the C library: blanks, a sign, digits; a number that is out of range, where the C
  standard leaves the result open, becomes the nearest cell.
\<close>

definition isspace :: "byte \<Rightarrow> bool" where
  "isspace c \<longleftrightarrow> c = 32 \<or> 9 \<le> c \<and> c \<le> 13"

definition digits_number :: "byte list \<Rightarrow> int" where
  "digits_number s = fold (\<lambda>c n. 10 * n + (uint c - 48)) (takeWhile isdigit s) 0"

definition clamp :: "int \<Rightarrow> cell" where
  "clamp n = word_of_int (max (- (2 ^ 63)) (min (2 ^ 63 - 1) n))"

definition text_number :: "byte list \<Rightarrow> int" where
  "text_number s =
     (case dropWhile isspace s of
        [] \<Rightarrow> 0
      | c # s \<Rightarrow> if c = 45 then - digits_number s
                 else if c = 43 then digits_number s else digits_number (c # s))"

definition atoll :: "byte list \<Rightarrow> cell" where
  "atoll s = clamp (text_number s)"

definition finger_STRN_atoi :: "config \<Rightarrow> instructionPointer \<Rightarrow> instructionPointer" where
  "finger_STRN_atoi cf ip =
     (let (s, ip) = ip_pop_string cf ip
      in case s of None \<Rightarrow> ip_reverse ip | Some s \<Rightarrow> ip_push (atoll s) ip)"

section \<open>The table\<close>

definition STRN_operations :: "(string \<times> operation) list" where
  "STRN_operations =
     [(''append'', \<lambda>cf. returns (on_ip (finger_STRN_append cf)) cf),
      (''compare'', \<lambda>cf. returns (on_ip (finger_STRN_compare cf)) cf),
      (''display'', \<lambda>cf. returns (finger_STRN_display cf) cf),
      (''search'', finger_STRN_search),
      (''get'', finger_STRN_get),
      (''input'', returns finger_STRN_input),
      (''left'', finger_STRN_left),
      (''slice'', finger_STRN_slice),
      (''length'', returns (on_ip finger_STRN_length)),
      (''put'', returns finger_STRN_put),
      (''right'', finger_STRN_right),
      (''itoa'', finger_STRN_itoa),
      (''atoi'', \<lambda>cf. returns (on_ip (finger_STRN_atoi cf)) cf)]"

section \<open>The frame\<close>

lemma frame_strings [frames]:
  "frame (ip_push_cells str n ip, w) = frame (ip, w)" "frame (ip_push_bytes bs n ip, w) = frame (ip, w)"
  "frame (snd (ip_pop_cells cf ip), w) = frame (ip, w)"
  by (simp_all add: ip_push_cells_def ip_push_bytes_def ip_pop_cells_def split_beta frames)

lemma frame_STRN_ip [frames]:
  "frame (finger_STRN_append cf ip, w) = frame (ip, w)" "frame (finger_STRN_compare cf ip, w) = frame (ip, w)"
  "frame (finger_STRN_length ip, w) = frame (ip, w)" "frame (finger_STRN_atoi cf ip, w) = frame (ip, w)"
  by (simp_all add: finger_STRN_append_def finger_STRN_compare_def finger_STRN_length_def finger_STRN_atoi_def
      split_beta Let_def frames split: option.split)

lemma frame_put_loop [frames]: "frame (put_loop pos m) = frame m"
proof (induction pos m rule: put_loop.induct)
  case (1 pos ip w)
  then show ?case by (subst put_loop.simps) (simp add: split_beta Let_def frames prod_eq_iff)
qed

lemma frame_STRN_mach [frames]:
  "frame (finger_STRN_put m) = frame m" "frame (finger_STRN_display cf m) = frame m"
  "frame (finger_STRN_input m) = frame m"
  by (simp_all add: finger_STRN_put_def finger_STRN_display_def finger_STRN_input_def split_beta Let_def frames
      split: option.split)

lemma STRN_results:
  "keeps_frame finger_STRN_left" "keeps_frame finger_STRN_right" "keeps_frame finger_STRN_slice"
  "keeps_frame finger_STRN_itoa" "keeps_frame finger_STRN_get" "keeps_frame finger_STRN_search"
  unfolding keeps_frame_def
  by (auto simp: finger_STRN_left_def finger_STRN_right_def finger_STRN_slice_def finger_STRN_itoa_def
      finger_STRN_get_def finger_STRN_search_def split_beta Let_def frames bind_run_def
      split: option.splits if_splits result.splits Option.bind_splits)

lemma STRN_keeps_frame: "\<forall>(name, operation) \<in> set STRN_operations. keeps_frame operation"
  by (simp add: STRN_operations_def STRN_results keeps_frame_returns frames frame_on_ip keeps_frame_config)

lemma get_loop_safe:
  assumes "get_loop al r f pos sb = Some res" "\<And>n. al n" "sb_ok sb"
  shows "res = Running None \<or> (\<exists>sb'. res = Running (Some sb') \<and> sb_ok sb')"
  using assms
proof (induction al r f pos sb res rule: get_loop.raw_induct [rotated, consumes 1, case_names Unfold])
  case (Unfold get_loop al r f pos sb res)
  show ?case
  proof (cases "fungespace_get f pos = 0")
    case True
    then show ?thesis using Unfold(2,4) by auto
  next
    case False
    obtain sb1 where "stringbuffer_append_cell al sb (fungespace_get f pos) = Some sb1" "sb_ok sb1"
      using append_cell_grown ensure_grows Unfold(3) by blast
    moreover have "res' = Running None \<or> (\<exists>sb'. res' = Running (Some sb') \<and> sb_ok sb')"
      if "get_loop al r f q sb1 = Some res'" "sb_ok sb1" for q res'
      by (rule Unfold(1) [OF that(1) Unfold(3) that(2)])
    ultimately show ?thesis using Unfold(2) False by (auto simp: Let_def split: if_splits)
  qed
qed

lemma ip_pop_cells_run:
  "(\<And>n. cf_al cf n) \<Longrightarrow> ip_pop_cells cf ip =
     (Some (fst (pop_cells (ip_stack ip)) @ [0]), ip_set_stack (snd (pop_cells (ip_stack ip))) ip)"
  by (simp add: ip_pop_cells_def stack_pop_string_multibyte_def split_beta)

lemma STRN_crash_free_pops:
  "crash_free finger_STRN_left" "crash_free finger_STRN_right" "crash_free finger_STRN_slice"
  by (rule crash_freeI, simp add: finger_STRN_left_def finger_STRN_right_def finger_STRN_slice_def
      ip_pop_cells_run split_beta Let_def)+

lemma STRN_crash_free_itoa: "crash_free finger_STRN_itoa"
proof (rule crash_freeI)
  fix cf :: config and ip w assume al: "\<And>n. cf_al cf n"
  obtain sb where "stringbuffer_new (cf_al cf) = Some sb" using new_granted al by blast
  moreover obtain sb' where "stringbuffer_append_string (cf_al cf) sb (show_cell (fst (ip_pop ip))) = Some sb'"
    using append_string_grown al by blast
  ultimately show "finger_STRN_itoa cf (ip, w) \<noteq> Some Crashed"
    by (simp add: finger_STRN_itoa_def split_beta Let_def al stringbuffer_append_printf_def stringbuffer_finish_def)
qed

lemma STRN_crash_free_get: "crash_free finger_STRN_get"
proof (rule crash_freeI)
  fix cf :: config and ip w assume al: "\<And>n. cf_al cf n"
  obtain sb where sb: "stringbuffer_new (cf_al cf) = Some sb" "sb_ok sb" using new_granted al by blast
  show "finger_STRN_get cf (ip, w) \<noteq> Some Crashed"
  proof
    assume crash: "finger_STRN_get cf (ip, w) = Some Crashed"
    obtain r f where r: "fungespace_get_bounds_rect (w_space w) = (r, f)" by fastforce
    obtain pos ip1 where pos: "ip_pop_vector ip = (pos, ip1)" by fastforce
    obtain res where res: "get_loop (cf_al cf) r f (vector_add pos (ip_storageOffset ip1)) sb = Some res"
      using crash by (auto simp: finger_STRN_get_def r pos Let_def sb(1) bind_run_def split: if_splits Option.bind_splits)
    show False
      using get_loop_safe [OF res al sb(2)] crash
      by (auto simp: finger_STRN_get_def r pos Let_def sb(1) bind_run_def res finish_multibyte_ok split: if_splits)
  qed
qed

text \<open>The search is never run on strings that have a zero in them.\<close>

lemma pop_cells_nonzero: "0 \<notin> set (fst (pop_cells s))"
  using set_takeWhileD [of 0 "\<lambda>c. c \<noteq> 0"] by (auto simp: pop_cells_list)

lemma search_run:
  assumes "\<And>n. cf_al cf n" "fst (pop_cells (ip_stack ip)) = h" "snd (pop_cells (ip_stack ip)) = s"
    and "fst (pop_cells s) = x" "snd (pop_cells s) = t"
  shows "finger_STRN_search cf (ip, w) =
    Some (Running ((case first_occurrence x h of None \<Rightarrow> ip_push 0 (ip_set_stack t ip)
      | Some q \<Rightarrow> ip_push_cells (drop q h @ [0]) (length h - q) (ip_set_stack t ip)), w))"
proof -
  have zero: "0 \<notin> set h" "0 \<notin> set x" using pop_cells_nonzero assms(2,4) by blast+
  have place: "q \<le> length h" if "first_occurrence x h = Some q" for q
    using first_occurrence_is [of x h] that by (simp add: occurs_at_def)
  show ?thesis
    using funge_strlen_length [OF zero(1)] place
    by (auto simp: finger_STRN_search_def ip_pop_cells_run [OF assms(1)] assms(2-5) ip_simps funge_strstr_finds [OF zero]
        split: option.split)
qed

lemma STRN_crash_free_search: "crash_free finger_STRN_search"
  by (rule crash_freeI) (simp add: search_run [OF _ refl refl refl refl])

lemma STRN_crash_free: "\<forall>(name, operation) \<in> set STRN_operations. crash_free operation"
  by (simp add: STRN_operations_def crash_free_returns STRN_crash_free_pops STRN_crash_free_itoa STRN_crash_free_get
      STRN_crash_free_search)

section \<open>What F finds\<close>

lemma pop_cells_string:
  assumes "stack_list s = rest @ 0 # rev cs" "0 \<notin> set cs"
  shows "fst (pop_cells s) = cs \<and> stack_list (snd (pop_cells s)) = rest"
proof -
  have nz: "\<forall>c \<in> set cs. c \<noteq> 0" using assms(2) by metis
  then have "takeWhile (\<lambda>c. c \<noteq> 0) (cs @ 0 # rev rest) = cs" "dropWhile (\<lambda>c. c \<noteq> 0) (cs @ 0 # rev rest) = 0 # rev rest"
    by simp_all
  then show ?thesis by (simp add: pop_cells_list assms(1))
qed

text \<open>
  \<open>F\<close> searches for a string within another. With the text above the string that is searched for it leaves the rest of the
  text from the first occurrence on, or an empty string if there is none; it always comes back, and touches nothing below.
\<close>

theorem strn_search_first:
  assumes "\<And>n. cf_al cf n" "toss ip = rest @ 0 # rev x @ 0 # rev h" "0 \<notin> set h" "0 \<notin> set x"
  shows "\<exists>ip'. finger_STRN_search cf (ip, w) = Some (Running (ip', w)) \<and>
    toss ip' = rest @ (case first_occurrence x h of None \<Rightarrow> [0] | Some q \<Rightarrow> 0 # rev (drop q h))"
proof -
  have h: "fst (pop_cells (ip_stack ip)) = h" "stack_list (snd (pop_cells (ip_stack ip))) = rest @ 0 # rev x"
    using pop_cells_string [of "ip_stack ip" "rest @ 0 # rev x" h] assms by (simp_all add: toss_def)
  have x: "fst (pop_cells (snd (pop_cells (ip_stack ip)))) = x" "stack_list (snd (pop_cells (snd (pop_cells (ip_stack ip))))) = rest"
    using pop_cells_string [OF h(2) assms(4)] by simp_all
  have place: "q \<le> length h" if "first_occurrence x h = Some q" for q
    using first_occurrence_is [of x h] that by (simp add: occurs_at_def)
  show ?thesis
    using search_run [OF assms(1) h(1) refl x(1) refl, of w] place
    by (auto simp: ip_push_cells_def ip_simps stack_list_push_string_multibyte x(2) split: option.split)
qed

section \<open>What P writes and G reads\<close>

text \<open>A row of cells from a place on.\<close>

fun store_row :: "funge_vector \<Rightarrow> cell list \<Rightarrow> fungeSpace \<Rightarrow> fungeSpace" where
  "store_row pos [] f = f"
| "store_row pos (c # cs) f = store_row (vector (vec_x pos + 1) (vec_y pos)) cs (fungespace_set c pos f)"

lemma store_ok_row: "store_ok f \<Longrightarrow> store_ok (store_row pos cs f)"
  by (induction cs arbitrary: pos f) (simp_all add: store_ok_set)

lemma get_store_row_before:
  assumes "store_ok f" "int (length cs) + sint x < 2 ^ 63" "sint k < sint x"
  shows "fungespace_get (store_row (vector x y) cs f) (vector k y) = fungespace_get f (vector k y)"
  using assms
proof (induction cs arbitrary: x f)
  case (Cons c cs)
  have "sint (x + 1) = sint x + 1" using Cons.prems(2) cell_sint_ge [of x] by (simp add: sint_add_cell)
  then show ?case
    using Cons.IH [of "fungespace_set c (vector x y) f" "x + 1"] Cons.prems
    by (auto simp: store_ok_set get_fungespace_set)
qed simp

lemma get_store_row:
  assumes "store_ok f" "int (length cs) + sint x < 2 ^ 63" "i < length cs"
  shows "fungespace_get (store_row (vector x y) cs f) (vector (x + of_nat i) y) = cs ! i"
  using assms
proof (induction cs arbitrary: x f i)
  case (Cons c cs)
  have x: "sint (x + 1) = sint x + 1" using Cons.prems(2) cell_sint_ge [of x] by (simp add: sint_add_cell)
  show ?case
  proof (cases i)
    case 0
    then show ?thesis
      using get_store_row_before [of "fungespace_set c (vector x y) f" cs "x + 1" x y] Cons.prems x
      by (simp add: store_ok_set get_fungespace_set)
  next
    case (Suc j)
    then show ?thesis
      using Cons.IH [of "fungespace_set c (vector x y) f" "x + 1" j] Cons.prems x
      by (simp add: store_ok_set add.assoc)
  qed
qed simp

lemma put_loop_row:
  assumes "toss ip = rest @ 0 # rev cs" "0 \<notin> set cs"
  shows "\<exists>s. put_loop pos (ip, w) = (ip_set_stack s ip, w\<lparr>w_space := store_row pos (cs @ [0]) (w_space w)\<rparr>) \<and>
    stack_list s = rest"
  using assms
proof (induction cs arbitrary: pos ip w)
  case Nil
  then obtain s where "ip_pop ip = (0, ip_set_stack s ip)" "stack_list s = rest"
    using ip_pop_top [of ip rest 0] by auto
  then show ?case by (subst put_loop.simps) auto
next
  case (Cons c cs)
  obtain s where s: "ip_pop ip = (c, ip_set_stack s ip)" "stack_list s = rest @ 0 # rev cs"
    using ip_pop_top [of ip "rest @ 0 # rev cs" c] Cons.prems(1) by auto
  then show ?case
    using Cons.IH [of "ip_set_stack s ip" "vector (vec_x pos + 1) (vec_y pos)"
        "w\<lparr>w_space := fungespace_set c pos (w_space w)\<rparr>"] Cons.prems(2)
    by (subst put_loop.simps) (simp add: ip_simps)
qed

lemma get_loop_row:
  assumes "\<And>i. i < length cs \<Longrightarrow> fungespace_get f (vector (x + of_nat i) y) = cs ! i" "0 \<notin> set cs"
    and "fungespace_get f (vector (x + of_nat (length cs)) y) = 0"
    and "\<And>i. i < length cs \<Longrightarrow> \<not> x + of_nat i <s rect_x r \<and> \<not> rect_x r + rect_w r <s x + of_nat i"
    and "\<And>n. al n" "sb_ok sb"
  shows "\<exists>sb'. get_loop al r f (vector x y) sb = Some (Running (Some sb')) \<and> sb_buf sb' = sb_buf sb @ cs \<and> sb_ok sb'"
  using assms
proof (induction cs arbitrary: x sb)
  case Nil
  then show ?case by (subst get_loop.simps) simp
next
  case (Cons c cs)
  obtain sb1 where sb1: "stringbuffer_append_cell al sb c = Some sb1" "sb_buf sb1 = sb_buf sb @ [c]" "sb_ok sb1"
    using append_cell_grown [of al sb c] ensure_grows Cons.prems(5) by blast
  have "\<exists>sb'. get_loop al r f (vector (x + 1) y) sb1 = Some (Running (Some sb')) \<and>
      sb_buf sb' = sb_buf sb1 @ cs \<and> sb_ok sb'"
  proof (rule Cons.IH)
    show "fungespace_get f (vector (x + 1 + of_nat i) y) = cs ! i"
      "\<not> x + 1 + of_nat i <s rect_x r \<and> \<not> rect_x r + rect_w r <s x + 1 + of_nat i"
      if "i < length cs" for i
      using Cons.prems(1,4) [of "Suc i"] that by (simp_all add: add.assoc)
  qed (use Cons.prems sb1(3) in \<open>simp_all add: add.assoc\<close>)
  then show ?case
    using Cons.prems(1,4) [of 0] Cons.prems(2) sb1 by (subst get_loop.simps) (auto simp: Let_def)
qed

lemma strn_put_row:
  assumes "toss ip = rest @ 0 # rev cs @ [x, y]" "0 \<notin> set cs"
  shows "\<exists>s. finger_STRN_put (ip, w) = (ip_set_stack s ip, w\<lparr>w_space :=
      store_row (vector_add (vector x y) (ip_storageOffset ip)) (cs @ [0]) (w_space w)\<rparr>) \<and> stack_list s = rest"
proof -
  obtain s where s: "ip_pop_vector ip = (vector x y, ip_set_stack s ip)" "stack_list s = rest @ 0 # rev cs"
    using ip_pop_vector_top [of ip "rest @ 0 # rev cs"] assms(1) by auto
  then show ?thesis
    using put_loop_row [of "ip_set_stack s ip" rest cs _ w] assms(2)
    by (auto simp: finger_STRN_put_def ip_simps)
qed

text \<open>
  C29: P and G are inverse. When P has written a string that begins with a character other than a blank
  into a row, without passing the end of the coordinates, G at the same place fetches precisely this string
  onto the stack that P left, as long as memory can be had; the place is relative to the storage offset in both.
\<close>

theorem strn_put_get:
  assumes "toss ip = rest @ 0 # rev cs @ [x, y]" "0 \<notin> set cs" "cs \<noteq> []" "hd cs \<noteq> space_cell"
    and "sint (x + vec_x (ip_storageOffset ip)) + int (length cs) + 1 < 2 ^ 63"
    and "\<And>n. cf_al cf n" "store_ok (w_space w)"
    and "finger_STRN_put (ip, w) = (ip1, w1)" "fspace_ok (w_space w1)"
  shows "toss ip1 = rest \<and>
    (\<exists>ip2 w2. finger_STRN_get cf (ip_push_vector (vector x y) ip1, w1) = Some (Running (ip2, w2)) \<and>
       toss ip2 = rest @ 0 # rev cs \<and> fungespace_get (w_space w2) = fungespace_get (w_space w1))"
proof -
  define off where "off = ip_storageOffset ip"
  define px py where "px = x + vec_x off" and "py = y + vec_y off"
  have pos: "vector_add (vector x y) off = vector px py" by (simp add: vector_add_def px_def py_def)
  obtain s1 where s1: "finger_STRN_put (ip, w) =
      (ip_set_stack s1 ip, w\<lparr>w_space := store_row (vector px py) (cs @ [0]) (w_space w)\<rparr>)" "stack_list s1 = rest"
    using strn_put_row [OF assms(1,2)] by (auto simp: pos off_def [symmetric])
  have put: "ip1 = ip_set_stack s1 ip" "w_space w1 = store_row (vector px py) (cs @ [0]) (w_space w)"
    using assms(8) s1 by auto
  obtain r f where r: "fungespace_get_bounds_rect (w_space w1) = (r, f)" by fastforce
  note rect = bounds_rect_contains [OF assms(9) r]
  have fits: "int (length (cs @ [0])) + sint px < 2 ^ 63" using assms(5) by (simp add: px_def off_def)
  have cells: "fungespace_get f (vector (px + of_nat i) py) = (cs @ [0]) ! i" if "i \<le> length cs" for i
    using get_store_row [OF assms(7) fits, of i py] that by (simp add: rect(1) put(2))
  have used: "vector px py \<in> used_cells (w_space w1)" "vector (px + of_nat (length cs)) py \<in> used_cells (w_space w1)"
    using cells [of 0] cells [of "length cs"] assms(3,4) by (auto simp: used_cells_def rect(1) nth_append hd_conv_nth)
  have step: "sint (px + of_nat i) = sint px + int i" if "i \<le> length cs" for i
  proof -
    have "px + of_nat i = word_of_int (sint px + int i)" by (simp add: of_int_sint_cell)
    moreover have "- (2 ^ 63) \<le> sint px + int i" "sint px + int i < 2 ^ 63"
      using that fits cell_sint_ge [of px] by simp_all
    ultimately show ?thesis by (simp only: sint_of_int_cell)
  qed
  have within: "\<not> px + of_nat i <s rect_x r \<and> \<not> rect_x r + rect_w r <s px + of_nat i" if "i < length cs" for i
    using rect(3) [OF used(1)] rect(3) [OF used(2)] that step [of i] step [of "length cs"]
    by (simp add: cell_order)
  obtain sb where sb: "stringbuffer_new (cf_al cf) = Some sb" "sb_ok sb" "sb_buf sb = []"
    using new_granted assms(6) by blast
  obtain sb' where sb': "get_loop (cf_al cf) r f (vector px py) sb = Some (Running (Some sb'))" "sb_buf sb' = cs" "sb_ok sb'"
    using get_loop_row [of cs f px py r "cf_al cf" sb] cells within assms(2,6) sb by (auto simp: nth_append)
  obtain s2 where s2: "ip_pop_vector (ip_push_vector (vector x y) ip1) = (vector x y, ip_set_stack s2 (ip_push_vector (vector x y) ip1))"
      "stack_list s2 = rest"
    using ip_pop_vector_top [of "ip_push_vector (vector x y) ip1" rest] put(1) s1(2) by (auto simp: ip_simps)
  have y_in: "\<not> py <s rect_y r \<and> \<not> rect_y r + rect_h r <s py"
    using rect(3) [OF used(1)] by (auto simp: cell_order)
  show ?thesis
    using s1(2) sb sb' y_in pos
    by (simp add: finger_STRN_get_def r s2 [unfolded put(1)] ip_simps put(1) off_def [symmetric] bind_run_def finish_multibyte_ok
        ip_push_cells_def stack_list_push_string_multibyte rect(1))
qed

lemma fspace_ok_row:
  assumes "fspace_ok f" "finite A" "card A < 2 ^ 64" "used_cells f \<subseteq> A"
    "\<And>i. i < length cs \<Longrightarrow> vector (x + of_nat i) y \<in> A"
  shows "fspace_ok (store_row (vector x y) cs f)"
  using assms(1,4,5)
proof (induction cs arbitrary: x f)
  case (Cons c cs)
  have f: "store_ok f" using Cons.prems(1) by (simp add: fspace_ok_def)
  have used: "used_cells (fungespace_set c (vector x y) f) \<subseteq> A"
    using Cons.prems(2) Cons.prems(3) [of 0] f by (auto simp: used_cells_def get_fungespace_set split: if_splits)
  then have "fspace_ok (fungespace_set c (vector x y) f)"
    using Cons.prems(1) assms(2,3) f by (intro fspace_ok_set capacity_ok_small [of _ A]) (auto simp: store_ok_set)
  moreover have "vector (x + 1 + of_nat i) y \<in> A" if "i < length cs" for i
    using Cons.prems(3) [of "Suc i"] that by (simp add: add.assoc)
  ultimately show ?case using Cons.IH [of "fungespace_set c (vector x y) f" "x + 1"] used by simp
qed simp

theorem strn_put_get_witness:
  "\<exists>ip1 w1 ip2 w2. finger_STRN_put
       (ip_push_vector (vector 3 4) (ip_push 97 (ip_push 98 (ip_push 0 sample_ip))), sample_world) = (ip1, w1) \<and>
     finger_STRN_get sample_config (ip_push_vector (vector 3 4) ip1, w1) = Some (Running (ip2, w2)) \<and>
     toss ip2 = [7, 8, 0, 98, 97]"
proof -
  let ?ip = "ip_push_vector (vector 3 4) (ip_push 97 (ip_push 98 (ip_push 0 sample_ip)))"
  have toss: "toss ?ip = [7, 8] @ 0 # rev [97, 98] @ [3, 4]" and off: "ip_storageOffset ?ip = vector 0 0"
    by (simp_all add: ip_simps)
  obtain s where s: "finger_STRN_put (?ip, sample_world) = (ip_set_stack s ?ip, sample_world\<lparr>w_space :=
      store_row (vector 3 4) [97, 98, 0] fungespace_create\<rparr>)"
    using strn_put_row [OF toss, of sample_world] by (auto simp: off vector_add_def sample_world_def)
  have "fspace_ok (store_row (vector 3 4) [97, 98, 0] fungespace_create)"
    by (rule fspace_ok_row [OF fspace_ok_create, of "{vector 3 4, vector 4 4, vector 5 4}"])
      (auto simp: used_cells_create card_insert_if less_Suc_eq numeral_3_eq_3)
  then have ok: "fspace_ok (w_space (sample_world\<lparr>w_space := store_row (vector 3 4) [97, 98, 0] fungespace_create\<rparr>))"
    by simp
  have fits: "sint (3 + vec_x (ip_storageOffset ?ip)) + int (length [97 :: cell, 98]) + 1 < 2 ^ 63"
    by (simp add: off)
  have store: "store_ok (w_space sample_world)" by (simp add: sample_world_def store_ok_create)
  have "(0 :: cell) \<notin> set [97, 98]" "[97, 98 :: cell] \<noteq> []" "hd [97, 98] \<noteq> space_cell" by simp_all
  from strn_put_get [OF toss this fits sample_memory store s ok] s show ?thesis by auto
qed

section \<open>What M leaves behind\<close>

text \<open>
  the slice of a string that is cut off before its end is not all that M pushes: below the slice and its 0 lies,
  with a 0 of its own, the part of the string that follows the character after the slice.
\<close>

theorem strn_slice_rest:
  assumes "toss ip = rest @ 0 # rev cs @ [of_nat p, of_nat n]" "0 \<notin> set cs"
    and "p + n < length cs" "length cs < 2 ^ 60" "\<And>k. cf_al cf k"
    and "finger_STRN_slice cf (ip, w) = Some (Running (ip', w'))"
  shows "toss ip' = rest @ 0 # rev (drop (p + n + 1) cs) @ 0 # rev (take n (drop p cs))"
proof -
  obtain s1 where s1: "ip_pop ip = (of_nat n, ip_set_stack s1 ip)" "stack_list s1 = rest @ 0 # rev cs @ [of_nat p]"
    using ip_pop_top [of ip "rest @ 0 # rev cs @ [of_nat p]"] assms(1) by auto
  obtain s2 where s2: "ip_pop (ip_set_stack s1 ip) = (of_nat p, ip_set_stack s2 ip)" "stack_list s2 = rest @ 0 # rev cs"
    using ip_pop_top [of "ip_set_stack s1 ip" "rest @ 0 # rev cs"] s1(2) by (auto simp: ip_simps)
  obtain s3 where s3: "ip_pop_cells cf (ip_set_stack s2 ip) = (Some (cs @ [0]), ip_set_stack s3 ip)" "stack_list s3 = rest"
    using ip_pop_cells_top [of "ip_set_stack s2 ip" rest cs cf] s2(2) assms(2,5) by (auto simp: ip_simps)
  have small: "unat (of_nat k :: cell) = k \<and> \<not> (of_nat k :: cell) <s 0" if "k < 2 ^ 60" for k
  proof -
    have "sint (word_of_int (int k) :: cell) = int k" using that by (intro sint_of_int_cell) simp_all
    moreover have "unat (of_nat k :: cell) = k" using that by (simp add: unat_of_nat take_bit_nat_eq_self)
    ultimately show ?thesis by (simp add: cell_less_iff)
  qed
  have pn: "unat (of_nat p + of_nat n :: cell) = p + n"
    using small [of "p + n"] assms(3,4) by simp
  have cut: "drop p ((cs @ [0])[p + n := 0]) = take n (drop p cs) @ 0 # drop (p + n + 1) cs @ [0]"
    using assms(3) by (simp add: list_update_append upd_conv_take_nth_drop drop_take add.commute)
  show ?thesis
    using assms(3,4,6) small [of n] small [of p]
    by (auto simp: finger_STRN_slice_def s1 s2 s3 str_length_def pn cut ip_push_cells_def ip_simps
        stack_list_push_string_multibyte)
qed

theorem strn_slice_rest_witness:
  "\<exists>ip' w'. finger_STRN_slice sample_config (ip_push 1 (ip_push 0 (ip_push 97 (ip_push 98 (ip_push 99 (ip_push 0 sample_ip))))),
       sample_world) = Some (Running (ip', w')) \<and> toss ip' = [7, 8, 0, 99, 0, 97]"
proof -
  let ?ip = "ip_push 1 (ip_push 0 (ip_push 97 (ip_push 98 (ip_push 99 (ip_push 0 sample_ip)))))"
  have toss: "toss ?ip = [7, 8] @ 0 # rev [97, 98, 99] @ [of_nat 0, of_nat 1]"
    by (simp add: ip_simps)
  have "\<exists>ip' w'. finger_STRN_slice sample_config (?ip, sample_world) = Some (Running (ip', w'))"
    by (simp add: finger_STRN_slice_def split_beta Let_def ip_pop_cells_def stack_pop_string_multibyte_def
        sample_config_def split: option.split)
  then show ?thesis using strn_slice_rest [OF toss, of sample_config sample_world] by (auto simp: sample_config_def)
qed

end
