(* ===== verification/Fp_Base.thy ===== *)
theory Fp_Base
  imports Operation
begin

text \<open>
  The fingerprint BASE, \<^verbatim>\<open>src/fingerprints/BASE/BASE.c\<close>: numbers in other bases. The size of the
  array that the digits are collected in is estimated with logarithms; a digit that falls outside is
  \<open>Crashed\<close>.
\<close>

section \<open>Output\<close>

definition cf_putchar :: "config \<Rightarrow> byte \<Rightarrow> world \<Rightarrow> world" where
  "cf_putchar cf c w = snd (put_bytes cf [c] w)"

definition put_each :: "config \<Rightarrow> byte list \<Rightarrow> world \<Rightarrow> world" where
  "put_each cf = fold (cf_putchar cf)"

text \<open>\<open>digits[d]\<close>.\<close>

definition digit_byte :: "nat \<Rightarrow> byte" where
  "digit_byte d = (if d < 10 then of_nat (48 + d) else of_nat (87 + d))"

text \<open>The digits of a number from the last one on: the loop over \<open>val % base\<close> and \<open>val / base\<close>.\<close>

function radix_digits :: "nat \<Rightarrow> nat \<Rightarrow> byte list" where
  "radix_digits base val =
     (if val = 0 \<or> base < 2 then [] else digit_byte (val mod base) # radix_digits base (val div base))"
  by pat_completeness auto
termination by (relation "measure snd") auto

declare radix_digits.simps [simp del]

text \<open>The bits of a positive number, the first one on top of the recursion.\<close>

function binary :: "config \<Rightarrow> cell \<Rightarrow> world \<Rightarrow> world" where
  "binary cf number w =
     (if 0 <s number then
        cf_putchar cf (if number AND 1 \<noteq> 0 then 49 else 48) (binary cf (signed_drop_bit 1 number) w)
      else w)"
  by pat_completeness auto
termination
proof (relation "measure (\<lambda>(cf, number, w). nat (sint number))")
  fix cf :: config and number :: cell and w :: world
  assume "0 <s number"
  moreover have "sint (signed_drop_bit 1 number) = sint number div 2"
    by (simp add: sint_signed_drop_bit_eq drop_bit_int_def)
  ultimately show "((cf, signed_drop_bit 1 number, w), cf, number, w) \<in> measure (\<lambda>(cf, number, w). nat (sint number))"
    by (auto simp: cell_less_iff)
qed simp

declare binary.simps [simp del]

definition finger_BASE_output_binary :: "config \<Rightarrow> mach \<Rightarrow> mach" where
  "finger_BASE_output_binary cf m =
     (let (ip, w) = m; (x, ip) = ip_pop ip in (ip, cf_putchar cf 32 (binary cf x w)))"

text \<open>What \<open>printf\<close> makes of an unsigned cell.\<close>

definition show_unsigned :: "nat \<Rightarrow> cell \<Rightarrow> byte list" where
  "show_unsigned base x = (if x = 0 then [48] else rev (radix_digits base (unat x)))"

definition finger_BASE_output_octal :: "config \<Rightarrow> mach \<Rightarrow> mach" where
  "finger_BASE_output_octal cf m =
     (let (ip, w) = m; (x, ip) = ip_pop ip in (ip, snd (put_bytes cf (show_unsigned 8 x @ [32]) w)))"

definition finger_BASE_output_hex :: "config \<Rightarrow> mach \<Rightarrow> mach" where
  "finger_BASE_output_hex cf m =
     (let (ip, w) = m; (x, ip) = ip_pop ip in (ip, snd (put_bytes cf (show_unsigned 16 x @ [32]) w)))"

definition finger_BASE_output_base :: "config \<Rightarrow> mach \<Rightarrow> mach result option" where
  "finger_BASE_output_base cf m =
     (let (ip, w) = m; (base, ip) = ip_pop ip; (val, ip) = ip_pop ip
      in if base <s 1 \<or> 36 <s base \<or> val <s 0 then Some (Running (ip_reverse ip, w))
         else if base = 1 then Some (Running (ip, put_each cf (replicate (unat val) 48 @ [32]) w))
         else if val = 0 then Some (Running (ip, cf_putchar cf 48 w))
         else
           (let result = radix_digits (unat base) (unat val)
            in if lm_digits (cf_libm cf) base val < length result then Some Crashed
               else Some (Running (ip, put_each cf (rev result @ [32]) w))))"

section \<open>Input\<close>

definition finger_BASE_input_base :: "mach \<Rightarrow> mach" where
  "finger_BASE_input_base m =
     (let (ip, w) = m; (base, ip) = ip_pop ip
      in if base <s 1 \<or> 36 <s base then (ip_reverse ip, w)
         else
           (let (gotint, a, input) = getint_loop (sint base) (w_input w); w = w\<lparr>w_input := input\<rparr>
            in if gotint = Rgi_success then (ip_push (the a) ip, w) else (ip_reverse ip, w)))"

section \<open>The table\<close>

definition BASE_operations :: "(string \<times> operation) list" where
  "BASE_operations =
     [(''output_binary'', \<lambda>cf. returns (finger_BASE_output_binary cf) cf),
      (''output_hex'', \<lambda>cf. returns (finger_BASE_output_hex cf) cf),
      (''input_base'', returns finger_BASE_input_base),
      (''output_base'', finger_BASE_output_base),
      (''output_octal'', \<lambda>cf. returns (finger_BASE_output_octal cf) cf)]"

section \<open>The array of digits is large enough\<close>

lemma length_radix_digits: "n < b ^ k \<Longrightarrow> length (radix_digits b n) \<le> k"
proof (induction b n arbitrary: k rule: radix_digits.induct)
  case (1 b n)
  show ?case
  proof (cases "n = 0 \<or> b < 2")
    case False
    with 1(2) obtain j where k: "k = Suc j" by (cases k) auto
    with False 1(2) have "n div b < b ^ j"
      by (simp add: less_mult_imp_div_less mult.commute)
    with 1(1) False k show ?thesis by (subst radix_digits.simps) simp
  qed (auto simp: radix_digits.simps)
qed

lemma digits_sufficeD:
  assumes "digits_suffice lm" "1 <s base" "0 <s val"
  shows "length (radix_digits (unat base) (unat val)) \<le> lm_digits lm base val"
proof -
  have "unat val = nat (sint val)" "unat base = nat (sint base)"
    using assms(2,3) by (auto simp: cell_less_iff intro!: unat_eq_nat_sint)
  then show ?thesis
    using assms by (intro length_radix_digits) (simp add: digits_suffice_def)
qed

lemma base_positive:
  fixes base val :: cell
  shows "\<not> base <s 1 \<Longrightarrow> base \<noteq> 1 \<Longrightarrow> 1 <s base" "\<not> val <s 0 \<Longrightarrow> val \<noteq> 0 \<Longrightarrow> 0 <s val"
  by (auto simp: word_sless_alt order_less_le dest: signed_word_eqI [of _ 0] intro: signed_word_eqI)

lemma BASE_crash_free: "\<forall>(name, operation) \<in> set BASE_operations. crash_free operation"
proof -
  have "crash_free finger_BASE_output_base"
  proof (rule crash_free_digits)
    fix cf :: config and ip w assume "digits_suffice (cf_libm cf)"
    note * = digits_sufficeD [OF this base_positive(1) base_positive(2)]
    show "finger_BASE_output_base cf (ip, w) \<noteq> Some Crashed"
      using * by (auto simp: finger_BASE_output_base_def Let_def split_beta dest: leD)
  qed
  then show ?thesis by (simp add: BASE_operations_def crash_free_returns)
qed

section \<open>The frame\<close>

lemma frame_putchar [frames]:
  "frame (ip, cf_putchar cf c w) = frame (ip, w)" "frame (ip, put_each cf cs w) = frame (ip, w)"
proof -
  show *: "frame (ip, cf_putchar cf c w) = frame (ip, w)" for c w by (simp add: cf_putchar_def frames)
  show "frame (ip, put_each cf cs w) = frame (ip, w)"
    unfolding put_each_def by (induction cs arbitrary: w) (simp_all add: *)
qed

lemma frame_binary [frames]: "frame (ip, binary cf n w) = frame (ip, w)"
proof (induction cf n w rule: binary.induct)
  case (1 cf n w)
  then show ?case by (subst binary.simps) (simp add: frames)
qed

lemma frame_BASE [frames]:
  "frame (finger_BASE_output_binary cf m) = frame m" "frame (finger_BASE_output_octal cf m) = frame m"
  "frame (finger_BASE_output_hex cf m) = frame m" "frame (finger_BASE_input_base m) = frame m"
  by (simp_all add: finger_BASE_output_binary_def finger_BASE_output_octal_def finger_BASE_output_hex_def
      finger_BASE_input_base_def split_beta Let_def frames)

lemma keeps_frame_output_base: "keeps_frame finger_BASE_output_base"
  by (auto simp: keeps_frame_def finger_BASE_output_base_def split_beta Let_def frames split: if_splits)

lemma BASE_keeps_frame: "\<forall>(name, operation) \<in> set BASE_operations. keeps_frame operation"
  by (simp add: BASE_operations_def keeps_frame_output_base keeps_frame_returns frames keeps_frame_config)

section \<open>What is printed can be read\<close>

lemma digit_byte_of:
  assumes "int d < base" "base \<le> 36"
  shows "digit_of base (digit_byte d) = Some (int d)"
proof -
  have "unat (of_nat k :: byte) = k" if "k < 256" for k
    using that by (simp add: unat_of_nat take_bit_nat_eq_self)
  from this [of "48 + d"] this [of "87 + d"]
  have "unat (digit_byte d) = (if d < 10 then 48 + d else 87 + d)"
    using assms by (simp add: digit_byte_def)
  then show ?thesis
    using assms by (auto simp: digit_of_def digits_index_def word_le_nat_alt unat_eq_0 [symmetric])
qed

lemma radix_digits_value:
  assumes "2 \<le> b" "b \<le> 36"
  shows "list_all (\<lambda>c. digit_of (int b) c \<noteq> None) (radix_digits b n) \<and>
    digits_value (int b) 0 (rev (radix_digits b n)) = int n"
proof (induction n rule: less_induct)
  case (less n)
  show ?case
  proof (cases "n = 0")
    case False
    then have "n div b < n" using assms by simp
    note IH = less [OF this]
    have "n mod b < b" using assms by simp
    then have d: "digit_of (int b) (digit_byte (n mod b)) = Some (int (n mod b))"
      using assms by (intro digit_byte_of) linarith+
    have "radix_digits b n = digit_byte (n mod b) # radix_digits b (n div b)"
      using False assms by (subst radix_digits.simps) simp
    moreover have "digits_value (int b) v (xs @ [c]) = digits_value (int b) v xs * int b + the (digit_of (int b) c)" for xs c v
      by (simp add: digits_value_def)
    moreover have "int (n div b) * int b + int (n mod b) = int n"
      by (metis div_mult_mod_eq of_nat_add of_nat_mult)
    ultimately show ?thesis
      using IH d by simp
  qed (simp add: radix_digits.simps)
qed

lemma put_each_all:
  assumes "\<And>out bs. cf_stdout cf out bs"
  shows "put_each cf cs w = w\<lparr>w_output := w_output w @ cs\<rparr>"
  unfolding put_each_def
  by (induction cs arbitrary: w) (simp_all add: cf_putchar_def put_bytes_def assms)

lemma radix_digits_nonempty: "0 < n \<Longrightarrow> 2 \<le> b \<Longrightarrow> radix_digits b n \<noteq> []"
  by (subst radix_digits.simps) simp

lemma getint_loop_digits:
  assumes "input_ok st" "unread st = ds @ 32 # rest" "2 \<le> base" "base \<le> 36"
    and "list_all (\<lambda>c. digit_of base c \<noteq> None) ds" "ds \<noteq> []" "digits_value base 0 ds < 2 ^ 63"
  shows "\<exists>st'. getint_loop base st = (Rgi_success, Some (of_int (digits_value base 0 ds)), st') \<and> unread st' = 32 # rest"
proof -
  have "digit_of base 32 = None" by (simp add: digit_of_def digits_index_def)
  with getint_digits [OF assms(1), of "[]" ds 32 rest base] assms(2-)
  obtain st' where "input_getint base st = (Rgi_success, Some (of_int (digits_value base 0 ds)), st')"
    "unread st' = 32 # rest"
    by (cases "input_getint base st") auto
  then show ?thesis by (subst getint_loop.simps) simp
qed

text \<open>
  C36: \<open>N\<close> and \<open>I\<close> are inverse in every base from 2 to 36: the text that \<open>N\<close> prints for a positive number
  is read back by \<open>I\<close>, in the same base and at the start of an input, as the same number, and the blank
  that \<open>N\<close> adds stays for the next instruction; provided standard output takes what is printed and the
  estimated room suffices.
\<close>

theorem base_output_input:
  assumes "toss ip = xs @ [val, of_nat b]" "2 \<le> b" "b \<le> 36" "0 <s val"
    and "digits_suffice (cf_libm cf)"
    and "\<And>out bs. cf_stdout cf out bs"
  shows "\<exists>ip' w' shown. finger_BASE_output_base cf (ip, w) = Some (Running (ip', w')) \<and> toss ip' = xs \<and>
    w_output w' = w_output w @ shown @ [32] \<and>
    (\<forall>ip2 w2 ys rest. toss ip2 = ys @ [of_nat b] \<and> input_ok (w_input w2) \<and> unread (w_input w2) = shown @ 32 # rest \<longrightarrow>
       toss (fst (finger_BASE_input_base (ip2, w2))) = ys @ [val] \<and>
       unread (w_input (snd (finger_BASE_input_base (ip2, w2)))) = 32 # rest)"
proof -
  obtain s where s: "ip_pop ip = (of_nat b, ip_set_stack s ip)" "stack_list s = xs @ [val]"
    using ip_pop_top [of ip "xs @ [val]"] assms(1) by auto
  obtain s1 where s1: "ip_pop (ip_set_stack s ip) = (val, ip_set_stack s1 ip)" "stack_list s1 = xs"
    using ip_pop_top [of "ip_set_stack s ip" xs val] s(2) by (auto simp: ip_simps)
  define shown where "shown = rev (radix_digits b (unat val))"
  have b: "unat (of_nat b :: cell) = b" "sint (of_nat b :: cell) = int b"
    using assms(2,3) sint_of_int_cell [of "int b"] by (simp_all add: unat_of_nat take_bit_nat_eq_self)
  have valid: "\<not> (of_nat b <s (1 :: cell))" "\<not> (36 <s (of_nat b :: cell))" "(of_nat b :: cell) \<noteq> 1"
    using assms(2,3) b(2) by (auto simp: cell_less_iff) 
  have val: "\<not> val <s 0" "val \<noteq> 0" "0 < unat val" "int (unat val) = sint val" "sint val < 2 ^ 63"
    using assms(4) unat_eq_nat_sint [of val] cell_sint_lt [of val] by (auto simp: cell_less_iff)
  have shown: "digits_value (int b) 0 shown = sint val" "list_all (\<lambda>c. digit_of (int b) c \<noteq> None) shown" "shown \<noteq> []"
    using radix_digits_value [OF assms(2,3), of "unat val"] radix_digits_nonempty [OF val(3) assms(2)] val(4)
    by (simp_all add: shown_def list_all_rev)
  have "finger_BASE_output_base cf (ip, w) =
      Some (Running (ip_set_stack s1 ip, w\<lparr>w_output := w_output w @ shown @ [32]\<rparr>))"
    using digits_sufficeD [OF assms(5) base_positive(1) base_positive(2), OF valid(1,3) val(1,2)]
    by (simp add: finger_BASE_output_base_def s(1) s1(1) valid val(1,2) b(1) put_each_all [OF assms(6)] shown_def)
  moreover have "toss (fst (finger_BASE_input_base (ip2, w2))) = ys @ [val] \<and>
       unread (w_input (snd (finger_BASE_input_base (ip2, w2)))) = 32 # rest"
    if reads: "toss ip2 = ys @ [of_nat b]" "input_ok (w_input w2)" "unread (w_input w2) = shown @ 32 # rest" for ip2 w2 ys rest
  proof -
    obtain t where t: "ip_pop ip2 = (of_nat b, ip_set_stack t ip2)" "stack_list t = ys"
      using ip_pop_top [OF reads(1)] by auto
    obtain st' where "getint_loop (int b) (w_input w2) = (Rgi_success, Some (of_int (sint val)), st')" "unread st' = 32 # rest"
      using getint_loop_digits [OF reads(2,3), of "int b"] shown assms(2,3) val(5) by auto
    then show ?thesis
      by (simp add: finger_BASE_input_base_def t valid b(2) ip_simps of_int_sint_cell)
  qed
  ultimately show ?thesis using s1(2) by (auto simp: ip_simps)
qed

theorem base_output_input_witness:
  "\<exists>ip' w' shown. finger_BASE_output_base sample_config (ip_push 16 (ip_push 255 sample_ip), sample_world) =
      Some (Running (ip', w')) \<and> toss ip' = [7, 8] \<and> w_output w' = shown @ [32]"
proof -
  have "toss (ip_push 16 (ip_push 255 sample_ip)) = [7, 8] @ [255, of_nat 16]" by (simp add: ip_simps)
  moreover have "(0 :: cell) <s 255" by code_simp
  moreover have "digits_suffice (cf_libm sample_config)"
    using sample_digits by (simp add: sample_config_def)
  moreover have "cf_stdout sample_config out bs" for out bs by (simp add: sample_config_def)
  moreover have "w_output sample_world = []" by (simp add: sample_world_def)
  ultimately show ?thesis
    using base_output_input [of _ "[7, 8]" 255 16 sample_config sample_world] by fastforce
qed

end
