(* ===== verification/Fp_Cpli.thy ===== *)
theory Fp_Cpli
  imports Operation
begin

text \<open>
  The fingerprint CPLI, \<^verbatim>\<open>src/fingerprints/CPLI/CPLI.c\<close>: complex integers, each a real part below
  an imaginary part on the stack. The magnitude goes through a square root of the floating-point
  unit.
\<close>

definition finger_CPLI_add :: "instructionPointer \<Rightarrow> instructionPointer" where
  "finger_CPLI_add ip =
     (let (bi, ip) = ip_pop ip; (br, ip) = ip_pop ip; (ai, ip) = ip_pop ip; (ar, ip) = ip_pop ip
      in ip_push (ai + bi) (ip_push (ar + br) ip))"

definition finger_CPLI_div :: "instructionPointer \<Rightarrow> instructionPointer" where
  "finger_CPLI_div ip =
     (let (bi, ip) = ip_pop ip; (br, ip) = ip_pop ip; (ai, ip) = ip_pop ip; (ar, ip) = ip_pop ip;
          denom = bi * bi + br * br
      in ip_push (funge_division (ai * br - ar * bi) denom)
           (ip_push (funge_division (ai * bi + ar * br) denom) ip))"

definition finger_CPLI_mul :: "instructionPointer \<Rightarrow> instructionPointer" where
  "finger_CPLI_mul ip =
     (let (bi, ip) = ip_pop ip; (br, ip) = ip_pop ip; (ai, ip) = ip_pop ip; (ar, ip) = ip_pop ip
      in ip_push (ar * bi + ai * br) (ip_push (ar * br - ai * bi) ip))"

definition finger_CPLI_out :: "config \<Rightarrow> mach \<Rightarrow> mach" where
  "finger_CPLI_out cf m =
     (let (ip, w) = m; (i, ip) = ip_pop ip; (r, ip) = ip_pop ip;
          w = snd (put_bytes cf (show_cell r) w);
          w = (if 0 <s i then snd (put_bytes cf [43] w) else w)
      in (ip, snd (put_bytes cf (show_cell i @ [105, 32]) w)))"

definition finger_CPLI_sub :: "instructionPointer \<Rightarrow> instructionPointer" where
  "finger_CPLI_sub ip =
     (let (bi, ip) = ip_pop ip; (br, ip) = ip_pop ip; (ai, ip) = ip_pop ip; (ar, ip) = ip_pop ip
      in ip_push (ai - bi) (ip_push (ar - br) ip))"

definition finger_CPLI_abs :: "config \<Rightarrow> instructionPointer \<Rightarrow> instructionPointer" where
  "finger_CPLI_abs cf ip =
     (let (i, ip) = ip_pop ip; (r, ip) = ip_pop ip; ld = lm_ldouble (cf_libm cf);
          tmp = fl_sqrt ld (fl_of_cell ld (r * r + i * i))
      in ip_push (fl_to_cell ld tmp) ip)"

definition CPLI_operations :: "(string \<times> operation) list" where
  "CPLI_operations =
     [(''add'', returns (on_ip finger_CPLI_add)), (''div'', returns (on_ip finger_CPLI_div)),
      (''mul'', returns (on_ip finger_CPLI_mul)), (''out'', \<lambda>cf. returns (finger_CPLI_out cf) cf),
      (''sub'', returns (on_ip finger_CPLI_sub)), (''abs'', \<lambda>cf. returns (on_ip (finger_CPLI_abs cf)) cf)]"

section \<open>The frame\<close>

lemma frame_CPLI [frames]:
  "frame (finger_CPLI_add ip, w) = frame (ip, w)" "frame (finger_CPLI_div ip, w) = frame (ip, w)"
  "frame (finger_CPLI_mul ip, w) = frame (ip, w)" "frame (finger_CPLI_sub ip, w) = frame (ip, w)"
  "frame (finger_CPLI_abs cf ip, w) = frame (ip, w)" "frame (finger_CPLI_out cf m) = frame m"
  by (simp_all add: finger_CPLI_add_def finger_CPLI_div_def finger_CPLI_mul_def finger_CPLI_sub_def
      finger_CPLI_abs_def finger_CPLI_out_def split_beta Let_def frames)

lemma CPLI_keeps_frame: "\<forall>(name, operation) \<in> set CPLI_operations. keeps_frame operation"
  by (auto simp: CPLI_operations_def frames intro!: keeps_frame_returns keeps_frame_config)

lemma CPLI_crash_free: "\<forall>(name, operation) \<in> set CPLI_operations. crash_free operation"
  by (simp add: CPLI_operations_def crash_free_returns)

section \<open>Complex arithmetic\<close>

lemma four_pops:
  assumes "toss ip = xs @ [ar, ai, br, bi]"
  obtains s1 s2 s3 s4 where "ip_pop ip = (bi, ip_set_stack s1 ip)"
    "ip_pop (ip_set_stack s1 ip) = (br, ip_set_stack s2 ip)"
    "ip_pop (ip_set_stack s2 ip) = (ai, ip_set_stack s3 ip)"
    "ip_pop (ip_set_stack s3 ip) = (ar, ip_set_stack s4 ip)" "stack_list s4 = xs"
proof -
  obtain s1 where s1: "ip_pop ip = (bi, ip_set_stack s1 ip)" "stack_list s1 = xs @ [ar, ai, br]"
    using ip_pop_top [of ip "xs @ [ar, ai, br]" bi] assms by auto
  obtain s2 where s2: "ip_pop (ip_set_stack s1 ip) = (br, ip_set_stack s2 ip)" "stack_list s2 = xs @ [ar, ai]"
    using ip_pop_top [of "ip_set_stack s1 ip" "xs @ [ar, ai]" br] s1(2) by (auto simp: ip_simps)
  obtain s3 where s3: "ip_pop (ip_set_stack s2 ip) = (ai, ip_set_stack s3 ip)" "stack_list s3 = xs @ [ar]"
    using ip_pop_top [of "ip_set_stack s2 ip" "xs @ [ar]" ai] s2(2) by (auto simp: ip_simps)
  obtain s4 where s4: "ip_pop (ip_set_stack s3 ip) = (ar, ip_set_stack s4 ip)" "stack_list s4 = xs"
    using ip_pop_top [of "ip_set_stack s3 ip" xs ar] s3(2) by (auto simp: ip_simps)
  show thesis using that s1(1) s2(1) s3(1) s4 by blast
qed

lemma abs_product_bound:
  fixes x y :: int
  assumes "\<bar>x\<bar> \<le> a" "\<bar>y\<bar> \<le> b"
  shows "\<bar>x * y\<bar> \<le> a * b"
  using assms unfolding abs_mult by (intro mult_mono) auto

lemma small_norm:
  fixes br bi :: cell
  assumes "\<bar>sint br\<bar> < 2 ^ 20" "\<bar>sint bi\<bar> < 2 ^ 20"
  shows "sint (bi * bi + br * br) = sint bi * sint bi + sint br * sint br"
    "0 \<le> sint (bi * bi + br * br)" "sint (bi * bi + br * br) \<le> 2 ^ 41"
proof -
  have *: "\<bar>sint br * sint br\<bar> \<le> 2 ^ 20 * 2 ^ 20" "\<bar>sint bi * sint bi\<bar> \<le> 2 ^ 20 * 2 ^ 20"
    using assms by (intro abs_product_bound; simp)+
  then have "sint (br * br) = sint br * sint br" "sint (bi * bi) = sint bi * sint bi"
    using sint_mult_cell [of br br] sint_mult_cell [of bi bi] zero_le_square [of "sint br"]
      zero_le_square [of "sint bi"] by auto
  with * show sum: "sint (bi * bi + br * br) = sint bi * sint bi + sint br * sint br"
    using sint_add_cell [of "bi * bi" "br * br"] zero_le_square [of "sint br"] zero_le_square [of "sint bi"]
    by auto
  show "0 \<le> sint (bi * bi + br * br)" unfolding sum by simp
  show "sint (bi * bi + br * br) \<le> 2 ^ 41" unfolding sum using * by simp
qed

lemma exact_quotient:
  fixes a d :: cell
  assumes "\<bar>sint a\<bar> < 2 ^ 20" "0 < sint d" "sint d \<le> 2 ^ 41"
  shows "funge_division (a * d) d = a"
proof -
  have "\<bar>sint a * sint d\<bar> \<le> 2 ^ 20 * 2 ^ 41" using assms by (intro abs_product_bound) auto
  then have "sint (a * d) = sint a * sint d" using sint_mult_cell [of a d] by auto
  moreover have "d \<noteq> 0" "d \<noteq> - 1" using assms(2) by auto
  moreover have "(sint a * sint d) sdiv sint d = sint a"
    using assms(2) by (simp add: signed_divide_int_def abs_mult sgn_mult mult.commute [of "sgn (sint a)"] abs_mult_sgn)
  ultimately show ?thesis by (simp add: funge_division_def c_div_def of_int_sint_cell)
qed

text \<open>
  division undoes multiplication. For complex integers whose parts stay below \<open>2^20\<close> in magnitude,
  dividing the product of \<open>a\<close> and a \<open>b\<close> other than 0 by \<open>b\<close> leaves \<open>a\<close> on the stack, exactly and whatever
  the signs; dividing by 0 gives 0.
\<close>

theorem cpli_mul_div:
  assumes "toss ip = xs @ [ar, ai, br, bi]"
    and "\<bar>sint ar\<bar> < 2 ^ 20" "\<bar>sint ai\<bar> < 2 ^ 20" "\<bar>sint br\<bar> < 2 ^ 20" "\<bar>sint bi\<bar> < 2 ^ 20"
  shows "toss (finger_CPLI_div (ip_push bi (ip_push br (finger_CPLI_mul ip)))) =
    xs @ (if br = 0 \<and> bi = 0 then [0, 0] else [ar, ai])"
proof -
  obtain s1 s2 s3 s4 where pops: "ip_pop ip = (bi, ip_set_stack s1 ip)"
    "ip_pop (ip_set_stack s1 ip) = (br, ip_set_stack s2 ip)"
    "ip_pop (ip_set_stack s2 ip) = (ai, ip_set_stack s3 ip)"
    "ip_pop (ip_set_stack s3 ip) = (ar, ip_set_stack s4 ip)" "stack_list s4 = xs"
    by (rule four_pops [OF assms(1)])
  define re where "re = ar * br - ai * bi"
  define im where "im = ar * bi + ai * br"
  define ip2 where "ip2 = ip_push bi (ip_push br (finger_CPLI_mul ip))"
  have toss2: "toss ip2 = xs @ [re, im, br, bi]"
    by (simp add: ip2_def finger_CPLI_mul_def pops ip_simps re_def im_def)
  obtain t1 t2 t3 t4 where pops2: "ip_pop ip2 = (bi, ip_set_stack t1 ip2)"
    "ip_pop (ip_set_stack t1 ip2) = (br, ip_set_stack t2 ip2)"
    "ip_pop (ip_set_stack t2 ip2) = (im, ip_set_stack t3 ip2)"
    "ip_pop (ip_set_stack t3 ip2) = (re, ip_set_stack t4 ip2)" "stack_list t4 = xs"
    by (rule four_pops [OF toss2])
  define d where "d = bi * bi + br * br"
  have "im * bi + re * br = ar * d" "im * br - re * bi = ai * d"
    by (simp_all add: re_def im_def d_def algebra_simps)
  then have result: "toss (finger_CPLI_div ip2) = xs @ [funge_division (ar * d) d, funge_division (ai * d) d]"
    by (simp add: finger_CPLI_div_def pops2 Let_def ip_simps d_def)
  show ?thesis
  proof (cases "br = 0 \<and> bi = 0")
    case True
    then show ?thesis using result by (simp add: ip2_def d_def funge_division_def)
  next
    case False
    then have "0 < sint bi * sint bi + sint br * sint br"
      by (auto simp: cell_eq_iff sum_squares_gt_zero_iff)
    then have "0 < sint d" "sint d \<le> 2 ^ 41" using small_norm [OF assms(4,5)] by (simp_all add: d_def)
    with False result assms(2,3) show ?thesis by (auto simp: ip2_def exact_quotient)
  qed
qed

theorem cpli_mul_div_witness:
  "toss (finger_CPLI_div (ip_push (- 2) (ip_push 5
     (finger_CPLI_mul (ip_push (- 2) (ip_push 5 (ip_push 4 (ip_push (- 3) sample_ip)))))))) = [7, 8, - 3, 4]"
proof -
  have "toss (ip_push (- 2) (ip_push 5 (ip_push 4 (ip_push (- 3) sample_ip)))) = [7, 8] @ [- 3, 4, 5, - 2]"
    by (simp add: ip_simps)
  from cpli_mul_div [OF this] show ?thesis by simp
qed

text \<open>The sign between the parts is printed only for a positive imaginary part, so that \<open>5+0i\<close> comes out as \<open>50i\<close>.\<close>

lemma cpli_out_zero_imaginary:
  assumes "toss ip = xs @ [5, 0]" "\<And>out bs. cf_stdout cf out bs"
  shows "w_output (snd (finger_CPLI_out cf (ip, w))) = w_output w @ map (of_nat \<circ> of_char) ''50i ''"
proof -
  obtain s where s: "ip_pop ip = (0, ip_set_stack s ip)" "stack_list s = xs @ [5]"
    using ip_pop_top [of ip "xs @ [5]" 0] assms(1) by auto
  obtain s2 where s2: "ip_pop (ip_set_stack s ip) = (5, ip_set_stack s2 ip)"
    using ip_pop_top [of "ip_set_stack s ip" xs 5] s(2) by (auto simp: ip_simps)
  have "show_cell 5 = [53]" "show_cell 0 = [48]" by code_simp+
  then show ?thesis
    by (simp add: finger_CPLI_out_def s(1) s2 put_bytes_def assms(2) split_beta)
qed

end
