(* ===== verification/Fp_Date.thy ===== *)
theory Fp_Date
  imports Operation
begin

text \<open>
  The fingerprint DATE, \<^verbatim>\<open>src/fingerprints/DATE/DATE.c\<close>: the calendar. Divisions that round down go
  through \<open>floorl\<close>, the parameter \<open>lm_floor_div\<close>; what the theorems assume of it is that it is the exact
  floor of the quotient. There is no year 0: year -1 is followed by year 1.
\<close>

section \<open>The calendar\<close>

record ymd =
  ymd_year :: cell
  ymd_month :: cell
  ymd_day :: cell

abbreviation date_of :: "cell \<Rightarrow> cell \<Rightarrow> cell \<Rightarrow> ymd" where
  "date_of y m d \<equiv> \<lparr>ymd_year = y, ymd_month = m, ymd_day = d\<rparr>"

definition is_leap_year :: "cell \<Rightarrow> bool" where
  "is_leap_year y =
     (let y = (if y <s 0 then y + 1 else y)
      in if c_mod y 4 = 0 then
           if c_mod y 400 = 0 then True else if c_mod y 100 = 0 then False else True
         else False)"

definition month_length :: "ymd \<Rightarrow> cell" where
  "month_length date =
     (let month = ymd_month date
      in if month \<in> {1, 3, 5, 7, 8, 10, 12} then 31
         else if month = 2 then (if is_leap_year (ymd_year date) then 29 else 28)
         else 30)"

text \<open>A date that is not one is \<open>None\<close>; the instruction pointer is then reflected already.\<close>

definition pop_ymd :: "instructionPointer \<Rightarrow> ymd option \<times> instructionPointer" where
  "pop_ymd ip =
     (let (day, ip) = ip_pop ip; (month, ip) = ip_pop ip; (year, ip) = ip_pop ip;
          result = date_of year month day
      in if day \<le>s 0 \<or> month \<le>s 0 \<or> 12 <s month \<or> year = 0 then (None, ip_reverse ip)
         else if month_length result <s day then (None, ip_reverse ip)
         else (Some result, ip))"

definition push_ymd :: "ymd \<Rightarrow> instructionPointer \<Rightarrow> instructionPointer" where
  "push_ymd result ip =
     ip_push (ymd_day result) (ip_push (ymd_month result) (ip_push (ymd_year result) ip))"

definition ymd_to_julian :: "libm \<Rightarrow> ymd \<Rightarrow> cell" where
  "ymd_to_julian lm date =
     (let Y = ymd_year date;
          Y = (if Y <s 0 then Y + 1 else Y);
          a = lm_floor_div lm (14 - ymd_month date) 12;
          y = Y + 4800 - a;
          m = ymd_month date + 12 * a - 3
      in ymd_day date + lm_floor_div lm (153 * m + 2) 5 + 365 * y
         + lm_floor_div lm y 4 - lm_floor_div lm y 100 + lm_floor_div lm y 400 - 32045)"

definition julian_to_ymd :: "libm \<Rightarrow> cell \<Rightarrow> ymd" where
  "julian_to_ymd lm date =
     (let l = date + 68569;
          n = lm_floor_div lm (4 * l) 146097;
          l = l - lm_floor_div lm (146097 * n + 3) 4;
          i = lm_floor_div lm (4000 * (l + 1)) 1461001;
          l = l - lm_floor_div lm (1461 * i) 4 + 31;
          j = lm_floor_div lm (80 * l) 2447;
          day = l - lm_floor_div lm (2447 * j) 80;
          l = lm_floor_div lm j 11;
          month = j + 2 - 12 * l;
          year = 100 * (n - 49) + i + l
      in date_of (if year \<le>s 0 then year - 1 else year) month day)"

section \<open>The instructions\<close>

definition finger_DATE_add_days :: "config \<Rightarrow> instructionPointer \<Rightarrow> instructionPointer" where
  "finger_DATE_add_days cf ip =
     (let (days, ip) = ip_pop ip; (date, ip) = pop_ymd ip
      in case date of
           None \<Rightarrow> ip
         | Some date \<Rightarrow>
             push_ymd (julian_to_ymd (cf_libm cf) (ymd_to_julian (cf_libm cf) date + days)) ip)"

definition finger_DATE_jdn_to_ymd :: "config \<Rightarrow> instructionPointer \<Rightarrow> instructionPointer" where
  "finger_DATE_jdn_to_ymd cf ip =
     (let (date, ip) = ip_pop ip in push_ymd (julian_to_ymd (cf_libm cf) date) ip)"

definition finger_DATE_day_diff :: "config \<Rightarrow> instructionPointer \<Rightarrow> instructionPointer" where
  "finger_DATE_day_diff cf ip =
     (let (a, ip) = pop_ymd ip
      in case a of
           None \<Rightarrow> ip
         | Some a \<Rightarrow>
             (let (b, ip) = pop_ymd ip
              in case b of
                   None \<Rightarrow> ip
                 | Some b \<Rightarrow>
                     ip_push (ymd_to_julian (cf_libm cf) b - ymd_to_julian (cf_libm cf) a) ip))"

definition finger_DATE_ymd_to_jdn :: "config \<Rightarrow> instructionPointer \<Rightarrow> instructionPointer" where
  "finger_DATE_ymd_to_jdn cf ip =
     (let (date, ip) = pop_ymd ip
      in case date of None \<Rightarrow> ip | Some date \<Rightarrow> ip_push (ymd_to_julian (cf_libm cf) date) ip)"

text \<open>The loop over the months: \<open>n\<close> are left; \<open>month\<close> counts from 0.\<close>

fun month_loop :: "nat \<Rightarrow> cell \<Rightarrow> cell \<Rightarrow> cell \<Rightarrow> cell \<times> cell" where
  "month_loop 0 year month dmon = (month, dmon)"
| "month_loop (Suc n) year month dmon =
     (let mlength = month_length (date_of year (of_nat (12 - Suc n) + 1) 0)
      in if 0 <s dmon - mlength then month_loop n year (month + 1) (dmon - mlength) else (month, dmon))"

definition finger_DATE_year_day_to_full :: "instructionPointer \<Rightarrow> instructionPointer" where
  "finger_DATE_year_day_to_full ip =
     (let (doy, ip) = ip_pop ip; doy = doy + 1; (year, ip) = ip_pop ip
      in if (if is_leap_year year then 366 else 365) <s doy then ip_reverse ip
         else
           (let (month, dmon) = month_loop 12 year 0 doy
            in push_ymd (date_of year (month + 1) dmon) ip))"

definition finger_DATE_week_day :: "config \<Rightarrow> instructionPointer \<Rightarrow> instructionPointer" where
  "finger_DATE_week_day cf ip =
     (let (date, ip) = pop_ymd ip
      in case date of
           None \<Rightarrow> ip | Some date \<Rightarrow> ip_push (c_mod (ymd_to_julian (cf_libm cf) date) 7) ip)"

definition finger_DATE_year_day :: "config \<Rightarrow> instructionPointer \<Rightarrow> instructionPointer" where
  "finger_DATE_year_day cf ip =
     (let (date, ip) = pop_ymd ip
      in case date of
           None \<Rightarrow> ip
         | Some date \<Rightarrow>
             (let jdn = ymd_to_julian (cf_libm cf) date;
                  jdn_start = ymd_to_julian (cf_libm cf) (date_of (ymd_year date) 1 1)
              in ip_push (jdn - jdn_start) ip))"

definition DATE_operations :: "(string \<times> operation) list" where
  "DATE_operations =
     [(''add_days'', \<lambda>cf. returns (on_ip (finger_DATE_add_days cf)) cf),
      (''jdn_to_ymd'', \<lambda>cf. returns (on_ip (finger_DATE_jdn_to_ymd cf)) cf),
      (''day_diff'', \<lambda>cf. returns (on_ip (finger_DATE_day_diff cf)) cf),
      (''ymd_to_jdn'', \<lambda>cf. returns (on_ip (finger_DATE_ymd_to_jdn cf)) cf),
      (''year_day_to_full'', returns (on_ip finger_DATE_year_day_to_full)),
      (''week_day'', \<lambda>cf. returns (on_ip (finger_DATE_week_day cf)) cf),
      (''year_day'', \<lambda>cf. returns (on_ip (finger_DATE_year_day cf)) cf)]"

section \<open>The frame\<close>

lemma frame_ymd [frames]:
  "frame (snd (pop_ymd ip), w) = frame (ip, w)" "frame (push_ymd d ip, w) = frame (ip, w)"
  by (simp_all add: pop_ymd_def push_ymd_def split_beta Let_def frames)

lemma frame_DATE [frames]:
  "frame (finger_DATE_add_days cf ip, w) = frame (ip, w)" "frame (finger_DATE_jdn_to_ymd cf ip, w) = frame (ip, w)"
  "frame (finger_DATE_day_diff cf ip, w) = frame (ip, w)" "frame (finger_DATE_ymd_to_jdn cf ip, w) = frame (ip, w)"
  "frame (finger_DATE_year_day_to_full ip, w) = frame (ip, w)" "frame (finger_DATE_week_day cf ip, w) = frame (ip, w)"
  "frame (finger_DATE_year_day cf ip, w) = frame (ip, w)"
  by (simp_all add: finger_DATE_add_days_def finger_DATE_jdn_to_ymd_def finger_DATE_day_diff_def
      finger_DATE_ymd_to_jdn_def finger_DATE_year_day_to_full_def finger_DATE_week_day_def
      finger_DATE_year_day_def split_beta Let_def frames split: option.split)

lemma DATE_keeps_frame: "\<forall>(name, operation) \<in> set DATE_operations. keeps_frame operation"
  by (auto simp: DATE_operations_def frames intro!: keeps_frame_returns keeps_frame_config)

lemma DATE_crash_free: "\<forall>(name, operation) \<in> set DATE_operations. crash_free operation"
  by (simp add: DATE_operations_def crash_free_returns)

section \<open>The calendar over the integers\<close>

definition leap :: "int \<Rightarrow> bool" where
  "leap y \<longleftrightarrow> 4 dvd y \<and> (100 dvd y \<longrightarrow> 400 dvd y)"

text \<open>The astronomical year: year -1 is 0.\<close>

definition astro :: "cell \<Rightarrow> int" where
  "astro y = (if sint y < 0 then sint y + 1 else sint y)"

definition days_in :: "int \<Rightarrow> int \<Rightarrow> int" where
  "days_in y m = (if m \<in> {1, 3, 5, 7, 8, 10, 12} then 31 else if m = 2 then (if leap y then 29 else 28) else 30)"

definition valid_date :: "ymd \<Rightarrow> bool" where
  "valid_date d \<longleftrightarrow> ymd_year d \<noteq> 0 \<and> 1 \<le> sint (ymd_month d) \<and> sint (ymd_month d) \<le> 12 \<and>
     1 \<le> sint (ymd_day d) \<and> sint (ymd_day d) \<le> days_in (astro (ymd_year d)) (sint (ymd_month d))"

text \<open>Years and months that begin in March.\<close>

definition jdn :: "int \<Rightarrow> int \<Rightarrow> int \<Rightarrow> int" where
  "jdn y m d =
     (let a = (14 - m) div 12; y = y + 4800 - a; m = m + 12 * a - 3
      in d + (153 * m + 2) div 5 + 365 * y + y div 4 - y div 100 + y div 400 - 32045)"

definition jdn_inverse :: "int \<Rightarrow> int \<times> int \<times> int" where
  "jdn_inverse date =
     (let l = date + 68569; n = (4 * l) div 146097; l = l - (146097 * n + 3) div 4;
          i = (4000 * (l + 1)) div 1461001; l = l - (1461 * i) div 4 + 31; j = (80 * l) div 2447;
          day = l - (2447 * j) div 80; l = j div 11
      in (100 * (n - 49) + i + l, j + 2 - 12 * l, day))"

lemma div_eqI: "(b :: int) * q \<le> a \<Longrightarrow> a < b * q + b \<Longrightarrow> 0 < b \<Longrightarrow> a div b = q"
  by (rule int_div_pos_eq [of a b q "a - b * q"]) auto

lemma times_div_four:
  fixes b x :: int
  assumes "b mod 4 = 1"
  shows "4 * ((b * x) div 4) = b * x - x mod 4"
proof -
  have "(b * x) mod 4 = x mod 4" using assms mod_mult_left_eq [of b 4 x] by simp
  then show ?thesis using minus_mod_eq_mult_div [of "b * x" 4] by simp
qed

lemma div_split_four:
  fixes b x :: int
  shows "((4 * b + 1) * x) div 4 = b * x + x div 4"
proof -
  have "(4 * b + 1) * x = x + 4 * (b * x)" by (simp add: algebra_simps)
  then show ?thesis by simp
qed

text \<open>The century and the year in it, of a day of the March calendar.\<close>

lemma jdn_inverse_century:
  fixes c k t l :: int
  assumes "0 \<le> k" "k \<le> 99" "0 \<le> t" "t \<le> 365" "t = 365 \<longrightarrow> k mod 4 = 3 \<and> (k = 99 \<longrightarrow> c mod 4 = 3)"
    and l: "l = t + 1 + (146097 * c) div 4 + (1461 * k) div 4 + 36524"
  shows "(4 * l) div 146097 = c + 1"
    and "l - (146097 * (c + 1) + 3) div 4 = t + (1461 * k) div 4"
    and "(4000 * (t + (1461 * k) div 4 + 1)) div 1461001 = k"
proof -
  have c4: "4 * ((146097 * c) div 4) = 146097 * c - c mod 4" by (rule times_div_four) simp
  have k4: "4 * ((1461 * k) div 4) = 1461 * k - k mod 4" by (rule times_div_four) simp
  have m: "0 \<le> c mod 4" "c mod 4 \<le> 3" "0 \<le> k mod 4" "k mod 4 \<le> 3" by simp_all
  have full: "4 * t + 1461 * k - k mod 4 + 3 - c mod 4 < 146097"
  proof (cases "t = 365 \<and> k = 99")
    case True
    then show ?thesis using assms(5) by simp
  next
    case False
    then have "4 * t + 1461 * k - k mod 4 \<le> 4 * 36523"
    proof (cases "k = 99")
      case True
      then show ?thesis using False assms(4) by simp
    next
      case k: False
      then have "k \<le> 98" using assms(2) by simp
      then show ?thesis using assms(4) m(3) by linarith
    qed
    then show ?thesis using m by linarith
  qed
  have "k mod 4 \<le> k" by (rule zmod_le_nonneg_dividend [OF assms(1)])
  then show "(4 * l) div 146097 = c + 1"
    using full m assms(1,3) c4 k4 by (intro div_eqI) (simp_all add: l)
  have "146097 * (c + 1) + 3 = 146097 * c + 4 * 36525" by simp
  then have "(146097 * (c + 1) + 3) div 4 = (146097 * c) div 4 + 36525" by (simp only: div_mult_self2)
  then show "l - (146097 * (c + 1) + 3) div 4 = t + (1461 * k) div 4" by (simp add: l)
  have "4000 * ((1461 * k) div 4) = 1461000 * k - 1000 * (k mod 4)" using k4 by simp
  moreover have "4000 * t + 4000 - 1000 * (k mod 4) < k + 1461001"
    using assms(1,4,5) m by (cases "t = 365") auto
  ultimately show "(4000 * (t + (1461 * k) div 4 + 1)) div 1461001 = k"
    using assms(1-3) m by (intro div_eqI) (simp_all add: algebra_simps)
qed

text \<open>The month and the day, of a day of a year that begins in March; \<open>p\<close> counts the months from March.\<close>

definition march_length :: "int \<Rightarrow> int" where
  "march_length p = (if p \<in> {1, 3, 6, 8} then 30 else if p = 11 then 29 else 31)"

lemma jdn_inverse_month:
  fixes p d :: int
  assumes "0 \<le> p" "p \<le> 11" "1 \<le> d" "d \<le> march_length p"
  shows "(80 * (d - 1 + (153 * p + 2) div 5 + 31)) div 2447 = p + 1"
    "d - 1 + (153 * p + 2) div 5 + 31 - (2447 * (p + 1)) div 80 = d"
    "(p + 1) div 11 = (if p < 10 then 0 else 1)"
proof -
  have p: "p = 0 \<or> p = 1 \<or> p = 2 \<or> p = 3 \<or> p = 4 \<or> p = 5 \<or> p = 6 \<or> p = 7 \<or> p = 8 \<or> p = 9 \<or> p = 10 \<or> p = 11"
    using assms(1,2) by presburger
  show "(80 * (d - 1 + (153 * p + 2) div 5 + 31)) div 2447 = p + 1"
    using p assms(3,4) by (elim disjE; intro div_eqI) (simp_all add: march_length_def)
  show "d - 1 + (153 * p + 2) div 5 + 31 - (2447 * (p + 1)) div 80 = d" "(p + 1) div 11 = (if p < 10 then 0 else 1)"
    using p by (elim disjE; simp)+
qed

text \<open>A date in the March calendar.\<close>

definition valid :: "int \<Rightarrow> int \<Rightarrow> int \<Rightarrow> bool" where
  "valid y m d \<longleftrightarrow> 1 \<le> m \<and> m \<le> 12 \<and> 1 \<le> d \<and> d \<le> days_in y m"

lemma march_calendar:
  assumes "valid y m d"
  obtains c k p a t where "0 \<le> k" "k \<le> 99" "0 \<le> p" "p \<le> 11" "1 \<le> d" "d \<le> march_length p"
    "t = d - 1 + (153 * p + 2) div 5" "0 \<le> t" "t \<le> 365" "t = 365 \<longrightarrow> k mod 4 = 3 \<and> (k = 99 \<longrightarrow> c mod 4 = 3)"
    "jdn y m d = t + 1 + (146097 * c) div 4 + (1461 * k) div 4 - 32045"
    "m = p + 3 - 12 * a" "a = (if p < 10 then 0 else 1)" "y = 100 * c + k - 4800 + a"
proof -
  define a where "a = (14 - m) div 12"
  define p where "p = m + 12 * a - 3"
  define y' where "y' = y + 4800 - a"
  define c where "c = y' div 100"
  define k where "k = y' mod 100"
  define t where "t = d - 1 + (153 * p + 2) div 5"
  have m: "1 \<le> m" "m \<le> 12" "1 \<le> d" "d \<le> days_in y m" using assms by (simp_all add: valid_def)
  then have a: "a = (if m \<le> 2 then 1 else 0)" by (auto simp: a_def intro: div_eqI)
  have p: "0 \<le> p" "p \<le> 11" "a = (if p < 10 then 0 else 1)" "m = p + 3 - 12 * a"
    using m a by (auto simp: p_def)
  have y': "y' = 100 * c + k" "0 \<le> k" "k \<le> 99" using mult_div_mod_eq [of 100 y'] pos_mod_bound [of 100 y'] by (auto simp: c_def k_def)
  have "m = 1 \<or> m = 2 \<or> m = 3 \<or> m = 4 \<or> m = 5 \<or> m = 6 \<or> m = 7 \<or> m = 8 \<or> m = 9 \<or> m = 10 \<or> m = 11 \<or> m = 12"
    using m(1,2) by presburger
  then have len: "march_length p = (if p = 11 then 29 else days_in y m)" "(153 * p + 2) div 5 + march_length p \<le> 366"
    "0 \<le> (153 * p + 2) div 5" "p \<noteq> 11 \<Longrightarrow> (153 * p + 2) div 5 + march_length p \<le> 337"
    "days_in y m \<le> march_length p"
    using a by (elim disjE; simp add: p_def march_length_def days_in_def)+
  have t: "0 \<le> t" "t \<le> 365" "d \<le> march_length p" using len m by (auto simp: t_def)
  have "k mod 4 = 3 \<and> (k = 99 \<longrightarrow> c mod 4 = 3)" if "t = 365"
  proof -
    have "p = 11" using that len m(4) by (auto simp: t_def)
    then have "m = 2" "y = y' + 1 - 4800" "d = 29" using p(3,4) that by (simp_all add: y'_def t_def)
    then have "leap (y' + 1 - 4800)" using m(4) by (auto simp: days_in_def split: if_splits)
    then have *: "4 dvd k + 100 * c - 4799" "k = 99 \<Longrightarrow> 100 * 4 dvd 100 * (c - 47)"
      by (auto simp: leap_def y'(1) algebra_simps)
    have "4 dvd k + 1" using dvd_diff [OF *(1), of "4 * (25 * c - 1200)"] by (simp add: algebra_simps)
    moreover have "4 dvd c - 47" if "k = 99" using *(2) [OF that] by (simp only: dvd_mult_cancel_left) simp
    ultimately show ?thesis by presburger
  qed
  moreover have y: "y' div 4 = 25 * c + k div 4" "y' div 100 = c" "y' div 400 = c div 4"
    using y'(2,3) unfolding y'(1) by (auto intro: div_eqI)
  have "(146097 * c) div 4 = 36524 * c + c div 4" "(1461 * k) div 4 = 365 * k + k div 4"
    using div_split_four [of 36524 c] div_split_four [of 365 k] by simp_all
  then have "jdn y m d = t + 1 + (146097 * c) div 4 + (1461 * k) div 4 - 32045"
    unfolding jdn_def Let_def a_def [symmetric] y'_def [symmetric] p_def [symmetric] y t_def
    by (simp add: y'(1))
  moreover have "y = 100 * c + k - 4800 + a" using y'(1) by (simp add: y'_def)
  ultimately show thesis
    using that [OF y'(2,3) p(1,2) m(3) t(3) t_def t(1,2)] p(3,4) by blast
qed

lemma jdn_inverse_jdn:
  assumes "valid y m d"
  shows "jdn_inverse (jdn y m d) = (y, m, d)"
proof -
  obtain c k p a t where k: "0 \<le> k" "k \<le> 99" and p: "0 \<le> p" "p \<le> 11" "1 \<le> d" "d \<le> march_length p"
    and t: "t = d - 1 + (153 * p + 2) div 5" "0 \<le> t" "t \<le> 365" "t = 365 \<longrightarrow> k mod 4 = 3 \<and> (k = 99 \<longrightarrow> c mod 4 = 3)"
    and j: "jdn y m d = t + 1 + (146097 * c) div 4 + (1461 * k) div 4 - 32045"
    and m: "m = p + 3 - 12 * a" "a = (if p < 10 then 0 else 1)" "y = 100 * c + k - 4800 + a"
    by (rule march_calendar [OF assms])
  have l: "jdn y m d + 68569 = t + 1 + (146097 * c) div 4 + (1461 * k) div 4 + 36524" using j by simp
  note century = jdn_inverse_century [OF k t(2-4) l]
  note month = jdn_inverse_month [OF p, folded t(1)]
  have drop: "t + (1461 * k) div 4 - (1461 * k) div 4 + 31 = t + 31" by simp
  have y: "100 * (c + 1 - 49) + k + a = y" "p + 1 + 2 - 12 * a = m" using m(1,3) by simp_all
  show ?thesis
    unfolding jdn_inverse_def Let_def century(1) century(2)
      century(3) drop month m(2) [symmetric] y
    by (rule refl)
qed

section \<open>The calendar over cells\<close>

definition floors_exact :: "libm \<Rightarrow> bool" where
  "floors_exact lm \<longleftrightarrow> (\<forall>a b. 0 <s b \<longrightarrow> lm_floor_div lm a b = word_of_int (sint a div sint b))"

lemma floors_exact_sample: "floors_exact sample_libm"
  by (simp add: floors_exact_def sample_libm_def)

lemma floor_div_of_int:
  assumes "floors_exact lm" "\<bar>x\<bar> < 2 ^ 63"
  shows "lm_floor_div lm (word_of_int x) 12 = word_of_int (x div 12)"
    "lm_floor_div lm (word_of_int x) 5 = word_of_int (x div 5)"
    "lm_floor_div lm (word_of_int x) 4 = word_of_int (x div 4)"
    "lm_floor_div lm (word_of_int x) 100 = word_of_int (x div 100)"
    "lm_floor_div lm (word_of_int x) 400 = word_of_int (x div 400)"
    "lm_floor_div lm (word_of_int x) 146097 = word_of_int (x div 146097)"
    "lm_floor_div lm (word_of_int x) 1461001 = word_of_int (x div 1461001)"
    "lm_floor_div lm (word_of_int x) 2447 = word_of_int (x div 2447)"
    "lm_floor_div lm (word_of_int x) 80 = word_of_int (x div 80)"
    "lm_floor_div lm (word_of_int x) 11 = word_of_int (x div 11)"
  using assms sint_of_int_cell [of x] by (simp_all add: floors_exact_def cell_less_iff abs_less_iff)

lemma astro_cell: "(if y <s 0 then y + 1 else y) = (word_of_int (astro y) :: cell)"
  by (auto simp: astro_def cell_less_iff of_int_sint_cell)

lemma ymd_to_julian_int:
  assumes "floors_exact lm" "\<bar>astro y\<bar> \<le> 10 ^ 12" "1 \<le> sint m" "sint m \<le> 12"
  shows "ymd_to_julian lm (date_of y m d) = word_of_int (jdn (astro y) (sint m) (sint d))"
proof -
  define a where "a = (14 - sint m) div 12"
  define y' where "y' = astro y + 4800 - a"
  define m' where "m' = sint m + 12 * a - 3"
  have a: "0 \<le> a" "a \<le> 1" using assms(3,4) by (auto simp: a_def)
  then have small: "\<bar>y'\<bar> < 2 ^ 62" "\<bar>153 * m' + 2\<bar> < 2 ^ 63" "\<bar>14 - sint m\<bar> < 2 ^ 63"
    using assms(2-4) by (auto simp: y'_def m'_def)
  have m: "14 - m = word_of_int (14 - sint m)" by (simp add: of_int_sint_cell)
  have 1: "lm_floor_div lm (14 - m) 12 = word_of_int a"
    unfolding m floor_div_of_int(1) [OF assms(1) small(3)] by (simp add: a_def)
  have 2: "word_of_int (astro y) + 4800 - word_of_int a = (word_of_int y' :: cell)" by (simp add: y'_def)
  have 3: "153 * (m + 12 * word_of_int a - 3) + 2 = (word_of_int (153 * m' + 2) :: cell)"
    by (simp add: m'_def of_int_sint_cell)
  have J: "jdn (astro y) (sint m) (sint d) =
      sint d + (153 * m' + 2) div 5 + 365 * y' + y' div 4 - y' div 100 + y' div 400 - 32045"
    by (simp only: jdn_def Let_def a_def y'_def m'_def)
  show ?thesis
    unfolding ymd_to_julian_def Let_def ymd.select_convs astro_cell 1 2 3 floor_div_of_int(2) [OF assms(1) small(2)] J
    using small(1) assms(1) by (simp add: floor_div_of_int of_int_sint_cell)
qed

lemma julian_to_ymd_int:
  assumes "floors_exact lm" "\<bar>j\<bar> \<le> 10 ^ 15" "jdn_inverse j = (y, m, d)"
  shows "julian_to_ymd lm (word_of_int j) =
    date_of (word_of_int (if y \<le> 0 then y - 1 else y)) (word_of_int m) (word_of_int d)"
proof -
  define l where "l = j + 68569"
  define n where "n = (4 * l) div 146097"
  define l1 where "l1 = l - (146097 * n + 3) div 4"
  define i where "i = (4000 * (l1 + 1)) div 1461001"
  define l2 where "l2 = l1 - (1461 * i) div 4 + 31"
  define k where "k = (80 * l2) div 2447"
  define e where "e = k div 11"
  have l: "\<bar>l\<bar> \<le> 2 * 10 ^ 15" using assms(2) by (simp add: l_def)
  have "146097 * n \<le> 4 * l" "4 * l < 146097 * n + 146097"
    unfolding n_def using mult_div_mod_eq [of 146097 "4 * l"] pos_mod_bound [of 146097 "4 * l"] pos_mod_sign [of 146097 "4 * l"]
    by linarith+
  moreover have "4 * ((146097 * n + 3) div 4) \<le> 146097 * n + 3" "146097 * n + 3 < 4 * ((146097 * n + 3) div 4) + 4"
    using mult_div_mod_eq [of 4 "146097 * n + 3"] pos_mod_bound [of 4 "146097 * n + 3"] pos_mod_sign [of 4 "146097 * n + 3"]
    by linarith+
  ultimately have l1: "- 1 \<le> l1" "l1 \<le> 36525" and n: "\<bar>n\<bar> \<le> 10 ^ 11"
    using l by (auto simp: l1_def)
  have i: "0 \<le> i" "i \<le> 100" using l1 by (auto simp: i_def)
  have "0 \<le> (1461 * i) div 4" "(1461 * i) div 4 \<le> 36525" using i by auto
  then have l2: "- 36525 \<le> l2" "l2 \<le> 36556" using l1 by (auto simp: l2_def)
  have k: "- 1200 \<le> k" "k \<le> 1200" using l2 by (auto simp: k_def)
  have e: "- 110 \<le> e" "e \<le> 110" using k by (auto simp: e_def)
  have small: "\<bar>4 * l\<bar> < 2 ^ 63" "\<bar>146097 * n + 3\<bar> < 2 ^ 63" "\<bar>4000 * (l1 + 1)\<bar> < 2 ^ 63" "\<bar>1461 * i\<bar> < 2 ^ 63"
    "\<bar>80 * l2\<bar> < 2 ^ 63" "\<bar>2447 * k\<bar> < 2 ^ 63" "\<bar>k\<bar> < 2 ^ 63"
    using l n l1 i l2 k by auto
  have y: "y = 100 * (n - 49) + i + e" "m = k + 2 - 12 * e" "d = l2 - (2447 * k) div 80"
    using assms(3)
    unfolding jdn_inverse_def Let_def l_def [symmetric] n_def [symmetric] l1_def [symmetric] i_def [symmetric]
      l2_def [symmetric] k_def [symmetric] e_def [symmetric] by simp_all
  have e1: "word_of_int j + 68569 = (word_of_int l :: cell)" by (simp add: l_def)
  have e2: "lm_floor_div lm (4 * word_of_int l) 146097 = word_of_int n"
    using floor_div_of_int(6) [OF assms(1) small(1)] by (simp add: n_def)
  have e3: "word_of_int l - lm_floor_div lm (146097 * word_of_int n + 3) 4 = word_of_int l1"
    using floor_div_of_int(3) [OF assms(1) small(2)] by (simp add: l1_def)
  have e4: "lm_floor_div lm (4000 * (word_of_int l1 + 1)) 1461001 = word_of_int i"
    using floor_div_of_int(7) [OF assms(1) small(3)] by (simp add: i_def)
  have e5: "word_of_int l1 - lm_floor_div lm (1461 * word_of_int i) 4 + 31 = word_of_int l2"
    using floor_div_of_int(3) [OF assms(1) small(4)] by (simp add: l2_def)
  have e6: "lm_floor_div lm (80 * word_of_int l2) 2447 = word_of_int k"
    using floor_div_of_int(8) [OF assms(1) small(5)] by (simp add: k_def)
  have e7: "word_of_int l2 - lm_floor_div lm (2447 * word_of_int k) 80 = word_of_int d"
    using floor_div_of_int(9) [OF assms(1) small(6)] by (simp add: y)
  have e8: "lm_floor_div lm (word_of_int k) 11 = word_of_int e"
    using floor_div_of_int(10) [OF assms(1) small(7)] by (simp add: e_def)
  have e9: "word_of_int k + 2 - 12 * word_of_int e = (word_of_int m :: cell)" by (simp add: y)
  have e10: "100 * (word_of_int n - 49) + word_of_int i + word_of_int e = (word_of_int y :: cell)" by (simp add: y)
  have e11: "(word_of_int y \<le>s (0 :: cell)) = (y \<le> 0)"
    using n i e sint_of_int_cell [of y] by (simp add: y(1) word_sle_eq)
  show ?thesis
    unfolding julian_to_ymd_def Let_def e1 e2 e3 e4 e5 e6 e7 e8 e9 e10 e11 by simp
qed

section \<open>Properties\<close>

lemma c_mod_zero: "0 < sint b \<Longrightarrow> c_mod a b = 0 \<longleftrightarrow> sint b dvd sint a"
  by (simp add: cell_eq_iff [of "c_mod a b"] sint_c_mod smod_int_alt_def)
    (metis abs_of_pos dvd_abs_iff dvd_eq_mod_eq_0 sgn_0_0 mod_0 abs_zero)

lemma is_leap_year_leap: "\<bar>astro y\<bar> < 2 ^ 63 \<Longrightarrow> is_leap_year y = leap (astro y)"
  using c_mod_zero [of 4 "word_of_int (astro y)"] c_mod_zero [of 100 "word_of_int (astro y)"]
    c_mod_zero [of 400 "word_of_int (astro y)"] sint_of_int_cell [of "astro y"]
  by (auto simp: is_leap_year_def astro_cell leap_def Let_def abs_less_iff)

lemma astro_bound: "\<bar>astro y\<bar> < 2 ^ 63"
  using cell_sint_range [of y] by (auto simp: astro_def abs_less_iff)

lemma month_length_days:
  assumes "1 \<le> sint m" "sint m \<le> 12"
  shows "sint (month_length (date_of y m d)) = days_in (astro y) (sint m)"
  using is_leap_year_leap [OF astro_bound] by (simp add: month_length_def days_in_def cell_eq_iff)

text \<open>Popping a date.\<close>

lemma pop_ymd_cases:
  assumes "toss ip = xs @ [y, m, d]"
  obtains s where "stack_list s = xs"
    "pop_ymd ip = (if valid_date (date_of y m d) then (Some (date_of y m d), ip_set_stack s ip)
       else (None, ip_reverse (ip_set_stack s ip)))"
proof -
  obtain s1 where s1: "ip_pop ip = (d, ip_set_stack s1 ip)" "stack_list s1 = xs @ [y, m]"
    using ip_pop_top [of ip "xs @ [y, m]" d] assms by auto
  obtain s2 where s2: "ip_pop (ip_set_stack s1 ip) = (m, ip_set_stack s2 ip)" "stack_list s2 = xs @ [y]"
    using ip_pop_top [of "ip_set_stack s1 ip" "xs @ [y]" m] s1(2) by (auto simp: ip_simps)
  obtain s3 where s3: "ip_pop (ip_set_stack s2 ip) = (y, ip_set_stack s3 ip)" "stack_list s3 = xs"
    using ip_pop_top [of "ip_set_stack s2 ip" xs y] s2(2) by (auto simp: ip_simps)
  have "valid_date (date_of y m d) \<longleftrightarrow>
      \<not> (d \<le>s 0 \<or> m \<le>s 0 \<or> 12 <s m \<or> y = 0) \<and> \<not> month_length (date_of y m d) <s d"
    using month_length_days [of m y d] by (auto simp: valid_date_def cell_order)
  then show thesis
    using that [OF s3(2)] by (simp add: pop_ymd_def s1 s2 s3 Let_def)
qed

lemma toss_push_ymd: "toss (push_ymd d ip) = toss ip @ [ymd_year d, ymd_month d, ymd_day d]"
  by (simp add: push_ymd_def ip_simps)

lemma days_in_bounds: "28 \<le> days_in y m" "days_in y m \<le> 31"
  by (simp_all add: days_in_def)

lemma abs_div_le:
  fixes x b :: int
  assumes "0 < b"
  shows "\<bar>x div b\<bar> \<le> \<bar>x\<bar>"
proof (cases "0 \<le> x")
  case True
  then show ?thesis using assms zdiv_mono2 [of x 1 b] by (simp add: pos_imp_zdiv_nonneg_iff)
next
  case False
  then have "x div b < 0" "x \<le> x div b"
    using assms zdiv_mono2_neg [of x 1 b] by (simp_all add: pos_imp_zdiv_neg_iff)
  then show ?thesis using False by simp
qed

lemma jdn_bound:
  assumes "\<bar>y\<bar> \<le> 10 ^ 11 + 1" "1 \<le> m" "m \<le> 12" "1 \<le> d" "d \<le> 31"
  shows "\<bar>jdn y m d\<bar> \<le> 10 ^ 14"
proof -
  define a where "a = (14 - m) div 12"
  define y' where "y' = y + 4800 - a"
  have a: "0 \<le> a" "a \<le> 1" using assms(2,3) by (auto simp: a_def)
  then have y': "\<bar>y'\<bar> \<le> 10 ^ 11 + 5000" using assms(1) by (auto simp: y'_def)
  have q: "0 \<le> (153 * (m + 12 * a - 3) + 2) div 5 + 62" "(153 * (m + 12 * a - 3) + 2) div 5 \<le> 700"
    using a assms(2,3) by auto
  have "jdn y m d = d + (153 * (m + 12 * a - 3) + 2) div 5 + 365 * y' + y' div 4 - y' div 100 + y' div 400 - 32045"
    by (simp only: jdn_def Let_def a_def y'_def)
  moreover have "\<bar>y' div 4\<bar> \<le> 10 ^ 11 + 5000" "\<bar>y' div 100\<bar> \<le> 10 ^ 11 + 5000" "\<bar>y' div 400\<bar> \<le> 10 ^ 11 + 5000"
    by (rule order_trans [OF abs_div_le y']; simp)+
  ultimately show ?thesis using q y' assms(4,5) by (auto simp: abs_le_iff)
qed

text \<open>A date whose year the calendar formulas take without wrap-around.\<close>

definition usual_date :: "ymd \<Rightarrow> bool" where
  "usual_date d \<longleftrightarrow> valid_date d \<and> \<bar>sint (ymd_year d)\<bar> \<le> 10 ^ 11"

lemma usual_date_julian:
  assumes "floors_exact lm" "usual_date d"
  shows "ymd_to_julian lm d = word_of_int (jdn (astro (ymd_year d)) (sint (ymd_month d)) (sint (ymd_day d)))"
    "\<bar>jdn (astro (ymd_year d)) (sint (ymd_month d)) (sint (ymd_day d))\<bar> \<le> 10 ^ 14"
proof -
  have v: "1 \<le> sint (ymd_month d)" "sint (ymd_month d) \<le> 12" "1 \<le> sint (ymd_day d)" "sint (ymd_day d) \<le> 31"
    "\<bar>astro (ymd_year d)\<bar> \<le> 10 ^ 11 + 1"
    using assms(2) days_in_bounds(2) [of "astro (ymd_year d)" "sint (ymd_month d)"]
    by (auto simp: usual_date_def valid_date_def astro_def)
  then show "\<bar>jdn (astro (ymd_year d)) (sint (ymd_month d)) (sint (ymd_day d))\<bar> \<le> 10 ^ 14"
    by (intro jdn_bound)
  show "ymd_to_julian lm d = word_of_int (jdn (astro (ymd_year d)) (sint (ymd_month d)) (sint (ymd_day d)))"
    using ymd_to_julian_int [OF assms(1), of "ymd_year d" "ymd_month d" "ymd_day d"] v by (cases d) simp
qed

lemma julian_round_trip:
  assumes "floors_exact lm" "usual_date d"
  shows "julian_to_ymd lm (ymd_to_julian lm d) = d"
proof -
  let ?y = "astro (ymd_year d)"
  have v: "valid ?y (sint (ymd_month d)) (sint (ymd_day d))" "ymd_year d \<noteq> 0"
    using assms(2) by (simp_all add: usual_date_def valid_date_def valid_def)
  have "word_of_int (if ?y \<le> 0 then ?y - 1 else ?y) = ymd_year d"
    using v(2) by (auto simp: astro_def of_int_sint_cell cell_eq_iff [of _ 0])
  then show ?thesis
    using julian_to_ymd_int [OF assms(1) _ jdn_inverse_jdn [OF v(1)]] usual_date_julian [OF assms]
    by (cases d) (simp add: of_int_sint_cell)
qed

subsection \<open>The days one after the other\<close>

text \<open>The calendar without a formula: the day after a date, with year, month and day; year 1 follows year -1.\<close>

definition astro_year :: "int \<Rightarrow> int" where
  "astro_year y = (if y < 0 then y + 1 else y)"

definition next_day :: "int \<times> int \<times> int \<Rightarrow> int \<times> int \<times> int" where
  "next_day date =
     (let (y, m, d) = date
      in if d < days_in (astro_year y) m then (y, m, d + 1)
         else if m < 12 then (y, m + 1, 1)
         else (if y = - 1 then 1 else y + 1, 1, 1))"

text \<open>The number of days from one date to another: negative if the other one is earlier.\<close>

definition days_between :: "int \<times> int \<times> int \<Rightarrow> int \<times> int \<times> int \<Rightarrow> int \<Rightarrow> bool" where
  "days_between a b n \<longleftrightarrow> (if 0 \<le> n then (next_day ^^ nat n) a = b else (next_day ^^ nat (- n)) b = a)"

definition proper :: "int \<times> int \<times> int \<Rightarrow> bool" where
  "proper date \<longleftrightarrow> (let (y, m, d) = date in y \<noteq> 0 \<and> valid (astro_year y) m d)"

definition day_number :: "int \<times> int \<times> int \<Rightarrow> int" where
  "day_number date = (let (y, m, d) = date in jdn (astro_year y) m d)"

lemma div_succ:
  fixes x b :: int
  assumes "0 < b"
  shows "(x + 1) div b = x div b + (if b dvd x + 1 then 1 else 0)"
proof (cases "b dvd x + 1")
  case True
  then obtain q where "x + 1 = b * q" by blast
  then have "x = b * (q - 1) + (b - 1)" by (simp add: algebra_simps)
  then have "x div b = q - 1" using assms by (intro div_eqI) auto
  then show ?thesis using assms \<open>x + 1 = b * q\<close> True by simp
next
  case False
  then have "(x + 1) mod b \<noteq> 0" by (simp add: dvd_eq_mod_eq_0)
  moreover have "x + 1 = b * ((x + 1) div b) + (x + 1) mod b" "(x + 1) mod b < b" "0 \<le> (x + 1) mod b" using assms by simp_all
  ultimately have "x div b = (x + 1) div b" by (intro div_eqI) (use assms in linarith)+
  then show ?thesis using False by simp
qed

lemma leap_days: "(x + 1) div 4 - (x + 1) div 100 + (x + 1) div 400 = x div 4 - x div 100 + x div 400 + (if leap (x + 1) then 1 else 0)"
proof -
  have "400 dvd x + 1 \<Longrightarrow> 100 dvd x + 1" "100 dvd x + 1 \<Longrightarrow> 4 dvd x + 1"
    using dvd_trans [of 100 400 "x + 1"] dvd_trans [of 4 100 "x + 1"] by simp_all
  moreover have "(x + 1) div 4 = x div 4 + (if 4 dvd x + 1 then 1 else 0)"
    "(x + 1) div 100 = x div 100 + (if 100 dvd x + 1 then 1 else 0)"
    "(x + 1) div 400 = x div 400 + (if 400 dvd x + 1 then 1 else 0)"
    by (rule div_succ; simp)+
  ultimately show ?thesis unfolding leap_def
    by (cases "4 dvd x + 1"; cases "100 dvd x + 1"; cases "400 dvd x + 1"; simp only: simp_thms if_True if_False; linarith)
qed

lemma leap_shift: "leap (y + 4800) = leap y"
proof -
  have "4 dvd y + 4800 \<longleftrightarrow> 4 dvd y" "100 dvd y + 4800 \<longleftrightarrow> 100 dvd y" "400 dvd y + 4800 \<longleftrightarrow> 400 dvd y"
    by (rule dvd_add_left_iff; simp)+
  then show ?thesis by (simp only: leap_def)
qed

lemma jdn_february: "jdn y 3 1 = jdn y 2 (if leap y then 29 else 28) + 1"
proof -
  have "y + 4799 + 1 = y + 4800" by simp
  note days = leap_days [of "y + 4799", unfolded this leap_shift]
  have march: "jdn y 3 1 = 365 * (y + 4800) + (y + 4800) div 4 - (y + 4800) div 100 + (y + 4800) div 400 - 32044"
    by (simp add: jdn_def Let_def add.commute)
  have feb: "jdn y 2 d = d + 365 * (y + 4799) + (y + 4799) div 4 - (y + 4799) div 100 + (y + 4799) div 400 - 31708" for d
    by (simp add: jdn_def Let_def add.commute)
  obtain l where l: "(if leap y then 1 else 0 :: int) = l" by blast
  have sums: "a = 365 * (y + 4800) + c - e + g - 32044 \<Longrightarrow> b = 28 + 365 * (y + 4799) + c' - e' + g' - 31708 \<Longrightarrow>
      c - e + g = c' - e' + g' + l \<Longrightarrow> a = b + 1 + l" for a b c c' e e' g g' :: int
    by simp
  have "jdn y 3 1 = jdn y 2 28 + 1 + l" using march feb days [unfolded l] by (rule sums)
  moreover have "jdn y 2 29 = jdn y 2 28 + 1" by (simp add: feb)
  ultimately show ?thesis using l by (simp split: if_splits)
qed

lemma jdn_next_month:
  assumes "1 \<le> m" "m < 12"
  shows "jdn y (m + 1) 1 = jdn y m (days_in y m) + 1"
proof (cases "m = 2")
  case True
  then show ?thesis using jdn_february [of y] by (simp add: days_in_def)
next
  case False
  then have "m = 1 \<or> m = 3 \<or> m = 4 \<or> m = 5 \<or> m = 6 \<or> m = 7 \<or> m = 8 \<or> m = 9 \<or> m = 10 \<or> m = 11"
    using assms by presburger
  then show ?thesis by (elim disjE) (simp_all add: jdn_def Let_def days_in_def)
qed

lemma jdn_next_year: "jdn (y + 1) 1 1 = jdn y 12 31 + 1"
  by (simp add: jdn_def Let_def add.commute)

lemma next_year: "y \<noteq> 0 \<Longrightarrow> astro_year (if y = - 1 then 1 else y + 1) = astro_year y + 1"
  by (auto simp: astro_year_def)

lemma day_number_next: "proper date \<Longrightarrow> day_number (next_day date) = day_number date + 1 \<and> proper (next_day date)"
proof -
  assume "proper date"
  obtain y m d where date: "date = (y, m, d)" by (cases date)
  let ?y = "astro_year y"
  have v: "y \<noteq> 0" "1 \<le> m" "m \<le> 12" "1 \<le> d" "d \<le> days_in ?y m"
    using \<open>proper date\<close> by (simp_all add: date proper_def valid_def)
  consider "d < days_in ?y m" | "d = days_in ?y m" "m < 12" | "d = days_in ?y m" "m = 12" using v(3,5) by linarith
  then show ?thesis
  proof cases
    case 1
    then show ?thesis using v by (auto simp: date next_day_def day_number_def proper_def valid_def jdn_def Let_def)
  next
    case 2
    then show ?thesis
      using v jdn_next_month [of m ?y] days_in_bounds(1) [of ?y "m + 1"]
      by (simp add: date next_day_def day_number_def proper_def valid_def)
  next
    case 3
    then show ?thesis
      using v jdn_next_year [of ?y] next_year [OF v(1)]
      by (auto simp: date next_day_def day_number_def proper_def valid_def days_in_def)
  qed
qed

lemma day_number_iterate:
  "proper date \<Longrightarrow> day_number ((next_day ^^ k) date) = day_number date + int k \<and> proper ((next_day ^^ k) date)"
  using day_number_next by (induction k) auto

lemma day_number_eq:
  assumes "proper a" "proper b" "day_number a = day_number b"
  shows "a = b"
proof -
  obtain y m d y' m' d' where ab: "a = (y, m, d)" "b = (y', m', d')" by (cases a, cases b)
  then have v: "valid (astro_year y) m d" "valid (astro_year y') m' d'" "y \<noteq> 0" "y' \<noteq> 0"
    using assms(1,2) by (simp_all add: proper_def)
  have "jdn (astro_year y) m d = jdn (astro_year y') m' d'" using assms(3) ab by (simp add: day_number_def)
  then have "(astro_year y, m, d) = (astro_year y', m', d')"
    by (metis jdn_inverse_jdn [OF v(1)] jdn_inverse_jdn [OF v(2)])
  moreover have "astro_year y = astro_year y' \<Longrightarrow> y = y'" using v(3,4) by (simp add: astro_year_def split: if_splits)
  ultimately show ?thesis by (simp add: ab)
qed

lemma days_between_iff:
  assumes "proper a" "proper b"
  shows "days_between a b n \<longleftrightarrow> n = day_number b - day_number a"
proof (cases "0 \<le> n")
  case True
  then show ?thesis
    using day_number_iterate [OF assms(1), of "nat n"] day_number_eq [of "(next_day ^^ nat n) a" b] assms(2)
    by (auto simp: days_between_def)
next
  case False
  then show ?thesis
    using day_number_iterate [OF assms(2), of "nat (- n)"] day_number_eq [of "(next_day ^^ nat (- n)) b" a] assms(1)
    by (auto simp: days_between_def)
qed

text \<open>A date as three numbers.\<close>

definition date_ints :: "ymd \<Rightarrow> int \<times> int \<times> int" where
  "date_ints d = (sint (ymd_year d), sint (ymd_month d), sint (ymd_day d))"

lemma usual_date_proper: "usual_date d \<Longrightarrow> proper (date_ints d)"
  by (auto simp: usual_date_def valid_date_def proper_def date_ints_def valid_def astro_def astro_year_def cell_eq_iff [of _ 0])

lemma day_number_ints: "day_number (date_ints d) = jdn (astro (ymd_year d)) (sint (ymd_month d)) (sint (ymd_day d))"
  by (simp add: day_number_def date_ints_def astro_def astro_year_def)

text \<open>
  C37: dates and days agree. For two dates of the calendar, with years up to \<open>10 ^ 11\<close> in either direction, \<open>D\<close> pushes the number of days between them: so many
  times the day after has to be taken to come from the second date to the first one, or, if the number is negative, from the first to the second; the next day is the one of
  the calendar, with its leap days, centuries, and the missing year 0. And \<open>A\<close>, given the second date and this number, arrives at the first one. The floor of a
  quotient is taken to be exact. (For years near the limits of a cell the sums of the formulas wrap around.)
\<close>

theorem date_diff_add:
  assumes "toss ip = xs @ [y, m, d, y', m', d']" "floors_exact (cf_libm cf)"
    and "usual_date (date_of y m d)" "usual_date (date_of y' m' d')"
  shows "\<exists>n. toss (finger_DATE_day_diff cf ip) = xs @ [n] \<and>
    days_between (sint y', sint m', sint d') (sint y, sint m, sint d) (sint n) \<and>
    (\<forall>ip2 ys. toss ip2 = ys @ [y', m', d', n] \<longrightarrow> toss (finger_DATE_add_days cf ip2) = ys @ [y, m, d])"
proof -
  let ?n = "ymd_to_julian (cf_libm cf) (date_of y m d) - ymd_to_julian (cf_libm cf) (date_of y' m' d')"
  have valid: "valid_date (date_of y m d)" "valid_date (date_of y' m' d')"
    using assms(3,4) by (simp_all add: usual_date_def)
  obtain s where s: "stack_list s = xs @ [y, m, d]" "pop_ymd ip = (Some (date_of y' m' d'), ip_set_stack s ip)"
    using pop_ymd_cases [of ip "xs @ [y, m, d]" y' m' d'] assms(1) valid(2) by auto
  obtain t where t: "stack_list t = xs" "pop_ymd (ip_set_stack s ip) = (Some (date_of y m d), ip_set_stack t ip)"
    using pop_ymd_cases [of "ip_set_stack s ip" xs y m d] s(1) valid(1) by (auto simp: ip_simps)
  have "toss (finger_DATE_day_diff cf ip) = xs @ [?n]"
    by (simp add: finger_DATE_day_diff_def s t ip_simps)
  moreover have "days_between (sint y', sint m', sint d') (sint y, sint m, sint d) (sint ?n)"
  proof -
    let ?a = "date_ints (date_of y' m' d')" and ?b = "date_ints (date_of y m d)"
    note usual_date_julian [OF assms(2,3), folded day_number_ints] usual_date_julian [OF assms(2,4), folded day_number_ints]
    then have n: "?n = word_of_int (day_number ?b - day_number ?a)" and "\<bar>day_number ?b - day_number ?a\<bar> < 2 ^ 63"
      by simp_all
    then have "sint ?n = day_number ?b - day_number ?a" unfolding n by (intro sint_of_int_cell) (simp_all add: abs_less_iff)
    then show ?thesis
      using days_between_iff [OF usual_date_proper [OF assms(4)] usual_date_proper [OF assms(3)]] by (simp add: date_ints_def)
  qed
  moreover have "toss (finger_DATE_add_days cf ip2) = ys @ [y, m, d]" if ip2: "toss ip2 = ys @ [y', m', d', ?n]" for ip2 ys
  proof -
    obtain u where u: "ip_pop ip2 = (?n, ip_set_stack u ip2)" "stack_list u = ys @ [y', m', d']"
      using ip_pop_top [of ip2 "ys @ [y', m', d']" ?n] ip2 by auto
    obtain v where "stack_list v = ys" "pop_ymd (ip_set_stack u ip2) = (Some (date_of y' m' d'), ip_set_stack v ip2)"
      using pop_ymd_cases [of "ip_set_stack u ip2" ys y' m' d'] u(2) valid(2) by (auto simp: ip_simps)
    then show ?thesis
      using julian_round_trip [OF assms(2,3)]
      by (simp add: finger_DATE_add_days_def u(1) toss_push_ymd ip_simps)
  qed
  ultimately show ?thesis by blast
qed

text \<open>From the last day of the year before year 1 to the first of March of year 4, a leap year.\<close>

theorem date_diff_add_witness:
  "\<exists>n. toss (finger_DATE_day_diff sample_config (ip_push 31 (ip_push 12 (ip_push (- 1)
       (ip_push 1 (ip_push 3 (ip_push 4 sample_ip))))))) = [7, 8] @ [n] \<and>
     days_between (- 1, 12, 31) (4, 3, 1) (sint n)"
proof -
  have "toss (ip_push 31 (ip_push 12 (ip_push (- 1) (ip_push 1 (ip_push 3 (ip_push 4 sample_ip)))))) =
      [7, 8] @ [4, 3, 1, - 1, 12, 31]"
    by (simp add: ip_simps)
  moreover have "usual_date (date_of 4 3 1)" "usual_date (date_of (- 1) 12 31)"
    by (simp_all add: usual_date_def valid_date_def days_in_def leap_def astro_def)
  moreover have "floors_exact (cf_libm sample_config)"
    using floors_exact_sample by (simp add: sample_config_def)
  ultimately obtain n where "toss (finger_DATE_day_diff sample_config (ip_push 31 (ip_push 12 (ip_push (- 1)
       (ip_push 1 (ip_push 3 (ip_push 4 sample_ip))))))) = [7, 8] @ [n]"
    "days_between (sint (- 1 :: cell), sint (12 :: cell), sint (31 :: cell)) (sint (4 :: cell), sint (3 :: cell), sint (1 :: cell)) (sint n)"
    using date_diff_add [of _ "[7, 8]" 4 3 1 "- 1" 12 31 sample_config] by blast
  then show ?thesis by (intro exI [of _ n]) simp
qed

text \<open>Dates in the far past: the day of the week is negative.\<close>

lemma week_day_negative:
  "c_mod (ymd_to_julian sample_libm (date_of (- 5000) 1 1)) 7 = - 4"
  by code_simp

text \<open>\<open>T\<close> checks only the upper end of the day of the year: day -3 of the year 2000 becomes the day -2 of January.\<close>

lemma year_day_unchecked:
  assumes "toss ip = xs @ [2000, - 3]"
  shows "toss (finger_DATE_year_day_to_full ip) = xs @ [2000, 1, - 2]"
proof -
  obtain s where s: "ip_pop ip = (- 3, ip_set_stack s ip)" "stack_list s = xs @ [2000]"
    using ip_pop_top [of ip "xs @ [2000]" "- 3"] assms by auto
  obtain t where t: "ip_pop (ip_set_stack s ip) = (2000, ip_set_stack t ip)" "stack_list t = xs"
    using ip_pop_top [of "ip_set_stack s ip" xs 2000] s(2) by (auto simp: ip_simps)
  have "month_loop 12 2000 0 (- 2) = (0, - 2)"
    by (simp add: eval_nat_numeral month_length_def cell_less_iff)
  then show ?thesis
    by (simp add: finger_DATE_year_day_to_full_def s(1) t toss_push_ymd ip_simps cell_less_iff)
qed

subsection \<open>Days of the year\<close>

definition days_before :: "int \<Rightarrow> int \<Rightarrow> int" where
  "days_before y m =
     (if m = 1 then 0 else if m = 2 then 31
      else (153 * (m - 3) + 2) div 5 + 59 + (if leap y then 1 else 0))"

lemma div_step:
  fixes x b :: int
  assumes "0 < b"
  shows "x div b - (x - 1) div b = (if b dvd x then 1 else 0)"
proof (cases "b dvd x")
  case True
  then obtain q where "x = b * q" by blast
  moreover from this have "(x - 1) div b = q - 1" using assms by (intro div_eqI) (simp_all add: algebra_simps)
  ultimately show ?thesis using assms by simp
next
  case False
  have "x = b * (x div b) + x mod b" "0 < x mod b" "x mod b < b"
    using assms False pos_mod_bound [of b x] pos_mod_sign [of b x] by (auto simp: dvd_eq_mod_eq_0 order_less_le)
  then have "(x - 1) div b = x div b" using assms by (intro div_eqI) linarith+
  then show ?thesis using False by simp
qed

lemma twelve:
  fixes m :: int
  assumes "1 \<le> m" "m \<le> 12"
  shows "m = 1 \<or> m = 2 \<or> m = 3 \<or> m = 4 \<or> m = 5 \<or> m = 6 \<or> m = 7 \<or> m = 8 \<or> m = 9 \<or> m = 10 \<or> m = 11 \<or> m = 12"
  using assms by presburger

lemma leap_step:
  "(y + 4800) div 4 - (4799 + y) div 4 - ((y + 4800) div 100 - (4799 + y) div 100) +
     ((y + 4800) div 400 - (4799 + y) div 400) = (if leap y then 1 else (0 :: int))"
proof -
  have shift: "4 dvd y + 4800 \<longleftrightarrow> 4 dvd y" "100 dvd y + 4800 \<longleftrightarrow> 100 dvd y" "400 dvd y + 4800 \<longleftrightarrow> 400 dvd y"
    by (rule dvd_add_left_iff, simp)+
  have "(400 :: int) dvd y \<Longrightarrow> 100 dvd y" "(100 :: int) dvd y \<Longrightarrow> 4 dvd y"
    by (erule dvd_trans [rotated], simp)+
  then have "leap y \<Longrightarrow> 4 dvd y \<and> (100 dvd y \<longleftrightarrow> 400 dvd y)" "\<not> leap y \<Longrightarrow> (4 dvd y \<longleftrightarrow> 100 dvd y) \<and> \<not> 400 dvd y"
    unfolding leap_def by blast+
  moreover have "y + 4800 - 1 = 4799 + y" by simp
  note div_step [of 4 "y + 4800", unfolded this shift] div_step [of 100 "y + 4800", unfolded this shift]
    div_step [of 400 "y + 4800", unfolded this shift]
  ultimately show ?thesis by (cases "leap y") simp_all
qed

lemma jdn_year_day:
  assumes "1 \<le> m" "m \<le> 12"
  shows "jdn y m d - jdn y 1 1 = days_before y m + d - 1"
proof (cases "m \<le> 2")
  case True
  with assms have "m = 1 \<or> m = 2" by presburger
  then show ?thesis by (auto simp: jdn_def days_before_def Let_def)
next
  case False
  then have a: "(14 - m) div 12 = 0" using assms by (intro div_eqI) auto
  show ?thesis
    using leap_step [of y] False unfolding jdn_def Let_def a by (simp add: days_before_def)
qed

lemma days_before_step:
  assumes "1 \<le> m" "m \<le> 11"
  shows "days_before y (m + 1) = days_before y m + days_in y m"
  using twelve [of m, OF assms(1)] assms(2) by (auto simp: days_before_def days_in_def)

text \<open>The loop over the months, started at the month \<open>13 - n\<close>, ends at the month \<open>m\<close>.\<close>

lemma month_loop_date:
  assumes "n \<le> 12" "13 - int n \<le> m" "m \<le> 12" "1 \<le> d" "d \<le> days_in (astro y) m"
  shows "month_loop n y (word_of_int (12 - int n))
      (word_of_int (days_before (astro y) m - days_before (astro y) (13 - int n) + d)) =
    (word_of_int (m - 1), word_of_int d)"
  using assms
proof (induction n)
  case (Suc n)
  let ?k = "12 - int n" and ?y = "astro y"
  let ?rest = "days_before ?y m - days_before ?y ?k + d"
  have k: "1 \<le> ?k" "?k \<le> 12" "?k \<le> m" using Suc.prems by auto
  have nat: "of_nat (12 - Suc n) + 1 = (word_of_int ?k :: cell)" using Suc.prems(1) by (simp add: of_nat_diff)
  have len: "month_length (date_of y (word_of_int ?k) 0) = word_of_int (days_in ?y ?k)"
    using month_length_days [of "word_of_int ?k" y 0] k sint_of_int_cell [of ?k]
    by (simp add: cell_eq_iff sint_of_int_cell days_in_def)
  have before: "0 \<le> days_before ?y x" "days_before ?y x \<le> 366" if "1 \<le> x" "x \<le> 12" for x
    using twelve [OF that] by (elim disjE; simp add: days_before_def)+
  show ?case
  proof (cases "?k = m")
    case True
    have "sint (word_of_int d - word_of_int (days_in ?y ?k) :: cell) = d - days_in ?y ?k"
      using Suc.prems(4,5) days_in_bounds [of ?y m] sint_of_int_cell [of "d - days_in ?y ?k"] by (simp add: True)
    then have "\<not> 0 <s word_of_int d - (word_of_int (days_in ?y ?k) :: cell)"
      using Suc.prems(5) by (simp add: cell_less_iff True)
    moreover have "days_before ?y m - days_before ?y (13 - int (Suc n)) + d = d" "12 - int (Suc n) = m - 1"
      using True by (simp_all flip: True)
    ultimately show ?thesis using len True by (simp only: month_loop.simps nat Let_def if_False)
  next
    case False
    then have step: "?k + 1 \<le> m" "days_before ?y (?k + 1) = days_before ?y ?k + days_in ?y ?k"
      using k Suc.prems(3) days_before_step [of ?k ?y] by auto
    have mono: "days_before ?y (?k + 1) \<le> days_before ?y m"
      using step(1) k(1) Suc.prems(3)
    proof (induction m rule: int_ge_induct)
      case (step i)
      then show ?case using days_before_step [of i ?y] days_in_bounds(1) [of ?y i] by auto
    qed simp
    have "word_of_int ?rest - (word_of_int (days_in ?y ?k) :: cell) =
        word_of_int (days_before ?y m - days_before ?y (?k + 1) + d)"
      unfolding of_int_diff [symmetric] by (rule arg_cong [where f = word_of_int]) (use step(2) in linarith)
    moreover have "0 <s (word_of_int (days_before ?y m - days_before ?y (?k + 1) + d) :: cell)"
      using mono before [of m] before [of "?k + 1"] k step(1) Suc.prems(3,4,5) days_in_bounds(2) [of ?y m]
        sint_of_int_cell [of "days_before ?y m - days_before ?y (?k + 1) + d"]
      by (simp add: cell_less_iff)
    moreover have "word_of_int (12 - int (Suc n)) + 1 = (word_of_int (12 - int n) :: cell)" by simp
    moreover have "13 - int (Suc n) = ?k" "13 - int n = ?k + 1" by simp_all
    ultimately show ?thesis
      using Suc.IH Suc.prems step(1) by (simp only: month_loop.simps nat len Let_def if_True)
  qed
qed auto

text \<open>
  \<open>Y\<close> and \<open>T\<close> are inverse. For a date of the calendar \<open>Y\<close> pushes the day of its year, counted from
  0, and \<open>T\<close>, given the year and this number, pushes the date again: the loop over the lengths of the
  months agrees with the closed formula behind the Julian day.
\<close>

theorem date_year_day:
  assumes "toss ip = xs @ [y, m, d]" "floors_exact (cf_libm cf)" "usual_date (date_of y m d)"
  shows "\<exists>n. toss (finger_DATE_year_day cf ip) = xs @ [n] \<and> 0 \<le> sint n \<and> sint n \<le> 365 \<and>
    (\<forall>ip2 ys. toss ip2 = ys @ [y, n] \<longrightarrow> toss (finger_DATE_year_day_to_full ip2) = ys @ [y, m, d])"
proof -
  let ?y = "astro y" and ?m = "sint m" and ?d = "sint d"
  define k where "k = days_before ?y ?m + ?d - 1"
  have v: "valid_date (date_of y m d)" "1 \<le> ?m" "?m \<le> 12" "1 \<le> ?d" "?d \<le> days_in ?y ?m" "y \<noteq> 0"
    using assms(3) by (simp_all add: usual_date_def valid_date_def)
  have first: "usual_date (date_of y 1 1)"
    using assms(3) by (simp add: usual_date_def valid_date_def days_in_def)
  have k: "0 \<le> k" "k < (if leap ?y then 366 else 365)"
    using twelve [OF v(2,3)] v(4,5) unfolding k_def
    by (elim disjE; auto simp: days_before_def days_in_def split: if_splits)+
  obtain s where s: "stack_list s = xs" "pop_ymd ip = (Some (date_of y m d), ip_set_stack s ip)"
    using pop_ymd_cases [OF assms(1)] v(1) by auto
  have "ymd_to_julian (cf_libm cf) (date_of y m d) - ymd_to_julian (cf_libm cf) (date_of y 1 1) = word_of_int k"
    using usual_date_julian(1) [OF assms(2,3)] usual_date_julian(1) [OF assms(2) first] jdn_year_day [OF v(2,3), of ?y ?d]
    by (simp add: k_def flip: of_int_diff)
  then have "toss (finger_DATE_year_day cf ip) = xs @ [word_of_int k]"
    by (simp add: finger_DATE_year_day_def s ip_simps)
  moreover have sk: "sint (word_of_int k :: cell) = k" "sint (word_of_int k + 1 :: cell) = k + 1"
    using k sint_of_int_cell [of k] sint_of_int_cell [of "k + 1"] by (auto split: if_splits)
  moreover have "toss (finger_DATE_year_day_to_full ip2) = ys @ [y, m, d]"
    if ip2: "toss ip2 = ys @ [y, word_of_int k]" for ip2 ys
  proof -
    obtain t where t: "ip_pop ip2 = (word_of_int k, ip_set_stack t ip2)" "stack_list t = ys @ [y]"
      using ip_pop_top [of ip2 "ys @ [y]" "word_of_int k"] ip2 by auto
    obtain u where u: "ip_pop (ip_set_stack t ip2) = (y, ip_set_stack u ip2)" "stack_list u = ys"
      using ip_pop_top [of "ip_set_stack t ip2" ys y] t(2) by (auto simp: ip_simps)
    have "\<not> (if is_leap_year y then 366 else 365) <s (word_of_int k + 1 :: cell)"
      using k sk(2) by (simp add: is_leap_year_leap [OF astro_bound] cell_less_iff split: if_splits)
    moreover have "month_loop 12 y 0 (word_of_int k + 1) = (word_of_int (?m - 1), word_of_int ?d)"
      using month_loop_date [of 12 ?m ?d y] v by (simp add: k_def days_before_def [of _ 1])
    ultimately show ?thesis
      by (simp add: finger_DATE_year_day_to_full_def t(1) u toss_push_ymd ip_simps of_int_sint_cell)
  qed
  ultimately show ?thesis using k(1,2) by (intro exI [of _ "word_of_int k"]) (auto split: if_splits)
qed

theorem date_year_day_witness:
  "\<exists>n. toss (finger_DATE_year_day sample_config (ip_push 29 (ip_push 2 (ip_push 2024 sample_ip)))) = [7, 8] @ [n] \<and>
     sint n \<le> 365"
proof -
  have "toss (ip_push 29 (ip_push 2 (ip_push 2024 sample_ip))) = [7, 8] @ [2024, 2, 29]" by (simp add: ip_simps)
  moreover have "usual_date (date_of 2024 2 29)"
    by (simp add: usual_date_def valid_date_def days_in_def leap_def astro_def)
  moreover have "floors_exact (cf_libm sample_config)"
    using floors_exact_sample by (simp add: sample_config_def)
  ultimately show ?thesis
    using date_year_day [of _ "[7, 8]" 2024 2 29 sample_config] by blast
qed

end
