(* ===== verification/Fp_Time.thy ===== *)
theory Fp_Time
  imports Operation
begin

text \<open>
  The fingerprint TIME, \<^verbatim>\<open>src/fingerprints/TIME/TIME.c\<close>, and the fingerprint HRTI,
  \<^verbatim>\<open>src/fingerprints/HRTI/HRTI.c\<close> (the variant with \<^verbatim>\<open>clock_gettime\<close>). Each reading of the clock or
  of the timer is the next one of a sequence that is a parameter.
\<close>

section \<open>TIME\<close>

text \<open>\<open>GetTheTime\<close>.\<close>

definition GetTheTime :: "config \<Rightarrow> world \<Rightarrow> tm \<times> world" where
  "GetTheTime cf w =
     ((if st_TIMEuseUTC (w_statics w) then cf_gmtime cf else cf_localtime cf) (w_clock w),
      w\<lparr>w_clock := w_clock w + 1\<rparr>)"

definition push_time :: "(tm \<Rightarrow> 32 word) \<Rightarrow> config \<Rightarrow> mach \<Rightarrow> mach" where
  "push_time field cf m =
     (let (ip, w) = m; (curTime, w) = GetTheTime cf w in (ip_push (scast (field curTime)) ip, w))"

definition finger_TIME_day :: "config \<Rightarrow> mach \<Rightarrow> mach" where
  "finger_TIME_day = push_time tm_mday"

definition finger_TIME_day_of_year :: "config \<Rightarrow> mach \<Rightarrow> mach" where
  "finger_TIME_day_of_year = push_time tm_yday"

definition finger_TIME_use_gmt :: "mach \<Rightarrow> mach" where
  "finger_TIME_use_gmt m =
     (let (ip, w) = m in (ip, w\<lparr>w_statics := (w_statics w)\<lparr>st_TIMEuseUTC := True\<rparr>\<rparr>))"

definition finger_TIME_hour :: "config \<Rightarrow> mach \<Rightarrow> mach" where
  "finger_TIME_hour = push_time tm_hour"

definition finger_TIME_use_local :: "mach \<Rightarrow> mach" where
  "finger_TIME_use_local m =
     (let (ip, w) = m in (ip, w\<lparr>w_statics := (w_statics w)\<lparr>st_TIMEuseUTC := False\<rparr>\<rparr>))"

definition finger_TIME_minute :: "config \<Rightarrow> mach \<Rightarrow> mach" where
  "finger_TIME_minute = push_time tm_min"

definition finger_TIME_month :: "config \<Rightarrow> mach \<Rightarrow> mach" where
  "finger_TIME_month = push_time (\<lambda>t. tm_mon t + 1)"

definition finger_TIME_second :: "config \<Rightarrow> mach \<Rightarrow> mach" where
  "finger_TIME_second = push_time tm_sec"

definition finger_TIME_day_of_week :: "config \<Rightarrow> mach \<Rightarrow> mach" where
  "finger_TIME_day_of_week = push_time (\<lambda>t. tm_wday t + 1)"

definition finger_TIME_year :: "config \<Rightarrow> mach \<Rightarrow> mach" where
  "finger_TIME_year = push_time (\<lambda>t. 1900 + tm_year t)"

definition TIME_operations :: "(string \<times> operation) list" where
  "TIME_operations =
     [(''day'', \<lambda>cf. returns (finger_TIME_day cf) cf),
      (''day_of_year'', \<lambda>cf. returns (finger_TIME_day_of_year cf) cf),
      (''use_gmt'', returns finger_TIME_use_gmt), (''hour'', \<lambda>cf. returns (finger_TIME_hour cf) cf),
      (''use_local'', returns finger_TIME_use_local), (''minute'', \<lambda>cf. returns (finger_TIME_minute cf) cf),
      (''month'', \<lambda>cf. returns (finger_TIME_month cf) cf), (''second'', \<lambda>cf. returns (finger_TIME_second cf) cf),
      (''day_of_week'', \<lambda>cf. returns (finger_TIME_day_of_week cf) cf),
      (''year'', \<lambda>cf. returns (finger_TIME_year cf) cf)]"

section \<open>HRTI\<close>

definition read_timer :: "config \<Rightarrow> world \<Rightarrow> timespec \<times> world" where
  "read_timer cf w = (cf_timer cf (w_timer w), w\<lparr>w_timer := w_timer w + 1\<rparr>)"

definition MSEC :: "cell \<Rightarrow> cell" where
  "MSEC x = c_div x 1000"

definition sizeof_timespec :: nat where
  "sizeof_timespec = 16"

text \<open>A mark is the pair of its seconds and its nanoseconds.\<close>

definition get_difference :: "cell \<times> cell \<Rightarrow> timespec \<Rightarrow> cell" where
  "get_difference before after =
     1000000 * (tv_sec after - fst before) + MSEC (tv_nsec after - snd before)"

definition check_ip_have_HRTI :: "config \<Rightarrow> instructionPointer \<Rightarrow> bool \<times> instructionPointer" where
  "check_ip_have_HRTI cf ip =
     (if ip_fingerHRTItimestamp ip = None then
        if \<not> cf_al cf sizeof_timespec then (False, ip)
        else (True, ip\<lparr>ip_fingerHRTItimestamp := Some (0, 0)\<rparr>)
      else (True, ip))"

definition finger_HRTI_erase_mark :: "config \<Rightarrow> instructionPointer \<Rightarrow> instructionPointer" where
  "finger_HRTI_erase_mark cf ip =
     (let (okay, ip) = check_ip_have_HRTI cf ip
      in if \<not> okay then ip_reverse ip else ip\<lparr>ip_fingerHRTItimestamp := Some (0, 0)\<rparr>)"

definition finger_HRTI_granularity :: "mach \<Rightarrow> mach" where
  "finger_HRTI_granularity m =
     (let (ip, w) = m in (ip_push (st_HRTIresolution (w_statics w)) ip, w))"

definition finger_HRTI_mark :: "config \<Rightarrow> mach \<Rightarrow> mach" where
  "finger_HRTI_mark cf m =
     (let (ip, w) = m; (okay, ip) = check_ip_have_HRTI cf ip
      in if \<not> okay then (ip_reverse ip, w)
         else (let (t, w) = read_timer cf w
               in (ip\<lparr>ip_fingerHRTItimestamp := Some (tv_sec t, tv_nsec t)\<rparr>, w)))"

definition finger_HRTI_timer :: "config \<Rightarrow> mach \<Rightarrow> mach" where
  "finger_HRTI_timer cf m =
     (let (ip, w) = m
      in case ip_fingerHRTItimestamp ip of
           None \<Rightarrow> (ip_reverse ip, w)
         | Some mark \<Rightarrow>
             if fst mark = 0 then (ip_reverse ip, w)
             else (let (curTime, w) = read_timer cf w in (ip_push (get_difference mark curTime) ip, w)))"

definition finger_HRTI_second :: "config \<Rightarrow> mach \<Rightarrow> mach" where
  "finger_HRTI_second cf m =
     (let (ip, w) = m; (curTime, w) = read_timer cf w in (ip_push (MSEC (tv_nsec curTime)) ip, w))"

text \<open>
  The loop that measures the resolution reads the timer until it has moved by a microsecond; \<open>None\<close>
  if it never does.
\<close>

partial_function (option) measure_resolution :: "config \<Rightarrow> timespec \<Rightarrow> world \<Rightarrow> (cell \<times> world) option" where
  "measure_resolution cf before w =
     (let (after, w) = read_timer cf w;
          resolution = 1000000000 * (tv_sec after - tv_sec before) + tv_nsec after - tv_nsec before
      in if resolution <s 1000 then measure_resolution cf before w else Some (resolution, w))"

definition setup_HRTI :: "config \<Rightarrow> mach \<Rightarrow> (bool \<times> mach) option" where
  "setup_HRTI cf m =
     (let (ip, w) = m
      in Option.bind
           (if st_HRTIresolution (w_statics w) = 0
            then (let (before, w) = read_timer cf w in measure_resolution cf before w)
            else Some (st_HRTIresolution (w_statics w), w))
           (\<lambda>(resolution, w).
             let w = w\<lparr>w_statics := (w_statics w)\<lparr>st_HRTIresolution := MSEC resolution\<rparr>\<rparr>;
                 (okay, ip) = check_ip_have_HRTI cf ip
             in Some (okay, (ip, w))))"

definition HRTI_operations :: "(string \<times> operation) list" where
  "HRTI_operations =
     [(''erase_mark'', \<lambda>cf. returns (on_ip (finger_HRTI_erase_mark cf)) cf),
      (''granularity'', returns finger_HRTI_granularity), (''mark'', \<lambda>cf. returns (finger_HRTI_mark cf) cf),
      (''timer'', \<lambda>cf. returns (finger_HRTI_timer cf) cf),
      (''second'', \<lambda>cf. returns (finger_HRTI_second cf) cf)]"

section \<open>The frame\<close>

lemma frame_push_time [frames]: "frame (push_time f cf m) = frame m"
  by (cases m) (simp add: push_time_def GetTheTime_def frames)

lemmas time_defs = finger_TIME_day_def finger_TIME_day_of_year_def finger_TIME_hour_def finger_TIME_minute_def
  finger_TIME_month_def finger_TIME_second_def finger_TIME_day_of_week_def finger_TIME_year_def

lemma frame_TIME [frames]:
  "frame (finger_TIME_use_gmt m) = frame m" "frame (finger_TIME_use_local m) = frame m"
  by (cases m; simp add: finger_TIME_use_gmt_def finger_TIME_use_local_def frames)+

lemma TIME_keeps_frame: "\<forall>(name, operation) \<in> set TIME_operations. keeps_frame operation"
  by (auto simp: TIME_operations_def time_defs frames intro!: keeps_frame_returns keeps_frame_config)

lemma TIME_crash_free: "\<forall>(name, operation) \<in> set TIME_operations. crash_free operation"
  by (simp add: TIME_operations_def crash_free_returns)

lemma frame_check_HRTI [frames]: "frame (snd (check_ip_have_HRTI cf ip), w) = frame (ip, w)"
  by (simp add: check_ip_have_HRTI_def frames)

lemma frame_HRTI [frames]:
  "frame (finger_HRTI_erase_mark cf ip, w) = frame (ip, w)" "frame (finger_HRTI_granularity m) = frame m"
  "frame (finger_HRTI_mark cf m) = frame m" "frame (finger_HRTI_timer cf m) = frame m"
  "frame (finger_HRTI_second cf m) = frame m"
  by (cases m; simp add: finger_HRTI_erase_mark_def finger_HRTI_granularity_def finger_HRTI_mark_def
      finger_HRTI_timer_def finger_HRTI_second_def read_timer_def split_beta Let_def frames split: option.split)+

lemma HRTI_keeps_frame: "\<forall>(name, operation) \<in> set HRTI_operations. keeps_frame operation"
  by (auto simp: HRTI_operations_def frames intro!: keeps_frame_returns keeps_frame_config)

lemma HRTI_crash_free: "\<forall>(name, operation) \<in> set HRTI_operations. crash_free operation"
  by (simp add: HRTI_operations_def crash_free_returns)

lemma frame_measure:
  "measure_resolution cf before w = Some (r, w') \<Longrightarrow> frame (ip, w') = frame (ip, w) \<and> \<not> r <s 1000"
proof (induction cf before w "(r, w')" arbitrary: r w' rule: measure_resolution.raw_induct
    [rotated, consumes 1, case_names Unfold])
  case (Unfold f cf before w r w')
  then show ?case
    by (auto simp: read_timer_def Let_def frames split: if_splits dest!: Unfold(1))
qed

lemma setup_HRTI_frame:
  "setup_HRTI cf m = Some (okay, m') \<Longrightarrow> frame m' = frame m"
  by (cases m; cases m')
    (auto simp: setup_HRTI_def Let_def read_timer_def split_beta frames split: Option.bind_splits if_splits
      dest!: frame_measure [where ip = "fst m"])

section \<open>Properties\<close>

text \<open>The difference that the loop looks at: \<open>k\<close> is the index of the reading.\<close>

definition advance :: "config \<Rightarrow> timespec \<Rightarrow> nat \<Rightarrow> cell" where
  "advance cf before k =
     1000000000 * (tv_sec (cf_timer cf k) - tv_sec before) + tv_nsec (cf_timer cf k) - tv_nsec before"

lemma measure_resolution_returns:
  assumes "w_timer w \<le> k" "\<not> advance cf before k <s 1000"
  shows "\<exists>j. w_timer w \<le> j \<and> j \<le> k \<and> \<not> advance cf before j <s 1000 \<and>
    measure_resolution cf before w = Some (advance cf before j, w\<lparr>w_timer := j + 1\<rparr>)"
  using assms
proof (induction "k - w_timer w" arbitrary: w)
  case 0
  then have "w_timer w = k" by simp
  with 0 show ?case
    by (subst measure_resolution.simps) (auto simp: read_timer_def advance_def)
next
  case (Suc n)
  show ?case
  proof (cases "advance cf before (w_timer w) <s 1000")
    case True
    let ?w = "w\<lparr>w_timer := w_timer w + 1\<rparr>"
    have "w_timer w \<noteq> k" using True Suc.prems(2) by auto
    then have "n = k - w_timer ?w" "w_timer ?w \<le> k" using Suc.hyps(2) Suc.prems(1) by simp_all
    then obtain j where "w_timer ?w \<le> j" "j \<le> k" "\<not> advance cf before j <s 1000"
      "measure_resolution cf before ?w = Some (advance cf before j, ?w\<lparr>w_timer := j + 1\<rparr>)"
      using Suc.hyps(1) [of ?w] Suc.prems(2) by blast
    moreover have "measure_resolution cf before w = measure_resolution cf before ?w"
      using True by (subst measure_resolution.simps) (simp add: read_timer_def advance_def)
    ultimately show ?thesis by (intro exI [of _ j]) simp
  next
    case False
    then have "measure_resolution cf before w = Some (advance cf before (w_timer w), w\<lparr>w_timer := w_timer w + 1\<rparr>)"
      by (subst measure_resolution.simps) (simp add: read_timer_def advance_def)
    then show ?thesis using False Suc.prems(1) by blast
  qed
qed

text \<open>
  loading HRTI returns as soon as the timer moves. If the resolution is not known yet and some later
  reading is at least a microsecond after the first one, the loop ends, and the resolution is then the
  difference of two readings in microseconds, at least 1. But the division by 1000 stands outside the test
  for an unknown resolution: each further load of the fingerprint divides the known resolution again, and
  the granularity that \<open>G\<close> pushes shrinks.
\<close>

theorem hrti_load_resolution:
  assumes "cf_al cf sizeof_timespec" "w_timer w < k"
    and "\<not> advance cf (cf_timer cf (w_timer w)) k <s 1000" "st_HRTIresolution (w_statics w) = 0"
  shows "\<exists>j ip' w'. setup_HRTI cf (ip, w) = Some (True, (ip', w')) \<and> w_timer w < j \<and> j \<le> k \<and>
    st_HRTIresolution (w_statics w') = MSEC (advance cf (cf_timer cf (w_timer w)) j) \<and>
    1 \<le> sint (st_HRTIresolution (w_statics w')) \<and>
    (\<exists>ip'' w''. setup_HRTI cf (ip', w') = Some (True, (ip'', w'')) \<and>
       st_HRTIresolution (w_statics w'') = MSEC (MSEC (advance cf (cf_timer cf (w_timer w)) j)))"
proof -
  let ?t = "cf_timer cf (w_timer w)" and ?w = "w\<lparr>w_timer := w_timer w + 1\<rparr>"
  obtain j where j: "w_timer ?w \<le> j" "j \<le> k" "\<not> advance cf ?t j <s 1000"
    "measure_resolution cf ?t ?w = Some (advance cf ?t j, ?w\<lparr>w_timer := j + 1\<rparr>)"
    using measure_resolution_returns [of ?w k cf ?t] assms(2,3) by auto
  define r where "r = MSEC (advance cf ?t j)"
  have "sint r = sint (advance cf ?t j) sdiv 1000"
    using sint_c_div [of "advance cf ?t j" 1000] by (simp add: r_def MSEC_def)
  moreover have "1000 \<le> sint (advance cf ?t j)" using j(3) by (simp add: cell_less_iff)
  ultimately have r: "1 \<le> sint r" by (simp add: signed_divide_int_def zdiv_mono1 [of 1000 _ 1000, simplified])
  then have "r \<noteq> 0" by auto
  obtain ip' where ip': "check_ip_have_HRTI cf ip = (True, ip')" "ip_fingerHRTItimestamp ip' \<noteq> None"
    using assms(1) by (cases "ip_fingerHRTItimestamp ip") (auto simp: check_ip_have_HRTI_def)
  then have again: "check_ip_have_HRTI cf ip' = (True, ip')" by (auto simp: check_ip_have_HRTI_def)
  let ?w' = "w\<lparr>w_timer := j + 1, w_statics := (w_statics w)\<lparr>st_HRTIresolution := r\<rparr>\<rparr>"
  have "setup_HRTI cf (ip, w) = Some (True, (ip', ?w'))"
    using assms(4) j(4) ip'(1) by (simp add: setup_HRTI_def read_timer_def r_def)
  moreover have "setup_HRTI cf (ip', ?w') =
      Some (True, (ip', ?w'\<lparr>w_statics := (w_statics w)\<lparr>st_HRTIresolution := MSEC r\<rparr>\<rparr>))"
    using \<open>r \<noteq> 0\<close> again by (simp add: setup_HRTI_def)
  ultimately show ?thesis
    using j(1,2) r by (intro exI [of _ j] exI [of _ ip'] exI [of _ ?w']) (auto simp: r_def)
qed

theorem hrti_load_resolution_witness:
  "\<exists>ip' w'. setup_HRTI sample_config (sample_ip, sample_world) = Some (True, (ip', w')) \<and>
     1 \<le> sint (st_HRTIresolution (w_statics w'))"
proof -
  have "\<not> advance sample_config (cf_timer sample_config (w_timer sample_world)) 1 <s 1000"
    by (simp add: advance_def sample_config_def sample_world_def cell_less_iff)
  moreover have "w_timer sample_world < 1" "st_HRTIresolution (w_statics sample_world) = 0"
    by (simp_all add: sample_world_def initial_statics_def)
  ultimately show ?thesis
    using hrti_load_resolution [of sample_config sample_world 1 sample_ip] sample_memory by blast
qed

text \<open>Nanoseconds from a mark to a reading.\<close>

definition elapsed :: "cell \<times> cell \<Rightarrow> timespec \<Rightarrow> int" where
  "elapsed mark t = 10 ^ 9 * (sint (tv_sec t) - sint (fst mark)) + (sint (tv_nsec t) - sint (snd mark))"

lemma sdiv_1000_bound: "\<bar>1000 * (x sdiv 1000) - x\<bar> < (1000 :: int)"
proof -
  have "x smod 1000 = x - x sdiv 1000 * 1000" by (simp add: smod_int_alt_def signed_divide_int_def minus_mult_div_eq_mod [symmetric] abs_mult_sgn algebra_simps sgn_if)
  moreover have "\<bar>x smod 1000\<bar> < 1000" by (simp add: smod_int_alt_def abs_mult sgn_if)
  ultimately show ?thesis by simp
qed

text \<open>
  \<open>T\<close> after \<open>M\<close> pushes the microseconds since the mark, off by less than one: with the seconds below
  \<open>2^40\<close> and proper nanoseconds nothing wraps around. With no mark set, or an erased one, \<open>T\<close> reflects.
\<close>

theorem hrti_timer_accurate:
  assumes "cf_al cf sizeof_timespec" "finger_HRTI_mark cf (ip, w) = (ip1, w1)" "toss ip = xs"
    and "\<And>k. k \<le> w_timer w + 1 \<Longrightarrow> 0 < sint (tv_sec (cf_timer cf k)) \<and> sint (tv_sec (cf_timer cf k)) < 2 ^ 40 \<and>
      0 \<le> sint (tv_nsec (cf_timer cf k)) \<and> sint (tv_nsec (cf_timer cf k)) < 10 ^ 9"
  shows "\<exists>n. toss (fst (finger_HRTI_timer cf (ip1, w1))) = xs @ [n] \<and>
    \<bar>1000 * sint n - elapsed (tv_sec (cf_timer cf (w_timer w)), tv_nsec (cf_timer cf (w_timer w)))
       (cf_timer cf (w_timer w + 1))\<bar> < 1000"
proof -
  let ?t = "cf_timer cf (w_timer w)" and ?u = "cf_timer cf (w_timer w + 1)"
  let ?s = "sint (tv_sec ?u) - sint (tv_sec ?t)" and ?n = "sint (tv_nsec ?u) - sint (tv_nsec ?t)"
  have b: "\<bar>?s\<bar> < 2 ^ 40" "\<bar>?n\<bar> < 10 ^ 9"
    using assms(4) [of "w_timer w"] assms(4) [of "w_timer w + 1"] by auto
  have ip1: "ip_fingerHRTItimestamp ip1 = Some (tv_sec ?t, tv_nsec ?t)" "toss ip1 = xs" "w_timer w1 = w_timer w + 1"
    using assms(1-3)
    by (auto simp: finger_HRTI_mark_def check_ip_have_HRTI_def read_timer_def Let_def toss_def ip_stack_def split: if_splits)
  have "tv_sec ?t \<noteq> 0" using assms(4) [of "w_timer w"] by auto
  then have toss: "toss (fst (finger_HRTI_timer cf (ip1, w1))) = xs @ [get_difference (tv_sec ?t, tv_nsec ?t) ?u]"
    using ip1 by (simp add: finger_HRTI_timer_def read_timer_def ip_simps)
  have "sint (tv_sec ?u - tv_sec ?t) = ?s" "sint (tv_nsec ?u - tv_nsec ?t) = ?n"
    using b sint_diff_cell [of "tv_sec ?u" "tv_sec ?t"] sint_diff_cell [of "tv_nsec ?u" "tv_nsec ?t"] by auto
  moreover from this have "sint (1000000 * (tv_sec ?u - tv_sec ?t)) = 1000000 * ?s"
    "sint (MSEC (tv_nsec ?u - tv_nsec ?t)) = ?n sdiv 1000"
    using b sint_mult_cell [of 1000000 "tv_sec ?u - tv_sec ?t"] sint_c_div [of "tv_nsec ?u - tv_nsec ?t" 1000]
    by (auto simp: MSEC_def)
  moreover have "\<bar>1000 * (?n sdiv 1000) - ?n\<bar> < 1000" by (rule sdiv_1000_bound)
  ultimately have "sint (get_difference (tv_sec ?t, tv_nsec ?t) ?u) = 1000000 * ?s + ?n sdiv 1000"
    using b sint_add_cell [of "1000000 * (tv_sec ?u - tv_sec ?t)" "MSEC (tv_nsec ?u - tv_nsec ?t)"]
    by (simp add: get_difference_def)
  then show ?thesis
    using toss sdiv_1000_bound [of ?n] by (intro exI conjI) (auto simp: elapsed_def algebra_simps)
qed

theorem hrti_timer_accurate_witness:
  "\<exists>n. toss (fst (finger_HRTI_timer sample_config (finger_HRTI_mark sample_config (sample_ip, sample_world)))) = [7, 8] @ [n]"
proof -
  obtain ip1 w1 where mark: "finger_HRTI_mark sample_config (sample_ip, sample_world) = (ip1, w1)" by fastforce
  have "0 < sint (tv_sec (cf_timer sample_config k)) \<and> sint (tv_sec (cf_timer sample_config k)) < 2 ^ 40 \<and>
      0 \<le> sint (tv_nsec (cf_timer sample_config k)) \<and> sint (tv_nsec (cf_timer sample_config k)) < 10 ^ 9"
    if "k \<le> w_timer sample_world + 1" for k
  proof -
    have "k = 0 \<or> k = 1" using that by (auto simp: sample_world_def)
    then show ?thesis by (auto simp: sample_config_def)
  qed
  moreover have "toss sample_ip = [7, 8]" by (simp add: ip_simps)
  ultimately show ?thesis
    using hrti_timer_accurate [OF sample_memory mark, of "[7, 8]"] mark by metis
qed

end
