(* ===== verification/Fp_Turt.thy ===== *)
theory Fp_Turt
  imports Operation Stringbuffer "HOL-Library.While_Combinator"
begin

text \<open>
  The fingerprint TURT, \<^verbatim>\<open>src/fingerprints/TURT/TURT.c\<close>: a turtle that draws, and the drawing that
  \<open>I\<close> writes to a file. A turtle coordinate has 32 bits, and sums of coordinates wrap around at this
  width, as the machine has it. Angles, sines and cosines are numbers of the floating-point unit. The
  XML writer genx is a parameter: the model lists the calls that it gets. Where memory that is not
  checked for is exhausted, the C code goes through a null pointer: \<open>None\<close> or \<open>Crashed\<close>.
\<close>

section \<open>The drawing\<close>

definition TURT_PADDING :: tc where
  "TURT_PADDING = 1"

definition TURT_MIN :: cell where
  "TURT_MIN = - 163839998"

definition TURT_MAX :: cell where
  "TURT_MAX = 163839998"

definition sizeof_Path :: nat where
  "sizeof_Path = 24"

definition sizeof_Dot :: nat where
  "sizeof_Dot = 12"

type_synonym canvas = "Turtle \<times> Drawing"

definition create_path :: "config \<Rightarrow> Point \<Rightarrow> bool \<Rightarrow> 32 word \<Rightarrow> Path option" where
  "create_path cf a b c =
     (if \<not> cf_al cf sizeof_Path then None
      else Some \<lparr>path_d = \<lparr>dot_p = a, dot_colour = c\<rparr>, path_penDown = b\<rparr>)"

text \<open>
  If the allocation fails after the first path, \<open>pic.path\<close> becomes null, and the next call goes through
  it; the model counts the failure itself as the crash.
\<close>

definition addPath :: "config \<Rightarrow> Point \<Rightarrow> bool \<Rightarrow> 32 word \<Rightarrow> Drawing \<Rightarrow> Drawing option" where
  "addPath cf pt penDown colour pic =
     (case create_path cf pt penDown colour of
        None \<Rightarrow> if pic_paths pic = [] then Some pic else None
      | Some p \<Rightarrow> Some (pic\<lparr>pic_paths := pic_paths pic @ [p]\<rparr>))"

definition ld_2pi :: "config \<Rightarrow> ldouble" where
  "ld_2pi cf = (let ld = lm_ldouble (cf_libm cf) in fl_mul ld (fl_of_cell ld 2) (lm_pil (cf_libm cf)))"

text \<open>The loops of \<open>normalise\<close> need not end: \<open>None\<close>.\<close>

definition normalise :: "config \<Rightarrow> Turtle \<Rightarrow> Turtle option" where
  "normalise cf turt =
     (let ld = lm_ldouble (cf_libm cf)
      in Option.bind (while_option (fl_less ld (ld_2pi cf)) (\<lambda>h. fl_sub ld h (ld_2pi cf)) (tu_heading turt)) (\<lambda>h.
         map_option (\<lambda>h. turt\<lparr>tu_heading := h, tu_sin := fl_sin ld h, tu_cos := fl_cos ld h\<rparr>)
           (while_option (\<lambda>h. fl_less ld h (fl_of_cell ld 0)) (\<lambda>h. fl_add ld h (ld_2pi cf)) h)))"

definition newDraw :: "Turtle \<Rightarrow> Turtle" where
  "newDraw turt =
     (let p = tu_p turt; lo = tu_min turt; hi = tu_max turt
      in turt\<lparr>tu_min := \<lparr>pt_x = (if pt_x p <s pt_x lo then pt_x p else pt_x lo),
                         pt_y = (if pt_y p <s pt_y lo then pt_y p else pt_y lo)\<rparr>,
              tu_max := \<lparr>pt_x = (if pt_x hi <s pt_x p then pt_x p else pt_x hi),
                         pt_y = (if pt_y hi <s pt_y p then pt_y p else pt_y hi)\<rparr>\<rparr>)"

text \<open>The sum is taken at 32 bits, and only then compared at 64.\<close>

definition clamp_tc :: "tc \<Rightarrow> tc" where
  "clamp_tc v =
     (let nx = scast v :: cell
      in ucast (if TURT_MAX <s nx then TURT_MAX else if nx <s TURT_MIN then TURT_MIN else nx))"

definition move :: "config \<Rightarrow> tc \<Rightarrow> canvas \<Rightarrow> canvas option" where
  "move cf distance td =
     (let (turt, pic) = td; ld = lm_ldouble (cf_libm cf)
      in Option.bind
           (if tu_penDown turt \<and> tu_movedWithoutDraw turt then addPath cf (tu_p turt) False 0 pic
            else Some pic) (\<lambda>pic.
         let d = fl_of_cell ld (scast distance);
             dx = fl_to_int ld (fl_round ld (fl_mul ld (tu_cos turt) d));
             dy = fl_to_int ld (fl_round ld (fl_mul ld (tu_sin turt) d));
             turt = turt\<lparr>tu_p := \<lparr>pt_x = clamp_tc (pt_x (tu_p turt) + dx),
                                  pt_y = clamp_tc (pt_y (tu_p turt) + dy)\<rparr>\<rparr>
         in if tu_penDown turt then
              map_option (\<lambda>pic. ((newDraw turt)\<lparr>tu_movedWithoutDraw := False\<rparr>, pic))
                (addPath cf (tu_p turt) (tu_penDown turt) (tu_colour turt) pic)
            else Some (turt\<lparr>tu_movedWithoutDraw := True\<rparr>, pic)))"

definition toRad :: "config \<Rightarrow> cell \<Rightarrow> ldouble" where
  "toRad cf c =
     (let lm = cf_libm cf; dbl = lm_double lm
      in lm_double_ldouble lm (fl_mul dbl (fl_div dbl (lm_pi lm) (fl_of_cell dbl 180)) (fl_of_cell dbl c)))"

definition toDeg :: "config \<Rightarrow> ldouble \<Rightarrow> cell" where
  "toDeg cf r =
     (let lm = cf_libm cf; dbl = lm_double lm; ld = lm_ldouble lm
      in fl_to_cell ld (fl_round ld (fl_mul ld (lm_double_ldouble lm (fl_div dbl (fl_of_cell dbl 180) (lm_pi lm))) r)))"

definition toRGB :: "cell \<Rightarrow> 32 word" where
  "toRGB c = ucast (c AND 0xFFFFFF)"

text \<open>The first dot at the place takes the colour; without one, a new dot is appended.\<close>

fun recolour :: "Point \<Rightarrow> 32 word \<Rightarrow> Dot list \<Rightarrow> Dot list option" where
  "recolour p c [] = None"
| "recolour p c (dot # dots) =
     (if dot_p dot = p then Some (dot\<lparr>dot_colour := c\<rparr> # dots)
      else map_option (Cons dot) (recolour p c dots))"

definition addPoint :: "config \<Rightarrow> canvas \<Rightarrow> canvas option" where
  "addPoint cf td =
     (let (turt, pic) = td
      in case recolour (tu_p turt) (tu_colour turt) (pic_dots pic) of
           Some dots \<Rightarrow> Some (turt, pic\<lparr>pic_dots := dots\<rparr>)
         | None \<Rightarrow>
             if \<not> cf_al cf (Suc (length (pic_dots pic)) * sizeof_Dot) then None
             else Some (newDraw turt,
                        pic\<lparr>pic_dots := pic_dots pic @ [\<lparr>dot_p = tu_p turt, dot_colour = tu_colour turt\<rparr>]\<rparr>))"

definition tryAddPoint :: "config \<Rightarrow> canvas \<Rightarrow> canvas option" where
  "tryAddPoint cf td =
     (if tu_movedWithoutDraw (fst td) \<and> tu_penDown (fst td) then addPoint cf td else Some td)"

definition freeResources :: "Drawing \<Rightarrow> Drawing" where
  "freeResources pic = pic\<lparr>pic_paths := [], pic_dots := []\<rparr>"

section \<open>The file\<close>

definition hex_byte :: "nat \<Rightarrow> byte" where
  "hex_byte d = (if d < 10 then of_nat (48 + d) else of_nat (87 + d))"

definition two_hex :: "nat \<Rightarrow> byte list" where
  "two_hex v = [hex_byte (v div 16), hex_byte (v mod 16)]"

definition toCSSColour :: "32 word \<Rightarrow> byte list" where
  "toCSSColour c =
     bytes_of ''#'' @ two_hex (unat ((drop_bit 16 c) AND 0xFF)) @ two_hex (unat ((drop_bit 8 c) AND 0xFF)) @
     two_hex (unat (c AND 0xFF))"

definition show_tc :: "tc \<Rightarrow> byte list" where
  "show_tc v = show_cell (scast v)"

definition print_header :: "canvas \<Rightarrow> genx_call list" where
  "print_header td =
     (let (turt, pic) = td;
          minx = pt_x (tu_min turt) - TURT_PADDING;
          miny = pt_y (tu_min turt) - TURT_PADDING;
          w = pt_x (tu_max turt) - pt_x (tu_min turt) + 2 * TURT_PADDING;
          h = pt_y (tu_max turt) - pt_y (tu_min turt) + 2 * TURT_PADDING
      in [Start_element ''svg'', Add_attribute ''version'' (bytes_of ''1.1''),
          Add_attribute ''baseProfile'' (bytes_of ''full''),
          Add_attribute ''xmlns'' (bytes_of ''http://www.w3.org/2000/svg''),
          Add_attribute ''viewBox'' (show_tc minx @ [32] @ show_tc miny @ [32] @ show_tc w @ [32] @ show_tc h),
          Start_element ''defs'', Start_element ''style'', Add_attribute ''type'' (bytes_of ''text/css''),
          Add_text ''path{fill:none;stroke-width:0.5px;stroke-linecap:round;stroke-linejoin:round}'',
          End_element, End_element] @
         (if pic_bgSet pic then
            [Start_element ''rect'',
             Add_attribute ''style'' (bytes_of ''fill:'' @ toCSSColour (pic_bgColour pic) @ bytes_of '';stroke:none''),
             Add_attribute ''x'' (show_tc minx), Add_attribute ''y'' (show_tc miny),
             Add_attribute ''width'' (show_tc w), Add_attribute ''height'' (show_tc h), End_element]
          else []))"

definition print_point :: "config \<Rightarrow> string_buffer \<Rightarrow> char \<Rightarrow> Point \<Rightarrow> string_buffer option" where
  "print_point cf sb prefix p =
     map_option snd (stringbuffer_append_printf (cf_al cf) sb
       (bytes_of [prefix] @ show_tc (pt_x p) @ [44] @ show_tc (pt_y p) @ [32]))"

definition generate_path :: "32 word \<Rightarrow> byte list \<Rightarrow> genx_call list" where
  "generate_path colour path =
     [Start_element ''path'', Add_attribute ''style'' (bytes_of ''stroke:'' @ toCSSColour colour),
      Add_attribute ''d'' path, End_element]"

text \<open>
  One round of the loop over the paths: \<open>more_paths\<close> tells whether \<open>p != pic.path\<close>, \<open>prev\<close> is the point of
  the path before. The answer is the calls, and the buffer unless it was finished.
\<close>

definition path_round ::
    "config \<Rightarrow> bool \<Rightarrow> Path option \<Rightarrow> Point \<Rightarrow> Path \<Rightarrow> string_buffer \<Rightarrow> (genx_call list \<times> string_buffer option) option" where
  "path_round cf more_paths next_path prev p sb =
     Option.bind
       (if path_penDown p then print_point cf sb CHR ''L'' (dot_p (path_d p))
        else if more_paths then print_point cf sb CHR ''M'' (dot_p (path_d p)) else Some sb) (\<lambda>sb.
     case next_path of
       None \<Rightarrow> Some ([], Some sb)
     | Some q \<Rightarrow>
         if dot_colour (path_d p) \<noteq> dot_colour (path_d q) then
           map_option (\<lambda>path_data. (generate_path (dot_colour (path_d p)) path_data, None))
             (stringbuffer_finish (cf_al cf) sb)
         else Some ([], Some sb))"

text \<open>The loop. It is left early, with the calls so far, when there is no memory for a new buffer.\<close>

fun paths_loop ::
    "config \<Rightarrow> string_buffer option \<Rightarrow> Point \<Rightarrow> Path list \<Rightarrow> (genx_call list \<times> string_buffer option) option" where
  "paths_loop cf sb prev [] = Some ([], sb)"
| "paths_loop cf sb prev (p # ps) =
     (case (case sb of Some sb \<Rightarrow> Some sb | None \<Rightarrow> stringbuffer_new (cf_al cf)) of
        None \<Rightarrow> Some ([], None)
      | Some sb' \<Rightarrow>
          Option.bind (if sb = None \<and> path_penDown p then print_point cf sb' CHR ''M'' prev else Some sb') (\<lambda>sb'.
          Option.bind
            (path_round cf (ps \<noteq> []) (case ps of [] \<Rightarrow> None | q # _ \<Rightarrow> Some q) prev p sb') (\<lambda>(calls, sb').
          map_option (\<lambda>(rest, sb'). (calls @ rest, sb')) (paths_loop cf sb' (dot_p (path_d p)) ps))))"

definition generate_paths :: "config \<Rightarrow> Drawing \<Rightarrow> genx_call list option" where
  "generate_paths cf pic =
     (case pic_paths pic of
        [] \<Rightarrow> Some []
      | p # _ \<Rightarrow>
          (case stringbuffer_new (cf_al cf) of
             None \<Rightarrow> Some []
           | Some sb \<Rightarrow>
               Option.bind
                 (if path_penDown p then stringbuffer_append_string (cf_al cf) sb (bytes_of ''M0,0 '') else Some sb) (\<lambda>sb.
               Option.bind (paths_loop cf (Some sb) origin (pic_paths pic)) (\<lambda>(calls, sb).
               case sb of
                 None \<Rightarrow> Some calls
               | Some sb \<Rightarrow>
                   map_option (\<lambda>path_data.
                       if path_data \<noteq> [] then
                         calls @ generate_path (dot_colour (path_d (last (pic_paths pic)))) path_data
                       else calls)
                     (stringbuffer_finish (cf_al cf) sb)))))"

definition generate_circle :: "Dot \<Rightarrow> genx_call list" where
  "generate_circle dot =
     [Start_element ''circle'', Add_attribute ''cx'' (show_tc (pt_x (dot_p dot))),
      Add_attribute ''cy'' (show_tc (pt_y (dot_p dot))), Add_attribute ''r'' (bytes_of ''0.25''),
      Add_attribute ''fill'' (toCSSColour (dot_colour dot)), End_element]"

definition generate_circles :: "Drawing \<Rightarrow> genx_call list" where
  "generate_circles pic = concat (map generate_circle (pic_dots pic))"

definition svg_preamble :: "byte list" where
  "svg_preamble =
     bytes_of ''<?xml version=\"1.0\" encoding=\"UTF-8\" standalone=\"no\"?>'' @ [10] @
     bytes_of ''<!-- Created with cfunge (https://github.com/VorpalBlade/cfunge) -->'' @ [10] @
     bytes_of ''<!DOCTYPE svg PUBLIC \"-//W3C//DTD SVG 1.1//EN\" \"http://www.w3.org/Graphics/SVG/1.1/DTD/svg11.dtd\">'' @ [10]"

section \<open>The instructions\<close>

text \<open>A step on the drawing, and one that may not return.\<close>

definition canvas_of :: "world \<Rightarrow> canvas" where
  "canvas_of w = (st_turt (w_statics w), st_pic (w_statics w))"

definition set_canvas :: "canvas \<Rightarrow> world \<Rightarrow> world" where
  "set_canvas td w = w\<lparr>w_statics := (w_statics w)\<lparr>st_turt := fst td, st_pic := snd td\<rparr>\<rparr>"

definition draw :: "canvas option \<Rightarrow> mach \<Rightarrow> mach result option" where
  "draw td m =
     (let (ip, w) = m
      in case td of None \<Rightarrow> Some Crashed | Some td \<Rightarrow> Some (Running (ip, set_canvas td w)))"

definition set_heading :: "config \<Rightarrow> ldouble \<Rightarrow> mach \<Rightarrow> mach result option" where
  "set_heading cf h m =
     (let (ip, w) = m; (turt, pic) = canvas_of w
      in map_option (\<lambda>turt. Running (ip, set_canvas (turt, pic) w)) (normalise cf (turt\<lparr>tu_heading := h\<rparr>)))"

definition finger_TURT_query_heading :: "config \<Rightarrow> mach \<Rightarrow> mach" where
  "finger_TURT_query_heading cf m =
     (let (ip, w) = m in (ip_push (toDeg cf (tu_heading (fst (canvas_of w)))) ip, w))"

definition finger_TURT_back :: "config \<Rightarrow> mach \<Rightarrow> mach result option" where
  "finger_TURT_back cf m =
     (let (ip, w) = m; (v, ip) = ip_pop ip in draw (move cf (ucast (- v)) (canvas_of w)) (ip, w))"

definition finger_TURT_pen_colour :: "config \<Rightarrow> mach \<Rightarrow> mach result option" where
  "finger_TURT_pen_colour cf m =
     (let (ip, w) = m
      in case tryAddPoint cf (canvas_of w) of
           None \<Rightarrow> Some Crashed
         | Some (turt, pic) \<Rightarrow>
             (let (c, ip) = ip_pop ip in draw (Some (turt\<lparr>tu_colour := toRGB c\<rparr>, pic)) (ip, w)))"

definition finger_TURT_show_display :: "config \<Rightarrow> mach \<Rightarrow> mach result option" where
  "finger_TURT_show_display cf m =
     (let (ip, w) = m; (a, ip) = ip_pop ip
      in if a = 0 then Some (Running (ip, w))
         else if a = 1 then draw (tryAddPoint cf (canvas_of w)) (ip, w)
         else Some (Running (ip_reverse ip, w)))"

definition finger_TURT_query_pen :: "mach \<Rightarrow> mach" where
  "finger_TURT_query_pen m =
     (let (ip, w) = m in (ip_push (bool_cell (tu_penDown (fst (canvas_of w)))) ip, w))"

definition finger_TURT_forward :: "config \<Rightarrow> mach \<Rightarrow> mach result option" where
  "finger_TURT_forward cf m =
     (let (ip, w) = m; (v, ip) = ip_pop ip in draw (move cf (ucast v) (canvas_of w)) (ip, w))"

definition finger_TURT_set_heading :: "config \<Rightarrow> mach \<Rightarrow> mach result option" where
  "finger_TURT_set_heading cf m =
     (let (ip, w) = m; (v, ip) = ip_pop ip in set_heading cf (toRad cf v) (ip, w))"

text \<open>
  The file is the constant \<open>DEFAULT_FILENAME\<close>. It is emptied by \<open>fopen\<close> before anything can fail.
\<close>

definition finger_TURT_print_drawing :: "config \<Rightarrow> mach \<Rightarrow> mach result option" where
  "finger_TURT_print_drawing cf m =
     (let (ip, w) = m
      in case tryAddPoint cf (canvas_of w) of
           None \<Rightarrow> Some Crashed
         | Some td \<Rightarrow>
             (let w = set_canvas td w
              in if \<not> se_open (cf_save cf) then Some (Running (ip_reverse ip, w))
                 else case generate_paths cf (snd td) of
                        None \<Rightarrow> Some Crashed
                      | Some paths \<Rightarrow>
                          (case cf_svg cf (print_header td @ paths @ generate_circles (snd td) @ [End_element]) of
                             None \<Rightarrow>
                               Some (Running (ip_reverse ip, w\<lparr>w_files := (w_files w)(turt_filename := Some [])\<rparr>))
                           | Some (okay, text) \<Rightarrow>
                               Some (Running (if okay then ip else ip_reverse ip,
                                 w\<lparr>w_files := (w_files w)(turt_filename := Some (svg_preamble @ text))\<rparr>)))))"

definition finger_TURT_turn_left :: "config \<Rightarrow> mach \<Rightarrow> mach result option" where
  "finger_TURT_turn_left cf m =
     (let (ip, w) = m; (v, ip) = ip_pop ip
      in set_heading cf (fl_sub (lm_ldouble (cf_libm cf)) (tu_heading (fst (canvas_of w))) (toRad cf v)) (ip, w))"

definition finger_TURT_clear_paper :: "mach \<Rightarrow> mach" where
  "finger_TURT_clear_paper m =
     (let (ip, w) = m; (c, ip) = ip_pop ip; (turt, pic) = canvas_of w
      in (ip, set_canvas (turt\<lparr>tu_min := origin, tu_max := origin\<rparr>,
                          freeResources (pic\<lparr>pic_bgColour := toRGB c, pic_bgSet := True\<rparr>)) w))"

definition finger_TURT_pen_position :: "config \<Rightarrow> mach \<Rightarrow> mach result option" where
  "finger_TURT_pen_position cf m =
     (let (ip, w) = m; (a, ip) = ip_pop ip; (turt, pic) = canvas_of w
      in if a = 0 then
           draw (map_option (\<lambda>(turt, pic). (turt\<lparr>tu_penDown := False\<rparr>, pic)) (tryAddPoint cf (turt, pic))) (ip, w)
         else if a = 1 then draw (Some (turt\<lparr>tu_penDown := True\<rparr>, pic)) (ip, w)
         else Some (Running (ip_reverse ip, w)))"

definition finger_TURT_query_position :: "mach \<Rightarrow> mach" where
  "finger_TURT_query_position m =
     (let (ip, w) = m; p = tu_p (fst (canvas_of w))
      in (ip_push (scast (pt_y p)) (ip_push (scast (pt_x p)) ip), w))"

definition finger_TURT_turn_right :: "config \<Rightarrow> mach \<Rightarrow> mach result option" where
  "finger_TURT_turn_right cf m =
     (let (ip, w) = m; (v, ip) = ip_pop ip
      in set_heading cf (fl_add (lm_ldouble (cf_libm cf)) (tu_heading (fst (canvas_of w))) (toRad cf v)) (ip, w))"

definition finger_TURT_teleport :: "config \<Rightarrow> mach \<Rightarrow> mach result option" where
  "finger_TURT_teleport cf m =
     (let (ip, w) = m
      in case tryAddPoint cf (canvas_of w) of
           None \<Rightarrow> Some Crashed
         | Some (turt, pic) \<Rightarrow>
             (let (y, ip) = ip_pop ip; (x, ip) = ip_pop ip
              in draw (Some (turt\<lparr>tu_p := \<lparr>pt_x = ucast x, pt_y = ucast y\<rparr>, tu_movedWithoutDraw := True\<rparr>, pic)) (ip, w)))"

definition finger_TURT_query_bounds :: "instructionPointer \<Rightarrow> instructionPointer" where
  "finger_TURT_query_bounds ip =
     ip_push TURT_MAX (ip_push TURT_MAX (ip_push TURT_MIN (ip_push TURT_MIN ip)))"

text \<open>Loading; \<open>None\<close> if \<open>normalise\<close> does not end.\<close>

definition turt_initialise :: "config \<Rightarrow> world \<Rightarrow> world option" where
  "turt_initialise cf w =
     (if \<not> st_turt_initialised (w_statics w) then
        (let (turt, pic) = canvas_of w
         in map_option (\<lambda>turt.
              (set_canvas (turt, pic) w)\<lparr>w_statics := (w_statics (set_canvas (turt, pic) w))\<lparr>st_turt_initialised := True\<rparr>\<rparr>)
              (normalise cf (turt\<lparr>tu_movedWithoutDraw := True\<rparr>)))
      else Some w)"

definition TURT_operations :: "(string \<times> operation) list" where
  "TURT_operations =
     [(''query_heading'', \<lambda>cf. returns (finger_TURT_query_heading cf) cf), (''back'', finger_TURT_back),
      (''pen_colour'', finger_TURT_pen_colour), (''show_display'', finger_TURT_show_display),
      (''query_pen'', returns finger_TURT_query_pen), (''forward'', finger_TURT_forward),
      (''set_heading'', finger_TURT_set_heading), (''print_drawing'', finger_TURT_print_drawing),
      (''turn_left'', finger_TURT_turn_left), (''clear_paper'', returns finger_TURT_clear_paper),
      (''pen_position'', finger_TURT_pen_position), (''query_position'', returns finger_TURT_query_position),
      (''turn_right'', finger_TURT_turn_right), (''teleport'', finger_TURT_teleport),
      (''query_bounds'', returns (on_ip finger_TURT_query_bounds))]"

section \<open>The frame\<close>

lemma frame_set_canvas [frames]: "frame (ip, set_canvas td w) = frame (ip, w)"
  by (simp add: set_canvas_def frames)

lemma frame_draw: "draw td m = Some (Running m') \<Longrightarrow> frame m' = frame m"
  by (cases m) (auto simp: draw_def frames split: option.splits)

lemma frame_set_heading: "set_heading cf h m = Some (Running m') \<Longrightarrow> frame m' = frame m"
  by (cases m) (auto simp: set_heading_def canvas_of_def frames)

lemma frame_svg: "frame (ip, w\<lparr>w_files := (w_files w)(turt_filename := x)\<rparr>) = frame (ip, w)"
  by (simp add: frame_def)

lemma frame_TURT [frames]:
  "frame (finger_TURT_query_heading cf m) = frame m" "frame (finger_TURT_query_pen m) = frame m"
  "frame (finger_TURT_clear_paper m) = frame m" "frame (finger_TURT_query_position m) = frame m"
  "frame (finger_TURT_query_bounds ip, w) = frame (ip, w)"
  by (simp_all add: finger_TURT_query_heading_def finger_TURT_query_pen_def finger_TURT_clear_paper_def
      finger_TURT_query_position_def finger_TURT_query_bounds_def split_beta Let_def frames)

lemma TURT_steps_keep_frame:
  "keeps_frame finger_TURT_back" "keeps_frame finger_TURT_forward" "keeps_frame finger_TURT_pen_colour"
  "keeps_frame finger_TURT_show_display" "keeps_frame finger_TURT_set_heading" "keeps_frame finger_TURT_turn_left"
  "keeps_frame finger_TURT_turn_right" "keeps_frame finger_TURT_pen_position" "keeps_frame finger_TURT_teleport"
  unfolding keeps_frame_def
  by (auto simp: finger_TURT_back_def finger_TURT_forward_def finger_TURT_pen_colour_def finger_TURT_show_display_def
      finger_TURT_set_heading_def finger_TURT_turn_left_def finger_TURT_turn_right_def
      finger_TURT_pen_position_def finger_TURT_teleport_def split_beta Let_def frames
      dest!: frame_draw frame_set_heading split: option.splits if_splits)

lemma print_drawing_keeps_frame: "keeps_frame finger_TURT_print_drawing"
  unfolding keeps_frame_def
  by (auto simp: finger_TURT_print_drawing_def Let_def frames frame_svg split: option.splits if_splits)

lemma TURT_keeps_frame: "\<forall>(name, operation) \<in> set TURT_operations. keeps_frame operation"
  using TURT_steps_keep_frame print_drawing_keeps_frame
  by (auto simp: TURT_operations_def frames intro!: keeps_frame_returns keeps_frame_config)

lemma turt_initialise_frame: "turt_initialise cf w = Some w' \<Longrightarrow> frame (ip, w') = frame (ip, w)"
  by (auto simp: turt_initialise_def split_beta Let_def frames split: if_splits)

section \<open>No null pointers\<close>

text \<open>With memory granted the steps are defined: rules for the ways in which they are put together.\<close>

named_theorems defined "computations that are not None"

lemma defined_intros [defined]:
  "\<lbrakk>x \<noteq> None; \<And>y. f y \<noteq> None\<rbrakk> \<Longrightarrow> Option.bind x f \<noteq> None"
  "x \<noteq> None \<Longrightarrow> map_option g x \<noteq> None"
  "\<lbrakk>b \<Longrightarrow> x \<noteq> None; \<not> b \<Longrightarrow> z \<noteq> None\<rbrakk> \<Longrightarrow> (if b then x else z) \<noteq> None"
  "\<lbrakk>v = None \<Longrightarrow> x \<noteq> None; \<And>u. v = Some u \<Longrightarrow> h u \<noteq> None\<rbrakk> \<Longrightarrow> (case v of None \<Rightarrow> x | Some u \<Rightarrow> h u) \<noteq> None"
  "(\<And>u v. q u v \<noteq> None) \<Longrightarrow> (case pr of (u, v) \<Rightarrow> q u v) \<noteq> None" "Some a \<noteq> None"
  by (auto split: option.split prod.split simp: bind_eq_None_conv)

lemma addPath_granted: "(\<And>n. cf_al cf n) \<Longrightarrow> addPath cf pt b c pic \<noteq> None"
  by (simp add: addPath_def create_path_def)

lemma move_granted: "(\<And>n. cf_al cf n) \<Longrightarrow> move cf d td \<noteq> None"
  unfolding move_def Let_def by (intro defined addPath_granted)

lemma tryAddPoint_granted: "(\<And>n. cf_al cf n) \<Longrightarrow> tryAddPoint cf td \<noteq> None"
  by (cases td) (auto simp: tryAddPoint_def addPoint_def split: option.splits)

lemma append_granted: "(\<And>n. al n) \<Longrightarrow> stringbuffer_append_string al sb str \<noteq> None"
  using append_string_grown [of al sb str] by auto

lemma finish_granted: "(\<And>n. al n) \<Longrightarrow> stringbuffer_finish al sb \<noteq> None"
  by (simp add: stringbuffer_finish_def)

lemma print_point_granted: "(\<And>n. cf_al cf n) \<Longrightarrow> print_point cf sb c p \<noteq> None"
  unfolding print_point_def stringbuffer_append_printf_def by (intro defined append_granted)

lemma path_round_granted: "(\<And>n. cf_al cf n) \<Longrightarrow> path_round cf b q prev p sb \<noteq> None"
  unfolding path_round_def by (intro defined print_point_granted finish_granted)

lemma paths_loop_granted:
  assumes "\<And>n. cf_al cf n"
  shows "paths_loop cf sb prev ps \<noteq> None"
proof (induction ps arbitrary: sb prev)
  case (Cons p ps)
  show ?case
    unfolding paths_loop.simps by (intro defined print_point_granted path_round_granted Cons assms)
qed simp

lemma generate_paths_granted:
  assumes "\<And>n. cf_al cf n"
  shows "generate_paths cf pic \<noteq> None"
proof (cases "pic_paths pic")
  case (Cons p ps)
  show ?thesis
    unfolding generate_paths_def Cons list.case
    by (intro defined append_granted paths_loop_granted finish_granted assms)
qed (simp add: generate_paths_def)

lemma draw_Crashed: "draw td m = Some Crashed \<longleftrightarrow> td = None"
  by (cases m) (simp add: draw_def split: option.split)

lemma set_heading_Crashed: "set_heading cf h m \<noteq> Some Crashed"
  by (cases m) (simp add: set_heading_def split_beta Let_def)

lemma TURT_crash_free: "\<forall>(name, operation) \<in> set TURT_operations. crash_free operation"
proof -
  have "crash_free finger_TURT_back" "crash_free finger_TURT_forward" "crash_free finger_TURT_pen_colour"
    "crash_free finger_TURT_show_display" "crash_free finger_TURT_set_heading" "crash_free finger_TURT_turn_left"
    "crash_free finger_TURT_turn_right" "crash_free finger_TURT_pen_position" "crash_free finger_TURT_teleport"
    "crash_free finger_TURT_print_drawing"
    by (rule crash_freeI, simp add: finger_TURT_back_def finger_TURT_forward_def finger_TURT_pen_colour_def
        finger_TURT_show_display_def finger_TURT_set_heading_def finger_TURT_turn_left_def finger_TURT_turn_right_def
        finger_TURT_pen_position_def finger_TURT_teleport_def finger_TURT_print_drawing_def split_beta Let_def
        draw_Crashed set_heading_Crashed move_granted tryAddPoint_granted generate_paths_granted
        del: not_None_eq split: option.split)+
  then show ?thesis by (simp add: TURT_operations_def crash_free_returns)
qed

section \<open>Properties\<close>

subsection \<open>The bounds of the drawing\<close>

definition inside :: "Turtle \<Rightarrow> Point \<Rightarrow> bool" where
  "inside turt p \<longleftrightarrow>
     pt_x (tu_min turt) \<le>s pt_x p \<and> pt_x p \<le>s pt_x (tu_max turt) \<and>
     pt_y (tu_min turt) \<le>s pt_y p \<and> pt_y p \<le>s pt_y (tu_max turt)"

definition drawing_ok :: "canvas \<Rightarrow> bool" where
  "drawing_ok td \<longleftrightarrow>
     (let (turt, pic) = td
      in inside turt origin \<and> list_all (\<lambda>dot. inside turt (dot_p dot)) (pic_dots pic) \<and>
         list_all (\<lambda>p. path_penDown p \<longrightarrow> inside turt (dot_p (path_d p))) (pic_paths pic))"

lemma inside_newDraw: "inside turt p \<Longrightarrow> inside (newDraw turt) p" "inside turt origin \<Longrightarrow> inside (newDraw turt) (tu_p turt)"
  by (auto simp: inside_def newDraw_def Let_def word_sle_eq word_sless_alt)

lemma inside_cong [simp]:
  "inside (turt\<lparr>tu_p := p\<rparr>) q = inside turt q" "inside (turt\<lparr>tu_movedWithoutDraw := b\<rparr>) q = inside turt q"
  "inside (turt\<lparr>tu_penDown := b\<rparr>) q = inside turt q" "inside (turt\<lparr>tu_colour := c\<rparr>) q = inside turt q"
  "inside (turt\<lparr>tu_heading := h, tu_sin := s, tu_cos := co\<rparr>) q = inside turt q"
  by (simp_all add: inside_def)

lemma drawing_ok_newDraw: "drawing_ok (turt, pic) \<Longrightarrow> drawing_ok (newDraw turt, pic)"
  by (auto simp: drawing_ok_def list_all_iff intro: inside_newDraw)

lemma drawing_ok_addPath:
  assumes "drawing_ok (turt, pic)" "addPath cf p b c pic = Some pic'" "b \<longrightarrow> inside turt p"
  shows "drawing_ok (turt, pic')"
  using assms by (auto simp: drawing_ok_def addPath_def create_path_def split: option.splits if_splits)

lemma drawing_ok_move:
  assumes "drawing_ok td" "move cf d td = Some td'"
  shows "drawing_ok td'"
proof -
  obtain turt pic where td: "td = (turt, pic)" by (cases td)
  from assms(2) obtain pic1 where
    pic1: "(if tu_penDown turt \<and> tu_movedWithoutDraw turt then addPath cf (tu_p turt) False 0 pic else Some pic) = Some pic1"
    by (auto simp: move_def td Let_def split: Option.bind_splits if_splits)
  then have ok: "drawing_ok (turt, pic1)"
    using assms(1) drawing_ok_addPath [of turt pic cf "tu_p turt" False 0] by (auto simp: td split: if_splits)
  define turt1 where "turt1 = turt\<lparr>tu_p := \<lparr>
      pt_x = clamp_tc (pt_x (tu_p turt) + fl_to_int (lm_ldouble (cf_libm cf)) (fl_round (lm_ldouble (cf_libm cf))
        (fl_mul (lm_ldouble (cf_libm cf)) (tu_cos turt) (fl_of_cell (lm_ldouble (cf_libm cf)) (scast d))))),
      pt_y = clamp_tc (pt_y (tu_p turt) + fl_to_int (lm_ldouble (cf_libm cf)) (fl_round (lm_ldouble (cf_libm cf))
        (fl_mul (lm_ldouble (cf_libm cf)) (tu_sin turt) (fl_of_cell (lm_ldouble (cf_libm cf)) (scast d)))))\<rparr>\<rparr>"
  have move: "move cf d td =
      (if tu_penDown turt1 then map_option (\<lambda>pic. ((newDraw turt1)\<lparr>tu_movedWithoutDraw := False\<rparr>, pic))
         (addPath cf (tu_p turt1) (tu_penDown turt1) (tu_colour turt1) pic1)
       else Some (turt1\<lparr>tu_movedWithoutDraw := True\<rparr>, pic1))"
    using pic1 by (simp add: move_def td Let_def turt1_def)
  have ok1: "drawing_ok (turt1, pic1)" using ok by (simp add: drawing_ok_def turt1_def)
  then have "drawing_ok (newDraw turt1, pic1)" by (rule drawing_ok_newDraw)
  moreover have "inside (newDraw turt1) (tu_p turt1)"
    using ok1 by (intro inside_newDraw) (simp add: drawing_ok_def)
  ultimately have "addPath cf (tu_p turt1) (tu_penDown turt1) (tu_colour turt1) pic1 = Some pic2 \<Longrightarrow> drawing_ok (newDraw turt1, pic2)" for pic2
    using drawing_ok_addPath [of "newDraw turt1" pic1] by blast
  then show ?thesis
    using assms(2) ok1 unfolding move by (auto simp: drawing_ok_def split: if_splits)
qed

lemma recolour_places: "recolour p c dots = Some dots' \<Longrightarrow> map dot_p dots' = map dot_p dots"
  by (induction dots arbitrary: dots') (auto split: if_splits)

lemma drawing_ok_tryAddPoint:
  assumes "drawing_ok td" "tryAddPoint cf td = Some td'"
  shows "drawing_ok td'"
proof (cases "tu_movedWithoutDraw (fst td) \<and> tu_penDown (fst td)")
  case True
  obtain turt pic where td: "td = (turt, pic)" by (cases td)
  have add: "addPoint cf (turt, pic) = Some td'" using assms(2) True by (simp add: tryAddPoint_def td)
  show ?thesis
  proof (cases "recolour (tu_p turt) (tu_colour turt) (pic_dots pic)")
    case None
    then have "td' = (newDraw turt, pic\<lparr>pic_dots := pic_dots pic @ [\<lparr>dot_p = tu_p turt, dot_colour = tu_colour turt\<rparr>]\<rparr>)"
      using add by (simp add: addPoint_def split: if_splits)
    then show ?thesis
      using drawing_ok_newDraw [of turt pic] inside_newDraw(2) [of turt] assms(1) by (simp add: drawing_ok_def td)
  next
    case (Some dots)
    then have "td' = (turt, pic\<lparr>pic_dots := dots\<rparr>)" using add by (simp add: addPoint_def)
    moreover have "dot_p ` set dots = dot_p ` set (pic_dots pic)"
      using recolour_places [OF Some] by (metis set_map)
    then have "\<forall>dot \<in> set dots. \<exists>dot' \<in> set (pic_dots pic). dot_p dot = dot_p dot'"
      by (metis image_iff)
    then have "list_all (\<lambda>dot. inside turt (dot_p dot)) dots"
      using assms(1) unfolding drawing_ok_def td list_all_iff by auto
    ultimately show ?thesis
      using assms(1) by (simp add: drawing_ok_def td)
  qed
qed (use assms in \<open>auto simp: tryAddPoint_def\<close>)

lemma canvas_set [simp]: "canvas_of (set_canvas td w) = td"
  by (simp add: canvas_of_def set_canvas_def)

lemma draw_Running:
  "draw td m = Some (Running m') \<longleftrightarrow> (\<exists>td'. td = Some td' \<and> m' = (fst m, set_canvas td' (snd m)))"
  by (cases m) (auto simp: draw_def split: option.splits)

lemma set_heading_Running:
  "set_heading cf h m = Some (Running m') \<longleftrightarrow>
     (\<exists>turt. normalise cf ((fst (canvas_of (snd m)))\<lparr>tu_heading := h\<rparr>) = Some turt \<and>
        m' = (fst m, set_canvas (turt, snd (canvas_of (snd m))) (snd m)))"
  by (cases m) (auto simp: set_heading_def split_beta)

lemma drawing_ok_cong [simp]:
  "drawing_ok (turt\<lparr>tu_colour := c\<rparr>, pic) = drawing_ok (turt, pic)"
  "drawing_ok (turt\<lparr>tu_penDown := b\<rparr>, pic) = drawing_ok (turt, pic)"
  "drawing_ok (turt\<lparr>tu_p := p\<rparr>, pic) = drawing_ok (turt, pic)"
  "drawing_ok (turt\<lparr>tu_heading := h\<rparr>, pic) = drawing_ok (turt, pic)"
  "drawing_ok (turt\<lparr>tu_p := p, tu_movedWithoutDraw := b\<rparr>, pic) = drawing_ok (turt, pic)"
  by (simp_all add: drawing_ok_def inside_def)

lemma drawing_ok_normalise:
  "normalise cf ((fst td)\<lparr>tu_heading := h\<rparr>) = Some turt' \<Longrightarrow> drawing_ok td \<Longrightarrow> drawing_ok (turt', snd td)"
  by (cases td) (auto simp: normalise_def Let_def drawing_ok_def split: Option.bind_splits)

definition keeps_drawing :: "operation \<Rightarrow> bool" where
  "keeps_drawing operation \<longleftrightarrow>
     (\<forall>cf m m'. drawing_ok (canvas_of (snd m)) \<longrightarrow> operation cf m = Some (Running m') \<longrightarrow> drawing_ok (canvas_of (snd m')))"

lemma turtle_keeps_drawing:
  "keeps_drawing finger_TURT_back" "keeps_drawing finger_TURT_forward" "keeps_drawing finger_TURT_pen_colour"
  "keeps_drawing finger_TURT_show_display" "keeps_drawing finger_TURT_set_heading" "keeps_drawing finger_TURT_turn_left"
  "keeps_drawing finger_TURT_turn_right" "keeps_drawing finger_TURT_pen_position" "keeps_drawing finger_TURT_teleport"
  unfolding keeps_drawing_def
  by (auto simp: finger_TURT_back_def finger_TURT_forward_def finger_TURT_pen_colour_def finger_TURT_show_display_def
      finger_TURT_set_heading_def finger_TURT_turn_left_def finger_TURT_turn_right_def draw_Running set_heading_Running
      finger_TURT_pen_position_def finger_TURT_teleport_def split_beta Let_def
      dest: drawing_ok_tryAddPoint drawing_ok_move drawing_ok_normalise split: option.splits if_splits)

lemma print_keeps_drawing: "keeps_drawing finger_TURT_print_drawing"
proof -
  have "canvas_of (w\<lparr>w_files := f\<rparr>) = canvas_of w" for w f by (simp add: canvas_of_def)
  then show ?thesis
    unfolding keeps_drawing_def
    by (auto simp: finger_TURT_print_drawing_def Let_def dest: drawing_ok_tryAddPoint split: option.splits if_splits)
qed

lemma clear_keeps_drawing: "drawing_ok (canvas_of (snd (finger_TURT_clear_paper m)))"
  by (simp add: finger_TURT_clear_paper_def split_beta Let_def drawing_ok_def inside_def freeResources_def)

text \<open>The coordinates that the code clamps to, and the instructions that keep the turtle and the bounds there.\<close>

definition in_range :: "Point \<Rightarrow> bool" where
  "in_range p \<longleftrightarrow>
     sint (pt_x p) \<in> {- 163839998..163839998} \<and> sint (pt_y p) \<in> {- 163839998..163839998}"

definition canvas_in_range :: "canvas \<Rightarrow> bool" where
  "canvas_in_range td \<longleftrightarrow> in_range (tu_p (fst td)) \<and> in_range (tu_min (fst td)) \<and> in_range (tu_max (fst td))"

lemma clamp_in_range: "sint (clamp_tc v) \<in> {- 163839998..163839998}"
proof -
  have "ucast (scast v :: cell) = v"
    by (rule bit_word_eqI) (auto simp: bit_simps min_def le_less_Suc_eq dest: order_antisym)
  moreover have "sint (scast v :: cell) = sint v" by (simp add: sint_up_scast is_up)
  ultimately show ?thesis
    by (auto simp: clamp_tc_def Let_def TURT_MIN_def TURT_MAX_def word_sless_alt)
qed

lemma canvas_in_range_cong [simp]:
  "canvas_in_range (turt\<lparr>tu_colour := c\<rparr>, pic) = canvas_in_range (turt, pic)"
  "canvas_in_range (turt\<lparr>tu_penDown := b\<rparr>, pic) = canvas_in_range (turt, pic)"
  "canvas_in_range (turt\<lparr>tu_movedWithoutDraw := b\<rparr>, pic) = canvas_in_range (turt, pic)"
  "canvas_in_range (turt\<lparr>tu_heading := h\<rparr>, pic) = canvas_in_range (turt, pic)"
  "canvas_in_range (turt\<lparr>tu_heading := h, tu_sin := s, tu_cos := co\<rparr>, pic) = canvas_in_range (turt, pic)"
  by (simp_all add: canvas_in_range_def)

lemma canvas_in_range_newDraw: "canvas_in_range (turt, pic) \<Longrightarrow> canvas_in_range (newDraw turt, pic')"
  by (auto simp: canvas_in_range_def in_range_def newDraw_def Let_def)

lemma canvas_in_range_pic: "canvas_in_range (turt, pic) = canvas_in_range (turt, pic')"
  by (simp add: canvas_in_range_def)

lemma canvas_in_range_move:
  assumes "canvas_in_range td" "move cf d td = Some td'"
  shows "canvas_in_range td'"
proof -
  obtain turt pic where td: "td = (turt, pic)" by (cases td)
  have there: "canvas_in_range (turt\<lparr>tu_p := \<lparr>pt_x = clamp_tc x, pt_y = clamp_tc y\<rparr>\<rparr>, pic')" for x y pic'
    using assms(1) clamp_in_range by (simp add: td canvas_in_range_def in_range_def)
  then have "canvas_in_range (newDraw (turt\<lparr>tu_p := \<lparr>pt_x = clamp_tc x, pt_y = clamp_tc y\<rparr>\<rparr>), pic')" for x y pic'
    by (rule canvas_in_range_newDraw)
  with there show ?thesis
    using assms(2) by (auto simp: move_def td Let_def split: Option.bind_splits if_splits)
qed

lemma canvas_in_range_tryAddPoint:
  "canvas_in_range td \<Longrightarrow> tryAddPoint cf td = Some td' \<Longrightarrow> canvas_in_range td'"
  using canvas_in_range_pic
  by (cases td) (auto simp: tryAddPoint_def addPoint_def intro: canvas_in_range_newDraw split: option.splits if_splits)

lemma canvas_in_range_normalise:
  "normalise cf ((fst td)\<lparr>tu_heading := h\<rparr>) = Some turt' \<Longrightarrow> canvas_in_range td \<Longrightarrow> canvas_in_range (turt', snd td)"
  by (cases td) (auto simp: normalise_def Let_def split: Option.bind_splits)

definition keeps_range :: "operation \<Rightarrow> bool" where
  "keeps_range operation \<longleftrightarrow> (\<forall>cf m m'. canvas_in_range (canvas_of (snd m)) \<longrightarrow>
     operation cf m = Some (Running m') \<longrightarrow> canvas_in_range (canvas_of (snd m')))"

lemma turtle_keeps_range:
  "keeps_range finger_TURT_back" "keeps_range finger_TURT_forward" "keeps_range finger_TURT_pen_colour"
  "keeps_range finger_TURT_show_display" "keeps_range finger_TURT_set_heading" "keeps_range finger_TURT_turn_left"
  "keeps_range finger_TURT_turn_right" "keeps_range finger_TURT_pen_position"
  unfolding keeps_range_def
  by (auto simp: finger_TURT_back_def finger_TURT_forward_def finger_TURT_pen_colour_def finger_TURT_show_display_def
      finger_TURT_set_heading_def finger_TURT_turn_left_def finger_TURT_turn_right_def draw_Running set_heading_Running
      finger_TURT_pen_position_def split_beta Let_def
      dest: canvas_in_range_tryAddPoint canvas_in_range_move canvas_in_range_normalise split: option.splits if_splits)

lemma print_keeps_range: "keeps_range finger_TURT_print_drawing"
proof -
  have "canvas_of (w\<lparr>w_files := f\<rparr>) = canvas_of w" for w f by (simp add: canvas_of_def)
  then show ?thesis
    unfolding keeps_range_def
    by (auto simp: finger_TURT_print_drawing_def Let_def dest: canvas_in_range_tryAddPoint split: option.splits if_splits)
qed

lemma clear_keeps_range: "keeps_range (returns finger_TURT_clear_paper)"
  by (auto simp: keeps_range_def returns_def finger_TURT_clear_paper_def split_beta Let_def canvas_in_range_def in_range_def
      origin_def)

text \<open>The instructions that only look at the canvas.\<close>

lemma queries_keep_canvas:
  assumes "(name, operation) \<in> set TURT_operations" "operation cf m = Some (Running m')"
    and "name \<in> {''query_heading'', ''query_pen'', ''query_position'', ''query_bounds''}"
  shows "canvas_of (snd m') = canvas_of (snd m)"
  using assms
  by (auto simp: TURT_operations_def returns_def finger_TURT_query_heading_def finger_TURT_query_pen_def
      finger_TURT_query_position_def on_ip_def split_beta Let_def)

text \<open>Where \<open>T\<close> takes the turtle to.\<close>

definition teleport_target :: "instructionPointer \<Rightarrow> Point" where
  "teleport_target ip =
     (let (y, ip) = ip_pop ip; (x, ip) = ip_pop ip in \<lparr>pt_x = ucast x, pt_y = ucast y\<rparr>)"

lemma teleport_keeps_range:
  assumes "finger_TURT_teleport cf m = Some (Running m')" "canvas_in_range (canvas_of (snd m))" "in_range (teleport_target (fst m))"
  shows "canvas_in_range (canvas_of (snd m'))"
  using assms
  by (auto simp: finger_TURT_teleport_def teleport_target_def split_beta Let_def draw_Running canvas_in_range_def
      split: option.splits dest!: canvas_in_range_tryAddPoint [unfolded canvas_in_range_def, rotated])

text \<open>
  The canvases that a program can reach: TURT is loaded for the first time, and then any instructions of TURT follow, each from any state of
  the rest of the machine, but \<open>T\<close> only to places within the range that the moves are clamped to.
\<close>

inductive turtle_reach :: "config \<Rightarrow> canvas \<Rightarrow> bool" for cf where
  load: "canvas_of w = (initial_turtle, initial_drawing) \<Longrightarrow> \<not> st_turt_initialised (w_statics w) \<Longrightarrow>
    turt_initialise cf w = Some w' \<Longrightarrow> turtle_reach cf (canvas_of w')"
| step: "turtle_reach cf (canvas_of (snd m)) \<Longrightarrow> (name, operation) \<in> set TURT_operations \<Longrightarrow>
    (name = ''teleport'' \<longrightarrow> in_range (teleport_target (fst m))) \<Longrightarrow>
    operation cf m = Some (Running m') \<Longrightarrow> turtle_reach cf (canvas_of (snd m'))"

lemma turtle_reach_ok:
  assumes "turtle_reach cf td"
  shows "drawing_ok td \<and> canvas_in_range td"
  using assms
proof (induction rule: turtle_reach.induct)
  case (load w w')
  obtain turt where "normalise cf (initial_turtle\<lparr>tu_movedWithoutDraw := True\<rparr>) = Some turt" "canvas_of w' = (turt, initial_drawing)"
    using load by (auto simp: turt_initialise_def canvas_of_def set_canvas_def)
  then show ?case
    by (auto simp: normalise_def Let_def initial_turtle_def initial_drawing_def drawing_ok_def inside_def canvas_in_range_def
        in_range_def origin_def split: Option.bind_splits)
next
  case (step m name operation m')
  then show ?case
  proof (cases "name \<in> {''query_heading'', ''query_pen'', ''query_position'', ''query_bounds''}")
    case True
    then show ?thesis using queries_keep_canvas [OF step.hyps(2,4) True] step.IH by simp
  next
    case False
    have "keeps_drawing (returns finger_TURT_clear_paper)"
      using clear_keeps_drawing by (auto simp: keeps_drawing_def returns_def simp del: split_paired_All)
    then have "keeps_drawing operation"
      using step.hyps(2) False turtle_keeps_drawing print_keeps_drawing by (auto simp: TURT_operations_def)
    moreover have "canvas_in_range (canvas_of (snd m'))"
    proof (cases "name = ''teleport''")
      case True
      then have "operation = finger_TURT_teleport" using step.hyps(2) by (simp add: TURT_operations_def)
      then show ?thesis using teleport_keeps_range step.hyps(3,4) step.IH True by blast
    next
      case other: False
      then have "keeps_range operation"
        using step.hyps(2) False turtle_keeps_range print_keeps_range clear_keeps_range by (auto simp: TURT_operations_def)
      then show ?thesis using step.hyps(4) step.IH unfolding keeps_range_def by blast
    qed
    ultimately show ?thesis using step.hyps(4) step.IH unfolding keeps_drawing_def by blast
  qed
qed

text \<open>The dots and the ends of the lines; and the box that the header states, with the background if there is one.\<close>

definition drawn :: "Drawing \<Rightarrow> Point \<Rightarrow> bool" where
  "drawn pic p \<longleftrightarrow> p \<in> dot_p ` set (pic_dots pic) \<or> (\<exists>q \<in> set (pic_paths pic). path_penDown q \<and> p = dot_p (path_d q))"

definition header_box :: "genx_call list \<Rightarrow> tc \<Rightarrow> tc \<Rightarrow> tc \<Rightarrow> tc \<Rightarrow> bool" where
  "header_box calls x y w h \<longleftrightarrow>
     [c \<leftarrow> calls. case c of Add_attribute name v \<Rightarrow> name = ''viewBox'' | _ \<Rightarrow> False] =
       [Add_attribute ''viewBox'' (show_tc x @ [32] @ show_tc y @ [32] @ show_tc w @ [32] @ show_tc h)]"

lemma sint_tc_sum:
  fixes a b :: tc
  assumes "- (2 ^ 31) \<le> sint a + sint b" "sint a + sint b < 2 ^ 31"
  shows "sint (a + b) = sint a + sint b"
  using assms by (simp add: sint_word_ariths signed_take_bit_int_eq_self)

lemma sint_tc_diff:
  fixes a b :: tc
  assumes "- (2 ^ 31) \<le> sint a - sint b" "sint a - sint b < 2 ^ 31"
  shows "sint (a - b) = sint a - sint b"
  using assms by (simp add: sint_word_ariths signed_take_bit_int_eq_self)

lemma sint_header:
  fixes lo hi :: tc
  assumes "sint lo \<in> {- 163839998..163839998}" "sint hi \<in> {- 163839998..163839998}"
  shows "sint (lo - TURT_PADDING) = sint lo - 1" "sint (hi - lo + 2 * TURT_PADDING) = sint hi - sint lo + 2"
proof -
  show "sint (lo - TURT_PADDING) = sint lo - 1"
    using assms by (subst sint_tc_diff) (auto simp: TURT_PADDING_def)
  have "sint (hi - lo) = sint hi - sint lo" using assms by (intro sint_tc_diff) auto
  then show "sint (hi - lo + 2 * TURT_PADDING) = sint hi - sint lo + 2"
    using assms by (subst sint_tc_sum) (auto simp: TURT_PADDING_def)
qed

text \<open>
  C38: the header of the file bounds the drawing. Whatever instructions of TURT a program executes from the loading of the fingerprint on, as
  long as \<open>T\<close> takes the turtle to places no farther away than 163839998, the one \<open>viewBox\<close> of the header that \<open>I\<close> writes is a box around all dots
  and all ends of lines of the drawing, and around the origin, with a margin on each side. (The starts of lines are not among them: a line that starts
  where the turtle has moved to with the pen up is drawn from a place that the bounds need not contain.)
\<close>

theorem turt_bounds_contain:
  assumes "turtle_reach cf (turt, pic)"
  shows "\<exists>x y w h. header_box (print_header (turt, pic)) x y w h \<and>
    (\<forall>p. drawn pic p \<or> p = origin \<longrightarrow>
       sint x < sint (pt_x p) \<and> sint (pt_x p) < sint x + sint w \<and> sint y < sint (pt_y p) \<and> sint (pt_y p) < sint y + sint h)"
proof -
  let ?lo = "tu_min turt" and ?hi = "tu_max turt"
  have ok: "drawing_ok (turt, pic)" "canvas_in_range (turt, pic)" using turtle_reach_ok [OF assms] by blast+
  have all: "inside turt p" if "drawn pic p \<or> p = origin" for p
    using ok(1) that by (auto simp: drawing_ok_def drawn_def list_all_iff)
  have range: "sint (pt_x ?lo) \<in> {- 163839998..163839998}" "sint (pt_x ?hi) \<in> {- 163839998..163839998}"
    "sint (pt_y ?lo) \<in> {- 163839998..163839998}" "sint (pt_y ?hi) \<in> {- 163839998..163839998}"
    using ok(2) by (simp_all add: canvas_in_range_def in_range_def)
  note ints = sint_header [OF range(1,2)] sint_header [OF range(3,4)]
  have "header_box (print_header (turt, pic)) (pt_x ?lo - TURT_PADDING) (pt_y ?lo - TURT_PADDING)
      (pt_x ?hi - pt_x ?lo + 2 * TURT_PADDING) (pt_y ?hi - pt_y ?lo + 2 * TURT_PADDING)"
    by (simp add: header_box_def print_header_def Let_def)
  moreover have "sint (pt_x ?lo - TURT_PADDING) < sint (pt_x p) \<and>
      sint (pt_x p) < sint (pt_x ?lo - TURT_PADDING) + sint (pt_x ?hi - pt_x ?lo + 2 * TURT_PADDING) \<and>
      sint (pt_y ?lo - TURT_PADDING) < sint (pt_y p) \<and>
      sint (pt_y p) < sint (pt_y ?lo - TURT_PADDING) + sint (pt_y ?hi - pt_y ?lo + 2 * TURT_PADDING)"
    if "drawn pic p \<or> p = origin" for p
    using all [OF that] by (simp add: ints inside_def word_sle_eq)
  ultimately show ?thesis by blast
qed

text \<open>With the pen down the turtle goes five steps to the east: there is a line to 5,0, and its end is in the box.\<close>

definition sample_turtle :: Turtle where
  "sample_turtle = initial_turtle\<lparr>tu_movedWithoutDraw := True, tu_cos := 1\<rparr>"

definition sample_line :: canvas where
  "sample_line = (sample_turtle\<lparr>tu_penDown := True, tu_movedWithoutDraw := False, tu_p := \<lparr>pt_x = 5, pt_y = 0\<rparr>, tu_max := \<lparr>pt_x = 5, pt_y = 0\<rparr>\<rparr>,
     initial_drawing\<lparr>pic_paths := [\<lparr>path_d = \<lparr>dot_p = origin, dot_colour = 0\<rparr>, path_penDown = False\<rparr>,
       \<lparr>path_d = \<lparr>dot_p = \<lparr>pt_x = 5, pt_y = 0\<rparr>, dot_colour = 0\<rparr>, path_penDown = True\<rparr>]\<rparr>)"

lemma canvas_step:
  assumes "turtle_reach cf td" "(name, operation) \<in> set TURT_operations" "name \<noteq> ''teleport''"
    and "operation cf (ip, set_canvas td w) = Some (Running m')"
  shows "turtle_reach cf (canvas_of (snd m'))"
  using turtle_reach.step [of cf "(ip, set_canvas td w)" name operation m'] assms by simp

lemma line_reached: "turtle_reach sample_config sample_line"
proof -
  have norm: "normalise sample_config (initial_turtle\<lparr>tu_movedWithoutDraw := True\<rparr>) = Some sample_turtle"
    by (simp add: normalise_def while_option_unfold initial_turtle_def sample_config_def sample_libm_def sample_arith_def Let_def
        ld_2pi_def sample_turtle_def word_sless_alt)
  then have "turtle_reach sample_config (sample_turtle, initial_drawing)"
    using turtle_reach.load [of sample_world sample_config]
    by (simp add: turt_initialise_def canvas_of_def set_canvas_def sample_world_def initial_statics_def)
  moreover have "finger_TURT_pen_position sample_config (pushed [1], set_canvas (sample_turtle, initial_drawing) sample_world) =
      Some (Running (snd (ip_pop (pushed [1])), set_canvas (sample_turtle\<lparr>tu_penDown := True\<rparr>, initial_drawing)
        (set_canvas (sample_turtle, initial_drawing) sample_world)))"
    by (simp add: finger_TURT_pen_position_def Let_def draw_def split_beta ip_simps from_top_def)
  ultimately have down: "turtle_reach sample_config (sample_turtle\<lparr>tu_penDown := True\<rparr>, initial_drawing)"
    using canvas_step [of sample_config _ "''pen_position''"] by (fastforce simp: TURT_operations_def)
  have "move sample_config 5 (sample_turtle\<lparr>tu_penDown := True\<rparr>, initial_drawing) = Some sample_line"
    by (simp add: move_def Let_def sample_turtle_def initial_turtle_def initial_drawing_def addPath_def create_path_def sample_config_def
        sample_libm_def sample_arith_def newDraw_def clamp_tc_def TURT_MAX_def TURT_MIN_def origin_def sample_line_def word_sless_alt)
  then have "finger_TURT_forward sample_config (pushed [5], set_canvas (sample_turtle\<lparr>tu_penDown := True\<rparr>, initial_drawing) sample_world) =
      Some (Running (snd (ip_pop (pushed [5])), set_canvas sample_line
        (set_canvas (sample_turtle\<lparr>tu_penDown := True\<rparr>, initial_drawing) sample_world)))"
    by (simp add: finger_TURT_forward_def Let_def draw_def split_beta ip_simps from_top_def)
  then show ?thesis
    using canvas_step [OF down, of "''forward''"] by (fastforce simp: TURT_operations_def)
qed

theorem turt_bounds_contain_witness:
  "\<exists>x y w h. header_box (print_header sample_line) x y w h \<and> drawn (snd sample_line) \<lparr>pt_x = 5, pt_y = 0\<rparr> \<and>
     sint x < 5 \<and> 5 < sint x + sint w \<and> sint y < 0 \<and> 0 < sint y + sint h"
proof -
  obtain turt pic where line: "sample_line = (turt, pic)" by fastforce
  have "drawn (snd sample_line) \<lparr>pt_x = 5, pt_y = 0\<rparr>" by (simp add: sample_line_def drawn_def)
  moreover have "turtle_reach sample_config (turt, pic)" using line_reached line by simp
  note turt_bounds_contain [OF this]
  then obtain x y w h where "header_box (print_header (turt, pic)) x y w h" and
    box: "drawn pic p \<longrightarrow> sint x < sint (pt_x p) \<and> sint (pt_x p) < sint x + sint w \<and>
      sint y < sint (pt_y p) \<and> sint (pt_y p) < sint y + sint h" for p by blast
  moreover have "drawn pic \<lparr>pt_x = 5, pt_y = 0\<rparr>" using calculation(1) by (simp only: line snd_conv)
  ultimately show ?thesis using line box [of "\<lparr>pt_x = 5, pt_y = 0\<rparr>"] by auto
qed

subsection \<open>Where the code goes astray\<close>

text \<open>The calls for a drawing with one path, drawn with the pen down.\<close>

lemma one_line:
  assumes "\<And>n. cf_al cf n"
    and "pic_paths pic = [\<lparr>path_d = \<lparr>dot_p = p, dot_colour = colour\<rparr>, path_penDown = True\<rparr>]"
  shows "generate_paths cf pic = Some (generate_path colour
    (bytes_of ''M0,0 '' @ bytes_of ''L'' @ show_tc (pt_x p) @ [44] @ show_tc (pt_y p) @ [32]))"
proof -
  obtain sb where sb: "stringbuffer_new (cf_al cf) = Some sb" "sb_buf sb = []"
    using assms(1) by (auto simp: stringbuffer_new_def)
  obtain sb1 where sb1: "stringbuffer_append_string (cf_al cf) sb (bytes_of ''M0,0 '') = Some sb1"
    "sb_buf sb1 = map scast (bytes_of ''M0,0 '')"
    using append_string_grown [of "cf_al cf" sb] assms(1) sb(2) by auto
  define line where "line = bytes_of ''L'' @ show_tc (pt_x p) @ [44] @ show_tc (pt_y p) @ [32]"
  obtain sb2 where sb2: "stringbuffer_append_string (cf_al cf) sb1 line = Some sb2"
    "sb_buf sb2 = map scast (bytes_of ''M0,0 '' @ line)"
    using append_string_grown [of "cf_al cf" sb1 line] assms(1) sb1(2) by auto
  have "print_point cf sb1 CHR ''L'' p = Some sb2"
    using sb2(1) assms(1) by (simp add: print_point_def stringbuffer_append_printf_def line_def del: split_paired_Ex split_paired_All)
  moreover have "stringbuffer_finish (cf_al cf) sb2 = Some (bytes_of ''M0,0 '' @ line)"
    using sb2(2) assms(1) by (simp add: stringbuffer_finish_def ucast_scast_byte comp_def)
  moreover have "bytes_of ''M0,0 '' \<noteq> []" by (simp add: bytes_of_def)
  ultimately show ?thesis
    by (simp add: generate_paths_def assms(2) sb(1) sb1(1) path_round_def line_def)
qed

text \<open>A writer that shows the data of lines only.\<close>

definition lines_config :: config where
  "lines_config = sample_config\<lparr>cf_svg := \<lambda>calls. Some (True, concat (map (\<lambda>c. case c of
     Add_attribute name v \<Rightarrow> if name = ''d'' then v else [] | _ \<Rightarrow> []) calls))\<rparr>"

text \<open>
  C39: a line drawn after the paper was cleared starts at the wrong place. The writer takes it that a drawing
  whose first path is drawn with the pen down starts at the origin. But \<open>N\<close> empties the list of paths and
  leaves the turtle, its pen and the flag for moves without drawing alone. So when the pen is down and the turtle has just drawn, \<open>N\<close>, \<open>F\<close> and \<open>I\<close>, executed
  one after the other with memory at hand, make a file with one line, in the colour of the pen, from 0,0 to where the turtle is, wherever it was before. The file can be
  opened and genx writes what it is told to.
\<close>

theorem turt_clear_then_draw:
  assumes "\<And>n. cf_al cf n" "se_open (cf_save cf)" "\<And>calls. cf_svg cf calls = Some (True, shown calls)"
    and "tu_penDown (fst (canvas_of w))" "\<not> tu_movedWithoutDraw (fst (canvas_of w))"
    and clear: "finger_TURT_clear_paper (ip, w) = (ip1, w1)"
  shows "\<exists>ip2 w2 w3. finger_TURT_forward cf (ip1, w1) = Some (Running (ip2, w2)) \<and>
    finger_TURT_print_drawing cf (ip2, w2) = Some (Running (ip2, w3)) \<and>
    w_files w3 turt_filename = Some (svg_preamble @ shown (print_header (canvas_of w2) @
      generate_path (tu_colour (fst (canvas_of w))) (bytes_of ''M0,0 L'' @ show_tc (pt_x (tu_p (fst (canvas_of w2)))) @ [44] @
        show_tc (pt_y (tu_p (fst (canvas_of w2)))) @ [32]) @ [End_element]))"
proof -
  let ?turt = "fst (canvas_of w)"
  obtain c ip' where c: "ip_pop ip = (c, ip')" by fastforce
  have w1: "fst (canvas_of w1) = ?turt\<lparr>tu_min := origin, tu_max := origin\<rparr>" "pic_paths (snd (canvas_of w1)) = []"
    "pic_dots (snd (canvas_of w1)) = []"
    using clear by (auto simp: finger_TURT_clear_paper_def c Let_def split_beta freeResources_def)
  obtain v ip2 where v: "ip_pop ip1 = (v, ip2)" by fastforce
  obtain turt' pic' where move: "move cf (ucast v) (canvas_of w1) = Some (turt', pic')"
    using move_granted [OF assms(1)] by fastforce
  then have pic': "pic_paths pic' = [\<lparr>path_d = \<lparr>dot_p = tu_p turt', dot_colour = tu_colour ?turt\<rparr>, path_penDown = True\<rparr>]"
    "pic_dots pic' = []" "\<not> tu_movedWithoutDraw turt'"
    using assms(1,4,5) w1
    by (cases "canvas_of w1"; auto simp: move_def Let_def addPath_def create_path_def newDraw_def)+
  let ?w2 = "set_canvas (turt', pic') w1"
  have forward: "finger_TURT_forward cf (ip1, w1) = Some (Running (ip2, ?w2))"
    by (simp add: finger_TURT_forward_def v draw_def move)
  define line where "line = bytes_of ''L'' @ show_tc (pt_x (tu_p turt')) @ [44] @ show_tc (pt_y (tu_p turt')) @ [32]"
  have paths: "generate_paths cf pic' = Some (generate_path (tu_colour ?turt) (bytes_of ''M0,0 '' @ line))"
    using one_line [OF assms(1) pic'(1)] by (simp add: line_def)
  have "tryAddPoint cf (turt', pic') = Some (turt', pic')" by (simp add: tryAddPoint_def pic'(3))
  then obtain w3 where w3: "finger_TURT_print_drawing cf (ip2, ?w2) = Some (Running (ip2, w3))"
    "w_files w3 turt_filename = Some (svg_preamble @ shown (print_header (turt', pic') @
      generate_path (tu_colour ?turt) (bytes_of ''M0,0 '' @ line) @ [End_element]))"
    by (simp add: finger_TURT_print_drawing_def Let_def assms(2,3) paths generate_circles_def pic'(2))
  moreover have start: "bytes_of ''M0,0 L'' = bytes_of ''M0,0 '' @ bytes_of ''L''" by (simp add: bytes_of_def)
  show ?thesis
    by (rule exI [of _ ip2], rule exI [of _ ?w2], rule exI [of _ w3])
      (use forward w3 in \<open>simp add: line_def start del: append_assoc append_Cons append_Nil\<close>, simp add: line_def)
qed

text \<open>
  The turtle has drawn a line to 5,0; the paper is cleared, and seven more steps are drawn. Of what the writer is told only the data of lines are looked at: the line
  is not the one from 5,0 to 12,0.
\<close>

theorem turt_clear_then_draw_witness:
  "\<exists>ip1 w1 ip2 w2 w3. finger_TURT_clear_paper (pushed [7, 255], set_canvas sample_line sample_world) = (ip1, w1) \<and>
     finger_TURT_forward lines_config (ip1, w1) = Some (Running (ip2, w2)) \<and>
     finger_TURT_print_drawing lines_config (ip2, w2) = Some (Running (ip2, w3)) \<and>
     w_files w3 turt_filename = Some (svg_preamble @ bytes_of ''M0,0 L12,0 '')"
proof -
  let ?m = "(pushed [7, 255], set_canvas sample_line sample_world)"
  let ?d = "\<lambda>c. case c of Add_attribute name v \<Rightarrow> if name = ''d'' then v else [] | _ \<Rightarrow> []"
  let ?turt = "(fst sample_line)\<lparr>tu_min := origin, tu_max := origin\<rparr>"
  obtain ip1 w1 where clear: "finger_TURT_clear_paper ?m = (ip1, w1)" by fastforce
  have at: "ip1 = snd (ip_pop (pushed [7, 255]))" "fst (canvas_of w1) = ?turt" "pic_paths (snd (canvas_of w1)) = []"
    using clear by (auto simp: finger_TURT_clear_paper_def Let_def split_beta freeResources_def)
  then have "toss ip1 = [7, 8] @ [7]" using ip_pop_top [of "pushed [7, 255]" "[7, 8] @ [7]" 255] by (auto simp: ip_simps drop_top_def)
  then have seven: "fst (ip_pop ip1) = 7" using ip_pop_top [of ip1 "[7, 8]" 7] by auto
  have "cf_al lines_config n" "se_open (cf_save lines_config)" "cf_svg lines_config calls = Some (True, concat (map ?d calls))" for n calls
    by (simp_all add: lines_config_def sample_config_def)
  note run = turt_clear_then_draw [OF this _ _ clear]
  obtain ip2 w2 w3 where steps: "finger_TURT_forward lines_config (ip1, w1) = Some (Running (ip2, w2))"
    "finger_TURT_print_drawing lines_config (ip2, w2) = Some (Running (ip2, w3))"
    and there: "w_files w3 turt_filename = Some (svg_preamble @ concat (map ?d (print_header (canvas_of w2) @
      generate_path (tu_colour (fst (canvas_of (snd ?m)))) (bytes_of ''M0,0 L'' @ show_tc (pt_x (tu_p (fst (canvas_of w2)))) @ [44] @
        show_tc (pt_y (tu_p (fst (canvas_of w2)))) @ [32]) @ [End_element])))"
    using run by (auto simp: sample_line_def)
  obtain pic where pic: "canvas_of w1 = (?turt, pic)" using at(2) by (cases "canvas_of w1") auto
  have "tu_p (fst (canvas_of w2)) = \<lparr>pt_x = 12, pt_y = 0\<rparr>"
    using steps(1) seven at(3) pic
    by (auto simp: finger_TURT_forward_def draw_def split_beta Let_def move_def sample_line_def sample_turtle_def initial_turtle_def
        initial_drawing_def addPath_def create_path_def lines_config_def sample_config_def sample_libm_def sample_arith_def newDraw_def
        clamp_tc_def TURT_MAX_def TURT_MIN_def origin_def word_sless_alt)
  moreover have "concat (map ?d (print_header td)) = []" for td
    by (cases td) (simp add: print_header_def Let_def del: concat_eq_Nil_conv)
  moreover have "show_tc 12 = bytes_of ''12''" "show_tc 0 = bytes_of ''0''" by code_simp+
  ultimately have "w_files w3 turt_filename = Some (svg_preamble @ bytes_of ''M0,0 L12,0 '')"
    using there by (simp add: generate_path_def bytes_of_def)
  then show ?thesis using clear steps by blast
qed

text \<open>
  The check for overflow comes too late: the sum of a coordinate near the right edge and a large step wraps
  around, and the turtle ends at the left edge.
\<close>

lemma clamp_wraps: "clamp_tc (163839998 + 2000000000) = ucast TURT_MIN"
  by (simp add: clamp_tc_def TURT_MIN_def TURT_MAX_def word_sless_alt)

end
