(* ===== verification/Fp_Float.thy ===== *)
theory Fp_Float
  imports Operation
begin

text \<open>
  The fingerprints FPSP, FPDP and FIXP, \<^verbatim>\<open>src/fingerprints/FPSP/FPSP.c\<close>, \<^verbatim>\<open>FPDP/FPDP.c\<close> and
  \<^verbatim>\<open>FIXP/FIXP.c\<close>: numbers of single precision, each the bits of one cell; numbers of double precision, each the
  bits of two cells; and fixed-point numbers with four decimals. The arithmetic is a parameter; what is modelled is how numbers
  are laid out in cells, in which order operands are taken, and which functions are applied.
\<close>

section \<open>FPSP\<close>

text \<open>The union of a float and a 32-bit integer: the bits. The integer is pushed with its sign.\<close>

definition pop_single :: "instructionPointer \<Rightarrow> float32 \<times> instructionPointer" where
  "pop_single ip = (let (i, ip) = ip_pop ip in (ucast i, ip))"

definition push_single :: "float32 \<Rightarrow> instructionPointer \<Rightarrow> instructionPointer" where
  "push_single f ip = ip_push (scast f) ip"

definition fpsp_unary :: "(float32 \<Rightarrow> float32) \<Rightarrow> instructionPointer \<Rightarrow> instructionPointer" where
  "fpsp_unary f ip = (let (a, ip) = pop_single ip in push_single (f a) ip)"

definition fpsp_binary :: "(float32 \<Rightarrow> float32 \<Rightarrow> float32) \<Rightarrow> instructionPointer \<Rightarrow> instructionPointer" where
  "fpsp_binary f ip = (let (a, ip) = pop_single ip; (b, ip) = pop_single ip in push_single (f b a) ip)"

definition finger_FPSP_add :: "config \<Rightarrow> instructionPointer \<Rightarrow> instructionPointer" where
  "finger_FPSP_add cf = fpsp_binary (fl_add (lm_float (cf_libm cf)))"

definition finger_FPSP_sub :: "config \<Rightarrow> instructionPointer \<Rightarrow> instructionPointer" where
  "finger_FPSP_sub cf = fpsp_binary (fl_sub (lm_float (cf_libm cf)))"

definition finger_FPSP_mul :: "config \<Rightarrow> instructionPointer \<Rightarrow> instructionPointer" where
  "finger_FPSP_mul cf = fpsp_binary (fl_mul (lm_float (cf_libm cf)))"

definition finger_FPSP_div :: "config \<Rightarrow> instructionPointer \<Rightarrow> instructionPointer" where
  "finger_FPSP_div cf = fpsp_binary (fl_div (lm_float (cf_libm cf)))"

definition finger_FPSP_pow :: "config \<Rightarrow> instructionPointer \<Rightarrow> instructionPointer" where
  "finger_FPSP_pow cf = fpsp_binary (fl_pow (lm_float (cf_libm cf)))"

definition finger_FPSP_sqrt :: "config \<Rightarrow> instructionPointer \<Rightarrow> instructionPointer" where
  "finger_FPSP_sqrt cf = fpsp_unary (fl_sqrt (lm_float (cf_libm cf)))"

definition finger_FPSP_sin :: "config \<Rightarrow> instructionPointer \<Rightarrow> instructionPointer" where
  "finger_FPSP_sin cf = fpsp_unary (fl_sin (lm_float (cf_libm cf)))"

definition finger_FPSP_cos :: "config \<Rightarrow> instructionPointer \<Rightarrow> instructionPointer" where
  "finger_FPSP_cos cf = fpsp_unary (fl_cos (lm_float (cf_libm cf)))"

definition finger_FPSP_tan :: "config \<Rightarrow> instructionPointer \<Rightarrow> instructionPointer" where
  "finger_FPSP_tan cf = fpsp_unary (fl_tan (lm_float (cf_libm cf)))"

definition finger_FPSP_asin :: "config \<Rightarrow> instructionPointer \<Rightarrow> instructionPointer" where
  "finger_FPSP_asin cf = fpsp_unary (fl_asin (lm_float (cf_libm cf)))"

definition finger_FPSP_acos :: "config \<Rightarrow> instructionPointer \<Rightarrow> instructionPointer" where
  "finger_FPSP_acos cf = fpsp_unary (fl_acos (lm_float (cf_libm cf)))"

definition finger_FPSP_atan :: "config \<Rightarrow> instructionPointer \<Rightarrow> instructionPointer" where
  "finger_FPSP_atan cf = fpsp_unary (fl_atan (lm_float (cf_libm cf)))"

definition finger_FPSP_ln :: "config \<Rightarrow> instructionPointer \<Rightarrow> instructionPointer" where
  "finger_FPSP_ln cf = fpsp_unary (fl_log (lm_float (cf_libm cf)))"

definition finger_FPSP_log10 :: "config \<Rightarrow> instructionPointer \<Rightarrow> instructionPointer" where
  "finger_FPSP_log10 cf = fpsp_unary (fl_log10 (lm_float (cf_libm cf)))"

definition finger_FPSP_exp :: "config \<Rightarrow> instructionPointer \<Rightarrow> instructionPointer" where
  "finger_FPSP_exp cf = fpsp_unary (fl_exp (lm_float (cf_libm cf)))"

definition finger_FPSP_abs :: "config \<Rightarrow> instructionPointer \<Rightarrow> instructionPointer" where
  "finger_FPSP_abs cf = fpsp_unary (fl_abs (lm_float (cf_libm cf)))"

definition finger_FPSP_neg :: "config \<Rightarrow> instructionPointer \<Rightarrow> instructionPointer" where
  "finger_FPSP_neg cf =
     (let fl = lm_float (cf_libm cf) in fpsp_unary (\<lambda>a. fl_mul fl a (fl_of_cell fl (- 1))))"

definition finger_FPSP_fromint :: "config \<Rightarrow> instructionPointer \<Rightarrow> instructionPointer" where
  "finger_FPSP_fromint cf ip =
     (let (i, ip) = ip_pop ip in push_single (fl_of_cell (lm_float (cf_libm cf)) i) ip)"

definition finger_FPSP_toint :: "config \<Rightarrow> instructionPointer \<Rightarrow> instructionPointer" where
  "finger_FPSP_toint cf ip =
     (let (a, ip) = pop_single ip in ip_push (fl_to_cell (lm_float (cf_libm cf)) a) ip)"

definition finger_FPSP_fromascii :: "config \<Rightarrow> instructionPointer \<Rightarrow> instructionPointer" where
  "finger_FPSP_fromascii cf ip =
     (let (str, ip) = ip_pop_string cf ip
      in case str of
           None \<Rightarrow> ip_reverse ip
         | Some str \<Rightarrow> push_single (fl_read (lm_float (cf_libm cf)) str) ip)"

definition finger_FPSP_print :: "config \<Rightarrow> mach \<Rightarrow> mach" where
  "finger_FPSP_print cf m =
     (let (ip, w) = m; (a, ip) = pop_single ip
      in (ip, snd (put_bytes cf (fl_show (lm_float (cf_libm cf)) a @ [32]) w)))"

definition FPSP_operations :: "(string \<times> operation) list" where
  "FPSP_operations =
     [(''add'', \<lambda>cf. returns (on_ip (finger_FPSP_add cf)) cf),
      (''sin'', \<lambda>cf. returns (on_ip (finger_FPSP_sin cf)) cf),
      (''cos'', \<lambda>cf. returns (on_ip (finger_FPSP_cos cf)) cf),
      (''div'', \<lambda>cf. returns (on_ip (finger_FPSP_div cf)) cf),
      (''asin'', \<lambda>cf. returns (on_ip (finger_FPSP_asin cf)) cf),
      (''fromint'', \<lambda>cf. returns (on_ip (finger_FPSP_fromint cf)) cf),
      (''atan'', \<lambda>cf. returns (on_ip (finger_FPSP_atan cf)) cf),
      (''acos'', \<lambda>cf. returns (on_ip (finger_FPSP_acos cf)) cf),
      (''toint'', \<lambda>cf. returns (on_ip (finger_FPSP_toint cf)) cf),
      (''ln'', \<lambda>cf. returns (on_ip (finger_FPSP_ln cf)) cf),
      (''log10'', \<lambda>cf. returns (on_ip (finger_FPSP_log10 cf)) cf),
      (''mul'', \<lambda>cf. returns (on_ip (finger_FPSP_mul cf)) cf),
      (''neg'', \<lambda>cf. returns (on_ip (finger_FPSP_neg cf)) cf),
      (''print'', \<lambda>cf. returns (finger_FPSP_print cf) cf),
      (''sqrt'', \<lambda>cf. returns (on_ip (finger_FPSP_sqrt cf)) cf),
      (''fromascii'', \<lambda>cf. returns (on_ip (finger_FPSP_fromascii cf)) cf),
      (''sub'', \<lambda>cf. returns (on_ip (finger_FPSP_sub cf)) cf),
      (''tan'', \<lambda>cf. returns (on_ip (finger_FPSP_tan cf)) cf),
      (''abs'', \<lambda>cf. returns (on_ip (finger_FPSP_abs cf)) cf),
      (''exp'', \<lambda>cf. returns (on_ip (finger_FPSP_exp cf)) cf),
      (''pow'', \<lambda>cf. returns (on_ip (finger_FPSP_pow cf)) cf)]"

section \<open>FPDP\<close>

text \<open>
  The static union \<open>u\<close> of a double and two 32-bit integers, and the static \<open>d\<close>. The first integer of the structure, named
  \<open>high\<close>, lies at the lower address: on a little-endian machine the low half of the double.
\<close>

definition u_high :: "float64 \<Rightarrow> 32 word" where
  "u_high u = ucast u"

definition u_low :: "float64 \<Rightarrow> 32 word" where
  "u_low u = ucast (drop_bit 32 u)"

definition make_u :: "32 word \<Rightarrow> 32 word \<Rightarrow> float64" where
  "make_u high low = push_bit 32 (ucast low) OR ucast high"

definition set_u :: "float64 \<Rightarrow> world \<Rightarrow> world" where
  "set_u u w = w\<lparr>w_statics := (w_statics w)\<lparr>st_FPDP_u := u\<rparr>\<rparr>"

definition set_d :: "float64 \<Rightarrow> world \<Rightarrow> world" where
  "set_d d w = w\<lparr>w_statics := (w_statics w)\<lparr>st_FPDP_d := d\<rparr>\<rparr>"

abbreviation the_u :: "world \<Rightarrow> float64" where
  "the_u w \<equiv> st_FPDP_u (w_statics w)"

definition popDbl :: "mach \<Rightarrow> mach" where
  "popDbl m =
     (let (ip, w) = m; (low, ip) = ip_pop ip; (high, ip) = ip_pop ip
      in (ip, set_u (make_u (ucast high) (ucast low)) w))"

definition pushDbl :: "mach \<Rightarrow> mach" where
  "pushDbl m =
     (let (ip, w) = m
      in (ip_push (scast (u_low (the_u w))) (ip_push (scast (u_high (the_u w))) ip), w))"

definition fpdp_unary :: "(float64 \<Rightarrow> float64) \<Rightarrow> mach \<Rightarrow> mach" where
  "fpdp_unary f m = (let (ip, w) = popDbl m in pushDbl (ip, set_u (f (the_u w)) w))"

definition fpdp_binary :: "(float64 \<Rightarrow> float64 \<Rightarrow> float64) \<Rightarrow> mach \<Rightarrow> mach" where
  "fpdp_binary f m =
     (let (ip, w) = popDbl m; w = set_d (the_u w) w; (ip, w) = popDbl (ip, w)
      in pushDbl (ip, set_u (f (the_u w) (st_FPDP_d (w_statics w))) w))"

definition finger_FPDP_add :: "config \<Rightarrow> mach \<Rightarrow> mach" where
  "finger_FPDP_add cf = fpdp_binary (fl_add (lm_double (cf_libm cf)))"

definition finger_FPDP_sub :: "config \<Rightarrow> mach \<Rightarrow> mach" where
  "finger_FPDP_sub cf = fpdp_binary (fl_sub (lm_double (cf_libm cf)))"

definition finger_FPDP_mul :: "config \<Rightarrow> mach \<Rightarrow> mach" where
  "finger_FPDP_mul cf = fpdp_binary (fl_mul (lm_double (cf_libm cf)))"

definition finger_FPDP_div :: "config \<Rightarrow> mach \<Rightarrow> mach" where
  "finger_FPDP_div cf = fpdp_binary (fl_div (lm_double (cf_libm cf)))"

definition finger_FPDP_pow :: "config \<Rightarrow> mach \<Rightarrow> mach" where
  "finger_FPDP_pow cf = fpdp_binary (fl_pow (lm_double (cf_libm cf)))"

definition finger_FPDP_sqrt :: "config \<Rightarrow> mach \<Rightarrow> mach" where
  "finger_FPDP_sqrt cf = fpdp_unary (fl_sqrt (lm_double (cf_libm cf)))"

definition finger_FPDP_sin :: "config \<Rightarrow> mach \<Rightarrow> mach" where
  "finger_FPDP_sin cf = fpdp_unary (fl_sin (lm_double (cf_libm cf)))"

definition finger_FPDP_cos :: "config \<Rightarrow> mach \<Rightarrow> mach" where
  "finger_FPDP_cos cf = fpdp_unary (fl_cos (lm_double (cf_libm cf)))"

definition finger_FPDP_tan :: "config \<Rightarrow> mach \<Rightarrow> mach" where
  "finger_FPDP_tan cf = fpdp_unary (fl_tan (lm_double (cf_libm cf)))"

definition finger_FPDP_asin :: "config \<Rightarrow> mach \<Rightarrow> mach" where
  "finger_FPDP_asin cf = fpdp_unary (fl_asin (lm_double (cf_libm cf)))"

definition finger_FPDP_acos :: "config \<Rightarrow> mach \<Rightarrow> mach" where
  "finger_FPDP_acos cf = fpdp_unary (fl_acos (lm_double (cf_libm cf)))"

definition finger_FPDP_atan :: "config \<Rightarrow> mach \<Rightarrow> mach" where
  "finger_FPDP_atan cf = fpdp_unary (fl_atan (lm_double (cf_libm cf)))"

definition finger_FPDP_ln :: "config \<Rightarrow> mach \<Rightarrow> mach" where
  "finger_FPDP_ln cf = fpdp_unary (fl_log (lm_double (cf_libm cf)))"

definition finger_FPDP_log10 :: "config \<Rightarrow> mach \<Rightarrow> mach" where
  "finger_FPDP_log10 cf = fpdp_unary (fl_log10 (lm_double (cf_libm cf)))"

definition finger_FPDP_exp :: "config \<Rightarrow> mach \<Rightarrow> mach" where
  "finger_FPDP_exp cf = fpdp_unary (fl_exp (lm_double (cf_libm cf)))"

definition finger_FPDP_abs :: "config \<Rightarrow> mach \<Rightarrow> mach" where
  "finger_FPDP_abs cf = fpdp_unary (fl_abs (lm_double (cf_libm cf)))"

definition finger_FPDP_neg :: "config \<Rightarrow> mach \<Rightarrow> mach" where
  "finger_FPDP_neg cf =
     (let fl = lm_double (cf_libm cf) in fpdp_unary (\<lambda>a. fl_mul fl a (fl_of_cell fl (- 1))))"

definition finger_FPDP_fromint :: "config \<Rightarrow> mach \<Rightarrow> mach" where
  "finger_FPDP_fromint cf m =
     (let (ip, w) = m; (i, ip) = ip_pop ip in pushDbl (ip, set_u (fl_of_cell (lm_double (cf_libm cf)) i) w))"

definition finger_FPDP_toint :: "config \<Rightarrow> mach \<Rightarrow> mach" where
  "finger_FPDP_toint cf m =
     (let (ip, w) = popDbl m in (ip_push (fl_to_cell (lm_double (cf_libm cf)) (the_u w)) ip, w))"

definition finger_FPDP_fromascii :: "config \<Rightarrow> mach \<Rightarrow> mach" where
  "finger_FPDP_fromascii cf m =
     (let (ip, w) = m; (str, ip) = ip_pop_string cf ip
      in case str of
           None \<Rightarrow> (ip_reverse ip, w)
         | Some str \<Rightarrow> pushDbl (ip, set_u (fl_read (lm_double (cf_libm cf)) str) w))"

definition finger_FPDP_print :: "config \<Rightarrow> mach \<Rightarrow> mach" where
  "finger_FPDP_print cf m =
     (let (ip, w) = popDbl m
      in (ip, snd (put_bytes cf (fl_show (lm_double (cf_libm cf)) (the_u w) @ [32]) w)))"

definition FPDP_operations :: "(string \<times> operation) list" where
  "FPDP_operations =
     [(''add'', \<lambda>cf. returns (finger_FPDP_add cf) cf),
      (''sin'', \<lambda>cf. returns (finger_FPDP_sin cf) cf),
      (''cos'', \<lambda>cf. returns (finger_FPDP_cos cf) cf),
      (''div'', \<lambda>cf. returns (finger_FPDP_div cf) cf),
      (''asin'', \<lambda>cf. returns (finger_FPDP_asin cf) cf),
      (''fromint'', \<lambda>cf. returns (finger_FPDP_fromint cf) cf),
      (''atan'', \<lambda>cf. returns (finger_FPDP_atan cf) cf),
      (''acos'', \<lambda>cf. returns (finger_FPDP_acos cf) cf),
      (''toint'', \<lambda>cf. returns (finger_FPDP_toint cf) cf),
      (''ln'', \<lambda>cf. returns (finger_FPDP_ln cf) cf),
      (''log10'', \<lambda>cf. returns (finger_FPDP_log10 cf) cf),
      (''mul'', \<lambda>cf. returns (finger_FPDP_mul cf) cf),
      (''neg'', \<lambda>cf. returns (finger_FPDP_neg cf) cf),
      (''print'', \<lambda>cf. returns (finger_FPDP_print cf) cf),
      (''sqrt'', \<lambda>cf. returns (finger_FPDP_sqrt cf) cf),
      (''fromascii'', \<lambda>cf. returns (finger_FPDP_fromascii cf) cf),
      (''sub'', \<lambda>cf. returns (finger_FPDP_sub cf) cf),
      (''tan'', \<lambda>cf. returns (finger_FPDP_tan cf) cf),
      (''abs'', \<lambda>cf. returns (finger_FPDP_abs cf) cf),
      (''exp'', \<lambda>cf. returns (finger_FPDP_exp cf) cf),
      (''pow'', \<lambda>cf. returns (finger_FPDP_pow cf) cf)]"

section \<open>FIXP\<close>

definition FUNGE_PI_180 :: "config \<Rightarrow> ldouble" where
  "FUNGE_PI_180 cf = (let ld = lm_ldouble (cf_libm cf) in fl_div ld (lm_pil (cf_libm cf)) (fl_of_cell ld 180))"

definition FUNGE_180_PI :: "config \<Rightarrow> ldouble" where
  "FUNGE_180_PI cf = (let ld = lm_ldouble (cf_libm cf) in fl_div ld (fl_of_cell ld 180) (lm_pil (cf_libm cf)))"

text \<open>A cell as a number with four decimals, an angle of it, and the number rounded back to a cell.\<close>

definition fixp_in :: "config \<Rightarrow> cell \<Rightarrow> ldouble" where
  "fixp_in cf n = (let ld = lm_ldouble (cf_libm cf) in fl_div ld (fl_of_cell ld n) (fl_of_cell ld 10000))"

definition fixp_round :: "config \<Rightarrow> ldouble \<Rightarrow> cell" where
  "fixp_round cf d = (let ld = lm_ldouble (cf_libm cf) in fl_to_cell ld (fl_round ld d))"

definition fixp_unary :: "(cell \<Rightarrow> cell) \<Rightarrow> instructionPointer \<Rightarrow> instructionPointer" where
  "fixp_unary f ip = (let (n, ip) = ip_pop ip in ip_push (f n) ip)"

definition fixp_binary :: "(cell \<Rightarrow> cell \<Rightarrow> cell) \<Rightarrow> instructionPointer \<Rightarrow> instructionPointer" where
  "fixp_binary f ip = (let (b, ip) = ip_pop ip; (a, ip) = ip_pop ip in ip_push (f a b) ip)"

text \<open>A function of an angle in degrees, and one that gives an angle in degrees.\<close>

definition fixp_of_angle :: "(ldouble arith \<Rightarrow> ldouble \<Rightarrow> ldouble) \<Rightarrow> config \<Rightarrow> cell \<Rightarrow> cell" where
  "fixp_of_angle f cf n =
     (let ld = lm_ldouble (cf_libm cf)
      in fixp_round cf (fl_mul ld (fl_of_cell ld 10000) (f ld (fl_mul ld (fixp_in cf n) (FUNGE_PI_180 cf)))))"

definition fixp_to_angle :: "(ldouble arith \<Rightarrow> ldouble \<Rightarrow> ldouble) \<Rightarrow> config \<Rightarrow> cell \<Rightarrow> cell" where
  "fixp_to_angle f cf n =
     (let ld = lm_ldouble (cf_libm cf)
      in fixp_round cf (fl_mul ld (fl_mul ld (fl_of_cell ld 10000) (f ld (fixp_in cf n))) (FUNGE_180_PI cf)))"

definition finger_FIXP_and :: "instructionPointer \<Rightarrow> instructionPointer" where
  "finger_FIXP_and = fixp_binary (\<lambda>a b. a AND b)"

definition finger_FIXP_or :: "instructionPointer \<Rightarrow> instructionPointer" where
  "finger_FIXP_or = fixp_binary (\<lambda>a b. a OR b)"

definition finger_FIXP_xor :: "instructionPointer \<Rightarrow> instructionPointer" where
  "finger_FIXP_xor = fixp_binary (\<lambda>a b. a XOR b)"

definition finger_FIXP_cos :: "config \<Rightarrow> instructionPointer \<Rightarrow> instructionPointer" where
  "finger_FIXP_cos cf = fixp_unary (fixp_of_angle fl_cos cf)"

definition finger_FIXP_sin :: "config \<Rightarrow> instructionPointer \<Rightarrow> instructionPointer" where
  "finger_FIXP_sin cf = fixp_unary (fixp_of_angle fl_sin cf)"

definition finger_FIXP_tan :: "config \<Rightarrow> instructionPointer \<Rightarrow> instructionPointer" where
  "finger_FIXP_tan cf = fixp_unary (fixp_of_angle fl_tan cf)"

definition finger_FIXP_acos :: "config \<Rightarrow> instructionPointer \<Rightarrow> instructionPointer" where
  "finger_FIXP_acos cf = fixp_unary (fixp_to_angle fl_acos cf)"

definition finger_FIXP_asin :: "config \<Rightarrow> instructionPointer \<Rightarrow> instructionPointer" where
  "finger_FIXP_asin cf = fixp_unary (fixp_to_angle fl_asin cf)"

definition finger_FIXP_atan :: "config \<Rightarrow> instructionPointer \<Rightarrow> instructionPointer" where
  "finger_FIXP_atan cf = fixp_unary (fixp_to_angle fl_atan cf)"

definition finger_FIXP_rand :: "config \<Rightarrow> mach \<Rightarrow> mach" where
  "finger_FIXP_rand cf m =
     (let (ip, w) = m; (n, ip) = ip_pop ip
      in if n = 0 then (ip_push 0 ip, w)
         else (let (r, w) = prng_generate_unsigned cf n w in (ip_push r ip, w)))"

definition finger_FIXP_neg :: "instructionPointer \<Rightarrow> instructionPointer" where
  "finger_FIXP_neg = fixp_unary uminus"

definition finger_FIXP_mulpi :: "config \<Rightarrow> instructionPointer \<Rightarrow> instructionPointer" where
  "finger_FIXP_mulpi cf =
     (let ld = lm_ldouble (cf_libm cf)
      in fixp_unary (\<lambda>n. fl_to_cell ld (fl_mul ld (lm_pil (cf_libm cf)) (fl_of_cell ld n))))"

definition finger_FIXP_sqrt :: "config \<Rightarrow> instructionPointer \<Rightarrow> instructionPointer" where
  "finger_FIXP_sqrt cf =
     (let ld = lm_ldouble (cf_libm cf) in fixp_unary (\<lambda>n. fixp_round cf (fl_sqrt ld (fl_of_cell ld n))))"

definition finger_FIXP_pow :: "config \<Rightarrow> instructionPointer \<Rightarrow> instructionPointer" where
  "finger_FIXP_pow cf =
     (let ld = lm_ldouble (cf_libm cf)
      in fixp_binary (\<lambda>a b. fixp_round cf (fl_pow ld (fl_of_cell ld a) (fl_of_cell ld b))))"

definition finger_FIXP_signbit :: "instructionPointer \<Rightarrow> instructionPointer" where
  "finger_FIXP_signbit = fixp_unary (\<lambda>n. if 0 <s n then 1 else if n <s 0 then - 1 else 0)"

definition finger_FIXP_abs :: "instructionPointer \<Rightarrow> instructionPointer" where
  "finger_FIXP_abs = fixp_unary ABS"

definition FIXP_operations :: "(string \<times> operation) list" where
  "FIXP_operations =
     [(''and'', returns (on_ip finger_FIXP_and)), (''acos'', \<lambda>cf. returns (on_ip (finger_FIXP_acos cf)) cf),
      (''cos'', \<lambda>cf. returns (on_ip (finger_FIXP_cos cf)) cf), (''rand'', \<lambda>cf. returns (finger_FIXP_rand cf) cf),
      (''sin'', \<lambda>cf. returns (on_ip (finger_FIXP_sin cf)) cf), (''asin'', \<lambda>cf. returns (on_ip (finger_FIXP_asin cf)) cf),
      (''neg'', returns (on_ip finger_FIXP_neg)), (''or'', returns (on_ip finger_FIXP_or)),
      (''mulpi'', \<lambda>cf. returns (on_ip (finger_FIXP_mulpi cf)) cf), (''sqrt'', \<lambda>cf. returns (on_ip (finger_FIXP_sqrt cf)) cf),
      (''pow'', \<lambda>cf. returns (on_ip (finger_FIXP_pow cf)) cf), (''signbit'', returns (on_ip finger_FIXP_signbit)),
      (''tan'', \<lambda>cf. returns (on_ip (finger_FIXP_tan cf)) cf), (''atan'', \<lambda>cf. returns (on_ip (finger_FIXP_atan cf)) cf),
      (''abs'', returns (on_ip finger_FIXP_abs)), (''xor'', returns (on_ip finger_FIXP_xor))]"

section \<open>The frame\<close>

lemma frame_fpsp [frames]:
  "frame (fpsp_unary f ip, w) = frame (ip, w)" "frame (fpsp_binary g ip, w) = frame (ip, w)"
  "frame (finger_FPSP_fromint cf ip, w) = frame (ip, w)" "frame (finger_FPSP_toint cf ip, w) = frame (ip, w)"
  "frame (finger_FPSP_fromascii cf ip, w) = frame (ip, w)" "frame (finger_FPSP_print cf m) = frame m"
  by (simp_all add: fpsp_unary_def fpsp_binary_def pop_single_def push_single_def finger_FPSP_fromint_def
      finger_FPSP_toint_def finger_FPSP_fromascii_def finger_FPSP_print_def split_beta Let_def frames split: option.split)

lemmas fpsp_defs = finger_FPSP_add_def finger_FPSP_sub_def finger_FPSP_mul_def finger_FPSP_div_def finger_FPSP_pow_def finger_FPSP_sqrt_def finger_FPSP_sin_def finger_FPSP_cos_def finger_FPSP_tan_def finger_FPSP_asin_def finger_FPSP_acos_def finger_FPSP_atan_def finger_FPSP_ln_def finger_FPSP_log10_def finger_FPSP_exp_def finger_FPSP_abs_def finger_FPSP_neg_def

lemma FPSP_keeps_frame: "\<forall>(name, operation) \<in> set FPSP_operations. keeps_frame operation"
  by (simp add: FPSP_operations_def fpsp_defs Let_def frames keeps_frame_config)

lemma FPSP_crash_free: "\<forall>(name, operation) \<in> set FPSP_operations. crash_free operation"
  by (simp add: FPSP_operations_def crash_free_returns)

lemma frame_set_u [frames]: "frame (ip, set_u u w) = frame (ip, w)" "frame (ip, set_d u w) = frame (ip, w)"
  by (simp_all add: set_u_def set_d_def frames)

lemma frame_dbl [frames]: "frame (popDbl m) = frame m" "frame (pushDbl m) = frame m"
  by (cases m; simp add: popDbl_def pushDbl_def split_beta Let_def frames)+

lemma frame_fpdp [frames]:
  "frame (fpdp_unary f m) = frame m" "frame (fpdp_binary g m) = frame m"
  "frame (finger_FPDP_fromint cf m) = frame m" "frame (finger_FPDP_toint cf m) = frame m"
  "frame (finger_FPDP_fromascii cf m) = frame m" "frame (finger_FPDP_print cf m) = frame m"
  by (simp_all add: fpdp_unary_def fpdp_binary_def finger_FPDP_fromint_def finger_FPDP_toint_def
      finger_FPDP_fromascii_def finger_FPDP_print_def split_beta Let_def frames split: option.split)

lemmas fpdp_defs = finger_FPDP_add_def finger_FPDP_sub_def finger_FPDP_mul_def finger_FPDP_div_def finger_FPDP_pow_def finger_FPDP_sqrt_def finger_FPDP_sin_def finger_FPDP_cos_def finger_FPDP_tan_def finger_FPDP_asin_def finger_FPDP_acos_def finger_FPDP_atan_def finger_FPDP_ln_def finger_FPDP_log10_def finger_FPDP_exp_def finger_FPDP_abs_def finger_FPDP_neg_def

lemma FPDP_keeps_frame: "\<forall>(name, operation) \<in> set FPDP_operations. keeps_frame operation"
  by (simp add: FPDP_operations_def fpdp_defs Let_def frames keeps_frame_config)

lemma FPDP_crash_free: "\<forall>(name, operation) \<in> set FPDP_operations. crash_free operation"
  by (simp add: FPDP_operations_def crash_free_returns)

lemma frame_fixp [frames]:
  "frame (fixp_unary f ip, w) = frame (ip, w)" "frame (fixp_binary g ip, w) = frame (ip, w)"
  "frame (finger_FIXP_rand cf m) = frame m"
  by (simp_all add: fixp_unary_def fixp_binary_def finger_FIXP_rand_def split_beta Let_def frames)

lemmas fixp_defs = finger_FIXP_and_def finger_FIXP_or_def finger_FIXP_xor_def finger_FIXP_cos_def finger_FIXP_sin_def finger_FIXP_tan_def finger_FIXP_acos_def finger_FIXP_asin_def finger_FIXP_atan_def finger_FIXP_neg_def finger_FIXP_mulpi_def finger_FIXP_sqrt_def finger_FIXP_pow_def finger_FIXP_signbit_def finger_FIXP_abs_def

lemma FIXP_keeps_frame: "\<forall>(name, operation) \<in> set FIXP_operations. keeps_frame operation"
  by (simp add: FIXP_operations_def fixp_defs Let_def frames keeps_frame_config keeps_frame_returns)

lemma FIXP_crash_free: "\<forall>(name, operation) \<in> set FIXP_operations. crash_free operation"
  by (simp add: FIXP_operations_def crash_free_returns)

section \<open>Numbers in cells\<close>

lemma u_halves: "make_u (u_high u) (u_low u) = u"
  by (rule bit_word_eqI) (auto simp: make_u_def u_high_def u_low_def bit_simps)

lemma ucast_scast_32: "ucast (scast (v :: 32 word) :: cell) = v"
  by (rule bit_word_eqI) (auto simp: bit_simps min_def le_less_Suc_eq dest: order_antisym)

text \<open>The two cells of a double, the first one deeper in the stack.\<close>

definition dbl_cells :: "float64 \<Rightarrow> cell list" where
  "dbl_cells u = [scast (u_high u), scast (u_low u)]"

lemma popDbl_top:
  assumes "toss ip = xs @ dbl_cells u"
  shows "\<exists>s. popDbl (ip, w) = (ip_set_stack s ip, set_u u w) \<and> stack_list s = xs"
proof -
  obtain s where s: "ip_pop ip = (scast (u_low u), ip_set_stack s ip)" "stack_list s = xs @ [scast (u_high u)]"
    using ip_pop_top [of ip "xs @ [scast (u_high u)]" "scast (u_low u)"] assms by (auto simp: dbl_cells_def)
  obtain t where t: "ip_pop (ip_set_stack s ip) = (scast (u_high u), ip_set_stack t ip)" "stack_list t = xs"
    using ip_pop_top [of "ip_set_stack s ip" xs "scast (u_high u)"] s(2) by (auto simp: ip_simps)
  show ?thesis
    using t(2) by (auto simp: popDbl_def s(1) t(1) ucast_scast_32 u_halves)
qed

lemma set_u_simps [simp]:
  "the_u (set_u u w) = u" "st_FPDP_d (w_statics (set_d d w)) = d" "the_u (set_d d w) = the_u w"
  "st_FPDP_d (w_statics (set_u u w)) = st_FPDP_d (w_statics w)" "set_u u (set_u v w) = set_u u w"
  by (simp_all add: set_u_def set_d_def)

lemma pushDbl_run: "toss (fst (pushDbl (ip, w))) = toss ip @ dbl_cells (the_u w)" "snd (pushDbl (ip, w)) = w"
  by (simp_all add: pushDbl_def dbl_cells_def ip_simps)

lemma pop_single_top:
  assumes "toss ip = xs @ [scast f]"
  shows "\<exists>s. pop_single ip = (f, ip_set_stack s ip) \<and> stack_list s = xs"
  using ip_pop_top [OF assms] by (auto simp: pop_single_def ucast_scast_32)

text \<open>
  the operands and the result of a double-precision instruction are laid out alike. With the cells of
  \<open>x\<close> and, above them, those of \<open>y\<close> on the stack, an instruction with two operands leaves the cells of \<open>x op y\<close> in their
  place, in this order of the operands, whatever the bits, and the single-precision instruction does the same with one cell each.
\<close>

theorem float_operands:
  assumes "toss ip = xs @ dbl_cells x @ dbl_cells y" "toss ip' = xs' @ [scast a, scast b]"
  shows "toss (fst (fpdp_binary op (ip, w))) = xs @ dbl_cells (op x y) \<and>
    toss (fpsp_binary op' ip') = xs' @ [scast (op' a b)]"
proof
  obtain s where s: "popDbl (ip, w) = (ip_set_stack s ip, set_u y w)" "stack_list s = xs @ dbl_cells x"
    using popDbl_top [of ip "xs @ dbl_cells x" y w] assms(1) by auto
  obtain t where t: "popDbl (ip_set_stack s ip, set_d y (set_u y w)) = (ip_set_stack t ip, set_u x (set_d y (set_u y w)))"
    "stack_list t = xs"
    using popDbl_top [of "ip_set_stack s ip" xs x "set_d y (set_u y w)"] s(2) by (auto simp: ip_simps)
  show "toss (fst (fpdp_binary op (ip, w))) = xs @ dbl_cells (op x y)"
    by (simp add: fpdp_binary_def s(1) t pushDbl_run ip_simps)
  obtain s' where s': "pop_single ip' = (b, ip_set_stack s' ip')" "stack_list s' = xs' @ [scast a]"
    using pop_single_top [of ip' "xs' @ [scast a]" b] assms(2) by auto
  obtain t' where "pop_single (ip_set_stack s' ip') = (a, ip_set_stack t' ip')" "stack_list t' = xs'"
    using pop_single_top [of "ip_set_stack s' ip'" xs' a] s'(2) by (auto simp: ip_simps)
  then show "toss (fpsp_binary op' ip') = xs' @ [scast (op' a b)]"
    by (simp add: fpsp_binary_def s'(1) push_single_def ip_simps)
qed

theorem float_operands_witness:
  "toss (fst (fpdp_binary (fl_sub (lm_double (cf_libm sample_config)))
     (ip_push 0 (ip_push 3 (ip_push 0 (ip_push 10 sample_ip))), sample_world))) = [7, 8] @ dbl_cells 7"
proof -
  have "dbl_cells 10 = [10, 0]" "dbl_cells 3 = [3, 0]"
    by (simp_all add: dbl_cells_def u_high_def u_low_def)
  then have "toss (ip_push 0 (ip_push 3 (ip_push 0 (ip_push 10 sample_ip)))) = [7, 8] @ dbl_cells 10 @ dbl_cells 3"
    "toss sample_ip = [] @ [scast (7 :: 32 word), scast (8 :: 32 word)]"
    by (simp_all add: ip_simps)
  note float_operands [OF this, of "fl_sub (lm_double (cf_libm sample_config))" sample_world "\<lambda>a b. a"]
  then show ?thesis by (simp add: sample_config_def sample_libm_def sample_arith_def)
qed

text \<open>Whole numbers up to \<open>k\<close> bits are represented exactly: what IEEE arithmetic guarantees for 53 and 24 bits.\<close>

definition exact_integers :: "'f arith \<Rightarrow> nat \<Rightarrow> bool" where
  "exact_integers fl k \<longleftrightarrow> (\<forall>c. \<bar>sint c\<bar> \<le> 2 ^ k \<longrightarrow> fl_to_cell fl (fl_of_cell fl c) = c)"

lemma exact_sample: "exact_integers (sample_arith :: float64 arith) 53" "exact_integers (sample_arith :: float32 arith) 24"
proof -
  show "exact_integers (sample_arith :: float64 arith) 53" by (simp add: exact_integers_def sample_arith_def)
  have "scast (scast c :: 32 word) = c" if "\<bar>sint c\<bar> \<le> 16777216" for c :: cell
  proof (rule signed_word_eqI)
    have "sint (scast c :: 32 word) = (sint c + 2 ^ 31) mod 2 ^ 32 - 2 ^ 31"
      unfolding scast_eq int_word_sint by simp
    also have "\<dots> = sint c" using that by simp
    finally show "sint (scast (scast c :: 32 word) :: cell) = sint c" by (simp add: sint_up_scast is_up)
  qed
  then show "exact_integers (sample_arith :: float32 arith) 24" by (simp add: exact_integers_def sample_arith_def)
qed

text \<open>
  converting a cell to a floating-point number and back gives the cell: \<open>F\<close> and then \<open>I\<close> leave the stack as it
  was, in double precision for numbers up to \<open>2^53\<close> and in single precision up to \<open>2^24\<close> in magnitude, although the number in
  between lies in two cells, or one, that are sign-extended halves of its bits.
\<close>

theorem float_int_round_trip:
  assumes "exact_integers (lm_double (cf_libm cf)) 53" "exact_integers (lm_float (cf_libm cf)) 24"
    and "toss ip = xs @ [n]" "\<bar>sint n\<bar> \<le> 2 ^ 53"
  shows "toss (fst (finger_FPDP_toint cf (finger_FPDP_fromint cf (ip, w)))) = xs @ [n] \<and>
    (\<bar>sint n\<bar> \<le> 2 ^ 24 \<longrightarrow> toss (finger_FPSP_toint cf (finger_FPSP_fromint cf ip)) = xs @ [n])"
proof (intro conjI impI)
  obtain s where s: "ip_pop ip = (n, ip_set_stack s ip)" "stack_list s = xs"
    using ip_pop_top [OF assms(3)] by auto
  let ?f = "fl_of_cell (lm_double (cf_libm cf)) n"
  obtain ip1 w1 where push: "pushDbl (ip_set_stack s ip, set_u ?f w) = (ip1, w1)" by fastforce
  then have "toss ip1 = xs @ dbl_cells ?f"
    using pushDbl_run(1) [of "ip_set_stack s ip" "set_u ?f w"] s(2) by (simp add: ip_simps)
  then obtain t where "popDbl (ip1, w1) = (ip_set_stack t ip1, set_u ?f w1)" "stack_list t = xs"
    using popDbl_top by blast
  then show "toss (fst (finger_FPDP_toint cf (finger_FPDP_fromint cf (ip, w)))) = xs @ [n]"
    using assms(1,4)
    by (simp add: finger_FPDP_toint_def finger_FPDP_fromint_def s(1) push ip_simps exact_integers_def)
  assume "\<bar>sint n\<bar> \<le> 2 ^ 24"
  let ?g = "fl_of_cell (lm_float (cf_libm cf)) n" and ?ip = "push_single (fl_of_cell (lm_float (cf_libm cf)) n) (ip_set_stack s ip)"
  have "toss ?ip = xs @ [scast ?g]" using s(2) by (simp add: push_single_def ip_simps)
  then obtain u where "pop_single ?ip = (?g, ip_set_stack u ?ip)" "stack_list u = xs"
    using pop_single_top by blast
  then show "toss (finger_FPSP_toint cf (finger_FPSP_fromint cf ip)) = xs @ [n]"
    using assms(2) \<open>\<bar>sint n\<bar> \<le> 2 ^ 24\<close>
    by (simp add: finger_FPSP_toint_def finger_FPSP_fromint_def s(1) ip_simps exact_integers_def)
qed

theorem float_int_round_trip_witness:
  "toss (fst (finger_FPDP_toint sample_config (finger_FPDP_fromint sample_config (sample_ip, sample_world)))) = [7, 8]"
proof -
  have "toss sample_ip = [7] @ [8]" by (simp add: ip_simps)
  then show ?thesis
    using float_int_round_trip [of sample_config sample_ip "[7]" 8 sample_world] exact_sample
    by (simp add: sample_config_def sample_libm_def)
qed

end
