(* ===== verification/Fp_3dsp.thy ===== *)
theory Fp_3dsp
  imports Fp_Float
begin

text \<open>
  The fingerprint 3DSP, \<^verbatim>\<open>src/fingerprints/3DSP/3DSP.c\<close>: vectors of three numbers on the stack and matrices of
  four rows in funge-space, each number the bits of a single-precision float in a cell and calculated with in double precision.
  The arithmetic is a parameter.
\<close>

section \<open>Vectors\<close>

type_synonym vec3 = "float64 \<times> float64 \<times> float64"

definition pop_vec_float :: "instructionPointer \<Rightarrow> (float32 \<times> float32 \<times> float32) \<times> instructionPointer" where
  "pop_vec_float ip =
     (let (v2, ip) = pop_single ip; (v1, ip) = pop_single ip; (v0, ip) = pop_single ip in ((v0, v1, v2), ip))"

definition push_vec_float :: "float32 \<times> float32 \<times> float32 \<Rightarrow> instructionPointer \<Rightarrow> instructionPointer" where
  "push_vec_float vec ip = (let (v0, v1, v2) = vec in push_single v2 (push_single v1 (push_single v0 ip)))"

definition pop_vec :: "config \<Rightarrow> instructionPointer \<Rightarrow> vec3 \<times> instructionPointer" where
  "pop_vec cf ip =
     (let widen = lm_float_double (cf_libm cf);
          (v2, ip) = pop_single ip; (v1, ip) = pop_single ip; (v0, ip) = pop_single ip
      in ((widen v0, widen v1, widen v2), ip))"

definition push_vec :: "config \<Rightarrow> vec3 \<Rightarrow> instructionPointer \<Rightarrow> instructionPointer" where
  "push_vec cf vec ip =
     (let narrow = lm_double_float (cf_libm cf); (v0, v1, v2) = vec
      in push_single (narrow v2) (push_single (narrow v1) (push_single (narrow v0) ip)))"

definition vector_length :: "config \<Rightarrow> vec3 \<Rightarrow> float64" where
  "vector_length cf vec =
     (let fl = lm_double (cf_libm cf); (v0, v1, v2) = vec
      in fl_sqrt fl (fl_add fl (fl_add fl (fl_mul fl v0 v0) (fl_mul fl v1 v1)) (fl_mul fl v2 v2)))"

section \<open>Matrices\<close>

text \<open>A matrix is the array of its 16 numbers, row by row.\<close>

type_synonym matrix = "float64 list"

definition matrix_places :: "(nat \<times> nat) list" where
  "matrix_places = List.product [0..<4] [0..<4]"

text \<open>The place of row \<open>y\<close> and column \<open>x\<close> of a matrix at \<open>fV\<close>, which the storage offset of the pointer moves.\<close>

definition matrix_place :: "instructionPointer \<Rightarrow> funge_vector \<Rightarrow> nat \<times> nat \<Rightarrow> funge_vector" where
  "matrix_place ip fV = (\<lambda>(y, x).
     (let basex = vec_x fV + vec_x (ip_storageOffset ip); basey = vec_y fV + vec_y (ip_storageOffset ip)
      in vector (basex + of_nat x) (basey + of_nat y)))"

definition number_cell :: "config \<Rightarrow> float64 \<Rightarrow> cell" where
  "number_cell cf d = scast (lm_double_float (cf_libm cf) d)"

definition cell_number :: "config \<Rightarrow> cell \<Rightarrow> float64" where
  "cell_number cf c = lm_float_double (cf_libm cf) (ucast c)"

definition writeMatrix :: "config \<Rightarrow> instructionPointer \<Rightarrow> funge_vector \<Rightarrow> matrix \<Rightarrow> fungeSpace \<Rightarrow> fungeSpace" where
  "writeMatrix cf ip fV m f =
     fold (\<lambda>(y, x). fungespace_set (number_cell cf (m ! (4 * y + x))) (matrix_place ip fV (y, x))) matrix_places f"

definition readMatrix :: "config \<Rightarrow> instructionPointer \<Rightarrow> funge_vector \<Rightarrow> fungeSpace \<Rightarrow> matrix" where
  "readMatrix cf ip fV f = map (\<lambda>p. cell_number cf (fungespace_get f (matrix_place ip fV p))) matrix_places"

definition mulMatrixVector :: "config \<Rightarrow> matrix \<Rightarrow> float64 list \<Rightarrow> float64 list" where
  "mulMatrixVector cf m v =
     (let fl = lm_double (cf_libm cf)
      in map (\<lambda>i. fold (\<lambda>k n. fl_add fl n (fl_mul fl (m ! (i * 4 + k)) (v ! k))) [0..<4] (fl_of_cell fl 0)) [0..<4])"

definition mulMatrices :: "config \<Rightarrow> matrix \<Rightarrow> matrix \<Rightarrow> matrix" where
  "mulMatrices cf a b =
     (let fl = lm_double (cf_libm cf)
      in map (\<lambda>(y, x). fold (\<lambda>k n. fl_add fl n (fl_mul fl (a ! (y * 4 + k)) (b ! (k * 4 + x)))) [0..<4] (fl_of_cell fl 0))
           matrix_places)"

section \<open>Instructions on vectors\<close>

text \<open>Two vectors combined part by part.\<close>

definition dsp_binary :: "(float64 arith \<Rightarrow> vec3 \<Rightarrow> vec3 \<Rightarrow> vec3) \<Rightarrow> config \<Rightarrow> instructionPointer \<Rightarrow> instructionPointer" where
  "dsp_binary f cf ip =
     (let (b, ip) = pop_vec cf ip; (a, ip) = pop_vec cf ip in push_vec cf (f (lm_double (cf_libm cf)) a b) ip)"

definition by_parts :: "(float64 \<Rightarrow> float64 \<Rightarrow> float64) \<Rightarrow> vec3 \<Rightarrow> vec3 \<Rightarrow> vec3" where
  "by_parts f a b = (let (a0, a1, a2) = a; (b0, b1, b2) = b in (f a0 b0, f a1 b1, f a2 b2))"

definition finger_3DSP_add :: "config \<Rightarrow> instructionPointer \<Rightarrow> instructionPointer" where
  "finger_3DSP_add = dsp_binary (\<lambda>fl. by_parts (fl_add fl))"

definition finger_3DSP_sub :: "config \<Rightarrow> instructionPointer \<Rightarrow> instructionPointer" where
  "finger_3DSP_sub = dsp_binary (\<lambda>fl. by_parts (fl_sub fl))"

definition finger_3DSP_mul :: "config \<Rightarrow> instructionPointer \<Rightarrow> instructionPointer" where
  "finger_3DSP_mul = dsp_binary (\<lambda>fl. by_parts (fl_mul fl))"

definition finger_3DSP_cross :: "config \<Rightarrow> instructionPointer \<Rightarrow> instructionPointer" where
  "finger_3DSP_cross =
     dsp_binary (\<lambda>fl a b.
       (let (a0, a1, a2) = a; (b0, b1, b2) = b
        in (fl_sub fl (fl_mul fl a1 b2) (fl_mul fl a2 b1), fl_sub fl (fl_mul fl a2 b0) (fl_mul fl a0 b2),
            fl_sub fl (fl_mul fl a0 b1) (fl_mul fl a1 b0))))"

definition finger_3DSP_dot :: "config \<Rightarrow> instructionPointer \<Rightarrow> instructionPointer" where
  "finger_3DSP_dot cf ip =
     (let fl = lm_double (cf_libm cf); (b, ip) = pop_vec cf ip; (a, ip) = pop_vec cf ip;
          (a0, a1, a2) = by_parts (fl_mul fl) a b
      in push_single (lm_double_float (cf_libm cf) (fl_add fl (fl_add fl a0 a1) a2)) ip)"

definition finger_3DSP_length :: "config \<Rightarrow> instructionPointer \<Rightarrow> instructionPointer" where
  "finger_3DSP_length cf ip =
     (let (a, ip) = pop_vec cf ip in push_single (lm_double_float (cf_libm cf) (vector_length cf a)) ip)"

definition finger_3DSP_normalise :: "config \<Rightarrow> instructionPointer \<Rightarrow> instructionPointer" where
  "finger_3DSP_normalise cf ip =
     (let (a, ip) = pop_vec cf ip; len = vector_length cf a
      in push_vec cf (by_parts (fl_div (lm_double (cf_libm cf))) a (len, len, len)) ip)"

definition finger_3DSP_duplicate :: "instructionPointer \<Rightarrow> instructionPointer" where
  "finger_3DSP_duplicate ip = (let (a, ip) = pop_vec_float ip in push_vec_float a (push_vec_float a ip))"

definition finger_3DSP_map :: "config \<Rightarrow> instructionPointer \<Rightarrow> instructionPointer" where
  "finger_3DSP_map cf ip =
     (let fl = lm_double (cf_libm cf); narrow = lm_double_float (cf_libm cf); (v, ip) = pop_vec cf ip; (v0, v1, v2) = v;
          (v0, v1) = (if fl_iszero fl v2 then (v0, v1) else (fl_div fl v0 v2, fl_div fl v1 v2))
      in push_single (narrow v1) (push_single (narrow v0) ip))"

definition finger_3DSP_scale :: "config \<Rightarrow> instructionPointer \<Rightarrow> instructionPointer" where
  "finger_3DSP_scale cf ip =
     (let (a, ip) = pop_vec cf ip; (n, ip) = pop_single ip; n = lm_float_double (cf_libm cf) n
      in push_vec cf (by_parts (fl_mul (lm_double (cf_libm cf))) a (n, n, n)) ip)"

section \<open>Instructions on matrices\<close>

definition write_at :: "config \<Rightarrow> funge_vector \<Rightarrow> matrix \<Rightarrow> mach \<Rightarrow> mach" where
  "write_at cf fV mat m = (let (ip, w) = m in (ip, w\<lparr>w_space := writeMatrix cf ip fV mat (w_space w)\<rparr>))"

definition finger_3DSP_matrix_copy :: "mach \<Rightarrow> mach" where
  "finger_3DSP_matrix_copy m =
     (let (ip, w) = m; (fs, ip) = ip_pop_vector ip; (ft, ip) = ip_pop_vector ip
      in (ip, w\<lparr>w_space := fold (\<lambda>p f. fungespace_set (fungespace_get f (matrix_place ip fs p)) (matrix_place ip ft p) f)
                  matrix_places (w_space w)\<rparr>))"

definition rotation :: "config \<Rightarrow> cell \<Rightarrow> float64 \<Rightarrow> matrix" where
  "rotation cf axis angle =
     (let fl = lm_double (cf_libm cf); zero = fl_of_cell fl 0; one = fl_of_cell fl 1;
          angle = fl_mul fl angle (fl_div fl (lm_pi (cf_libm cf)) (fl_of_cell fl 180));
          s = fl_sin fl angle; c = fl_cos fl angle
      in if axis = 1 then
           [one, zero, zero, zero,
            zero, c, fl_neg fl s, zero,
            zero, s, c, zero,
            zero, zero, zero, one]
         else if axis = 2 then
           [c, zero, s, zero,
            zero, one, zero, zero,
            fl_neg fl s, zero, c, zero,
            zero, zero, zero, one]
         else
           [c, fl_neg fl s, zero, zero,
            s, c, zero, zero,
            zero, zero, one, zero,
            zero, zero, zero, one])"

definition finger_3DSP_matrix_rotate :: "config \<Rightarrow> mach \<Rightarrow> mach" where
  "finger_3DSP_matrix_rotate cf m =
     (let (ip, w) = m; (angle, ip) = pop_single ip; (axis, ip) = ip_pop ip; (fV, ip) = ip_pop_vector ip
      in if \<not> (1 \<le>s axis \<and> axis \<le>s 3) then (ip_reverse ip, w)
         else write_at cf fV (rotation cf axis (lm_float_double (cf_libm cf) angle)) (ip, w))"

definition finger_3DSP_matrix_scale :: "config \<Rightarrow> mach \<Rightarrow> mach" where
  "finger_3DSP_matrix_scale cf m =
     (let (ip, w) = m; (v, ip) = pop_vec cf ip; (fV, ip) = ip_pop_vector ip; (v0, v1, v2) = v;
          fl = lm_double (cf_libm cf); zero = fl_of_cell fl 0; one = fl_of_cell fl 1
      in write_at cf fV
           [v0, zero, zero, zero,
            zero, v1, zero, zero,
            zero, zero, v2, zero,
            zero, zero, zero, one] (ip, w))"

definition finger_3DSP_matrix_translate :: "config \<Rightarrow> mach \<Rightarrow> mach" where
  "finger_3DSP_matrix_translate cf m =
     (let (ip, w) = m; (v, ip) = pop_vec cf ip; (fV, ip) = ip_pop_vector ip; (v0, v1, v2) = v;
          fl = lm_double (cf_libm cf); zero = fl_of_cell fl 0; one = fl_of_cell fl 1
      in write_at cf fV
           [one, zero, zero, v0,
            zero, one, zero, v1,
            zero, zero, one, v2,
            zero, zero, zero, one] (ip, w))"

definition finger_3DSP_transform :: "config \<Rightarrow> mach \<Rightarrow> mach" where
  "finger_3DSP_transform cf m =
     (let (ip, w) = m; (fm, ip) = ip_pop_vector ip; (v, ip) = pop_vec cf ip; (v0, v1, v2) = v;
          r = mulMatrixVector cf (readMatrix cf ip fm (w_space w)) [v0, v1, v2, fl_of_cell (lm_double (cf_libm cf)) 1]
      in (push_vec cf (r ! 0, r ! 1, r ! 2) ip, w))"

definition finger_3DSP_matrix_mul :: "config \<Rightarrow> mach \<Rightarrow> mach" where
  "finger_3DSP_matrix_mul cf m =
     (let (ip, w) = m; (fb, ip) = ip_pop_vector ip; (fa, ip) = ip_pop_vector ip; (ft, ip) = ip_pop_vector ip;
          b = readMatrix cf ip fb (w_space w); a = readMatrix cf ip fa (w_space w)
      in write_at cf ft (mulMatrices cf b a) (ip, w))"

definition DSP_operations :: "(string \<times> operation) list" where
  "DSP_operations =
     [(''add'', \<lambda>cf. returns (on_ip (finger_3DSP_add cf)) cf), (''sub'', \<lambda>cf. returns (on_ip (finger_3DSP_sub cf)) cf),
      (''cross'', \<lambda>cf. returns (on_ip (finger_3DSP_cross cf)) cf), (''dot'', \<lambda>cf. returns (on_ip (finger_3DSP_dot cf)) cf),
      (''length'', \<lambda>cf. returns (on_ip (finger_3DSP_length cf)) cf), (''mul'', \<lambda>cf. returns (on_ip (finger_3DSP_mul cf)) cf),
      (''normalise'', \<lambda>cf. returns (on_ip (finger_3DSP_normalise cf)) cf), (''matrix_copy'', returns finger_3DSP_matrix_copy),
      (''matrix_rotate'', \<lambda>cf. returns (finger_3DSP_matrix_rotate cf) cf),
      (''matrix_scale'', \<lambda>cf. returns (finger_3DSP_matrix_scale cf) cf),
      (''matrix_translate'', \<lambda>cf. returns (finger_3DSP_matrix_translate cf) cf),
      (''duplicate'', returns (on_ip finger_3DSP_duplicate)), (''map'', \<lambda>cf. returns (on_ip (finger_3DSP_map cf)) cf),
      (''transform'', \<lambda>cf. returns (finger_3DSP_transform cf) cf), (''matrix_mul'', \<lambda>cf. returns (finger_3DSP_matrix_mul cf) cf),
      (''scale'', \<lambda>cf. returns (on_ip (finger_3DSP_scale cf)) cf)]"

section \<open>The frame\<close>

lemma frame_single [frames]:
  "frame (snd (pop_single ip), w) = frame (ip, w)" "frame (push_single f ip, w) = frame (ip, w)"
  by (simp_all add: pop_single_def push_single_def split_beta frames)

lemma frame_vec [frames]:
  "frame (snd (pop_vec_float ip), w) = frame (ip, w)" "frame (push_vec_float a ip, w) = frame (ip, w)"
  "frame (snd (pop_vec cf ip), w) = frame (ip, w)" "frame (push_vec cf v ip, w) = frame (ip, w)"
  by (simp_all add: pop_vec_float_def push_vec_float_def pop_vec_def push_vec_def split_beta Let_def frames)

lemma frame_write_at [frames]: "frame (write_at cf fV mat m) = frame m"
  by (cases m) (simp add: write_at_def frames)

lemma frame_dsp_binary [frames]: "frame (dsp_binary f cf ip, w) = frame (ip, w)"
  by (simp add: dsp_binary_def split_beta frames)

lemma frame_3DSP [frames]:
  "frame (finger_3DSP_add cf ip, w) = frame (ip, w)" "frame (finger_3DSP_sub cf ip, w) = frame (ip, w)"
  "frame (finger_3DSP_mul cf ip, w) = frame (ip, w)" "frame (finger_3DSP_cross cf ip, w) = frame (ip, w)"
  "frame (finger_3DSP_dot cf ip, w) = frame (ip, w)" "frame (finger_3DSP_length cf ip, w) = frame (ip, w)"
  "frame (finger_3DSP_normalise cf ip, w) = frame (ip, w)" "frame (finger_3DSP_duplicate ip, w) = frame (ip, w)"
  "frame (finger_3DSP_map cf ip, w) = frame (ip, w)" "frame (finger_3DSP_scale cf ip, w) = frame (ip, w)"
  by (simp_all add: finger_3DSP_add_def finger_3DSP_sub_def finger_3DSP_mul_def finger_3DSP_cross_def finger_3DSP_dot_def
      finger_3DSP_length_def finger_3DSP_normalise_def finger_3DSP_duplicate_def finger_3DSP_map_def finger_3DSP_scale_def
      split_beta Let_def frames)

lemma frame_3DSP_matrix [frames]:
  "frame (finger_3DSP_matrix_copy m) = frame m" "frame (finger_3DSP_matrix_rotate cf m) = frame m"
  "frame (finger_3DSP_matrix_scale cf m) = frame m" "frame (finger_3DSP_matrix_translate cf m) = frame m"
  "frame (finger_3DSP_transform cf m) = frame m" "frame (finger_3DSP_matrix_mul cf m) = frame m"
  by (simp_all add: finger_3DSP_matrix_copy_def finger_3DSP_matrix_rotate_def finger_3DSP_matrix_scale_def
      finger_3DSP_matrix_translate_def finger_3DSP_transform_def finger_3DSP_matrix_mul_def split_beta Let_def frames)

lemma DSP_keeps_frame: "\<forall>(name, operation) \<in> set DSP_operations. keeps_frame operation"
  by (simp add: DSP_operations_def frames keeps_frame_config keeps_frame_returns)

lemma DSP_crash_free: "\<forall>(name, operation) \<in> set DSP_operations. crash_free operation"
  by (simp add: DSP_operations_def crash_free_returns)

section \<open>Writing and reading areas\<close>

lemma in_matrix_places: "(y, x) \<in> set matrix_places \<longleftrightarrow> y < 4 \<and> x < 4"
  by (simp only: matrix_places_def set_product) simp

lemma small_nat_inj: "a < 4 \<Longrightarrow> b < 4 \<Longrightarrow> (of_nat a :: cell) = of_nat b \<longleftrightarrow> a = b"
  by (simp add: of_nat_inverse word_of_nat_eq_iff take_bit_nat_eq_self)

lemma matrix_place_inj: "inj_on (matrix_place ip fV) (set matrix_places)"
  by (auto simp: inj_on_def matrix_place_def Let_def vector_eq_iff in_matrix_places small_nat_inj)

text \<open>What is written is where it should be, and nothing else is changed.\<close>

lemma writeMatrix_get:
  assumes "store_ok f"
  shows "y < 4 \<Longrightarrow> x < 4 \<Longrightarrow>
      fungespace_get (writeMatrix cf ip fV m f) (matrix_place ip fV (y, x)) = number_cell cf (m ! (4 * y + x))"
    and "q \<notin> matrix_place ip fV ` set matrix_places \<Longrightarrow> fungespace_get (writeMatrix cf ip fV m f) q = fungespace_get f q"
    and "store_ok (writeMatrix cf ip fV m f)"
  using get_fold_set [OF assms, of "\<lambda>(y, x). number_cell cf (m ! (4 * y + x))" "matrix_place ip fV" matrix_places]
    fold_upd_at [OF matrix_place_inj, of "(y, x)" ip fV "\<lambda>(y, x). number_cell cf (m ! (4 * y + x))" "fungespace_get f"]
    fold_upd_other [of q "matrix_place ip fV" matrix_places "\<lambda>(y, x). number_cell cf (m ! (4 * y + x))" "fungespace_get f"]
  by (simp_all add: writeMatrix_def in_matrix_places split_def)

lemma matrix_place_set_stack [simp]: "matrix_place (ip_set_stack s ip) fV = matrix_place ip fV"
  by (simp add: matrix_place_def ip_simps fun_eq_iff)

lemma matrix_places_nth: "y < 4 \<Longrightarrow> x < 4 \<Longrightarrow> matrix_places ! (4 * y + x) = (y, x)"
  by (simp add: matrix_places_def product_nth)

lemma length_matrix_places [simp]: "length matrix_places = 16"
  by (simp add: matrix_places_def)

lemma readMatrix_nth:
  "y < 4 \<Longrightarrow> x < 4 \<Longrightarrow>
     readMatrix cf ip fV f ! (y * 4 + x) = cell_number cf (fungespace_get f (matrix_place ip fV (y, x)))"
  using matrix_places_nth [of y x] by (simp add: readMatrix_def mult.commute)

text \<open>The number in row \<open>y\<close> and column \<open>x\<close> of the product of two matrices, given as functions of row and column.\<close>

definition product_at :: "config \<Rightarrow> (nat \<Rightarrow> nat \<Rightarrow> float64) \<Rightarrow> (nat \<Rightarrow> nat \<Rightarrow> float64) \<Rightarrow> nat \<Rightarrow> nat \<Rightarrow> float64" where
  "product_at cf a b y x =
     (let fl = lm_double (cf_libm cf)
      in fold (\<lambda>k n. fl_add fl n (fl_mul fl (a y k) (b k x))) [0..<4] (fl_of_cell fl 0))"

definition matrix_at :: "config \<Rightarrow> instructionPointer \<Rightarrow> funge_vector \<Rightarrow> fungeSpace \<Rightarrow> nat \<Rightarrow> nat \<Rightarrow> float64" where
  "matrix_at cf ip fV f y x = cell_number cf (fungespace_get f (matrix_place ip fV (y, x)))"

lemma mulMatrices_nth:
  assumes "y < 4" "x < 4"
  shows "mulMatrices cf (readMatrix cf ip fb f) (readMatrix cf ip fa f) ! (4 * y + x) =
    product_at cf (matrix_at cf ip fb f) (matrix_at cf ip fa f) y x"
proof -
  have "fold (\<lambda>k n. g n (readMatrix cf ip fb f ! (y * 4 + k)) (readMatrix cf ip fa f ! (k * 4 + x))) [0..<4] z =
    fold (\<lambda>k n. g n (matrix_at cf ip fb f y k) (matrix_at cf ip fa f k x)) [0..<4] z" for g :: "float64 \<Rightarrow> _" and z
    by (rule fold_cong) (use assms in \<open>simp_all add: readMatrix_nth matrix_at_def\<close>)
  then show ?thesis
    using matrix_places_nth [OF assms] assms by (simp add: mulMatrices_def product_at_def Let_def)
qed

text \<open>
  C30: the product of two matrices may be written over its factors. With the places of the result, of \<open>a\<close> and of \<open>b\<close>
  on the stack, \<open>Y\<close> leaves in the area of the result, cell by cell, the product of the matrices that were at \<open>b\<close> and at \<open>a\<close>, in this order, before
  the instruction, also when the three areas overlap; it takes the places from the stack and changes no other cell.
\<close>

theorem matrix_mul_aliased:
  assumes "store_ok (w_space w)" "toss ip = xs @ [tx, ty, ax, ay, bx, by]"
    and run: "finger_3DSP_matrix_mul cf (ip, w) = (ip', w')"
  shows "toss ip' = xs \<and>
    (\<forall>y < 4. \<forall>x < 4. fungespace_get (w_space w') (matrix_place ip (vector tx ty) (y, x)) =
       number_cell cf (product_at cf (matrix_at cf ip (vector bx by) (w_space w))
         (matrix_at cf ip (vector ax ay) (w_space w)) y x)) \<and>
    (\<forall>q. q \<notin> matrix_place ip (vector tx ty) ` set matrix_places \<longrightarrow>
       fungespace_get (w_space w') q = fungespace_get (w_space w) q)"
proof -
  obtain s where s: "ip_pop_vector ip = (vector bx by, ip_set_stack s ip)" "stack_list s = xs @ [tx, ty, ax, ay]"
    using ip_pop_vector_top [of ip "xs @ [tx, ty, ax, ay]" bx "by"] assms(2) by auto
  obtain t where t: "ip_pop_vector (ip_set_stack s ip) = (vector ax ay, ip_set_stack t ip)" "stack_list t = xs @ [tx, ty]"
    using ip_pop_vector_top [of "ip_set_stack s ip" "xs @ [tx, ty]" ax ay] s(2) by (auto simp: ip_simps)
  obtain u where u: "ip_pop_vector (ip_set_stack t ip) = (vector tx ty, ip_set_stack u ip)" "stack_list u = xs"
    using ip_pop_vector_top [of "ip_set_stack t ip" xs tx ty] t(2) by (auto simp: ip_simps)
  let ?m = "mulMatrices cf (readMatrix cf (ip_set_stack u ip) (vector bx by) (w_space w))
    (readMatrix cf (ip_set_stack u ip) (vector ax ay) (w_space w))"
  have "ip' = ip_set_stack u ip" "w_space w' = writeMatrix cf (ip_set_stack u ip) (vector tx ty) ?m (w_space w)"
    using run by (auto simp: finger_3DSP_matrix_mul_def s(1) t(1) u(1) write_at_def)
  then show ?thesis
    using writeMatrix_get(1,2) [OF assms(1), where cf = cf and ip = "ip_set_stack u ip" and fV = "vector tx ty" and m = ?m] u(2)
    by (simp add: ip_simps mulMatrices_nth matrix_at_def [abs_def])
qed

lemma sample_space: "store_ok (w_space sample_world)" "fungespace_get (w_space sample_world) p = space_cell"
  by (simp_all add: sample_world_def store_ok_create get_create)

theorem matrix_mul_aliased_witness:
  "\<exists>ip' w'. finger_3DSP_matrix_mul sample_config (pushed [1, 1, 0, 0, 1, 0], sample_world) = (ip', w') \<and>
     fungespace_get (w_space w') (vector 3 4) = 4096"
proof -
  obtain ip' w' where run: "finger_3DSP_matrix_mul sample_config (pushed [1, 1, 0, 0, 1, 0], sample_world) = (ip', w')"
    by fastforce
  have "fungespace_get (w_space w') (matrix_place (pushed [1, 1, 0, 0, 1, 0]) (vector 1 1) (3, 2)) = 4096"
    using matrix_mul_aliased [of sample_world "pushed [1, 1, 0, 0, 1, 0]" "[7, 8]" 1 1 0 0 1 0 sample_config, OF sample_space(1) _ run]
    by (simp add: sample_space product_at_def matrix_at_def cell_number_def number_cell_def sample_config_def sample_libm_def
        sample_arith_def upt_rec)
  then show ?thesis using run by (auto simp: matrix_place_def)
qed

text \<open>
  \<open>P\<close> copies a matrix faithfully when the two areas are apart. When they overlap it need not: it reads cells that it has
  written before.
\<close>

theorem matrix_copy_apart:
  assumes "store_ok (w_space w)" "toss ip = xs @ [tx, ty, sx, sy]"
    and apart: "matrix_place ip (vector sx sy) ` set matrix_places \<inter> matrix_place ip (vector tx ty) ` set matrix_places = {}"
    and run: "finger_3DSP_matrix_copy (ip, w) = (ip', w')"
  shows "toss ip' = xs \<and>
    (\<forall>p \<in> set matrix_places. fungespace_get (w_space w') (matrix_place ip (vector tx ty) p) =
       fungespace_get (w_space w) (matrix_place ip (vector sx sy) p)) \<and>
    (\<forall>q. q \<notin> matrix_place ip (vector tx ty) ` set matrix_places \<longrightarrow>
       fungespace_get (w_space w') q = fungespace_get (w_space w) q)"
proof -
  obtain s where s: "ip_pop_vector ip = (vector sx sy, ip_set_stack s ip)" "stack_list s = xs @ [tx, ty]"
    using ip_pop_vector_top [of ip "xs @ [tx, ty]" sx sy] assms(2) by auto
  obtain t where t: "ip_pop_vector (ip_set_stack s ip) = (vector tx ty, ip_set_stack t ip)" "stack_list t = xs"
    using ip_pop_vector_top [of "ip_set_stack s ip" xs tx ty] s(2) by (auto simp: ip_simps)
  let ?s = "matrix_place ip (vector sx sy)" and ?t = "matrix_place ip (vector tx ty)"
  have copies: "fold (\<lambda>p f. fungespace_set (fungespace_get f (?s p)) (?t p) f) ps f =
      fold (\<lambda>p. fungespace_set (fungespace_get (w_space w) (?s p)) (?t p)) ps f"
    if "store_ok f" "set ps \<subseteq> set matrix_places" "\<forall>p \<in> set matrix_places. fungespace_get f (?s p) = fungespace_get (w_space w) (?s p)"
    for ps f
    using that
  proof (induction ps arbitrary: f)
    case (Cons p ps)
    let ?f = "fungespace_set (fungespace_get f (?s p)) (?t p) f"
    have "\<forall>q \<in> set matrix_places. fungespace_get ?f (?s q) = fungespace_get (w_space w) (?s q)"
      using Cons.prems apart by (auto simp: get_fungespace_set)
    then show ?case using Cons by (simp add: store_ok_set)
  qed simp
  have "ip' = ip_set_stack t ip" "w_space w' = fold (\<lambda>p. fungespace_set (fungespace_get (w_space w) (?s p)) (?t p)) matrix_places (w_space w)"
    using run copies [OF assms(1), of matrix_places] by (auto simp: finger_3DSP_matrix_copy_def s(1) t(1))
  then show ?thesis
    using get_fold_set [OF assms(1), of "\<lambda>p. fungespace_get (w_space w) (?s p)" ?t matrix_places] t(2)
      fold_upd_at [OF matrix_place_inj, of _ ip "vector tx ty" "\<lambda>p. fungespace_get (w_space w) (?s p)" "fungespace_get (w_space w)"]
      fold_upd_other [of _ ?t matrix_places "\<lambda>p. fungespace_get (w_space w) (?s p)" "fungespace_get (w_space w)"]
    by (simp add: ip_simps)
qed

theorem matrix_copy_apart_witness:
  "fungespace_get (w_space (snd (finger_3DSP_matrix_copy (pushed [9, 9, 0, 0], sample_world)))) (vector 9 9) = space_cell"
proof -
  obtain ip' w' where run: "finger_3DSP_matrix_copy (pushed [9, 9, 0, 0], sample_world) = (ip', w')" by fastforce
  have apart: "matrix_place (pushed [9, 9, 0, 0]) (vector 0 0) ` set matrix_places \<inter>
      matrix_place (pushed [9, 9, 0, 0]) (vector 9 9) ` set matrix_places = {}"
    by (simp add: matrix_places_def matrix_place_def upt_rec vector_eq_iff)
  have "fungespace_get (w_space w') (matrix_place (pushed [9, 9, 0, 0]) (vector 9 9) (0, 0)) = space_cell"
    using matrix_copy_apart [of sample_world "pushed [9, 9, 0, 0]" "[7, 8]" 9 9 0 0, OF sample_space(1) _ _ run] apart
    by (simp add: in_matrix_places sample_space)
  then show ?thesis using run by (simp add: matrix_place_def)
qed

end
