(* ===== verification/Handles.thy ===== *)
theory Handles
  imports Operation Strn
begin

text \<open>
  The interface of the tables of handles that the fingerprints FILE and SOCK keep, each in its own copy of the same
  code: an array of pointers, a null pointer where a handle is free. \<open>Fp_File\<close> and \<open>Fp_Sock\<close> interpret it.
\<close>

section \<open>Tables\<close>

type_synonym 'h handles = "'h option list"

text \<open>What a table holds at a place; nothing outside the array.\<close>

definition entry :: "'h handles \<Rightarrow> nat \<Rightarrow> 'h option" where
  "entry t i = (if i < length t then t ! i else None)"

lemma entry_update: "h < length t \<Longrightarrow> entry (t[h := x]) = (entry t)(h := x)"
  by (auto simp: entry_def fun_eq_iff)

lemma entry_extended: "entry (t @ replicate n None) = entry t"
  by (auto simp: entry_def fun_eq_iff nth_append)

text \<open>The size of a pointer, and by how many places a table grows.\<close>

definition sizeof_pointer :: nat where
  "sizeof_pointer = 8"

definition ALLOCCHUNK :: nat where
  "ALLOCCHUNK = 2"

section \<open>The contract\<close>

text \<open>
  \<open>allocate x t\<close> puts \<open>x\<close>, the content of a new handle, into a free place, or fails and leaves every handle; \<open>free\<close>
  clears a place; \<open>valid\<close> tells whether a cell is a handle.
\<close>

locale handle_table =
  fixes allocate :: "'h \<Rightarrow> 'h handles \<Rightarrow> nat option \<times> 'h handles"
    and free :: "nat \<Rightarrow> 'h handles \<Rightarrow> 'h handles"
    and valid :: "cell \<Rightarrow> 'h handles \<Rightarrow> bool"
  assumes allocate_fresh: "allocate x t = (Some h, t') \<Longrightarrow> entry t h = None \<and> entry t' = (entry t)(h := Some x)"
    and allocate_fails: "allocate x t = (None, t') \<Longrightarrow> entry t' = entry t"
    and allocate_small: "allocate x t = (Some h, t') \<Longrightarrow> length t < 2 ^ 62 \<Longrightarrow> h < 2 ^ 63"
    and free_entry: "entry (free h t) = (entry t)(h := None)"
    and valid_iff: "valid c t \<longleftrightarrow> \<not> c <s 0 \<and> entry t (unat c) \<noteq> None"
begin

lemma handle_cell:
  assumes "h < 2 ^ 63"
  shows "unat (of_nat h :: cell) = h" "\<not> (of_nat h :: cell) <s 0"
proof -
  show "unat (of_nat h :: cell) = h" using assms by (simp add: unat_of_nat)
  show "\<not> (of_nat h :: cell) <s 0"
    using assms sint_of_int_cell [of "int h"] by (simp add: cell_less_iff)
qed

text \<open>A new handle was none before, it is one now, and it names what was stored; the others stay.\<close>

lemma allocated:
  assumes "allocate x t = (Some h, t')" "length t < 2 ^ 62"
  shows "\<not> valid (of_nat h) t" "valid (of_nat h) t'" "entry t' (unat (of_nat h :: cell)) = Some x"
    and "valid c t \<Longrightarrow> valid c t' \<and> entry t' (unat c) = entry t (unat c)"
  using allocate_fresh [OF assms(1)] handle_cell [OF allocate_small [OF assms]] by (auto simp: valid_iff)

text \<open>A freed handle is none any more; the others stay.\<close>

lemma freed:
  assumes "valid c t"
  shows "\<not> valid c (free (unat c) t)"
    and "d \<noteq> c \<Longrightarrow> valid d (free (unat c) t) = valid d t \<and> (valid d t \<longrightarrow> entry (free (unat c) t) (unat d) = entry t (unat d))"
  using assms by (auto simp: valid_iff free_entry word_unat_eq_iff)

lemma allocate_free:
  assumes "allocate x t = (Some h, t')"
  shows "entry (free h t') = entry t"
  using allocate_fresh [OF assms] by (auto simp: free_entry fun_eq_iff)

end

section \<open>The way both tables are searched\<close>

text \<open>The first place that is free.\<close>

definition first_free :: "'h handles \<Rightarrow> nat option" where
  "first_free t = find (\<lambda>i. t ! i = None) [0..<length t]"

lemma first_free_Some: "first_free t = Some i \<Longrightarrow> i < length t \<and> t ! i = None"
  by (auto simp: first_free_def find_Some_iff)

text \<open>What makes an allocation keep the contract.\<close>

lemma allocation:
  assumes "h < length t'" "entry t' = entry t" "entry t' h = None"
  shows "entry t h = None \<and> entry (t'[h := Some x]) = (entry t)(h := Some x)"
  using assms by (simp add: entry_update)

end
