(* ===== verification/Fp_File.thy ===== *)
theory Fp_File
  imports Handles
begin

text \<open>
  The fingerprint FILE, \<^verbatim>\<open>src/fingerprints/FILE/FILE.c\<close>. The streams of the C library are modelled as
  far as the instructions use them: a file, a position, what the mode allows; without buffers, and without
  the end-of-file mark that a stream keeps. An operation that the system does not grant fails and changes nothing.
\<close>

section \<open>The table of handles\<close>

definition sizeof_FungeFileHandle :: nat where
  "sizeof_FungeFileHandle = 24"

definition find_next_free_handle :: "allocator \<Rightarrow> 'h handles \<Rightarrow> nat option \<times> 'h handles" where
  "find_next_free_handle al t =
     (case first_free t of
        Some i \<Rightarrow> (Some i, t)
      | None \<Rightarrow>
          if \<not> al (size_t ((length t + ALLOCCHUNK) * sizeof_pointer)) then (None, t)
          else (Some (length t), t @ replicate ALLOCCHUNK None))"

text \<open>\<open>fresh\<close> is the content of a new handle.\<close>

definition allocate_handle :: "allocator \<Rightarrow> 'h \<Rightarrow> 'h handles \<Rightarrow> nat option \<times> 'h handles" where
  "allocate_handle al fresh t =
     (case find_next_free_handle al t of
        (None, t) \<Rightarrow> (None, t)
      | (Some h, t) \<Rightarrow> if \<not> al sizeof_FungeFileHandle then (None, t) else (Some h, t[h := Some fresh]))"

definition free_handle :: "nat \<Rightarrow> 'h handles \<Rightarrow> 'h handles" where
  "free_handle h t = (if entry t h = None then t else t[h := None])"

definition valid_handle :: "cell \<Rightarrow> 'h handles \<Rightarrow> bool" where
  "valid_handle h t \<longleftrightarrow> \<not> (h <s 0 \<or> length t \<le> unat h \<or> t ! unat h = None)"

lemma find_next_free:
  "find_next_free_handle al t = (Some h, t') \<Longrightarrow> h < length t' \<and> entry t' = entry t \<and> entry t' h = None \<and> h \<le> length t"
  "find_next_free_handle al t = (None, t') \<Longrightarrow> entry t' = entry t"
  using first_free_Some [of t h]
  by (auto simp: find_next_free_handle_def entry_extended ALLOCCHUNK_def split: option.splits if_splits)
    (auto simp: entry_def)

lemma allocate_handle_Some:
  assumes "allocate_handle al x t = (Some h, t')"
  obtains u where "find_next_free_handle al t = (Some h, u)" "t' = u[h := Some x]"
  using assms by (auto simp: allocate_handle_def split: prod.splits option.splits if_splits)

lemma allocate_handle_bound: "allocate_handle al x t = (Some h, t') \<Longrightarrow> h < length t'"
  by (erule allocate_handle_Some) (use find_next_free(1) in fastforce)

interpretation file_handles: handle_table "allocate_handle al" free_handle valid_handle
proof
  show "entry t h = None \<and> entry t' = (entry t)(h := Some x)" if run: "allocate_handle al x t = (Some h, t')"
    for x :: 'a and t h t'
  proof -
    obtain u where "find_next_free_handle al t = (Some h, u)" "t' = u[h := Some x]"
      using run by (rule allocate_handle_Some)
    then show ?thesis using find_next_free(1) [of al t h u] allocation [of h u t x] by metis
  qed
  show "entry t' = entry t" if "allocate_handle al x t = (None, t')" for x :: 'a and t t'
  proof -
    obtain i u where u: "find_next_free_handle al t = (i, u)" by fastforce
    then have "u = t'" using that by (auto simp: allocate_handle_def split: option.splits if_splits)
    then show ?thesis using u find_next_free by (cases i) blast+
  qed
  show "h < 2 ^ 63" if run: "allocate_handle al x t = (Some h, t')" and "length t < 2 ^ 62" for x :: 'a and t h t'
  proof -
    obtain u where "find_next_free_handle al t = (Some h, u)"
      using run by (rule allocate_handle_Some)
    then show ?thesis using find_next_free(1) [of al t h u] \<open>length t < 2 ^ 62\<close> by simp
  qed
  show "entry (free_handle h t) = (entry t)(h := None)" for h and t :: "'a handles"
    by (auto simp: free_handle_def entry_def fun_eq_iff)
  show "valid_handle c t \<longleftrightarrow> \<not> c <s 0 \<and> entry t (unat c) \<noteq> None" for c and t :: "'a handles"
    by (auto simp: valid_handle_def entry_def)
qed

section \<open>Streams\<close>

definition file_bytes :: "world \<Rightarrow> stream \<Rightarrow> byte list" where
  "file_bytes w fp =
     (case sm_file fp of
        Inl name \<Rightarrow> (case w_files w name of Some bytes \<Rightarrow> bytes | None \<Rightarrow> [])
      | Inr n \<Rightarrow> (if n < length (st_orphans (w_statics w)) then st_orphans (w_statics w) ! n else []))"

definition set_file_bytes :: "stream \<Rightarrow> byte list \<Rightarrow> world \<Rightarrow> world" where
  "set_file_bytes fp bytes w =
     (case sm_file fp of
        Inl name \<Rightarrow> w\<lparr>w_files := (w_files w)(name := Some bytes)\<rparr>
      | Inr n \<Rightarrow> w\<lparr>w_statics := (w_statics w)\<lparr>st_orphans := (st_orphans (w_statics w))[n := bytes]\<rparr>\<rparr>)"

text \<open>\<open>fopen\<close> with the modes of the table, and what the mode does to the file.\<close>

definition mode_table :: "string list" where
  "mode_table = [''rb'', ''wb'', ''ab'', ''r+b'', ''w+b'', ''a+b'']"

definition lib_fopen :: "config \<Rightarrow> byte list \<Rightarrow> nat \<Rightarrow> world \<Rightarrow> stream option \<times> world" where
  "lib_fopen cf name mode w =
     (let (okay, w) = granted cf (File_open name mode) w; kind = hd (mode_table ! mode); plus = (CHR ''+'' \<in> set (mode_table ! mode))
      in if \<not> okay \<or> name = [] \<or> (kind = CHR ''r'' \<and> w_files w name = None) then (None, w)
         else
           (let bytes = (if kind = CHR ''w'' then [] else case w_files w name of Some bytes \<Rightarrow> bytes | None \<Rightarrow> []);
                fp = \<lparr>sm_file = Inl name, sm_pos = (if kind = CHR ''a'' then length bytes else 0),
                      sm_reads = (kind = CHR ''r'' \<or> plus), sm_writes = (kind \<noteq> CHR ''r'' \<or> plus),
                      sm_appends = (kind = CHR ''a'')\<rparr>
            in (Some fp, w\<lparr>w_files := (w_files w)(name := Some bytes)\<rparr>)))"

text \<open>Bytes written over others from a position on; a gap before it is filled with zeros.\<close>

definition overwrite :: "nat \<Rightarrow> byte list \<Rightarrow> byte list \<Rightarrow> byte list" where
  "overwrite pos bs old = take pos (old @ replicate (pos - length old) 0) @ bs @ drop (pos + length bs) old"

text \<open>\<open>fputs\<close> and \<open>fwrite\<close>: whether all was written.\<close>

definition lib_write :: "config \<Rightarrow> byte list \<Rightarrow> stream \<Rightarrow> world \<Rightarrow> bool \<times> stream \<times> world" where
  "lib_write cf bs fp w =
     (if bs = [] then (True, fp, w)
      else
        (let (okay, w) = granted cf File_write w
         in if \<not> okay \<or> \<not> sm_writes fp then (False, fp, w)
            else
              (let old = file_bytes w fp; pos = (if sm_appends fp then length old else sm_pos fp)
               in (True, fp\<lparr>sm_pos := pos + length bs\<rparr>, set_file_bytes fp (overwrite pos bs old) w))))"

text \<open>\<open>fread\<close>: the bytes that were read, or an error.\<close>

definition lib_fread :: "config \<Rightarrow> nat \<Rightarrow> stream \<Rightarrow> world \<Rightarrow> byte list option \<times> stream \<times> world" where
  "lib_fread cf n fp w =
     (let (okay, w) = granted cf File_read w
      in if \<not> okay \<or> \<not> sm_reads fp then (None, fp, w)
         else (let bs = take n (drop (sm_pos fp) (file_bytes w fp))
               in (Some bs, fp\<lparr>sm_pos := sm_pos fp + length bs\<rparr>, w)))"

datatype whence = SEEK_SET | SEEK_CUR | SEEK_END

definition lib_fseek :: "config \<Rightarrow> cell \<Rightarrow> whence \<Rightarrow> stream \<Rightarrow> world \<Rightarrow> bool \<times> stream \<times> world" where
  "lib_fseek cf n wh fp w =
     (let (okay, w) = granted cf File_seek w;
          base = (case wh of SEEK_SET \<Rightarrow> 0 | SEEK_CUR \<Rightarrow> int (sm_pos fp) | SEEK_END \<Rightarrow> int (length (file_bytes w fp)));
          pos = base + sint n
      in if \<not> okay \<or> pos < 0 \<or> 2 ^ 63 \<le> pos then (False, fp, w)
         else (True, fp\<lparr>sm_pos := nat pos\<rparr>, w))"

text \<open>\<open>unlink\<close>: the streams that have the file open keep it, without a name.\<close>

definition rename_stream :: "byte list \<Rightarrow> nat \<Rightarrow> FungeFileHandle \<Rightarrow> FungeFileHandle" where
  "rename_stream name n fh =
     (if sm_file (fh_file fh) = Inl name then fh\<lparr>fh_file := (fh_file fh)\<lparr>sm_file := Inr n\<rparr>\<rparr> else fh)"

definition lib_unlink :: "config \<Rightarrow> byte list \<Rightarrow> world \<Rightarrow> bool \<times> world" where
  "lib_unlink cf name w =
     (let (okay, w) = granted cf (File_unlink name) w
      in case w_files w name of
           None \<Rightarrow> (False, w)
         | Some bytes \<Rightarrow>
             if \<not> okay then (False, w)
             else
               (let st = w_statics w; n = length (st_orphans st)
                in (True, w\<lparr>w_files := (w_files w)(name := None),
                            w_statics := st\<lparr>st_orphans := st_orphans st @ [bytes],
                              st_handles := map (map_option (rename_stream name n)) (st_handles st)\<rparr>\<rparr>)))"

section \<open>Instructions\<close>

abbreviation the_handles :: "world \<Rightarrow> FungeFileHandle handles" where
  "the_handles w \<equiv> st_handles (w_statics w)"

definition set_handles :: "FungeFileHandle handles \<Rightarrow> world \<Rightarrow> world" where
  "set_handles t w = w\<lparr>w_statics := (w_statics w)\<lparr>st_handles := t\<rparr>\<rparr>"

definition handle_at :: "cell \<Rightarrow> world \<Rightarrow> FungeFileHandle" where
  "handle_at h w = the (the_handles w ! unat h)"

definition set_stream :: "cell \<Rightarrow> stream \<Rightarrow> world \<Rightarrow> world" where
  "set_stream h fp w = set_handles ((the_handles w)[unat h := Some ((handle_at h w)\<lparr>fh_file := fp\<rparr>)]) w"

definition finger_FILE_fclose :: "config \<Rightarrow> mach \<Rightarrow> mach" where
  "finger_FILE_fclose cf m =
     (let (ip, w) = m; (h, ip) = ip_pop ip
      in if \<not> valid_handle h (the_handles w) then (ip_reverse ip, w)
         else
           (let (okay, w) = granted cf File_close w; ip = (if \<not> okay then ip_reverse ip else ip)
            in (ip, set_handles (free_handle (unat h) (the_handles w)) w)))"

definition finger_FILE_delete :: "config \<Rightarrow> mach \<Rightarrow> mach" where
  "finger_FILE_delete cf m =
     (let (ip, w) = m; (filename, ip) = ip_pop_string cf ip
      in case filename of
           None \<Rightarrow> (ip_reverse ip, w)
         | Some filename \<Rightarrow> (let (okay, w) = lib_unlink cf filename w in (if \<not> okay then ip_reverse ip else ip, w)))"

text \<open>
  The loop of \<open>G\<close> over the bytes from the position on: the buffer and the number of bytes that are consumed.
  A byte that is given back by \<open>ungetc\<close> is not.
\<close>

fun fgets_loop :: "allocator \<Rightarrow> string_buffer \<Rightarrow> byte list \<Rightarrow> nat \<Rightarrow> (string_buffer \<times> nat) option" where
  "fgets_loop al sb [] n = Some (sb, n)"
| "fgets_loop al sb (ch # rest) n =
     (case stringbuffer_append_char al sb ch of
        None \<Rightarrow> None
      | Some sb \<Rightarrow>
          if ch = 13 then
            (case rest of
               ch' # _ \<Rightarrow>
                 if ch' = 10 then map_option (\<lambda>sb. (sb, n + 2)) (stringbuffer_append_char al sb ch')
                 else Some (sb, n + 1)
             | [] \<Rightarrow> Some (sb, n + 1))
          else if ch = 10 then Some (sb, n + 1)
          else fgets_loop al sb rest (n + 1))"

definition finger_FILE_fgets :: operation where
  "finger_FILE_fgets cf m =
     (let (ip, w) = m; h = stack_peek (ip_stack ip)
      in if \<not> valid_handle h (the_handles w) then Some (Running (ip_reverse ip, w))
         else
           (case stringbuffer_new (cf_al cf) of
              None \<Rightarrow> Some (Running (ip_reverse ip, w))
            | Some sb \<Rightarrow>
                (let fp = fh_file (handle_at h w); (okay, w) = granted cf File_read w
                 in if \<not> okay \<or> \<not> sm_reads fp then Some (Running (ip_reverse ip, w))
                    else
                      (case fgets_loop (cf_al cf) sb (drop (sm_pos fp) (file_bytes w fp)) 0 of
                         None \<Rightarrow> Some Crashed
                       | Some (sb, n) \<Rightarrow>
                           (case stringbuffer_finish (cf_al cf) sb of
                              None \<Rightarrow> Some Crashed
                            | Some str \<Rightarrow>
                                Some (Running
                                  (ip_push (of_nat (length str)) (ip_push_bytes (str @ [0]) (length str) ip),
                                   set_stream h (fp\<lparr>sm_pos := sm_pos fp + n\<rparr>) w)))))))"

definition finger_FILE_ftell :: "config \<Rightarrow> mach \<Rightarrow> mach" where
  "finger_FILE_ftell cf m =
     (let (ip, w) = m; h = stack_peek (ip_stack ip)
      in if \<not> valid_handle h (the_handles w) then (ip_reverse ip, w)
         else
           (let (okay, w) = granted cf File_tell w
            in if \<not> okay then (ip_reverse ip, w) else (ip_push (of_nat (sm_pos (fh_file (handle_at h w)))) ip, w)))"

definition finger_FILE_fopen :: "config \<Rightarrow> mach \<Rightarrow> mach" where
  "finger_FILE_fopen cf m =
     (let (ip, w) = m; (filename, ip) = ip_pop_string cf ip
      in case filename of
           None \<Rightarrow> (ip_reverse ip, w)
         | Some filename \<Rightarrow>
             (let (mode, ip) = ip_pop ip; (vect, ip) = ip_pop_vector ip
              in if mode <s 0 \<or> 5 <s mode then (ip_reverse ip, w)
                 else
                   (case allocate_handle (cf_al cf) \<lparr>fh_file = null_stream, fh_buffvect = vector 0 0\<rparr> (the_handles w) of
                      (None, t) \<Rightarrow> (ip_reverse ip, set_handles t w)
                    | (Some h, t) \<Rightarrow>
                        (let w = set_handles t w
                         in case lib_fopen cf filename (unat mode) w of
                              (None, w) \<Rightarrow> (ip_reverse ip, set_handles (free_handle h (the_handles w)) w)
                            | (Some fp, w) \<Rightarrow>
                                (let (okay, w) = granted cf File_cloexec w
                                 in if \<not> okay then
                                      (let (okay, w) = granted cf File_close w
                                       in (ip_reverse ip, set_handles (free_handle h (the_handles w)) w))
                                    else
                                      (let fp = (if mode = 2 \<or> mode = 5 then fp\<lparr>sm_pos := 0\<rparr> else fp)
                                       in (ip_push (of_nat h) ip,
                                           set_handles ((the_handles w)[h := Some \<lparr>fh_file = fp, fh_buffvect = vect\<rparr>]) w)))))))"

definition finger_FILE_fputs :: "config \<Rightarrow> mach \<Rightarrow> mach" where
  "finger_FILE_fputs cf m =
     (let (ip, w) = m; (str, ip) = ip_pop_string cf ip; h = stack_peek (ip_stack ip)
      in case str of
           None \<Rightarrow> (ip_reverse ip, w)
         | Some str \<Rightarrow>
             if \<not> valid_handle h (the_handles w) then (ip_reverse ip, w)
             else
               (let (okay, fp, w) = lib_write cf str (fh_file (handle_at h w)) w
                in (if \<not> okay then ip_reverse ip else ip, set_stream h fp w)))"

definition finger_FILE_fread :: "config \<Rightarrow> mach \<Rightarrow> mach" where
  "finger_FILE_fread cf m =
     (let (ip, w) = m; (n, ip) = ip_pop ip; h = stack_peek (ip_stack ip)
      in if \<not> valid_handle h (the_handles w) \<or> n \<le>s 0 \<or> \<not> cf_al cf (unat n) then (ip_reverse ip, w)
         else
           (let (got, fp, w) = lib_fread cf (unat n) (fh_file (handle_at h w)) w; w = set_stream h fp w
            in case got of
                 None \<Rightarrow> (ip_reverse ip, w)
               | Some buf \<Rightarrow>
                   (let ip = (if length buf \<noteq> unat n then ip_reverse ip else ip); v = fh_buffvect (handle_at h w)
                    in (ip, w\<lparr>w_space := fold (\<lambda>i. fungespace_set (ucast (buf ! i)) (vector (vec_x v + of_nat i) (vec_y v)))
                               [0..<length buf] (w_space w)\<rparr>))))"

definition finger_FILE_fseek :: "config \<Rightarrow> mach \<Rightarrow> mach" where
  "finger_FILE_fseek cf m =
     (let (ip, w) = m; (n, ip) = ip_pop ip; (mode, ip) = ip_pop ip; h = stack_peek (ip_stack ip)
      in if \<not> valid_handle h (the_handles w) then (ip_reverse ip, w)
         else if mode \<notin> {0, 1, 2} then (ip_reverse ip, w)
         else
           (let wh = (if mode = 0 then SEEK_SET else if mode = 1 then SEEK_CUR else SEEK_END);
                (okay, fp, w) = lib_fseek cf n wh (fh_file (handle_at h w)) w
            in (if \<not> okay then ip_reverse ip else ip, set_stream h fp w)))"

definition finger_FILE_fwrite :: operation where
  "finger_FILE_fwrite cf m =
     (let (ip, w) = m; (n, ip) = ip_pop ip; h = stack_peek (ip_stack ip)
      in if \<not> valid_handle h (the_handles w) \<or> n \<le>s 0 then Some (Running (ip_reverse ip, w))
         else if \<not> cf_al cf (unat n) then Some OutOfMemory
         else
           (let v = fh_buffvect (handle_at h w);
                buf = map (\<lambda>i. ucast (fungespace_get (w_space w) (vector (vec_x v + of_nat i) (vec_y v)))) [0..<unat n];
                (okay, fp, w) = lib_write cf buf (fh_file (handle_at h w)) w
            in Some (Running (if \<not> okay then ip_reverse ip else ip, set_stream h fp w))))"

text \<open>The set-up of the loader: whether the table exists afterwards.\<close>

definition FILE_init_handle_list :: "config \<Rightarrow> world \<Rightarrow> bool \<times> world" where
  "FILE_init_handle_list cf w =
     (if \<not> cf_al cf (ALLOCCHUNK * sizeof_pointer) then (False, w) else (True, set_handles (replicate ALLOCCHUNK None) w))"

definition setup_FILE :: "config \<Rightarrow> world \<Rightarrow> bool \<times> world" where
  "setup_FILE cf w = (if the_handles w = [] then FILE_init_handle_list cf w else (True, w))"

definition FILE_operations :: "(string \<times> operation) list" where
  "FILE_operations =
     [(''fclose'', \<lambda>cf. returns (finger_FILE_fclose cf) cf), (''delete'', \<lambda>cf. returns (finger_FILE_delete cf) cf),
      (''fgets'', finger_FILE_fgets), (''ftell'', \<lambda>cf. returns (finger_FILE_ftell cf) cf),
      (''fopen'', \<lambda>cf. returns (finger_FILE_fopen cf) cf), (''fputs'', \<lambda>cf. returns (finger_FILE_fputs cf) cf),
      (''fread'', \<lambda>cf. returns (finger_FILE_fread cf) cf), (''fseek'', \<lambda>cf. returns (finger_FILE_fseek cf) cf),
      (''fwrite'', finger_FILE_fwrite)]"

section \<open>Crashes\<close>

lemma append_char_grown:
  assumes "\<And>n. al n"
  shows "\<exists>sb'. stringbuffer_append_char al sb c = Some sb' \<and> sb_buf sb' = sb_buf sb @ [scast c]"
  using ensure_grows [of al sb 2] assms ensure_ok [of al sb 2 "snd (stringbuffer_ensure al sb 2)" "[scast c]"]
  by (cases "stringbuffer_ensure al sb 2") (simp add: stringbuffer_append_char_def)

text \<open>The line at the start of a text: up to its end, which is a line feed, a carriage return or both.\<close>

fun line_length :: "byte list \<Rightarrow> nat" where
  "line_length [] = 0"
| "line_length (ch # rest) =
     (if ch = 13 then (if rest \<noteq> [] \<and> hd rest = 10 then 2 else 1) else if ch = 10 then 1 else 1 + line_length rest)"

lemma line_length_le: "line_length bs \<le> length bs"
  by (induction bs) (auto simp: Suc_le_eq)

lemma fgets_loop_line:
  assumes "\<And>n. al n"
  shows "\<exists>sb'. fgets_loop al sb bs n = Some (sb', n + line_length bs) \<and>
    sb_buf sb' = sb_buf sb @ map scast (take (line_length bs) bs)"
proof (induction bs arbitrary: sb n)
  case (Cons ch rest)
  obtain sb1 where sb1: "stringbuffer_append_char al sb ch = Some sb1" "sb_buf sb1 = sb_buf sb @ [scast ch]"
    using append_char_grown assms by blast
  obtain sb2 where sb2: "stringbuffer_append_char al sb1 10 = Some sb2" "sb_buf sb2 = sb_buf sb1 @ [scast (10 :: byte)]"
    using append_char_grown assms by blast
  show ?case
  proof (cases "ch = 13 \<or> ch = 10")
    case True then show ?thesis using sb1 sb2 by (cases rest) auto
  next
    case False
    then show ?thesis using sb1 Cons.IH [of sb1 "n + 1"] by auto
  qed
qed simp

lemma FILE_crash_free: "\<forall>(name, operation) \<in> set FILE_operations. crash_free operation"
proof -
  have "crash_free finger_FILE_fgets"
  proof (rule crash_freeI)
    fix cf :: config and ip w assume al: "\<And>n. cf_al cf n"
    have loop: "fgets_loop (cf_al cf) sb bs 0 \<noteq> None" for sb bs
      using fgets_loop_line [where al = "cf_al cf" and sb = sb and bs = bs and n = 0] al by fastforce
    then show "finger_FILE_fgets cf (ip, w) \<noteq> Some Crashed"
      by (auto simp: finger_FILE_fgets_def Let_def stringbuffer_finish_def al split_beta loop split: option.split)
  qed
  moreover have "crash_free finger_FILE_fwrite"
    by (rule crash_freeI) (auto simp: finger_FILE_fwrite_def Let_def split_beta split: if_splits)
  ultimately show ?thesis by (simp add: FILE_operations_def crash_free_returns)
qed

section \<open>Handles and streams\<close>

lemma the_handles_set [simp]:
  "the_handles (set_handles t w) = t" "the_handles (snd (granted cf fo w)) = the_handles w"
  "the_handles (w\<lparr>w_files := fs\<rparr>) = the_handles w" "the_handles (w\<lparr>w_space := f\<rparr>) = the_handles w"
  by (simp_all add: set_handles_def granted_def)

lemma granted_fields [simp]:
  "handle_at h (snd (granted cf fo w)) = handle_at h w" "w_space (snd (granted cf fo w)) = w_space w"
  by (simp_all add: handle_at_def granted_def)

lemma lib_fopen_handles: "the_handles (snd (lib_fopen cf name mode w)) = the_handles w"
  by (simp add: lib_fopen_def Let_def split_beta)

lemma valid_entry: "valid_handle h t \<Longrightarrow> unat h < length t \<and> t ! unat h \<noteq> None"
  by (simp add: valid_handle_def)

lemma handle_at_set:
  assumes "valid_handle h (the_handles w)"
  shows "handle_at h (set_stream h fp w) = (handle_at h w)\<lparr>fh_file := fp\<rparr>"
    and "valid_handle h (the_handles (set_stream h fp w))"
  using valid_entry [OF assms] assms by (auto simp: handle_at_def set_stream_def valid_handle_def)

lemma set_stream_fields [simp]:
  "w_files (set_stream h fp w) = w_files w" "w_space (set_stream h fp w) = w_space w"
  "st_orphans (w_statics (set_stream h fp w)) = st_orphans (w_statics w)"
  by (simp_all add: set_stream_def set_handles_def)

lemma file_bytes_set_stream [simp]: "file_bytes (set_stream h fp w) fp' = file_bytes w fp'"
  by (simp add: file_bytes_def split: sum.split)

lemma file_bytes_cong [simp]:
  "file_bytes (snd (granted cf fo w)) fp = file_bytes w fp" "file_bytes (w\<lparr>w_space := f\<rparr>) fp = file_bytes w fp"
  "file_bytes w (fp\<lparr>sm_pos := n\<rparr>) = file_bytes w fp"
  by (simp_all add: file_bytes_def granted_def split: sum.split)

definition stream_ok :: "world \<Rightarrow> stream \<Rightarrow> bool" where
  "stream_ok w fp \<longleftrightarrow> (case sm_file fp of Inl name \<Rightarrow> True | Inr n \<Rightarrow> n < length (st_orphans (w_statics w)))"

lemma file_bytes_written: "stream_ok w fp \<Longrightarrow> file_bytes (set_file_bytes fp bytes w) fp = bytes"
  by (auto simp: stream_ok_def file_bytes_def set_file_bytes_def split: sum.splits)

lemma overwrite_read: "take (length bs) (drop pos (overwrite pos bs old)) = bs"
proof -
  have "length (take pos (old @ replicate (pos - length old) 0)) = pos" by simp
  then show ?thesis by (simp add: overwrite_def del: take_append) simp
qed

text \<open>A system that grants every operation on files.\<close>

definition grants :: "config \<Rightarrow> bool" where
  "grants cf \<longleftrightarrow> (\<forall>k fo. sr_flag (cf_syscall cf k (Sys_file fo)))"

lemma grants_simps: "grants cf \<Longrightarrow> fst (granted cf fo w)"
  by (simp add: grants_def granted_def)

section \<open>Properties\<close>

text \<open>What has to go well for a file to be opened: the name, the mode, a handle, \<open>fopen\<close> and the close-on-exec flag.\<close>

definition opens :: "config \<Rightarrow> world \<Rightarrow> byte list option \<Rightarrow> cell \<Rightarrow> bool" where
  "opens cf w name mode \<longleftrightarrow>
     (case name of
        None \<Rightarrow> False
      | Some str \<Rightarrow> str \<noteq> [] \<and> mode \<in> {0, 1, 2, 3, 4, 5} \<and> (mode \<in> {0, 3} \<longrightarrow> w_files w str \<noteq> None) \<and>
          fst (allocate_handle (cf_al cf) \<lparr>fh_file = null_stream, fh_buffvect = vector 0 0\<rparr> (the_handles w)) \<noteq> None \<and>
          sr_flag (cf_syscall cf (w_calls w) (Sys_file (File_open str (unat mode)))) \<and>
          sr_flag (cf_syscall cf (w_calls w + 1) (Sys_file File_cloexec)))"

lemma mode_bounds: "\<not> mode <s 0 \<and> \<not> 5 <s mode \<longleftrightarrow> mode \<in> {0, 1, 2, 3, 4, 5 :: cell}"
proof -
  have "mode \<in> {0, 1, 2, 3, 4, 5}" if "0 \<le> sint mode" "sint mode \<le> 5"
  proof -
    from that consider "sint mode = 0" | "sint mode = 1" | "sint mode = 2" | "sint mode = 3" | "sint mode = 4" | "sint mode = 5"
      by linarith
    then have "sint mode \<in> sint ` {0, 1, 2, 3, 4, 5 :: cell}" by cases simp_all
    then show ?thesis by (auto simp: signed_word_eqI)
  qed
  then show ?thesis by (auto simp: word_sless_alt)
qed

text \<open>The stream that \<open>fopen\<close> gives, and \<open>O\<close> winds back.\<close>

definition opened_stream :: "byte list \<Rightarrow> cell \<Rightarrow> stream" where
  "opened_stream name mode =
     \<lparr>sm_file = Inl name, sm_pos = 0, sm_reads = (mode \<noteq> 1 \<and> mode \<noteq> 2), sm_writes = (mode \<noteq> 0),
      sm_appends = (mode = 2 \<or> mode = 5)\<rparr>"

lemma lib_fopen_opened:
  assumes "mode \<in> {0, 1, 2, 3, 4, 5}" "lib_fopen cf name (unat mode) w = (fp, w2)"
  shows "w_calls w2 = w_calls w + 1 \<and>
    map_option (\<lambda>fp. if mode = 2 \<or> mode = 5 then fp\<lparr>sm_pos := 0\<rparr> else fp) fp =
      (if sr_flag (cf_syscall cf (w_calls w) (Sys_file (File_open name (unat mode)))) \<and> name \<noteq> [] \<and>
          (mode \<in> {0, 3} \<longrightarrow> w_files w name \<noteq> None) then Some (opened_stream name mode) else None)"
proof -
  have fp: "fp = fst (lib_fopen cf name (unat mode) w)" "w2 = snd (lib_fopen cf name (unat mode) w)"
    using assms(2) by simp_all
  from assms(1) consider "mode = 0" | "mode = 1" | "mode = 2" | "mode = 3" | "mode = 4" | "mode = 5" by blast
  then show ?thesis
    unfolding fp
    by cases (simp_all add: lib_fopen_def Let_def granted_def mode_table_def opened_stream_def)
qed

text \<open>
  C31: \<open>O\<close> opens a file or leaves no handle behind. If the string is there and not empty, the mode is one of the six, the file exists where the mode
  asks for it, a handle can be allocated, and the system opens the file and sets the close-on-exec flag, then \<open>O\<close> pushes a handle that was none before and does not
  reflect; the handle has the stream of the file, at its start, with what the mode allows, and the vector from the stack. Whichever of these fails,
  \<open>O\<close> reflects, pushes nothing, and the table has the same entries as before. All other handles stay what they are, also when the table grows.
\<close>

theorem file_open_handle:
  assumes "length (the_handles w) < 2 ^ 62" "ip_pop_string cf ip = (name, ip1)" "ip_pop ip1 = (mode, ip2)"
    and "ip_pop_vector ip2 = (vect, ip3)" "finger_FILE_fopen cf (ip, w) = (ip', w')"
  shows "if opens cf w name mode
    then \<exists>h. ip' = ip_push h ip3 \<and> \<not> valid_handle h (the_handles w) \<and> valid_handle h (the_handles w') \<and>
       handle_at h w' = \<lparr>fh_file = opened_stream (the name) mode, fh_buffvect = vect\<rparr> \<and>
       (\<forall>c. valid_handle c (the_handles w) \<longrightarrow>
          valid_handle c (the_handles w') \<and> entry (the_handles w') (unat c) = entry (the_handles w) (unat c))
    else ip' = ip_reverse (if name = None then ip1 else ip3) \<and> entry (the_handles w') = entry (the_handles w)"
proof -
  let ?fresh = "\<lparr>fh_file = null_stream, fh_buffvect = vector 0 0\<rparr>"
  obtain i t where alloc: "allocate_handle (cf_al cf) ?fresh (the_handles w) = (i, t)" by fastforce
  note run = assms(5) and pops = assms(2-4)
  show ?thesis
  proof (cases "name = None \<or> mode \<notin> {0, 1, 2, 3, 4, 5} \<or> i = None")
    case True
    then have "\<not> opens cf w name mode" using alloc by (auto simp: opens_def split: option.split)
    moreover have "i = None \<Longrightarrow> entry t = entry (the_handles w)"
      using alloc by (auto intro: file_handles.allocate_fails)
    moreover have "ip' = ip_reverse (if name = None then ip1 else ip3) \<and> (w' = w \<or> the_handles w' = t \<and> i = None)"
      using run True mode_bounds [of mode]
      by (cases name; cases i) (auto simp: finger_FILE_fopen_def pops alloc simp del: insert_iff split: if_splits)
    ultimately show ?thesis by auto
  next
    case False
    then obtain str h where some [simp]: "name = Some str" "i = Some h" and mode: "mode \<in> {0, 1, 2, 3, 4, 5}" by auto
    have in_table [simp]: "\<not> mode <s 0" "\<not> 5 <s mode" using mode mode_bounds [of mode] by blast+
    obtain fp w2 where opened: "lib_fopen cf str (unat mode) (set_handles t w) = (fp, w2)" by fastforce
    have w2: "the_handles w2 = t" using lib_fopen_handles [of cf str "unat mode" "set_handles t w"] opened by simp
    note result = lib_fopen_opened [OF mode opened]
    have cloexec: "fst (granted cf File_cloexec w2) = sr_flag (cf_syscall cf (w_calls w + 1) (Sys_file File_cloexec))"
      using result by (simp add: granted_def sys_call_def Let_def set_handles_def)
    have opens: "opens cf w name mode \<longleftrightarrow> fp \<noteq> None \<and> fst (granted cf File_cloexec w2)"
      using result mode alloc unfolding cloexec by (cases fp) (auto simp: opens_def set_handles_def split: if_splits)
    note fresh = file_handles.allocate_fresh [OF alloc [unfolded some]] file_handles.allocate_free [OF alloc [unfolded some]]
      file_handles.allocated [OF alloc [unfolded some] assms(1)]
    show ?thesis
    proof (cases "opens cf w name mode")
      case no: False
      then have "ip' = ip_reverse ip3 \<and> the_handles w' = free_handle h t"
        using run unfolding opens
        by (cases fp) (simp_all add: finger_FILE_fopen_def pops alloc opened w2 Let_def split_beta, auto simp: w2)
      then show ?thesis using no fresh(2) by simp
    next
      case yes: True
      then obtain s where s: "fp = Some s" unfolding opens by blast
      let ?x = "\<lparr>fh_file = if mode = 2 \<or> mode = 5 then s\<lparr>sm_pos := 0\<rparr> else s, fh_buffvect = vect\<rparr>"
      have stream: "fh_file ?x = opened_stream str mode" using result
        by (cases "mode = 2 \<or> mode = 5") (simp_all add: s split: if_splits)
      have x: "the_handles w' = t[h := Some ?x]" "ip' = ip_push (of_nat h) ip3"
        using run yes unfolding opens by (auto simp: finger_FILE_fopen_def pops alloc opened w2 s Let_def split_beta)
      have bound: "h < length t" using allocate_handle_bound [OF alloc [unfolded some]] .
      then have same: "entry (t[h := Some ?x]) = (entry t)(h := Some ?x)" by (rule entry_update)
      have small: "unat (of_nat h :: cell) = h"
        using file_handles.handle_cell(1) [OF file_handles.allocate_small [OF alloc [unfolded some] assms(1)]] .
      have "\<not> valid_handle (of_nat h) (the_handles w)" by (rule fresh(3))
      moreover have "valid_handle (of_nat h) (the_handles w')"
        using fresh(4) small by (simp add: x(1) file_handles.valid_iff same)
      moreover have "handle_at (of_nat h) w' = \<lparr>fh_file = opened_stream (the name) mode, fh_buffvect = vect\<rparr>"
        using bound stream by (simp add: handle_at_def x(1) small)
      moreover have "valid_handle c (the_handles w') \<and> entry (the_handles w') (unat c) = entry (the_handles w) (unat c)"
        if "valid_handle c (the_handles w)" for c
        using fresh(6) [OF that] fresh(1) that small by (auto simp: x(1) file_handles.valid_iff same)
      ultimately show ?thesis using yes x(2) by auto
    qed
  qed
qed

text \<open>The cells of the buffer of a handle, one for each of \<open>n\<close> bytes.\<close>

definition buffer_place :: "funge_vector \<Rightarrow> nat \<Rightarrow> funge_vector" where
  "buffer_place v i = vector (vec_x v + of_nat i) (vec_y v)"

definition buffer_bytes :: "fungeSpace \<Rightarrow> funge_vector \<Rightarrow> nat \<Rightarrow> byte list" where
  "buffer_bytes f v n = map (\<lambda>i. ucast (fungespace_get f (buffer_place v i))) [0..<n]"

lemma stack_peek_toss: "stack_peek (ip_stack ip) = from_top (toss ip) 0"
  by (simp add: stack_simps stack_list_toss)

lemma pop_top:
  assumes "toss ip = xs @ [c]"
  obtains s where "ip_pop ip = (c, ip_set_stack s ip)" "toss (ip_set_stack s ip) = xs"
  using ip_pop_top [OF assms] by (auto simp: ip_simps)

text \<open>Where a stream writes: at its end if the mode appends, at its position if not.\<close>

definition write_position :: "world \<Rightarrow> stream \<Rightarrow> nat" where
  "write_position w fp = (if sm_appends fp then length (file_bytes w fp) else sm_pos fp)"

lemma fwrite_granted:
  assumes "grants cf" "\<And>k. cf_al cf k" "toss ip = xs @ [h, n]" "valid_handle h (the_handles w)" "0 <s n"
    and "fp = fh_file (handle_at h w)" "sm_writes fp"
    and "bs = buffer_bytes (w_space w) (fh_buffvect (handle_at h w)) (unat n)"
  shows "\<exists>s. finger_FILE_fwrite cf (ip, w) = Some (Running (ip_set_stack s ip,
     set_stream h (fp\<lparr>sm_pos := write_position w fp + unat n\<rparr>)
       (set_file_bytes fp (overwrite (write_position w fp) bs (file_bytes w fp)) (snd (granted cf File_write w))))) \<and>
     toss (ip_set_stack s ip) = xs @ [h]"
proof -
  obtain s where s: "ip_pop ip = (n, ip_set_stack s ip)" "toss (ip_set_stack s ip) = xs @ [h]"
    using pop_top [of ip "xs @ [h]" n] assms(3) by auto
  have "bs \<noteq> []" "length bs = unat n"
    using assms(5) by (auto simp: assms(8) buffer_bytes_def unat_gt_0 cell_less_iff)
  moreover have "\<not> n \<le>s 0" using assms(5) by (simp add: cell_less_iff word_sle_eq)
  ultimately show ?thesis
    using s(2) assms(2,4,6,7) grants_simps [OF assms(1), of File_write w]
    by (intro exI [of _ s]) (simp add: finger_FILE_fwrite_def s(1) stack_peek_toss from_top_def lib_write_def Let_def split_beta
        assms(8) buffer_bytes_def buffer_place_def write_position_def)
qed

lemma fseek_back:
  assumes "grants cf" "toss ip = xs @ [h, 1, - n]" "valid_handle h (the_handles w)" "0 <s n"
    and "fp = fh_file (handle_at h w)" "unat n \<le> sm_pos fp" "sm_pos fp < 2 ^ 63"
  shows "\<exists>s. finger_FILE_fseek cf (ip, w) =
     (ip_set_stack s ip, set_stream h (fp\<lparr>sm_pos := sm_pos fp - unat n\<rparr>) (snd (granted cf File_seek w))) \<and>
     toss (ip_set_stack s ip) = xs @ [h]"
proof -
  obtain s where s: "ip_pop ip = (- n, ip_set_stack s ip)" "toss (ip_set_stack s ip) = xs @ [h, 1]"
    using pop_top [of ip "xs @ [h, 1]" "- n"] assms(2) by auto
  obtain u where u: "ip_pop (ip_set_stack s ip) = (1, ip_set_stack u ip)" "toss (ip_set_stack u ip) = xs @ [h]"
    using pop_top [of "ip_set_stack s ip" "xs @ [h]" 1] s(2) by auto
  have pos: "0 < sint n" "sint (- n) = - sint n" "unat n = nat (sint n)"
    using assms(4) unat_eq_nat_sint [of n] sint_minus_cell [of n] by (simp_all add: cell_less_iff)
  show ?thesis
    using u(2) assms(3,5-7) pos(1,3) grants_simps [OF assms(1), of File_seek w]
    by (intro exI [of _ u]) (simp add: finger_FILE_fseek_def s(1) u(1) stack_peek_toss from_top_def lib_fseek_def Let_def split_beta
        pos(2,3) nat_diff_distrib)
qed

lemma buffer_place_inj: "inj_on (buffer_place v) (set [0..<unat (n :: cell)])"
proof -
  have "i = j" if "i < unat n" "j < unat n" "(of_nat i :: cell) = of_nat j" for i j
  proof -
    have "i < 2 ^ 64" "j < 2 ^ 64" using that unsigned_less [of n, where 'a = nat] by simp_all
    then show ?thesis using that by (simp add: word_of_nat_eq_iff take_bit_nat_eq_self)
  qed
  then show ?thesis by (auto simp: inj_on_def buffer_place_def vector_eq_iff)
qed

lemma cell_of_byte: "ucast (ucast (b :: byte) :: cell) = b"
  by (rule bit_word_eqI) (auto simp: bit_simps)

lemma fread_granted:
  assumes "grants cf" "\<And>k. cf_al cf k" "toss ip = xs @ [h, n]" "valid_handle h (the_handles w)" "0 <s n"
    and "fp = fh_file (handle_at h w)" "sm_reads fp" "store_ok (w_space w)"
    and "bs = take (unat n) (drop (sm_pos fp) (file_bytes w fp))" "length bs = unat n"
  shows "\<exists>s w'. finger_FILE_fread cf (ip, w) = (ip_set_stack s ip, w') \<and> toss (ip_set_stack s ip) = xs @ [h] \<and>
    buffer_bytes (w_space w') (fh_buffvect (handle_at h w)) (unat n) = bs"
proof -
  let ?v = "fh_buffvect (handle_at h w)"
  let ?w = "set_stream h (fp\<lparr>sm_pos := sm_pos fp + unat n\<rparr>) (snd (granted cf File_read w))"
  let ?f = "fold (\<lambda>i. fungespace_set (ucast (bs ! i)) (buffer_place ?v i)) [0..<unat n] (w_space w)"
  obtain s where s: "ip_pop ip = (n, ip_set_stack s ip)" "toss (ip_set_stack s ip) = xs @ [h]"
    using pop_top [of ip "xs @ [h]" n] assms(3) by auto
  have "\<not> n \<le>s 0" using assms(5) by (simp add: cell_less_iff word_sle_eq)
  then have "finger_FILE_fread cf (ip, w) = (ip_set_stack s ip, ?w\<lparr>w_space := ?f\<rparr>)"
    using s(2) assms(2,4,6,7,10) grants_simps [OF assms(1), of File_read w]
    by (simp add: finger_FILE_fread_def s(1) stack_peek_toss from_top_def lib_fread_def Let_def split_beta
        assms(9) buffer_place_def handle_at_set)
  moreover have "fungespace_get ?f (buffer_place ?v i) = ucast (bs ! i)" if "i < unat n" for i
    using get_fold_set [OF assms(8), of "\<lambda>i. ucast (bs ! i)" "buffer_place ?v" "[0..<unat n]"]
      fold_upd_at [OF buffer_place_inj, of i n ?v "\<lambda>i. ucast (bs ! i)" "fungespace_get (w_space w)"] that by simp
  then have "buffer_bytes ?f ?v (unat n) = bs"
    using assms(10) by (auto intro!: nth_equalityI simp: buffer_bytes_def cell_of_byte)
  ultimately show ?thesis using s(2) by auto
qed

text \<open>
  C32: what \<open>W\<close> writes \<open>R\<close> reads back. With a stream whose mode allows reading and writing, appending or not, \<open>W\<close> writes \<open>n\<close> cells of the
  buffer as bytes, \<open>S\<close> with mode 1 and \<open>- n\<close> goes back to where they begin, and \<open>R\<close>, whatever other well-formed funge-space there is by then, puts the same
  bytes into the buffer; the handle stays on the stack throughout and nothing is reflected. It is assumed that \<open>n\<close> is positive, that the system grants every
  operation on files, that memory suffices, and that the position after the write is below \<open>2 ^ 63\<close>.
\<close>

theorem file_write_read:
  assumes "grants cf" "\<And>k. cf_al cf k" "toss ip = xs @ [h, n]" "valid_handle h (the_handles w)" "0 <s n"
    and "fp = fh_file (handle_at h w)" "sm_reads fp" "sm_writes fp" "stream_ok w fp"
    and "write_position w fp + unat n < 2 ^ 63" "store_ok space"
    and run: "finger_FILE_fwrite cf (ip, w) = Some (Running (ip1, w1))"
      "finger_FILE_fseek cf (ip_push (- n) (ip_push 1 ip1), w1) = (ip2, w2)"
      "finger_FILE_fread cf (ip_push n ip2, w2\<lparr>w_space := space\<rparr>) = (ip3, w3)"
  shows "toss ip3 = xs @ [h] \<and> ip_delta ip3 = ip_delta ip \<and>
    buffer_bytes (w_space w3) (fh_buffvect (handle_at h w)) (unat n) =
      buffer_bytes (w_space w) (fh_buffvect (handle_at h w)) (unat n)"
proof -
  let ?v = "fh_buffvect (handle_at h w)"
  let ?bs = "buffer_bytes (w_space w) ?v (unat n)" and ?pos = "write_position w fp"
  let ?new = "overwrite ?pos ?bs (file_bytes w fp)"
  let ?x = "set_file_bytes fp ?new (snd (granted cf File_write w))"
  obtain s where w1: "w1 = set_stream h (fp\<lparr>sm_pos := ?pos + unat n\<rparr>) ?x" "ip1 = ip_set_stack s ip" "toss ip1 = xs @ [h]"
    using fwrite_granted [OF assms(1-6,8) refl] run(1) by auto
  have x: "handle_at h ?x = handle_at h w" "valid_handle h (the_handles ?x)" "stream_ok (snd (granted cf File_write w)) fp"
    using assms(4,9) by (auto simp: set_file_bytes_def handle_at_def stream_ok_def granted_def split: sum.split)
  let ?fp1 = "fp\<lparr>sm_pos := ?pos + unat n\<rparr>"
  have h1: "handle_at h w1 = (handle_at h w)\<lparr>fh_file := ?fp1\<rparr>" "valid_handle h (the_handles w1)"
    using handle_at_set [OF x(2)] by (simp_all add: w1(1) x(1))
  obtain t where w2: "w2 = set_stream h (?fp1\<lparr>sm_pos := ?pos\<rparr>) (snd (granted cf File_seek w1))"
    "ip2 = ip_set_stack t (ip_push (- n) (ip_push 1 ip1))" "toss ip2 = xs @ [h]"
    using fseek_back [OF assms(1) _ h1(2) assms(5), of "ip_push (- n) (ip_push 1 ip1)" xs ?fp1] run(2) assms(10)
    by (auto simp: ip_simps w1(3) h1(1))
  let ?w2 = "w2\<lparr>w_space := space\<rparr>"
  have h2: "handle_at h w2 = (handle_at h w)\<lparr>fh_file := fp\<lparr>sm_pos := ?pos\<rparr>\<rparr>" "valid_handle h (the_handles w2)"
    using handle_at_set [of h "snd (granted cf File_seek w1)"] h1 by (simp_all add: w2(1))
  then have h3: "handle_at h ?w2 = (handle_at h w)\<lparr>fh_file := fp\<lparr>sm_pos := ?pos\<rparr>\<rparr>" "valid_handle h (the_handles ?w2)"
    by (simp_all add: handle_at_def)
  have "file_bytes ?w2 (fp\<lparr>sm_pos := ?pos\<rparr>) = ?new"
    using file_bytes_written [OF x(3)] by (simp add: w2(1) w1(1))
  then have bs: "?bs = take (unat n) (drop (sm_pos (fp\<lparr>sm_pos := ?pos\<rparr>)) (file_bytes ?w2 (fp\<lparr>sm_pos := ?pos\<rparr>)))"
    using overwrite_read [of ?bs ?pos "file_bytes w fp"] by (simp add: buffer_bytes_def)
  have len: "length ?bs = unat n" by (simp add: buffer_bytes_def)
  have "toss (ip_push n ip2) = xs @ [h, n]" "fp\<lparr>sm_pos := ?pos\<rparr> = fh_file (handle_at h ?w2)" "store_ok (w_space ?w2)"
    using assms(11) by (simp_all add: ip_simps w2(3) h3(1))
  note fread_granted [OF assms(1,2) this(1) h3(2) assms(5) this(2) _ this(3) bs len]
  then obtain u where "ip3 = ip_set_stack u (ip_push n ip2)" "toss ip3 = xs @ [h]"
    "buffer_bytes (w_space w3) ?v (unat n) = ?bs"
    using run(3) assms(7) by (auto simp: h3(1))
  then show ?thesis by (simp add: w2(2) w1(2) ip_simps)
qed

text \<open>A line of a text and what follows it: it ends at the first line feed, carriage return or both, or with the text.\<close>

definition is_line :: "byte list \<Rightarrow> byte list \<Rightarrow> bool" where
  "is_line line rest \<longleftrightarrow>
     (\<exists>body tail. line = body @ tail \<and> 10 \<notin> set body \<and> 13 \<notin> set body \<and>
        (tail = [10] \<or> tail = [13, 10] \<or> tail = [13] \<and> (rest = [] \<or> hd rest \<noteq> 10) \<or> tail = [] \<and> rest = []))"

lemma is_line_end:
  "is_line [10] rest" "is_line [13, 10] rest" "rest = [] \<or> hd rest \<noteq> 10 \<Longrightarrow> is_line [13] rest" "is_line [] []"
  by (simp_all add: is_line_def exI [of _ "[]"])

lemma line_length_line: "is_line (take (line_length bs) bs) (drop (line_length bs) bs)"
proof (induction bs)
  case Nil then show ?case by (simp add: is_line_end)
next
  case (Cons ch rest)
  show ?case
  proof (cases "ch = 13 \<or> ch = 10")
    case True
    then show ?thesis by (cases rest) (auto simp: is_line_end)
  next
    case False
    obtain body tail where "take (line_length rest) rest = body @ tail" "10 \<notin> set body" "13 \<notin> set body"
      "tail = [10] \<or> tail = [13, 10] \<or> tail = [13] \<and> (drop (line_length rest) rest = [] \<or> hd (drop (line_length rest) rest) \<noteq> 10) \<or>
       tail = [] \<and> drop (line_length rest) rest = []"
      using Cons.IH unfolding is_line_def by blast
    then show ?thesis
      using False unfolding is_line_def by (intro exI [of _ "ch # body"] exI [of _ tail]) auto
  qed
qed

lemma toss_push_bytes [ip_simps]: "toss (ip_push_bytes (bs @ [0]) (length bs) ip) = toss ip @ 0 # map ucast (rev bs)"
  by (simp add: ip_push_bytes_def ip_simps stack_list_push_string stack_list_toss)

text \<open>
  \<open>G\<close> reads a file line by line. On a handle whose stream can be read it pushes, above the handle, the next line with
  its end, as a string, and its length, and moves the position behind it. A line ends with a line feed, a carriage return, or both in this order; a
  carriage return is not mistaken for the whole end when a line feed follows.
\<close>

theorem file_gets_line:
  assumes "grants cf" "\<And>k. cf_al cf k" "toss ip = xs @ [h]" "valid_handle h (the_handles w)"
    and "fp = fh_file (handle_at h w)" "sm_reads fp"
  shows "\<exists>ip' w' line rest. finger_FILE_fgets cf (ip, w) = Some (Running (ip', w')) \<and>
    drop (sm_pos fp) (file_bytes w fp) = line @ rest \<and> is_line line rest \<and>
    toss ip' = xs @ h # 0 # map ucast (rev line) @ [of_nat (length line)] \<and>
    fh_file (handle_at h w') = fp\<lparr>sm_pos := sm_pos fp + length line\<rparr> \<and> file_bytes w' fp = file_bytes w fp"
proof -
  let ?w = "snd (granted cf File_read w)"
  obtain bs line where bs: "drop (sm_pos fp) (file_bytes w fp) = bs" "take (line_length bs) bs = line" by blast
  have len: "line_length bs = length line" using line_length_le [of bs] by (simp add: bs(2) [symmetric])
  obtain new where new: "stringbuffer_new (cf_al cf) = Some new" "sb_buf new = []"
    using new_granted assms(2) by blast
  obtain sb where sb: "fgets_loop (cf_al cf) new bs 0 = Some (sb, length line)" "sb_buf sb = map scast line"
    using fgets_loop_line [where al = "cf_al cf" and sb = new and bs = bs and n = 0] assms(2) new(2)
    by (auto simp: bs(2) [unfolded len] len)
  have finish: "stringbuffer_finish (cf_al cf) sb = Some line"
    by (simp add: stringbuffer_finish_def assms(2) sb(2) ucast_scast_byte comp_def)
  let ?ip = "ip_push (of_nat (length line)) (ip_push_bytes (line @ [0]) (length line) ip)"
  let ?w' = "set_stream h (fp\<lparr>sm_pos := sm_pos fp + length line\<rparr>) ?w"
  have "finger_FILE_fgets cf (ip, w) = Some (Running (?ip, ?w'))"
    using assms(4,6) grants_simps [OF assms(1), of File_read w] sb(1) finish
    by (simp add: finger_FILE_fgets_def stack_peek_toss assms(3) assms(5) [symmetric] from_top_def new(1) Let_def split_beta bs(1))
  moreover have "bs = line @ drop (line_length bs) bs" by (simp add: bs(2) [symmetric])
  moreover have "toss ?ip = xs @ h # 0 # map ucast (rev line) @ [of_nat (length line)]"
    by (simp add: ip_simps assms(3))
  moreover have "fh_file (handle_at h ?w') = fp\<lparr>sm_pos := sm_pos fp + length line\<rparr>"
    using handle_at_set(1) [of h ?w] assms(4) by simp
  moreover have "file_bytes ?w' fp = file_bytes w fp" by simp
  moreover have "is_line line (drop (line_length bs) bs)" using line_length_line [of bs] by (simp add: bs(2))
  ultimately show ?thesis unfolding bs(1) by blast
qed

text \<open>A world with an open file, at its second byte.\<close>

definition sample_open :: world where
  "sample_open = sample_world\<lparr>w_files := [[97] \<mapsto> [120, 104, 105, 13, 10, 106]],
     w_statics := initial_statics\<lparr>st_handles :=
       [Some \<lparr>fh_file = \<lparr>sm_file = Inl [97], sm_pos = 1, sm_reads = True, sm_writes = True, sm_appends = False\<rparr>,
              fh_buffvect = vector 5 5\<rparr>, None]\<rparr>\<rparr>"

lemma sample_open_handle:
  "valid_handle 0 (the_handles sample_open)" "grants sample_config" "cf_al sample_config k" "toss (pushed [0]) = [7, 8] @ [0]"
  "sm_reads (fh_file (handle_at 0 sample_open))" "file_bytes sample_open (fh_file (handle_at 0 sample_open)) = [120, 104, 105, 13, 10, 106]"
  "sm_pos (fh_file (handle_at 0 sample_open)) = 1"
  by (simp_all add: sample_open_def valid_handle_def grants_def sample_config_def sample_sysret_def handle_at_def file_bytes_def)

theorem file_gets_line_witness:
  "\<exists>ip' w' line rest. finger_FILE_fgets sample_config (pushed [0], sample_open) = Some (Running (ip', w')) \<and>
     [104, 105, 13, 10, 106] = line @ rest \<and> is_line line rest \<and> hd (rev (toss ip')) = of_nat (length line)"
  using file_gets_line [OF sample_open_handle(2,3,4,1) refl sample_open_handle(5)]
  by (auto simp: sample_open_handle) (metis hd_append2 hd_rev last_snoc)

text \<open>The file \<open>a\<close> can be opened for writing and reading, but not for reading where it does not exist.\<close>

lemma open_arguments:
  fixes mode :: cell
  defines "ip \<equiv> pushed [5, 6, mode, 0, 97]"
  shows "\<exists>s t u. ip_pop_string sample_config ip = (Some [97], ip_set_stack s ip) \<and>
      ip_pop (ip_set_stack s ip) = (mode, ip_set_stack t ip) \<and>
      ip_pop_vector (ip_set_stack t ip) = (vector 5 6, ip_set_stack u ip) \<and> stack_list u = [7, 8]"
proof -
  have "toss ip = [7, 8, 5, 6, mode] @ 0 # map ucast (rev [97 :: byte])" by (simp add: ip_def)
  then obtain s where s: "ip_pop_string sample_config ip = (Some [97], ip_set_stack s ip)" "stack_list s = [7, 8, 5, 6, mode]"
    using ip_pop_string_top [of ip "[7, 8, 5, 6, mode]" "[97]" sample_config] by auto
  then obtain t where t: "ip_pop (ip_set_stack s ip) = (mode, ip_set_stack t ip)" "stack_list t = [7, 8, 5, 6]"
    using ip_pop_top [of "ip_set_stack s ip" "[7, 8, 5, 6]" mode] by (auto simp: ip_simps)
  then show ?thesis
    using ip_pop_vector_top [of "ip_set_stack t ip" "[7, 8]" 5 6] s(1) by (auto simp: ip_simps)
qed

theorem file_open_handle_witness:
  "(\<exists>ip' w' h. finger_FILE_fopen sample_config (pushed [5, 6, 4, 0, 97], sample_world) = (ip', w') \<and> toss ip' = [7, 8, h] \<and>
      handle_at h w' = \<lparr>fh_file = opened_stream [97] 4, fh_buffvect = vector 5 6\<rparr>) \<and>
   (\<exists>ip' w'. finger_FILE_fopen sample_config (pushed [5, 6, 0, 0, 97], sample_world) = (ip', w') \<and> toss ip' = [7, 8] \<and>
      ip_delta ip' = vector (- 1) 0 \<and> entry (the_handles w') = entry [])"
proof -
  have none: "the_handles sample_world = []" "w_files sample_world = (\<lambda>_. None)"
    by (simp_all add: sample_world_def initial_statics_def)
  have yes: "opens sample_config sample_world (Some [97]) 4" and no: "\<not> opens sample_config sample_world (Some [97]) 0"
    by (simp_all add: opens_def none sample_config_def sample_sysret_def allocate_handle_def find_next_free_handle_def first_free_def)
  obtain s t u where four: "ip_pop_string sample_config (pushed [5, 6, 4, 0, 97]) = (Some [97], ip_set_stack s (pushed [5, 6, 4, 0, 97]))"
    "ip_pop (ip_set_stack s (pushed [5, 6, 4, 0, 97])) = (4, ip_set_stack t (pushed [5, 6, 4, 0, 97]))"
    "ip_pop_vector (ip_set_stack t (pushed [5, 6, 4, 0, 97])) = (vector 5 6, ip_set_stack u (pushed [5, 6, 4, 0, 97]))" "stack_list u = [7, 8]"
    using open_arguments [of 4] by blast
  obtain s' t' u' where zero: "ip_pop_string sample_config (pushed [5, 6, 0, 0, 97]) = (Some [97], ip_set_stack s' (pushed [5, 6, 0, 0, 97]))"
    "ip_pop (ip_set_stack s' (pushed [5, 6, 0, 0, 97])) = (0, ip_set_stack t' (pushed [5, 6, 0, 0, 97]))"
    "ip_pop_vector (ip_set_stack t' (pushed [5, 6, 0, 0, 97])) = (vector 5 6, ip_set_stack u' (pushed [5, 6, 0, 0, 97]))" "stack_list u' = [7, 8]"
    using open_arguments [of 0] by blast
  obtain ip1 w1 where run1: "finger_FILE_fopen sample_config (pushed [5, 6, 4, 0, 97], sample_world) = (ip1, w1)" by fastforce
  obtain ip2 w2 where run2: "finger_FILE_fopen sample_config (pushed [5, 6, 0, 0, 97], sample_world) = (ip2, w2)" by fastforce
  have small: "length (the_handles sample_world) < 2 ^ 62" by (simp add: none)
  show ?thesis
    using file_open_handle [OF small four(1-3) run1] file_open_handle [OF small zero(1-3) run2] four(4) zero(4) run1 run2
    by (auto simp: yes no none ip_simps ip_reverse_def)
qed

theorem file_write_read_witness:
  "\<exists>ip1 w1 ip2 w2 ip3 w3.
     finger_FILE_fwrite sample_config (pushed [0, 2], sample_open) = Some (Running (ip1, w1)) \<and>
     finger_FILE_fseek sample_config (ip_push (- 2) (ip_push 1 ip1), w1) = (ip2, w2) \<and>
     finger_FILE_fread sample_config (ip_push 2 ip2, w2\<lparr>w_space := fungespace_set 0 (vector 5 5) fungespace_create\<rparr>) = (ip3, w3) \<and>
     buffer_bytes (w_space w3) (vector 5 5) 2 = [32, 32]"
proof -
  let ?s = "fungespace_set 0 (vector 5 5) fungespace_create" and ?fp = "fh_file (handle_at 0 sample_open)"
  have two: "0 <s (2 :: cell)" "toss (pushed [0, 2]) = [7, 8] @ [0, 2]" "sm_writes ?fp" "stream_ok sample_open ?fp"
    "write_position sample_open ?fp + unat (2 :: cell) < 2 ^ 63" "store_ok ?s"
    by (simp_all add: cell_less_iff sample_open_def handle_at_def stream_ok_def store_ok_set store_ok_create write_position_def)
  obtain ip1 w1 where r1: "finger_FILE_fwrite sample_config (pushed [0, 2], sample_open) = Some (Running (ip1, w1))"
    using fwrite_granted [OF sample_open_handle(2,3) two(2) sample_open_handle(1) two(1) refl two(3) refl] by blast
  obtain ip2 w2 where r2: "finger_FILE_fseek sample_config (ip_push (- 2) (ip_push 1 ip1), w1) = (ip2, w2)" by fastforce
  obtain ip3 w3 where r3: "finger_FILE_fread sample_config (ip_push 2 ip2, w2\<lparr>w_space := ?s\<rparr>) = (ip3, w3)" by fastforce
  have "fh_buffvect (handle_at 0 sample_open) = vector 5 5" "fungespace_get (w_space sample_open) p = space_cell" for p
    by (simp_all add: sample_open_def handle_at_def sample_world_def get_create)
  moreover have "[0..<2] = [0, 1 :: nat]" by (simp add: upt_rec)
  ultimately have "buffer_bytes (w_space w3) (vector 5 5) 2 = [32, 32]"
    using file_write_read [OF sample_open_handle(2,3) two(2) sample_open_handle(1) two(1) refl sample_open_handle(5) two(3-6) r1 r2 r3]
    by (simp add: buffer_bytes_def)
  then show ?thesis using r1 r2 r3 by blast
qed

end
