(* ===== verification/Fp_Sock.thy ===== *)
theory Fp_Sock
  imports Handles
begin

text \<open>
  The fingerprints SOCK and SCKE, \<^verbatim>\<open>src/fingerprints/SOCK/SOCK.c\<close> and \<^verbatim>\<open>SCKE/SCKE.c\<close>.
  What the system calls answer is a parameter; what is modelled is which calls are made, with which arguments and in which
  order, the table of handles, and what becomes of the answers.
\<close>

section \<open>The table of handles\<close>

definition sizeof_FungeSocketHandle :: nat where
  "sizeof_FungeSocketHandle = 8"

definition findNextfree_handle :: "allocator \<Rightarrow> 'h handles \<Rightarrow> nat option \<times> 'h handles" where
  "findNextfree_handle al t =
     (case first_free t of
        Some i \<Rightarrow> (Some i, t)
      | None \<Rightarrow>
          if \<not> al (size_t ((length t + ALLOCCHUNK) * sizeof_pointer)) then (None, t)
          else (Some (length t), t @ replicate ALLOCCHUNK None))"

definition sock_allocate_handle :: "allocator \<Rightarrow> 'h \<Rightarrow> 'h handles \<Rightarrow> nat option \<times> 'h handles" where
  "sock_allocate_handle al fresh t =
     (case findNextfree_handle al t of
        (None, t) \<Rightarrow> (None, t)
      | (Some h, t) \<Rightarrow> if \<not> al sizeof_FungeSocketHandle then (None, t) else (Some h, t[h := Some fresh]))"

definition sock_free_handle :: "nat \<Rightarrow> 'h handles \<Rightarrow> 'h handles" where
  "sock_free_handle h t = (if entry t h = None then t else t[h := None])"

definition sock_valid_handle :: "cell \<Rightarrow> 'h handles \<Rightarrow> bool" where
  "sock_valid_handle h t \<longleftrightarrow> \<not> (h <s 0 \<or> length t \<le> unat h \<or> t ! unat h = None)"

lemma findNextfree:
  "findNextfree_handle al t = (Some h, t') \<Longrightarrow> h < length t' \<and> entry t' = entry t \<and> entry t' h = None \<and> h \<le> length t"
  "findNextfree_handle al t = (None, t') \<Longrightarrow> entry t' = entry t"
  using first_free_Some [of t h]
  by (auto simp: findNextfree_handle_def entry_extended ALLOCCHUNK_def split: option.splits if_splits)
    (auto simp: entry_def)

lemma sock_allocate_Some:
  assumes "sock_allocate_handle al x t = (Some h, t')"
  obtains u where "findNextfree_handle al t = (Some h, u)" "t' = u[h := Some x]" "h < length u"
  using assms findNextfree(1) [of al t h]
  by (auto simp: sock_allocate_handle_def split: prod.splits option.splits if_splits)

interpretation sock_handles: handle_table "sock_allocate_handle al" sock_free_handle sock_valid_handle
proof
  show "entry t h = None \<and> entry t' = (entry t)(h := Some x)" if run: "sock_allocate_handle al x t = (Some h, t')"
    for x :: 'a and t h t'
  proof -
    obtain u where "findNextfree_handle al t = (Some h, u)" "t' = u[h := Some x]"
      using run by (rule sock_allocate_Some)
    then show ?thesis using findNextfree(1) [of al t h u] allocation [of h u t x] by metis
  qed
  show "entry t' = entry t" if "sock_allocate_handle al x t = (None, t')" for x :: 'a and t t'
  proof -
    obtain i u where u: "findNextfree_handle al t = (i, u)" by fastforce
    then have "u = t'" using that by (auto simp: sock_allocate_handle_def split: option.splits if_splits)
    then show ?thesis using u findNextfree by (cases i) blast+
  qed
  show "h < 2 ^ 63" if run: "sock_allocate_handle al x t = (Some h, t')" and "length t < 2 ^ 62" for x :: 'a and t h t'
  proof -
    obtain u where "findNextfree_handle al t = (Some h, u)"
      using run by (rule sock_allocate_Some)
    then show ?thesis using findNextfree(1) [of al t h u] \<open>length t < 2 ^ 62\<close> by simp
  qed
  show "entry (sock_free_handle h t) = (entry t)(h := None)" for h and t :: "'a handles"
    by (auto simp: sock_free_handle_def entry_def fun_eq_iff)
  show "sock_valid_handle c t \<longleftrightarrow> \<not> c <s 0 \<and> entry t (unat c) \<noteq> None" for c and t :: "'a handles"
    by (auto simp: sock_valid_handle_def entry_def)
qed

abbreviation the_sockets :: "world \<Rightarrow> FungeSocketHandle handles" where
  "the_sockets w \<equiv> st_sockets (w_statics w)"

definition set_sockets :: "FungeSocketHandle handles \<Rightarrow> world \<Rightarrow> world" where
  "set_sockets t w = w\<lparr>w_statics := (w_statics w)\<lparr>st_sockets := t\<rparr>\<rparr>"

definition socket_at :: "cell \<Rightarrow> world \<Rightarrow> FungeSocketHandle" where
  "socket_at s w = the (the_sockets w ! unat s)"

definition finger_SOCK_LookupHandle :: "cell \<Rightarrow> world \<Rightarrow> FungeSocketHandle option" where
  "finger_SOCK_LookupHandle h w = (if \<not> sock_valid_handle h (the_sockets w) then None else Some (socket_at h w))"

section \<open>SOCK\<close>

definition popFam :: "instructionPointer \<Rightarrow> sock_family \<times> instructionPointer" where
  "popFam ip =
     (let (c, ip) = ip_pop ip
      in (if c = 1 then AF_UNIX else if c = 2 then AF_INET else AF_UNSPEC, ip))"

text \<open>The bytes of a port change places on a little-endian machine.\<close>

definition htons :: "16 word \<Rightarrow> 16 word" where
  "htons port = push_bit 8 port OR drop_bit 8 port"

definition sys_value :: "config \<Rightarrow> syscall \<Rightarrow> world \<Rightarrow> 32 word \<times> world" where
  "sys_value cf call w = (let (ret, w) = sys_call cf call w in (ucast (sr_value ret), w))"

definition finger_SOCK_accept :: "config \<Rightarrow> mach \<Rightarrow> mach" where
  "finger_SOCK_accept cf m =
     (let (ip, w) = m; (s, ip) = ip_pop ip
      in if \<not> sock_valid_handle s (the_sockets w) then (ip_reverse ip, w)
         else
           (let (ret, w) = sys_call cf (Sys_accept (sk_fd (socket_at s w))) w; as = ucast (sr_value ret)
            in if as = - 1 then (ip_reverse ip, w)
               else
                 (let (failed, w) = sys_value cf (Sys_cloexec as) w
                  in if failed \<noteq> 0 then (let (r, w) = sys_value cf (Sys_close as) w in (ip_reverse ip, w))
                     else
                       (case sock_allocate_handle (cf_al cf)
                               \<lparr>sk_fd = as, sk_family = sk_family (socket_at s w)\<rparr> (the_sockets w) of
                          (None, t) \<Rightarrow>
                            (let (r, w) = sys_value cf (Sys_close as) (set_sockets t w) in (ip_reverse ip, w))
                        | (Some i, t) \<Rightarrow>
                            (ip_push (of_nat i) (ip_push (ucast (sr_addr ret)) (ip_push (ucast (sr_port ret)) ip)),
                             set_sockets t w)))))"

text \<open>\<open>B\<close> and \<open>C\<close> differ in the call that they make of a descriptor, an address and a port.\<close>

definition sock_address_call :: "(32 word \<Rightarrow> 32 word \<Rightarrow> 16 word \<Rightarrow> syscall) \<Rightarrow> config \<Rightarrow> mach \<Rightarrow> mach" where
  "sock_address_call call cf m =
     (let (ip, w) = m; (address, ip) = ip_pop ip; (port, ip) = ip_pop ip; (fam, ip) = popFam ip; (s, ip) = ip_pop ip
      in if \<not> sock_valid_handle s (the_sockets w) \<or> fam \<noteq> AF_INET then (ip_reverse ip, w)
         else
           (let (retval, w) = sys_value cf (call (sk_fd (socket_at s w)) (ucast address) (htons (ucast port))) w
            in (if retval = - 1 then ip_reverse ip else ip, w)))"

definition finger_SOCK_bind :: "config \<Rightarrow> mach \<Rightarrow> mach" where
  "finger_SOCK_bind = sock_address_call Sys_bind"

definition finger_SOCK_open :: "config \<Rightarrow> mach \<Rightarrow> mach" where
  "finger_SOCK_open = sock_address_call Sys_connect"

text \<open>\<open>inet_pton\<close> of a null pointer is a crash.\<close>

definition finger_SOCK_fromascii :: operation where
  "finger_SOCK_fromascii cf m =
     (let (ip, w) = m; (str, ip) = ip_pop_string cf ip
      in if str = None then Some Crashed
         else
           (let (ret, w) = sys_call cf (Sys_inet_pton str) w
            in Some (Running (if ucast (sr_value ret) \<noteq> (1 :: 32 word) then ip_reverse ip
                              else ip_push (ucast (sr_addr ret)) ip, w))))"

definition finger_SOCK_kill :: "config \<Rightarrow> mach \<Rightarrow> mach" where
  "finger_SOCK_kill cf m =
     (let (ip, w) = m; (s, ip) = ip_pop ip
      in if \<not> sock_valid_handle s (the_sockets w) then (ip_reverse ip, w)
         else
           (let fd = sk_fd (socket_at s w); (r, w) = sys_value cf (Sys_shutdown fd) w;
                (r, w) = sys_value cf (Sys_close fd) w; w = set_sockets (sock_free_handle (unat s) (the_sockets w)) w
            in (if r = - 1 then ip_reverse ip else ip, w)))"

definition finger_SOCK_listen :: "config \<Rightarrow> mach \<Rightarrow> mach" where
  "finger_SOCK_listen cf m =
     (let (ip, w) = m; (s, ip) = ip_pop ip; (n, ip) = ip_pop ip
      in if \<not> sock_valid_handle s (the_sockets w) then (ip_reverse ip, w)
         else
           (let (r, w) = sys_value cf (Sys_listen (sk_fd (socket_at s w)) (ucast n)) w
            in (if r = - 1 then ip_reverse ip else ip, w)))"

definition sock_options :: "(cell \<times> sock_option) list" where
  "sock_options =
     [(1, SO_DEBUG), (2, SO_REUSEADDR), (3, SO_KEEPALIVE), (4, SO_DONTROUTE), (5, SO_BROADCAST), (6, SO_OOBINLINE)]"

definition finger_SOCK_setopt :: "config \<Rightarrow> mach \<Rightarrow> mach" where
  "finger_SOCK_setopt cf m =
     (let (ip, w) = m; (s, ip) = ip_pop ip; (t, ip) = ip_pop ip; (val, ip) = ip_pop ip
      in if \<not> sock_valid_handle s (the_sockets w) then (ip_reverse ip, w)
         else
           (case map_of sock_options t of
              None \<Rightarrow> (ip_reverse ip, w)
            | Some opt \<Rightarrow>
                (let (r, w) = sys_value cf (Sys_setsockopt (sk_fd (socket_at s w)) opt (ucast val)) w
                 in (if r = - 1 then ip_reverse ip else ip, w))))"

text \<open>The cells of the buffer, in a row from where the vector, moved by the storage offset, points to.\<close>

definition socket_place :: "instructionPointer \<Rightarrow> funge_vector \<Rightarrow> nat \<Rightarrow> funge_vector" where
  "socket_place ip v i = (let v = vector_add v (ip_storageOffset ip) in vector (vec_x v + of_nat i) (vec_y v))"

definition finger_SOCK_receive :: "config \<Rightarrow> mach \<Rightarrow> mach" where
  "finger_SOCK_receive cf m =
     (let (ip, w) = m; (s, ip) = ip_pop ip; (len, ip) = ip_pop ip; (v, ip) = ip_pop_vector ip
      in if len <s 0 \<or> \<not> sock_valid_handle s (the_sockets w) \<or> \<not> cf_al cf (unat len) then (ip_reverse ip, w)
         else
           (let (ret, w) = sys_call cf (Sys_recv (sk_fd (socket_at s w)) (unat len)) w; bs = take (unat len) (sr_bytes ret)
            in if sr_value ret = - 1 then (ip_reverse (ip_push (- 1) ip), w)
               else (ip_push (of_nat (length bs)) ip,
                     w\<lparr>w_space := fold (\<lambda>i. fungespace_set (ucast (bs ! i)) (socket_place ip v i)) [0..<length bs] (w_space w)\<rparr>)))"

text \<open>What a new handle holds until the descriptor is stored; the family is stored last.\<close>

definition unset_socket :: FungeSocketHandle where
  "unset_socket = \<lparr>sk_fd = 0, sk_family = AF_UNSPEC\<rparr>"

definition finger_SOCK_create :: "config \<Rightarrow> mach \<Rightarrow> mach" where
  "finger_SOCK_create cf m =
     (let (ip, w) = m; ip = ip_set_stack (stack_discard (ip_stack ip) 1) ip; (c, ip) = ip_pop ip
      in if c \<noteq> 1 \<and> c \<noteq> 2 then (ip_reverse ip, w)
         else
           (let type = (if c = 1 then SOCK_DGRAM else SOCK_STREAM); (fam, ip) = popFam ip
            in if fam = AF_UNSPEC then (ip_reverse ip, w)
               else
                 (case sock_allocate_handle (cf_al cf) unset_socket (the_sockets w) of
                    (None, t) \<Rightarrow> (ip_reverse ip, set_sockets t w)
                  | (Some h, t) \<Rightarrow>
                      (let (fd, w) = sys_value cf (Sys_socket fam type) (set_sockets t w);
                           w = set_sockets ((the_sockets w)[h := Some (unset_socket\<lparr>sk_fd := fd\<rparr>)]) w
                       in if fd = - 1 then (ip_reverse ip, w)
                          else
                            (let (failed, w) = sys_value cf (Sys_cloexec fd) w
                             in if failed \<noteq> 0 then (let (r, w) = sys_value cf (Sys_close fd) w in (ip_reverse ip, w))
                                else (ip_push (of_nat h) ip,
                                      set_sockets ((the_sockets w)[h := Some \<lparr>sk_fd = fd, sk_family = fam\<rparr>]) w))))))"

definition finger_SOCK_write :: "config \<Rightarrow> mach \<Rightarrow> mach" where
  "finger_SOCK_write cf m =
     (let (ip, w) = m; (s, ip) = ip_pop ip; (len, ip) = ip_pop ip; (v, ip) = ip_pop_vector ip
      in if len <s 0 \<or> \<not> sock_valid_handle s (the_sockets w) \<or> \<not> cf_al cf (unat len) then (ip_reverse ip, w)
         else
           (let buffer = map (\<lambda>i. ucast (fungespace_get (w_space w) (socket_place ip v i))) [0..<unat len];
                (ret, w) = sys_call cf (Sys_send (sk_fd (socket_at s w)) buffer) w; ip = ip_push (sr_value ret) ip
            in (if sr_value ret = - 1 then ip_reverse ip else ip, w)))"

definition SOCK_init_handle_list :: "config \<Rightarrow> world \<Rightarrow> bool \<times> world" where
  "SOCK_init_handle_list cf w =
     (if \<not> cf_al cf (ALLOCCHUNK * sizeof_pointer) then (False, w) else (True, set_sockets (replicate ALLOCCHUNK None) w))"

definition setup_SOCK :: "config \<Rightarrow> world \<Rightarrow> bool \<times> world" where
  "setup_SOCK cf w = (if the_sockets w = [] then SOCK_init_handle_list cf w else (True, w))"

definition SOCK_operations :: "(string \<times> operation) list" where
  "SOCK_operations =
     [(''accept'', \<lambda>cf. returns (finger_SOCK_accept cf) cf), (''bind'', \<lambda>cf. returns (finger_SOCK_bind cf) cf),
      (''open'', \<lambda>cf. returns (finger_SOCK_open cf) cf), (''fromascii'', finger_SOCK_fromascii),
      (''kill'', \<lambda>cf. returns (finger_SOCK_kill cf) cf), (''listen'', \<lambda>cf. returns (finger_SOCK_listen cf) cf),
      (''setopt'', \<lambda>cf. returns (finger_SOCK_setopt cf) cf), (''receive'', \<lambda>cf. returns (finger_SOCK_receive cf) cf),
      (''create'', \<lambda>cf. returns (finger_SOCK_create cf) cf), (''write'', \<lambda>cf. returns (finger_SOCK_write cf) cf)]"

section \<open>SCKE\<close>

definition finger_SCKE_gethostbyname :: "config \<Rightarrow> mach \<Rightarrow> mach" where
  "finger_SCKE_gethostbyname cf m =
     (let (ip, w) = m; (str, ip) = ip_pop_string cf ip; (ret, w) = sys_call cf (Sys_getaddrinfo str) w
      in if ucast (sr_value ret) \<noteq> (0 :: 32 word) \<or> \<not> sr_flag ret then (ip_reverse ip, w)
         else (ip_push (ucast (sr_addr ret)) ip, w))"

definition finger_SCKE_peek :: "config \<Rightarrow> mach \<Rightarrow> mach" where
  "finger_SCKE_peek cf m =
     (let (ip, w) = m; (s, ip) = ip_pop ip
      in case finger_SOCK_LookupHandle s w of
           None \<Rightarrow> (ip_reverse ip, w)
         | Some handle \<Rightarrow>
             (let (ret, w) = sys_call cf (Sys_poll (sk_fd handle)) w; retval = ucast (sr_value ret) :: 32 word
              in if retval = - 1 then (ip_reverse ip, w)
                 else if retval = 0 then (ip_push 0 ip, w)
                 else if sr_flag ret then (ip_push 1 ip, w) else (ip_reverse ip, w)))"

definition SCKE_operations :: "(string \<times> operation) list" where
  "SCKE_operations =
     [(''gethostbyname'', \<lambda>cf. returns (finger_SCKE_gethostbyname cf) cf), (''peek'', \<lambda>cf. returns (finger_SCKE_peek cf) cf)]"

section \<open>Crashes\<close>

lemma pop_string_granted: "(\<And>n. cf_al cf n) \<Longrightarrow> fst (ip_pop_string cf ip) \<noteq> None"
  by (simp add: ip_pop_string_def stack_pop_string_def split_beta Let_def)

lemma SOCK_crash_free: "\<forall>(name, operation) \<in> set SOCK_operations. crash_free operation"
proof -
  have "crash_free finger_SOCK_fromascii"
  proof (rule crash_freeI)
    fix cf :: config and ip w assume "\<And>n. cf_al cf n"
    then have "fst (ip_pop_string cf ip) \<noteq> None" by (rule pop_string_granted)
    then show "finger_SOCK_fromascii cf (ip, w) \<noteq> Some Crashed"
      by (simp add: finger_SOCK_fromascii_def Let_def split_beta)
  qed
  then show ?thesis by (simp add: SOCK_operations_def crash_free_returns)
qed

lemma SCKE_crash_free: "\<forall>(name, operation) \<in> set SCKE_operations. crash_free operation"
  by (simp add: SCKE_operations_def crash_free_returns)

section \<open>Properties\<close>

lemma htons_htons: "htons (htons port) = port"
  by (rule bit_word_eqI) (auto simp: htons_def bit_simps)

lemma sock_allocate_granted: "(\<And>n. al n) \<Longrightarrow> \<exists>h t'. sock_allocate_handle al x t = (Some h, t')"
  by (cases "first_free t") (simp_all add: sock_allocate_handle_def findNextfree_handle_def)

lemma the_sockets_set [simp]:
  "the_sockets (set_sockets t w) = t" "the_sockets (snd (sys_value cf call w)) = the_sockets w"
  "the_sockets (snd (sys_call cf call w)) = the_sockets w"
  by (simp_all add: set_sockets_def sys_value_def sys_call_def Let_def split_beta)

text \<open>
  C33: a failure of \<open>S\<close> leaks a handle. When the system refuses the socket, or the close-on-exec flag, \<open>S\<close> takes its three arguments and
  reflects without pushing a handle, with nothing else of the pointer changed, but the handle that it has taken stays in the table: a handle that was none before
  is valid now, with the descriptor \<open>-1\<close>, or one that has been closed. The memory for the handle is granted, and the table has not grown beyond what a cell counts.
\<close>

theorem sock_create_leaks:
  assumes "length (the_sockets w) < 2 ^ 62" "toss ip = xs @ [fam, type, prot]" "fam = 1 \<or> fam = 2" "type = 1 \<or> type = 2"
    and "\<And>n. cf_al cf n"
    and "fd = ucast (sr_value (cf_syscall cf (w_calls w) (Sys_socket (if fam = 1 then AF_UNIX else AF_INET)
      (if type = 1 then SOCK_DGRAM else SOCK_STREAM))))"
    and "fd = - 1 \<or> ucast (sr_value (cf_syscall cf (w_calls w + 1) (Sys_cloexec fd))) \<noteq> (0 :: 32 word)"
    and run: "finger_SOCK_create cf (ip, w) = (ip', w')"
  shows "(\<exists>s. ip' = ip_reverse (ip_set_stack s ip)) \<and> toss ip' = xs \<and> (\<exists>h. \<not> sock_valid_handle h (the_sockets w) \<and> sock_valid_handle h (the_sockets w') \<and>
    sk_fd (socket_at h w') = fd)"
proof -
  obtain ip1 where ip1: "ip_set_stack (stack_discard (ip_stack ip) (Suc 0)) ip = ip1" by blast
  have "toss ip1 = xs @ [fam, type]"
    using assms(2) by (simp add: ip1 [symmetric] ip_simps stack_simps stack_list_toss drop_top_def)
  then obtain s where s: "ip_pop ip1 = (type, ip_set_stack s ip1)" "toss (ip_set_stack s ip1) = xs @ [fam]"
    using ip_pop_top [of ip1 "xs @ [fam]" type] by (auto simp: ip_simps)
  obtain u where u: "ip_pop (ip_set_stack s ip1) = (fam, ip_set_stack u ip1)" "toss (ip_set_stack u ip1) = xs"
    using ip_pop_top [of "ip_set_stack s ip1" xs fam] s(2) by (auto simp: ip_simps)
  obtain f ty where f: "(if fam = 1 then AF_UNIX else AF_INET) = f" "(if type = 1 then SOCK_DGRAM else SOCK_STREAM) = ty" by blast
  obtain h t where alloc: "sock_allocate_handle (cf_al cf) unset_socket (the_sockets w) = (Some h, t)"
    using sock_allocate_granted [of "cf_al cf" unset_socket "the_sockets w"] assms(5) by auto
  note fresh = sock_handles.allocated [OF alloc assms(1)]
  have small: "unat (of_nat h :: cell) = h"
    using sock_handles.handle_cell(1) [OF sock_handles.allocate_small [OF alloc assms(1)]] .
  obtain v where v: "findNextfree_handle (cf_al cf) (the_sockets w) = (Some h, v)" "t = v[h := Some unset_socket]" "h < length v"
    using alloc by (rule sock_allocate_Some)
  let ?x = "unset_socket\<lparr>sk_fd := fd\<rparr>"
  have pops: "popFam (ip_set_stack s ip1) = (f, ip_set_stack u ip1)" "(f = AF_UNSPEC) = False" "(type \<noteq> 1 \<and> type \<noteq> 2) = False"
    using assms(3,4) f(1) by (auto simp: popFam_def u(1))
  obtain w1 where w1: "sys_value cf (Sys_socket f ty) (set_sockets t w) = (fd, w1)" "the_sockets w1 = t" "w_calls w1 = w_calls w + 1"
    using assms(6) f by (simp add: sys_value_def sys_call_def Let_def set_sockets_def)
  have calls: "w_calls (set_sockets y w1) = w_calls w + 1" for y by (simp add: w1(3) set_sockets_def)
  have refused: "fd = - 1 \<or> fst (sys_value cf (Sys_cloexec fd) (set_sockets y w1)) \<noteq> 0" for y
    using assms(7) by (simp add: sys_value_def sys_call_def Let_def calls)
  have "ip' = ip_reverse (ip_set_stack u ip1) \<and> the_sockets w' = t[h := Some ?x]"
    using run refused [of "t[h := Some ?x]"]
    by (cases "fd = - 1") (auto simp: finger_SOCK_create_def ip1 s(1) pops f alloc w1(1,2) Let_def split_beta)
  moreover have "ip_set_stack u ip1 = ip_set_stack u ip" by (simp add: ip1 [symmetric])
  ultimately have "(\<exists>s. ip' = ip_reverse (ip_set_stack s ip)) \<and> toss ip' = xs \<and> the_sockets w' = t[h := Some ?x]"
    using u(2) by (auto simp: ip_reverse_def ip_simps)
  moreover have "sock_valid_handle (of_nat h) (t[h := Some x])" "the (t[h := Some x] ! unat (of_nat h :: cell)) = x" for x
    using v(2,3) fresh(2) by (auto simp: sock_valid_handle_def small)
  ultimately show ?thesis using fresh(1) by (auto simp: socket_at_def intro!: exI [of _ "of_nat h"])
qed

theorem sock_create_leaks_witness:
  "\<exists>s w' h. finger_SOCK_create (sample_config\<lparr>cf_syscall := \<lambda>_ _. sample_sysret\<lparr>sr_value := - 1\<rparr>\<rparr>)
     (pushed [2, 2, 6], sample_world) = (ip_reverse (ip_set_stack s (pushed [2, 2, 6])), w') \<and>
     stack_list s = [7, 8] \<and> sock_valid_handle h (the_sockets w') \<and> sk_fd (socket_at h w') = - 1"
proof -
  let ?cf = "sample_config\<lparr>cf_syscall := \<lambda>_ _. sample_sysret\<lparr>sr_value := - 1\<rparr>\<rparr>"
  obtain ip' w' where run: "finger_SOCK_create ?cf (pushed [2, 2, 6], sample_world) = (ip', w')" by fastforce
  have "length (the_sockets sample_world) < 2 ^ 62" "toss (pushed [2, 2, 6]) = [7, 8] @ [2, 2, 6]" "\<And>n. cf_al ?cf n"
    by (simp_all add: sample_world_def initial_statics_def sample_config_def)
  note leak = sock_create_leaks [OF this(1,2) _ _ this(3) refl _ run]
  have "ucast (- 1 :: cell) = (- 1 :: 32 word)" by (rule bit_word_eqI) (auto simp: bit_simps)
  then obtain s h where s: "ip' = ip_reverse (ip_set_stack s (pushed [2, 2, 6]))" "toss ip' = [7, 8]"
    "sock_valid_handle h (the_sockets w')" "sk_fd (socket_at h w') = - 1"
    using leak by auto
  then have "stack_list s = [7, 8]"
    by (simp add: toss_def ip_reverse_def ip_stack_def ip_set_stack_def ss_set_stack_def)
  then show ?thesis using run s by blast
qed

end
