(* ===== verification/Fp_Perl.thy ===== *)
theory Fp_Perl
  imports Strn
begin

text \<open>
  The fingerprints DIRF and PERL, \<^verbatim>\<open>src/fingerprints/DIRF/DIRF.c\<close> and \<^verbatim>\<open>PERL/PERL.c\<close>. What the
  system and the Perl process do is a parameter, the answers of the system calls; the two ends of the pipe are left out.
\<close>

section \<open>DIRF\<close>

text \<open>The three instructions differ in the system call.\<close>

definition dirf_call :: "(byte list \<Rightarrow> syscall) \<Rightarrow> config \<Rightarrow> mach \<Rightarrow> mach" where
  "dirf_call call cf m =
     (let (ip, w) = m; (str, s) = stack_pop_string (cf_al cf) (ip_stack ip); ip = ip_set_stack s ip
      in case str of
           None \<Rightarrow> (ip_reverse ip, w)
         | Some str \<Rightarrow>
             if length str - 1 < 1 then (ip_reverse ip, w)
             else
               (let (ret, w) = sys_call cf (call (takeWhile (\<lambda>c. c \<noteq> 0) str)) w
                in (if ucast (sr_value ret) \<noteq> (0 :: 32 word) then ip_reverse ip else ip, w)))"

definition finger_DIRF_chdir :: "config \<Rightarrow> mach \<Rightarrow> mach" where
  "finger_DIRF_chdir = dirf_call Sys_chdir"

definition finger_DIRF_mkdir :: "config \<Rightarrow> mach \<Rightarrow> mach" where
  "finger_DIRF_mkdir = dirf_call Sys_mkdir"

definition finger_DIRF_rmdir :: "config \<Rightarrow> mach \<Rightarrow> mach" where
  "finger_DIRF_rmdir = dirf_call Sys_rmdir"

definition DIRF_operations :: "(string \<times> operation) list" where
  "DIRF_operations =
     [(''chdir'', \<lambda>cf. returns (finger_DIRF_chdir cf) cf), (''mkdir'', \<lambda>cf. returns (finger_DIRF_mkdir cf) cf),
      (''rmdir'', \<lambda>cf. returns (finger_DIRF_rmdir cf) cf)]"

lemma DIRF_crash_free: "\<forall>(name, operation) \<in> set DIRF_operations. crash_free operation"
  by (simp add: DIRF_operations_def crash_free_returns)

section \<open>PERL\<close>

definition finger_PERL_shelled :: "instructionPointer \<Rightarrow> instructionPointer" where
  "finger_PERL_shelled ip = ip_push 1 ip"

definition STRINGALLOCCHUNK :: nat where
  "STRINGALLOCCHUNK = 1024"

text \<open>
  The loop that reads the output. An answer of \<open>read\<close> is an error, \<open>- 1\<close>, with the flag that it is \<open>EAGAIN\<close>, or the
  bytes, none at the end. The result is the null pointer, \<open>None\<close>, or a string. \<open>retlength\<close> tells whether the caller
  wants the length; if not, the pointer \<open>retlength\<close> is null, and at the end of the output the code reads through it.
\<close>

partial_function (option) read_loop ::
    "config \<Rightarrow> bool \<Rightarrow> string_buffer \<Rightarrow> world \<Rightarrow> (byte list option \<times> world) result option" where
  "read_loop cf retlength sb w =
     (let (ret, w) = sys_call cf Sys_read w; bs = take STRINGALLOCCHUNK (sr_bytes ret)
      in if sr_value ret = - 1 then
           (if sr_flag ret then Some (Running (stringbuffer_finish (cf_al cf) sb, w)) else Some (Running (None, w)))
         else if bs = [] then
           (case stringbuffer_finish (cf_al cf) sb of
              None \<Rightarrow> Some (Running (None, w))
            | Some str \<Rightarrow>
                if \<not> retlength then Some Crashed
                else if str = [] then Some (Running (None, w)) else Some (Running (Some str, w)))
         else
           (case stringbuffer_append_buffer (cf_al cf) sb bs (length bs) of
              None \<Rightarrow> Some Crashed
            | Some sb \<Rightarrow>
                if length bs < STRINGALLOCCHUNK then Some (Running (stringbuffer_finish (cf_al cf) sb, w))
                else read_loop cf retlength sb w))"

definition run_perl :: "config \<Rightarrow> byte list option \<Rightarrow> bool \<Rightarrow> world \<Rightarrow> (byte list option \<times> world) result option" where
  "run_perl cf perlcode retlength w =
     (case perlcode of
        None \<Rightarrow> Some (Running (None, w))
      | Some perlcode \<Rightarrow>
          (let (piped, w) = sys_call cf Sys_pipe w
           in if sr_value piped = - 1 then Some (Running (None, w))
              else
                (let (blocking, w) = sys_call cf Sys_nonblock w
                 in if sr_value blocking = - 1 then Some (Running (None, w))
                    else
                      (let (pid, w) = sys_call cf (Sys_fork perlcode) w
                       in if sr_value pid = - 1 then Some (Running (None, w))
                          else
                            (let (waited, w) = sys_call cf Sys_waitpid w
                             in if sr_value waited = - 1 \<or> \<not> WIFEXITED (sr_addr waited) then Some (Running (None, w))
                                else
                                  (case stringbuffer_new (cf_al cf) of
                                     None \<Rightarrow> Some (Running (None, w))
                                   | Some sb \<Rightarrow>
                                       if \<not> cf_al cf (STRINGALLOCCHUNK + 1) then Some (Running (None, w))
                                       else read_loop cf retlength sb w))))))"

definition finger_PERL_eval :: operation where
  "finger_PERL_eval cf m =
     (let (ip, w) = m; (perlcode, ip) = ip_pop_string cf ip
      in bind_run (run_perl cf perlcode True w) (\<lambda>(str, w). case str of
           None \<Rightarrow> Some (Running (ip_reverse ip, w))
         | Some str \<Rightarrow> Some (Running (ip_push_bytes (str @ [0]) (length str) ip, w))))"

text \<open>\<open>strtol\<close>: a number that is no cell is \<open>ERANGE\<close>.\<close>

definition finger_PERL_int_eval :: operation where
  "finger_PERL_int_eval cf m =
     (let (ip, w) = m; (perlcode, ip) = ip_pop_string cf ip
      in bind_run (run_perl cf perlcode False w) (\<lambda>(str, w). case str of
           None \<Rightarrow> Some (Running (ip_reverse ip, w))
         | Some str \<Rightarrow>
             (let i = text_number str
              in Some (Running (if i < - (2 ^ 63) \<or> 2 ^ 63 \<le> i then ip_push (- 1) ip else ip_push (word_of_int i) ip, w)))))"

definition PERL_operations :: "(string \<times> operation) list" where
  "PERL_operations =
     [(''eval'', finger_PERL_eval), (''int_eval'', finger_PERL_int_eval), (''shelled'', returns (on_ip finger_PERL_shelled))]"

section \<open>Crashes\<close>

lemma append_buffer_grown:
  assumes "\<And>n. al n"
  shows "\<exists>sb'. stringbuffer_append_buffer al sb bs (length bs) = Some sb' \<and> sb_buf sb' = sb_buf sb @ map scast bs"
  using append_string_grown [of al sb bs] assms by (auto simp: stringbuffer_append_string_def)

text \<open>A read from the call number \<open>k\<close> on that meets the end of the output.\<close>

definition pipe_ends :: "config \<Rightarrow> nat \<Rightarrow> bool" where
  "pipe_ends cf k \<longleftrightarrow> (\<exists>n \<ge> k. sr_value (cf_syscall cf n Sys_read) \<noteq> - 1 \<and> sr_bytes (cf_syscall cf n Sys_read) = [])"

lemma pipe_ends_later: "k \<le> n \<Longrightarrow> pipe_ends cf n \<Longrightarrow> pipe_ends cf k"
  using order_trans unfolding pipe_ends_def by blast

text \<open>With the length asked for the code minds the end; without it, it survives only if there is none.\<close>

lemma read_loop_no_crash:
  "read_loop cf retlength sb w = Some r \<Longrightarrow> cf_al cf = (\<lambda>_. True) \<Longrightarrow> retlength \<or> \<not> pipe_ends cf (w_calls w) \<Longrightarrow> r \<noteq> Crashed"
proof (induction cf retlength sb w r rule: read_loop.raw_induct [rotated, consumes 1, case_names Unfold])
  case (Unfold loop cf retlength sb w r)
  note al = \<open>cf_al cf = (\<lambda>_. True)\<close>
  obtain ret w1 bs where ret: "sys_call cf Sys_read w = (ret, w1)" "take STRINGALLOCCHUNK (sr_bytes ret) = bs" by fastforce
  have w1: "w_calls w1 = w_calls w + 1" using ret(1) by (auto simp: sys_call_def Let_def)
  have speaks: "retlength \<or> sr_value ret = - 1 \<or> bs \<noteq> []"
    using Unfold(4) ret by (auto simp: pipe_ends_def sys_call_def Let_def STRINGALLOCCHUNK_def)
  have later: "retlength \<or> \<not> pipe_ends cf (w_calls w1)" using Unfold(4) pipe_ends_later [of "w_calls w" "w_calls w1"] by (auto simp: w1)
  obtain sb' where "stringbuffer_append_buffer (cf_al cf) sb bs (length bs) = Some sb'"
    using append_buffer_grown [of "cf_al cf" sb bs] by (auto simp: al)
  then show ?case
    using Unfold(2) speaks later al by (auto dest: Unfold(1) simp: ret Let_def split: if_splits option.splits)
qed

lemma run_perl_no_crash:
  assumes "cf_al cf = (\<lambda>_. True)" "retlength \<or> \<not> pipe_ends cf (w_calls w)"
  shows "run_perl cf code retlength w \<noteq> Some Crashed"
proof -
  have "read_loop cf retlength sb w' \<noteq> Some Crashed" if "w_calls w \<le> w_calls w'" for sb w'
    using read_loop_no_crash [of cf retlength sb w'] assms pipe_ends_later [OF that] by blast
  then show ?thesis by (auto simp: run_perl_def sys_call_def Let_def split: option.split)
qed

lemma PERL_crash_free:
  assumes "(name, operation) \<in> set PERL_operations" "name \<noteq> ''int_eval''"
  shows "crash_free operation"
proof -
  have "crash_free finger_PERL_eval"
    unfolding crash_free_def benign_def
    by (auto simp: finger_PERL_eval_def bind_run_def split_beta Let_def
        run_perl_no_crash split: Option.bind_splits option.splits result.splits if_splits)
  then show ?thesis using assms by (auto simp: PERL_operations_def crash_free_returns)
qed

lemma int_eval_no_crash:
  assumes "cf_al cf = (\<lambda>_. True)" "\<not> pipe_ends cf (w_calls (snd m))"
  shows "finger_PERL_int_eval cf m \<noteq> Some Crashed"
  using assms
  by (cases m) (auto simp: finger_PERL_int_eval_def bind_run_def split_beta Let_def
      run_perl_no_crash split: Option.bind_splits option.splits result.splits if_splits)

section \<open>Properties\<close>

text \<open>The system calls that come before the output is read.\<close>

definition perl_runs :: "config \<Rightarrow> world \<Rightarrow> byte list \<Rightarrow> bool" where
  "perl_runs cf w code \<longleftrightarrow> (let answer = (\<lambda>k call. cf_syscall cf (w_calls w + k) call) in
     sr_value (answer 0 Sys_pipe) \<noteq> - 1 \<and> sr_value (answer 1 Sys_nonblock) \<noteq> - 1 \<and>
     sr_value (answer 2 (Sys_fork code)) \<noteq> - 1 \<and>
     sr_value (answer 3 Sys_waitpid) \<noteq> - 1 \<and> WIFEXITED (sr_addr (answer 3 Sys_waitpid)))"

lemma run_perl_reads:
  assumes "perl_runs cf w code" "cf_al cf = (\<lambda>_. True)"
  shows "\<exists>w'. w_calls w' = w_calls w + 4 \<and>
    run_perl cf (Some code) retlength w = read_loop cf retlength \<lparr>sb_buf = [], sb_size = 256\<rparr> w'"
proof -
  let ?w = "snd (sys_call cf Sys_waitpid (snd (sys_call cf (Sys_fork code) (snd (sys_call cf Sys_nonblock (snd (sys_call cf Sys_pipe w)))))))"
  have "run_perl cf (Some code) retlength w = read_loop cf retlength \<lparr>sb_buf = [], sb_size = 256\<rparr> ?w"
    using assms
    by (simp add: run_perl_def perl_runs_def sys_call_def Let_def stringbuffer_new_def numeral_2_eq_2 numeral_3_eq_3)
  moreover have "w_calls ?w = w_calls w + 4" by (simp add: sys_call_def Let_def)
  ultimately show ?thesis by blast
qed

text \<open>
  C34: \<open>I\<close> crashes where \<open>E\<close> reflects. When the Perl process has ended without any output, the first \<open>read\<close> meets the end of
  the pipe; there the code compares \<open>*retlength\<close> with 0, and \<open>I\<close> has passed a null pointer for it. So a program that evaluates,
  say, the empty string as an integer ends the interpreter. \<open>E\<close> reverses the direction.
\<close>

theorem perl_silent_crash:
  assumes "cf_al cf = (\<lambda>_. True)" "ip_pop_string cf ip = (Some code, ip1)" "perl_runs cf w code"
    and "sr_value (cf_syscall cf (w_calls w + 4) Sys_read) \<noteq> - 1" "sr_bytes (cf_syscall cf (w_calls w + 4) Sys_read) = []"
  shows "finger_PERL_int_eval cf (ip, w) = Some Crashed \<and>
    (\<exists>w'. finger_PERL_eval cf (ip, w) = Some (Running (ip_reverse ip1, w')))"
proof -
  have silent: "read_loop cf retlength \<lparr>sb_buf = [], sb_size = 256\<rparr> w' =
      (if retlength then Some (Running (None, snd (sys_call cf Sys_read w'))) else Some Crashed)"
    if "w_calls w' = w_calls w + 4" for retlength w'
    using assms(1,4,5) that
    by (subst read_loop.simps) (simp add: sys_call_def Let_def stringbuffer_finish_def)
  obtain w1 where "w_calls w1 = w_calls w + 4" "run_perl cf (Some code) False w = read_loop cf False \<lparr>sb_buf = [], sb_size = 256\<rparr> w1"
    using run_perl_reads [OF assms(3,1)] by blast
  moreover obtain w2 where "w_calls w2 = w_calls w + 4" "run_perl cf (Some code) True w = read_loop cf True \<lparr>sb_buf = [], sb_size = 256\<rparr> w2"
    using run_perl_reads [OF assms(3,1)] by blast
  ultimately show ?thesis
    by (simp add: finger_PERL_int_eval_def finger_PERL_eval_def assms(2) silent bind_run_def)
qed

theorem perl_silent_crash_witness:
  "finger_PERL_int_eval (sample_config\<lparr>cf_syscall := \<lambda>_ _. sample_sysret\<rparr>) (pushed [0], sample_world) = Some Crashed"
proof -
  let ?cf = "sample_config\<lparr>cf_syscall := \<lambda>_ _. sample_sysret\<rparr>"
  have al: "cf_al ?cf = (\<lambda>_. True)" by (simp add: sample_config_def)
  then have "fst (ip_pop_string ?cf (pushed [0])) \<noteq> None"
    by (simp add: ip_pop_string_def stack_pop_string_def split_beta)
  then obtain code ip1 where pop: "ip_pop_string ?cf (pushed [0]) = (Some code, ip1)"
    by (cases "ip_pop_string ?cf (pushed [0])") auto
  have "perl_runs ?cf sample_world code" by (simp add: perl_runs_def sample_sysret_def WIFEXITED_def)
  then show ?thesis using perl_silent_crash [OF al pop] by (simp add: sample_sysret_def)
qed

text \<open>
  what Perl prints is what \<open>E\<close> pushes. When the output is shorter than the buffer and is there at the first \<open>read\<close>, \<open>E\<close> pushes it as a string.
\<close>

theorem perl_eval_output:
  assumes "cf_al cf = (\<lambda>_. True)" "ip_pop_string cf ip = (Some code, ip1)" "perl_runs cf w code"
    and "sr_value (cf_syscall cf (w_calls w + 4) Sys_read) \<noteq> - 1" "sr_bytes (cf_syscall cf (w_calls w + 4) Sys_read) = bs"
    and "bs \<noteq> []" "length bs < 1024"
  shows "\<exists>w'. finger_PERL_eval cf (ip, w) = Some (Running (ip_push_bytes (bs @ [0]) (length bs) ip1, w'))"
proof -
  obtain sb' where sb': "stringbuffer_append_buffer (cf_al cf) \<lparr>sb_buf = [], sb_size = 256\<rparr> bs (length bs) = Some sb'" "sb_buf sb' = map scast bs"
    using append_buffer_grown [of "cf_al cf" "\<lparr>sb_buf = [], sb_size = 256\<rparr>" bs] assms(1) by auto
  obtain w2 where w2: "w_calls w2 = w_calls w + 4" "run_perl cf (Some code) True w = read_loop cf True \<lparr>sb_buf = [], sb_size = 256\<rparr> w2"
    using run_perl_reads [OF assms(3,1)] by blast
  have "read_loop cf True \<lparr>sb_buf = [], sb_size = 256\<rparr> w2 = Some (Running (Some bs, snd (sys_call cf Sys_read w2)))"
    using assms(1,4-7) w2(1) sb'
    by (subst read_loop.simps) (simp add: sys_call_def Let_def stringbuffer_finish_def STRINGALLOCCHUNK_def comp_def ucast_scast_byte)
  then show ?thesis by (simp add: finger_PERL_eval_def assms(2) w2(2) bind_run_def)
qed

theorem perl_eval_output_witness:
  "\<exists>w' ip1. finger_PERL_eval (sample_config\<lparr>cf_syscall := \<lambda>_ _. sample_sysret\<lparr>sr_bytes := [52, 50]\<rparr>\<rparr>) (pushed [0], sample_world) =
     Some (Running (ip_push_bytes [52, 50, 0] 2 ip1, w'))"
proof -
  let ?cf = "sample_config\<lparr>cf_syscall := \<lambda>_ _. sample_sysret\<lparr>sr_bytes := [52, 50]\<rparr>\<rparr>"
  have al: "cf_al ?cf = (\<lambda>_. True)" by (simp add: sample_config_def)
  then have "fst (ip_pop_string ?cf (pushed [0])) \<noteq> None"
    by (simp add: ip_pop_string_def stack_pop_string_def split_beta)
  then obtain code ip1 where pop: "ip_pop_string ?cf (pushed [0]) = (Some code, ip1)"
    by (cases "ip_pop_string ?cf (pushed [0])") auto
  have "perl_runs ?cf sample_world code" by (simp add: perl_runs_def sample_sysret_def WIFEXITED_def)
  then show ?thesis using perl_eval_output [OF al pop, of sample_world "[52, 50]"] by (auto simp: sample_sysret_def numeral_2_eq_2)
qed

end
