(* ===== verification/Fp_Rexp.thy ===== *)
theory Fp_Rexp
  imports Strn
begin

text \<open>
  The fingerprint REXP, \<^verbatim>\<open>src/fingerprints/REXP/REXP.c\<close>. Compiling and matching are the parameter
  \<open>cf_regex\<close>; the compiled expression is kept as the pattern with its flags, the static variables as \<open>st_regex\<close>, \<open>None\<close>
  while \<open>compiled_valid\<close> is false, and \<open>st_compiled_nosub\<close>.
\<close>

section \<open>Instructions\<close>

definition MATCHSIZE :: nat where
  "MATCHSIZE = 128"

definition translate_flags_C :: "cell \<Rightarrow> regex_flags" where
  "translate_flags_C flags =
     \<lparr>re_extended = (flags AND 1 \<noteq> 0), re_icase = (flags AND 2 \<noteq> 0), re_nosub = (flags AND 4 \<noteq> 0),
      re_newline = (flags AND 8 \<noteq> 0)\<rparr>"

text \<open>\<open>REG_NOTBOL\<close> and \<open>REG_NOTEOL\<close>.\<close>

definition translate_flags_E :: "cell \<Rightarrow> bool \<times> bool" where
  "translate_flags_E flags = (flags AND 1 \<noteq> 0, flags AND 2 \<noteq> 0)"

fun translate_return_C :: "regex_error \<Rightarrow> cell" where
  "translate_return_C REG_BADBR = 1"
| "translate_return_C REG_BADPAT = 2"
| "translate_return_C REG_BADRPT = 3"
| "translate_return_C REG_EBRACE = 4"
| "translate_return_C REG_EBRACK = 5"
| "translate_return_C REG_ECOLLATE = 6"
| "translate_return_C REG_ECTYPE = 7"
| "translate_return_C REG_EESCAPE = 9"
| "translate_return_C REG_EPAREN = 10"
| "translate_return_C REG_ERANGE = 11"
| "translate_return_C REG_ESPACE = 13"
| "translate_return_C REG_ESUBREG = 14"
| "translate_return_C REG_unknown = - 1"

text \<open>
  One match: a 0, and the bytes between its ends; the length that is passed on is one less than their number, so for
  an empty match the greatest of all lengths, for which \<open>stack_push_string\<close> ends up with pushing nothing.
\<close>

definition push_match :: "byte list \<Rightarrow> nat \<times> nat \<Rightarrow> instructionPointer \<Rightarrow> instructionPointer" where
  "push_match str match ip =
     (let (so, eo) = match; ip = ip_push 0 ip
      in if eo = so then ip_set_stack (stack_prealloc_space (ip_stack ip) 0) ip
         else ip_push_bytes (drop so str) (eo - so - 1) ip)"

text \<open>The body of the loop over the matches, from the last one to the first.\<close>

definition push_part :: "(nat \<times> nat) option list \<Rightarrow> byte list \<Rightarrow> nat \<Rightarrow> cell \<times> instructionPointer \<Rightarrow> cell \<times> instructionPointer" where
  "push_part matches str i st =
     (let (num, ip) = st
      in case (if i < length matches then matches ! i else None) of
           None \<Rightarrow> (num, ip)
         | Some match \<Rightarrow> (num + 1, push_match str match ip))"

definition push_results :: "bool \<Rightarrow> (nat \<times> nat) option list \<Rightarrow> byte list \<Rightarrow> instructionPointer \<Rightarrow> instructionPointer" where
  "push_results nosub matches str ip =
     (if nosub then ip_push 0 ip
      else (let (num, ip) = fold (push_part matches str) (rev [0..<MATCHSIZE]) (0, ip) in ip_push num ip))"

definition set_regex :: "(byte list \<times> regex_flags) option \<Rightarrow> world \<Rightarrow> world" where
  "set_regex r w = w\<lparr>w_statics := (w_statics w)\<lparr>st_regex := r\<rparr>\<rparr>"

definition set_nosub :: "bool \<Rightarrow> world \<Rightarrow> world" where
  "set_nosub b w = w\<lparr>w_statics := (w_statics w)\<lparr>st_compiled_nosub := b\<rparr>\<rparr>"

text \<open>Compiling or matching the null pointer is a crash.\<close>

definition finger_REXP_compile :: operation where
  "finger_REXP_compile cf m =
     (let (ip, w) = m; (c, ip) = ip_pop ip; flags = translate_flags_C c; (str, ip) = ip_pop_string cf ip
      in case str of
           None \<Rightarrow> Some Crashed
         | Some str \<Rightarrow>
             (case rx_comp (cf_regex cf) str flags of
                Some err \<Rightarrow> Some (Running (ip_push (translate_return_C err) (ip_reverse ip), set_regex None w))
              | None \<Rightarrow> Some (Running (ip, set_nosub (re_nosub flags) (set_regex (Some (str, flags)) w)))))"

definition finger_REXP_execute :: operation where
  "finger_REXP_execute cf m =
     (let (ip, w) = m
      in case st_regex (w_statics w) of
           None \<Rightarrow> Some (Running (ip_reverse ip, w))
         | Some (pattern, cflags) \<Rightarrow>
             (let (c, ip) = ip_pop ip; (notbol, noteol) = translate_flags_E c; (str, ip) = ip_pop_string cf ip
              in case str of
                   None \<Rightarrow> Some Crashed
                 | Some str \<Rightarrow>
                     (case rx_exec (cf_regex cf) pattern cflags str notbol noteol of
                        Some matches \<Rightarrow> Some (Running (push_results (st_compiled_nosub (w_statics w)) matches str ip, w))
                      | None \<Rightarrow> Some (Running (ip_reverse ip, w)))))"

definition finger_REXP_free :: "mach \<Rightarrow> mach" where
  "finger_REXP_free m = (let (ip, w) = m in (ip, set_regex None w))"

definition REXP_operations :: "(string \<times> operation) list" where
  "REXP_operations =
     [(''compile'', finger_REXP_compile), (''execute'', finger_REXP_execute), (''free'', returns finger_REXP_free)]"

section \<open>The frame\<close>

lemma frame_set_regex [frames]: "frame (ip, set_regex r w) = frame (ip, w)" "frame (ip, set_nosub b w) = frame (ip, w)"
  by (simp_all add: set_regex_def set_nosub_def frames)

lemma frame_push_match [frames]: "frame (push_match str match ip, w) = frame (ip, w)"
  by (simp add: push_match_def split_beta Let_def frames)

lemma frame_match_fold [frames]: "frame (snd (fold (push_part ms str) is p), w) = frame (snd p, w)"
  by (induction "is" arbitrary: p) (auto simp: push_part_def split_beta Let_def frames split: option.split)

lemma frame_push_results [frames]: "frame (push_results nosub ms str ip, w) = frame (ip, w)"
  by (simp add: push_results_def split_beta Let_def frames)

lemma REXP_keeps_frame: "\<forall>(name, operation) \<in> set REXP_operations. keeps_frame operation"
proof -
  have "keeps_frame finger_REXP_compile" "keeps_frame finger_REXP_execute"
    by (auto simp: keeps_frame_def finger_REXP_compile_def finger_REXP_execute_def Let_def split_beta frames split: option.splits)
  moreover have "keeps_frame (returns finger_REXP_free)"
    by (rule keeps_frame_returns) (simp add: finger_REXP_free_def split_beta frames)
  ultimately show ?thesis by (simp add: REXP_operations_def)
qed

lemma REXP_crash_free: "\<forall>(name, operation) \<in> set REXP_operations. crash_free operation"
proof -
  have "crash_free finger_REXP_compile" "crash_free finger_REXP_execute"
    unfolding crash_free_def benign_def finger_REXP_compile_def finger_REXP_execute_def
    by (auto simp: Let_def split_beta ip_pop_string_def stack_pop_string_def split: option.split)
  then show ?thesis by (simp add: REXP_operations_def crash_free_returns)
qed

section \<open>What a match leaves on the stack\<close>

text \<open>The bytes between the ends of a match, as a string on the stack.\<close>

definition match_cells :: "byte list \<Rightarrow> nat \<times> nat \<Rightarrow> cell list" where
  "match_cells str match = (let (so, eo) = match in 0 # map ucast (rev (drop so (take eo str))))"

lemma toss_push_match:
  assumes "so \<le> eo" "eo \<le> length str"
  shows "toss (push_match str (so, eo) ip) = toss ip @ match_cells str (so, eo)"
proof (cases "eo = so")
  case True
  then show ?thesis by (simp add: push_match_def match_cells_def Let_def ip_simps stack_simps stack_list_toss)
next
  case False
  then have "eo - so - 1 < length (drop so str)" "Suc (eo - so - 1) = eo - so" using assms by auto
  moreover from this have "take (Suc (eo - so - 1)) (drop so str) = drop so (take eo str)"
    using assms(1) by (simp add: drop_take)
  ultimately show ?thesis
    using False
    by (simp add: push_match_def match_cells_def Let_def ip_push_bytes_def ip_simps stack_list_push_string stack_list_toss)
qed

definition present :: "'a option list \<Rightarrow> 'a list" where
  "present ms = map the (filter (\<lambda>m. m \<noteq> None) ms)"

lemma present_snoc: "present (xs @ [x]) = present xs @ (case x of None \<Rightarrow> [] | Some y \<Rightarrow> [y])"
  by (simp add: present_def split: option.split)

lemma match_fold:
  assumes "\<forall>so eo. Some (so, eo) \<in> set ms \<longrightarrow> so \<le> eo \<and> eo \<le> length str"
    and "fold (push_part ms str) (rev [0..<n]) (num, ip) = (num', ip')"
  shows "num' = num + of_nat (length (present (take n ms))) \<and>
    toss ip' = toss ip @ concat (map (match_cells str) (rev (present (take n ms))))"
  using assms(2)
proof (induction n arbitrary: num ip)
  case 0 then show ?case by (simp add: present_def)
next
  case (Suc n)
  have run: "fold (push_part ms str) (rev [0..<n]) (push_part ms str n (num, ip)) = (num', ip')"
    using Suc.prems by simp
  show ?case
  proof (cases "if n < length ms then ms ! n else None")
    case None
    then have "present (take (Suc n) ms) = present (take n ms)"
      by (cases "n < length ms") (simp_all add: present_snoc take_Suc_conv_app_nth)
    moreover have "push_part ms str n (num, ip) = (num, ip)" by (simp add: push_part_def None)
    ultimately show ?thesis using Suc.IH run by simp
  next
    case (Some m)
    then obtain so eo where m: "n < length ms" "ms ! n = Some (so, eo)" by (cases m) (auto split: if_splits)
    have "so \<le> eo \<and> eo \<le> length str" using assms(1) m nth_mem [of n ms] by metis
    then have "toss (push_match str (so, eo) ip) = toss ip @ match_cells str (so, eo)" by (simp add: toss_push_match)
    moreover have "push_part ms str n (num, ip) = (num + 1, push_match str (so, eo) ip)" by (simp add: push_part_def m)
    moreover have "present (take (Suc n) ms) = present (take n ms) @ [(so, eo)]"
      by (simp add: m present_snoc take_Suc_conv_app_nth)
    ultimately show ?thesis using Suc.IH [of "num + 1" "push_match str (so, eo) ip"] run by simp
  qed
qed

text \<open>Pushing the matches changes the stack of the pointer only.\<close>

lemma push_match_stack: "\<exists>s. push_match str match (ip_set_stack u ip) = ip_set_stack s ip"
  by (simp add: push_match_def Let_def split_beta ip_push_def ip_push_bytes_def ip_simps) blast

lemma push_parts_stack:
  "\<exists>s. snd (fold (push_part ms str) is (num, ip_set_stack u ip)) = ip_set_stack s ip"
proof (induction "is" arbitrary: num u)
  case (Cons i "is")
  obtain num' u' where "push_part ms str i (num, ip_set_stack u ip) = (num', ip_set_stack u' ip)"
    using push_match_stack [of str _ u ip] by (cases "if i < length ms then ms ! i else None") (auto simp: push_part_def)
  then show ?case using Cons.IH by simp
qed auto

section \<open>Properties\<close>

text \<open>
  C35: what \<open>E\<close> leaves of a match. With memory at hand, with the flags and a string on the stack and a compiled expression that reports its matches, \<open>E\<close> pushes the number of
  parts that took part in the match and, below it, each of them as a string, the whole match on top; also a part that is empty, for which the length that the code
  passes on wraps around. Nothing else changes: the pointer is the one before but for its stack, so it does not reflect, and the world is the same.
\<close>

theorem rexp_execute_matches:
  assumes "st_regex (w_statics w) = Some (pattern, cflags)" "\<not> st_compiled_nosub (w_statics w)"
    and "toss ip = rest @ 0 # map ucast (rev str) @ [c]" "0 \<notin> set str" "\<And>n. cf_al cf n"
    and "rx_exec (cf_regex cf) pattern cflags str (c AND 1 \<noteq> 0) (c AND 2 \<noteq> 0) = Some ms" "length ms \<le> 128"
    and "\<forall>so eo. Some (so, eo) \<in> set ms \<longrightarrow> so \<le> eo \<and> eo \<le> length str"
  shows "\<exists>s. finger_REXP_execute cf (ip, w) = Some (Running (ip_set_stack s ip, w)) \<and>
    stack_list s = rest @ concat (map (match_cells str) (rev (present ms))) @ [of_nat (length (present ms))]"
proof -
  obtain s where s: "ip_pop ip = (c, ip_set_stack s ip)" "toss (ip_set_stack s ip) = rest @ 0 # map ucast (rev str)"
    using ip_pop_top [of ip "rest @ 0 # map ucast (rev str)" c] assms(3) by (auto simp: ip_simps)
  obtain t where t: "ip_pop_string cf (ip_set_stack s ip) = (Some str, ip_set_stack t ip)" "toss (ip_set_stack t ip) = rest"
    using ip_pop_string_top [OF s(2) assms(4,5)] by (auto simp: ip_simps)
  obtain num ip' where fold: "fold (push_part ms str) (rev [0..<MATCHSIZE]) (0, ip_set_stack t ip) = (num, ip')" by fastforce
  have "num = of_nat (length (present ms))" "toss ip' = rest @ concat (map (match_cells str) (rev (present ms)))"
    using match_fold [OF assms(8) fold] assms(7) t(2) by (simp_all add: MATCHSIZE_def)
  moreover have "finger_REXP_execute cf (ip, w) = Some (Running (ip_push num ip', w))"
    by (simp add: finger_REXP_execute_def assms(1,2,6) s(1) t(1) translate_flags_E_def push_results_def fold)
  moreover obtain u where "ip' = ip_set_stack u ip"
    using push_parts_stack [of ms str "rev [0..<MATCHSIZE]" 0 t ip] fold by auto
  ultimately show ?thesis by (auto simp: ip_push_def ip_simps toss_def stack_simps stack_list_toss)
qed

text \<open>An expression with two parts, of which the second one is empty, on the string \<open>xab\<close>.\<close>

theorem rexp_execute_matches_witness:
  "\<exists>s. finger_REXP_execute (sample_config\<lparr>cf_regex := \<lparr>rx_comp = \<lambda>_ _. None,
       rx_exec = \<lambda>_ _ _ _ _. Some [Some (1, 3), None, Some (3, 3)]\<rparr>\<rparr>)
     (pushed [0, 98, 97, 120, 0], set_regex (Some ([97], translate_flags_C 0)) sample_world) =
       Some (Running (ip_set_stack s (pushed [0, 98, 97, 120, 0]), set_regex (Some ([97], translate_flags_C 0)) sample_world)) \<and>
     stack_list s = [7, 8] @ [0] @ [0, 98, 97] @ [2]"
proof -
  let ?cf = "sample_config\<lparr>cf_regex := \<lparr>rx_comp = \<lambda>_ _. None, rx_exec = \<lambda>_ _ _ _ _. Some [Some (1, 3), None, Some (3, 3)]\<rparr>\<rparr>"
  let ?w = "set_regex (Some ([97], translate_flags_C 0)) sample_world" and ?ip = "pushed [0, 98, 97, 120, 0]"
  have "st_regex (w_statics ?w) = Some ([97], translate_flags_C 0)" "\<not> st_compiled_nosub (w_statics ?w)"
    by (simp_all add: set_regex_def sample_world_def initial_statics_def)
  moreover have "toss ?ip = [7, 8] @ 0 # map ucast (rev [120, 97, 98 :: byte]) @ [0]" by simp
  moreover have "0 \<notin> set [120, 97, 98 :: byte]" "cf_al ?cf n" for n by (simp_all add: sample_config_def)
  ultimately have "\<exists>s. finger_REXP_execute ?cf (?ip, ?w) = Some (Running (ip_set_stack s ?ip, ?w)) \<and>
    stack_list s = [7, 8] @ concat (map (match_cells [120, 97, 98]) (rev (present [Some (1, 3), None, Some (3, 3)]))) @
      [of_nat (length (present [Some (1 :: nat, 3 :: nat), None, Some (3, 3)]))]"
    by (intro rexp_execute_matches) auto
  then show ?thesis by (simp add: match_cells_def present_def numeral_3_eq_3)
qed

end
