(* ===== verification/Fp_Term.thy ===== *)
theory Fp_Term
  imports Operation
begin

text \<open>
  The fingerprints NCRS, \<^verbatim>\<open>src/fingerprints/NCRS/NCRS.c\<close>, and TERM, \<^verbatim>\<open>src/fingerprints/TERM/TERM.c\<close>. They share the
  terminal: both use what the curses library calls the current terminal, which TERM makes by \<open>setupterm\<close> and NCRS by
  \<open>newterm\<close>, and either has to mind what the other does. The calls of the library are a parameter.
\<close>

section \<open>The curses library\<close>

text \<open>A call of the library may write to standard output; it does not touch files.\<close>

definition term_call :: "config \<Rightarrow> term_op \<Rightarrow> world \<Rightarrow> sysret \<times> world" where
  "term_call cf c w =
     (let ret = cf_syscall cf (w_calls w) (Sys_term c)
      in (ret, w\<lparr>w_calls := w_calls w + 1, w_output := w_output w @ sr_bytes ret\<rparr>))"

definition ERR :: "32 word" where
  "ERR = - 1"

definition term_value :: "config \<Rightarrow> term_op \<Rightarrow> world \<Rightarrow> 32 word \<times> world" where
  "term_value cf c w = (let (ret, w) = term_call cf c w in (ucast (sr_value ret), w))"

definition set_statics :: "(statics \<Rightarrow> statics) \<Rightarrow> world \<Rightarrow> world" where
  "set_statics f w = w\<lparr>w_statics := f (w_statics w)\<rparr>"

text \<open>
  As documented, \<open>setupterm\<close> makes a terminal the current one, also when it complains that it is a hard-copy one (the error is 1
  then), and after \<open>del_curterm\<close> or \<open>delscreen\<close> there is none.
\<close>

definition setupterm :: "config \<Rightarrow> world \<Rightarrow> bool \<times> world" where
  "setupterm cf w =
     (let (ret, w) = term_call cf Term_setupterm w
      in if ucast (sr_value ret) \<noteq> (0 :: 32 word) \<and> sr_addr ret \<le>s 0 then (False, w)
         else (True, set_statics (\<lambda>st. st\<lparr>st_cur_term := True\<rparr>) w))"

definition del_curterm :: "world \<Rightarrow> world" where
  "del_curterm = set_statics (\<lambda>st. st\<lparr>st_cur_term := False\<rparr>)"

section \<open>TERM\<close>

text \<open>A capability such as \<open>clear_screen\<close> is read through the pointer to the current terminal.\<close>

definition term_capability :: "config \<Rightarrow> capability \<Rightarrow> world \<Rightarrow> world result option" where
  "term_capability cf c w =
     (let (ret, w') = term_call cf (Term_capability c) w
      in if \<not> st_cur_term (w_statics w) \<and> sr_flag ret then Some Crashed else Some (Running w'))"

definition putp :: "config \<Rightarrow> capability \<Rightarrow> world \<Rightarrow> world result option" where
  "putp cf c w = bind_run (term_capability cf c w) (\<lambda>w. Some (Running (snd (term_call cf (Term_putp c) w))))"

fun putp_times :: "config \<Rightarrow> capability \<Rightarrow> nat \<Rightarrow> world \<Rightarrow> world result option" where
  "putp_times cf c 0 w = Some (Running w)"
| "putp_times cf c (Suc n) w = bind_run (putp cf c w) (putp_times cf c n)"

definition with_ip_of :: "instructionPointer \<Rightarrow> world result option \<Rightarrow> mach result option" where
  "with_ip_of ip r = bind_run r (\<lambda>w. Some (Running (ip, w)))"

definition finger_TERM_clear_screen :: "config \<Rightarrow> mach \<Rightarrow> mach result option" where
  "finger_TERM_clear_screen cf m = (let (ip, w) = m in with_ip_of ip (putp cf Clear_screen w))"

definition finger_TERM_go_down :: "config \<Rightarrow> mach \<Rightarrow> mach result option" where
  "finger_TERM_go_down cf m =
     (let (ip, w) = m; (n, ip) = ip_pop ip
      in if n = 0 then Some (Running (ip, w))
         else if n <s 0 then with_ip_of ip (putp_times cf Cursor_up (nat (- sint n)) w)
         else with_ip_of ip (putp_times cf Cursor_down (nat (sint n)) w))"

definition finger_TERM_goto_xy :: "config \<Rightarrow> mach \<Rightarrow> mach result option" where
  "finger_TERM_goto_xy cf m =
     (let (ip, w) = m; (x, ip) = ip_pop ip; (y, ip) = ip_pop ip
      in bind_run (term_capability cf Cursor_address w) (\<lambda>w.
           let (s, w) = term_call cf (Term_tparm (ucast x) (ucast y)) w
           in Some (Running (if \<not> sr_flag s then (ip_reverse ip, w)
                             else (ip, snd (term_call cf (Term_putp Cursor_address) w))))))"

definition finger_TERM_go_home :: "config \<Rightarrow> mach \<Rightarrow> mach result option" where
  "finger_TERM_go_home cf m = (let (ip, w) = m in with_ip_of ip (putp cf Cursor_home w))"

definition finger_TERM_clear_to_eol :: "config \<Rightarrow> mach \<Rightarrow> mach result option" where
  "finger_TERM_clear_to_eol cf m = (let (ip, w) = m in with_ip_of ip (putp cf Clr_eol w))"

definition finger_TERM_clear_to_eos :: "config \<Rightarrow> mach \<Rightarrow> mach result option" where
  "finger_TERM_clear_to_eos cf m = (let (ip, w) = m in with_ip_of ip (putp cf Clr_eos w))"

definition finger_TERM_go_up :: "config \<Rightarrow> mach \<Rightarrow> mach result option" where
  "finger_TERM_go_up cf m =
     (let (ip, w) = m; (n, ip) = ip_pop ip
      in if n = 0 then Some (Running (ip, w))
         else if n <s 0 then with_ip_of ip (putp_times cf Cursor_down (nat (- sint n)) w)
         else with_ip_of ip (putp_times cf Cursor_up (nat (sint n)) w))"

definition finger_NCRS_need_setupterm :: "world \<Rightarrow> bool" where
  "finger_NCRS_need_setupterm w \<longleftrightarrow> \<not> st_ncrs_valid_state (w_statics w)"

text \<open>
  \<open>initialise\<close>, which the loader calls. The terminal that \<open>enter_ca_mode\<close> is read from is the one that has just been
  set up, or the one of the screen of NCRS. The clean-up at the exit of the process is left out.
\<close>

definition setup_TERM :: "config \<Rightarrow> world \<Rightarrow> bool \<times> world" where
  "setup_TERM cf w =
     (if st_term_initialised (w_statics w) then (True, w)
      else
        (let (okay, w) = (if finger_NCRS_need_setupterm w then setupterm cf w else (True, w))
         in if \<not> okay then (False, w)
            else (True, set_statics (\<lambda>st. st\<lparr>st_term_initialised := True\<rparr>)
                          (snd (term_call cf (Term_putp Enter_ca_mode) w)))))"

definition finger_TERM_fix_before_NCRS_init :: "world \<Rightarrow> world" where
  "finger_TERM_fix_before_NCRS_init w = (if \<not> st_term_initialised (w_statics w) then w else del_curterm w)"

definition finger_TERM_fix_after_NCRS_teardown :: "config \<Rightarrow> world \<Rightarrow> world" where
  "finger_TERM_fix_after_NCRS_teardown cf w =
     (if \<not> st_term_initialised (w_statics w) then w else snd (setupterm cf w))"

definition TERM_operations :: "(string \<times> operation) list" where
  "TERM_operations =
     [(''clear_screen'', finger_TERM_clear_screen), (''go_down'', finger_TERM_go_down),
      (''goto_xy'', finger_TERM_goto_xy), (''go_home'', finger_TERM_go_home),
      (''clear_to_eol'', finger_TERM_clear_to_eol), (''clear_to_eos'', finger_TERM_clear_to_eos),
      (''go_up'', finger_TERM_go_up)]"

section \<open>NCRS\<close>

text \<open>Most instructions reflect unless the state is valid, and if the call of the library fails.\<close>

definition ncrs_do :: "config \<Rightarrow> term_op option \<Rightarrow> mach \<Rightarrow> mach" where
  "ncrs_do cf c m =
     (let (ip, w) = m
      in if \<not> st_ncrs_valid_state (w_statics w) then (ip_reverse ip, w)
         else case c of
                None \<Rightarrow> (ip_reverse ip, w)
              | Some c \<Rightarrow> (let (r, w) = term_value cf c w in (if r = ERR then ip_reverse ip else ip, w)))"

definition finger_NCRS_beep :: "config \<Rightarrow> mach \<Rightarrow> mach" where
  "finger_NCRS_beep cf m = ncrs_do cf (Some Term_beep) m"

definition finger_NCRS_clear :: "config \<Rightarrow> mach \<Rightarrow> mach" where
  "finger_NCRS_clear cf m =
     (let (ip, w) = m; (value, ip) = ip_pop ip
      in ncrs_do cf
           (if value = 0 then Some Term_werase else if value = 1 then Some Term_wclrtoeol
            else if value = 2 then Some Term_wclrtobot else None) (ip, w))"

definition finger_NCRS_toggle_echo :: "config \<Rightarrow> mach \<Rightarrow> mach" where
  "finger_NCRS_toggle_echo cf m =
     (let (ip, w) = m; (value, ip) = ip_pop ip
      in ncrs_do cf (if value = 0 then Some (Term_echo False) else if value = 1 then Some (Term_echo True) else None) (ip, w))"

definition finger_NCRS_get :: "config \<Rightarrow> mach \<Rightarrow> mach" where
  "finger_NCRS_get cf m =
     (let (ip, w) = m
      in if \<not> st_ncrs_valid_state (w_statics w) then (ip_reverse ip, w)
         else (let (r, w) = term_value cf Term_wgetch w; value = scast r
               in if value = scast ERR then (ip_reverse ip, w) else (ip_push value ip, w)))"

text \<open>\<open>delwin\<close> fails, as documented, when it is given the null pointer.\<close>

definition finger_NCRS_init :: "config \<Rightarrow> mach \<Rightarrow> mach" where
  "finger_NCRS_init cf m =
     (let (ip, w) = m; (v, ip) = ip_pop ip;
          fail = (\<lambda>w. (ip_reverse ip, set_statics (\<lambda>st. st\<lparr>st_ncrs_valid_state := False\<rparr>) w))
      in if v = 1 then
           (let w = finger_TERM_fix_before_NCRS_init w; (screen, w) = term_call cf Term_newterm w;
                w = set_statics (\<lambda>st. st\<lparr>st_ncrs_screen := sr_flag screen, st_cur_term := (sr_flag screen \<or> st_cur_term st)\<rparr>) w
            in if \<not> sr_flag screen then fail w
               else
                 (let (window, w) = term_call cf Term_newwin w;
                      w = set_statics (\<lambda>st. st\<lparr>st_ncrs_window := sr_flag window\<rparr>) w
                  in if \<not> sr_flag window then fail w
                     else (ip, set_statics (\<lambda>st. st\<lparr>st_ncrs_initialised := True, st_ncrs_valid_state := True\<rparr>) w)))
         else if \<not> st_ncrs_initialised (w_statics w) then fail w
         else
           (let (r, w) = term_value cf Term_endwin w
            in if r = ERR then fail w
               else
                 (let (r, w) = term_value cf Term_delwin w
                  in if r = ERR \<or> \<not> st_ncrs_window (w_statics w) then fail w
                     else
                       (ip, finger_TERM_fix_after_NCRS_teardown cf
                              (set_statics (\<lambda>st. st\<lparr>st_cur_term := False, st_ncrs_screen := False, st_ncrs_window := False,
                                 st_ncrs_valid_state := False\<rparr>) w)))))"

definition finger_NCRS_toggle_keypad :: "config \<Rightarrow> mach \<Rightarrow> mach" where
  "finger_NCRS_toggle_keypad cf m =
     (let (ip, w) = m; (value, ip) = ip_pop ip
      in ncrs_do cf (if value = 0 then Some (Term_keypad False) else if value = 1 then Some (Term_keypad True) else None) (ip, w))"

definition finger_NCRS_goto_xy :: "config \<Rightarrow> mach \<Rightarrow> mach" where
  "finger_NCRS_goto_xy cf m =
     (let (ip, w) = m; (v, ip) = ip_pop_vector ip
      in ncrs_do cf (Some (Term_wmove (ucast (vec_y v)) (ucast (vec_x v)))) (ip, w))"

definition finger_NCRS_toggle_input :: "config \<Rightarrow> mach \<Rightarrow> mach" where
  "finger_NCRS_toggle_input cf m =
     (let (ip, w) = m; (value, ip) = ip_pop ip
      in ncrs_do cf (if value = 0 then Some (Term_cbreak True) else if value = 1 then Some (Term_cbreak False) else None) (ip, w))"

definition finger_NCRS_put :: "config \<Rightarrow> mach \<Rightarrow> mach" where
  "finger_NCRS_put cf m = (let (ip, w) = m; (value, ip) = ip_pop ip in ncrs_do cf (Some (Term_waddch value)) (ip, w))"

definition finger_NCRS_refresh :: "config \<Rightarrow> mach \<Rightarrow> mach" where
  "finger_NCRS_refresh cf m = ncrs_do cf (Some Term_wrefresh) m"

definition finger_NCRS_write :: "config \<Rightarrow> mach \<Rightarrow> mach" where
  "finger_NCRS_write cf m =
     (let (ip, w) = m; (str, ip) = ip_pop_string cf ip in ncrs_do cf (Some (Term_waddstr str)) (ip, w))"

definition finger_NCRS_unget :: "config \<Rightarrow> mach \<Rightarrow> mach" where
  "finger_NCRS_unget cf m = (let (ip, w) = m; (value, ip) = ip_pop ip in ncrs_do cf (Some (Term_ungetch value)) (ip, w))"

definition NCRS_operations :: "(string \<times> operation) list" where
  "NCRS_operations =
     [(''beep'', \<lambda>cf. returns (finger_NCRS_beep cf) cf), (''clear'', \<lambda>cf. returns (finger_NCRS_clear cf) cf),
      (''toggle_echo'', \<lambda>cf. returns (finger_NCRS_toggle_echo cf) cf), (''get'', \<lambda>cf. returns (finger_NCRS_get cf) cf),
      (''init'', \<lambda>cf. returns (finger_NCRS_init cf) cf),
      (''toggle_keypad'', \<lambda>cf. returns (finger_NCRS_toggle_keypad cf) cf),
      (''goto_xy'', \<lambda>cf. returns (finger_NCRS_goto_xy cf) cf),
      (''toggle_input'', \<lambda>cf. returns (finger_NCRS_toggle_input cf) cf),
      (''put'', \<lambda>cf. returns (finger_NCRS_put cf) cf), (''refresh'', \<lambda>cf. returns (finger_NCRS_refresh cf) cf),
      (''write'', \<lambda>cf. returns (finger_NCRS_write cf) cf), (''unget'', \<lambda>cf. returns (finger_NCRS_unget cf) cf)]"

section \<open>The frame\<close>

lemma frame_term_call [frames]:
  "frame (ip, snd (term_call cf c w)) = frame (ip, w)" "frame (ip, snd (term_value cf c w)) = frame (ip, w)"
  "frame (ip, set_statics f w) = frame (ip, w)"
  by (simp_all add: term_call_def term_value_def set_statics_def split_beta Let_def frames)

lemma frame_terminal [frames]:
  "frame (ip, snd (setupterm cf w)) = frame (ip, w)" "frame (ip, del_curterm w) = frame (ip, w)"
  "frame (ip, finger_TERM_fix_before_NCRS_init w) = frame (ip, w)"
  "frame (ip, finger_TERM_fix_after_NCRS_teardown cf w) = frame (ip, w)"
  "frame (ip, snd (setup_TERM cf w)) = frame (ip, w)"
  by (simp_all add: setupterm_def del_curterm_def finger_TERM_fix_before_NCRS_init_def
      finger_TERM_fix_after_NCRS_teardown_def setup_TERM_def split_beta Let_def frames)

lemma frame_ncrs_do [frames]: "frame (ncrs_do cf c m) = frame m"
  by (cases m) (simp add: ncrs_do_def split_beta Let_def frames split: option.split)

lemma frame_NCRS [frames]:
  "frame (finger_NCRS_beep cf m) = frame m" "frame (finger_NCRS_clear cf m) = frame m"
  "frame (finger_NCRS_toggle_echo cf m) = frame m" "frame (finger_NCRS_get cf m) = frame m"
  "frame (finger_NCRS_init cf m) = frame m" "frame (finger_NCRS_toggle_keypad cf m) = frame m"
  "frame (finger_NCRS_goto_xy cf m) = frame m" "frame (finger_NCRS_toggle_input cf m) = frame m"
  "frame (finger_NCRS_put cf m) = frame m" "frame (finger_NCRS_refresh cf m) = frame m"
  "frame (finger_NCRS_write cf m) = frame m" "frame (finger_NCRS_unget cf m) = frame m"
  by (simp_all add: finger_NCRS_beep_def finger_NCRS_clear_def finger_NCRS_toggle_echo_def finger_NCRS_get_def
      finger_NCRS_init_def finger_NCRS_toggle_keypad_def finger_NCRS_goto_xy_def finger_NCRS_toggle_input_def
      finger_NCRS_put_def finger_NCRS_refresh_def finger_NCRS_write_def finger_NCRS_unget_def split_beta Let_def frames)

lemma NCRS_keeps_frame: "\<forall>(name, operation) \<in> set NCRS_operations. keeps_frame operation"
  by (simp add: NCRS_operations_def keeps_frame_config frames)

lemma NCRS_crash_free: "\<forall>(name, operation) \<in> set NCRS_operations. crash_free operation"
  by (simp add: NCRS_operations_def crash_free_returns)

lemmas bind_run_cases = bind_run_Running bind_run_Crashed

lemma frame_putp: "putp cf c w = Some (Running w') \<Longrightarrow> frame (ip, w') = frame (ip, w)"
  by (auto simp: putp_def term_capability_def bind_run_cases split_beta Let_def frames split: if_splits)

lemma frame_putp_times: "putp_times cf c n w = Some (Running w') \<Longrightarrow> frame (ip, w') = frame (ip, w)"
  by (induction n arbitrary: w) (auto simp: bind_run_cases frame_putp)

lemma TERM_frames:
  "with_ip_of ip (putp cf c w) = Some (Running m') \<Longrightarrow> frame m' = frame (ip, w)"
  "with_ip_of ip (putp_times cf c n w) = Some (Running m') \<Longrightarrow> frame m' = frame (ip, w)"
  by (auto simp: with_ip_of_def bind_run_cases frame_putp frame_putp_times)

lemma TERM_keeps_frame: "\<forall>(name, operation) \<in> set TERM_operations. keeps_frame operation"
  by (auto simp: TERM_operations_def keeps_frame_def finger_TERM_clear_screen_def finger_TERM_go_down_def
      finger_TERM_goto_xy_def finger_TERM_go_home_def finger_TERM_clear_to_eol_def finger_TERM_clear_to_eos_def
      finger_TERM_go_up_def term_capability_def bind_run_cases split_beta Let_def frames dest!: TERM_frames split: if_splits)

section \<open>The shared terminal\<close>

text \<open>While NCRS has a valid state there are a screen, a window, and a current terminal.\<close>

definition terminal_ok :: "world \<Rightarrow> bool" where
  "terminal_ok w \<longleftrightarrow> (st_ncrs_valid_state (w_statics w) \<longrightarrow>
     st_ncrs_screen (w_statics w) \<and> st_ncrs_window (w_statics w) \<and> st_cur_term (w_statics w))"

lemma statics_term_call [simp]:
  "w_statics (snd (term_call cf c w)) = w_statics w" "w_statics (snd (term_value cf c w)) = w_statics w"
  "w_statics (set_statics f w) = f (w_statics w)"
  by (simp_all add: term_call_def term_value_def set_statics_def split_beta Let_def)

lemma terminal_setupterm: "terminal_ok w \<Longrightarrow> terminal_ok (snd (setupterm cf w))"
  by (simp add: setupterm_def terminal_ok_def split_beta Let_def)

lemma terminal_ncrs_do: "terminal_ok (snd m) \<Longrightarrow> terminal_ok (snd (ncrs_do cf c m))"
  by (cases m) (simp add: ncrs_do_def terminal_ok_def split_beta Let_def split: option.split)

lemma terminal_init: "terminal_ok (snd m) \<Longrightarrow> terminal_ok (snd (finger_NCRS_init cf m))"
  by (cases m) (simp add: finger_NCRS_init_def finger_TERM_fix_before_NCRS_init_def del_curterm_def
      finger_TERM_fix_after_NCRS_teardown_def setupterm_def terminal_ok_def split_beta Let_def)

lemma terminal_putp: "putp cf c w = Some (Running w') \<Longrightarrow> w_statics w' = w_statics w"
  by (auto simp: putp_def term_capability_def bind_run_cases split_beta Let_def split: if_splits)

lemma terminal_putp_times: "putp_times cf c n w = Some (Running w') \<Longrightarrow> w_statics w' = w_statics w"
  by (induction n arbitrary: w) (auto simp: bind_run_cases dest: terminal_putp)

lemma terminal_with_ip:
  "with_ip_of ip (putp cf c w) = Some (Running m') \<Longrightarrow> w_statics (snd m') = w_statics w"
  "with_ip_of ip (putp_times cf c n w) = Some (Running m') \<Longrightarrow> w_statics (snd m') = w_statics w"
  by (auto simp: with_ip_of_def bind_run_cases dest: terminal_putp terminal_putp_times)

lemma terminal_NCRS:
  assumes "terminal_ok (snd m)"
  shows "terminal_ok (snd (finger_NCRS_beep cf m))" "terminal_ok (snd (finger_NCRS_clear cf m))"
    "terminal_ok (snd (finger_NCRS_toggle_echo cf m))"
    "terminal_ok (snd (finger_NCRS_toggle_keypad cf m))" "terminal_ok (snd (finger_NCRS_goto_xy cf m))"
    "terminal_ok (snd (finger_NCRS_toggle_input cf m))" "terminal_ok (snd (finger_NCRS_put cf m))"
    "terminal_ok (snd (finger_NCRS_refresh cf m))" "terminal_ok (snd (finger_NCRS_write cf m))"
    "terminal_ok (snd (finger_NCRS_unget cf m))"
  using assms
  by (simp_all add: finger_NCRS_beep_def finger_NCRS_clear_def finger_NCRS_toggle_echo_def
      finger_NCRS_toggle_keypad_def finger_NCRS_goto_xy_def finger_NCRS_toggle_input_def finger_NCRS_put_def
      finger_NCRS_refresh_def finger_NCRS_write_def finger_NCRS_unget_def split_beta Let_def terminal_ncrs_do)

lemma terminal_get: "terminal_ok (snd m) \<Longrightarrow> terminal_ok (snd (finger_NCRS_get cf m))"
  by (simp add: finger_NCRS_get_def terminal_ok_def split_beta Let_def)

lemma terminal_TERM:
  "finger_TERM_clear_screen cf m = Some (Running m') \<Longrightarrow> w_statics (snd m') = w_statics (snd m)"
  "finger_TERM_go_down cf m = Some (Running m') \<Longrightarrow> w_statics (snd m') = w_statics (snd m)"
  "finger_TERM_goto_xy cf m = Some (Running m') \<Longrightarrow> w_statics (snd m') = w_statics (snd m)"
  "finger_TERM_go_home cf m = Some (Running m') \<Longrightarrow> w_statics (snd m') = w_statics (snd m)"
  "finger_TERM_clear_to_eol cf m = Some (Running m') \<Longrightarrow> w_statics (snd m') = w_statics (snd m)"
  "finger_TERM_clear_to_eos cf m = Some (Running m') \<Longrightarrow> w_statics (snd m') = w_statics (snd m)"
  "finger_TERM_go_up cf m = Some (Running m') \<Longrightarrow> w_statics (snd m') = w_statics (snd m)"
  by (auto simp: finger_TERM_clear_screen_def finger_TERM_go_down_def
      finger_TERM_goto_xy_def finger_TERM_go_home_def finger_TERM_clear_to_eol_def finger_TERM_clear_to_eos_def
      finger_TERM_go_up_def term_capability_def bind_run_cases split_beta Let_def dest!: terminal_with_ip split: if_splits)

text \<open>While there is a current terminal no instruction of TERM goes through a null pointer.\<close>

lemma term_capability_no_crash: "st_cur_term (w_statics w) \<Longrightarrow> term_capability cf c w \<noteq> Some Crashed"
  by (simp add: term_capability_def split_beta Let_def)

lemma putp_no_crash: "st_cur_term (w_statics w) \<Longrightarrow> putp cf c w \<noteq> Some Crashed"
  by (auto simp: putp_def bind_run_cases term_capability_no_crash)

lemma putp_times_no_crash: "st_cur_term (w_statics w) \<Longrightarrow> putp_times cf c n w \<noteq> Some Crashed"
  by (induction n arbitrary: w) (auto simp: bind_run_cases putp_no_crash dest: terminal_putp)

lemma TERM_no_crash:
  assumes "(name, operation) \<in> set TERM_operations" "st_cur_term (w_statics (snd m))"
  shows "operation cf m \<noteq> Some Crashed"
  using assms
  by (cases m) (auto simp: TERM_operations_def finger_TERM_clear_screen_def finger_TERM_go_down_def
      finger_TERM_goto_xy_def finger_TERM_go_home_def finger_TERM_clear_to_eol_def finger_TERM_clear_to_eos_def
      finger_TERM_go_up_def with_ip_of_def bind_run_cases split_beta Let_def putp_no_crash putp_times_no_crash
      term_capability_no_crash split: if_splits)

text \<open>
  Every instruction of NCRS and TERM keeps this, and so does the set-up of TERM: NCRS never works on a window that is
  not there.
\<close>

theorem terminal_kept:
  assumes "(name, operation) \<in> set (NCRS_operations @ TERM_operations)" "operation cf m = Some (Running m')"
    and "terminal_ok (snd m)"
  shows "terminal_ok (snd m') \<and> terminal_ok (snd (setup_TERM cf (snd m)))"
proof
  show "terminal_ok (snd (setup_TERM cf (snd m)))"
    using assms(3) terminal_setupterm [OF assms(3), of cf]
    by (simp add: setup_TERM_def terminal_ok_def split_beta Let_def)
  have "(name, operation) \<in> set NCRS_operations \<or> (name, operation) \<in> set TERM_operations" using assms(1) by simp
  then show "terminal_ok (snd m')"
  proof
    assume "(name, operation) \<in> set NCRS_operations"
    then show ?thesis
      using assms(2,3) unfolding NCRS_operations_def returns_def
      by (auto intro: terminal_NCRS terminal_get terminal_init)
  next
    assume "(name, operation) \<in> set TERM_operations"
    then have "w_statics (snd m') = w_statics (snd m)"
      using assms(2) unfolding TERM_operations_def by (auto dest: terminal_TERM)
    then show ?thesis using assms(3) by (simp only: terminal_ok_def)
  qed
qed

text \<open>
  TERM has no such care: before NCRS starts, the terminal of TERM is deleted; if the start fails then, TERM still takes itself for
  initialised, and its next instruction reads through the pointer to the terminal that is no more.
\<close>

theorem term_after_failed_ncrs:
  assumes "st_term_initialised (w_statics w)" "toss ip = rest @ [1]"
    and "\<And>n. \<not> sr_flag (cf_syscall cf n (Sys_term Term_newterm))"
    and "\<And>n. sr_flag (cf_syscall cf n (Sys_term (Term_capability Clear_screen)))"
  shows "finger_TERM_clear_screen cf (finger_NCRS_init cf (ip, w)) = Some Crashed"
proof -
  obtain s where pop: "ip_pop ip = (1, ip_set_stack s ip)" using ip_pop_top [OF assms(2)] by blast
  show ?thesis
    using assms(1,3,4)
    by (simp add: finger_NCRS_init_def pop finger_TERM_fix_before_NCRS_init_def del_curterm_def finger_TERM_clear_screen_def
        with_ip_of_def putp_def term_capability_def term_call_def set_statics_def bind_run_def split_beta Let_def)
qed

end
