(* ===== verification/Dispatch.thy ===== *)
theory Dispatch
  imports Toys Strn Fp_Base Fp_Cpli Fp_Date Fp_Time Fp_Turt Fp_3dsp Fp_File Fp_Sock Fp_Perl Fp_Rexp Fp_Term
begin

text \<open>
  Calling the instruction that an opcode stack holds: in C a call through a function pointer, here
  a case distinction on the name of the instruction. The fingerprints that have their own theory
  come with a table of their instructions.
\<close>

section \<open>The instructions of the small fingerprints\<close>

definition call_finger :: "config \<Rightarrow> fingerprintOpcode \<Rightarrow> mach \<Rightarrow> mach" where
  "call_finger cf func m =
     (let (ip, w) = m in
      case func of
        Fp_reflect \<Rightarrow> (do_reflect ip, w)
      | Fp_NULL_reverse \<Rightarrow> (finger_NULL_reverse ip, w)
      | Fp_BOOL f \<Rightarrow>
          ((case f of BOOL_and \<Rightarrow> finger_BOOL_and | BOOL_not \<Rightarrow> finger_BOOL_not
            | BOOL_or \<Rightarrow> finger_BOOL_or | BOOL_xor \<Rightarrow> finger_BOOL_xor) ip, w)
      | Fp_ROMA f \<Rightarrow> (finger_ROMA_push f ip, w)
      | Fp_MODU f \<Rightarrow>
          ((case f of MODU_signed_result \<Rightarrow> finger_MODU_signed_result
            | MODU_unsigned_result \<Rightarrow> finger_MODU_unsigned_result
            | MODU_remainder \<Rightarrow> finger_MODU_remainder) ip, w)
      | Fp_FING f \<Rightarrow>
          ((case f of FING_swap \<Rightarrow> finger_FING_swap (cf_al cf) | FING_drop \<Rightarrow> finger_FING_drop
            | FING_push \<Rightarrow> finger_FING_push (cf_al cf)) ip, w)
      | Fp_FRTH f \<Rightarrow>
          ((case f of FRTH_stack_size \<Rightarrow> finger_FRTH_stack_size
            | FRTH_forth_roll \<Rightarrow> finger_FRTH_forth_roll (cf_al cf)
            | FRTH_forth_over \<Rightarrow> finger_FRTH_forth_over
            | FRTH_forth_pick \<Rightarrow> finger_FRTH_forth_pick
            | FRTH_forth_rot \<Rightarrow> finger_FRTH_forth_rot) ip, w)
      | Fp_ORTH f \<Rightarrow>
          (case f of ORTH_bit_and \<Rightarrow> (finger_ORTH_bit_and ip, w)
           | ORTH_bit_or \<Rightarrow> (finger_ORTH_bit_or ip, w)
           | ORTH_bit_xor \<Rightarrow> (finger_ORTH_bit_xor ip, w)
           | ORTH_get \<Rightarrow> finger_ORTH_get m | ORTH_put \<Rightarrow> finger_ORTH_put m
           | ORTH_output_string \<Rightarrow> finger_ORTH_output_string cf m
           | ORTH_change_dx \<Rightarrow> (finger_ORTH_change_dx ip, w)
           | ORTH_change_dy \<Rightarrow> (finger_ORTH_change_dy ip, w)
           | ORTH_change_x \<Rightarrow> finger_ORTH_change_x m | ORTH_change_y \<Rightarrow> finger_ORTH_change_y m
           | ORTH_ramp_if_zero \<Rightarrow> finger_ORTH_ramp_if_zero m)
      | Fp_REFC f \<Rightarrow>
          (case f of REFC_reference \<Rightarrow> finger_REFC_reference cf m
           | REFC_dereference \<Rightarrow> finger_REFC_dereference m)
      | Fp_INDV f \<Rightarrow>
          (case f of INDV_get_num \<Rightarrow> finger_INDV_get_num m | INDV_put_num \<Rightarrow> finger_INDV_put_num m
           | INDV_get_vec \<Rightarrow> finger_INDV_get_vec m | INDV_put_vec \<Rightarrow> finger_INDV_put_vec m)
      | Fp_JSTR f \<Rightarrow>
          (case f of JSTR_push_n \<Rightarrow> finger_JSTR_push_n m | JSTR_pop_n \<Rightarrow> finger_JSTR_pop_n m)
      | Fp_SUBR f \<Rightarrow>
          (case f of SUBR_absolute \<Rightarrow> (finger_SUBR_absolute ip, w)
           | SUBR_call \<Rightarrow> finger_SUBR_call m | SUBR_jump \<Rightarrow> finger_SUBR_jump m
           | SUBR_relative \<Rightarrow> (finger_SUBR_relative ip, w)
           | SUBR_return \<Rightarrow> finger_SUBR_return m)
      | Fp_other fprint name \<Rightarrow> m)"


section \<open>All instructions\<close>

definition finger_tables :: "(string \<times> (string \<times> operation) list) list" where
  "finger_tables =
     [(''TOYS'', TOYS_operations), (''STRN'', STRN_operations), (''BASE'', BASE_operations),
      (''CPLI'', CPLI_operations), (''DATE'', DATE_operations), (''TIME'', TIME_operations),
      (''HRTI'', HRTI_operations), (''TURT'', TURT_operations),
      (''FPSP'', FPSP_operations), (''FPDP'', FPDP_operations), (''FIXP'', FIXP_operations),
      (''3DSP'', DSP_operations), (''FILE'', FILE_operations),
      (''SOCK'', SOCK_operations), (''SCKE'', SCKE_operations), (''DIRF'', DIRF_operations), (''PERL'', PERL_operations),
      (''REXP'', REXP_operations), (''TERM'', TERM_operations), (''NCRS'', NCRS_operations)]"

text \<open>
  The instructions that the sandbox admits keep the frame, and all are free of crashes but those of TERM, which go through the current
  terminal, and one of PERL.
\<close>

lemmas tables_framed = TOYS_keeps_frame STRN_keeps_frame BASE_keeps_frame CPLI_keeps_frame DATE_keeps_frame
  TIME_keeps_frame HRTI_keeps_frame TURT_keeps_frame FPSP_keeps_frame FPDP_keeps_frame FIXP_keeps_frame
  DSP_keeps_frame REXP_keeps_frame TERM_keeps_frame NCRS_keeps_frame

lemmas tables_safe = TOYS_crash_free STRN_crash_free BASE_crash_free CPLI_crash_free DATE_crash_free TIME_crash_free
  HRTI_crash_free TURT_crash_free FPSP_crash_free FPDP_crash_free FIXP_crash_free
  DSP_crash_free FILE_crash_free SOCK_crash_free SCKE_crash_free DIRF_crash_free REXP_crash_free NCRS_crash_free

lemma all_tables_keep_frame:
  "\<forall>(fp, table) \<in> set finger_tables. fp \<notin> set unsafe_fingerprints \<longrightarrow> (\<forall>(name, operation) \<in> set table. keeps_frame operation)"
  by (simp add: finger_tables_def unsafe_fingerprints_def tables_framed)

lemma all_tables_crash_free:
  "\<forall>(fp, table) \<in> set finger_tables. fp \<noteq> ''TERM'' \<longrightarrow> fp \<noteq> ''PERL'' \<longrightarrow> (\<forall>(name, operation) \<in> set table. crash_free operation)"
  by (simp add: finger_tables_def tables_safe)

lemma tables_keep_frame:
  "(fp, table) \<in> set finger_tables \<Longrightarrow> (name, operation) \<in> set table \<Longrightarrow> fp \<notin> set unsafe_fingerprints \<Longrightarrow>
     keeps_frame operation"
  using all_tables_keep_frame by blast

lemma tables_crash_free:
  assumes "(fp, table) \<in> set finger_tables" "(name, operation) \<in> set table" "fp \<noteq> ''TERM''" "(fp, name) \<noteq> (''PERL'', ''int_eval'')"
  shows "crash_free operation"
proof (cases "fp = ''PERL''")
  case True
  then have "(name, operation) \<in> set PERL_operations" using assms(1,2) by (simp add: finger_tables_def)
  then show ?thesis using assms(4) True by (intro PERL_crash_free) simp_all
next
  case False
  then have "\<forall>(name, operation) \<in> set table. crash_free operation"
    using bspec [OF all_tables_crash_free assms(1)] assms(3) by simp
  then show ?thesis using assms(2) by blast
qed

text \<open>
  The calls that may go through a null pointer: an instruction of TERM when there is no current terminal, and \<open>I\<close> of PERL when some read
  of the output meets its end.
\<close>

definition null_read :: "config \<Rightarrow> fingerprintOpcode \<Rightarrow> mach \<Rightarrow> bool" where
  "null_read cf func m \<longleftrightarrow>
     (case func of
        Fp_other fprint name \<Rightarrow>
          fprint = ''TERM'' \<and> \<not> st_cur_term (w_statics (snd m)) \<or>
          fprint = ''PERL'' \<and> name = ''int_eval'' \<and> pipe_ends cf (w_calls (snd m))
      | _ \<Rightarrow> False)"

definition finger_operation :: "string \<Rightarrow> string \<Rightarrow> operation option" where
  "finger_operation fprint name = Option.bind (map_of finger_tables fprint) (\<lambda>table. map_of table name)"

text \<open>No loader adds an instruction that is not in the tables, so that the last case below does not come up.\<close>

definition finger_names :: "(string \<times> string list) list" where
  "finger_names = map (\<lambda>(fprint, table). (fprint, map fst table)) finger_tables"

lemma finger_operation_names:
  "finger_operation fprint name \<noteq> None \<longleftrightarrow>
     (case map_of finger_names fprint of None \<Rightarrow> False | Some names \<Rightarrow> name \<in> set names)"
proof -
  have "map_of finger_names fprint = map_option (map fst) (map_of finger_tables fprint)"
    by (simp add: finger_names_def map_of_map)
  then show ?thesis
    by (cases "map_of finger_tables fprint") (simp_all add: finger_operation_def map_of_eq_None_iff [of _ name])
qed

lemmas operation_tables = TOYS_operations_def
  STRN_operations_def BASE_operations_def CPLI_operations_def DATE_operations_def TIME_operations_def
  HRTI_operations_def TURT_operations_def FPSP_operations_def FPDP_operations_def FIXP_operations_def
  DSP_operations_def FILE_operations_def SOCK_operations_def SCKE_operations_def DIRF_operations_def
  PERL_operations_def REXP_operations_def TERM_operations_def NCRS_operations_def

definition known_opcode :: "(string \<times> string list) list \<Rightarrow> fingerprintOpcode \<Rightarrow> bool" where
  "known_opcode ns func =
     (case func of
        Fp_other fprint name \<Rightarrow> (case map_of ns fprint of None \<Rightarrow> False | Some names \<Rightarrow> name \<in> set names)
      | _ \<Rightarrow> True)"

lemma finger_names_list: "finger_names =
    [(''TOYS'',
      [''gable'', ''pair_of_shoes'', ''bracelet'', ''toilet_seat'',
      ''pitchfork_head'', ''calipers'', ''counterclockwise'',
      ''pair_of_stilts'', ''doric_column'', ''fishhook'', ''scissors'',
      ''corner'', ''kittycat'', ''lightning_bolt'', ''boulder'',
      ''mailbox'', ''necklace'', ''can_opener'', ''chicane'', ''barstool'',
      ''tumbler'', ''dixiecup'', ''television_antenna'',
      ''buried_treasure'', ''slingshot'', ''barn_door'']),
      (''STRN'',
      [''append'', ''compare'', ''display'', ''search'', ''get'', ''input'',
      ''left'', ''slice'', ''length'', ''put'', ''right'', ''itoa'',
      ''atoi'']),
      (''BASE'',
      [''output_binary'', ''output_hex'', ''input_base'', ''output_base'',
      ''output_octal'']),
      (''CPLI'', [''add'', ''div'', ''mul'', ''out'', ''sub'', ''abs'']),
      (''DATE'',
      [''add_days'', ''jdn_to_ymd'', ''day_diff'', ''ymd_to_jdn'',
      ''year_day_to_full'', ''week_day'', ''year_day'']),
      (''TIME'',
      [''day'', ''day_of_year'', ''use_gmt'', ''hour'', ''use_local'',
      ''minute'', ''month'', ''second'', ''day_of_week'', ''year'']),
      (''HRTI'',
      [''erase_mark'', ''granularity'', ''mark'', ''timer'', ''second'']),
      (''TURT'',
      [''query_heading'', ''back'', ''pen_colour'', ''show_display'',
      ''query_pen'', ''forward'', ''set_heading'', ''print_drawing'',
      ''turn_left'', ''clear_paper'', ''pen_position'', ''query_position'',
      ''turn_right'', ''teleport'', ''query_bounds'']),
      (''FPSP'',
      [''add'', ''sin'', ''cos'', ''div'', ''asin'', ''fromint'', ''atan'',
      ''acos'', ''toint'', ''ln'', ''log10'', ''mul'', ''neg'', ''print'',
      ''sqrt'', ''fromascii'', ''sub'', ''tan'', ''abs'', ''exp'',
      ''pow'']),
      (''FPDP'',
      [''add'', ''sin'', ''cos'', ''div'', ''asin'', ''fromint'', ''atan'',
      ''acos'', ''toint'', ''ln'', ''log10'', ''mul'', ''neg'', ''print'',
      ''sqrt'', ''fromascii'', ''sub'', ''tan'', ''abs'', ''exp'',
      ''pow'']),
      (''FIXP'',
      [''and'', ''acos'', ''cos'', ''rand'', ''sin'', ''asin'', ''neg'',
      ''or'', ''mulpi'', ''sqrt'', ''pow'', ''signbit'', ''tan'', ''atan'',
      ''abs'', ''xor'']),
      (''3DSP'',
      [''add'', ''sub'', ''cross'', ''dot'', ''length'', ''mul'',
      ''normalise'', ''matrix_copy'', ''matrix_rotate'', ''matrix_scale'',
      ''matrix_translate'', ''duplicate'', ''map'', ''transform'',
      ''matrix_mul'', ''scale'']),
      (''FILE'',
      [''fclose'', ''delete'', ''fgets'', ''ftell'', ''fopen'', ''fputs'',
      ''fread'', ''fseek'', ''fwrite'']),
      (''SOCK'',
      [''accept'', ''bind'', ''open'', ''fromascii'', ''kill'', ''listen'',
      ''setopt'', ''receive'', ''create'', ''write'']),
      (''SCKE'', [''gethostbyname'', ''peek'']),
      (''DIRF'', [''chdir'', ''mkdir'', ''rmdir'']),
      (''PERL'', [''eval'', ''int_eval'', ''shelled'']),
      (''REXP'', [''compile'', ''execute'', ''free'']),
      (''TERM'',
      [''clear_screen'', ''go_down'', ''goto_xy'', ''go_home'',
      ''clear_to_eol'', ''clear_to_eos'', ''go_up'']),
      (''NCRS'',
      [''beep'', ''clear'', ''toggle_echo'', ''get'', ''init'',
      ''toggle_keypad'', ''goto_xy'', ''toggle_input'', ''put'',
      ''refresh'', ''write'', ''unget''])]"
  by (simp add: finger_names_def finger_tables_def operation_tables)

lemma known_opcodes: "\<forall>e \<in> set ImplementedFingerprints. \<forall>x \<in> set (fe_loader e). known_opcode finger_names (snd x)"
  unfolding finger_names_list by code_simp

lemma loaded_opcodes_known:
  assumes "e \<in> set ImplementedFingerprints" "(c, Fp_other fprint name) \<in> set (fe_loader e)"
  shows "finger_operation fprint name \<noteq> None"
  unfolding finger_operation_names using known_opcodes assms by (force simp: known_opcode_def)

definition run_opcode :: "config \<Rightarrow> fingerprintOpcode \<Rightarrow> mach \<Rightarrow> mach result option" where
  "run_opcode cf func m =
     (case func of
        Fp_other fprint name \<Rightarrow>
          (case finger_operation fprint name of
             Some operation \<Rightarrow> operation cf m
           | None \<Rightarrow> Some (Running m))
      | _ \<Rightarrow> Some (Running (call_finger cf func m)))"

lemma finger_operation_table:
  assumes "finger_operation fp name = Some operation"
  obtains table where "(fp, table) \<in> set finger_tables" "(name, operation) \<in> set table"
  using assms by (auto simp: finger_operation_def split: Option.bind_splits dest!: map_of_SomeD)

text \<open>Any other instruction of a fingerprint goes through no null pointer.\<close>

lemma run_opcode_no_crash:
  assumes "benign cf" "\<not> null_read cf func m"
  shows "run_opcode cf func m \<noteq> Some Crashed"
proof (cases "\<exists>fp name operation. func = Fp_other fp name \<and> finger_operation fp name = Some operation")
  case True
  then obtain fp name operation where func: "func = Fp_other fp name" "finger_operation fp name = Some operation"
    by blast
  then obtain table where table: "(fp, table) \<in> set finger_tables" "(name, operation) \<in> set table"
    using finger_operation_table by blast
  have "operation cf m \<noteq> Some Crashed"
  proof (cases "fp = ''TERM'' \<or> fp = ''PERL'' \<and> name = ''int_eval''")
    case False
    then have "crash_free operation" by (intro tables_crash_free [OF table]) auto
    then show ?thesis using assms(1) by (cases m) (simp add: crash_free_def)
  next
    case True
    then consider "fp = ''TERM''" | "fp = ''PERL''" "name = ''int_eval''" by blast
    then show ?thesis
    proof cases
      case 1
      then have "(name, operation) \<in> set TERM_operations" using table by (simp add: finger_tables_def)
      then show ?thesis using assms(2) 1 by (intro TERM_no_crash) (simp_all add: null_read_def func)
    next
      case 2
      then have "operation = finger_PERL_int_eval" using table by (simp add: finger_tables_def PERL_operations_def)
      then show ?thesis using assms 2 by (simp add: int_eval_no_crash benign_def null_read_def func)
    qed
  qed
  then show ?thesis using func by (simp add: run_opcode_def)
qed (auto simp: run_opcode_def split: fingerprintOpcode.splits option.splits)

end
