(* ===== verification/Interp.thy ===== *)
theory Interp
  imports Sysinfo Dispatch "HOL-Library.While_Combinator"
begin

text \<open>
  The interpreter, \<^verbatim>\<open>src/interpreter.c\<close>, and the instruction \<open>k\<close>,
  \<^verbatim>\<open>src/instructions/iterate.c\<close> (build with concurrency and \<open>LARGE_IPLIST\<close>). Warnings and
  traces, which go to the standard error, are left out.

  A loop of the code that need not end gives an option, \<open>None\<close> if it does not. An instruction that
  ends the process, or goes through a null pointer, gives the corresponding \<open>result\<close>.
\<close>

section \<open>Simple instructions\<close>

definition cell_here :: "mach \<Rightarrow> cell" where
  "cell_here m = fungespace_get (w_space (snd m)) (ip_position (fst m))"

text \<open>The two operands of a binary instruction: \<open>b\<close> is on top, \<open>a\<close> below it.\<close>

definition binary_op :: "(cell \<Rightarrow> cell \<Rightarrow> cell) \<Rightarrow> instructionPointer \<Rightarrow> instructionPointer" where
  "binary_op f ip = (let (b, ip) = ip_pop ip; (a, ip) = ip_pop ip in ip_push (f a b) ip)"

definition compare_turn :: "instructionPointer \<Rightarrow> instructionPointer" where
  "compare_turn ip =
     (let (b, ip) = ip_pop ip; (a, ip) = ip_pop ip
      in if a <s b then ip_turn_left ip else if b <s a then ip_turn_right ip else ip)"

definition logical_not :: "instructionPointer \<Rightarrow> instructionPointer" where
  "logical_not ip = (let (v, ip) = ip_pop ip in ip_push (bool_cell (v = 0)) ip)"

definition set_delta :: "instructionPointer \<Rightarrow> instructionPointer" where
  "set_delta ip = (let (v, ip) = ip_pop_vector ip in ip\<lparr>ip_delta := v\<rparr>)"

definition on_stack :: "(funge_stack \<Rightarrow> funge_stack) \<Rightarrow> instructionPointer \<Rightarrow> instructionPointer" where
  "on_stack f ip = ip_set_stack (f (ip_stack ip)) ip"

definition jump_over :: "mach \<Rightarrow> mach" where
  "jump_over m =
     (let (ip, w) = m;
          (jumps, ip) = ip_pop ip;
          (ip, w) = m_forward (ip, w);
          (ip, w) =
            (if jumps \<noteq> 0 then
               (let tmp = ip_delta ip;
                    ip = ip\<lparr>ip_delta := vector (vec_x (ip_delta ip) * jumps) (vec_y (ip_delta ip) * jumps)\<rparr>;
                    (ip, w) = m_forward (ip, w)
                in (ip\<lparr>ip_delta := tmp\<rparr>, w))
             else (ip, w))
      in (ip\<lparr>ip_needMove := False\<rparr>, w))"

definition random_direction :: "config \<Rightarrow> mach \<Rightarrow> mach" where
  "random_direction cf m =
     (let (ip, w) = m; (rnd, w) = prng_generate_unsigned cf 4 w
      in (if rnd = 0 then ip_go_north ip else if rnd = 1 then ip_go_east ip
          else if rnd = 2 then ip_go_south ip else if rnd = 3 then ip_go_west ip else ip, w))"

definition get_cell :: "mach \<Rightarrow> mach" where
  "get_cell m =
     (let (ip, w) = m; (pos, ip) = ip_pop_vector ip
      in (ip_push (fungespace_get_offset (w_space w) pos (ip_storageOffset ip)) ip, w))"

definition put_cell :: "mach \<Rightarrow> mach" where
  "put_cell m =
     (let (ip, w) = m; (pos, ip) = ip_pop_vector ip; (a, ip) = ip_pop ip
      in (ip, w\<lparr>w_space := fungespace_set_offset a pos (ip_storageOffset ip) (w_space w)\<rparr>))"

definition fetch_character :: "mach \<Rightarrow> mach" where
  "fetch_character m = (let (ip, w) = m_forward m in (ip_push (cell_here (ip, w)) ip, w))"

definition store_character :: "mach \<Rightarrow> mach" where
  "store_character m =
     (let (ip, w) = m; ip = ip_forward_no_wrap ip; (v, ip) = ip_pop ip
      in (ip, w\<lparr>w_space := fungespace_set v (ip_position ip) (w_space w)\<rparr>))"

definition begin_block :: "config \<Rightarrow> mach \<Rightarrow> mach" where
  "begin_block cf m =
     (let (ip, w) = m;
          (count, ip) = ip_pop ip;
          (ip, w) = m_forward (ip, w);
          pos = ip_position ip;
          (ip, w) = m_backward (ip, w);
          (okay, ip) = stackstack_begin (cf_al cf) ip count pos
      in (if \<not> okay then ip_reverse ip else ip, w))"

definition end_block :: "instructionPointer \<Rightarrow> instructionPointer" where
  "end_block ip =
     (if ss_current (ip_stackstack ip) = 0 then ip_reverse ip
      else (let (count, ip) = ip_pop ip; (okay, ip) = stackstack_end ip count
            in if \<not> okay then ip_reverse ip else ip))"

definition under_block :: "instructionPointer \<Rightarrow> instructionPointer" where
  "under_block ip =
     (if ss_current (ip_stackstack ip) = 0 then ip_reverse ip
      else (let (count, ip) = ip_pop ip;
                ss = ip_stackstack ip; cur = ss_current ss;
                (TOSS, SOSS) = stackstack_transfer count (ss_stacks ss cur) (ss_stacks ss (cur - 1))
            in ip\<lparr>ip_stackstack := ss\<lparr>ss_stacks := (ss_stacks ss)(cur := TOSS, cur - 1 := SOSS)\<rparr>\<rparr>))"

section \<open>Fingerprints\<close>

fun pop_fingerprint :: "nat \<Rightarrow> cell \<Rightarrow> instructionPointer \<Rightarrow> cell \<times> instructionPointer" where
  "pop_fingerprint 0 fprint ip = (fprint, ip)"
| "pop_fingerprint (Suc n) fprint ip =
     (let (v, ip) = ip_pop ip in pop_fingerprint n (push_bit 8 fprint + v) ip)"

definition REFC_fingerprint :: cell where
  "REFC_fingerprint = 0x52454643"

definition HRTI_fingerprint :: cell where
  "HRTI_fingerprint = 0x48525449"

definition TURT_fingerprint :: cell where
  "TURT_fingerprint = 0x54555254"

definition FILE_fingerprint :: cell where
  "FILE_fingerprint = 0x46494C45"

definition TERM_fingerprint :: cell where
  "TERM_fingerprint = 0x5445524D"

definition SOCK_fingerprint :: cell where
  "SOCK_fingerprint = 0x534F434B"

text \<open>
  What a loader does before it adds its instructions: those of REFC, FILE and SOCK allocate their tables unless
  they exist, TERM sets up the terminal, HRTI measures the resolution of the timer, TURT sets up the turtle. The last two have
  loops that may not end. The other loaders do nothing else.
\<close>

definition setup_fingerprint :: "config \<Rightarrow> cell \<Rightarrow> mach \<Rightarrow> (bool \<times> mach) option" where
  "setup_fingerprint cf fprint m =
     (let (ip, w) = m
      in if fprint = REFC_fingerprint then
           if w_referencesSize w = 0 then (let (okay, w) = init_references cf w in Some (okay, (ip, w)))
           else Some (True, (ip, w))
         else if fprint = HRTI_fingerprint then setup_HRTI cf (ip, w)
         else if fprint = TURT_fingerprint then map_option (\<lambda>w. (True, (ip, w))) (turt_initialise cf w)
         else if fprint = FILE_fingerprint then (let (okay, w) = setup_FILE cf w in Some (okay, (ip, w)))
         else if fprint = SOCK_fingerprint then (let (okay, w) = setup_SOCK cf w in Some (okay, (ip, w)))
         else if fprint = TERM_fingerprint then (let (okay, w) = setup_TERM cf w in Some (okay, (ip, w)))
         else Some (True, (ip, w)))"

definition load_fingerprint :: "config \<Rightarrow> cell \<Rightarrow> mach \<Rightarrow> (bool \<times> mach) option" where
  "load_fingerprint cf fprint m =
     map_option (\<lambda>(ready, (ip, w)).
         let (okay, ip) = manager_load (cf_al cf) (\<lambda>_. ready) (cf_sandbox cf) ip fprint in (okay, (ip, w)))
       (if find_fingerprint (cf_sandbox cf) fprint \<noteq> None then setup_fingerprint cf fprint m
        else Some (True, m))"

text \<open>\<open>(\<close> and \<open>)\<close>.\<close>

definition load_unload :: "config \<Rightarrow> bool \<Rightarrow> mach \<Rightarrow> mach option" where
  "load_unload cf load m =
     (let (ip, w) = m; (fpsize, ip) = ip_pop ip
      in if fpsize <s 1 then Some (ip_reverse ip, w)
         else if cf_disable_fingerprints cf then
           Some (ip_reverse (on_stack (\<lambda>s. stack_discard s (unat fpsize)) ip), w)
         else
           (let (fprint, ip) = pop_fingerprint (unat fpsize) 0 ip
            in if load then
                 map_option (\<lambda>(okay, (ip, w)). (if \<not> okay then ip_reverse ip else ip, w))
                   (load_fingerprint cf fprint (ip, w))
               else
                 (let (okay, ip) = manager_unload (cf_sandbox cf) ip fprint
                  in Some (if \<not> okay then ip_reverse ip else ip, w))))"

definition handle_fprint :: "config \<Rightarrow> cell \<Rightarrow> mach \<Rightarrow> mach result option" where
  "handle_fprint cf opcode m =
     (let (ip, w) = m in
      if cf_disable_fingerprints cf then Some (Running (ip_reverse ip, w))
      else
        (let stack = ip_fingerOpcodes ip (unat (opcode - chr_cell CHR ''A'')) in
         if 0 < ops_top stack then
           (case ops_entries stack (ops_top stack - 1) of
              Some func \<Rightarrow> run_opcode cf func (ip, w)
            | None \<Rightarrow> Some (Running (ip_reverse ip, w)))
         else Some (Running (ip_reverse ip, w))))"

text \<open>The answer is whether the instruction takes no tick.\<close>

definition handle_string_mode :: "config \<Rightarrow> cell \<Rightarrow> instructionPointer \<Rightarrow> bool \<times> instructionPointer" where
  "handle_string_mode cf opcode ip =
     (if opcode = chr_cell CHR ''\"'' then (False, ip\<lparr>ip_mode := IpmCODE\<rparr>)
      else if opcode \<noteq> space_cell then (False, ip_push opcode (ip\<lparr>ip_stringLastWasSpace := False\<rparr>))
      else if \<not> ip_stringLastWasSpace ip \<or> cf_standard cf = Stdver93 then
        (False, ip_push opcode (ip\<lparr>ip_stringLastWasSpace := True\<rparr>))
      else (True, ip))"

section \<open>Core instructions that always return\<close>

definition basic_instruction :: "config \<Rightarrow> cell \<Rightarrow> mach \<Rightarrow> mach" where
  "basic_instruction cf opcode m =
     (if opcode = chr_cell CHR ''z'' then m
      else if opcode = chr_cell CHR ''^'' then on_ip ip_go_north m
      else if opcode = chr_cell CHR ''>'' then on_ip ip_go_east m
      else if opcode = chr_cell CHR ''v'' then on_ip ip_go_south m
      else if opcode = chr_cell CHR ''<'' then on_ip ip_go_west m
      else if opcode = chr_cell CHR ''j'' then jump_over m
      else if opcode = chr_cell CHR ''?'' then random_direction cf m
      else if opcode = chr_cell CHR ''r'' then on_ip ip_reverse m
      else if opcode = chr_cell CHR ''['' then on_ip ip_turn_left m
      else if opcode = chr_cell CHR '']'' then on_ip ip_turn_right m
      else if opcode = chr_cell CHR ''x'' then on_ip set_delta m
      else if chr_cell CHR ''0'' \<le> opcode \<and> opcode \<le> chr_cell CHR ''9'' then
        on_ip (ip_push (opcode - chr_cell CHR ''0'')) m
      else if chr_cell CHR ''a'' \<le> opcode \<and> opcode \<le> chr_cell CHR ''f'' then
        on_ip (ip_push (opcode - chr_cell CHR ''a'' + 10)) m
      else if opcode = chr_cell CHR ''\"'' then
        on_ip (\<lambda>ip. ip\<lparr>ip_mode := IpmSTRING, ip_stringLastWasSpace := False\<rparr>) m
      else if opcode = chr_cell CHR '':'' then on_ip (on_stack stack_dup_top) m
      else if opcode = chr_cell CHR ''#'' then m_forward m
      else if opcode = chr_cell CHR ''_'' then on_ip if_east_west m
      else if opcode = chr_cell CHR ''|'' then on_ip if_north_south m
      else if opcode = chr_cell CHR ''w'' then on_ip compare_turn m
      else if opcode = chr_cell CHR ''-'' then on_ip (binary_op (\<lambda>a b. a - b)) m
      else if opcode = chr_cell CHR ''+'' then on_ip (binary_op (\<lambda>a b. a + b)) m
      else if opcode = chr_cell CHR ''*'' then on_ip (binary_op (\<lambda>a b. a * b)) m
      else if opcode = chr_cell CHR ''/'' then on_ip (binary_op funge_division) m
      else if opcode = chr_cell CHR ''%'' then on_ip (binary_op funge_modulo) m
      else if opcode = chr_cell CHR ''!'' then on_ip logical_not m
      else if opcode = chr_cell (char_of (96 :: nat)) then on_ip (binary_op (\<lambda>a b. bool_cell (b <s a))) m
      else if opcode = chr_cell CHR ''g'' then get_cell m
      else if opcode = chr_cell CHR ''p'' then put_cell m
      else if opcode = chr_cell (char_of (39 :: nat)) then fetch_character m
      else if opcode = chr_cell CHR ''s'' then store_character m
      else if opcode = chr_cell CHR ''$'' then on_ip (on_stack (\<lambda>s. stack_discard s 1)) m
      else if opcode = chr_cell (char_of (92 :: nat)) then on_ip (on_stack stack_swap_top) m
      else if opcode = chr_cell CHR ''n'' then on_ip (on_stack stack_clear) m
      else if opcode = chr_cell CHR '','' then output_char cf m
      else if opcode = chr_cell CHR ''.'' then output_number cf m
      else if opcode = chr_cell CHR ''~'' then read_char m
      else if opcode = chr_cell CHR ''&'' then read_number m
      else if opcode = chr_cell CHR ''y'' then run_sys_info cf m
      else if opcode = chr_cell CHR ''{'' then begin_block cf m
      else if opcode = chr_cell CHR ''}'' then on_ip end_block m
      else if opcode = chr_cell CHR ''u'' then on_ip under_block m
      else if opcode = chr_cell CHR ''i'' then run_file_input cf m
      else if opcode = chr_cell CHR ''o'' then run_file_output cf m
      else if opcode = chr_cell CHR ''='' then run_system_execute cf m
      else on_ip ip_reverse m)"

section \<open>Skipping\<close>

text \<open>
  The three loops that walk over cells. They need not end: \<open>None\<close> stands for a walk that goes on for
  ever, as the one over the blanks of a line without an instruction does.
\<close>

definition skip_spaces :: "mach \<Rightarrow> mach option" where
  "skip_spaces m =
     map_option (on_ip (\<lambda>ip. ip\<lparr>ip_needMove := False\<rparr>))
       (while_option (\<lambda>m. cell_here m = space_cell) m_forward (m_forward m))"

definition skip_comment :: "mach \<Rightarrow> mach option" where
  "skip_comment m = while_option (\<lambda>m. cell_here m \<noteq> chr_cell CHR '';'') m_forward (m_forward m)"

definition next_instr_step :: "bool \<times> mach \<Rightarrow> bool \<times> mach" where
  "next_instr_step st =
     (let (injump, m) = st; m = m_forward m
      in (if cell_here m = chr_cell CHR '';'' then \<not> injump else injump, m))"

definition find_next_instr :: "mach \<Rightarrow> cell \<Rightarrow> (cell \<times> mach) option" where
  "find_next_instr m kInstr =
     map_option (\<lambda>(injump, m). (cell_here m, m))
       (while_option (\<lambda>(injump, m). cell_here m = chr_cell CHR '';'' \<or> cell_here m = space_cell \<or> injump)
          next_instr_step (next_instr_step (kInstr = chr_cell CHR '';'', m)))"

text \<open>How \<open>k\<close> finds its operand: the next cell, or the first instruction after blanks and comments.\<close>

definition fetch_operand :: "mach \<Rightarrow> (cell \<times> mach) option" where
  "fetch_operand m =
     (let m = m_forward m; kInstr = cell_here m
      in if kInstr = space_cell \<or> kInstr = chr_cell CHR '';'' then find_next_instr m kInstr
         else Some (kInstr, m))"

section \<open>Threads\<close>

primrec repeat_run :: "nat \<Rightarrow> ('a \<Rightarrow> 'a result option) \<Rightarrow> 'a \<Rightarrow> 'a result option" where
  "repeat_run 0 f s = Some (Running s)"
| "repeat_run (Suc n) f s = bind_run (f s) (repeat_run n f)"

text \<open>
  The state that an instruction is run in: the list, the rest of the interpreter, and
  \<open>*threadindex\<close>. The pointer \<open>ip\<close> of the code is the index \<open>p\<close> of the place in the list that holds
  it: most often, but after a nested \<open>k\<close> not always, the thread index.
\<close>

record threads =
  th_list :: ipList
  th_world :: world
  th_index :: nat

definition put_mach :: "nat \<Rightarrow> mach \<Rightarrow> threads \<Rightarrow> threads" where
  "put_mach p m s =
     s\<lparr>th_list := (th_list s)\<lparr>il_ips := (il_ips (th_list s))(p := Some (fst m))\<rparr>, th_world := snd m\<rparr>"

definition with_ip :: "nat \<Rightarrow> threads \<Rightarrow> (mach \<Rightarrow> 'a result option) \<Rightarrow> 'a result option" where
  "with_ip p s f =
     (case il_ips (th_list s) p of None \<Rightarrow> Some Crashed | Some ip \<Rightarrow> f (ip, th_world s))"

text \<open>\<open>t\<close>: the answer holds where \<open>ip\<close> is afterwards, which the new pointer may have pushed up.\<close>

definition split_thread :: "config \<Rightarrow> nat \<times> threads \<Rightarrow> (nat \<times> threads) result option" where
  "split_thread cf st =
     (let (p, s) = st in
      case iplist_duplicate_ip (cf_al cf) (cf_pool cf) (cf_disable_fingerprints cf) (th_list s)
             (th_index s) (w_space (th_world s)) of
        None \<Rightarrow> Some OutOfMemory
      | Some (new_index, list, space) \<Rightarrow>
          (let s = s\<lparr>th_list := list, th_world := (th_world s)\<lparr>w_space := space\<rparr>\<rparr>
           in if new_index \<noteq> - 1 then
                Some (Running (if th_index s < p then p + 1 else p, s\<lparr>th_index := nat new_index\<rparr>))
              else with_ip p s (\<lambda>m. Some (Running (p, put_mach p (on_ip ip_reverse m) s)))))"

definition stop_thread :: "threads \<Rightarrow> threads result option" where
  "stop_thread s =
     (if il_top (th_list s) = 0 then Some (Exited 0)
      else (let (index, list) = iplist_terminate_ip (th_list s) (th_index s);
                s = s\<lparr>th_list := list, th_index := index\<rparr>
            in with_ip index s (\<lambda>m. Some (Running
                 (put_mach index (on_ip (\<lambda>ip. ip\<lparr>ip_needMove := False\<rparr>) m) s)))))"

section \<open>One instruction\<close>

text \<open>
  \<open>execute_instruction\<close> for every opcode but a \<open>k\<close> outside string mode. The flag of the answer is the
  one of the code: the instruction takes no tick.
\<close>

definition execute_plain :: "config \<Rightarrow> cell \<Rightarrow> nat \<Rightarrow> threads \<Rightarrow> (bool \<times> threads) result option" where
  "execute_plain cf opcode p s = with_ip p s (\<lambda>(ip, w).
     if ip_mode ip = IpmSTRING then
       (let (noTick, ip) = handle_string_mode cf opcode ip
        in Some (Running (noTick, put_mach p (ip, w) s)))
     else if chr_cell CHR ''A'' \<le> opcode \<and> opcode \<le> chr_cell CHR ''Z'' then
       bind_run (handle_fprint cf opcode (ip, w)) (\<lambda>m. Some (Running (False, put_mach p m s)))
     else if opcode = space_cell then
       map_option (\<lambda>m. Running (True, put_mach p m s)) (skip_spaces (ip, w))
     else if opcode = chr_cell CHR '';'' then
       map_option (\<lambda>m. Running (True, put_mach p m s)) (skip_comment (ip, w))
     else if opcode = chr_cell CHR ''t'' then
       bind_run (split_thread cf (p, s)) (\<lambda>(p, s). Some (Running (False, s)))
     else if opcode = chr_cell CHR ''@'' then
       bind_run (stop_thread s) (\<lambda>s. Some (Running (False, s)))
     else if opcode = chr_cell CHR ''('' \<or> opcode = chr_cell CHR '')'' then
       map_option (\<lambda>m. Running (False, put_mach p m s)) (load_unload cf (opcode = chr_cell CHR ''('') (ip, w))
     else if opcode = chr_cell CHR ''q'' then Some (Exited (ucast (fst (ip_pop ip))))
     else Some (Running (False, put_mach p (basic_instruction cf opcode (ip, w)) s)))"

lemma with_ip_mono [partial_function_mono]:
  "(\<And>m. mono_option (\<lambda>f. C m f)) \<Longrightarrow> mono_option (\<lambda>f. with_ip p s (\<lambda>m. C m f))"
  by (cases "il_ips (th_list s) p") (simp_all add: with_ip_def option.const_mono)

lemma repeat_run_mono [partial_function_mono]:
  assumes "\<And>y. mono_option (\<lambda>f. B f y)"
  shows "mono_option (\<lambda>f. repeat_run n (B f) x)"
  by (induction n arbitrary: x) (auto intro: partial_function_mono assms)

text \<open>After the loop: Funge-109 moves past the operand, unless that changed position or delta.\<close>

definition skip_operand ::
    "config \<Rightarrow> bool \<Rightarrow> funge_vector \<Rightarrow> funge_vector \<Rightarrow> funge_vector \<Rightarrow> nat \<Rightarrow> threads \<Rightarrow> threads result option" where
  "skip_operand cf isRecursive olddelta oldpos posinstr p s =
     (if cf_standard cf = Stdver109 \<and> \<not> isRecursive then
        with_ip p s (\<lambda>(ip, w).
          Some (Running (if olddelta = ip_delta ip \<and> oldpos = ip_position ip
                         then put_mach p (ip\<lparr>ip_position := posinstr\<rparr>, w) s else s)))
      else Some (Running s))"

partial_function (option) run_iterate_implement ::
    "config \<Rightarrow> bool \<Rightarrow> nat \<Rightarrow> threads \<Rightarrow> threads result option" where
  "run_iterate_implement cf isRecursive p s = with_ip p s (\<lambda>(ip, w).
     let (iters, ip) = ip_pop ip in
     if iters = 0 then
       map_option (\<lambda>(_, m). Running (put_mach p m s)) (fetch_operand (ip, w))
     else if iters <s 0 then Some (Running (put_mach p (ip_reverse ip, w) s))
     else
       (let oldpos = ip_position ip in
        Option.bind (fetch_operand (ip, w)) (\<lambda>(kInstr, ip, w).
          let posinstr = ip_position ip;
              ip = ip\<lparr>ip_position := oldpos\<rparr>;
              s = put_mach p (ip, w) s
          in if kInstr = chr_cell CHR ''z'' then Some (Running s)
             else if kInstr = chr_cell CHR ''@'' then
               bind_run (execute_plain cf kInstr p s) (\<lambda>(_, s). Some (Running s))
             else
               (let olddelta = ip_delta ip; oldindex = th_index s in
                bind_run (repeat_run (unat iters)
                  (\<lambda>(p, s).
                     if kInstr = chr_cell CHR ''t'' then split_thread cf (p, s)
                     else if kInstr = chr_cell CHR ''k'' then
                       with_ip p s (\<lambda>(ip, w).
                         bind_run (run_iterate_implement cf True p
                                     (put_mach p (ip\<lparr>ip_position := posinstr\<rparr>, w) s)) (\<lambda>s.
                         with_ip oldindex s (\<lambda>(ip, w).
                           Some (Running (oldindex,
                             if posinstr = ip_position ip
                             then put_mach oldindex (ip\<lparr>ip_position := oldpos\<rparr>, w) s else s)))))
                     else bind_run (execute_plain cf kInstr p s) (\<lambda>(_, s). Some (Running (p, s))))
                  (p, s)) (\<lambda>(p, s).
                  skip_operand cf isRecursive olddelta oldpos posinstr
                    (if kInstr = chr_cell CHR ''t'' then oldindex else p) s)))))"

definition run_iterate :: "config \<Rightarrow> nat \<Rightarrow> threads \<Rightarrow> threads result option" where
  "run_iterate cf p s = run_iterate_implement cf False p s"

definition execute_instruction :: "config \<Rightarrow> cell \<Rightarrow> nat \<Rightarrow> threads \<Rightarrow> (bool \<times> threads) result option" where
  "execute_instruction cf opcode p s = with_ip p s (\<lambda>(ip, w).
     if ip_mode ip \<noteq> IpmSTRING \<and> opcode = chr_cell CHR ''k'' then
       bind_run (run_iterate cf p s) (\<lambda>s. Some (Running (False, s)))
     else execute_plain cf opcode p s)"

section \<open>The main loop\<close>

definition thread_forward :: "mach \<Rightarrow> mach" where
  "thread_forward m =
     (if ip_needMove (fst m) then m_forward m else on_ip (\<lambda>ip. ip\<lparr>ip_needMove := True\<rparr>) m)"

type_synonym loop_state = "int \<times> ipList \<times> world"

text \<open>
  One pass of the two nested loops of \<open>interpreter_main_loop\<close>: with \<open>i\<close> below zero the next round
  begins at the top of the list; otherwise the instruction pointer at \<open>i\<close> executes one instruction.
\<close>

definition interpreter_step :: "config \<Rightarrow> loop_state \<Rightarrow> loop_state result option" where
  "interpreter_step cf st =
     (let (i, list, w) = st in
      if i < 0 then Some (Running (int (il_top list), list, w))
      else
        (let s = \<lparr>th_list = list, th_world = w, th_index = nat i\<rparr> in
         with_ip (nat i) s (\<lambda>m.
           bind_run (execute_instruction cf (cell_here m) (nat i) s) (\<lambda>(noTick, s).
             with_ip (th_index s) s (\<lambda>m.
               let s = put_mach (th_index s) (thread_forward m) s
               in Some (Running (if noTick then int (th_index s) else int (th_index s) - 1,
                                 th_list s, th_world s)))))))"

definition initial_world :: "config \<Rightarrow> (byte list \<Rightarrow> byte list option) \<Rightarrow> byte list \<Rightarrow> world" where
  "initial_world cf files stdin =
     \<lparr>w_space = fungespace_create, w_input = fresh_input stdin, w_output = [], w_files = files,
      w_random = 0, w_clock = 0, w_timer = 0, w_calls = 0,
      w_statics = initial_statics, w_references = [], w_referencesSize = 0, w_TOSSSize = 0,
      w_tmp_stack = None, w_cache_stack = None\<rparr>"

text \<open>
  \<open>interpreter_run\<close> up to the main loop; \<open>None\<close> if it stops with a message before that: the file
  cannot be read, or there is no memory for the list.
\<close>

definition interpreter_start ::
    "config \<Rightarrow> (byte list \<Rightarrow> byte list option) \<Rightarrow> byte list \<Rightarrow> byte list \<Rightarrow> loop_state option" where
  "interpreter_start cf files stdin filename =
     (let w = initial_world cf files stdin;
          (loaded, space) = fungespace_load (files filename) (w_space w);
          w = w\<lparr>w_space := space\<rparr>
      in if \<not> loaded then None
         else map_option (\<lambda>list. (- 1, list, w)) (iplist_create (cf_al cf) (cf_pool cf)))"

text \<open>The runs of the interpreter: \<open>reaches\<close> the states the main loop passes through, \<open>ends\<close> the
  way in which it stops, if it does.\<close>

inductive reaches :: "config \<Rightarrow> loop_state \<Rightarrow> loop_state \<Rightarrow> bool" for cf where
  Refl: "reaches cf st st"
| Step: "reaches cf st st' \<Longrightarrow> interpreter_step cf st' = Some (Running st'') \<Longrightarrow> reaches cf st st''"

inductive ends :: "config \<Rightarrow> loop_state \<Rightarrow> loop_state result \<Rightarrow> bool" for cf where
  End: "reaches cf st st' \<Longrightarrow> interpreter_step cf st' = Some r \<Longrightarrow> (\<And>st''. r \<noteq> Running st'') \<Longrightarrow> ends cf st r"

inductive_cases reaches_cases: "reaches cf st st'"
inductive_cases ends_cases: "ends cf st r"

end
