(* ===== verification/Frame.thy ===== *)
theory Frame
  imports Interp
begin

text \<open>
  What an instruction leaves alone: every instruction but the few that are meant to change them keeps
  the mode, the ID and the opcode stacks of its instruction pointer, and the files; and with the
  sandbox set no instruction changes a file or brings in an unsafe instruction.
\<close>

section \<open>Core instructions\<close>

lemma frame_core [frames]:
  "frame (binary_op f ip, w) = frame (ip, w)" "frame (compare_turn ip, w) = frame (ip, w)"
  "frame (logical_not ip, w) = frame (ip, w)" "frame (set_delta ip, w) = frame (ip, w)"
  "frame (on_stack g ip, w) = frame (ip, w)" "frame (end_block ip, w) = frame (ip, w)"
  "frame (under_block ip, w) = frame (ip, w)"
  by (simp_all add: binary_op_def compare_turn_def logical_not_def
      set_delta_def on_stack_def end_block_def stackstack_end_def under_block_def split_beta Let_def frames)

lemma frame_begin [frames]: "frame (snd (stackstack_begin al ip n pos), w) = frame (ip, w)"
  by (auto simp: stackstack_begin_def Let_def frames split_beta split: option.split bool.split)

lemma frame_mach [frames]:
  "frame (jump_over m) = frame m" "frame (random_direction cf m) = frame m" "frame (get_cell m) = frame m"
  "frame (put_cell m) = frame m" "frame (fetch_character m) = frame m" "frame (store_character m) = frame m"
  "frame (begin_block cf m) = frame m"
  by (simp_all add: jump_over_def random_direction_def get_cell_def put_cell_def fetch_character_def
      store_character_def begin_block_def split_beta Let_def frames)

lemma frame_io [frames]:
  "frame (output_char cf m) = frame m" "frame (output_number cf m) = frame m"
  "frame (read_char m) = frame m" "frame (read_number m) = frame m" "frame (run_file_input cf m) = frame m"
  by (auto simp: output_char_def output_number_def read_char_def read_number_def run_file_input_def
      split_beta Let_def frames split: option.split)

lemma frame_sandboxed_io [frames]:
  "cf_sandbox cf \<Longrightarrow> frame (run_file_output cf m) = frame m"
  "cf_sandbox cf \<Longrightarrow> frame (run_system_execute cf m) = frame m"
  by (simp_all add: run_file_output_def run_system_execute_def split_beta Let_def frames)

lemma frame_read [frames]:
  "frame (ip, snd (read_clock cf w)) = frame (ip, w)" "frame (ip, snd (read_bounds w)) = frame (ip, w)"
  by (simp_all add: read_clock_def read_bounds_def split_beta Let_def frames)

lemma frame_push_all [frames]: "frame (ip, snd (push_all cf ip' s w)) = frame (ip, w)"
  by (simp add: push_all_def split_beta Let_def frames)

lemma frame_push_yval [frames]: "frame (ip, snd (push_yval cf r ip' s w)) = frame (ip, w)"
  by (simp add: push_yval_def split_beta Let_def frames)

lemma frame_sys_info [frames]: "frame (run_sys_info cf m) = frame m"
  by (simp add: run_sys_info_def split_beta Let_def frames)

section \<open>The tables of the fingerprints\<close>

lemma finger_operation_keeps_frame:
  assumes "finger_operation fp name = Some operation" "operation cf m = Some (Running m')"
    and "fp \<notin> set unsafe_fingerprints"
  shows "frame m' = frame m"
proof -
  from assms(1) have "keeps_frame operation"
    by (rule finger_operation_table) (rule tables_keep_frame [OF _ _ assms(3)])
  then show ?thesis using assms(2) unfolding keeps_frame_def by blast
qed

section \<open>The sandbox\<close>

text \<open>One step of a sandboxed instruction pointer: the files stay, and so does the sandbox.\<close>

definition confined :: "mach \<Rightarrow> mach \<Rightarrow> bool" where
  "confined m m' \<longleftrightarrow> other_files (snd m') = other_files (snd m) \<and> (ip_sandboxed (fst m) \<longrightarrow> ip_sandboxed (fst m'))"

lemma confined_frame: "frame m' = frame m \<Longrightarrow> confined m m'"
  by (simp add: confined_def frame_def ip_sandboxed_def)

lemma confined_trans: "confined m m' \<Longrightarrow> confined m' m'' \<Longrightarrow> confined m m''"
  by (simp add: confined_def)

lemma sandboxed_cong: "ip_fingerOpcodes ip = ip_fingerOpcodes ip' \<Longrightarrow> ip_sandboxed ip = ip_sandboxed ip'"
  by (simp add: ip_sandboxed_def)

lemma frame_sandboxed: "frame (ip, w) = frame (ip', w) \<Longrightarrow> ip_sandboxed ip = ip_sandboxed ip'"
  by (simp add: frame_def ip_sandboxed_def)

lemma sandboxed_push:
  assumes "ip_sandboxed ip" "opcode_safe func"
  shows "ip_sandboxed (snd (opcode_stack_push al ip c func))"
proof (cases "opcode_stack_push al ip c func")
  case (Pair b ip')
  then show ?thesis
    using assms opcode_stack_push_rest [OF Pair] opcode_stack_push_ops [of al ip c func ip']
    by (cases b) (auto simp: ip_sandboxed_def split: if_splits)
qed

lemma sandboxed_pop: "ip_sandboxed ip \<Longrightarrow> ip_sandboxed (snd (opcode_stack_pop ip c))"
  by (auto simp: ip_sandboxed_def opcode_stack_pop_ops dest: in_set_butlastD)

lemma sandboxed_popped:
  assumes "ip_sandboxed ip"
  shows "opcode_safe (fst (opcode_stack_pop ip c))"
proof (cases "ip_ops ip (opcode_index c) = []")
  case False
  then show ?thesis using assms last_in_set by (auto simp: ip_sandboxed_def opcode_stack_pop_ops(1))
qed (simp add: opcode_stack_pop_ops opcode_safe_def)

lemma frame_stack_spec [frames]: "frame (snd (pop_stack_spec ip), w) = frame (ip, w)"
  by (simp add: pop_stack_spec_def split_beta Let_def frames)

lemma sandboxed_stack_spec [simp]: "ip_sandboxed (snd (pop_stack_spec ip)) = ip_sandboxed ip"
  using frame_stack_spec frame_sandboxed by blast

lemma sandboxed_reverse [simp]: "ip_sandboxed (ip_reverse ip) = ip_sandboxed ip"
  by (simp add: ip_sandboxed_def ip_reverse_def)

lemma reflect_safe [simp]: "opcode_safe (Some Fp_reflect)"
  by (simp add: opcode_safe_def)

lemma sandboxed_popped_Some:
  "fst (opcode_stack_pop ip c) = Some func \<Longrightarrow> ip_sandboxed ip \<Longrightarrow> opcode_safe (Some func)"
  using sandboxed_popped [of ip c] by simp

lemma FING_swap_sandboxed: "ip_sandboxed ip \<Longrightarrow> ip_sandboxed (finger_FING_swap al ip)"
  unfolding finger_FING_swap_def split_beta Let_def
  by (auto simp: sandboxed_pop sandboxed_popped dest: sandboxed_popped_Some intro!: sandboxed_push
      split: option.split bool.split)

lemma FING_drop_sandboxed: "ip_sandboxed ip \<Longrightarrow> ip_sandboxed (finger_FING_drop ip)"
  by (auto simp: finger_FING_drop_def split_beta intro: sandboxed_pop split: option.split)

lemma FING_push_sandboxed: "ip_sandboxed ip \<Longrightarrow> ip_sandboxed (finger_FING_push al ip)"
  unfolding finger_FING_push_def split_beta Let_def
  by (auto intro!: sandboxed_pop sandboxed_push intro: sandboxed_popped_Some
      split: option.split bool.split)

lemma confined_ip:
  "(ip_sandboxed ip \<Longrightarrow> ip_sandboxed ip') \<Longrightarrow> confined (ip, w) (ip', w)"
  by (simp add: confined_def)

lemma call_finger_confined: "confined m (call_finger cf func m)"
proof (cases func)
  case (Fp_FING f)
  then show ?thesis
    by (cases f; cases m) (auto simp: call_finger_def intro: confined_ip FING_swap_sandboxed
        FING_drop_sandboxed FING_push_sandboxed)
qed (cases m; auto intro!: confined_frame simp: call_finger_def frames split: BOOL_op.split MODU_op.split
    FRTH_op.split ORTH_op.split REFC_op.split INDV_op.split JSTR_op.split SUBR_op.split)+

lemma run_opcode_confined:
  assumes "opcode_safe (Some func)" "run_opcode cf func m = Some (Running m')"
  shows "confined m m'"
proof (cases "\<exists>fp name. func = Fp_other fp name")
  case True
  then obtain fp name where func: "func = Fp_other fp name" by blast
  show ?thesis
  proof (cases "finger_operation fp name")
    case None
    then have "m' = m" using assms(2) by (simp add: func run_opcode_def)
    then show ?thesis by (simp add: confined_frame)
  next
    case (Some operation)
    then show ?thesis
      using finger_operation_keeps_frame [OF Some, of cf m m'] assms
      by (intro confined_frame) (simp add: func run_opcode_def opcode_safe_def)
  qed
next
  case False
  then show ?thesis
    using assms(2) call_finger_confined [of m cf func] by (auto simp: run_opcode_def split: fingerprintOpcode.splits)
qed

lemma handle_fprint_confined:
  assumes "ip_sandboxed (fst m)" "handle_fprint cf opcode m = Some (Running m')"
  shows "confined m m'"
proof -
  obtain ip w where m: "m = (ip, w)" by (cases m)
  let ?i = "unat (opcode - chr_cell CHR ''A'')"
  let ?stack = "ip_fingerOpcodes ip ?i"
  have "opcode_safe (ops_entries ?stack (ops_top ?stack - 1))" if "0 < ops_top ?stack"
    using assms(1) that unfolding m ip_sandboxed_def by (force simp: ops_list_def)
  then show ?thesis
    using run_opcode_confined assms(2)
    by (auto simp: m handle_fprint_def Let_def frames intro: confined_frame split: option.splits if_splits)
qed

lemma frame_pop_fingerprint [frames]: "frame (snd (pop_fingerprint n v ip), w) = frame (ip, w)"
  by (induction n arbitrary: v ip) (simp_all add: split_beta Let_def frames)

lemma sandboxed_stack_ops [simp]:
  "ip_sandboxed (snd (ip_pop ip)) = ip_sandboxed ip"
  "ip_sandboxed (snd (pop_fingerprint n v ip)) = ip_sandboxed ip"
  by (rule frame_sandboxed, simp only: frames)+

lemma sandboxed_on_stack: "ip_sandboxed (on_stack g ip) = ip_sandboxed ip"
  by (rule frame_sandboxed, simp only: frames)

lemma frame_setup_FILE [frames]: "frame (ip, snd (setup_FILE cf w)) = frame (ip, w)"
  by (simp add: setup_FILE_def FILE_init_handle_list_def set_handles_def frames)

lemma frame_setup_SOCK [frames]: "frame (ip, snd (setup_SOCK cf w)) = frame (ip, w)"
  by (simp add: setup_SOCK_def SOCK_init_handle_list_def set_sockets_def frames)

lemma setup_frame: "setup_fingerprint cf fp m = Some (okay, m') \<Longrightarrow> frame m' = frame m"
  by (cases m) (auto simp: setup_fingerprint_def init_references_def frames split_beta Let_def split: if_splits
      dest: setup_HRTI_frame turt_initialise_frame)

lemma load_fingerprint_confined:
  assumes "cf_sandbox cf" "load_fingerprint cf fp m = Some (okay, m')"
  shows "confined m m'"
proof -
  obtain ready ip w where ready: "(if find_fingerprint (cf_sandbox cf) fp \<noteq> None then setup_fingerprint cf fp m else Some (True, m)) =
      Some (ready, (ip, w))"
    and m': "m' = (snd (manager_load (cf_al cf) (\<lambda>_. ready) (cf_sandbox cf) ip fp), w)"
    using assms(2) by (auto simp: load_fingerprint_def split_beta)
  have "frame (ip, w) = frame m" using ready setup_frame [of cf fp m ready "(ip, w)"] by (auto split: if_splits)
  then have "confined m (ip, w)" by (rule confined_frame)
  then show ?thesis
    using assms(1) by (auto simp: m' confined_def intro: ip_sandboxed_load)
qed

lemma load_unload_confined:
  assumes "cf_sandbox cf" "load_unload cf load m = Some m'"
  shows "confined m m'"
proof -
  have frame: "frame (on_stack g ip, w) = frame (ip, w)" "frame (snd (pop_fingerprint n v ip), w) = frame (ip, w)" for g ip w n v
    by (simp_all only: frames)
  have popped: "confined m (snd (pop_fingerprint n v (snd (ip_pop (fst m)))), snd m)" for n v
    by (cases m) (simp add: confined_frame frames)
  show ?thesis
    using assms
    by (auto simp: load_unload_def split_beta Let_def split: if_splits
      dest!: load_fingerprint_confined [OF assms(1)] intro!: ip_sandboxed_unload
      simp: confined_def sandboxed_on_stack)
qed

text \<open>The core instructions that are meant to change the mode, the opcode stacks, or the files.\<close>

definition framed_opcode :: "cell \<Rightarrow> bool" where
  "framed_opcode opcode \<longleftrightarrow> opcode \<notin> chr_cell ` {CHR ''\"'', CHR ''('', CHR '')'', CHR ''o'', CHR ''=''}"

lemma frame_if: "\<lbrakk>b \<Longrightarrow> frame x = k; \<not> b \<Longrightarrow> frame y = k\<rbrakk> \<Longrightarrow> frame (if b then x else y) = k"
  by simp

lemma frame_basic [frames]:
  assumes "framed_opcode opcode"
  shows "frame (basic_instruction cf opcode m) = frame m"
proof -
  have no: "opcode \<noteq> chr_cell CHR ''\"''" "opcode \<noteq> chr_cell CHR ''(''" "opcode \<noteq> chr_cell CHR '')''"
    "opcode \<noteq> chr_cell CHR ''o''" "opcode \<noteq> chr_cell CHR ''=''"
    using assms unfolding framed_opcode_def by blast+
  show ?thesis
    unfolding basic_instruction_def
    by (intro frame_if; ((simp (no_asm) only: frames; fail) | (rule no [THEN notE], assumption)))
qed

lemma confined_if: "\<lbrakk>b \<Longrightarrow> confined m x; \<not> b \<Longrightarrow> confined m y\<rbrakk> \<Longrightarrow> confined m (if b then x else y)"
  by simp

lemma basic_confined:
  assumes "cf_sandbox cf"
  shows "confined m (basic_instruction cf opcode m)"
proof -
  have quote: "confined m (on_ip (\<lambda>ip. ip\<lparr>ip_mode := IpmSTRING, ip_stringLastWasSpace := False\<rparr>) m)"
    by (simp add: confined_def on_ip_def ip_sandboxed_def)
  show ?thesis
    unfolding basic_instruction_def
    by (intro confined_if;
        ((rule confined_frame, simp (no_asm) only: frames frame_sandboxed_io [OF assms]; fail)
         | rule quote))
qed

section \<open>A hole in the sandbox\<close>

lemma TURT_found: "find_fingerprint True TURT_fingerprint \<noteq> None"
  unfolding TURT_fingerprint_def by code_simp

lemma print_drawing_operation:
  "run_opcode cf (Fp_other ''TURT'' ''print_drawing'') m = finger_TURT_print_drawing cf m"
  by (simp add: run_opcode_def finger_operation_def finger_tables_def TURT_operations_def)

text \<open>
  C40: the sandbox that forbids any file output has a hole. TURT is among the fingerprints that the sandbox
  finds and loads, and its instruction \<open>I\<close> creates or overwrites the file \<open>cfunge_TURT.svg\<close>: with the sandbox
  set, the file is there afterwards and starts with the XML header, whatever it held before.
\<close>

theorem turt_writes_in_sandbox:
  assumes "cf_sandbox cf" "se_open (cf_save cf)" "\<And>n. cf_al cf n" "\<And>calls. cf_svg cf calls \<noteq> None"
  shows "find_fingerprint (cf_sandbox cf) TURT_fingerprint \<noteq> None \<and>
    (\<exists>m' shown. run_opcode cf (Fp_other ''TURT'' ''print_drawing'') (ip, w) = Some (Running m') \<and>
       w_files (snd m') turt_filename = Some (svg_preamble @ shown))"
proof
  show "find_fingerprint (cf_sandbox cf) TURT_fingerprint \<noteq> None" using TURT_found assms(1) by simp
  obtain td where td: "tryAddPoint cf (canvas_of w) = Some td" using tryAddPoint_granted [OF assms(3)] by blast
  obtain paths where paths: "generate_paths cf (snd td) = Some paths" using generate_paths_granted [OF assms(3)] by blast
  obtain okay shown where "cf_svg cf (print_header td @ paths @ generate_circles (snd td) @ [End_element]) = Some (okay, shown)"
    using assms(4) by fastforce
  then show "\<exists>m' shown. run_opcode cf (Fp_other ''TURT'' ''print_drawing'') (ip, w) = Some (Running m') \<and>
       w_files (snd m') turt_filename = Some (svg_preamble @ shown)"
    unfolding print_drawing_operation using td paths assms(2)
    by (auto simp: finger_TURT_print_drawing_def Let_def)
qed

theorem turt_writes_in_sandbox_witness:
  "\<exists>m' shown. run_opcode (sample_config\<lparr>cf_sandbox := True\<rparr>) (Fp_other ''TURT'' ''print_drawing'') (sample_ip, sample_world) =
      Some (Running m') \<and> w_files (snd m') turt_filename = Some (svg_preamble @ shown)"
  using turt_writes_in_sandbox [of "sample_config\<lparr>cf_sandbox := True\<rparr>" sample_ip sample_world]
  by (simp add: sample_config_def)

end
