(* ===== verification/Instructions.thy ===== *)
theory Instructions
  imports Frame
begin

text \<open>
  What single instructions of \<^verbatim>\<open>src/interpreter.c\<close> and \<^verbatim>\<open>src/instructions/iterate.c\<close> do:
  arithmetic, string mode against a reference definition, the walk over blanks, the operand of
  \<open>k\<close> and the repetition by \<open>k\<close>.
\<close>

section \<open>Arithmetic\<close>

definition binary_instructions :: "(cell \<times> (cell \<Rightarrow> cell \<Rightarrow> cell)) list" where
  "binary_instructions =
     [(chr_cell CHR ''+'', (+)), (chr_cell CHR ''-'', (-)), (chr_cell CHR ''*'', (*)),
      (chr_cell CHR ''/'', funge_division), (chr_cell CHR ''%'', funge_modulo),
      (chr_cell (char_of (96 :: nat)), \<lambda>a b. if b <s a then 1 else 0)]"

lemma binary_op_toss: "toss (binary_op f ip) = drop_top 2 (toss ip) @ [f (from_top (toss ip) 1) (from_top (toss ip) 0)]"
  by (simp add: binary_op_def ip_runs Let_def) (simp add: drop_top_def numeral_2_eq_2)

lemma binary_op_same: "\<exists>s. binary_op f ip = ip_set_stack s ip"
  by (auto simp: binary_op_def split_beta Let_def ip_push_def ip_pop_def)

text \<open>
  each of the instructions + - * / % and the comparison takes two cells, the second operand from
  the top, missing ones being 0, pushes the one result, computed with wrap-around in 64 bits, and
  changes nothing else: no other field of the instruction pointer, no lower cell, no other state.
\<close>

theorem binary_instruction_effect:
  assumes "(opcode, f) \<in> set binary_instructions"
  shows "\<exists>s. basic_instruction cf opcode (ip, w) = (ip_set_stack s ip, w) \<and>
     stack_list s = drop_top 2 (toss ip) @ [f (from_top (toss ip) 1) (from_top (toss ip) 0)]"
proof -
  have "basic_instruction cf opcode (ip, w) = (binary_op f ip, w)"
    using assms unfolding binary_instructions_def list.set
    by (elim insertE emptyE)
       (simp_all add: basic_instruction_def on_ip_def bool_cell_def)
  then show ?thesis
    using binary_op_same [of f ip] binary_op_toss [of f ip] by (auto simp: ip_simps)
qed

theorem binary_instruction_effect_witness:
  "toss (fst (basic_instruction sample_config (chr_cell CHR ''-'') (pushed [7, 5], sample_world))) = [7, 8, 2]"
proof -
  have "(chr_cell CHR ''-'', (-)) \<in> set binary_instructions" by (simp add: binary_instructions_def)
  from binary_instruction_effect [OF this, of sample_config "pushed [7, 5]" sample_world]
  show ?thesis by (auto simp: ip_simps drop_top_def from_top_def)
qed

section \<open>String mode\<close>

text \<open>The reference: of adjacent blanks only the first is kept.\<close>

fun squeeze_spaces :: "bool \<Rightarrow> cell list \<Rightarrow> cell list" where
  "squeeze_spaces _ [] = []"
| "squeeze_spaces space (c # cs) =
     (if c = space_cell then (if space then squeeze_spaces True cs else c # squeeze_spaces True cs)
      else c # squeeze_spaces False cs)"

definition read_string :: "config \<Rightarrow> cell list \<Rightarrow> instructionPointer \<Rightarrow> instructionPointer" where
  "read_string cf cs ip = fold (\<lambda>c ip. snd (handle_string_mode cf c ip)) cs ip"

lemma read_string_toss:
  assumes "chr_cell CHR ''\"'' \<notin> set cs" "cf_standard cf \<noteq> Stdver93"
  shows "toss (read_string cf cs ip) = toss ip @ squeeze_spaces (ip_stringLastWasSpace ip) cs \<and>
    ip_mode (read_string cf cs ip) = ip_mode ip"
  using assms(1)
proof (induction cs arbitrary: ip)
  case (Cons c cs)
  let ?ip = "snd (handle_string_mode cf c ip)"
  have step: "read_string cf (c # cs) ip = read_string cf cs ?ip" by (simp add: read_string_def)
  have "toss ?ip @ squeeze_spaces (ip_stringLastWasSpace ?ip) cs =
      toss ip @ squeeze_spaces (ip_stringLastWasSpace ip) (c # cs) \<and> ip_mode ?ip = ip_mode ip"
    using Cons.prems assms(2)
    by (auto simp: handle_string_mode_def ip_simps ip_push_def stack_simps stack_list_toss ip_stack_def [symmetric])
  then show ?case using Cons by (simp add: step)
qed (simp add: read_string_def)

lemma read_string_93:
  assumes "chr_cell CHR ''\"'' \<notin> set cs" "cf_standard cf = Stdver93"
  shows "toss (read_string cf cs ip) = toss ip @ cs"
  using assms(1)
  by (induction cs arbitrary: ip)
    (simp_all add: read_string_def handle_string_mode_def assms(2) ip_simps)

text \<open>
  string mode. Executing the cells \<open>cs\<close>, none of them a quote, and then a quote pushes \<open>cs\<close> in
  order, each run of blanks as a single blank (a blank that continues a run takes no tick); by the
  standard of 1993 every blank is pushed. The quote ends the mode.
\<close>

theorem string_mode_squeezes:
  assumes "chr_cell CHR ''\"'' \<notin> set cs"
    and "r = handle_string_mode cf (chr_cell CHR ''\"'') (read_string cf cs ip)"
  shows "toss (snd r) =
      toss ip @ (if cf_standard cf = Stdver93 then cs else squeeze_spaces (ip_stringLastWasSpace ip) cs) \<and>
    ip_mode (snd r) = IpmCODE \<and> \<not> fst r"
  using read_string_toss [OF assms(1)] read_string_93 [OF assms(1)] assms(2)
  by (auto simp: handle_string_mode_def ip_simps)

theorem string_mode_squeezes_witness:
  "toss (snd (handle_string_mode sample_config 34 (read_string sample_config [97, 32, 32, 98] sample_ip))) =
     [7, 8, 97, 32, 98]"
  using string_mode_squeezes [of "[97, 32, 32, 98]" _ sample_config sample_ip, OF _ refl]
  by (simp add: sample_config_def) (simp add: sample_ip_def toss_def ip_stack_def stack_simps)

section \<open>Walks\<close>

text \<open>A world with the digit 5 to the right of the origin, and a count of 2 on the stack.\<close>

lemma m_forward_in_range:
  assumes "boundsexact (w_space w)" "fungespace_in_range (w_space w) (vector_add (ip_position ip) (ip_delta ip))"
  shows "m_forward (ip, w) = (ip\<lparr>ip_position := vector_add (ip_position ip) (ip_delta ip)\<rparr>, w)"
  using assms by (simp add: m_forward_def ip_forward_def ip_forward_no_wrap_def fungespace_wrap_def)

definition five_world :: world where
  "five_world = sample_world\<lparr>w_space := fungespace_create\<lparr>cfun_static_space := (\<lambda>_. 53), bottomRightCorner := vector 3 0\<rparr>\<rparr>"

lemma five_space: "boundsexact (w_space five_world)" "topLeftCorner (w_space five_world) = vector 0 0"
  "bottomRightCorner (w_space five_world) = vector 3 0" "cfun_static_space (w_space five_world) n = 53"
  by (simp_all add: five_world_def fungespace_create_def)

lemma forward_five:
  "m_forward (snd (ip_pop (pushed [2])), five_world) =
     ((snd (ip_pop (pushed [2])))\<lparr>ip_position := vector 1 0\<rparr>, five_world)"
proof -
  let ?ip = "snd (ip_pop (pushed [2]))"
  have "\<not> (3 :: cell) <s 1 \<and> \<not> (1 :: cell) <s 0" by code_simp
  then have "fungespace_in_range (w_space five_world) (vector 1 0)"
    by (simp add: fungespace_in_range_def five_space)
  then show ?thesis
    using m_forward_in_range [of five_world ?ip] by (simp add: five_space ip_pop_run ip_simps vector_add_def)
qed

lemmas range_check_defs = FUNGESPACE_RANGE_CHECK_def FUNGESPACE_STATIC_X_def FUNGESPACE_STATIC_Y_def
  FUNGESPACE_STATIC_OFFSET_X_def FUNGESPACE_STATIC_OFFSET_Y_def

lemma here_five: "cell_here (ip\<lparr>ip_position := vector 1 0\<rparr>, five_world) = 53"
proof -
  have "FUNGESPACE_RANGE_CHECK (1 + FUNGESPACE_STATIC_OFFSET_X) FUNGESPACE_STATIC_OFFSET_Y"
    by (simp add: range_check_defs)
  then show ?thesis by (simp add: cell_here_def fungespace_get_def five_space Let_def)
qed

lemma fetch_five:
  "fetch_operand (snd (ip_pop (pushed [2])), five_world) =
     Some (chr_cell CHR ''5'', (snd (ip_pop (pushed [2])))\<lparr>ip_position := vector 1 0\<rparr>, five_world)"
  by (simp add: fetch_operand_def forward_five here_five Let_def)

lemma while_option_least:
  "while_option b c s = Some t \<longleftrightarrow> (\<exists>n. t = (c ^^ n) s \<and> \<not> b t \<and> (\<forall>k<n. b ((c ^^ k) s)))"
proof
  assume "while_option b c s = Some t"
  then have ex: "\<exists>k. \<not> b ((c ^^ k) s)" and t: "t = (c ^^ (LEAST k. \<not> b ((c ^^ k) s))) s"
    by (auto simp: while_option_def split: if_splits)
  then have "\<not> b t" "\<forall>k<(LEAST k. \<not> b ((c ^^ k) s)). b ((c ^^ k) s)"
    using LeastI_ex [OF ex] not_less_Least by auto
  with t show "\<exists>n. t = (c ^^ n) s \<and> \<not> b t \<and> (\<forall>k<n. b ((c ^^ k) s))" by blast
next
  assume "\<exists>n. t = (c ^^ n) s \<and> \<not> b t \<and> (\<forall>k<n. b ((c ^^ k) s))"
  then obtain n where n: "t = (c ^^ n) s" "\<not> b t" "\<forall>k<n. b ((c ^^ k) s)" by blast
  then have "(LEAST k. \<not> b ((c ^^ k) s)) = n"
    by (intro Least_equality) (auto simp: not_less [symmetric])
  then show "while_option b c s = Some t" using n by (auto simp: while_option_def)
qed

lemma funpow_forward: "(m_forward ^^ n) (m_forward m) = (m_forward ^^ Suc n) m"
  by (simp add: funpow_swap1)

lemma wrap_in_range: "bounds_for_wrap f = f \<Longrightarrow> fungespace_in_range f p \<Longrightarrow> fungespace_wrap p delta f = (p, f)"
  by (simp add: fungespace_wrap_def bounds_for_wrap_def Let_def split: if_splits)

lemma blank_outside: "fspace_ok f \<Longrightarrow> \<not> fungespace_in_range f p \<Longrightarrow> fungespace_get f p = space_cell"
  by (auto simp: fspace_ok_def bounds_ok_def used_cells_def)

lemma m_forward_at:
  "m_forward (ip\<lparr>ip_position := p\<rparr>, w) =
     (let (q, f) = fungespace_wrap (vector_add p (ip_delta ip)) (ip_delta ip) (w_space w)
      in (ip\<lparr>ip_position := q\<rparr>, w\<lparr>w_space := f\<rparr>))"
  by (simp add: m_forward_def ip_forward_def ip_forward_no_wrap_def Let_def split_beta)

text \<open>A funge-space whose bounds a wrap takes as they are, and a thread that goes along a row or a column of its box.\<close>

definition on_line :: "fungeSpace \<Rightarrow> instructionPointer \<Rightarrow> bool" where
  "on_line f ip \<longleftrightarrow> fspace_ok f \<and> bounds_for_wrap f = f \<and> inside_limits f \<and>
     fspace_vector_is_cardinal (ip_delta ip) \<and> fungespace_in_range f (ip_position ip)"

abbreviation line_place :: "fungeSpace \<Rightarrow> instructionPointer \<Rightarrow> nat \<Rightarrow> funge_vector" where
  "line_place f ip n \<equiv> (next_place f (ip_delta ip) ^^ n) (ip_position ip)"

lemma line_place_in_range: "on_line f ip \<Longrightarrow> fungespace_in_range f (line_place f ip n)"
proof (induction n)
  case (Suc n)
  obtain q f' where "fungespace_wrap (vector_add (line_place f ip n) (ip_delta ip)) (ip_delta ip) f = (q, f')" by fastforce
  then show ?case using Suc wrap_cardinal(2) [of f f "ip_delta ip" "line_place f ip n" q f'] by (simp add: on_line_def)
qed (simp add: on_line_def)

lemma forward_on_line:
  assumes "on_line (w_space w) ip" "p = line_place (w_space w) ip n"
  shows "m_forward (ip\<lparr>ip_position := p\<rparr>, w) = (ip\<lparr>ip_position := line_place (w_space w) ip (Suc n)\<rparr>, w) \<or>
    (\<exists>q. m_forward (ip\<lparr>ip_position := p\<rparr>, w) = (ip\<lparr>ip_position := q\<rparr>, w) \<and> fungespace_get (w_space w) q = space_cell \<and>
       m_forward (ip\<lparr>ip_position := q\<rparr>, w) = (ip\<lparr>ip_position := line_place (w_space w) ip (Suc n)\<rparr>, w))"
proof -
  let ?f = "w_space w" and ?d = "ip_delta ip"
  have ok: "fspace_ok ?f" "bounds_for_wrap ?f = ?f" "inside_limits ?f" "fspace_vector_is_cardinal ?d"
    using assms(1) by (simp_all add: on_line_def)
  have p: "fungespace_in_range ?f p" using line_place_in_range [OF assms(1)] assms(2) by simp
  obtain q f' where run: "fungespace_wrap (vector_add p ?d) ?d ?f = (q, f')" by fastforce
  note wrap = wrap_cardinal [OF ok(1) ok(2) [symmetric] ok(4) p ok(3) run]
  have suc: "line_place ?f ip (Suc n) = next_place ?f ?d p" by (simp add: assms(2))
  show ?thesis
  proof (cases "fungespace_in_range ?f (vector_add p ?d)")
    case True
    then have "next_place ?f ?d p = q" "f' = ?f" using wrap(1,3) by (simp_all add: next_place_def)
    then show ?thesis unfolding suc using run by (simp add: m_forward_at)
  next
    case False
    then have q: "\<not> fungespace_in_range ?f q" "vector_add q ?d = next_place ?f ?d p" using wrap(3) by simp_all
    have "m_forward (ip\<lparr>ip_position := q\<rparr>, w) = (ip\<lparr>ip_position := line_place ?f ip (Suc n)\<rparr>, w)"
      using wrap_in_range [OF ok(2) wrap(2), of ?d] by (simp add: m_forward_at q(2) suc del: funpow.simps)
    moreover have "m_forward (ip\<lparr>ip_position := p\<rparr>, w) = (ip\<lparr>ip_position := q\<rparr>, w)"
      using run wrap(1) by (simp add: m_forward_at)
    ultimately show ?thesis using blank_outside [OF ok(1) q(1)] by blast
  qed
qed

abbreviation scan_blanks :: "mach \<Rightarrow> mach option" where
  "scan_blanks \<equiv> while_option (\<lambda>m. cell_here m = space_cell) m_forward"

lemma scan_blank: "cell_here m = space_cell \<Longrightarrow> scan_blanks m = scan_blanks (m_forward m)"
  by (subst while_option_unfold) simp

lemma scan_stop: "cell_here m \<noteq> space_cell \<Longrightarrow> scan_blanks m = Some m"
  by (subst while_option_unfold) simp

lemma scan_step:
  assumes "on_line (w_space w) ip" "p = line_place (w_space w) ip n"
  shows "scan_blanks (m_forward (ip\<lparr>ip_position := p\<rparr>, w)) =
    scan_blanks (ip\<lparr>ip_position := line_place (w_space w) ip (Suc n)\<rparr>, w)"
  using forward_on_line [OF assms]
proof (elim disjE exE conjE)
  fix q
  assume q: "m_forward (ip\<lparr>ip_position := p\<rparr>, w) = (ip\<lparr>ip_position := q\<rparr>, w)" "fungespace_get (w_space w) q = space_cell"
    "m_forward (ip\<lparr>ip_position := q\<rparr>, w) = (ip\<lparr>ip_position := line_place (w_space w) ip (Suc n)\<rparr>, w)"
  then show ?thesis
    using scan_blank [of "(ip\<lparr>ip_position := q\<rparr>, w)"] by (simp add: cell_here_def)
qed simp

lemma scan_blanks_line:
  assumes "on_line (w_space w) ip" "\<forall>k<n. fungespace_get (w_space w) (line_place (w_space w) ip (Suc k)) = space_cell"
  shows "scan_blanks (m_forward (ip, w)) = scan_blanks (ip\<lparr>ip_position := line_place (w_space w) ip (Suc n)\<rparr>, w)"
  using assms(2)
proof (induction n)
  case 0
  show ?case using scan_step [OF assms(1), of "ip_position ip" 0] by simp
next
  case (Suc n)
  let ?m = "(ip\<lparr>ip_position := line_place (w_space w) ip (Suc n)\<rparr>, w)"
  have "cell_here ?m = space_cell" using Suc.prems by (simp add: cell_here_def)
  then have "scan_blanks ?m = scan_blanks (m_forward ?m)" by (rule scan_blank)
  then show ?case using Suc scan_step [OF assms(1) refl, of "Suc n"] by (simp del: funpow.simps)
qed

lemma skip_spaces_line:
  assumes "on_line (w_space w) ip" "fungespace_get (w_space w) (line_place (w_space w) ip (Suc n)) \<noteq> space_cell"
    and "\<forall>k<n. fungespace_get (w_space w) (line_place (w_space w) ip (Suc k)) = space_cell"
  shows "skip_spaces (ip, w) = Some (ip\<lparr>ip_position := line_place (w_space w) ip (Suc n), ip_needMove := False\<rparr>, w)"
proof -
  let ?m = "(ip\<lparr>ip_position := line_place (w_space w) ip (Suc n)\<rparr>, w)"
  have "cell_here ?m \<noteq> space_cell" using assms(2) by (simp add: cell_here_def)
  then have "scan_blanks (m_forward (ip, w)) = Some ?m" using scan_blanks_line [OF assms(1,3)] scan_stop by simp
  then show ?thesis by (simp add: skip_spaces_def on_ip_def)
qed

lemma skip_spaces_empty_line:
  assumes "on_line (w_space w) ip" "\<forall>n. fungespace_get (w_space w) (line_place (w_space w) ip (Suc n)) = space_cell"
  shows "skip_spaces (ip, w) = None"
proof (rule ccontr)
  let ?at = "\<lambda>p. (ip\<lparr>ip_position := p\<rparr>, w)" and ?place = "line_place (w_space w) ip"
  define inv where "inv m \<longleftrightarrow> (\<exists>n. m = ?at (?place (Suc n))) \<or>
    (\<exists>q n. m = ?at q \<and> fungespace_get (w_space w) q = space_cell \<and> m_forward (?at q) = ?at (?place (Suc n)))" for m
  have next_inv: "inv (m_forward (?at (?place n)))" for n
    using forward_on_line [OF assms(1) refl, of n] unfolding inv_def by metis
  assume "skip_spaces (ip, w) \<noteq> None"
  then obtain t where t: "scan_blanks (m_forward (ip, w)) = Some t" by (auto simp: skip_spaces_def)
  have "inv t"
  proof (rule while_option_rule [OF _ t])
    show "inv (m_forward (ip, w))" using next_inv [of 0] by simp
    show "inv (m_forward m)" if "inv m" "cell_here m = space_cell" for m
      using that(1) next_inv unfolding inv_def by metis
  qed
  then have "cell_here t = space_cell" using assms(2) by (auto simp: inv_def cell_here_def)
  then show False using while_option_stop [OF t] by simp
qed

text \<open>
  C6: the blank as an instruction takes no time. When a thread in code mode stands on a blank and goes along a row or a column of the box, one pass of the main loop
  takes it to the next cell of the line that is no blank, which may lie beyond the edge, where the line goes on at the opposite edge of the box (\<open>next_place\<close>). The
  next pass is again the turn of this thread, in the same tick, so that the cell is executed at once; nothing else has changed, neither in funge-space nor in the
  pointer. If the whole line is blank, the pass never ends. It is assumed that the thread stands within bounds that a wrap takes as they are, because they
  are exact or the box is small enough, and that do not touch the limits of a cell.
\<close>

theorem space_skips:
  assumes "0 \<le> i" "il_ips list (nat i) = Some ip" "ip_mode ip = IpmCODE" "on_line (w_space w) ip"
    and "fungespace_get (w_space w) (ip_position ip) = space_cell"
    and "place = (\<lambda>n. (next_place (w_space w) (ip_delta ip) ^^ n) (ip_position ip))"
  shows "(fungespace_get (w_space w) (place (Suc n)) \<noteq> space_cell \<and>
      (\<forall>k<n. fungespace_get (w_space w) (place (Suc k)) = space_cell) \<longrightarrow>
      interpreter_step cf (i, list, w) = Some (Running
        (i, list\<lparr>il_ips := (il_ips list)(nat i \<mapsto> ip\<lparr>ip_position := place (Suc n), ip_needMove := True\<rparr>)\<rparr>, w))) \<and>
    ((\<forall>n. fungespace_get (w_space w) (place (Suc n)) = space_cell) \<longrightarrow> interpreter_step cf (i, list, w) = None)"
proof -
  have run: "interpreter_step cf (i, list, w) = map_option (\<lambda>m. Running
      (i, list\<lparr>il_ips := (il_ips list)(nat i \<mapsto> fst (thread_forward m))\<rparr>, snd (thread_forward m))) (skip_spaces (ip, w))"
  proof -
    let ?s = "\<lparr>th_list = list, th_world = w, th_index = nat i\<rparr>"
    have "cell_here (ip, w) = space_cell" using assms(5) by (simp add: cell_here_def)
    moreover have "execute_instruction cf space_cell (nat i) ?s =
        map_option (\<lambda>m. Running (True, put_mach (nat i) m ?s)) (skip_spaces (ip, w))"
      using assms(2,3) by (simp add: execute_instruction_def execute_plain_def with_ip_def)
    ultimately show ?thesis
      using assms(1,2)
      by (cases "skip_spaces (ip, w)") (simp_all add: interpreter_step_def with_ip_def bind_run_def put_mach_def Let_def)
  qed
  show ?thesis
  proof (intro conjI impI)
    assume n: "fungespace_get (w_space w) (place (Suc n)) \<noteq> space_cell \<and>
      (\<forall>k<n. fungespace_get (w_space w) (place (Suc k)) = space_cell)"
    then have "skip_spaces (ip, w) = Some (ip\<lparr>ip_position := place (Suc n), ip_needMove := False\<rparr>, w)"
      using skip_spaces_line [OF assms(4)] unfolding assms(6) by blast
    then show "interpreter_step cf (i, list, w) = Some (Running
        (i, list\<lparr>il_ips := (il_ips list)(nat i \<mapsto> ip\<lparr>ip_position := place (Suc n), ip_needMove := True\<rparr>)\<rparr>, w))"
      unfolding run by (simp add: thread_forward_def on_ip_def)
  next
    assume "\<forall>n. fungespace_get (w_space w) (place (Suc n)) = space_cell"
    then have "skip_spaces (ip, w) = None" using skip_spaces_empty_line [OF assms(4)] unfolding assms(6) by blast
    then show "interpreter_step cf (i, list, w) = None" unfolding run by simp
  qed
qed

text \<open>A blank in front of the left edge, on the way to the west: the next cell that is no blank is the one at the right edge.\<close>

definition west_world :: world where
  "west_world = sample_world\<lparr>w_space := fungespace_set 7 (vector 3 4) fungespace_create\<rparr>"

definition west_ip :: instructionPointer where
  "west_ip = sample_ip\<lparr>ip_position := vector 1 4, ip_delta := vector (- 1) 0, ip_mode := IpmCODE\<rparr>"

theorem space_skips_witness:
  "interpreter_step sample_config (0, sample_list\<lparr>il_ips := [0 \<mapsto> west_ip]\<rparr>, west_world) =
     Some (Running (0, sample_list\<lparr>il_ips := [0 \<mapsto> west_ip\<lparr>ip_position := vector 3 4, ip_needMove := True\<rparr>]\<rparr>, west_world))"
proof -
  let ?f = "w_space west_world" and ?place = "\<lambda>n. (next_place (w_space west_world) (ip_delta west_ip) ^^ n) (ip_position west_ip)"
  have f: "?f = fungespace_set 7 (vector 3 4) fungespace_create" by (simp add: west_world_def)
  have get: "fungespace_get ?f q = (if q = vector 3 4 then 7 else space_cell)" for q
    by (simp add: f get_fungespace_set store_ok_create get_create)
  have "\<not> (BOUNDS_TOO_LARGE_x ?f \<or> BOUNDS_TOO_LARGE_y ?f)"
    by (simp add: f BOUNDS_TOO_LARGE_x_def BOUNDS_TOO_LARGE_y_def sample_space_corners SIMPLEBOUNDS_MAX_def cell_order)
  then have line: "on_line ?f west_ip"
    using sample_space_ok
    by (simp add: on_line_def f bounds_for_wrap_def inside_limits_def cardinal_cases west_ip_def in_range_alt sample_space_corners cell_order)
  have "?place (Suc 0) = vector 0 4" "?place (Suc (Suc 0)) = vector 3 4"
    by (simp_all add: next_place_def west_ip_def vector_add_def f in_range_alt sample_space_corners cell_order)
  moreover have "il_ips (sample_list\<lparr>il_ips := [0 \<mapsto> west_ip]\<rparr>) (nat 0) = Some west_ip" "ip_mode west_ip = IpmCODE" "(0 :: int) \<le> 0"
    "fungespace_get ?f (ip_position west_ip) = space_cell"
    by (simp_all add: west_ip_def get)
  ultimately show ?thesis
    using space_skips [of 0 "sample_list\<lparr>il_ips := [0 \<mapsto> west_ip]\<rparr>" west_ip west_world ?place "Suc 0" sample_config] line
    by (simp add: get less_Suc_eq)
qed

lemma fetch_cases:
  assumes "fetch_operand m = Some (c, m')"
  shows "c \<noteq> space_cell \<and> c \<noteq> chr_cell CHR '';'' \<and> cell_here m' = c \<and> (\<exists>n. m' = (m_forward ^^ Suc n) m)"
proof (cases "cell_here (m_forward m) = space_cell \<or> cell_here (m_forward m) = chr_cell CHR '';''")
  case True
  let ?b = "\<lambda>(injump, m). cell_here m = chr_cell CHR '';'' \<or> cell_here m = space_cell \<or> injump"
  let ?start = "(cell_here (m_forward m) = chr_cell CHR '';'', m_forward m)"
  obtain j where loop: "while_option ?b next_instr_step (next_instr_step ?start) = Some (j, m')"
      and c: "c = cell_here m'"
    using True assms by (auto simp: fetch_operand_def find_next_instr_def Let_def split_beta)
  obtain n where "(j, m') = (next_instr_step ^^ n) (next_instr_step ?start)" and stop: "\<not> ?b (j, m')"
    using loop unfolding while_option_least by blast
  then have n: "(j, m') = (next_instr_step ^^ Suc n) ?start"
    by (simp only: funpow_Suc_right comp_apply)
  have "snd ((next_instr_step ^^ k) (b, m1)) = (m_forward ^^ k) m1" for k b m1
    by (induction k) (simp_all add: next_instr_step_def split_beta Let_def)
  from this [of "Suc n"] have "m' = (m_forward ^^ Suc n) (m_forward m)"
    using n by (metis snd_conv)
  then have "m' = (m_forward ^^ Suc (Suc n)) m" by (simp only: funpow_forward)
  then have "\<exists>n. m' = (m_forward ^^ Suc n) m" ..
  with stop c show ?thesis by simp
next
  case False
  then show ?thesis
    using assms by (auto simp: fetch_operand_def Let_def intro!: exI [of _ 0])
qed

lemma frame_fetch:
  assumes "fetch_operand m = Some (c, m')"
  shows "frame m' = frame m"
proof -
  have "frame ((m_forward ^^ k) m) = frame m" for k
    by (induction k) (simp_all add: frames)
  then show ?thesis using fetch_cases [OF assms] by metis
qed

text \<open>
  What \<open>k\<close> takes as its operand (\<open>find_next_instr\<close>) is never a blank or a semicolon, is the cell
  that the instruction pointer then stands on, and that is reached by moving forward only.
\<close>

theorem operand_is_instruction:
  assumes "fetch_operand m = Some (c, m')"
  shows "c \<noteq> space_cell \<and> c \<noteq> chr_cell CHR '';'' \<and> cell_here m' = c \<and> (\<exists>n. m' = (m_forward ^^ Suc n) m)"
  by (rule fetch_cases [OF assms])

theorem operand_is_instruction_witness:
  "\<exists>m'. fetch_operand (snd (ip_pop (pushed [2])), five_world) = Some (53, m') \<and> cell_here m' = 53"
  using operand_is_instruction [OF fetch_five] fetch_five by auto

section \<open>Repetition\<close>

text \<open>The operands of \<open>k\<close> that return, touch no other thread, and leave the mode alone.\<close>

definition plain_operand :: "cell \<Rightarrow> bool" where
  "plain_operand c \<longleftrightarrow>
     c \<notin> chr_cell ` {CHR '' '', CHR '';'', CHR ''\"'', CHR ''('', CHR '')'', CHR ''t'', CHR ''@'', CHR ''q'', CHR ''k'', CHR ''z''} \<and>
     \<not> (chr_cell CHR ''A'' \<le> c \<and> c \<le> chr_cell CHR ''Z'')"

lemma plain_operand_not:
  assumes "plain_operand c"
  shows "c \<noteq> space_cell" "c \<noteq> chr_cell CHR '';''" "c \<noteq> chr_cell CHR ''t''" "c \<noteq> chr_cell CHR ''@''"
    "c \<noteq> chr_cell CHR ''q''" "c \<noteq> chr_cell CHR ''k''" "c \<noteq> chr_cell CHR ''z''" "c \<noteq> chr_cell CHR ''\"''"
    "(chr_cell CHR ''A'' \<le> c \<and> c \<le> chr_cell CHR ''Z'') = False"
  using assms unfolding plain_operand_def by auto

lemma plain_operand_no_load:
  assumes "plain_operand c"
  shows "(c = chr_cell CHR ''('' \<or> c = chr_cell CHR '')'') = False"
proof -
  have "c \<noteq> chr_cell CHR ''(''" "c \<noteq> chr_cell CHR '')''" using assms unfolding plain_operand_def by blast+
  then show ?thesis by blast
qed

text \<open>Only the double quote changes the mode; the two instructions that change files keep it, too.\<close>

lemma mode_io:
  "ip_mode (fst (run_file_output cf m)) = ip_mode (fst m)" "ip_mode (fst (run_system_execute cf m)) = ip_mode (fst m)"
  by (cases m; auto simp: run_file_output_def run_system_execute_def Let_def split_beta ip_reverse_def ip_push_def ip_pop_string_def
      ip_pop_def ip_pop_vector_def ip_simps)+

lemma mode_basic:
  assumes "plain_operand c"
  shows "ip_mode (fst (basic_instruction cf c m)) = ip_mode (fst m)"
proof (cases "c = chr_cell CHR ''o'' \<or> c = chr_cell CHR ''=''")
  case True
  then show ?thesis using mode_io by (auto simp: basic_instruction_def)
next
  case False
  then have "framed_opcode c"
    using plain_operand_not(8) [OF assms] plain_operand_no_load [OF assms] unfolding framed_opcode_def by blast
  then show ?thesis using frame_basic [of c cf m] by (simp add: frame_def)
qed

lemma put_mach_again [simp]: "put_mach p m (put_mach p m' s) = put_mach p m s"
  by (simp add: put_mach_def)

lemma with_ip_put [simp]: "with_ip p (put_mach p m s) f = f m"
  by (simp add: with_ip_def put_mach_def)

lemma execute_plain_operand:
  assumes "plain_operand c" "ip_mode (fst m) = IpmCODE"
  shows "execute_plain cf c p (put_mach p m s) = Some (Running (False, put_mach p (basic_instruction cf c m) s))"
proof -
  obtain ip w where m: "m = (ip, w)" by (cases m)
  have "(ip_mode ip = IpmSTRING) = False" using assms(2) by (simp add: m)
  then show ?thesis
    unfolding execute_plain_def with_ip_put m prod.case
    by (simp only: plain_operand_not [OF assms(1)] plain_operand_no_load [OF assms(1)] if_False put_mach_again)
qed

lemma repeat_operand:
  assumes "plain_operand c" "ip_mode (fst m) = IpmCODE"
  shows "repeat_run n (\<lambda>(p, s). bind_run (execute_plain cf c p s) (\<lambda>(_, s). Some (Running (p, s))))
     (p, put_mach p m s) = Some (Running (p, put_mach p ((basic_instruction cf c ^^ n) m) s))"
  using assms(2)
proof (induction n arbitrary: m)
  case (Suc n)
  have mode: "ip_mode (fst (basic_instruction cf c m)) = IpmCODE"
    using mode_basic [OF assms(1)] Suc.prems by simp
  show ?case
    using Suc.IH [OF mode]
    by (simp add: execute_plain_operand [OF assms(1) Suc.prems] bind_run_def funpow_swap1)
qed simp

text \<open>
  C5: \<open>k\<close> with a positive count \<open>n\<close> returns, and has executed its operand exactly \<open>n\<close> times, at the place of the \<open>k\<close>. Only by the standard
  Funge-109, and if position and delta are as they were before, the instruction pointer is then moved to the operand, so that it is not executed again. The
  operand is the instruction that the code finds for the \<open>k\<close> to repeat; it may be any core instruction, or a cell that is none, except for \<open>\"\<close>, which changes the mode,
  \<open>(\<close> and \<open>)\<close>, \<open>t\<close>, \<open>@\<close>, \<open>q\<close> and \<open>k\<close> itself, and the letters of fingerprints. For \<open>z\<close> the code returns at once: the pointer stays at the \<open>k\<close>, by Funge-109 as well.
\<close>

theorem k_repeats:
  assumes "il_ips (th_list s) p = Some ip" "ip_mode ip = IpmCODE" "ip_pop ip = (n, ip0)" "0 <s n"
    and "fetch_operand (ip0, th_world s) = Some (c, ip1, w1)"
    and "at_k = (ip1\<lparr>ip_position := ip_position ip0\<rparr>, w1)"
  shows "(plain_operand c \<longrightarrow>
      (let m = (basic_instruction cf c ^^ unat n) at_k
       in run_iterate cf p s = Some (Running (put_mach p
         (if cf_standard cf = Stdver109 \<and> ip_position (fst m) = ip_position ip0 \<and> ip_delta (fst m) = ip_delta ip1
          then on_ip (\<lambda>ip. ip\<lparr>ip_position := ip_position ip1\<rparr>) m else m) s)))) \<and>
    (c = chr_cell CHR ''z'' \<longrightarrow> run_iterate cf p s = Some (Running (put_mach p at_k s)))"
proof (intro conjI impI)
  let ?m = "(basic_instruction cf c ^^ unat n) at_k"
  have n: "(n = 0) = False" "(n <s 0) = False"
    using assms(4) by (auto simp: cell_less_iff)
  note enter = with_ip_def [of p s] assms(1,3) option.case prod.case Let_def n if_False assms(5) Option.bind.bind_lunit
  show "let m = ?m in run_iterate cf p s = Some (Running (put_mach p
      (if cf_standard cf = Stdver109 \<and> ip_position (fst m) = ip_position ip0 \<and> ip_delta (fst m) = ip_delta ip1
       then on_ip (\<lambda>ip. ip\<lparr>ip_position := ip_position ip1\<rparr>) m else m) s))"
    if c: "plain_operand c"
  proof -
    have "frame (ip1, w1) = frame (ip0, th_world s)" using frame_fetch [OF assms(5)] .
    then have mode: "ip_mode (fst at_k) = IpmCODE"
      using assms(2,3,6) by (auto simp: frame_def ip_pop_def split_beta ip_simps)
    have delta: "ip_delta (ip1\<lparr>ip_position := q\<rparr>) = ip_delta ip1" for q by simp
    have run: "run_iterate cf p s = skip_operand cf False (ip_delta ip1) (ip_position ip0) (ip_position ip1) p (put_mach p ?m s)"
      unfolding run_iterate_def run_iterate_implement.simps [of cf False p s] enter
      by (simp only: plain_operand_not [OF c] if_False repeat_operand [OF c mode, unfolded assms(6)]
          bind_run_def [of "Some _"] Option.bind.bind_lunit result.case prod.case delta assms(6))
    show ?thesis unfolding run skip_operand_def Let_def by (cases ?m) (auto simp: on_ip_def)
  qed
  show "run_iterate cf p s = Some (Running (put_mach p at_k s))" if "c = chr_cell CHR ''z''"
    unfolding run_iterate_def run_iterate_implement.simps [of cf False p s] enter using that by (simp add: assms(6))
qed

lemma push_five: "basic_instruction cf (chr_cell CHR ''5'') m = on_ip (ip_push 5) m"
  by (simp add: basic_instruction_def)

theorem k_repeats_witness:
  "\<exists>s ip. run_iterate sample_config 0
       (put_mach 0 (pushed [2], five_world) \<lparr>th_list = sample_list, th_world = five_world, th_index = 0\<rparr>) =
     Some (Running s) \<and> il_ips (th_list s) 0 = Some ip \<and> toss ip = [7, 8, 5, 5]"
proof -
  let ?s = "put_mach 0 (pushed [2], five_world) \<lparr>th_list = sample_list, th_world = five_world, th_index = 0\<rparr>"
  have two: "ip_pop (pushed [2]) = (2, snd (ip_pop (pushed [2])))"
    by (simp add: ip_pop_run from_top_def)
  have "(0 :: cell) <s 2" by code_simp
  moreover have "plain_operand (chr_cell CHR ''5'')"
    by (simp add: plain_operand_def)
  moreover have "ip_mode (pushed [2]) = IpmCODE" by (simp add: pushed_def ip_push_def ip_simps sample_ip_def)
  moreover have "il_ips (th_list ?s) 0 = Some (pushed [2])" "th_world ?s = five_world"
    by (simp_all add: put_mach_def)
  moreover have "cf_standard sample_config \<noteq> Stdver109" by (simp add: sample_config_def)
  moreover define m where "m = (basic_instruction sample_config (chr_cell CHR ''5'') ^^ unat (2 :: cell))
      ((snd (ip_pop (pushed [2])))\<lparr>ip_position := vector 1 0, ip_position := ip_position (snd (ip_pop (pushed [2])))\<rparr>,
        five_world)"
  ultimately have "run_iterate sample_config 0 ?s = Some (Running (put_mach 0 m ?s))"
    using k_repeats [of ?s 0 "pushed [2]" 2 _ "chr_cell CHR ''5''" _ _ _ sample_config, OF _ _ two _ _ refl] fetch_five
    unfolding Let_def by auto
  moreover have "unat (2 :: cell) = Suc (Suc 0)" by simp
  then have "toss (fst m) = [7, 8, 5, 5]"
    by (simp only: m_def funpow.simps push_five on_ip_def comp_apply id_apply fst_conv ip_simps)
      (simp add: drop_top_def)
  moreover have "il_ips (th_list (put_mach 0 m ?s)) 0 = Some (fst m)"
    by (simp add: put_mach_def)
  ultimately show ?thesis by blast
qed

end
