(* ===== verification/Runs.thy ===== *)
theory Runs
  imports Instructions
begin

text \<open>
  Runs of the interpreter. The locale \<open>thread_invariant\<close> is the interface between the invariants of
  the thread table and the instructions: what every change of a single machine, a split and a
  termination keep, every instruction (with \<open>k\<close> and its recursion) and every run keep. It is
  interpreted for the table of live threads and for the sandbox.
\<close>

section \<open>Invariants of runs\<close>

lemma with_ip_Some:
  "with_ip p s f = Some (Running r) \<longleftrightarrow> (\<exists>ip. il_ips (th_list s) p = Some ip \<and> f (ip, th_world s) = Some (Running r))"
  by (auto simp: with_ip_def split: option.split)

lemma put_top: "il_top (th_list (put_mach p m s)) = il_top (th_list s)" "th_index (put_mach p m s) = th_index s"
  by (simp_all add: put_mach_def)

lemma threads_index:
  "\<lparr>th_list = th_list s, th_world = th_world s, th_index = n\<rparr> = s\<lparr>th_index := n\<rparr>"
  by (cases s) simp

locale thread_invariant =
  fixes cf :: config and I :: "threads \<Rightarrow> bool" and M :: "mach \<Rightarrow> mach \<Rightarrow> bool"
  assumes M_basic: "M m (basic_instruction cf opcode m)"
    and M_load: "load_unload cf load m = Some m' \<Longrightarrow> M m m'"
    and M_fprint: "I s \<Longrightarrow> il_ips (th_list s) p = Some ip \<Longrightarrow>
      handle_fprint cf opcode (ip, th_world s) = Some (Running m) \<Longrightarrow> M (ip, th_world s) m"
    and M_string: "M (ip, w) (snd (handle_string_mode cf opcode ip), w)"
    and M_forward: "M m (m_forward m)"
    and M_position: "M (ip, w) (ip\<lparr>ip_position := pos\<rparr>, w)"
    and M_needMove: "M (ip, w) (ip\<lparr>ip_needMove := b\<rparr>, w)"
    and M_pop: "M (ip, w) (snd (ip_pop ip), w)"
    and M_reverse: "M (ip, w) (ip_reverse ip, w)"
    and M_trans: "M m m' \<Longrightarrow> M m' m'' \<Longrightarrow> M m m''"
    and put: "I s \<Longrightarrow> il_ips (th_list s) p = Some ip \<Longrightarrow> M (ip, th_world s) m \<Longrightarrow> I (put_mach p m s)"
    and split: "I s \<Longrightarrow> split_thread cf (p, s) = Some (Running (p', s')) \<Longrightarrow> I s'"
    and stop: "I s \<Longrightarrow> stop_thread s = Some (Running s') \<Longrightarrow> I s'"
    and index: "I s \<Longrightarrow> n \<le> il_top (th_list s) \<Longrightarrow> I (s\<lparr>th_index := n\<rparr>)"
    and bound: "I s \<Longrightarrow> th_index s \<le> il_top (th_list s)"
begin

lemma M_refl: "M m m"
  using M_trans [OF M_position [of "fst m" "snd m"] M_position [of _ "snd m" "ip_position (fst m)"]]
  by (cases m) simp

lemma M_while: "while_option b m_forward m = Some m' \<Longrightarrow> M m m'"
  by (erule while_option_rule [where P = "M m", rotated]) (auto intro: M_refl M_trans M_forward)

lemma M_skip_spaces:
  assumes "skip_spaces m = Some m'"
  shows "M m m'"
proof -
  obtain m1 where "while_option (\<lambda>m. cell_here m = space_cell) m_forward (m_forward m) = Some m1"
    and m': "m' = on_ip (\<lambda>ip. ip\<lparr>ip_needMove := False\<rparr>) m1"
    using assms by (auto simp: skip_spaces_def)
  then have "M m m1" by (blast intro: M_trans M_forward M_while)
  moreover have "M m1 m'" unfolding m' on_ip_def using M_needMove [of "fst m1" "snd m1"] by simp
  ultimately show ?thesis by (rule M_trans)
qed

lemma M_skip_comment: "skip_comment m = Some m' \<Longrightarrow> M m m'"
  by (auto simp: skip_comment_def intro: M_trans [OF M_forward M_while])

lemma M_next: "M m (snd (next_instr_step (b, m)))"
  by (simp add: next_instr_step_def M_forward Let_def)

lemma M_find_next: "find_next_instr m c = Some (c', m') \<Longrightarrow> M m m'"
  unfolding find_next_instr_def
  by (auto dest!: while_option_rule [where P = "\<lambda>st. M m (snd st)", rotated 1]
      intro: M_next M_trans [OF _ M_next])

lemma M_fetch: "fetch_operand m = Some (c, m') \<Longrightarrow> M m m'"
  by (auto simp: fetch_operand_def Let_def intro: M_forward M_trans [OF M_forward M_find_next]
      split: if_splits)

lemma execute_plain_keeps:
  assumes "I s" "execute_plain cf opcode p s = Some (Running (b, s'))"
  shows "I s'"
  using assms(2)
  by (auto simp: execute_plain_def with_ip_Some bind_run_Running split_beta Let_def
      intro: put [OF assms(1)] M_string M_fprint [OF assms(1)] M_basic M_load M_skip_spaces M_skip_comment
        split [OF assms(1)] stop [OF assms(1)] split: if_splits)

lemma repeat_run_keeps:
  assumes "\<And>s s'. P s \<Longrightarrow> f s = Some (Running s') \<Longrightarrow> P s'" "P s" "repeat_run n f s = Some (Running s')"
  shows "P s'"
  using assms(2,3)
  by (induction n arbitrary: s) (auto simp: bind_run_Running dest: assms(1))

lemma put_position:
  "I s \<Longrightarrow> il_ips (th_list s) p = Some ip \<Longrightarrow> I (put_mach p (ip\<lparr>ip_position := pos\<rparr>, th_world s) s)"
  by (blast intro: put M_position)

lemma put_fetched:
  assumes "I s" "il_ips (th_list s) p = Some ip" "fetch_operand (snd (ip_pop ip), th_world s) = Some (c, m)"
  shows "I (put_mach p m s)" "I (put_mach p ((fst m)\<lparr>ip_position := pos\<rparr>, snd m) s)"
proof -
  have "M (ip, th_world s) m" using M_trans [OF M_pop M_fetch] assms(3) by blast
  then show "I (put_mach p m s)" "I (put_mach p ((fst m)\<lparr>ip_position := pos\<rparr>, snd m) s)"
    using put [OF assms(1,2)] M_trans [OF _ M_position [of "fst m" "snd m"]] by auto
qed

lemma skip_operand_keeps:
  "I s \<Longrightarrow> skip_operand cf rec d q q' p s = Some (Running s') \<Longrightarrow> I s'"
  by (auto simp: skip_operand_def with_ip_Some intro: put_position split: if_splits)

lemma run_iterate_implement_keeps:
  "run_iterate_implement cf' rec p s = Some r \<Longrightarrow> cf' = cf \<Longrightarrow> I s \<Longrightarrow> r = Running s' \<Longrightarrow> I s'"
proof (induction cf' rec p s r arbitrary: s' rule: run_iterate_implement.raw_induct
    [rotated, consumes 1, case_names Unfold])
  case (Unfold run_iter cf' rec p s r)
  note I = \<open>I s\<close>
  have rec_keeps: "run_iter cf True q s1 = Some (Running s2) \<Longrightarrow> I s1 \<Longrightarrow> I s2" for q s1 s2
    by (rule Unfold(1)) simp_all
  have loop: "I (snd st')"
    if "repeat_run n (\<lambda>(p, s). if c = chr_cell CHR ''t'' then split_thread cf (p, s)
          else if c = chr_cell CHR ''k'' then
            with_ip p s (\<lambda>(ip, w).
              bind_run (run_iter cf True p (put_mach p (ip\<lparr>ip_position := posinstr\<rparr>, w) s)) (\<lambda>s.
              with_ip oldindex s (\<lambda>(ip, w).
                Some (Running (oldindex, if posinstr = ip_position ip
                  then put_mach oldindex (ip\<lparr>ip_position := oldpos\<rparr>, w) s else s)))))
          else bind_run (execute_plain cf c p s) (\<lambda>(_, s). Some (Running (p, s)))) st = Some (Running st')"
      and "I (snd st)" for n c oldindex posinstr oldpos st st'
    using that(1)
    by (rule repeat_run_keeps [where P = "\<lambda>st. I (snd st)", rotated 2])
      (auto simp: bind_run_Running with_ip_Some that(2) split: if_splits
        dest: split [rotated] execute_plain_keeps [rotated] dest!: rec_keeps intro: put_position)
  obtain ip iters ip0 where ip: "il_ips (th_list s) p = Some ip" and pop: "ip_pop ip = (iters, ip0)"
    using Unfold(2) unfolding \<open>r = Running s'\<close> with_ip_Some by fastforce
  note body = Unfold(2) [unfolded \<open>r = Running s'\<close> \<open>cf' = cf\<close> with_ip_def [of p s] ip pop option.case
      prod.case Let_def]
  show ?case
  proof (cases "iters = 0 \<or> iters <s 0")
    case True
    then show ?thesis
      using body put_fetched(1) [OF I ip] put [OF I ip M_trans [OF M_pop M_reverse]]
      by (auto simp: pop split: if_splits)
  next
    case False
    then obtain c ip' w' where fetch: "fetch_operand (ip0, th_world s) = Some (c, ip', w')"
      using body by (auto split: Option.bind_splits)
    let ?s0 = "put_mach p (ip'\<lparr>ip_position := ip_position ip0\<rparr>, w') s"
    have s0: "I ?s0" using put_fetched(2) [OF I ip, of c "(ip', w')"] fetch by (simp add: pop)
    show ?thesis
    proof (cases "c = chr_cell CHR ''z'' \<or> c = chr_cell CHR ''@''")
      case True
      then show ?thesis
        using body False fetch execute_plain_keeps [OF s0]
        by (auto simp: bind_run_Running s0 split: if_splits)
    next
      case not_once: False
      show ?thesis
        using body False fetch s0 not_once
        apply (simp only: option.case Option.bind.bind_lunit prod.case if_False de_Morgan_disj
            simp_thms bind_run_Running)
        apply (elim exE conjE)
        subgoal for st
          by (frule loop) (auto simp only: split_beta snd_conv dest: skip_operand_keeps)
        done
    qed
  qed
qed

lemma execute_instruction_keeps:
  "I s \<Longrightarrow> execute_instruction cf opcode p s = Some (Running (b, s')) \<Longrightarrow> I s'"
  by (auto simp: execute_instruction_def run_iterate_def with_ip_Some bind_run_Running split: if_splits
      dest: run_iterate_implement_keeps execute_plain_keeps)

definition loop_keeps :: "loop_state \<Rightarrow> bool" where
  "loop_keeps = (\<lambda>(i, list, w). - 1 \<le> i \<and> I \<lparr>th_list = list, th_world = w, th_index = nat i\<rparr>)"

lemma step_keeps:
  assumes "loop_keeps st" "interpreter_step cf st = Some (Running st')"
  shows "loop_keeps st'"
proof -
  obtain i list w where st: "st = (i, list, w)" by (cases st)
  let ?s = "\<lparr>th_list = list, th_world = w, th_index = nat i\<rparr>"
  have I: "I ?s" and i: "- 1 \<le> i" using assms(1) by (auto simp: st loop_keeps_def)
  show ?thesis
  proof (cases "i < 0")
    case True
    then show ?thesis
      using assms(2) index [OF I, of "il_top list"] by (auto simp: st loop_keeps_def interpreter_step_def)
  next
    case False
    then obtain m noTick s ip where ex: "execute_instruction cf (cell_here m) (nat i) ?s = Some (Running (noTick, s))"
      and ip: "il_ips (th_list s) (th_index s) = Some ip"
      and st': "st' = (let s' = put_mach (th_index s) (thread_forward (ip, th_world s)) s
        in (if noTick then int (th_index s) else int (th_index s) - 1, th_list s', th_world s'))"
      using assms(2) by (auto simp: st interpreter_step_def Let_def with_ip_Some bind_run_Running put_top)
    let ?s' = "put_mach (th_index s) (thread_forward (ip, th_world s)) s"
    have "I s" using execute_instruction_keeps [OF I ex] .
    moreover have "M (ip, th_world s) (thread_forward (ip, th_world s))"
      by (simp add: thread_forward_def on_ip_def M_forward M_needMove)
    ultimately have I': "I ?s'" using put ip by blast
    have "I (?s'\<lparr>th_index := nat (fst st')\<rparr>)"
      using index [OF I', of "nat (fst st')"] bound [OF I'] by (auto simp: st' put_top Let_def)
    then show ?thesis by (simp add: st' loop_keeps_def Let_def threads_index)
  qed
qed

lemma reaches_keeps: "reaches cf st st' \<Longrightarrow> loop_keeps st \<Longrightarrow> loop_keeps st'"
  by (induction rule: reaches.induct) (auto intro: step_keeps)

end

section \<open>The thread table\<close>

text \<open>
  The table holds an instruction pointer in exactly the places up to its top, fits its allocation,
  and the thread index is one of the live places.
\<close>

definition filled :: "ipList \<Rightarrow> bool" where
  "filled l \<longleftrightarrow> (\<forall>i. (il_ips l i = None) = (il_top l < i)) \<and> il_top l < il_size l"

definition table_ok :: "threads \<Rightarrow> bool" where
  "table_ok s \<longleftrightarrow> filled (th_list s) \<and> th_index s \<le> il_top (th_list s)"

lemma filledI: "(\<And>i. (il_ips l i = None) = (il_top l < i)) \<Longrightarrow> il_top l < il_size l \<Longrightarrow> filled l"
  by (simp add: filled_def)

lemma filled_None: "filled l \<Longrightarrow> (il_ips l i = None) = (il_top l < i)"
  by (simp add: filled_def)

lemma table_ok_put: "table_ok s \<Longrightarrow> il_ips (th_list s) p = Some ip \<Longrightarrow> table_ok (put_mach p m s)"
  by (simp add: table_ok_def put_mach_def filled_def) (metis option.distinct(1))

lemma duplicate_slots:
  assumes "n \<le> il_top l" "iplist_duplicate_ip al pool df l n f = Some (r, l', f')" "r \<noteq> -1"
  shows "\<exists>dup. ip_duplicate_in_place al df (the (il_ips l n)) = Some dup \<and> r = int n \<and>
    il_top l' = Suc (il_top l) \<and> (il_top l < il_size l \<longrightarrow> il_top l' < il_size l') \<and>
    il_ips l' = (\<lambda>i. if i \<le> n then il_ips l i
       else if i = Suc n then
         Some ((fst (ip_forward (ip_reverse dup) f))\<lparr>ip_ID := of_nat (il_highestID l + 1)\<rparr>)
       else if i \<le> Suc (il_top l) then il_ips l (i - 1) else il_ips l i)"
  using assms
  by (auto simp: iplist_duplicate_ip_def Let_def split_beta move_up_spec IP_ALLOCCHUNKSIZE_def fun_eq_iff
      split: if_splits option.splits)

lemma duplicate_fails: "iplist_duplicate_ip al pool df l n f = Some (-1, l', f') \<Longrightarrow> l' = l \<and> f' = f"
  by (auto simp: iplist_duplicate_ip_def Let_def split_beta split: if_splits option.splits)

lemma split_thread_cases:
  assumes "split_thread cf (p, s) = Some (Running (p', s'))"
  obtains (Split) r f' where
      "iplist_duplicate_ip (cf_al cf) (cf_pool cf) (cf_disable_fingerprints cf) (th_list s)
         (th_index s) (w_space (th_world s)) = Some (r, th_list s', f')" "r \<noteq> -1"
      "s' = s\<lparr>th_list := th_list s', th_world := (th_world s)\<lparr>w_space := f'\<rparr>, th_index := nat r\<rparr>"
      "p' = (if th_index s < p then p + 1 else p)"
  | (Fail) ip where "il_ips (th_list s) p = Some ip" "s' = put_mach p (ip_reverse ip, th_world s) s" "p' = p"
proof -
  obtain r l f where dup: "iplist_duplicate_ip (cf_al cf) (cf_pool cf) (cf_disable_fingerprints cf)
      (th_list s) (th_index s) (w_space (th_world s)) = Some (r, l, f)"
    using assms by (auto simp: split_thread_def split: option.splits)
  show ?thesis
  proof (cases "r = -1")
    case True
    then have "l = th_list s" "f = w_space (th_world s)" using dup duplicate_fails by blast+
    then show ?thesis
      using assms dup True Fail by (auto simp: split_thread_def with_ip_Some on_ip_def)
  next
    case False
    then show ?thesis using assms dup by (intro Split) (auto simp: split_thread_def)
  qed
qed

lemma table_ok_split:
  assumes "table_ok s" "split_thread cf (p, s) = Some (Running (p', s'))"
  shows "table_ok s'"
  using assms(2)
proof (cases rule: split_thread_cases)
  case (Split r f')
  have ok: "filled (th_list s)" "th_index s \<le> il_top (th_list s)"
    using assms(1) by (simp_all add: table_ok_def)
  from duplicate_slots [OF ok(2) Split(1,2)]
  obtain dup where slots: "r = int (th_index s)" "il_top (th_list s') = Suc (il_top (th_list s))"
    "il_top (th_list s') < il_size (th_list s')"
    "il_ips (th_list s') = (\<lambda>i. if i \<le> th_index s then il_ips (th_list s) i
       else if i = Suc (th_index s) then Some dup
       else if i \<le> Suc (il_top (th_list s)) then il_ips (th_list s) (i - 1) else il_ips (th_list s) i)"
    using ok(1) by (auto simp: filled_def simp del: One_nat_def)
  have "filled (th_list s')"
    using ok(2) slots(3) by (intro filledI) (auto simp: slots(2,4) filled_None [OF ok(1)])
  moreover have "th_index s' = th_index s" by (subst Split(3)) (simp add: slots(1))
  ultimately show ?thesis using ok(2) by (simp add: table_ok_def slots(2))
next
  case (Fail ip)
  then show ?thesis using assms(1) table_ok_put by blast
qed

lemma terminate_slots:
  assumes "n \<le> il_top l" "0 < il_top l" "iplist_terminate_ip l n = (m, l')"
  shows "m = n - 1" "il_top l' = il_top l - 1" "il_size l' = il_size l"
    "il_ips l' = (\<lambda>i. if i < n then il_ips l i else if i < il_top l then il_ips l (i + 1)
       else if i = il_top l then None else il_ips l i)"
  using assms by (auto simp: iplist_terminate_ip_def Let_def move_down_spec fun_eq_iff)

lemma stop_thread_cases:
  assumes "stop_thread s = Some (Running s')"
  obtains l m ip where "0 < il_top (th_list s)" "iplist_terminate_ip (th_list s) (th_index s) = (m, l)"
    "il_ips l m = Some ip"
    "s' = put_mach m (ip\<lparr>ip_needMove := False\<rparr>, th_world s) (s\<lparr>th_list := l, th_index := m\<rparr>)"
proof -
  obtain m l where l: "iplist_terminate_ip (th_list s) (th_index s) = (m, l)" by fastforce
  then show ?thesis
    using assms that [of m l] by (auto simp: stop_thread_def with_ip_Some on_ip_def Let_def split: if_splits)
qed

lemma table_ok_stop:
  assumes "table_ok s" "stop_thread s = Some (Running s')"
  shows "table_ok s'"
proof -
  from assms(2) obtain l m ip where top: "0 < il_top (th_list s)"
    and l: "iplist_terminate_ip (th_list s) (th_index s) = (m, l)" "il_ips l m = Some ip"
    and s': "s' = put_mach m (ip\<lparr>ip_needMove := False\<rparr>, th_world s) (s\<lparr>th_list := l, th_index := m\<rparr>)"
    by (rule stop_thread_cases)
  have "th_index s \<le> il_top (th_list s)" using assms(1) by (simp add: table_ok_def)
  note slots = terminate_slots [OF this top l(1)]
  have ok: "filled (th_list s)" using assms(1) by (simp add: table_ok_def)
  then have "il_top (th_list s) < il_size (th_list s)" by (simp add: filled_def)
  then have "filled l"
    using top \<open>th_index s \<le> il_top (th_list s)\<close>
    by (intro filledI) (auto simp: slots filled_None [OF ok])
  then have "table_ok (s\<lparr>th_list := l, th_index := m\<rparr>)"
    using assms(1) by (simp add: table_ok_def slots diff_le_mono)
  then show ?thesis using l(2) by (simp add: s' table_ok_put)
qed

interpretation table: thread_invariant cf table_ok "\<lambda>_ _. True"
  by unfold_locales
    (erule (1) table_ok_put table_ok_split table_ok_stop | simp add: table_ok_def)+

section \<open>The sandbox along a run\<close>

definition sandbox_ok :: "(byte list \<Rightarrow> byte list option) \<Rightarrow> threads \<Rightarrow> bool" where
  "sandbox_ok files s \<longleftrightarrow> table_ok s \<and> other_files (th_world s) = files(turt_filename := None) \<and>
     (\<forall>p ip. il_ips (th_list s) p = Some ip \<longrightarrow> ip_sandboxed ip)"

lemma sandboxed_moves [simp]:
  "ip_sandboxed (fst (ip_forward ip f)) = ip_sandboxed ip" "ip_sandboxed (ip\<lparr>ip_ID := n\<rparr>) = ip_sandboxed ip"
  "ip_sandboxed (ip\<lparr>ip_needMove := b\<rparr>) = ip_sandboxed ip" "ip_sandboxed (ip\<lparr>ip_position := q\<rparr>) = ip_sandboxed ip"
  by (simp_all add: ip_sandboxed_def ip_forward_def ip_forward_no_wrap_def Let_def split_beta)

lemma duplicate_sandboxed:
  "ip_duplicate_in_place al df old = Some new \<Longrightarrow> ip_sandboxed old \<Longrightarrow> ip_sandboxed new"
  by (cases df) (auto simp: ip_duplicate_in_place_def Let_def manager_duplicate_def ip_sandboxed_def
      split: option.splits if_splits)

lemma sandbox_ok_put:
  "sandbox_ok files s \<Longrightarrow> il_ips (th_list s) p = Some ip \<Longrightarrow> confined (ip, th_world s) m \<Longrightarrow>
     sandbox_ok files (put_mach p m s)"
  using table_ok_put by (auto simp: sandbox_ok_def put_mach_def confined_def)

lemma sandbox_ok_split:
  assumes "sandbox_ok files s" "split_thread cf (p, s) = Some (Running (p', s'))"
  shows "sandbox_ok files s'"
  using assms(2)
proof (cases rule: split_thread_cases)
  case (Split r f')
  have n: "th_index s \<le> il_top (th_list s)" "filled (th_list s)"
    using assms(1) by (simp_all add: sandbox_ok_def table_ok_def)
  then obtain parent where parent: "il_ips (th_list s) (th_index s) = Some parent"
    using filled_None by fastforce
  obtain dup where dup: "ip_duplicate_in_place (cf_al cf) (cf_disable_fingerprints cf) parent = Some dup"
    and slots: "il_ips (th_list s') = (\<lambda>i. if i \<le> th_index s then il_ips (th_list s) i
       else if i = Suc (th_index s) then
         Some ((fst (ip_forward (ip_reverse dup) (w_space (th_world s))))
           \<lparr>ip_ID := of_nat (il_highestID (th_list s) + 1)\<rparr>)
       else if i \<le> Suc (il_top (th_list s)) then il_ips (th_list s) (i - 1) else il_ips (th_list s) i)"
    using duplicate_slots [OF n(1) Split(1,2)] parent by auto
  have safe: "il_ips (th_list s) q = Some ip \<Longrightarrow> ip_sandboxed ip" for q ip
    using assms(1) by (auto simp: sandbox_ok_def)
  have "ip_sandboxed ip" if "il_ips (th_list s') q = Some ip" for q ip
    using that safe duplicate_sandboxed [OF dup safe [OF parent]] by (auto simp: slots split: if_splits)
  moreover have "table_ok s'" using table_ok_split assms by (auto simp: sandbox_ok_def)
  moreover have "other_files (th_world s') = files(turt_filename := None)"
    using assms(1) by (subst Split(3)) (simp add: sandbox_ok_def)
  ultimately show ?thesis by (auto simp: sandbox_ok_def)
next
  case (Fail ip)
  then show ?thesis using sandbox_ok_put assms(1) by (simp add: confined_ip)
qed

lemma sandbox_ok_stop:
  assumes "sandbox_ok files s" "stop_thread s = Some (Running s')"
  shows "sandbox_ok files s'"
proof -
  from assms(2) obtain l m ip where top: "0 < il_top (th_list s)"
    and l: "iplist_terminate_ip (th_list s) (th_index s) = (m, l)" "il_ips l m = Some ip"
    and s': "s' = put_mach m (ip\<lparr>ip_needMove := False\<rparr>, th_world s) (s\<lparr>th_list := l, th_index := m\<rparr>)"
    by (rule stop_thread_cases)
  have ok: "table_ok s" using assms(1) by (simp add: sandbox_ok_def)
  then have n: "th_index s \<le> il_top (th_list s)" by (simp add: table_ok_def)
  have safe: "il_ips (th_list s) q = Some ip \<Longrightarrow> ip_sandboxed ip" for q ip
    using assms(1) by (auto simp: sandbox_ok_def)
  have "ip_sandboxed ip" if "il_ips l q = Some ip" for q ip
    using that safe by (auto simp: terminate_slots(4) [OF n top l(1)] split: if_splits)
  then show ?thesis
    using assms(1) table_ok_stop [OF ok assms(2)] l(2) by (auto simp: sandbox_ok_def s' put_mach_def)
qed

lemma sandbox_invariant:
  assumes "cf_sandbox cf"
  shows "thread_invariant cf (sandbox_ok files) confined"
proof
  show "confined m (basic_instruction cf opcode m)" for opcode m using basic_confined [OF assms] .
  show "confined m m'" if "load_unload cf load m = Some m'" for load m m' using load_unload_confined [OF assms that] .
  show "confined (ip, th_world s) m"
    if "sandbox_ok files s" "il_ips (th_list s) p = Some ip"
      "handle_fprint cf opcode (ip, th_world s) = Some (Running m)" for s p ip opcode m
    using that by (intro handle_fprint_confined) (auto simp: sandbox_ok_def)
  show "confined (ip, w) (snd (handle_string_mode cf opcode ip), w)" for ip w opcode
    by (rule confined_ip) (simp add: handle_string_mode_def ip_sandboxed_def ip_push_def ip_simps)
  show "confined m (m_forward m)" for m by (simp add: confined_frame frames)
  show "confined (ip, w) (snd (ip_pop ip), w)" "confined (ip, w) (ip_reverse ip, w)"
    "confined (ip, w) (ip\<lparr>ip_position := pos\<rparr>, w)" "confined (ip, w) (ip\<lparr>ip_needMove := b\<rparr>, w)"
    for ip w pos b by (simp_all add: confined_ip)
  show "th_index s \<le> il_top (th_list s)" if "sandbox_ok files s" for s
    using that by (simp add: sandbox_ok_def table_ok_def)
  show "sandbox_ok files (s\<lparr>th_index := n\<rparr>)" if "sandbox_ok files s" "n \<le> il_top (th_list s)" for s n
    using that by (simp add: sandbox_ok_def table_ok_def)
qed (blast intro: confined_trans sandbox_ok_put sandbox_ok_split sandbox_ok_stop)+

section \<open>No null pointer\<close>

lemma with_ip_Crashed:
  "with_ip p s f = Some Crashed \<longleftrightarrow> il_ips (th_list s) p = None \<or>
     (\<exists>ip. il_ips (th_list s) p = Some ip \<and> f (ip, th_world s) = Some Crashed)"
  by (auto simp: with_ip_def split: option.split)

lemma split_no_crash:
  assumes "il_ips (th_list s) p = Some ip"
  shows "split_thread cf (p, s) \<noteq> Some Crashed"
  by (auto simp: split_thread_def with_ip_Crashed assms Let_def
      split: option.splits if_splits prod.splits dest: duplicate_fails)

lemma stop_no_crash:
  assumes "table_ok s"
  shows "stop_thread s \<noteq> Some Crashed"
proof
  assume crash: "stop_thread s = Some Crashed"
  then have top: "0 < il_top (th_list s)" by (auto simp: stop_thread_def split: if_splits)
  obtain m l where l: "iplist_terminate_ip (th_list s) (th_index s) = (m, l)" by fastforce
  have n: "th_index s \<le> il_top (th_list s)" and ok: "filled (th_list s)"
    using assms by (simp_all add: table_ok_def)
  have "il_ips l m \<noteq> None"
    using top n by (auto simp: terminate_slots [OF n top l] filled_None [OF ok] simp del: not_None_eq)
  then show False using crash top l by (auto simp: stop_thread_def with_ip_Crashed Let_def)
qed

text \<open>
  The instruction of a fingerprint that the thread at \<open>p\<close> calls when it executes the opcode \<open>c\<close>, and the state it is called in: the top of the
  stack of a letter, outside string mode.
\<close>

definition finger_call :: "cell \<Rightarrow> nat \<Rightarrow> threads \<Rightarrow> fingerprintOpcode \<Rightarrow> mach \<Rightarrow> bool" where
  "finger_call c p s func m \<longleftrightarrow>
     il_ips (th_list s) p = Some (fst m) \<and> th_world s = snd m \<and> ip_mode (fst m) \<noteq> IpmSTRING \<and>
     chr_cell CHR ''A'' \<le> c \<and> c \<le> chr_cell CHR ''Z'' \<and>
     (let stack = ip_fingerOpcodes (fst m) (unat (c - chr_cell CHR ''A''))
      in 0 < ops_top stack \<and> ops_entries stack (ops_top stack - 1) = Some func)"

text \<open>\<open>k\<close> executes its operand again and again at its own place: one round.\<close>

definition operand_round :: "config \<Rightarrow> cell \<Rightarrow> nat \<times> threads \<Rightarrow> (nat \<times> threads) result option" where
  "operand_round cf c st = (let (p, s) = st in bind_run (execute_plain cf c p s) (\<lambda>(_, s). Some (Running (p, s))))"

text \<open>The instructions of fingerprints that are called while the thread at \<open>p\<close> executes the cell it stands on.\<close>

inductive calls :: "config \<Rightarrow> nat \<Rightarrow> threads \<Rightarrow> fingerprintOpcode \<Rightarrow> mach \<Rightarrow> bool" for cf p s where
  direct: "finger_call (cell_here m) p s func m \<Longrightarrow> calls cf p s func m"
| repeated: "il_ips (th_list s) p = Some ip \<Longrightarrow> cell_here (ip, th_world s) = chr_cell CHR ''k'' \<Longrightarrow>
    fetch_operand (snd (ip_pop ip), th_world s) = Some (c, ip1, w1) \<Longrightarrow>
    repeat_run j (operand_round cf c) (p, put_mach p (ip1\<lparr>ip_position := ip_position (snd (ip_pop ip))\<rparr>, w1) s) =
      Some (Running (p', s')) \<Longrightarrow>
    finger_call c p' s' func m \<Longrightarrow> calls cf p s func m"

lemma handle_fprint_no_crash:
  assumes "benign cf" "il_ips (th_list s) p = Some ip" "ip_mode ip \<noteq> IpmSTRING"
    and "chr_cell CHR ''A'' \<le> c" "c \<le> chr_cell CHR ''Z''"
    and "\<And>func m. finger_call c p s func m \<Longrightarrow> \<not> null_read cf func m"
  shows "handle_fprint cf c (ip, th_world s) \<noteq> Some Crashed"
proof -
  have "run_opcode cf func (ip, th_world s) \<noteq> Some Crashed"
    if "0 < ops_top (ip_fingerOpcodes ip (unat (c - chr_cell CHR ''A'')))"
      "ops_entries (ip_fingerOpcodes ip (unat (c - chr_cell CHR ''A'')))
        (ops_top (ip_fingerOpcodes ip (unat (c - chr_cell CHR ''A''))) - 1) = Some func" for func
  proof -
    have "finger_call c p s func (ip, th_world s)" using that assms(2-5) by (simp only: finger_call_def fst_conv snd_conv Let_def simp_thms)
    then show ?thesis by (intro run_opcode_no_crash [OF assms(1)] assms(6))
  qed
  then show ?thesis by (simp add: handle_fprint_def Let_def split: option.split)
qed

lemma execute_plain_no_crash:
  assumes "table_ok s" "il_ips (th_list s) p = Some ip" "benign cf"
    and "\<And>func m. finger_call c p s func m \<Longrightarrow> \<not> null_read cf func m"
  shows "execute_plain cf c p s \<noteq> Some Crashed"
  using stop_no_crash [OF assms(1)] split_no_crash [OF assms(2)] handle_fprint_no_crash [OF assms(3,2) _ _ _ assms(4)]
  by (auto simp: execute_plain_def with_ip_Crashed assms(2) bind_run_Crashed split_beta Let_def
      split: if_splits)

lemma execute_plain_top:
  assumes "c \<noteq> chr_cell CHR ''t''" "c \<noteq> chr_cell CHR ''@''" "execute_plain cf c p s = Some (Running (b, s'))"
  shows "il_top (th_list s') = il_top (th_list s)"
  using assms
  by (auto simp: execute_plain_def with_ip_Some bind_run_Running split_beta Let_def put_mach_def split: if_splits)

definition live :: "nat \<Rightarrow> threads \<Rightarrow> bool" where
  "live p s \<longleftrightarrow> p \<le> il_top (th_list s)"

lemma live_Some: "table_ok s \<Longrightarrow> live p s \<Longrightarrow> \<exists>ip. il_ips (th_list s) p = Some ip"
  using filled_None [of "th_list s" p] by (auto simp: table_ok_def live_def)

lemma live_put [simp]: "live q (put_mach p m s) = live q s"
  by (simp add: live_def put_top)

lemma split_live:
  assumes "table_ok s" "live p s" "live q s" "split_thread cf (p, s) = Some (Running (p', s'))"
  shows "live p' s' \<and> live q s'"
  using assms(4)
proof (cases rule: split_thread_cases)
  case (Split r f')
  have n: "th_index s \<le> il_top (th_list s)" using assms(1) by (simp add: table_ok_def)
  then show ?thesis using duplicate_slots [OF n Split(1,2)] assms(2,3) Split(4) by (auto simp: live_def)
qed (use assms in auto)

lemma repeat_run_no_crash:
  assumes "\<And>s. P s \<Longrightarrow> f s \<noteq> Some Crashed" "\<And>s s'. P s \<Longrightarrow> f s = Some (Running s') \<Longrightarrow> P s'" "P s"
  shows "repeat_run n f s \<noteq> Some Crashed"
  using assms(3)
  by (induction n arbitrary: s) (auto simp: bind_run_Crashed dest: assms(1,2))

lemma repeat_run_invariant:
  assumes "\<And>s s'. P s \<Longrightarrow> f s = Some (Running s') \<Longrightarrow> P s'" "P s" "repeat_run n f s = Some (Running s')"
  shows "P s'"
  using assms(2,3)
  by (induction n arbitrary: s) (auto simp: bind_run_Running dest: assms(1))

lemma repeat_run_snoc: "repeat_run (Suc n) f s = bind_run (repeat_run n f s) f"
proof (induction n arbitrary: s)
  case 0
  show ?case by (cases "f s") (auto simp: bind_run_def split: result.split)
next
  case (Suc n)
  show ?case
  proof (cases "f s")
    case (Some r)
    then show ?thesis using Suc by (cases r) (simp_all add: bind_run_def)
  qed (simp add: bind_run_def)
qed

lemma run_iterate_no_crash:
  assumes "table_ok s" "il_ips (th_list s) p = Some ip" "benign cf"
    and calls: "\<And>c ip1 w1 j p' s' func m. fetch_operand (snd (ip_pop ip), th_world s) = Some (c, ip1, w1) \<Longrightarrow>
      repeat_run j (operand_round cf c) (p, put_mach p (ip1\<lparr>ip_position := ip_position (snd (ip_pop ip))\<rparr>, w1) s) =
        Some (Running (p', s')) \<Longrightarrow> finger_call c p' s' func m \<Longrightarrow> \<not> null_read cf func m"
    and "\<And>c m. fetch_operand (snd (ip_pop ip), th_world s) = Some (c, m) \<Longrightarrow> c \<noteq> chr_cell CHR ''k''"
  shows "run_iterate cf p s \<noteq> Some Crashed"
proof
  assume crash: "run_iterate cf p s = Some Crashed"
  obtain iters ip0 where pop: "ip_pop ip = (iters, ip0)" by fastforce
  note body = crash [unfolded run_iterate_def run_iterate_implement.simps [of cf False p s]
      with_ip_def [of p s] assms(2) pop option.case prod.case Let_def]
  then obtain c ip' w' where fetch: "fetch_operand (ip0, th_world s) = Some (c, ip', w')"
      and iters: "iters \<noteq> 0" "\<not> iters <s 0"
    by (auto split: Option.bind_splits if_splits)
  have no_k: "c \<noteq> chr_cell CHR ''k''" using assms(5) fetch by (simp add: pop)
  let ?s = "put_mach p (ip'\<lparr>ip_position := ip_position ip0\<rparr>, w') s"
  let ?f = "\<lambda>(p, s). if c = chr_cell CHR ''t'' then split_thread cf (p, s)
                else bind_run (execute_plain cf c p s) (\<lambda>(_, s). Some (Running (p, s)))"
  define P where "P q st \<longleftrightarrow> table_ok (snd st) \<and> live (fst st) (snd st) \<and> live q (snd st) \<and>
    (\<exists>j. repeat_run j ?f (p, ?s) = Some (Running st))" for q and st :: "nat \<times> threads"
  have ok: "table_ok ?s" "live p ?s" "live (th_index ?s) ?s"
    using assms(1) table_ok_put [OF assms(1,2)] filled_None [of "th_list s" p] assms(2)
    by (auto simp: table_ok_def live_def put_top) 
  then obtain ip1 where ip1: "il_ips (th_list ?s) p = Some ip1" using live_Some by blast
  have no_null: "\<not> null_read cf func m" if called: "P q (p', s')" "finger_call c p' s' func m" for q p' s' func m
  proof -
    obtain j where j: "repeat_run j ?f (p, ?s) = Some (Running (p', s'))" using called(1) unfolding P_def by blast
    have "c \<noteq> chr_cell CHR ''t''" using called(2) by (auto simp: finger_call_def)
    then have "?f = operand_round cf c" by (simp add: operand_round_def fun_eq_iff)
    with calls [of c ip' w' j p' s' func m] fetch j called(2) show ?thesis by (simp add: pop)
  qed
  have safe: "?f st \<noteq> Some Crashed" if P: "P q st" for q st
  proof -
    obtain p' s' where st: "st = (p', s')" by (cases st)
    obtain ip'' where ip'': "il_ips (th_list s') p' = Some ip''" using live_Some [of s' p'] P by (auto simp: P_def st)
    have "execute_plain cf c p' s' \<noteq> Some Crashed"
      using P no_null [of q p' s'] by (intro execute_plain_no_crash [OF _ ip'' assms(3)]) (auto simp: P_def st)
    then show ?thesis using split_no_crash [OF ip''] by (auto simp: st bind_run_Crashed split: if_splits)
  qed
  have step: "P q st'" if st: "P q st" "?f st = Some (Running st')" "c \<noteq> chr_cell CHR ''@''" for q st st'
  proof -
    obtain j where "repeat_run j ?f (p, ?s) = Some (Running st)" using st(1) unfolding P_def by blast
    then have "repeat_run (Suc j) ?f (p, ?s) = Some (Running st')" unfolding repeat_run_snoc using st(2) by (simp add: bind_run_def)
    then have more: "\<exists>j. repeat_run j ?f (p, ?s) = Some (Running st')" by blast
    show ?thesis
  proof (cases "c = chr_cell CHR ''t''")
    case True
    then show ?thesis
      using st(1,2) table_ok_split [of "snd st" cf "fst st"] split_live [of "snd st" "fst st" q cf] more
      by (cases st; cases st') (simp add: P_def)
  next
    case False
    then obtain b s' where "execute_plain cf c (fst st) (snd st) = Some (Running (b, s'))" "st' = (fst st, s')"
      using st(2) by (cases st) (auto simp: bind_run_Running)
    then show ?thesis
      using st(1) table.execute_plain_keeps execute_plain_top [OF False st(3)] more by (auto simp: P_def live_def)
  qed
  qed
  show False
  proof (cases "c = chr_cell CHR ''z'' \<or> c = chr_cell CHR ''@''")
    case True
    then have not_letter: "\<not> finger_call c p ?s func m" for func m by (auto simp: finger_call_def)
    from True show False
      using body fetch iters execute_plain_no_crash [OF ok(1) ip1 assms(3), of c] not_letter
      by (auto simp: bind_run_Crashed split: if_splits)
  next
    case not_once: False
    then have once: "c \<noteq> chr_cell CHR ''z''" "c \<noteq> chr_cell CHR ''@''" by blast+
    have delta: "ip_delta (ip'\<lparr>ip_position := q\<rparr>) = ip_delta ip'" for q by simp
    have "repeat_run 0 ?f (p, ?s) = Some (Running (p, ?s))" by simp
    then have start: "P (th_index ?s) (p, ?s)" using ok unfolding P_def fst_conv snd_conv by blast
    have "bind_run (repeat_run (unat iters) ?f (p, ?s)) (\<lambda>(p, s).
        skip_operand cf False (ip_delta ip') (ip_position ip0) (ip_position ip')
          (if c = chr_cell CHR ''t'' then th_index ?s else p) s) = Some Crashed"
      using body
      by (simp only: fetch iters once no_k option.case Option.bind.bind_lunit prod.case if_False delta)
    moreover have "repeat_run (unat iters) ?f (p, ?s) \<noteq> Some Crashed"
      by (rule repeat_run_no_crash [where P = "P (th_index ?s)", OF safe step start]) (assumption | rule once)+
    ultimately obtain st where st: "repeat_run (unat iters) ?f (p, ?s) = Some (Running st)"
      "skip_operand cf False (ip_delta ip') (ip_position ip0) (ip_position ip')
          (if c = chr_cell CHR ''t'' then th_index ?s else fst st) (snd st) = Some Crashed"
      unfolding bind_run_Crashed split_beta by blast
    have "P (th_index ?s) st"
      by (rule repeat_run_invariant [where P = "P (th_index ?s)", OF step start st(1)]) (assumption | rule once)+
    then show False
      using st(2) live_Some [of "snd st" "fst st"] live_Some [of "snd st" "th_index ?s"]
      by (auto simp: P_def skip_operand_def with_ip_Crashed split: if_splits)
  qed
qed

section \<open>Properties of runs\<close>

lemma create_filled:
  assumes "iplist_create al pool = Some l"
  shows "filled l \<and> (\<forall>p ip. il_ips l p = Some ip \<longrightarrow> ip_sandboxed ip)"
proof -
  obtain ip where ip: "ip_create_in_place al = Some ip" and
    l: "l = \<lparr>il_size = IP_ALLOCCHUNKSIZE, il_top = 0, il_highestID = 0, il_ips = (\<lambda>i. if i = 0 then Some ip else None)\<rparr>"
    using assms by (auto simp: iplist_create_def split: if_splits option.splits)
  have "ip_sandboxed ip"
    using ip by (auto simp: ip_create_in_place_def ip_sandboxed_def split: option.splits)
  moreover have "filled l" by (rule filledI) (simp_all add: l IP_ALLOCCHUNKSIZE_def)
  ultimately show ?thesis by (simp add: l)
qed

lemma start_table:
  assumes "interpreter_start cf files stdin filename = Some (i, l, w)"
  shows "table_ok \<lparr>th_list = l, th_world = w, th_index = nat i\<rparr>" "- 1 \<le> i" "w_files w = files"
    "\<And>p ip. il_ips l p = Some ip \<Longrightarrow> ip_sandboxed ip"
proof -
  obtain okay space where load: "fungespace_load (files filename) (w_space (initial_world cf files stdin)) = (okay, space)"
    by fastforce
  have start: "iplist_create (cf_al cf) (cf_pool cf) = Some l \<and> i = - 1 \<and>
      w = initial_world cf files stdin\<lparr>w_space := space\<rparr>"
    using assms by (simp add: interpreter_start_def load Let_def split: if_split_asm)
  then have "w_files w = files" by (simp add: initial_world_def)
  with start create_filled [of "cf_al cf" "cf_pool cf" l]
  show "table_ok \<lparr>th_list = l, th_world = w, th_index = nat i\<rparr>" "- 1 \<le> i" "w_files w = files"
    "\<And>p ip. il_ips l p = Some ip \<Longrightarrow> ip_sandboxed ip"
    by (simp_all add: table_ok_def)
qed

lemma start_keeps_table:
  "interpreter_start cf files stdin filename = Some st \<Longrightarrow> table.loop_keeps st"
  unfolding table.loop_keeps_def using start_table by (cases st) auto

text \<open>The start of an empty program, with the sandbox on, and its first round.\<close>

definition boxed_config :: config where
  "boxed_config = sample_config\<lparr>cf_sandbox := True\<rparr>"

definition empty_start :: loop_state where
  "empty_start = (- 1, sample_list, initial_world boxed_config (\<lambda>_. Some []) [])"

lemma start_empty: "interpreter_start boxed_config (\<lambda>_. Some []) [] [] = Some empty_start"
proof -
  have "iplist_create (\<lambda>_. True) True = Some sample_list"
    by (simp add: sample_list_def iplist_create_def ip_create_in_place_def stackstack_create_def
        stack_create_def)
  moreover have "fungespace_load (Some []) f = (True, f)" for f
    by (simp add: fungespace_load_def do_mmap_def)
  ultimately show ?thesis
    by (simp add: interpreter_start_def empty_start_def boxed_config_def sample_config_def initial_world_def)
qed

lemma empty_round:
  "reaches boxed_config empty_start (0, sample_list, initial_world boxed_config (\<lambda>_. Some []) [])"
  by (rule reaches.Step [OF reaches.Refl])
    (simp add: empty_start_def interpreter_step_def sample_list_fields)

lemma boxed: "cf_sandbox boxed_config"
  by (simp add: boxed_config_def)

text \<open>
  C1: the thread table during a run. Whatever the program does, splitting and terminating threads in
  any order, also from within a repeated \<open>k\<close>: in every state that the main loop passes through, the
  list holds an instruction pointer in exactly the places from 0 to its top, the array is large
  enough for them, and the index of the loop is one of these places, or -1 between two rounds.
\<close>

theorem run_thread_table:
  assumes "interpreter_start cf files stdin filename = Some st" "reaches cf st (i, l, w)"
  shows "(\<forall>n. il_ips l n = None \<longleftrightarrow> il_top l < n) \<and> il_top l < il_size l \<and> - 1 \<le> i \<and> i \<le> int (il_top l)"
proof -
  have "table.loop_keeps (i, l, w)"
    using assms(2) start_keeps_table [OF assms(1)] by (rule table.reaches_keeps)
  then have "filled l" "- 1 \<le> i" "nat i \<le> il_top l" by (simp_all add: table.loop_keeps_def table_ok_def)
  moreover from this have "i \<le> int (il_top l)" by linarith
  ultimately show ?thesis unfolding filled_def by blast
qed

theorem run_thread_table_witness:
  "\<exists>i l w. reaches boxed_config empty_start (i, l, w) \<and> 0 \<le> i \<and> (\<forall>n. il_ips l n = None \<longleftrightarrow> il_top l < n)"
  using run_thread_table [OF start_empty empty_round] empty_round by blast

text \<open>
  The sandbox holds for whole runs, but for one file. With the sandbox set, no state that the
  interpreter passes through differs from the first one in any file other than the one that TURT draws
  to, and no opcode stack of any thread ever holds an instruction of an unsafe fingerprint.
\<close>

theorem run_sandbox:
  assumes "cf_sandbox cf"
    and "interpreter_start cf files stdin filename = Some st" "reaches cf st (i, l, w)"
  shows "(\<forall>name. name \<noteq> turt_filename \<longrightarrow> w_files w name = files name) \<and>
    (\<forall>n ip c func. il_ips l n = Some ip \<longrightarrow> func \<in> set (ip_ops ip c) \<longrightarrow> opcode_safe func)"
proof -
  note inv = sandbox_invariant [OF assms(1), of files]
  obtain i0 l0 w0 where st: "st = (i0, l0, w0)" by (cases st)
  have "thread_invariant.loop_keeps (sandbox_ok files) st"
    using start_table [OF assms(2) [unfolded st]]
    by (auto simp: st thread_invariant.loop_keeps_def [OF inv] sandbox_ok_def other_files_def)
  then have "thread_invariant.loop_keeps (sandbox_ok files) (i, l, w)"
    using thread_invariant.reaches_keeps [OF inv assms(3)] by blast
  then show ?thesis
    by (auto simp: thread_invariant.loop_keeps_def [OF inv] sandbox_ok_def ip_sandboxed_def other_files_def
        fun_upd_def fun_eq_iff split: if_splits)
qed

theorem run_sandbox_witness:
  "\<exists>w. reaches boxed_config empty_start (0, sample_list, w) \<and> w_files w [] = Some []"
proof -
  have "[] \<noteq> turt_filename" by (simp add: turt_filename_def bytes_of_def)
  then show ?thesis
    using run_sandbox [OF boxed start_empty empty_round] empty_round by blast
qed

text \<open>
  C3: no step of the main loop goes through a null pointer, that of a place of the thread list or one of the instructions
  of a fingerprint, with three exceptions. First, a \<open>k\<close> whose operand is again a \<open>k\<close>: there, after the inner \<open>k\<close> has executed \<open>@\<close>, the code goes on
  with \<open>IPList->ips[oldindex]\<close>, a place that may have been cleared. Second, an instruction of TERM that is called, directly or as the operand of a
  \<open>k\<close>, when there is no current terminal, because NCRS has deleted it. Third, \<open>I\<close> of PERL, called in either way, when a later read of the pipe meets its end. It is
  assumed that memory is not exhausted, and that the number of digits which BASE estimates by a logarithm is enough, as its formula promises.
\<close>

theorem run_no_null_pointer:
  assumes "interpreter_start cf files stdin filename = Some st" "reaches cf st (i, l, w)"
    and "cf_al cf = (\<lambda>_. True)" "digits_suffice (cf_libm cf)"
    and "\<And>ip c m. il_ips l (nat i) = Some ip \<Longrightarrow> cell_here (ip, w) = chr_cell CHR ''k'' \<Longrightarrow>
      fetch_operand (snd (ip_pop ip), w) = Some (c, m) \<Longrightarrow> c \<noteq> chr_cell CHR ''k''"
    and "\<And>func m. calls cf (nat i) \<lparr>th_list = l, th_world = w, th_index = nat i\<rparr> func m \<Longrightarrow> \<not> null_read cf func m"
  shows "interpreter_step cf (i, l, w) \<noteq> Some Crashed"
proof
  assume crash: "interpreter_step cf (i, l, w) = Some Crashed"
  let ?s = "\<lparr>th_list = l, th_world = w, th_index = nat i\<rparr>"
  have "table.loop_keeps (i, l, w)"
    using assms(2) start_keeps_table [OF assms(1)] by (rule table.reaches_keeps)
  then have ok: "table_ok ?s" by (simp add: table.loop_keeps_def)
  then obtain ip where ip: "il_ips l (nat i) = Some ip"
    using live_Some [of ?s "nat i"] by (auto simp: live_def table_ok_def)
  let ?c = "cell_here (ip, w)"
  let ?ex = "execute_instruction cf ?c (nat i) ?s"
  have safe: "benign cf" using assms(3,4) by (simp add: benign_def)
  have plain: "execute_plain cf ?c (nat i) ?s \<noteq> Some Crashed"
  proof (rule execute_plain_no_crash [OF ok _ safe])
    show "\<not> null_read cf func m" if "finger_call ?c (nat i) ?s func m" for func m
    proof -
      have "m = (ip, w)" using that ip by (cases m) (simp add: finger_call_def)
      then show ?thesis using assms(6) calls.direct that by blast
    qed
  qed (simp add: ip)
  have iterate: "run_iterate cf (nat i) ?s \<noteq> Some Crashed" if k: "?c = chr_cell CHR ''k''"
  proof (rule run_iterate_no_crash [OF ok _ safe])
    show "il_ips (th_list ?s) (nat i) = Some ip" by (simp add: ip)
    show "\<not> null_read cf func m"
      if "fetch_operand (snd (ip_pop ip), th_world ?s) = Some (c, ip1, w1)"
        "repeat_run j (operand_round cf c) (nat i, put_mach (nat i) (ip1\<lparr>ip_position := ip_position (snd (ip_pop ip))\<rparr>, w1) ?s) =
          Some (Running (p', s'))" "finger_call c p' s' func m" for c ip1 w1 j p' s' func m
      using calls.repeated [of ?s "nat i" ip c ip1 w1 j cf p' s' func m] that ip k assms(6) by simp
    show "c \<noteq> chr_cell CHR ''k''" if "fetch_operand (snd (ip_pop ip), th_world ?s) = Some (c, m)" for c m
      using assms(5) [OF ip k] that by simp
  qed
  have "?ex \<noteq> Some Crashed"
    using plain iterate ip by (auto simp: execute_instruction_def with_ip_Crashed bind_run_Crashed split: if_splits)
  then obtain b s where s: "?ex = Some (Running (b, s))" "il_ips (th_list s) (th_index s) = None"
    using crash ip by (auto simp: interpreter_step_def with_ip_Crashed bind_run_Crashed Let_def split: if_splits)
  then have "table_ok s" using table.execute_instruction_keeps [OF ok] by blast
  then show False using s(2) live_Some [of s "th_index s"] by (auto simp: live_def table_ok_def)
qed

theorem run_no_null_pointer_witness:
  "\<exists>w. reaches boxed_config empty_start (0, sample_list, w) \<and>
     interpreter_step boxed_config (0, sample_list, w) \<noteq> Some Crashed"
proof -
  let ?w = "initial_world boxed_config (\<lambda>_. Some []) []"
  have blank: "cell_here (ip, ?w) = space_cell" for ip by (simp add: cell_here_def initial_world_def get_create)
  have "cf_al boxed_config = (\<lambda>_. True)" "digits_suffice (cf_libm boxed_config)"
    using benign_sample by (simp_all add: boxed_config_def benign_def)
  moreover have "\<not> calls boxed_config (nat 0) \<lparr>th_list = sample_list, th_world = ?w, th_index = nat 0\<rparr> func m" for func m
  proof
    assume "calls boxed_config (nat 0) \<lparr>th_list = sample_list, th_world = ?w, th_index = nat 0\<rparr> func m"
    then show False
    proof cases
      case direct
      then have "m = (fst m, ?w)" by (cases m) (simp add: finger_call_def)
      then have "cell_here m = space_cell" using blank by metis
      with direct show False by (simp add: finger_call_def)
    qed (simp add: blank)
  qed
  ultimately show ?thesis
    using run_no_null_pointer [OF start_empty empty_round] empty_round blank by fastforce
qed

text \<open>
  C4: the exception is real. When the last thread of the list (and not the only one) executes a \<open>k\<close>
  whose operand is a \<open>k\<close> whose operand is \<open>@\<close>, both with a positive count, the inner one terminates
  the thread, and the outer one reads the position through the cleared place of the list.
\<close>

theorem nested_k_stop_crashes:
  assumes "table_ok s" "th_index s = il_top (th_list s)" "0 < il_top (th_list s)"
    and "il_ips (th_list s) (th_index s) = Some ip" "ip_mode ip = IpmCODE"
    and "ip_pop ip = (n, ip0)" "0 <s n" "fetch_operand (ip0, th_world s) = Some (chr_cell CHR ''k'', ip1, w1)"
    and "ip_pop ip1 = (n', ip2)" "0 <s n'" "fetch_operand (ip2, w1) = Some (chr_cell CHR ''@'', m)"
  shows "run_iterate cf (th_index s) s = Some Crashed"
proof -
  let ?p = "th_index s"
  let ?oldpos = "ip_position ip0"
  let ?s1 = "put_mach ?p (ip1\<lparr>ip_position := ?oldpos\<rparr>, w1) s"
  have pos: "0 <s x \<Longrightarrow> (x = 0) = False \<and> (x <s 0) = False \<and> (\<exists>k. unat x = Suc k)" for x :: cell
    by (auto simp: cell_less_iff gr0_conv_Suc [symmetric] unat_gt_0)
  have same: "(ip1\<lparr>ip_position := ?oldpos\<rparr>)\<lparr>ip_position := ip_position ip1\<rparr> = ip1" by simp
  obtain k where k: "unat n = Suc k" using pos [OF assms(7)] by blast
  let ?m3 = "((fst m)\<lparr>ip_position := ip_position ip2\<rparr>, snd m)"
  let ?s3 = "put_mach ?p ?m3 s"
  have "ip_mode ip2 = ip_mode ip1" using assms(9) by (auto simp: ip_pop_def split_beta ip_simps)
  moreover have "ip_mode ip0 = ip_mode ip" using assms(6) by (auto simp: ip_pop_def split_beta ip_simps)
  ultimately have mode: "(ip_mode (fst ?m3) = IpmSTRING) = False"
    using frame_fetch [OF assms(8)] frame_fetch [OF assms(11)] assms(5) by (simp add: frame_def)
  have ok3: "table_ok ?s3" using assms(1,4) by (intro table_ok_put)
  obtain j l where l: "iplist_terminate_ip (th_list ?s3) ?p = (j, l)" by fastforce
  have fields: "il_top (th_list ?s3) = il_top (th_list s)" "th_index ?s3 = ?p" by (simp_all add: put_top)
  have at_top: "?p = il_top (th_list ?s3)" "0 < il_top (th_list ?s3)"
    using assms(2,3) fields(1) by simp_all
  note ends = terminate_slots [OF eq_imp_le [OF at_top(1)] at_top(2) l]
  have slots: "il_ips l ?p = None" "j = ?p - 1"
    by (simp add: ends(4) at_top(1) [symmetric], simp add: ends(1))
  have "?p - 1 < ?p" using assms(2,3) by simp
  then have slot: "il_ips l j = il_ips (th_list ?s3) j" unfolding ends(4) slots(2) by simp
  have "live j ?s3" unfolding live_def slots(2) using at_top(1) by linarith
  then obtain ip' where ip': "il_ips l j = Some ip'" unfolding slot using live_Some [OF ok3] by blast
  define s4 where "s4 = put_mach j (on_ip (\<lambda>ip. ip\<lparr>ip_needMove := False\<rparr>) (ip', th_world ?s3)) (?s3\<lparr>th_list := l, th_index := j\<rparr>)"
  have stop: "stop_thread ?s3 = Some (Running s4)"
    using assms(3) ip' by (simp add: stop_thread_def fields l with_ip_def s4_def Let_def)
  have s4: "il_ips (th_list s4) ?p = None"
    using slots(1,2) assms(2,3) by (simp add: s4_def put_mach_def)
  have plain: "execute_plain cf (chr_cell CHR ''@'') ?p ?s3 = Some (Running (False, s4))"
    unfolding execute_plain_def with_ip_put prod.case mode [unfolded fst_conv] if_False stop
    by (simp add: bind_run_def)
  have inner: "run_iterate_implement cf True ?p (put_mach ?p (ip1, w1) s) = Some (Running s4)"
    using pos [OF assms(10)] assms(11) plain
    by (subst run_iterate_implement.simps) (simp add: assms(9) Let_def bind_run_def split_beta)
  show ?thesis
    using pos [OF assms(7)] assms(8) inner s4
    by (subst run_iterate_def, subst run_iterate_implement.simps)
      (simp add: with_ip_def [of ?p s] with_ip_def [of ?p s4] assms(4,6) Let_def k bind_run_def same put_top)
qed

text \<open>A world with \<open>k\<close> and \<open>@\<close> to the right of the origin, and a list of two threads.\<close>

definition kk_world :: world where
  "kk_world = five_world\<lparr>w_space := (w_space five_world)\<lparr>cfun_static_space :=
     (\<lambda>n. if n = STATIC_COORD (1 + FUNGESPACE_STATIC_OFFSET_X) FUNGESPACE_STATIC_OFFSET_Y then 107 else 64)\<rparr>\<rparr>"

definition kk_threads :: threads where
  "kk_threads =
     \<lparr>th_list = \<lparr>il_size = 256, il_top = 1, il_highestID = 1,
        il_ips = (\<lambda>i. if i \<le> 1 then Some (pushed [1, 1]) else None)\<rparr>,
      th_world = kk_world, th_index = 1\<rparr>"

lemma kk_forward:
  assumes "ip_position ip = vector x 0" "ip_delta ip = vector 1 0" "x = 0 \<or> x = 1"
  shows "fetch_operand (ip, kk_world) =
    Some (if x = 0 then chr_cell CHR ''k'' else chr_cell CHR ''@'', ip\<lparr>ip_position := vector (x + 1) 0\<rparr>, kk_world)"
proof -
  have space: "boundsexact (w_space kk_world)" "topLeftCorner (w_space kk_world) = vector 0 0"
    "bottomRightCorner (w_space kk_world) = vector 3 0"
    by (simp_all add: kk_world_def five_space)
  have "\<not> (3 :: cell) <s x + 1 \<and> \<not> x + 1 <s 0" using assms(3) by (elim disjE) (simp, code_simp)+
  then have "fungespace_in_range (w_space kk_world) (vector (x + 1) 0)"
    by (simp add: fungespace_in_range_def space)
  then have forward: "m_forward (ip, kk_world) = (ip\<lparr>ip_position := vector (x + 1) 0\<rparr>, kk_world)"
    using m_forward_in_range [of kk_world ip] by (simp add: space assms(1,2) vector_add_def)
  have "FUNGESPACE_RANGE_CHECK (x + 1 + FUNGESPACE_STATIC_OFFSET_X) FUNGESPACE_STATIC_OFFSET_Y"
    using assms(3) by (elim disjE) (simp_all add: range_check_defs)
  moreover have "STATIC_COORD (2 + FUNGESPACE_STATIC_OFFSET_X) FUNGESPACE_STATIC_OFFSET_Y \<noteq>
      STATIC_COORD (1 + FUNGESPACE_STATIC_OFFSET_X) FUNGESPACE_STATIC_OFFSET_Y"
    by (simp add: STATIC_COORD_def word_unat_eq_iff [symmetric])
  ultimately show ?thesis
    using assms(3) forward
    by (auto simp: fetch_operand_def cell_here_def fungespace_get_def kk_world_def Let_def)
qed

theorem nested_k_stop_crashes_witness: "run_iterate sample_config 1 kk_threads = Some Crashed"
proof -
  let ?ip0 = "snd (ip_pop (pushed [1, 1]))" and ?w = kk_world
  let ?ip1 = "?ip0\<lparr>ip_position := vector 1 0\<rparr>"
  have "table_ok kk_threads"
    unfolding table_ok_def by (rule conjI, rule filledI) (auto simp: kk_threads_def)
  moreover have "ip_pop (pushed [1, 1]) = (1, ?ip0)" "ip_pop ?ip1 = (1, snd (ip_pop ?ip1))"
    by (rule prod_eqI; simp add: ip_simps from_top_def drop_top_def)+
  moreover have "fetch_operand (?ip0, ?w) = Some (chr_cell CHR ''k'', ?ip1, ?w)"
    "fetch_operand (snd (ip_pop ?ip1), ?w) =
       Some (chr_cell CHR ''@'', (snd (ip_pop ?ip1))\<lparr>ip_position := vector (1 + 1) 0\<rparr>, ?w)"
    using kk_forward [of ?ip0 0] kk_forward [of "snd (ip_pop ?ip1)" 1] by (simp_all add: ip_pop_run ip_simps)
  moreover have "(0 :: cell) <s 1" by code_simp
  moreover have "ip_mode (pushed [1, 1]) = IpmCODE" by (simp add: pushed_def ip_push_def ip_simps sample_ip_def)
  moreover have "th_index kk_threads = 1" "il_top (th_list kk_threads) = 1" "th_world kk_threads = ?w"
    "il_ips (th_list kk_threads) 1 = Some (pushed [1, 1])"
    by (simp_all add: kk_threads_def)
  ultimately show ?thesis
    using nested_k_stop_crashes [of kk_threads "pushed [1, 1]" 1 ?ip0 ?ip1 ?w 1 "snd (ip_pop ?ip1)" _ sample_config]
    by simp
qed

end
