(* ===== verification/Command_Line.thy ===== *)
theory Command_Line
  imports Strn
begin

text \<open>
  The start of the program, \<^verbatim>\<open>src/main.c\<close>, with the settings of \<^verbatim>\<open>src/settings.c\<close>: the command line is
  read by the \<open>getopt\<close> of the C library with the options \<open>+bEFfhSs:t:VvW\<close>, and the rest of it is the program with its arguments.
\<close>

section \<open>Settings\<close>

record settings =
  setting_current_standard :: standardVersion
  setting_trace_level :: ucell
  setting_enable_warnings :: bool
  setting_enable_errors :: bool
  setting_disable_fingerprints :: bool
  setting_enable_sandbox :: bool
  stdout_buffered :: bool

definition default_settings :: settings where
  "default_settings =
     \<lparr>setting_current_standard = Stdver98, setting_trace_level = 0, setting_enable_warnings = False,
      setting_enable_errors = False, setting_disable_fingerprints = False, setting_enable_sandbox = False,
      stdout_buffered = False\<rparr>"

section \<open>getopt\<close>

text \<open>
  The options in front of the first word that is none. What is left of a word of options that has been begun, and the
  words after it, are the state of \<open>getopt\<close>. A letter that is not an option, or an option that lacks its argument, is \<open>Bad_option\<close>.
\<close>

datatype option_read = Option byte | Option_with byte "byte list" | Bad_option | No_option

definition plain_options :: "byte list" where
  "plain_options = bytes_of ''bEFfhSVvW''"

definition argument_options :: "byte list" where
  "argument_options = bytes_of ''st''"

text \<open>Reads one option; the result is with the new state.\<close>

fun next_letter :: "byte list \<Rightarrow> byte list list \<Rightarrow> option_read \<times> byte list \<times> byte list list" where
  "next_letter [] args = (No_option, [], args)"
| "next_letter (c # cs) args =
     (if c \<in> set plain_options then (Option c, cs, args)
      else if c \<notin> set argument_options then (Bad_option, cs, args)
      else if cs \<noteq> [] then (Option_with c cs, [], args)
      else (case args of [] \<Rightarrow> (Bad_option, [], []) | a # args \<Rightarrow> (Option_with c a, [], args)))"

fun getopt :: "byte list \<times> byte list list \<Rightarrow> option_read \<times> byte list \<times> byte list list" where
  "getopt (c # cs, args) = next_letter (c # cs) args"
| "getopt ([], []) = (No_option, [], [])"
| "getopt ([], w # args) =
     (if w = [45, 45] then (No_option, [], args)
      else if 1 < length w \<and> hd w = 45 then next_letter (tl w) args
      else (No_option, [], w # args))"

section \<open>main\<close>

text \<open>How the reading of the command line ends: with the exit of the process, or with the program to run and its arguments.\<close>

datatype startup = Exit_with nat | Run_program settings "byte list list"

definition EXIT_SUCCESS :: nat where
  "EXIT_SUCCESS = 0"

definition EXIT_FAILURE :: nat where
  "EXIT_FAILURE = 1"

definition parse_standard :: "byte list \<Rightarrow> standardVersion option" where
  "parse_standard arg =
     (if take 2 arg = bytes_of ''93'' then Some Stdver93
      else if take 2 arg = bytes_of ''98'' then Some Stdver98
      else if take 3 arg = bytes_of ''109'' then Some Stdver109
      else None)"

definition atoi :: "byte list \<Rightarrow> 32 word" where
  "atoi s = ucast (atoll s)"

text \<open>What the switch does with one option; \<open>None\<close> if it does not come back.\<close>

definition apply_option :: "byte \<Rightarrow> settings \<Rightarrow> settings option" where
  "apply_option c st =
     (if c = of_char CHR ''b'' then Some (st\<lparr>stdout_buffered := True\<rparr>)
      else if c = of_char CHR ''E'' then Some (st\<lparr>setting_enable_errors := True\<rparr>)
      else if c = of_char CHR ''F'' then Some (st\<lparr>setting_disable_fingerprints := True\<rparr>)
      else if c = of_char CHR ''S'' then Some (st\<lparr>setting_enable_sandbox := True\<rparr>)
      else if c = of_char CHR ''W'' then Some (st\<lparr>setting_enable_warnings := True\<rparr>)
      else None)"

definition apply_argument :: "byte \<Rightarrow> byte list \<Rightarrow> settings \<Rightarrow> settings option" where
  "apply_argument c arg st =
     (if c = of_char CHR ''s'' then map_option (\<lambda>v. st\<lparr>setting_current_standard := v\<rparr>) (parse_standard arg)
      else Some (st\<lparr>setting_trace_level := scast (atoi arg)\<rparr>))"

text \<open>
  The loop of \<open>main\<close>. The options that print something (\<open>-f\<close>, \<open>-h\<close>, \<open>-V\<close>, \<open>-v\<close>) do not come back; a bad option, a standard that
  is not known, and a command line without a program end the process with a message.
\<close>

definition getopt_size :: "byte list \<times> byte list list \<Rightarrow> nat" where
  "getopt_size g = length (fst g) + sum_list (map (\<lambda>w. length w + 1) (snd g))"

lemma next_letter_size:
  "next_letter cs args = (r, g) \<Longrightarrow> r \<noteq> No_option \<Longrightarrow> getopt_size g < getopt_size (cs, args)"
  by (induction cs args rule: next_letter.induct)
    (auto simp: getopt_size_def split: if_split_asm list.split_asm)

lemma getopt_size: "getopt g = (r, g') \<Longrightarrow> r \<noteq> No_option \<Longrightarrow> getopt_size g' < getopt_size g"
proof (induction g rule: getopt.induct)
  case (3 w args)
  then have step: "w \<noteq> []" "next_letter (tl w) args = (r, g')" by (auto split: if_splits)
  show ?case using next_letter_size [OF step(2) 3(2)] step(1) by (auto simp: getopt_size_def)
qed (auto dest: next_letter_size simp del: next_letter.simps)

function main_loop :: "byte list \<times> byte list list \<Rightarrow> settings \<Rightarrow> startup" where
  "main_loop g st =
     (case getopt g of
        (Option c, g) \<Rightarrow>
          (case apply_option c st of None \<Rightarrow> Exit_with EXIT_SUCCESS | Some st \<Rightarrow> main_loop g st)
      | (Option_with c arg, g) \<Rightarrow>
          (case apply_argument c arg st of None \<Rightarrow> Exit_with 1 | Some st \<Rightarrow> main_loop g st)
      | (Bad_option, _) \<Rightarrow> Exit_with EXIT_FAILURE
      | (No_option, _, args) \<Rightarrow> if args = [] then Exit_with 1 else Run_program st args)"
  by pat_completeness auto
termination
  by (relation "measure (getopt_size \<circ> fst)") (auto dest!: sym [of "(_, _)"] getopt_size)

declare main_loop.simps [simp del]

definition main :: "byte list list \<Rightarrow> startup" where
  "main argv = main_loop ([], tl argv) default_settings"


section \<open>Flags\<close>

text \<open>A word of options none of which has an argument or prints something.\<close>

definition flag_word :: "byte list \<Rightarrow> bool" where
  "flag_word w \<longleftrightarrow> (\<exists>ls. w = 45 # ls \<and> ls \<noteq> [] \<and> set ls \<subseteq> set (bytes_of ''bEFSW''))"

definition program_word :: "byte list \<Rightarrow> bool" where
  "program_word w \<longleftrightarrow> w = [45] \<or> w = [] \<or> hd w \<noteq> 45"

definition with_flags :: "byte set \<Rightarrow> settings \<Rightarrow> settings" where
  "with_flags F st =
     st\<lparr>setting_enable_warnings := (setting_enable_warnings st \<or> of_char CHR ''W'' \<in> F),
        setting_enable_errors := (setting_enable_errors st \<or> of_char CHR ''E'' \<in> F),
        setting_disable_fingerprints := (setting_disable_fingerprints st \<or> of_char CHR ''F'' \<in> F),
        setting_enable_sandbox := (setting_enable_sandbox st \<or> of_char CHR ''S'' \<in> F),
        stdout_buffered := (stdout_buffered st \<or> of_char CHR ''b'' \<in> F)\<rparr>"

lemma with_flags_empty [simp]: "with_flags {} st = st"
  by (simp add: with_flags_def)

lemma apply_flag: "c \<in> set (bytes_of ''bEFSW'') \<Longrightarrow> apply_option c st = Some (with_flags {c} st)"
  by (auto simp: apply_option_def with_flags_def bytes_of_def)

lemma with_flags_again: "with_flags F (with_flags {c} st) = with_flags (insert c F) st"
  by (simp add: with_flags_def)

lemma with_flags_union: "with_flags F (with_flags G st) = with_flags (G \<union> F) st"
  by (simp add: with_flags_def)

lemma main_loop_letters:
  "set cs \<subseteq> set (bytes_of ''bEFSW'') \<Longrightarrow> main_loop (cs, args) st = main_loop ([], args) (with_flags (set cs) st)"
proof (induction cs arbitrary: st)
  case (Cons c cs)
  have "c \<in> set plain_options" using Cons.prems by (auto simp: plain_options_def bytes_of_def)
  then have "getopt (c # cs, args) = (Option c, cs, args)" by simp
  then have "main_loop (c # cs, args) st = main_loop (cs, args) (with_flags {c} st)"
    using apply_flag [of c st] Cons.prems by (subst main_loop.simps) simp
  then show ?case using Cons by (simp add: with_flags_again)
qed simp

lemma main_loop_flag_word:
  assumes "flag_word w"
  shows "main_loop ([], w # args) st = main_loop ([], args) (with_flags (set (tl w)) st)"
proof -
  obtain c cs where w: "w = 45 # c # cs" and flags: "set (c # cs) \<subseteq> set (bytes_of ''bEFSW'')"
    using assms by (auto simp: flag_word_def neq_Nil_conv)
  have "getopt ([], w # args) = getopt (c # cs, args)" using flags by (auto simp: w bytes_of_def)
  then have "main_loop ([], w # args) st = main_loop (c # cs, args) st"
    by (subst (1 2) main_loop.simps) simp
  then show ?thesis using main_loop_letters [OF flags] by (simp add: w)
qed


lemma main_loop_flags:
  "\<forall>w \<in> set ws. flag_word w \<Longrightarrow>
     main_loop ([], ws @ args) st = main_loop ([], args) (with_flags (\<Union>w \<in> set ws. set (tl w)) st)"
proof (induction ws arbitrary: st)
  case (Cons w ws)
  then show ?case by (simp add: main_loop_flag_word with_flags_union)
qed simp

lemma main_loop_program: "program_word p \<Longrightarrow> main_loop ([], p # args) st = Run_program st (p # args)"
  by (cases p) (auto simp: main_loop.simps program_word_def)

text \<open>
  Flags may be given one by one or together, in any order and more than once. The first word that does not begin with a
  hyphen is the program, and what follows it belongs to the program, options as well.
\<close>

theorem main_flags:
  assumes "\<forall>w \<in> set ws. flag_word w" "program_word p"
  shows "main (name # ws @ p # args) =
    Run_program (with_flags (\<Union>w \<in> set ws. set (tl w)) default_settings) (p # args)"
  using main_loop_flags [OF assms(1)] main_loop_program [OF assms(2)] by (simp add: main_def)

theorem main_flags_witness:
  "main [[99], [45, 83, 87], [112], [45, 70]] = Run_program (with_flags {83, 87} default_settings) [[112], [45, 70]]"
proof -
  have "\<forall>w \<in> set [[45, 83, 87 :: byte]]. flag_word w" by (simp add: flag_word_def bytes_of_def)
  note main_flags [OF this, of "[112]" "[99]" "[[45, 70]]"]
  then show ?thesis by (simp add: program_word_def)
qed

text \<open>
  The standards are told apart by their first two or three bytes, so that \<open>-s 98x\<close> is taken for \<open>-s 98\<close>.
\<close>

theorem standard_prefix:
  assumes "program_word p"
  shows "main (name # bytes_of ''-s'' # (bytes_of ''98'' @ x) # p # args) = Run_program default_settings (p # args)"
proof -
  have "getopt ([], bytes_of ''-s'' # (bytes_of ''98'' @ x) # p # args) =
      (Option_with (of_char CHR ''s'') (bytes_of ''98'' @ x), [], p # args)"
    by (simp add: bytes_of_def plain_options_def argument_options_def)
  moreover have "apply_argument (of_char CHR ''s'') (bytes_of ''98'' @ x) default_settings = Some default_settings"
    by (simp add: apply_argument_def parse_standard_def bytes_of_def default_settings_def)
  ultimately have "main (name # bytes_of ''-s'' # (bytes_of ''98'' @ x) # p # args) = main_loop ([], p # args) default_settings"
    by (simp only: main_def list.sel, subst main_loop.simps, simp del: getopt.simps)
  then show ?thesis by (simp add: main_loop_program [OF assms])
qed

lemma main_status: "main_loop g st = Exit_with n \<Longrightarrow> n \<le> 1"
  by (induction g st rule: main_loop.induct)
    (subst (asm) (2) main_loop.simps, auto simp: EXIT_SUCCESS_def EXIT_FAILURE_def split: prod.splits option_read.splits option.splits if_splits)

text \<open>An option that prints something ends the process before what comes after it is looked at.\<close>

lemma main_prints:
  "main (name # bytes_of ''-h'' # args) = Exit_with EXIT_SUCCESS"
  by (simp add: main_def main_loop.simps bytes_of_def plain_options_def apply_option_def)

lemma main_no_program: "main [name] = Exit_with 1"
  by (simp add: main_def main_loop.simps)

end
