(* ===== verification/Startup.thy ===== *)
theory Startup
  imports Runs Command_Line
begin

text \<open>
  The whole program: \<open>main\<close> reads the command line, sets the settings, and goes into \<open>interpreter_run\<close>. The theorem is
  about what a user asks for on the command line.
\<close>

section \<open>From the command line to the main loop\<close>

text \<open>The settings are static variables that nothing changes after \<open>main\<close>; they are a part of \<open>config\<close>.\<close>

definition with_settings :: "settings \<Rightarrow> byte list list \<Rightarrow> config \<Rightarrow> config" where
  "with_settings st args cf =
     cf\<lparr>cf_standard := setting_current_standard st, cf_sandbox := setting_enable_sandbox st,
        cf_disable_fingerprints := setting_disable_fingerprints st, cf_argv := args\<rparr>"

text \<open>The exit status of a run that does not get to the main loop, or the configuration and the first state of the loop.\<close>

definition program ::
    "config \<Rightarrow> (byte list \<Rightarrow> byte list option) \<Rightarrow> byte list \<Rightarrow> byte list list \<Rightarrow> nat + config \<times> loop_state" where
  "program cf files stdin argv =
     (case main argv of
        Exit_with n \<Rightarrow> Inl n
      | Run_program st args \<Rightarrow>
          (let cf = with_settings st args cf
           in case interpreter_start cf files stdin (hd args) of None \<Rightarrow> Inl EXIT_FAILURE | Some s \<Rightarrow> Inr (cf, s)))"

text \<open>
  C2: the option \<open>-S\<close>. With an \<open>S\<close> among the flags in front of the program, alone or with others, no state that
  the interpreter passes through differs from the first one in any file other than the one that TURT draws
  to, and no opcode stack of any thread ever holds an instruction of an unsafe fingerprint.
\<close>

theorem program_sandbox:
  assumes flags: "\<forall>w \<in> set ws. flag_word w" "program_word p" "\<exists>w \<in> set ws. of_char CHR ''S'' \<in> set (tl w)"
    and start: "program cf files stdin (name # ws @ p # args) = Inr (cf', st)"
    and run: "reaches cf' st (i, l, w)"
  shows "(\<forall>name. name \<noteq> turt_filename \<longrightarrow> w_files w name = files name) \<and>
    (\<forall>n ip c func. il_ips l n = Some ip \<longrightarrow> func \<in> set (ip_ops ip c) \<longrightarrow> opcode_safe func)"
proof -
  let ?st = "with_flags (\<Union>w \<in> set ws. set (tl w)) default_settings"
  have begun: "cf' = with_settings ?st (p # args) cf" "interpreter_start cf' files stdin p = Some st"
    using start main_flags [OF flags(1,2), of name args]
    by (auto simp: program_def Let_def split: option.splits)
  have "cf_sandbox cf'" using flags(3) by (auto simp: begun(1) with_settings_def with_flags_def)
  then show ?thesis using run_sandbox [OF _ begun(2) run] by blast
qed

text \<open>The empty program, with \<open>-WS\<close>.\<close>

lemma interpreter_start_cong:
  "cf_al cf = cf_al cf' \<Longrightarrow> cf_pool cf = cf_pool cf' \<Longrightarrow> interpreter_start cf = interpreter_start cf'"
  by (intro ext) (simp add: interpreter_start_def initial_world_def Let_def split: prod.splits)

lemma interpreter_start_settings: "interpreter_start (with_settings st args cf) = interpreter_start cf"
  by (rule interpreter_start_cong) (simp_all add: with_settings_def)

lemma sample_start: "interpreter_start sample_config (\<lambda>_. Some []) [] [] = Some empty_start"
  using start_empty interpreter_start_cong [of sample_config boxed_config] by (simp add: boxed_config_def)

theorem program_sandbox_witness:
  "\<exists>cf. program sample_config (\<lambda>_. Some []) [] [[99], [45, 87, 83], []] = Inr (cf, empty_start) \<and>
    w_files (snd (snd empty_start)) [] = Some []"
proof -
  let ?ws = "[[45, 87, 83 :: byte]]"
  have flags: "\<forall>w \<in> set ?ws. flag_word w" "program_word []" "\<exists>w \<in> set ?ws. of_char CHR ''S'' \<in> set (tl w)"
    by (simp_all add: flag_word_def program_word_def bytes_of_def)
  obtain cf where start: "program sample_config (\<lambda>_. Some []) [] ([99] # ?ws @ [] # []) = Inr (cf, empty_start)"
    using main_flags [OF flags(1,2)] by (simp add: program_def interpreter_start_settings sample_start Let_def)
  obtain i l w where st: "empty_start = (i, l, w)" by (cases empty_start)
  note safe = program_sandbox [OF flags start, unfolded st, OF reaches.Refl]
  have "[] \<noteq> turt_filename" by (simp add: turt_filename_def bytes_of_def)
  with safe have "w_files (snd (snd empty_start)) [] = Some []" by (simp add: st)
  with start show ?thesis by auto
qed

end
