(* ===== verification/Mempool.thy ===== *)
theory Mempool
  imports Stack
begin

text \<open>
  The memory pools from which the hash tables take their entries, \<^verbatim>\<open>lib/mempool/cfunge_mempool_priv.h\<close>: the
  state is the array of pools and the list of the freed blocks, which is threaded through the blocks themselves. A client may write what it
  likes into the blocks it holds, so that the links in them are lost; \<open>pool_step\<close> has this as a step of its own.
\<close>

section \<open>State\<close>

text \<open>A block is a place in a pool.\<close>

type_synonym block = "nat \<times> nat"

text \<open>
  Of each pool, the number of blocks in front of \<open>first_free\<close>; the pointer \<open>free_list\<close>; and of each block what its first
  word is when it is read as \<open>next_free\<close>.
\<close>

record mempool =
  mp_pools :: "nat list"
  mp_free_list :: "block option"
  mp_next :: "block \<Rightarrow> block option"

definition POOL_ARRAY_COUNT :: nat where
  "POOL_ARRAY_COUNT = 4096"

definition sizeof_pool_header :: nat where
  "sizeof_pool_header = 16"

definition no_pools :: mempool where
  "no_pools = \<lparr>mp_pools = [], mp_free_list = None, mp_next = (\<lambda>_. None)\<rparr>"

section \<open>Operations\<close>

text \<open>\<open>bsz\<close> is the size of a block. The contents of a pool that \<open>malloc\<close> gives are not known.\<close>

definition initialise_mempool :: "allocator \<Rightarrow> nat \<Rightarrow> bool" where
  "initialise_mempool al bsz = al (bsz * (POOL_ARRAY_COUNT + 1))"

definition mempool_setup :: "allocator \<Rightarrow> nat \<Rightarrow> mempool \<Rightarrow> bool \<times> mempool" where
  "mempool_setup al bsz mp =
     (if \<not> al sizeof_pool_header then (False, mp)
      else (initialise_mempool al bsz, mp\<lparr>mp_pools := [0]\<rparr>))"

definition add_mempool :: "allocator \<Rightarrow> nat \<Rightarrow> mempool \<Rightarrow> bool \<times> mempool" where
  "add_mempool al bsz mp =
     (if \<not> al (sizeof_pool_header * (length (mp_pools mp) + 1)) then (False, mp)
      else if \<not> initialise_mempool al bsz then (False, mp)
      else (True, mp\<lparr>mp_pools := mp_pools mp @ [0]\<rparr>))"

definition freelist_add :: "block \<Rightarrow> mempool \<Rightarrow> mempool" where
  "freelist_add b mp = mp\<lparr>mp_next := (mp_next mp)(b := mp_free_list mp), mp_free_list := Some b\<rparr>"

definition freelist_get :: "mempool \<Rightarrow> block option \<times> mempool" where
  "freelist_get mp =
     (case mp_free_list mp of
        None \<Rightarrow> (None, mp)
      | Some b \<Rightarrow> (Some b, mp\<lparr>mp_free_list := mp_next mp b\<rparr>))"

definition get_next_free :: "allocator \<Rightarrow> nat \<Rightarrow> mempool \<Rightarrow> block option \<times> mempool" where
  "get_next_free al bsz mp =
     (let take_block = (\<lambda>mp. let i = length (mp_pools mp) - 1; j = mp_pools mp ! i
                         in (Some (i, j), mp\<lparr>mp_pools := (mp_pools mp)[i := j + 1]\<rparr>))
      in if POOL_ARRAY_COUNT - 1 \<le> mp_pools mp ! (length (mp_pools mp) - 1) then
           (let (okay, mp) = add_mempool al bsz mp in if \<not> okay then (None, mp) else take_block mp)
         else take_block mp)"

definition mempool_alloc :: "allocator \<Rightarrow> nat \<Rightarrow> mempool \<Rightarrow> block option \<times> mempool" where
  "mempool_alloc al bsz mp =
     (case freelist_get mp of
        (Some b, mp) \<Rightarrow> (Some b, mp)
      | (None, mp) \<Rightarrow> get_next_free al bsz mp)"

definition mempool_free :: "block \<Rightarrow> mempool \<Rightarrow> mempool" where
  "mempool_free b mp = freelist_add b mp"

section \<open>Runs\<close>

text \<open>
  What a client may do: allocate, write into a block that it holds, and free such a block. The second component of a
  state is the set of the blocks that are held.
\<close>

inductive pool_step :: "allocator \<Rightarrow> nat \<Rightarrow> mempool \<times> block set \<Rightarrow> mempool \<times> block set \<Rightarrow> bool" for al bsz where
  allocate: "mempool_alloc al bsz mp = (Some b, mp') \<Longrightarrow> pool_step al bsz (mp, held) (mp', insert b held)"
| refuse: "mempool_alloc al bsz mp = (None, mp') \<Longrightarrow> pool_step al bsz (mp, held) (mp', held)"
| scribble: "b \<in> held \<Longrightarrow> pool_step al bsz (mp, held) (mp\<lparr>mp_next := (mp_next mp)(b := x)\<rparr>, held)"
| release: "b \<in> held \<Longrightarrow> pool_step al bsz (mp, held) (mempool_free b mp, held - {b})"

inductive_cases pool_stepE: "pool_step al bsz s s'"

definition pool_reaches :: "allocator \<Rightarrow> nat \<Rightarrow> mempool \<times> block set \<Rightarrow> mempool \<times> block set \<Rightarrow> bool" where
  "pool_reaches al bsz = (pool_step al bsz)\<^sup>*\<^sup>*"

section \<open>The invariant\<close>

text \<open>The blocks of the free list, in its order.\<close>

fun free_chain :: "(block \<Rightarrow> block option) \<Rightarrow> block option \<Rightarrow> block list \<Rightarrow> bool" where
  "free_chain nx p [] \<longleftrightarrow> p = None"
| "free_chain nx p (b # bs) \<longleftrightarrow> p = Some b \<and> free_chain nx (nx b) bs"

lemma free_chain_update: "b \<notin> set bs \<Longrightarrow> free_chain (nx(b := x)) p bs = free_chain nx p bs"
  by (induction bs arbitrary: p) auto

definition handed_out :: "mempool \<Rightarrow> block set" where
  "handed_out mp = {(i, j). i < length (mp_pools mp) \<and> j < mp_pools mp ! i}"

text \<open>
  There is a pool, and none has given more blocks than it has; what has been given is held or in the free list, and
  nothing twice.
\<close>

definition pool_ok :: "mempool \<times> block set \<Rightarrow> bool" where
  "pool_ok s \<longleftrightarrow> (let (mp, held) = s in
     mp_pools mp \<noteq> [] \<and> (\<forall>n \<in> set (mp_pools mp). n < POOL_ARRAY_COUNT) \<and>
     (\<exists>bs. free_chain (mp_next mp) (mp_free_list mp) bs \<and> distinct bs \<and> set bs \<inter> held = {} \<and>
           set bs \<union> held = handed_out mp))"

lemma pool_okI:
  "mp_pools mp \<noteq> [] \<Longrightarrow> \<forall>n \<in> set (mp_pools mp). n < POOL_ARRAY_COUNT \<Longrightarrow>
     free_chain (mp_next mp) (mp_free_list mp) bs \<Longrightarrow> distinct bs \<Longrightarrow> set bs \<inter> held = {} \<Longrightarrow>
     set bs \<union> held = handed_out mp \<Longrightarrow> pool_ok (mp, held)"
  by (auto simp: pool_ok_def)

lemma pool_okE:
  assumes "pool_ok (mp, held)"
  obtains bs where "mp_pools mp \<noteq> []" "\<forall>n \<in> set (mp_pools mp). n < POOL_ARRAY_COUNT"
    "free_chain (mp_next mp) (mp_free_list mp) bs" "distinct bs" "set bs \<inter> held = {}" "set bs \<union> held = handed_out mp"
  using assms by (auto simp: pool_ok_def)

lemma handed_out_update [simp]:
  "handed_out (mp\<lparr>mp_next := nx\<rparr>) = handed_out mp" "handed_out (mp\<lparr>mp_free_list := p\<rparr>) = handed_out mp"
  by (simp_all add: handed_out_def)

lemma handed_out_add: "handed_out (mp\<lparr>mp_pools := mp_pools mp @ [0]\<rparr>) = handed_out mp"
  by (auto simp: handed_out_def nth_append less_Suc_eq)

lemma handed_out_take:
  "i < length (mp_pools mp) \<Longrightarrow>
     handed_out (mp\<lparr>mp_pools := (mp_pools mp)[i := mp_pools mp ! i + 1]\<rparr>) = insert (i, mp_pools mp ! i) (handed_out mp)"
  by (auto simp: handed_out_def nth_list_update less_Suc_eq split: if_splits)

text \<open>A block that is not from the free list is new: it has not been handed out before, and it lies within its pool.\<close>

lemma get_next_free_new:
  assumes "get_next_free al bsz mp = (r, mp')" "mp_pools mp \<noteq> []" "\<forall>n \<in> set (mp_pools mp). n < POOL_ARRAY_COUNT"
  shows "mp_pools mp' \<noteq> [] \<and> (\<forall>n \<in> set (mp_pools mp'). n < POOL_ARRAY_COUNT) \<and>
    mp_next mp' = mp_next mp \<and> mp_free_list mp' = mp_free_list mp \<and>
    (case r of None \<Rightarrow> handed_out mp' = handed_out mp
     | Some b \<Rightarrow> b \<notin> handed_out mp \<and> handed_out mp' = insert b (handed_out mp) \<and> snd b < POOL_ARRAY_COUNT)"
proof -
  have take_block: "mp_pools mp2 \<noteq> [] \<and> (\<forall>n \<in> set (mp_pools mp2). n < POOL_ARRAY_COUNT) \<and> (i, j) \<notin> handed_out mp1 \<and>
      handed_out mp2 = insert (i, j) (handed_out mp1) \<and> j < POOL_ARRAY_COUNT"
    if "mp_pools mp1 \<noteq> []" "\<forall>n \<in> set (mp_pools mp1). n < POOL_ARRAY_COUNT" "i = length (mp_pools mp1) - 1"
      "j = mp_pools mp1 ! i" "j < POOL_ARRAY_COUNT - 1" "mp2 = mp1\<lparr>mp_pools := (mp_pools mp1)[i := j + 1]\<rparr>"
    for mp1 mp2 :: mempool and i j
  proof -
    have "i < length (mp_pools mp1)" using that(1,3) by simp
    then have "handed_out mp2 = insert (i, j) (handed_out mp1)" using handed_out_take [of i mp1] that(4,6) by simp
    moreover have "(i, j) \<notin> handed_out mp1" using that(4) by (simp add: handed_out_def)
    moreover have "\<forall>n \<in> set (mp_pools mp2). n < POOL_ARRAY_COUNT"
      using that(2,5,6) set_update_subset_insert [of "mp_pools mp1" i "j + 1"] by auto
    ultimately show ?thesis using that(1,5,6) by auto
  qed
  show ?thesis
  proof (cases "POOL_ARRAY_COUNT - 1 \<le> mp_pools mp ! (length (mp_pools mp) - 1)")
    case False
    then show ?thesis using assms take_block [OF assms(2,3) refl refl _ refl] by (auto simp: get_next_free_def Let_def)
  next
    case True
    let ?mp = "mp\<lparr>mp_pools := mp_pools mp @ [0]\<rparr>"
    have "mp_pools ?mp \<noteq> []" "\<forall>n \<in> set (mp_pools ?mp). n < POOL_ARRAY_COUNT"
      "mp_pools ?mp ! (length (mp_pools ?mp) - 1) < POOL_ARRAY_COUNT - 1"
      using assms(3) by (auto simp: POOL_ARRAY_COUNT_def)
    note new = take_block [OF this(1,2) refl refl this(3) refl]
    show ?thesis
      using True assms new handed_out_add [of mp]
      by (auto simp: get_next_free_def add_mempool_def Let_def split: if_splits)
  qed
qed

lemma mempool_alloc_ok:
  assumes "mempool_alloc al bsz mp = (r, mp')" "pool_ok (mp, held)"
  shows "case r of None \<Rightarrow> pool_ok (mp', held)
    | Some b \<Rightarrow> pool_ok (mp', insert b held) \<and> b \<notin> held \<and> snd b < POOL_ARRAY_COUNT"
proof -
  obtain bs where ok: "mp_pools mp \<noteq> []" "\<forall>n \<in> set (mp_pools mp). n < POOL_ARRAY_COUNT"
    "free_chain (mp_next mp) (mp_free_list mp) bs" "distinct bs" "set bs \<inter> held = {}" "set bs \<union> held = handed_out mp"
    using assms(2) by (rule pool_okE)
  show ?thesis
  proof (cases bs)
    case (Cons b bs')
    then have run: "r = Some b" "mp' = mp\<lparr>mp_free_list := mp_next mp b\<rparr>"
      using assms(1) ok(3) by (auto simp: mempool_alloc_def freelist_get_def)
    have "pool_ok (mp', insert b held)"
      by (rule pool_okI [of _ bs']) (use ok Cons in \<open>auto simp: run\<close>)
    moreover have "snd b < POOL_ARRAY_COUNT"
    proof -
      have "b \<in> handed_out mp" using ok(6) Cons by auto
      then show ?thesis using ok(2) by (auto simp: handed_out_def) (meson less_trans nth_mem)
    qed
    ultimately show ?thesis using ok(5) Cons by (simp add: run)
  next
    case Nil
    then have "get_next_free al bsz mp = (r, mp')"
      using assms(1) ok(3) by (simp add: mempool_alloc_def freelist_get_def)
    note new = get_next_free_new [OF this ok(1,2)]
    then show ?thesis using ok Nil by (cases r) (auto intro!: pool_okI [of _ "[]"])
  qed
qed

lemma pool_step_ok: "pool_step al bsz s s' \<Longrightarrow> pool_ok s \<Longrightarrow> pool_ok s'"
proof (induction rule: pool_step.induct)
  case (allocate mp b mp' held)
  then show ?case using mempool_alloc_ok by fastforce
next
  case (refuse mp mp' held)
  then show ?case using mempool_alloc_ok by fastforce
next
  case (scribble b held mp x)
  from scribble.prems obtain bs where ok: "mp_pools mp \<noteq> []" "\<forall>n \<in> set (mp_pools mp). n < POOL_ARRAY_COUNT"
    "free_chain (mp_next mp) (mp_free_list mp) bs" "distinct bs" "set bs \<inter> held = {}" "set bs \<union> held = handed_out mp"
    by (rule pool_okE)
  have "b \<notin> set bs" using scribble.hyps ok(5) by auto
  then show ?case by (intro pool_okI [of _ bs]) (use ok in \<open>simp_all add: free_chain_update\<close>)
next
  case (release b held mp)
  from release.prems obtain bs where ok: "mp_pools mp \<noteq> []" "\<forall>n \<in> set (mp_pools mp). n < POOL_ARRAY_COUNT"
    "free_chain (mp_next mp) (mp_free_list mp) bs" "distinct bs" "set bs \<inter> held = {}" "set bs \<union> held = handed_out mp"
    by (rule pool_okE)
  have b: "b \<notin> set bs" using release.hyps ok(5) by auto
  show ?case
    by (rule pool_okI [of _ "b # bs"])
      (use ok b release.hyps in \<open>auto simp: mempool_free_def freelist_add_def free_chain_update\<close>)
qed

lemma pool_reaches_ok: "pool_reaches al bsz s s' \<Longrightarrow> pool_ok s \<Longrightarrow> pool_ok s'"
  unfolding pool_reaches_def by (induction rule: rtranclp_induct) (auto intro: pool_step_ok)

lemma setup_ok: "mempool_setup al bsz no_pools = (True, mp) \<Longrightarrow> pool_ok (mp, {})"
  by (auto simp: mempool_setup_def no_pools_def POOL_ARRAY_COUNT_def handed_out_def intro!: pool_okI [of _ "[]"] split: if_splits)

section \<open>Properties\<close>

text \<open>
  C14: no block is given twice. After any sequence of allocations and releases, with the client writing into the blocks that it holds
  in between, over the links of the free list as well, an allocation either fails or gives a block that lies within its pool and that the client does not hold.
\<close>

theorem mempool_run_safe:
  assumes "mempool_setup al bsz no_pools = (True, mp0)" "pool_reaches al bsz (mp0, {}) (mp, held)"
    and "mempool_alloc al bsz mp = (Some b, mp')"
  shows "b \<notin> held \<and> snd b < POOL_ARRAY_COUNT \<and> held \<subseteq> handed_out mp"
proof -
  have "pool_ok (mp, held)" using pool_reaches_ok [OF assms(2) setup_ok [OF assms(1)]] .
  then show ?thesis using mempool_alloc_ok [OF assms(3)] by (auto elim: pool_okE)
qed

theorem mempool_run_safe_witness:
  "\<exists>b mp'. mempool_alloc (\<lambda>_. True) 64 (no_pools\<lparr>mp_pools := [0]\<rparr>) = (Some b, mp') \<and> snd b < POOL_ARRAY_COUNT"
proof -
  let ?mp = "no_pools\<lparr>mp_pools := [0]\<rparr>"
  have start: "mempool_setup (\<lambda>_. True) 64 no_pools = (True, ?mp)" by (simp add: mempool_setup_def initialise_mempool_def)
  have "pool_reaches (\<lambda>_. True) 64 (?mp, {}) (?mp, {})" by (simp add: pool_reaches_def)
  note safe = mempool_run_safe [OF start this]
  obtain b mp' where "mempool_alloc (\<lambda>_. True) 64 ?mp = (Some b, mp')"
    by (simp add: mempool_alloc_def freelist_get_def get_next_free_def no_pools_def POOL_ARRAY_COUNT_def Let_def)
  then show ?thesis using safe by blast
qed

text \<open>A block that is released is the next one that is given, and no memory is asked for.\<close>

lemma mempool_free_alloc: "\<exists>mp'. mempool_alloc al bsz (mempool_free b mp) = (Some b, mp') \<and> mp_free_list mp' = mp_free_list mp"
  by (simp add: mempool_alloc_def mempool_free_def freelist_add_def freelist_get_def)

end
