(* ===== verification/Prng.thy ===== *)
theory Prng
  imports Prelude
begin

text \<open>
  The random numbers of \<^verbatim>\<open>src/prng.c\<close> in a build with \<open>arc4random\<close>: a number below a bound from a source of random
  cells. The rest of the model takes the other variant, the remainder of \<open>random()\<close>, which is not uniform.
\<close>

section \<open>The routine\<close>

text \<open>\<open>src i\<close> is what call number \<open>i\<close> of \<open>arc4random_buf\<close> gives; the loop is \<open>None\<close> if it does not end.\<close>

partial_function (option) arc4random_loop :: "(nat \<Rightarrow> ucell) \<Rightarrow> ucell \<Rightarrow> nat \<Rightarrow> (ucell \<times> nat) option" where
  "arc4random_loop src least i = (if least \<le> src i then Some (src i, i + 1) else arc4random_loop src least (i + 1))"

definition arc4random_least :: "ucell \<Rightarrow> ucell" where
  "arc4random_least upper_bound = - upper_bound mod upper_bound"

definition cfun_arc4random_range :: "(nat \<Rightarrow> ucell) \<Rightarrow> ucell \<Rightarrow> nat \<Rightarrow> (ucell \<times> nat) option" where
  "cfun_arc4random_range src upper_bound i =
     (if upper_bound < 2 then Some (0, i)
      else map_option (\<lambda>(r, i). (r mod upper_bound, i)) (arc4random_loop src (arc4random_least upper_bound) i))"

section \<open>What it gives\<close>

lemma arc4random_loop_first:
  "least \<le> src j \<Longrightarrow> i \<le> j \<Longrightarrow> (\<And>l. i \<le> l \<Longrightarrow> l < j \<Longrightarrow> src l < least) \<Longrightarrow> arc4random_loop src least i = Some (src j, j + 1)"
proof (induction "j - i" arbitrary: i)
  case 0
  then show ?case by (simp add: arc4random_loop.simps)
next
  case (Suc n)
  then have "src i < least" by auto
  moreover have "arc4random_loop src least (i + 1) = Some (src j, j + 1)" using Suc by auto
  ultimately show ?case by (subst arc4random_loop.simps) (simp add: linorder_not_le [symmetric])
qed

lemma arc4random_loop_accepts:
  "arc4random_loop src least i = Some r \<Longrightarrow> \<exists>j \<ge> i. least \<le> src j"
proof (induction src least i r rule: arc4random_loop.raw_induct [rotated, consumes 1, case_names Unfold])
  case (Unfold loop src least i r)
  show ?case
  proof (cases "least \<le> src i")
    case False
    then have "loop src least (i + 1) = Some r" using Unfold(2) by simp
    then show ?thesis using Unfold(1) by (meson add_leD1)
  qed blast
qed

text \<open>The bound below which a cell is refused is the remainder of the number of all cells.\<close>

lemma arc4random_least: "0 < n \<Longrightarrow> unat (arc4random_least n) = 2 ^ 64 mod unat n"
proof -
  assume n: "0 < n"
  then have "unat (- n) = 2 ^ 64 - unat n"
    using unat_sub_if_size [of 0 n] by (simp add: word_size word_le_nat_alt unat_gt_0)
  moreover have "(2 ^ 64 - unat n) mod unat n = 2 ^ 64 mod unat n"
    using unsigned_less [of n, where 'a = nat] by (subst le_mod_geq [of _ "2 ^ 64"]) simp_all
  ultimately show ?thesis by (simp add: arc4random_least_def unat_mod)
qed

lemma window_count:
  fixes n :: nat
  assumes "k < n"
  shows "(\<Sum>r = a..<a + n. of_bool (r mod n = k)) = (1 :: nat)"
proof (induction a)
  case 0
  have "(\<Sum>r = 0..<n. of_bool (r mod n = k)) = (\<Sum>r = 0..<n. of_bool (r = k) :: nat)"
    by (rule sum.cong) auto
  then show ?case using assms by (simp add: of_bool_def)
next
  case (Suc a)
  let ?f = "\<lambda>r. of_bool (r mod n = k) :: nat"
  have "?f a + sum ?f {Suc a..<Suc a + n} = sum ?f {a..<Suc a + n}"
    by (subst sum.atLeast_Suc_lessThan [of a]) simp_all
  also have "... = sum ?f {a..<a + n} + ?f (a + n)" by simp
  finally show ?case using Suc.IH by simp
qed

lemma window_counts:
  fixes n :: nat
  assumes "k < n"
  shows "(\<Sum>r = a..<a + q * n. of_bool (r mod n = k)) = q"
proof (induction q)
  case (Suc q)
  let ?f = "\<lambda>r. of_bool (r mod n = k) :: nat"
  have "sum ?f {a..<a + Suc q * n} = sum ?f {a..<a + q * n} + sum ?f {a + q * n..<a + q * n + n}"
    by (subst sum.atLeastLessThan_concat) (simp_all add: algebra_simps)
  then show ?case using Suc.IH window_count [OF assms] by simp
qed simp

lemma card_cells:
  "card {r :: ucell. P (unat r)} = card {m \<in> {..<2 ^ 64}. P m}"
proof -
  have "unat ` {r :: ucell. P (unat r)} = {m \<in> {..<2 ^ 64}. P m}"
  proof (intro subset_antisym subsetI)
    fix m assume m: "m \<in> {m \<in> {..<2 ^ 64}. P m}"
    then have "unat (of_nat m :: ucell) = m" by (simp add: unat_of_nat)
    with m show "m \<in> unat ` {r :: ucell. P (unat r)}" by (intro image_eqI [of _ _ "of_nat m"]) simp_all
  qed (use unsigned_less [where 'a = nat and 'b = 64] in auto)
  moreover have "inj_on unat {r :: ucell. P (unat r)}" by (auto intro!: inj_onI simp: word_unat_eq_iff)
  ultimately show ?thesis using card_image [of unat "{r :: ucell. P (unat r)}"] by simp
qed

lemma accepted_iff: "0 < n \<Longrightarrow> arc4random_least n \<le> r \<longleftrightarrow> 2 ^ 64 mod unat n \<le> unat r"
  by (simp add: word_le_nat_alt arc4random_least)

text \<open>A source that gives the same cell for ever shows which cells are refused, and what the others are turned into.\<close>

lemma arc4random_loop_constant:
  "arc4random_loop (\<lambda>_. r) least i = (if least \<le> r then Some (r, i + 1) else None)"
  using arc4random_loop_accepts [of "\<lambda>_. r" least i] arc4random_loop_first [of least "\<lambda>_. r" i i]
  by (cases "arc4random_loop (\<lambda>_. r) least i") auto

lemma arc4random_constant:
  "2 \<le> n \<Longrightarrow> cfun_arc4random_range (\<lambda>_. r) n i = (if arc4random_least n \<le> r then Some (r mod n, i + 1) else None)"
  by (simp add: cfun_arc4random_range_def arc4random_loop_constant)

lemma arc4random_loop_Some:
  "arc4random_loop src least i = Some (r, j) \<longleftrightarrow>
    (\<exists>m \<ge> i. j = m + 1 \<and> r = src m \<and> least \<le> src m \<and> (\<forall>l \<in> {i..<m}. src l < least))"
proof
  assume run: "arc4random_loop src least i = Some (r, j)"
  then have ex: "\<exists>m. i \<le> m \<and> least \<le> src m" using arc4random_loop_accepts [of src least i] by blast
  define m where "m = (LEAST m. i \<le> m \<and> least \<le> src m)"
  have m: "i \<le> m \<and> least \<le> src m" unfolding m_def using ex by (rule LeastI_ex)
  have before: "src l < least" if "i \<le> l" "l < m" for l
    using not_less_Least [of l "\<lambda>m. i \<le> m \<and> least \<le> src m"] that by (auto simp: m_def)
  then have "arc4random_loop src least i = Some (src m, m + 1)" using m arc4random_loop_first [of least src m i] by blast
  with run m before show "\<exists>m \<ge> i. j = m + 1 \<and> r = src m \<and> least \<le> src m \<and> (\<forall>l \<in> {i..<m}. src l < least)" by auto
next
  assume "\<exists>m \<ge> i. j = m + 1 \<and> r = src m \<and> least \<le> src m \<and> (\<forall>l \<in> {i..<m}. src l < least)"
  then show "arc4random_loop src least i = Some (r, j)" using arc4random_loop_first [of least src] by auto
qed

lemma arc4random_loop_None:
  "arc4random_loop src least i = None \<longleftrightarrow> (\<forall>m \<ge> i. src m < least)"
proof
  assume "\<forall>m \<ge> i. src m < least"
  then show "arc4random_loop src least i = None"
    using arc4random_loop_accepts [of src least i] by (cases "arc4random_loop src least i") (auto simp: linorder_not_le [symmetric])
next
  assume none: "arc4random_loop src least i = None"
  show "\<forall>m \<ge> i. src m < least"
  proof (intro allI impI)
    fix m assume "i \<le> m"
    then show "src m < least" using none
    proof (induction "m - i" arbitrary: i)
      case 0
      then show ?case by (simp add: arc4random_loop.simps linorder_not_le split: if_splits)
    next
      case (Suc d)
      have "arc4random_loop src least (i + 1) = None"
        using Suc.prems(2) arc4random_loop.simps [of src least i] by (simp split: if_splits)
      moreover have "d = m - (i + 1)" "i + 1 \<le> m" using Suc.hyps(2) by linarith+
      ultimately show ?case by (intro Suc.hyps(1))
    qed
  qed
qed

lemma arc4random_accepted: "0 < n \<Longrightarrow> 2 ^ 64 < 2 * card {r :: ucell. arc4random_least n \<le> r}"
proof -
  let ?T = "2 ^ 64 :: nat" and ?n = "unat n"
  let ?m = "?T mod ?n"
  assume n: "0 < n"
  then have pos: "0 < ?n" "?n < ?T" using unsigned_less [of n] by (auto simp: word_less_nat_alt)
  have "card {r. arc4random_least n \<le> r} = card {m \<in> {..<?T}. ?m \<le> m}"
    by (simp only: accepted_iff [OF n]) (rule card_cells)
  also have "... = card {?m..<?T}" by (rule arg_cong [of _ _ card]) auto
  also have "... = ?T - ?m" by simp
  finally have all: "card {r. arc4random_least n \<le> r} = ?T - ?m" .
  have "?m < ?n" using pos by simp
  moreover have "?n + ?m \<le> ?T"
  proof -
    have "1 \<le> ?T div ?n" using pos by (simp add: div_greater_zero_iff Suc_le_eq)
    then have "1 * ?n \<le> ?T div ?n * ?n" by (rule mult_le_mono1)
    then show ?thesis using div_mult_mod_eq [of ?T ?n] by linarith
  qed
  ultimately show ?thesis using all by linarith
qed

lemma arc4random_each:
  assumes "k < n"
  shows "card {r. arc4random_least n \<le> r \<and> r mod n = k} = 2 ^ 64 div unat n"
proof -
  let ?T = "2 ^ 64 :: nat" and ?n = "unat n" and ?k = "unat k"
  let ?m = "?T mod ?n"
  have n: "0 < n" "?k < ?n" using order_le_less_trans [OF word_zero_le assms] assms by (simp_all add: word_less_nat_alt)
  have T: "?m + ?T div ?n * ?n = ?T" by simp
  have "card {r. arc4random_least n \<le> r \<and> r mod n = k} = card {r :: ucell. ?m \<le> unat r \<and> unat r mod ?n = ?k}"
    by (simp add: accepted_iff [OF n(1)] word_unat_eq_iff unat_mod)
  also have "... = card {m \<in> {?m..<?T}. m mod ?n = ?k}"
    by (subst card_cells) (rule arg_cong [of _ _ card], auto)
  also have "... = (\<Sum>m = ?m..<?m + ?T div ?n * ?n. of_bool (m mod ?n = ?k))"
    by (simp only: T sum_of_bool_eq [OF finite_atLeastLessThan]) (simp add: Int_def)
  also have "... = ?T div ?n" by (rule window_counts [OF n(2)])
  finally show ?thesis .
qed

text \<open>
  C25: the numbers that \<open>cfun_arc4random_range\<close> returns are uniform. Of the \<open>2 ^ 64\<close> cells that the source may give, exactly \<open>2 ^ 64 div n\<close> make
  the call return \<open>k\<close>, for every \<open>k\<close> below the bound; more than half of all cells are accepted, and the others make it ask again. The value
  of a call is the one of the first accepted cell of the source, after which it asks for no further one, and the call returns exactly if the source ever gives
  such a cell.
\<close>

theorem arc4random_uniform:
  assumes "2 \<le> n" "k < n"
  shows "card {r. cfun_arc4random_range (\<lambda>_. r) n i = Some (k, i + 1)} = 2 ^ 64 div unat n \<and>
    2 ^ 64 < 2 * card {r. cfun_arc4random_range (\<lambda>_. r) n i \<noteq> None} \<and>
    (cfun_arc4random_range src n i = Some (v, j) \<longleftrightarrow>
      (\<exists>m \<ge> i. j = m + 1 \<and> cfun_arc4random_range (\<lambda>_. src m) n i = Some (v, i + 1) \<and>
        (\<forall>l \<in> {i..<m}. cfun_arc4random_range (\<lambda>_. src l) n i = None))) \<and>
    (cfun_arc4random_range src n i = None \<longleftrightarrow> (\<forall>m \<ge> i. cfun_arc4random_range (\<lambda>_. src m) n i = None))"
proof -
  have n: "0 < n" by (rule order_le_less_trans [OF word_zero_le assms(2)])
  have whole: "cfun_arc4random_range src n i = map_option (\<lambda>(r, i). (r mod n, i)) (arc4random_loop src (arc4random_least n) i)"
    unfolding cfun_arc4random_range_def by (rule if_not_P) (use assms(1) in \<open>simp only: linorder_not_less\<close>)
  have some: "cfun_arc4random_range src n i = Some (v, j) \<longleftrightarrow>
      (\<exists>m \<ge> i. j = m + 1 \<and> v = src m mod n \<and> arc4random_least n \<le> src m \<and> (\<forall>l \<in> {i..<m}. src l < arc4random_least n))" for v j
  proof -
    have "cfun_arc4random_range src n i = Some (v, j) \<longleftrightarrow>
        (\<exists>r. arc4random_loop src (arc4random_least n) i = Some (r, j) \<and> v = r mod n)"
      unfolding whole by (cases "arc4random_loop src (arc4random_least n) i") auto
    then show ?thesis unfolding arc4random_loop_Some by blast
  qed
  have none: "cfun_arc4random_range src n i = None \<longleftrightarrow> (\<forall>m \<ge> i. src m < arc4random_least n)"
    by (simp add: whole arc4random_loop_None)
  note one = arc4random_constant [OF assms(1)]
  have "{r. cfun_arc4random_range (\<lambda>_. r) n i = Some (k, i + 1)} = {r. arc4random_least n \<le> r \<and> r mod n = k}"
    "{r. cfun_arc4random_range (\<lambda>_. r) n i \<noteq> None} = {r. arc4random_least n \<le> r}"
    by (auto simp: one)
  moreover have "cfun_arc4random_range src n i = Some (v, j) \<longleftrightarrow>
      (\<exists>m \<ge> i. j = m + 1 \<and> cfun_arc4random_range (\<lambda>_. src m) n i = Some (v, i + 1) \<and>
        (\<forall>l \<in> {i..<m}. cfun_arc4random_range (\<lambda>_. src l) n i = None))"
    unfolding some one by (auto simp: linorder_not_le)
  moreover have "cfun_arc4random_range src n i = None \<longleftrightarrow> (\<forall>m \<ge> i. cfun_arc4random_range (\<lambda>_. src m) n i = None)"
    unfolding none one by (auto simp: linorder_not_le)
  ultimately show ?thesis using arc4random_each [OF assms(2)] arc4random_accepted [OF n] by presburger
qed

text \<open>With the bound \<open>10\<close> a refused cell, \<open>3\<close>, is followed by an accepted one, \<open>47\<close>: the call asks twice and returns \<open>7\<close>.\<close>

theorem arc4random_uniform_witness:
  "card {r. cfun_arc4random_range (\<lambda>_. r) 10 0 = Some (7, 1)} = 1844674407370955161 \<and>
   cfun_arc4random_range ((\<lambda>_. 47)(0 := 3)) 10 0 = Some (7, 2)"
proof -
  have "2 \<le> (10 :: ucell)" "7 < (10 :: ucell)" by (simp_all add: word_le_nat_alt word_less_nat_alt)
  note at = arc4random_uniform [OF this, of 0 "(\<lambda>_. 47)(0 := 3)" 7 2]
  have "\<exists>m \<ge> 0 :: nat. 2 = m + 1 \<and> cfun_arc4random_range (\<lambda>_. ((\<lambda>_. 47)(0 := 3)) m) 10 0 = Some (7, 0 + 1) \<and>
    (\<forall>l \<in> {0..<m}. cfun_arc4random_range (\<lambda>_. ((\<lambda>_. 47)(0 := 3)) l) 10 0 = None)"
    by (rule exI [of _ "1 :: nat"]) (simp add: arc4random_constant arc4random_least_def word_le_nat_alt)
  then have "cfun_arc4random_range ((\<lambda>_. 47)(0 := 3)) 10 0 = Some (7, 2)" using at by blast
  moreover have "card {r. cfun_arc4random_range (\<lambda>_. r) 10 0 = Some (7, 1)} = 1844674407370955161"
    using conjunct1 [OF at] by simp
  ultimately show ?thesis by blast
qed

end
