(* ===== verification/Ght_Links.thy ===== *)
theory Ght_Links
  imports Ght "HOL-Library.Monad_Syntax"
begin

text \<open>
  The hash table of \<^verbatim>\<open>lib/libghthash/hash_table_priv.h\<close> as it lies in memory. Theory
  \<open>Ght\<close> has the chain of a bucket and the list of ages as lists; here they are what the code
  has, pointers in the entries: \<open>p_next\<close> and \<open>p_prev\<close> link the entries of a bucket, \<open>p_older\<close>
  and \<open>p_newer\<close> all entries in the order of insertion.

  The memory of entries is a map from addresses, \<open>None\<close> where no entry is allocated; a
  pointer is an address or \<open>None\<close>, \<open>NULL\<close>. An operation is \<open>None\<close> when it follows \<open>NULL\<close> or a
  pointer to memory that is not allocated (any more), when it reads past the array of buckets,
  or when it does not return. The allocation of an entry (\<open>mempool_alloc\<close>, theory
  \<open>Mempool\<close>) is an argument, \<open>new\<close>: the address it answers when that memory is in use.
  When it answers \<open>NULL\<close>, the process ends there.

  The search takes its heuristics as an argument too; the build has none.
\<close>

section \<open>Memory\<close>

type_synonym ptr = "nat option"

record ('k, 'v) hash_entry =
  he_data :: 'v
  he_next :: ptr
  he_prev :: ptr
  he_older :: ptr
  he_newer :: ptr
  he_key :: 'k

type_synonym ('k, 'v) entries = "nat \<Rightarrow> ('k, 'v) hash_entry option"

record table_struct =
  t_items :: nat
  t_size :: nat
  t_rehash :: bool
  t_mask :: "32 word"
  t_entries :: "nat \<Rightarrow> ptr"
  t_nr :: "nat \<Rightarrow> nat"
  t_oldest :: ptr
  t_newest :: ptr

text \<open>\<open>p->f\<close> as a value, \<open>p->f = v\<close> as a statement, and \<open>free(p)\<close>.\<close>

definition field :: "(('k, 'v) hash_entry \<Rightarrow> 'a) \<Rightarrow> ('k, 'v) entries \<Rightarrow> nat \<Rightarrow> 'a" where
  "field f h a = f (the (h a))"

definition entry_update :: "('k, 'v) entries \<Rightarrow> nat \<Rightarrow>
    (('k, 'v) hash_entry \<Rightarrow> ('k, 'v) hash_entry) \<Rightarrow> ('k, 'v) entries" where
  "entry_update h a g = h(a := map_option g (h a))"

definition read_field :: "(('k, 'v) hash_entry \<Rightarrow> 'a) \<Rightarrow> ('k, 'v) entries \<Rightarrow> ptr \<Rightarrow> 'a option" where
  "read_field f h p =
     (case p of None \<Rightarrow> None | Some a \<Rightarrow> if h a = None then None else Some (field f h a))"

definition write_field :: "(('k, 'v) hash_entry \<Rightarrow> ('k, 'v) hash_entry) \<Rightarrow> ('k, 'v) entries \<Rightarrow>
    ptr \<Rightarrow> ('k, 'v) entries option" where
  "write_field g h p =
     (case p of None \<Rightarrow> None | Some a \<Rightarrow> if h a = None then None else Some (entry_update h a g))"

definition free_entry :: "('k, 'v) entries \<Rightarrow> ptr \<Rightarrow> ('k, 'v) entries option" where
  "free_entry h p =
     (case p of None \<Rightarrow> None | Some a \<Rightarrow> if h a = None then None else Some (h(a := None)))"

text \<open>\<open>p_ht->pp_entries[l_bucket]\<close>\<close>

definition read_bucket :: "table_struct \<Rightarrow> nat \<Rightarrow> ptr option" where
  "read_bucket t b = (if b < t_size t then Some (t_entries t b) else None)"

definition write_bucket :: "table_struct \<Rightarrow> nat \<Rightarrow> ptr \<Rightarrow> table_struct option" where
  "write_bucket t b p =
     (if b < t_size t then Some (t\<lparr>t_entries := (t_entries t)(b := p)\<rparr>) else None)"

section \<open>Buckets\<close>

text \<open>\<open>transpose\<close>: an entry changes places with the one before it.\<close>

definition transpose_entry :: "('k, 'v) entries \<Rightarrow> table_struct \<Rightarrow> nat \<Rightarrow> ptr \<Rightarrow>
    (('k, 'v) entries \<times> table_struct) option" where
  "transpose_entry h t l_bucket p_entry =
     do {
       p_x \<leftarrow> read_field he_prev h p_entry;
       if p_x = None then Some (h, t)
       else do {
         p_a \<leftarrow> read_field he_prev h p_x;
         p_b \<leftarrow> read_field he_next h p_entry;
         (h, t) \<leftarrow>
           (if p_a \<noteq> None
            then do { h \<leftarrow> write_field (he_next_update (\<lambda>_. p_entry)) h p_a; Some (h, t) }
            else do { t \<leftarrow> write_bucket t l_bucket p_entry; Some (h, t) });
         h \<leftarrow> (if p_b \<noteq> None then write_field (he_prev_update (\<lambda>_. p_x)) h p_b else Some h);
         nx \<leftarrow> read_field he_next h p_entry;
         h \<leftarrow> write_field (he_next_update (\<lambda>_. nx)) h p_x;
         h \<leftarrow> write_field (he_prev_update (\<lambda>_. p_entry)) h p_x;
         h \<leftarrow> write_field (he_next_update (\<lambda>_. p_x)) h p_entry;
         h \<leftarrow> write_field (he_prev_update (\<lambda>_. p_a)) h p_entry;
         Some (h, t)
       }
     }"

definition move_to_front :: "('k, 'v) entries \<Rightarrow> table_struct \<Rightarrow> nat \<Rightarrow> ptr \<Rightarrow>
    (('k, 'v) entries \<times> table_struct) option" where
  "move_to_front h t l_bucket p_entry =
     do {
       p \<leftarrow> read_bucket t l_bucket;
       if p_entry = p then Some (h, t)
       else do {
         pv \<leftarrow> read_field he_prev h p_entry;
         nx \<leftarrow> read_field he_next h p_entry;
         h \<leftarrow> write_field (he_next_update (\<lambda>_. nx)) h pv;
         nx \<leftarrow> read_field he_next h p_entry;
         pv \<leftarrow> read_field he_prev h p_entry;
         h \<leftarrow> (if nx \<noteq> None then write_field (he_prev_update (\<lambda>_. pv)) h nx else Some h);
         p \<leftarrow> read_bucket t l_bucket;
         h \<leftarrow> write_field (he_next_update (\<lambda>_. p)) h p_entry;
         h \<leftarrow> write_field (he_prev_update (\<lambda>_. None)) h p_entry;
         h \<leftarrow> write_field (he_prev_update (\<lambda>_. p_entry)) h p;
         t \<leftarrow> write_bucket t l_bucket p_entry;
         Some (h, t)
       }
     }"

definition remove_from_chain :: "('k, 'v) entries \<Rightarrow> table_struct \<Rightarrow> nat \<Rightarrow> ptr \<Rightarrow>
    (('k, 'v) entries \<times> table_struct) option" where
  "remove_from_chain h t l_bucket p =
     do {
       pv \<leftarrow> read_field he_prev h p;
       nx \<leftarrow> read_field he_next h p;
       (h, t) \<leftarrow>
         (if pv \<noteq> None
          then do { h \<leftarrow> write_field (he_next_update (\<lambda>_. nx)) h pv; Some (h, t) }
          else do { t \<leftarrow> write_bucket t l_bucket nx; Some (h, t) });
       nx \<leftarrow> read_field he_next h p;
       pv \<leftarrow> read_field he_prev h p;
       h \<leftarrow> (if nx \<noteq> None then write_field (he_prev_update (\<lambda>_. pv)) h nx else Some h);
       older \<leftarrow> read_field he_older h p;
       newer \<leftarrow> read_field he_newer h p;
       (h, t) \<leftarrow>
         (if older \<noteq> None
          then do { h \<leftarrow> write_field (he_newer_update (\<lambda>_. newer)) h older; Some (h, t) }
          else Some (h, t\<lparr>t_oldest := newer\<rparr>));
       newer \<leftarrow> read_field he_newer h p;
       older \<leftarrow> read_field he_older h p;
       if newer \<noteq> None
       then do { h \<leftarrow> write_field (he_older_update (\<lambda>_. older)) h newer; Some (h, t) }
       else Some (h, t\<lparr>t_newest := older\<rparr>)
     }"

definition GHT_HEURISTICS_TRANSPOSE :: nat where
  "GHT_HEURISTICS_TRANSPOSE = 1"

definition GHT_HEURISTICS_MOVE_TO_FRONT :: nat where
  "GHT_HEURISTICS_MOVE_TO_FRONT = 2"

partial_function (option) search_loop ::
    "('k, 'v) entries \<Rightarrow> ptr \<Rightarrow> 'k \<Rightarrow> ptr option" where
  "search_loop h p_e key =
     (if p_e = None then Some None
      else do {
        k \<leftarrow> read_field he_key h p_e;
        if k = key then Some p_e
        else do { nx \<leftarrow> read_field he_next h p_e; search_loop h nx key }
      })"

definition search_links :: "('k, 'v) entries \<Rightarrow> table_struct \<Rightarrow> nat \<Rightarrow> 'k \<Rightarrow> nat \<Rightarrow>
    (('k, 'v) entries \<times> table_struct \<times> ptr) option" where
  "search_links h t l_bucket key i_heuristics =
     do {
       p \<leftarrow> read_bucket t l_bucket;
       p_e \<leftarrow> search_loop h p key;
       if p_e = None then Some (h, t, None)
       else do {
         (h, t) \<leftarrow>
           (if i_heuristics = GHT_HEURISTICS_MOVE_TO_FRONT then move_to_front h t l_bucket p_e
            else if i_heuristics = GHT_HEURISTICS_TRANSPOSE then transpose_entry h t l_bucket p_e
            else Some (h, t));
         Some (h, t, p_e)
       }
     }"

section \<open>The operations\<close>

definition he_create :: "(('k, 'v) entries \<Rightarrow> nat) \<Rightarrow> ('k, 'v) entries \<Rightarrow> 'v \<Rightarrow> 'k \<Rightarrow>
    ('k, 'v) entries \<times> ptr" where
  "he_create new h p_data p_key_data =
     (h(new h \<mapsto> \<lparr>he_data = p_data, he_next = None, he_prev = None, he_older = None,
                  he_newer = None, he_key = p_key_data\<rparr>), Some (new h))"

definition he_finalize :: "('k, 'v) entries \<Rightarrow> ptr \<Rightarrow> ('k, 'v) entries option" where
  "he_finalize h p_he =
     do {
       h \<leftarrow> write_field (he_next_update (\<lambda>_. None)) h p_he;
       h \<leftarrow> write_field (he_prev_update (\<lambda>_. None)) h p_he;
       h \<leftarrow> write_field (he_older_update (\<lambda>_. None)) h p_he;
       h \<leftarrow> write_field (he_newer_update (\<lambda>_. None)) h p_he;
       free_entry h p_he
     }"

definition links_create :: "nat \<Rightarrow> table_struct" where
  "links_create n =
     (let (sz, i) = ght_size_loop n 1 1
      in \<lparr>t_items = 0, t_size = sz, t_rehash = False, t_mask = of_nat (2 ^ (i - 1) - 1),
          t_entries = (\<lambda>_. None), t_nr = (\<lambda>_. 0), t_oldest = None, t_newest = None\<rparr>)"

definition links_l_key :: "('k \<Rightarrow> 32 word) \<Rightarrow> table_struct \<Rightarrow> 'k \<Rightarrow> nat" where
  "links_l_key hash t key = unat (hash key AND t_mask t)"

text \<open>The second half of an insertion, from "Place the entry first in the list" on.\<close>

definition links_place :: "('k, 'v) entries \<Rightarrow> table_struct \<Rightarrow> nat \<Rightarrow> ptr \<Rightarrow>
    (('k, 'v) entries \<times> table_struct) option" where
  "links_place h t l_key p_entry =
     do {
       p \<leftarrow> read_bucket t l_key;
       h \<leftarrow> write_field (he_next_update (\<lambda>_. p)) h p_entry;
       h \<leftarrow> write_field (he_prev_update (\<lambda>_. None)) h p_entry;
       h \<leftarrow> (if p \<noteq> None then write_field (he_prev_update (\<lambda>_. p_entry)) h p else Some h);
       t \<leftarrow> write_bucket t l_key p_entry;
       let t = t\<lparr>t_nr := (t_nr t)(l_key := t_nr t l_key + 1)\<rparr>;
       let t = t\<lparr>t_items := t_items t + 1\<rparr>;
       let t = (if t_oldest t = None then t\<lparr>t_oldest := p_entry\<rparr> else t);
       h \<leftarrow> write_field (he_older_update (\<lambda>_. t_newest t)) h p_entry;
       h \<leftarrow> (if t_newest t \<noteq> None
             then write_field (he_newer_update (\<lambda>_. p_entry)) h (t_newest t) else Some h);
       Some (h, t\<lparr>t_newest := p_entry\<rparr>)
     }"

text \<open>
  \<open>insert\<close> and \<open>rehash\<close> call each other, but \<open>rehash\<close> inserts into a table whose automatic
  rehashing is off: an insertion takes the function that it rehashes with.
\<close>

definition links_insert_with ::
    "(('k, 'v) entries \<Rightarrow> table_struct \<Rightarrow> nat \<Rightarrow> (('k, 'v) entries \<times> table_struct) option) \<Rightarrow>
     ('k \<Rightarrow> 32 word) \<Rightarrow> (('k, 'v) entries \<Rightarrow> nat) \<Rightarrow> ('k, 'v) entries \<Rightarrow> table_struct \<Rightarrow> 'v \<Rightarrow> 'k \<Rightarrow>
     (int \<times> ('k, 'v) entries \<times> table_struct) option" where
  "links_insert_with rehash hash new h t d key =
     do {
       let l_key = links_l_key hash t key;
       (h, t, p) \<leftarrow> search_links h t l_key key 0;
       if p \<noteq> None then Some (- 1, h, t)
       else do {
         let (h, p_entry) = he_create new h d key;
         (h, t) \<leftarrow> (if t_rehash t \<and> 2 * t_size t < t_items t then rehash h t (2 * t_size t)
                    else Some (h, t));
         (h, t) \<leftarrow> links_place h t (links_l_key hash t key) p_entry;
         Some (0, h, t)
       }
     }"

definition links_get :: "nat \<Rightarrow> ('k \<Rightarrow> 32 word) \<Rightarrow> ('k, 'v) entries \<Rightarrow> table_struct \<Rightarrow> 'k \<Rightarrow>
    (('k, 'v) entries \<times> table_struct \<times> ptr) option" where
  "links_get heur hash h t key = search_links h t (links_l_key hash t key) key heur"

text \<open>The result \<open>None\<close> is the \<open>-1\<close> of an absent key.\<close>

definition links_replace :: "nat \<Rightarrow> ('k \<Rightarrow> 32 word) \<Rightarrow> ('k, 'v) entries \<Rightarrow> table_struct \<Rightarrow> 'v \<Rightarrow> 'k \<Rightarrow>
    ('v option \<times> ('k, 'v) entries \<times> table_struct) option" where
  "links_replace heur hash h t d key =
     do {
       (h, t, p_e) \<leftarrow> search_links h t (links_l_key hash t key) key heur;
       if p_e = None then Some (None, h, t)
       else do {
         p_old \<leftarrow> read_field he_data h p_e;
         h \<leftarrow> write_field (he_data_update (\<lambda>_. d)) h p_e;
         Some (Some p_old, h, t)
       }
     }"

text \<open>The result \<open>None\<close> is the 0 of an absent key.\<close>

definition links_remove :: "('k \<Rightarrow> 32 word) \<Rightarrow> ('k, 'v) entries \<Rightarrow> table_struct \<Rightarrow> 'k \<Rightarrow>
    ('v option \<times> ('k, 'v) entries \<times> table_struct) option" where
  "links_remove hash h t key =
     do {
       let l_key = links_l_key hash t key;
       (h, t, p_out) \<leftarrow> search_links h t l_key key 0;
       if p_out = None then Some (None, h, t)
       else do {
         (h, t) \<leftarrow> remove_from_chain h t l_key p_out;
         let t = t\<lparr>t_items := t_items t - 1\<rparr>;
         let t = t\<lparr>t_nr := (t_nr t)(l_key := t_nr t l_key - 1)\<rparr>;
         h \<leftarrow> write_field (he_next_update (\<lambda>_. None)) h p_out;
         h \<leftarrow> write_field (he_prev_update (\<lambda>_. None)) h p_out;
         p_ret \<leftarrow> read_field he_data h p_out;
         h \<leftarrow> he_finalize h p_out;
         Some (Some p_ret, h, t)
       }
     }"

text \<open>An iterator: \<open>p_entry\<close> and \<open>p_next\<close>. The result is the current entry.\<close>

definition links_first :: "('k, 'v) entries \<Rightarrow> table_struct \<Rightarrow> (ptr \<times> (ptr \<times> ptr)) option" where
  "links_first h t =
     (if t_oldest t \<noteq> None
      then do { nx \<leftarrow> read_field he_newer h (t_oldest t); Some (t_oldest t, (t_oldest t, nx)) }
      else Some (None, (None, None)))"

definition links_next :: "('k, 'v) entries \<Rightarrow> ptr \<times> ptr \<Rightarrow> (ptr \<times> (ptr \<times> ptr)) option" where
  "links_next h it =
     (if snd it \<noteq> None
      then do { nx \<leftarrow> read_field he_newer h (snd it); Some (snd it, (snd it, nx)) }
      else Some (None, (None, None)))"

partial_function (option) free_entry_chain ::
    "('k, 'v) entries \<Rightarrow> ptr \<Rightarrow> ('k, 'v) entries option" where
  "free_entry_chain h p_e =
     (if p_e = None then Some h
      else do {
        p_e_next \<leftarrow> read_field he_next h p_e;
        h \<leftarrow> he_finalize h p_e;
        free_entry_chain h p_e_next
      })"

text \<open>The loops over the buckets of \<open>finalize\<close> and \<open>rehash\<close> free every chain.\<close>

fun free_buckets :: "('k, 'v) entries \<Rightarrow> table_struct \<Rightarrow> nat list \<Rightarrow>
    (('k, 'v) entries \<times> table_struct) option" where
  "free_buckets h t [] = Some (h, t)"
| "free_buckets h t (i # is) =
     do {
       p \<leftarrow> read_bucket t i;
       h \<leftarrow> free_entry_chain h p;
       t \<leftarrow> write_bucket t i None;
       free_buckets h t is
     }"

definition links_finalize :: "('k, 'v) entries \<Rightarrow> table_struct \<Rightarrow> ('k, 'v) entries option" where
  "links_finalize h t = do { (h, _) \<leftarrow> free_buckets h t [0..<t_size t]; Some h }"

text \<open>
  The loop of \<open>rehash\<close> through the entries of the old table, oldest first. A refused insertion
  would end the process.
\<close>

partial_function (option) rehash_loop ::
    "('k \<Rightarrow> 32 word) \<Rightarrow> (('k, 'v) entries \<Rightarrow> nat) \<Rightarrow> ('k, 'v) entries \<Rightarrow> table_struct \<Rightarrow>
     ptr \<Rightarrow> ptr \<times> ptr \<Rightarrow> (('k, 'v) entries \<times> table_struct) option" where
  "rehash_loop hash new h p_tmp p it =
     (if p = None then Some (h, p_tmp)
      else do {
        d \<leftarrow> read_field he_data h (fst it);
        key \<leftarrow> read_field he_key h (fst it);
        (r, h, p_tmp) \<leftarrow> links_insert_with (\<lambda>_ _ _. None) hash new h p_tmp d key;
        if r < 0 then None
        else do { (p, it) \<leftarrow> links_next h it; rehash_loop hash new h p_tmp p it }
      })"

definition links_rehash :: "('k \<Rightarrow> 32 word) \<Rightarrow> (('k, 'v) entries \<Rightarrow> nat) \<Rightarrow> ('k, 'v) entries \<Rightarrow>
    table_struct \<Rightarrow> nat \<Rightarrow> (('k, 'v) entries \<times> table_struct) option" where
  "links_rehash hash new h t n =
     do {
       let p_tmp = (links_create n)\<lparr>t_rehash := False\<rparr>;
       (p, it) \<leftarrow> links_first h t;
       (h, p_tmp) \<leftarrow> rehash_loop hash new h p_tmp p it;
       (h, t) \<leftarrow> free_buckets h t [0..<t_size t];
       Some (h, t\<lparr>t_size := t_size p_tmp, t_mask := t_mask p_tmp, t_items := t_items p_tmp,
                  t_entries := t_entries p_tmp, t_nr := t_nr p_tmp,
                  t_oldest := t_oldest p_tmp, t_newest := t_newest p_tmp\<rparr>)
     }"

definition links_insert :: "('k \<Rightarrow> 32 word) \<Rightarrow> (('k, 'v) entries \<Rightarrow> nat) \<Rightarrow> ('k, 'v) entries \<Rightarrow>
    table_struct \<Rightarrow> 'v \<Rightarrow> 'k \<Rightarrow> (int \<times> ('k, 'v) entries \<times> table_struct) option" where
  "links_insert hash new = links_insert_with (links_rehash hash new) hash new"

text \<open>\<open>set_rehash\<close>\<close>

definition links_set_rehash :: "table_struct \<Rightarrow> bool \<Rightarrow> table_struct" where
  "links_set_rehash t b_rehash = t\<lparr>t_rehash := b_rehash\<rparr>"

section \<open>Uses of a table\<close>

text \<open>
  What a client does with a table: its calls, and their answers. An iteration is a loop with
  \<open>first\<close> and \<open>next\<close> that reads every entry.
\<close>

datatype ('k, 'v) table_call =
    Call_insert 'v 'k | Call_get 'k | Call_replace 'v 'k | Call_remove 'k
  | Call_rehash nat | Call_set_rehash bool | Call_iterate

datatype ('k, 'v) table_answer = Status int | Data "'v option" | Entries "('k \<times> 'v) list" | Done

partial_function (option) iterate_loop ::
    "('k, 'v) entries \<Rightarrow> ptr \<Rightarrow> ptr \<times> ptr \<Rightarrow> ('k \<times> 'v) list option" where
  "iterate_loop h p it =
     (if p = None then Some []
      else do {
        k \<leftarrow> read_field he_key h (fst it);
        d \<leftarrow> read_field he_data h p;
        (p, it) \<leftarrow> links_next h it;
        es \<leftarrow> iterate_loop h p it;
        Some ((k, d) # es)
      })"

fun links_call :: "nat \<Rightarrow> ('k \<Rightarrow> 32 word) \<Rightarrow> (('k, 'v) entries \<Rightarrow> nat) \<Rightarrow> ('k, 'v) table_call \<Rightarrow>
    ('k, 'v) entries \<Rightarrow> table_struct \<Rightarrow>
    (('k, 'v) table_answer \<times> ('k, 'v) entries \<times> table_struct) option" where
  "links_call heur hash new (Call_insert v k) h t =
     do { (r, h, t) \<leftarrow> links_insert hash new h t v k; Some (Status r, h, t) }"
| "links_call heur hash new (Call_get k) h t =
     do {
       (h, t, p) \<leftarrow> links_get heur hash h t k;
       if p = None then Some (Data None, h, t)
       else do { d \<leftarrow> read_field he_data h p; Some (Data (Some d), h, t) }
     }"
| "links_call heur hash new (Call_replace v k) h t =
     do { (d, h, t) \<leftarrow> links_replace heur hash h t v k; Some (Data d, h, t) }"
| "links_call heur hash new (Call_remove k) h t =
     do { (d, h, t) \<leftarrow> links_remove hash h t k; Some (Data d, h, t) }"
| "links_call heur hash new (Call_rehash n) h t =
     do { (h, t) \<leftarrow> links_rehash hash new h t n; Some (Done, h, t) }"
| "links_call heur hash new (Call_set_rehash b) h t = Some (Done, h, links_set_rehash t b)"
| "links_call heur hash new Call_iterate h t =
     do { (p, it) \<leftarrow> links_first h t; es \<leftarrow> iterate_loop h p it; Some (Entries es, h, t) }"

text \<open>
  Every call comes with the addresses that the pool hands out during it: the pool may answer
  differently in the same memory at another time.
\<close>

fun links_run :: "nat \<Rightarrow> ('k \<Rightarrow> 32 word) \<Rightarrow>
    ((('k, 'v) entries \<Rightarrow> nat) \<times> ('k, 'v) table_call) list \<Rightarrow> ('k, 'v) entries \<Rightarrow> table_struct \<Rightarrow>
    (('k, 'v) table_answer list \<times> ('k, 'v) entries \<times> table_struct) option" where
  "links_run heur hash [] h t = Some ([], h, t)"
| "links_run heur hash ((new, c) # cs) h t =
     do {
       (a, h, t) \<leftarrow> links_call heur hash new c h t;
       (as, h, t) \<leftarrow> links_run heur hash cs h t;
       Some (a # as, h, t)
     }"

text \<open>The same calls on the table of theory \<open>Ght\<close>.\<close>

fun ght_call :: "('k \<Rightarrow> 32 word) \<Rightarrow> ('k, 'v) table_call \<Rightarrow> ('k, 'v) ght_hash_table \<Rightarrow>
    ('k, 'v) table_answer \<times> ('k, 'v) ght_hash_table" where
  "ght_call hash (Call_insert v k) T = apfst Status (ght_insert hash T v k)"
| "ght_call hash (Call_get k) T = (Data (ght_get hash T k), T)"
| "ght_call hash (Call_replace v k) T = apfst Data (ght_replace hash T v k)"
| "ght_call hash (Call_remove k) T = apfst Data (ght_remove hash T k)"
| "ght_call hash (Call_rehash n) T = (Done, ght_rehash hash T n)"
| "ght_call hash (Call_set_rehash b) T = (Done, ght_set_rehash T b)"
| "ght_call hash Call_iterate T = (Entries (ght_entries hash T), T)"

fun ght_run :: "('k \<Rightarrow> 32 word) \<Rightarrow> ('k, 'v) table_call list \<Rightarrow> ('k, 'v) ght_hash_table \<Rightarrow>
    ('k, 'v) table_answer list \<times> ('k, 'v) ght_hash_table" where
  "ght_run hash [] T = ([], T)"
| "ght_run hash (c # cs) T =
     (let (a, T) = ght_call hash c T; (as, T) = ght_run hash cs T in (a # as, T))"

end
