(* ===== verification/Ght_Chains.thy ===== *)
theory Ght_Chains
  imports Ght_Links
begin

text \<open>
  The pointers of a hash table in memory: how reads and writes of one field show in the lists
  along the others, lists that are linked in both directions, when the memory represents a
  table of theory \<open>Ght\<close>, and the search of a bucket with its heuristics.
\<close>

section \<open>Reading and writing memory\<close>

named_theorems memory \<open>evaluation of reads and writes\<close>

lemma dom_entry_update [simp]: "dom (entry_update h a g) = dom h"
  by (auto simp: entry_update_def dom_def)

lemma entry_update_None [simp]: "entry_update h a g b = None \<longleftrightarrow> h b = None"
  by (simp add: entry_update_def)

lemma entry_update_other: "b \<noteq> a \<Longrightarrow> entry_update h a g b = h b"
  by (simp add: entry_update_def)

lemma read_field_Some [memory]: "a \<in> dom h \<Longrightarrow> read_field f h (Some a) = Some (field f h a)"
  by (auto simp: read_field_def)

lemma write_field_Some [memory]: "a \<in> dom h \<Longrightarrow> write_field g h (Some a) = Some (entry_update h a g)"
  by (auto simp: write_field_def)

lemma free_entry_Some [memory]: "a \<in> dom h \<Longrightarrow> free_entry h (Some a) = Some (h(a := None))"
  by (auto simp: free_entry_def)

lemma field_entry_update_id: "(\<And>e. f (g e) = f e) \<Longrightarrow> field f (entry_update h a g) = field f h"
  by (rule ext) (simp add: field_def entry_update_def map_option_case split: option.split)

lemma field_entry_update:
  "a \<in> dom h \<Longrightarrow> (\<And>e. f (g e) = v) \<Longrightarrow> field f (entry_update h a g) = (field f h)(a := v)"
  by (rule ext) (auto simp: field_def entry_update_def)

lemma field_updates [memory]:
  "field he_data (entry_update h a (he_next_update u)) = field he_data h"
  "field he_key (entry_update h a (he_next_update u)) = field he_key h"
  "field he_prev (entry_update h a (he_next_update u)) = field he_prev h"
  "field he_older (entry_update h a (he_next_update u)) = field he_older h"
  "field he_newer (entry_update h a (he_next_update u)) = field he_newer h"
  "field he_data (entry_update h a (he_prev_update u)) = field he_data h"
  "field he_key (entry_update h a (he_prev_update u)) = field he_key h"
  "field he_next (entry_update h a (he_prev_update u)) = field he_next h"
  "field he_older (entry_update h a (he_prev_update u)) = field he_older h"
  "field he_newer (entry_update h a (he_prev_update u)) = field he_newer h"
  "field he_data (entry_update h a (he_older_update u)) = field he_data h"
  "field he_key (entry_update h a (he_older_update u)) = field he_key h"
  "field he_next (entry_update h a (he_older_update u)) = field he_next h"
  "field he_prev (entry_update h a (he_older_update u)) = field he_prev h"
  "field he_newer (entry_update h a (he_older_update u)) = field he_newer h"
  "field he_data (entry_update h a (he_newer_update u)) = field he_data h"
  "field he_key (entry_update h a (he_newer_update u)) = field he_key h"
  "field he_next (entry_update h a (he_newer_update u)) = field he_next h"
  "field he_prev (entry_update h a (he_newer_update u)) = field he_prev h"
  "field he_older (entry_update h a (he_newer_update u)) = field he_older h"
  "field he_key (entry_update h a (he_data_update w)) = field he_key h"
  "field he_next (entry_update h a (he_data_update w)) = field he_next h"
  "field he_prev (entry_update h a (he_data_update w)) = field he_prev h"
  "field he_older (entry_update h a (he_data_update w)) = field he_older h"
  "field he_newer (entry_update h a (he_data_update w)) = field he_newer h"
  by (simp_all add: field_entry_update_id)

lemma field_updates_same [memory]:
  "a \<in> dom h \<Longrightarrow> field he_data (entry_update h a (he_data_update (\<lambda>_. d))) = (field he_data h)(a := d)"
  "a \<in> dom h \<Longrightarrow> field he_next (entry_update h a (he_next_update (\<lambda>_. v))) = (field he_next h)(a := v)"
  "a \<in> dom h \<Longrightarrow> field he_prev (entry_update h a (he_prev_update (\<lambda>_. v))) = (field he_prev h)(a := v)"
  "a \<in> dom h \<Longrightarrow> field he_older (entry_update h a (he_older_update (\<lambda>_. v))) = (field he_older h)(a := v)"
  "a \<in> dom h \<Longrightarrow> field he_newer (entry_update h a (he_newer_update (\<lambda>_. v))) = (field he_newer h)(a := v)"
  by (rule field_entry_update; simp)+

lemma field_free: "b \<noteq> a \<Longrightarrow> field f (h(a := x)) b = field f h b"
  by (simp add: field_def)

lemma field_new: "field f (h(a \<mapsto> e)) = (field f h)(a := f e)"
  by (rule ext) (simp add: field_def)

lemma entry_update_outside: "a \<in> A \<Longrightarrow> c \<notin> A \<Longrightarrow> entry_update h a g c = h c"
  by (auto simp: entry_update_def)

text \<open>Nothing outside \<open>A\<close> is written.\<close>

definition writes_only :: "nat set \<Rightarrow> ('k, 'v) entries \<Rightarrow> ('k, 'v) entries \<Rightarrow> bool" where
  "writes_only A h h' \<longleftrightarrow> h' |` (- A) = h |` (- A)"

lemma writes_only_iff: "writes_only A h h' \<longleftrightarrow> (\<forall>a. a \<notin> A \<longrightarrow> h' a = h a)"
  by (auto simp: writes_only_def restrict_map_def fun_eq_iff split: if_splits)

lemma writes_only_refl [memory]: "writes_only A h h"
  by (simp add: writes_only_def)

lemma writes_only_update [memory]:
  "a \<in> A \<Longrightarrow> writes_only A h h' \<Longrightarrow> writes_only A h (entry_update h' a g)"
  by (simp add: writes_only_iff entry_update_outside)

lemma writes_only_trans: "writes_only A h h' \<Longrightarrow> writes_only A h' h'' \<Longrightarrow> writes_only A h h''"
  by (simp add: writes_only_def)

lemma writes_only_mono: "A \<subseteq> B \<Longrightarrow> writes_only A h h' \<Longrightarrow> writes_only B h h'"
  by (auto simp: writes_only_iff)

section \<open>Linked lists\<close>

text \<open>A pointer to the first entry of a list, \<open>n\<close> if there is none; a pointer to the last.\<close>

fun ptr_first :: "nat list \<Rightarrow> ptr \<Rightarrow> ptr" where
  "ptr_first [] n = n"
| "ptr_first (a # as) n = Some a"

definition ptr_last :: "ptr \<Rightarrow> nat list \<Rightarrow> ptr" where
  "ptr_last p as = (if as = [] then p else Some (last as))"

text \<open>
  The entries \<open>as\<close> are linked in both directions by \<open>nx\<close> and \<open>pv\<close>: \<open>p\<close> comes before them
  and \<open>n\<close> after them.
\<close>

fun linked :: "(nat \<Rightarrow> ptr) \<Rightarrow> (nat \<Rightarrow> ptr) \<Rightarrow> ptr \<Rightarrow> nat list \<Rightarrow> ptr \<Rightarrow> bool" where
  "linked nx pv p [] n \<longleftrightarrow> True"
| "linked nx pv p (a # as) n \<longleftrightarrow>
     pv a = p \<and> nx a = ptr_first as n \<and> linked nx pv (Some a) as n"

lemma ptr_last_simps [simp]:
  "ptr_last p [] = p" "ptr_last p (as @ [a]) = Some a" "ptr_last p [a] = Some a"
  "ptr_last p (as @ a # bs) = ptr_last (Some a) bs"
  "ptr_last p (a # bs) = ptr_last (Some a) bs"
  by (auto simp: ptr_last_def)

lemma ptr_last_None [simp]: "ptr_last None as = None \<longleftrightarrow> as = []"
  by (simp add: ptr_last_def)

lemma ptr_last_append [simp]: "ptr_last p (as @ bs) = ptr_last (ptr_last p as) bs"
  by (simp add: ptr_last_def)

lemma ptr_first_None [simp]: "ptr_first as None = None \<longleftrightarrow> as = []"
  by (cases as) auto

lemma ptr_first_Some [simp]: "ptr_first as (Some a) \<noteq> None"
  by (cases as) auto

lemma ptr_first_append [simp]: "ptr_first (as @ bs) n = ptr_first as (ptr_first bs n)"
  by (cases as) auto

lemma linked_append [simp]:
  "linked nx pv p (as @ bs) n \<longleftrightarrow>
     linked nx pv p as (ptr_first bs n) \<and> linked nx pv (ptr_last p as) bs n"
  by (induction as arbitrary: p) auto

lemma linked_cong:
  "(\<And>a. a \<in> set as \<Longrightarrow> nx a = nx' a \<and> pv a = pv' a) \<Longrightarrow> linked nx pv p as n = linked nx' pv' p as n"
  by (induction as arbitrary: p) auto

lemma linked_update_other [simp]:
  "a \<notin> set as \<Longrightarrow> linked (nx(a := v)) pv p as n = linked nx pv p as n"
  "a \<notin> set as \<Longrightarrow> linked nx (pv(a := v)) p as n = linked nx pv p as n"
  by (auto intro!: linked_cong)

text \<open>An entry taken out of a list, a new first entry, a new last one.\<close>

lemma linked_unlink:
  assumes "linked nx pv p (as @ a # bs) n" "distinct (as @ a # bs)"
    and nx': "nx' = (case ptr_last None as of None \<Rightarrow> nx | Some b \<Rightarrow> nx(b := ptr_first bs n))"
    and pv': "pv' = (case ptr_first bs None of None \<Rightarrow> pv | Some b \<Rightarrow> pv(b := ptr_last p as))"
  shows "linked nx' pv' p (as @ bs) n"
  using assms(1,2) unfolding nx' pv'
  by (cases as rule: rev_cases; cases bs) auto


section \<open>The lists of a table\<close>

definition entry_of :: "('k, 'v) entries \<Rightarrow> nat \<Rightarrow> 'k \<times> 'v" where
  "entry_of h a = (field he_key h a, field he_data h a)"

text \<open>
  The struct \<open>t\<close> and the memory \<open>h\<close> represent the table \<open>T\<close>: the buckets are the lists
  \<open>bs\<close> of addresses, the list of ages is \<open>ys\<close>. The order inside a bucket is free, because
  the search heuristics change it.
\<close>

definition links_rep :: "('k, 'v) entries \<Rightarrow> table_struct \<Rightarrow> (nat \<Rightarrow> nat list) \<Rightarrow> nat list \<Rightarrow>
    ('k, 'v) ght_hash_table \<Rightarrow> bool" where
  "links_rep h t bs ys T \<longleftrightarrow>
     t_items t = i_items T \<and> t_size t = i_size T \<and> t_rehash t = i_automatic_rehash T \<and>
     t_mask t = i_size_mask T \<and> t_nr t = p_nr T \<and>
     (\<forall>b. t_entries t b = ptr_first (bs b) None \<and> distinct (bs b) \<and>
          linked (field he_next h) (field he_prev h) None (bs b) None \<and>
          entry_of h ` set (bs b) = set (pp_entries T b)) \<and>
     t_oldest t = ptr_first ys None \<and> t_newest t = ptr_last None ys \<and>
     linked (field he_newer h) (field he_older h) None ys None \<and>
     map (field he_key h) ys = p_order T \<and> set ys = (\<Union>b. set (bs b)) \<and> set ys \<subseteq> dom h"

lemma links_repD:
  assumes "links_rep h t bs ys T"
  shows "t_items t = i_items T" "t_size t = i_size T" "t_rehash t = i_automatic_rehash T"
    "t_mask t = i_size_mask T" "t_nr t = p_nr T"
    "t_entries t b = ptr_first (bs b) None" "distinct (bs b)"
    "linked (field he_next h) (field he_prev h) None (bs b) None"
    "entry_of h ` set (bs b) = set (pp_entries T b)"
    "t_oldest t = ptr_first ys None" "t_newest t = ptr_last None ys"
    "linked (field he_newer h) (field he_older h) None ys None"
    "map (field he_key h) ys = p_order T" "set ys = (\<Union>b. set (bs b))" "set ys \<subseteq> dom h"
    "set (bs b) \<subseteq> dom h" "set (bs b) \<subseteq> set ys"
  using assms unfolding links_rep_def by (blast+)[17]

lemma links_rep_frame:
  assumes "links_rep h t bs ys T" "\<And>a. a \<in> set ys \<Longrightarrow> h' a = h a"
  shows "links_rep h' t bs ys T"
proof -
  have same: "field f h' a = field f h a" if "a \<in> set ys" for f :: "('a, 'b) hash_entry \<Rightarrow> 'c" and a
    using assms(2) that by (simp add: field_def)
  have ptrs: "field f h' a = field f h a" if "a \<in> set ys" for f :: "('a, 'b) hash_entry \<Rightarrow> ptr" and a
    using assms(2) that by (simp add: field_def)
  have entry: "entry_of h' ` set (bs b) = entry_of h ` set (bs b)" for b
    using links_repD(17) [OF assms(1), of b] assms(2)
    by (intro image_cong) (auto simp: entry_of_def field_def)
  have keys: "map (field he_key h') ys = map (field he_key h) ys"
    using assms(2) by (auto simp: field_def)
  have "linked (field he_next h') (field he_prev h') None (bs b) None \<longleftrightarrow>
        linked (field he_next h) (field he_prev h) None (bs b) None" for b
    using links_repD(17) [OF assms(1), of b] ptrs by (intro linked_cong) auto
  moreover have "linked (field he_newer h') (field he_older h') None ys None \<longleftrightarrow>
        linked (field he_newer h) (field he_older h) None ys None"
    using ptrs by (intro linked_cong) auto
  moreover have "set ys \<subseteq> dom h'" using links_repD(15) [OF assms(1)] assms(2) by (auto simp: dom_def)
  ultimately show ?thesis using assms(1) entry keys unfolding links_rep_def by simp
qed

lemma links_l_key_eq: "links_rep h t bs ys T \<Longrightarrow> links_l_key hash t k = ght_l_key hash T k"
  by (simp add: links_l_key_def ght_l_key_def links_repD(4))

text \<open>The addresses of a table of the model are as distinct as its keys.\<close>

lemma links_rep_keys:
  assumes "links_rep h t bs ys T" "ght_ok hash T"
  shows "distinct (map (field he_key h) ys)" "distinct ys" "inj_on (field he_key h) (set ys)"
  using links_repD(13) [OF assms(1)] ght_okD(4) [OF assms(2)] by (metis distinct_map)+

lemma links_rep_bucket:
  assumes "links_rep h t bs ys T" "ght_ok hash T" "a \<in> set (bs b)"
  shows "b = ght_l_key hash T (field he_key h a)"
proof -
  have "entry_of h a \<in> set (pp_entries T b)"
    using links_repD(9) [OF assms(1), of b] assms(3) by blast
  then have "field he_key h a \<in> fst ` set (pp_entries T b)" by (force simp: entry_of_def)
  then show ?thesis using ght_okD(3) [OF assms(2)] by blast
qed

lemma links_rep_get:
  assumes "links_rep h t bs ys T" "ght_ok hash T"
  shows "ght_get hash T k = Some d \<longleftrightarrow>
           (\<exists>a\<in>set (bs (ght_l_key hash T k)). entry_of h a = (k, d))"
  unfolding ght_get_map_of map_of_eq_Some_iff [OF ght_okD(1) [OF assms(2)]]
    links_repD(9) [OF assms(1), symmetric]
  by (auto simp: image_iff eq_commute)

lemma search_loop_linked:
  assumes "linked (field he_next h) pv p as None" "set as \<subseteq> dom h"
  shows "search_loop h (ptr_first as None) k = Some (find (\<lambda>a. field he_key h a = k) as)"
  using assms
proof (induction as arbitrary: p)
  case (Cons a as)
  then show ?case using Cons.IH [of "Some a"] by (subst search_loop.simps) (simp add: memory)
qed (simp add: search_loop.simps)

lemma read_bucket_eq:
  assumes "links_rep h t bs ys T" "b < i_size T"
  shows "read_bucket t b = Some (ptr_first (bs b) None)"
    "write_bucket t b p = Some (t\<lparr>t_entries := (t_entries t)(b := p)\<rparr>)"
  using assms links_repD(2,6) [OF assms(1)] by (simp_all add: read_bucket_def write_bucket_def)

lemma search_cases:
  assumes "links_rep h t bs ys T" "ght_ok hash T"
  obtains (absent) "search_loop h (ptr_first (bs (ght_l_key hash T k)) None) k = Some None"
      "ght_get hash T k = None"
  | (found) as a cs where
      "search_loop h (ptr_first (bs (ght_l_key hash T k)) None) k = Some (Some a)"
      "ght_get hash T k = Some (field he_data h a)"
      "bs (ght_l_key hash T k) = as @ a # cs" "field he_key h a = k" "a \<in> dom h"
proof -
  define l where "l = ght_l_key hash T k"
  have loop: "search_loop h (ptr_first (bs l) None) k = Some (find (\<lambda>a. field he_key h a = k) (bs l))"
    by (rule search_loop_linked [OF links_repD(8,16) [OF assms(1)]])
  show ?thesis
  proof (cases "find (\<lambda>a. field he_key h a = k) (bs l)")
    case None
    then have "\<forall>a\<in>set (bs l). field he_key h a \<noteq> k" by (simp add: find_None_iff)
    then have "ght_get hash T k = None"
      using links_rep_get [OF assms, of k] unfolding l_def [symmetric]
      by (cases "ght_get hash T k") (auto simp: entry_of_def)
    with loop None show ?thesis using absent l_def by simp
  next
    case (Some a)
    then have a: "a \<in> set (bs l)" "field he_key h a = k"
      by (auto simp: find_Some_iff)
    then obtain as cs where "bs l = as @ a # cs" by (meson split_list)
    moreover have "ght_get hash T k = Some (field he_data h a)"
      using links_rep_get [OF assms, of k] a unfolding l_def [symmetric] by (auto simp: entry_of_def)
    moreover have "a \<in> dom h" using links_repD(16) [OF assms(1)] a by blast
    ultimately show ?thesis using loop Some a found l_def by simp
  qed
qed

section \<open>The search and its heuristics\<close>

text \<open>A bucket may be put into another order.\<close>

lemma links_rep_reorder:
  assumes rep: "links_rep h t bs ys T" and ok: "ght_ok hash T"
    and xs: "set xs = set (bs b)" "distinct xs"
    and linked: "linked (field he_next h') (field he_prev h') None xs None"
    and same: "field he_key h' = field he_key h" "field he_data h' = field he_data h"
      "field he_older h' = field he_older h" "field he_newer h' = field he_newer h"
    and out: "writes_only (set (bs b)) h h'" and dom: "dom h' = dom h"
  shows "links_rep h' (t\<lparr>t_entries := (t_entries t)(b := ptr_first xs None)\<rparr>) (bs(b := xs)) ys T"
proof -
  have entry: "entry_of h' = entry_of h" by (rule ext) (simp add: entry_of_def same)
  have other: "linked (field he_next h') (field he_prev h') None (bs c) None" if "c \<noteq> b" for c
  proof -
    have "a \<notin> set (bs b)" if "a \<in> set (bs c)" for a
      using links_rep_bucket [OF rep ok] that \<open>c \<noteq> b\<close> by metis
    then have "linked (field he_next h') (field he_prev h') None (bs c) None \<longleftrightarrow>
        linked (field he_next h) (field he_prev h) None (bs c) None"
      by (intro linked_cong) (auto simp: field_def out [unfolded writes_only_iff])
    then show ?thesis using links_repD(8) [OF rep] by blast
  qed
  have sets: "set ((bs(b := xs)) c) = set (bs c)" for c
    using xs(1) by simp
  show ?thesis
    using rep other linked xs(2) unfolding links_rep_def sets
    by (simp add: entry same dom) blast
qed


text \<open>\<open>transpose\<close> and \<open>move_to_front\<close> on the entries of a bucket.\<close>

lemma transpose_entry_first:
  "field he_prev h a = None \<Longrightarrow> a \<in> dom h \<Longrightarrow> transpose_entry h t b (Some a) = Some (h, t)"
  by (simp add: transpose_entry_def memory)

definition relinks :: "('k, 'v) entries \<Rightarrow> nat set \<Rightarrow> ('k, 'v) entries \<Rightarrow> bool" where
  "relinks h A h' \<longleftrightarrow>
     field he_key h' = field he_key h \<and> field he_data h' = field he_data h \<and>
     field he_older h' = field he_older h \<and> field he_newer h' = field he_newer h \<and>
     writes_only A h h' \<and> dom h' = dom h"

lemma relinks_refl [memory]: "relinks h A h"
  by (simp add: relinks_def memory)

lemma same_bucket [memory]:
  "t_entries t b = p \<Longrightarrow> t\<lparr>t_entries := (t_entries t)(b := p)\<rparr> = t"
  by (auto simp: fun_upd_idem)

lemma relinks_update [memory]:
  "a \<in> A \<Longrightarrow> relinks h A h' \<Longrightarrow> relinks h A (entry_update h' a (he_next_update u))"
  "a \<in> A \<Longrightarrow> relinks h A h' \<Longrightarrow> relinks h A (entry_update h' a (he_prev_update u))"
  by (simp_all add: relinks_def memory)

lemma transpose_entry_linked:
  assumes "linked (field he_next h) (field he_prev h) None (as @ x # a # cs) None"
    "distinct (as @ x # a # cs)" "set (as @ x # a # cs) \<subseteq> dom h"
    "b < t_size t" "t_entries t b = ptr_first (as @ x # a # cs) None"
  shows "case transpose_entry h t b (Some a) of None \<Rightarrow> False
    | Some (h', t') \<Rightarrow>
      t' = t\<lparr>t_entries := (t_entries t)(b := ptr_first (as @ a # x # cs) None)\<rparr> \<and>
      linked (field he_next h') (field he_prev h') None (as @ a # x # cs) None \<and>
      relinks h (set (as @ x # a # cs)) h'"
proof (cases as rule: rev_cases)
  case Nil
  then show ?thesis
    using assms by (cases cs) (simp_all add: transpose_entry_def memory write_bucket_def)
next
  case (snoc as' y)
  then show ?thesis
    using assms by (cases cs) (simp_all add: transpose_entry_def memory)
qed


lemma move_to_front_linked:
  assumes "linked (field he_next h) (field he_prev h) None (as @ a # cs) None"
    "distinct (as @ a # cs)" "set (as @ a # cs) \<subseteq> dom h"
    "b < t_size t" "t_entries t b = ptr_first (as @ a # cs) None"
  shows "case move_to_front h t b (Some a) of None \<Rightarrow> False
    | Some (h', t') \<Rightarrow>
      t' = t\<lparr>t_entries := (t_entries t)(b := Some a)\<rparr> \<and>
      linked (field he_next h') (field he_prev h') None (a # as @ cs) None \<and>
      relinks h (set (as @ a # cs)) h'"
proof (cases as)
  case Nil
  then show ?thesis using assms by (simp add: move_to_front_def memory read_bucket_def)
next
  case (Cons x as')
  then show ?thesis
    using assms
    by (cases as' rule: rev_cases; cases cs)
      (simp_all add: move_to_front_def memory read_bucket_def write_bucket_def)
qed


lemma links_rep_relinks:
  assumes rep: "links_rep h t bs ys T" and ok: "ght_ok hash T"
    and xs: "set xs = set (bs b)" "distinct xs"
    and linked: "linked (field he_next h') (field he_prev h') None xs None"
    and relinks: "relinks h (set (bs b)) h'"
  shows "links_rep h' (t\<lparr>t_entries := (t_entries t)(b := ptr_first xs None)\<rparr>) (bs(b := xs)) ys T"
  using relinks by (intro links_rep_reorder [OF rep ok xs linked]) (simp_all add: relinks_def)

lemma heuristics_rep:
  assumes rep: "links_rep h t bs ys T" and ok: "ght_ok hash T" and b: "b < i_size T"
    and bs: "bs b = as @ a # cs"
    and op: "op = move_to_front \<or> op = transpose_entry"
  obtains h' t' bs' where "op h t b (Some a) = Some (h', t')" "links_rep h' t' bs' ys T"
    "set (bs' b) = set (bs b)" "relinks h (set (bs b)) h'"
proof -
  note facts = links_repD(8,7,16,6) [OF rep, of b, unfolded bs]
  have size: "b < t_size t" using b links_repD(2) [OF rep] by simp
  show ?thesis
  proof (cases "op = move_to_front")
    case True
    with move_to_front_linked [OF facts(1-3) size facts(4)] obtain h' where
      "op h t b (Some a) = Some (h', t\<lparr>t_entries := (t_entries t)(b := ptr_first (a # as @ cs) None)\<rparr>)"
      and linked: "linked (field he_next h') (field he_prev h') None (a # as @ cs) None"
      and relinks: "relinks h (set (bs b)) h'"
      unfolding bs by (auto split: option.splits)
    moreover have "set (a # as @ cs) = set (bs b)" "distinct (a # as @ cs)" using bs facts(2) by auto
    ultimately show ?thesis using links_rep_relinks [OF rep ok _ _ linked relinks] that by simp
  next
    case False
    then have op: "op = transpose_entry" using op by blast
    show ?thesis
    proof (cases as rule: rev_cases)
      case Nil
      then have "op h t b (Some a) = Some (h, t)"
        using facts by (simp add: op transpose_entry_first)
      then show ?thesis using that rep relinks_refl by blast
    next
      case (snoc as' x)
      note facts = facts [unfolded snoc append_assoc append.simps]
      from op transpose_entry_linked [OF facts(1-3) size facts(4)] obtain h' where
        "op h t b (Some a) = Some (h', t\<lparr>t_entries := (t_entries t)(b := ptr_first (as' @ a # x # cs) None)\<rparr>)"
        and linked: "linked (field he_next h') (field he_prev h') None (as' @ a # x # cs) None"
        and relinks: "relinks h (set (bs b)) h'"
        unfolding bs snoc by (auto split: option.splits)
      moreover have "set (as' @ a # x # cs) = set (bs b)" "distinct (as' @ a # x # cs)"
        using bs snoc facts(2) by auto
      ultimately show ?thesis using links_rep_relinks [OF rep ok _ _ linked relinks] that by simp
    qed
  qed
qed

lemma search_links_rep:
  assumes rep: "links_rep h t bs ys T" and ok: "ght_ok hash T"
  obtains (absent) "ght_get hash T k = None"
      "search_links h t (links_l_key hash t k) k heur = Some (h, t, None)"
  | (found) h' t' bs' a d where "ght_get hash T k = Some d"
      "search_links h t (links_l_key hash t k) k heur = Some (h', t', Some a)"
      "links_rep h' t' bs' ys T" "a \<in> set (bs' (ght_l_key hash T k))" "entry_of h' a = (k, d)"
      "dom h' = dom h" "writes_only (set ys) h h'" "heur = 0 \<Longrightarrow> h' = h \<and> t' = t \<and> bs' = bs"
proof -
  define l where "l = ght_l_key hash T k"
  have l: "l < i_size T" unfolding l_def by (rule ght_l_key_less [OF ok])
  have l_key: "links_l_key hash t k = l" unfolding l_def by (rule links_l_key_eq [OF rep])
  note read = read_bucket_eq(1) [OF rep l]
  show ?thesis
  proof (cases rule: search_cases [OF rep ok, of k])
    case 1
    then show ?thesis
      using absent unfolding search_links_def l_key read l_def [symmetric] by simp
  next
    case (2 as a cs)
    let ?run = "if heur = GHT_HEURISTICS_MOVE_TO_FRONT then move_to_front h t l (Some a)
      else if heur = GHT_HEURISTICS_TRANSPOSE then transpose_entry h t l (Some a) else Some (h, t)"
    have run: "search_links h t (links_l_key hash t k) k heur =
        map_option (\<lambda>(h, t). (h, t, Some a)) ?run"
      using 2(1) unfolding search_links_def l_key read l_def [symmetric]
      by (simp add: map_option_case split: option.split)
    obtain h' t' bs' where "?run = Some (h', t')" "links_rep h' t' bs' ys T"
      "set (bs' l) = set (bs l)" "relinks h (set (bs l)) h'" "heur = 0 \<Longrightarrow> h' = h \<and> t' = t \<and> bs' = bs"
    proof (cases "heur = GHT_HEURISTICS_MOVE_TO_FRONT \<or> heur = GHT_HEURISTICS_TRANSPOSE")
      case True
      then have heur: "heur \<noteq> 0"
        by (auto simp: GHT_HEURISTICS_MOVE_TO_FRONT_def GHT_HEURISTICS_TRANSPOSE_def)
      define op where "op = (if heur = GHT_HEURISTICS_MOVE_TO_FRONT
        then (move_to_front :: ('a, 'b) entries \<Rightarrow> _) else transpose_entry)"
      have "op = move_to_front \<or> op = transpose_entry" by (simp add: op_def)
      from heuristics_rep [OF rep ok l 2(3) [folded l_def] this] obtain h' t' bs' where
        res: "op h t l (Some a) = Some (h', t')" "links_rep h' t' bs' ys T"
          "set (bs' l) = set (bs l)" "relinks h (set (bs l)) h'" .
      have "?run = op h t l (Some a)" using True by (auto simp: op_def)
      then have "?run = Some (h', t')" using res(1) by (rule trans)
      then show ?thesis using that res(2-4) heur by blast
    next
      case False
      then show ?thesis using that rep relinks_refl by auto
    qed
    moreover from this have "entry_of h' a = (k, field he_data h a)" "a \<in> set (bs' l)"
      using 2 by (simp_all add: relinks_def entry_of_def l_def)
    moreover have "set (bs l) \<subseteq> set ys" by (rule links_repD(17) [OF rep])
    ultimately show ?thesis
      using found [of "field he_data h a" h' t' a bs'] 2(2) run
        writes_only_mono [of "set (bs l)" "set ys" h h']
      unfolding relinks_def l_def by auto
  qed
qed

end
