(* ===== verification/Ght_Refine.thy ===== *)
theory Ght_Refine
  imports Ght_Chains
begin

text \<open>
  The hash table in memory (\<open>Ght_Links\<close>) implements the table of theory \<open>Ght\<close>: as long as it is
  used by its own operations, no operation follows a pointer to nowhere, every loop ends, and
  the answers are those of the lists.
\<close>

section \<open>Removal\<close>

lemma remove_from_chain_linked:
  assumes "linked (field he_next h) (field he_prev h) None (as @ a # cs) None"
    "linked (field he_newer h) (field he_older h) None (us @ a # vs) None"
    "distinct (as @ a # cs)" "distinct (us @ a # vs)"
    "set (as @ a # cs) \<subseteq> dom h" "set (us @ a # vs) \<subseteq> dom h"
    "b < t_size t" "t_entries t b = ptr_first (as @ a # cs) None"
    "t_oldest t = ptr_first (us @ a # vs) None" "t_newest t = ptr_last None (us @ a # vs)"
    "set (as @ a # cs) \<subseteq> A" "set (us @ a # vs) \<subseteq> A"
  shows "case remove_from_chain h t b (Some a) of None \<Rightarrow> False
    | Some (h', t') \<Rightarrow>
      t_entries t' = (t_entries t)(b := ptr_first (as @ cs) None) \<and>
      t_oldest t' = ptr_first (us @ vs) None \<and> t_newest t' = ptr_last None (us @ vs) \<and>
      t_items t' = t_items t \<and> t_size t' = t_size t \<and> t_rehash t' = t_rehash t \<and>
      t_mask t' = t_mask t \<and> t_nr t' = t_nr t \<and>
      linked (field he_next h') (field he_prev h') None (as @ cs) None \<and>
      linked (field he_newer h') (field he_older h') None (us @ vs) None \<and>
      field he_key h' = field he_key h \<and> field he_data h' = field he_data h \<and> dom h' = dom h \<and>
      writes_only A h h' \<and>
      (\<forall>c. c \<notin> set (as @ a # cs) \<longrightarrow>
        field he_next h' c = field he_next h c \<and> field he_prev h' c = field he_prev h c)"
  using assms
  by (cases as rule: rev_cases; cases cs; cases us rule: rev_cases; cases vs)
    (simp_all add: remove_from_chain_def memory write_bucket_def fun_upd_idem)


text \<open>The memory outside the entries of the table, \<open>h0\<close>, belongs to others.\<close>

definition links_owns :: "('k, 'v) entries \<Rightarrow> ('k, 'v) entries \<Rightarrow> table_struct \<Rightarrow>
    ('k, 'v) ght_hash_table \<Rightarrow> bool" where
  "links_owns h0 h t T \<longleftrightarrow> (\<exists>bs ys. links_rep h t bs ys T \<and> h |` (- set ys) = h0)"

lemma links_ownsI:
  "links_rep h' t' bs' ys' T' \<Longrightarrow> h' |` (- set ys') = h0 \<Longrightarrow> links_owns h0 h' t' T'"
  by (auto simp: links_owns_def)

lemma links_owns_write:
  "links_rep h' t' bs ys T \<Longrightarrow> writes_only (set ys) h h' \<Longrightarrow> h |` (- set ys) = h0 \<Longrightarrow>
     links_owns h0 h' t' T"
  by (auto simp: links_owns_def writes_only_def)

lemma links_get_refines:
  assumes "links_owns h0 h t T" "ght_ok hash T"
  obtains h' t' p where "links_get heur hash h t k = Some (h', t', p)" "links_owns h0 h' t' T"
    "(if p = None then Some None else map_option Some (read_field he_data h' p)) = Some (ght_get hash T k)"
proof -
  obtain bs ys where rep: "links_rep h t bs ys T" and h0: "h |` (- set ys) = h0"
    using assms(1) by (auto simp: links_owns_def)
  show ?thesis
  proof (cases rule: search_links_rep [OF rep assms(2), of k heur])
    case 1
    then show ?thesis using that assms(1) by (simp add: links_get_def)
  next
    case (2 h' t' bs' a d)
    have "a \<in> dom h'" using links_repD(16) [OF 2(3)] 2(4) by blast
    then show ?thesis
      using that [of h' t' "Some a"] 2 links_owns_write [OF 2(3,7) h0]
      by (simp add: links_get_def memory entry_of_def)
  qed
qed

definition put_key :: "'k \<Rightarrow> 'v \<Rightarrow> 'k \<times> 'v \<Rightarrow> 'k \<times> 'v" where
  "put_key k d e = (fst e, if fst e = k then d else snd e)"

lemma put_key_absent: "k \<notin> fst ` A \<Longrightarrow> put_key k d ` A = A"
  by (force simp: put_key_def image_iff)

lemma set_chain_replace:
  "distinct (map fst c) \<Longrightarrow> set (chain_replace c k d) = put_key k d ` set c"
proof (induction c k d rule: chain_replace.induct)
  case (2 k v chain key d)
  then show ?case using put_key_absent [of key "set chain" d] by (auto simp: put_key_def)
qed simp

lemma links_rep_write:
  assumes rep: "links_rep h t bs ys T" and ok: "ght_ok hash T"
    and a: "a \<in> set (bs (ght_l_key hash T k))" "field he_key h a = k"
  shows "links_rep (entry_update h a (he_data_update (\<lambda>_. d))) t bs ys (ght_write hash T d k)"
proof -
  define l where "l = ght_l_key hash T k"
  define h' where "h' = entry_update h a (he_data_update (\<lambda>_. d))"
  have dom: "a \<in> dom h" using links_repD(16) [OF rep] a(1) by blast
  have "x = a \<longleftrightarrow> field he_key h x = k" if "x \<in> set (bs b)" for x b
    using links_rep_keys(3) [OF rep ok] a links_repD(17) [OF rep] that
    by (metis inj_onD subset_iff)
  then have entry: "entry_of h' x = put_key k d (entry_of h x)" if "x \<in> set (bs b)" for x b
    using that dom by (auto simp: h'_def entry_of_def put_key_def memory)
  have entries: "entry_of h' ` set (bs b) = set (pp_entries (ght_write hash T d k) b)" for b
  proof -
    have "entry_of h' ` set (bs b) = put_key k d ` set (pp_entries T b)"
      unfolding links_repD(9) [OF rep, symmetric] image_image using entry by (intro image_cong) auto
    also have "\<dots> = set (pp_entries (ght_write hash T d k) b)"
    proof (cases "b = l")
      case True
      then show ?thesis
        using set_chain_replace [OF ght_okD(1) [OF ok]] by (simp add: ght_write_def l_def Let_def)
    next
      case False
      then have "k \<notin> fst ` set (pp_entries T b)" using ght_okD(3) [OF ok] l_def by metis
      then show ?thesis using False by (simp add: put_key_absent ght_write_def l_def Let_def)
    qed
    finally show ?thesis .
  qed
  have same: "t_items t = i_items (ght_write hash T d k)" "t_size t = i_size (ght_write hash T d k)"
    "t_rehash t = i_automatic_rehash (ght_write hash T d k)"
    "t_mask t = i_size_mask (ght_write hash T d k)" "t_nr t = p_nr (ght_write hash T d k)"
    "map (field he_key h) ys = p_order (ght_write hash T d k)"
    using links_repD(1-5,13) [OF rep] by (simp_all add: ght_write_def Let_def)
  show ?thesis
    using rep same entries unfolding links_rep_def h'_def by (simp add: memory) blast
qed


lemma links_replace_refines:
  assumes "links_owns h0 h t T" "ght_ok hash T"
  obtains h' t' where
    "links_replace heur hash h t d k = Some (fst (ght_replace hash T d k), h', t')"
    "links_owns h0 h' t' (snd (ght_replace hash T d k))"
proof -
  obtain bs ys where rep: "links_rep h t bs ys T" and h0: "h |` (- set ys) = h0"
    using assms(1) by (auto simp: links_owns_def)
  show ?thesis
  proof (cases rule: search_links_rep [OF rep assms(2), of k heur])
    case 1
    then show ?thesis using that assms(1) by (simp add: links_replace_def ght_replace_def)
  next
    case (2 h' t' bs' a e)
    have a: "a \<in> dom h'" "field he_key h' a = k" "field he_data h' a = e" "a \<in> set ys"
      using links_repD(16,17) [OF 2(3)] 2(4,5) by (auto simp: entry_of_def)
    have "writes_only (set ys) h (entry_update h' a (he_data_update (\<lambda>_. d)))"
      using 2(7) a(4) by (simp add: memory)
    from links_owns_write [OF links_rep_write [OF 2(3) assms(2) 2(4) a(2)] this h0]
    have "links_owns h0 (entry_update h' a (he_data_update (\<lambda>_. d))) t' (ght_write hash T d k)" .
    then show ?thesis
      using that 2(1,2) a by (simp add: links_replace_def ght_replace_def memory)
  qed
qed

lemma he_finalize_eq [memory]: "a \<in> dom h \<Longrightarrow> he_finalize h (Some a) = Some (h(a := None))"
  by (simp add: he_finalize_def memory) (simp add: entry_update_def)

lemma set_chain_remove:
  "distinct (map fst c) \<Longrightarrow> set (chain_remove c k) = {e \<in> set c. fst e \<noteq> k}"
  by (induction c k rule: chain_remove.induct) force+

text \<open>The entry \<open>a\<close> with key \<open>k\<close> leaves its bucket \<open>l\<close> and the list of ages.\<close>

lemma unlink_other_bucket:
  assumes "links_rep h t bs ys T" "ght_ok hash T" "a \<in> set (bs l)" "c \<noteq> l"
  shows "a \<notin> set (bs c)" "set (bs c) \<inter> set (bs l) = {}"
  using links_rep_bucket [OF assms(1,2)] assms(3,4) by (metis disjoint_iff)+

lemma unlink_key:
  assumes "links_rep h t bs ys T" "ght_ok hash T" "a \<in> set ys" "x \<in> set ys" "x \<noteq> a"
  shows "field he_key h x \<noteq> field he_key h a"
  using links_rep_keys(3) [OF assms(1,2)] assms(3-5) by (auto simp: inj_on_def)

lemma unlink_order:
  assumes rep: "links_rep h t bs ys T" and ok: "ght_ok hash T" and ys: "ys = us @ a # vs"
    and entry: "\<And>c. c \<noteq> a \<Longrightarrow> entry_of h3 c = entry_of h c"
  shows "map (field he_key h3) (us @ vs) = remove1 (field he_key h a) (p_order T)"
proof -
  have "a \<notin> set (us @ vs)" using links_rep_keys(2) [OF rep ok] ys by auto
  then have "map (field he_key h3) (us @ vs) = map (field he_key h) (us @ vs)"
  proof (intro map_cong refl)
    fix x assume "x \<in> set (us @ vs)"
    then have "x \<noteq> a" using \<open>a \<notin> set (us @ vs)\<close> by blast
    from entry [OF this] show "field he_key h3 x = field he_key h x" by (simp add: entry_of_def)
  qed
  moreover have "field he_key h x \<noteq> field he_key h a" if "x \<in> set us" for x
    by (rule unlink_key [OF rep ok]) (use that \<open>a \<notin> set (us @ vs)\<close> ys in auto)
  then have "field he_key h a \<notin> field he_key h ` set us" by (metis imageE)
  ultimately show ?thesis
    unfolding links_repD(13) [OF rep, symmetric] ys by (simp add: remove1_append)
qed

lemma unlink_entries:
  assumes rep: "links_rep h t bs ys T" and ok: "ght_ok hash T" and bs: "bs l = as @ a # cs"
    and entry: "\<And>c. c \<noteq> a \<Longrightarrow> entry_of h3 c = entry_of h c"
  shows "entry_of h3 ` set ((bs(l := as @ cs)) c) =
    set (((pp_entries T)(l := chain_remove (pp_entries T l) (field he_key h a))) c)"
proof (cases "c = l")
  case True
  have a_gone: "a \<notin> set (as @ cs)" using links_repD(7) [OF rep, of l] bs by auto
  have "a \<in> set ys" "set (as @ cs) \<subseteq> set ys" using links_repD(17) [OF rep, of l] bs by auto
  then have key: "field he_key h x \<noteq> field he_key h a" if "x \<in> set (as @ cs)" for x
    using unlink_key [OF rep ok] a_gone that by (metis subset_iff)
  have "set (chain_remove (pp_entries T l) (field he_key h a)) =
      {e \<in> entry_of h ` set (bs l). fst e \<noteq> field he_key h a}"
    using set_chain_remove [OF ght_okD(1) [OF ok]] by (simp add: links_repD(9) [OF rep])
  also have "\<dots> = entry_of h ` set (as @ cs)"
    using key unfolding bs by (auto simp: entry_of_def image_iff)
  also have "\<dots> = entry_of h3 ` set (as @ cs)"
    using entry a_gone by (intro image_cong refl) metis
  finally show ?thesis using True by simp
next
  case False
  have "a \<notin> set (bs c)" using unlink_other_bucket(1) [OF rep ok _ False] bs by simp
  then have "entry_of h3 ` set (bs c) = entry_of h ` set (bs c)"
    using entry by (intro image_cong refl) metis
  then show ?thesis using False links_repD(9) [OF rep] by simp
qed

lemma unlink_chains:
  assumes rep: "links_rep h t bs ys T" and ok: "ght_ok hash T" and bs: "bs l = as @ a # cs"
    and chain: "linked (field he_next h3) (field he_prev h3) None (as @ cs) None"
    and same: "\<And>c. c \<notin> set (bs l) \<Longrightarrow>
      field he_next h3 c = field he_next h c \<and> field he_prev h3 c = field he_prev h c"
  shows "linked (field he_next h3) (field he_prev h3) None ((bs(l := as @ cs)) c) None"
proof (cases "c = l")
  case False
  have "set (bs c) \<inter> set (bs l) = {}" using unlink_other_bucket(2) [OF rep ok, of a l c] False bs by simp
  then have "linked (field he_next h3) (field he_prev h3) None (bs c) None \<longleftrightarrow>
      linked (field he_next h) (field he_prev h) None (bs c) None"
    using same by (intro linked_cong) (metis disjoint_iff)
  then show ?thesis using False links_repD(8) [OF rep] by simp
next
  case True
  then show ?thesis using chain by simp
qed

lemma unlink_sets:
  assumes rep: "links_rep h t bs ys T" and ok: "ght_ok hash T"
    and bs: "bs l = as @ a # cs" and ys: "ys = us @ a # vs"
  shows "set (us @ vs) = (\<Union>c. set ((bs(l := as @ cs)) c))"
proof -
  have "set ((bs(l := as @ cs)) c) = set (bs c) - {a}" for c
    using bs links_repD(7) [OF rep, of l] unlink_other_bucket(1) [OF rep ok, of a l c] by auto
  then have "(\<Union>c. set ((bs(l := as @ cs)) c)) = set ys - {a}"
    using links_repD(14) [OF rep] by auto
  then show ?thesis using ys links_rep_keys(2) [OF rep ok] by auto
qed

lemma links_rep_unlink:
  assumes rep: "links_rep h t bs ys T" and ok: "ght_ok hash T"
    and bs: "bs l = as @ a # cs" and ys: "ys = us @ a # vs"
    and links: "linked (field he_next h3) (field he_prev h3) None (as @ cs) None"
      "linked (field he_newer h3) (field he_older h3) None (us @ vs) None"
    and entry: "\<And>c. c \<noteq> a \<Longrightarrow> entry_of h3 c = entry_of h c"
    and same: "\<And>c. c \<notin> set (bs l) \<Longrightarrow>
      field he_next h3 c = field he_next h c \<and> field he_prev h3 c = field he_prev h c"
    and dom: "dom h3 = dom h - {a}"
    and t3: "t3 = t\<lparr>t_items := t_items t - 1, t_nr := (t_nr t)(l := t_nr t l - 1),
      t_entries := (t_entries t)(l := ptr_first (as @ cs) None),
      t_oldest := ptr_first (us @ vs) None, t_newest := ptr_last None (us @ vs)\<rparr>"
    and T': "T' = T\<lparr>pp_entries := (pp_entries T)(l := chain_remove (pp_entries T l) (field he_key h a)),
        i_items := i_items T - 1, p_nr := (p_nr T)(l := p_nr T l - 1),
        p_order := remove1 (field he_key h a) (p_order T)\<rparr>"
  shows "links_rep h3 t3 (bs(l := as @ cs)) (us @ vs) T'"
  unfolding links_rep_def
proof (intro conjI allI)
  show "t_items t3 = i_items T'" "t_size t3 = i_size T'" "t_rehash t3 = i_automatic_rehash T'"
    "t_mask t3 = i_size_mask T'" "t_nr t3 = p_nr T'" "t_oldest t3 = ptr_first (us @ vs) None"
    "t_newest t3 = ptr_last None (us @ vs)"
    using links_repD(1-5) [OF rep] by (simp_all add: t3 T')
  show "t_entries t3 c = ptr_first ((bs(l := as @ cs)) c) None" "distinct ((bs(l := as @ cs)) c)" for c
    using links_repD(6,7) [OF rep] links_repD(7) [OF rep, of l] by (simp_all add: t3 bs)
  show "map (field he_key h3) (us @ vs) = p_order T'"
    using unlink_order [OF rep ok ys entry] by (simp add: T')
  show "entry_of h3 ` set ((bs(l := as @ cs)) c) = set (pp_entries T' c)" for c
    using unlink_entries [OF rep ok bs entry, of c] by (simp add: T')
  show "set (us @ vs) \<subseteq> dom h3"
    using links_repD(15) [OF rep] links_rep_keys(2) [OF rep ok] ys dom by auto
  show "linked (field he_next h3) (field he_prev h3) None ((bs(l := as @ cs)) c) None" for c
    by (rule unlink_chains [OF rep ok bs links(1) same])
qed (fact links(2) unlink_sets [OF rep ok bs ys])+

text \<open>\<open>remove_from_chain\<close>, and the entry is freed.\<close>

lemma unlink_and_free:
  assumes rep: "links_rep h t bs ys T" and ok: "ght_ok hash T" and l: "l < i_size T"
    and bs: "bs l = as @ a # cs" and ys: "ys = us @ a # vs"
  obtains h1 t1 where "remove_from_chain h t l (Some a) = Some (h1, t1)" "a \<in> dom h1"
    "field he_data h1 = field he_data h" "t_items t1 = t_items t" "t_nr t1 = t_nr t"
    "writes_only (set ys) h h1"
    "links_rep (h1(a := None)) (t1\<lparr>t_items := t_items t - 1, t_nr := (t_nr t)(l := t_nr t l - 1)\<rparr>)
       (bs(l := as @ cs)) (us @ vs)
       (T\<lparr>pp_entries := (pp_entries T)(l := chain_remove (pp_entries T l) (field he_key h a)),
          i_items := i_items T - 1, p_nr := (p_nr T)(l := p_nr T l - 1),
          p_order := remove1 (field he_key h a) (p_order T)\<rparr>)"
proof -
  note bucket = links_repD(8,7,16,6,17) [OF rep, of l, unfolded bs]
  note ages = links_repD(12,10,11,15) [OF rep, unfolded ys] links_rep_keys(2) [OF rep ok, unfolded ys]
  obtain h1 t1 where run: "remove_from_chain h t l (Some a) = Some (h1, t1)"
    and t1: "t_entries t1 = (t_entries t)(l := ptr_first (as @ cs) None)"
      "t_oldest t1 = ptr_first (us @ vs) None" "t_newest t1 = ptr_last None (us @ vs)"
      "t_items t1 = t_items t" "t_size t1 = t_size t" "t_rehash t1 = t_rehash t"
      "t_mask t1 = t_mask t" "t_nr t1 = t_nr t"
    and links: "linked (field he_next h1) (field he_prev h1) None (as @ cs) None"
      "linked (field he_newer h1) (field he_older h1) None (us @ vs) None"
    and same: "field he_key h1 = field he_key h" "field he_data h1 = field he_data h" "dom h1 = dom h"
      "writes_only (set ys) h h1"
      "\<And>c. c \<notin> set (bs l) \<Longrightarrow>
        field he_next h1 c = field he_next h c \<and> field he_prev h1 c = field he_prev h c"
    using remove_from_chain_linked [OF bucket(1) ages(1) bucket(2) ages(5) bucket(3) ages(4)
        l [folded links_repD(2) [OF rep]] bucket(4) ages(2,3), of "set ys"] bucket(5)
    by (auto split: option.splits simp: ys bs)
  define h3 where "h3 = h1(a := None)"
  have gone: "a \<notin> set (as @ cs)" "a \<notin> set (us @ vs)" "a \<in> set (bs l)"
    using bucket(2) ages(5) bs by auto
  have keep: "field f h3 c = field f h1 c" if "c \<noteq> a" for f :: "('a, 'b) hash_entry \<Rightarrow> ptr" and c
    using that by (simp add: h3_def field_free)
  have "linked (field he_next h3) (field he_prev h3) None (as @ cs) None"
    "linked (field he_newer h3) (field he_older h3) None (us @ vs) None"
    using links gone(1,2) keep linked_cong [of "as @ cs" "field he_next h3" _ "field he_prev h3"]
      linked_cong [of "us @ vs" "field he_newer h3" _ "field he_older h3"] by metis+
  moreover have "entry_of h3 c = entry_of h c" if "c \<noteq> a" for c
    using that same(1,2) by (simp add: entry_of_def h3_def field_free)
  moreover have "field he_next h3 c = field he_next h c \<and> field he_prev h3 c = field he_prev h c"
    if "c \<notin> set (bs l)" for c
    using same(5) [OF that] keep [of c] gone(3) that by metis
  moreover have "dom h3 = dom h - {a}" by (simp add: h3_def same(3))
  ultimately have "links_rep h3 (t1\<lparr>t_items := t_items t - 1, t_nr := (t_nr t)(l := t_nr t l - 1)\<rparr>)
       (bs(l := as @ cs)) (us @ vs)
       (T\<lparr>pp_entries := (pp_entries T)(l := chain_remove (pp_entries T l) (field he_key h a)),
          i_items := i_items T - 1, p_nr := (p_nr T)(l := p_nr T l - 1),
          p_order := remove1 (field he_key h a) (p_order T)\<rparr>)"
    by (intro links_rep_unlink [OF rep ok bs ys]) (simp_all add: t1)
  then show ?thesis
    using that [OF run] t1 same bucket(3) by (simp add: h3_def)
qed

lemma links_remove_refines:
  assumes "links_owns h0 h t T" "ght_ok hash T"
  obtains h' t' where
    "links_remove hash h t k = Some (fst (ght_remove hash T k), h', t')"
    "links_owns h0 h' t' (snd (ght_remove hash T k))"
proof -
  obtain bs ys where rep: "links_rep h t bs ys T" and h0: "h |` (- set ys) = h0"
    using assms(1) by (auto simp: links_owns_def)
  define l where "l = ght_l_key hash T k"
  have l: "l < i_size T" unfolding l_def by (rule ght_l_key_less [OF assms(2)])
  show ?thesis
  proof (cases rule: search_links_rep [OF rep assms(2), of k 0])
    case 1
    then show ?thesis using that assms(1) by (simp add: links_remove_def ght_remove_def Let_def)
  next
    case (2 h' t' bs' a d)
    then have a: "a \<in> set (bs l)" "field he_key h a = k" "field he_data h a = d"
      by (auto simp: entry_of_def l_def)
    obtain as cs where bs: "bs l = as @ a # cs" using a(1) by (meson split_list)
    obtain us vs where ys: "ys = us @ a # vs"
      using a(1) links_repD(17) [OF rep] by (meson split_list subset_iff)
    obtain h1 t1 where run: "remove_from_chain h t l (Some a) = Some (h1, t1)" "a \<in> dom h1"
      "field he_data h1 = field he_data h" "t_items t1 = t_items t" "t_nr t1 = t_nr t"
      and writes: "writes_only (set ys) h h1"
      and rep': "links_rep (h1(a := None))
        (t1\<lparr>t_items := t_items t - 1, t_nr := (t_nr t)(l := t_nr t l - 1)\<rparr>)
        (bs(l := as @ cs)) (us @ vs) (snd (ght_remove hash T k))"
      using unlink_and_free [OF rep assms(2) l bs ys] 2(1) a(2)
      by (auto simp: ght_remove_def l_def Let_def)
    define h2 where "h2 = entry_update (entry_update h1 a (he_next_update (\<lambda>_. None))) a
        (he_prev_update (\<lambda>_. None))"
    have h2: "a \<in> dom h2" "field he_data h2 a = d" "h2(a := None) = h1(a := None)"
      using run(2,3) a(3) by (simp_all add: h2_def memory) (simp add: entry_update_def)
    have "links_remove hash h t k = Some (Some d, h2(a := None),
        t1\<lparr>t_items := t_items t - 1, t_nr := (t_nr t)(l := t_nr t l - 1)\<rparr>)"
      using 2 run h2(1,2)
      by (simp add: links_remove_def links_l_key_eq [OF rep] l_def [symmetric] memory h2_def)
    moreover have "(h1(a := None)) |` (- set (us @ vs)) = h0"
      using writes links_rep_keys(2) [OF rep assms(2)] unfolding h0 [symmetric]
      by (auto simp: ys writes_only_iff restrict_map_def fun_eq_iff)
    ultimately show ?thesis
      using that links_ownsI [OF rep'] 2(1) h2(3) by (simp add: ght_remove_value)
  qed
qed


section \<open>Insertion\<close>

lemma links_place_linked:
  assumes "linked (field he_next h) (field he_prev h) None as None"
    "linked (field he_newer h) (field he_older h) None ys None"
    "distinct (a # as)" "distinct (a # ys)" "set (a # as) \<subseteq> dom h" "set ys \<subseteq> dom h"
    "field he_newer h a = None" "l < t_size t" "t_entries t l = ptr_first as None"
    "t_oldest t = ptr_first ys None" "t_newest t = ptr_last None ys"
    "set (a # as) \<subseteq> A" "set ys \<subseteq> A"
  shows "case links_place h t l (Some a) of None \<Rightarrow> False
    | Some (h', t') \<Rightarrow>
      t' = t\<lparr>t_entries := (t_entries t)(l := Some a), t_nr := (t_nr t)(l := t_nr t l + 1),
        t_items := t_items t + 1, t_oldest := ptr_first (ys @ [a]) None, t_newest := Some a\<rparr> \<and>
      linked (field he_next h') (field he_prev h') None (a # as) None \<and>
      linked (field he_newer h') (field he_older h') None (ys @ [a]) None \<and>
      field he_key h' = field he_key h \<and> field he_data h' = field he_data h \<and> dom h' = dom h \<and>
      writes_only A h h' \<and>
      (\<forall>c. c \<notin> set (a # as) \<longrightarrow>
        field he_next h' c = field he_next h c \<and> field he_prev h' c = field he_prev h c)"
  using assms
  by (cases as; cases ys rule: rev_cases)
    (simp_all add: links_place_def memory read_bucket_def write_bucket_def Let_def)

lemma links_rep_place:
  assumes rep: "links_rep h t bs ys T" and ok: "ght_ok hash T"
    and a: "a \<notin> set ys" "a \<in> dom h" "entry_of h a = (k, d)" "field he_newer h a = None"
  obtains h' t' where "links_place h t (links_l_key hash t k) (Some a) = Some (h', t')"
    "links_rep h' t' (bs(ght_l_key hash T k := a # bs (ght_l_key hash T k))) (ys @ [a])
       (ght_link hash T d k)"
    "writes_only (insert a (set ys)) h h'"
proof -
  define l where "l = ght_l_key hash T k"
  have l: "l < t_size t" unfolding l_def links_repD(2) [OF rep] by (rule ght_l_key_less [OF ok])
  note bucket = links_repD(8,7,16,6,17) [OF rep, of l]
  note ages = links_repD(12,15,10,11) [OF rep] links_rep_keys(2) [OF rep ok]
  have a_new: "distinct (a # bs l)" "distinct (a # ys)" "set (a # bs l) \<subseteq> dom h"
    "set (a # bs l) \<subseteq> insert a (set ys)" "set ys \<subseteq> insert a (set ys)"
    using a bucket ages by auto
  obtain h' t' where
    run: "links_place h t l (Some a) = Some (h', t')"
    and t': "t' = t\<lparr>t_entries := (t_entries t)(l := Some a), t_nr := (t_nr t)(l := t_nr t l + 1),
        t_items := t_items t + 1, t_oldest := ptr_first (ys @ [a]) None, t_newest := Some a\<rparr>"
    and links: "linked (field he_next h') (field he_prev h') None (a # bs l) None"
      "linked (field he_newer h') (field he_older h') None (ys @ [a]) None"
    and same: "field he_key h' = field he_key h" "field he_data h' = field he_data h" "dom h' = dom h"
      "writes_only (insert a (set ys)) h h'"
      "\<And>c. c \<notin> set (a # bs l) \<Longrightarrow>
        field he_next h' c = field he_next h c \<and> field he_prev h' c = field he_prev h c"
    using links_place_linked [OF bucket(1) ages(1) a_new(1-3) ages(2) a(4) l bucket(4) ages(3,4) a_new(4,5)]
    by (simp split: option.splits prod.splits del: set_simps linked.simps distinct.simps linked_append)
  have entry: "entry_of h' = entry_of h" by (rule ext) (simp add: entry_of_def same)
  have chain: "linked (field he_next h') (field he_prev h') None (bs c) None" if "c \<noteq> l" for c
  proof -
    have "x \<notin> set (a # bs l)" if "x \<in> set (bs c)" for x
      using links_rep_bucket [OF rep ok] that \<open>c \<noteq> l\<close> links_repD(17) [OF rep, of c] a(1)
      by (metis set_ConsD subset_iff)
    then have "linked (field he_next h') (field he_prev h') None (bs c) None \<longleftrightarrow>
        linked (field he_next h) (field he_prev h) None (bs c) None"
      using same(5) by (intro linked_cong) blast
    then show ?thesis using links_repD(8) [OF rep] by simp
  qed
  have sets: "set (ys @ [a]) = (\<Union>c. set ((bs(l := a # bs l)) c))"
  proof -
    have "set ((bs(l := a # bs l)) c) = set (bs c) \<union> (if c = l then {a} else {})" for c by auto
    then show ?thesis using links_repD(14) [OF rep] by (auto split: if_splits)
  qed
  have "links_rep h' t' (bs(l := a # bs l)) (ys @ [a]) (ght_link hash T d k)"
    unfolding links_rep_def
  proof (intro conjI allI)
    show "t_items t' = i_items (ght_link hash T d k)" "t_size t' = i_size (ght_link hash T d k)"
      "t_rehash t' = i_automatic_rehash (ght_link hash T d k)"
      "t_mask t' = i_size_mask (ght_link hash T d k)" "t_nr t' = p_nr (ght_link hash T d k)"
      "t_oldest t' = ptr_first (ys @ [a]) None" "t_newest t' = ptr_last None (ys @ [a])"
      using links_repD(1-5) [OF rep] by (simp_all add: t' ght_link_def l_def Let_def)
    show "t_entries t' c = ptr_first ((bs(l := a # bs l)) c) None" for c
      using links_repD(6) [OF rep] by (simp add: t')
    show "distinct ((bs(l := a # bs l)) c)" for c
      using links_repD(7) [OF rep] a(1) bucket(5) by auto
    show "linked (field he_next h') (field he_prev h') None ((bs(l := a # bs l)) c) None" for c
      using chain links(1) by simp
    show "entry_of h' ` set ((bs(l := a # bs l)) c) = set (pp_entries (ght_link hash T d k) c)" for c
      using links_repD(9) [OF rep] a(3) by (simp add: entry ght_link_def l_def Let_def)
    show "map (field he_key h') (ys @ [a]) = p_order (ght_link hash T d k)"
      using links_repD(13) [OF rep] a(3) by (simp add: same entry_of_def)
    show "set (ys @ [a]) \<subseteq> dom h'" using ages(2) a(2) same(3) by simp
  qed (fact links(2) sets)+
  with run same(4) show ?thesis using that by (simp add: links_l_key_eq [OF rep] l_def)
qed


lemma links_owns_finite:
  "links_owns h0 h t T \<Longrightarrow> finite (dom h0) \<Longrightarrow> finite (dom h)"
proof -
  assume "links_owns h0 h t T" "finite (dom h0)"
  then obtain ys where "h |` (- set ys) = h0" by (auto simp: links_owns_def)
  then have "dom h \<subseteq> dom h0 \<union> set ys" by (auto simp: restrict_map_def split: if_splits)
  then show ?thesis using \<open>finite (dom h0)\<close> by (meson finite_Un finite_set finite_subset)
qed

lemma links_owns_new:
  assumes "links_owns h0 h t T" "h a = None"
  shows "links_owns (h0(a \<mapsto> e)) (h(a \<mapsto> e)) t T" "h0 a = None"
proof -
  obtain bs ys where rep: "links_rep h t bs ys T" and h0: "h |` (- set ys) = h0"
    using assms(1) by (auto simp: links_owns_def)
  have a: "a \<notin> set ys" using links_repD(15) [OF rep] assms(2) by auto
  then show "h0 a = None" using assms(2) by (simp add: h0 [symmetric] restrict_map_def)
  have "links_rep (h(a \<mapsto> e)) t bs ys T" using a by (intro links_rep_frame [OF rep]) auto
  moreover have "(h(a \<mapsto> e)) |` (- set ys) = h0(a \<mapsto> e)"
    using a by (auto simp: h0 [symmetric] restrict_map_def)
  ultimately show "links_owns (h0(a \<mapsto> e)) (h(a \<mapsto> e)) t T" by (rule links_ownsI)
qed

lemma links_place_refines:
  assumes own: "links_owns (h0(a \<mapsto> e)) h t T" and ok: "ght_ok hash T" and free: "h0 a = None"
    and e: "he_key e = k" "he_data e = d" "he_newer e = None"
  obtains h' t' where "links_place h t (links_l_key hash t k) (Some a) = Some (h', t')"
    "links_owns h0 h' t' (ght_link hash T d k)"
proof -
  obtain bs ys where rep: "links_rep h t bs ys T" and h0: "h |` (- set ys) = h0(a \<mapsto> e)"
    using own by (auto simp: links_owns_def)
  have "(h |` (- set ys)) a = Some e" using h0 by simp
  then have a: "a \<notin> set ys" "h a = Some e" by (auto simp: restrict_map_def split: if_splits)
  obtain h' t' where run: "links_place h t (links_l_key hash t k) (Some a) = Some (h', t')"
    and rep': "links_rep h' t' (bs(ght_l_key hash T k := a # bs (ght_l_key hash T k))) (ys @ [a])
       (ght_link hash T d k)"
    and only: "writes_only (insert a (set ys)) h h'"
    by (rule links_rep_place [OF rep ok, of a k d]) (use a e in \<open>auto simp: entry_of_def field_def\<close>)
  have "(h' |` (- set (ys @ [a]))) c = h0 c" for c
    using only fun_cong [OF h0, of c] free by (auto simp: writes_only_iff restrict_map_def split: if_splits)
  then show ?thesis using that [OF run] links_ownsI [OF rep'] by blast
qed

lemma links_insert_with_refines:
  assumes own: "links_owns h0 h t T" and ok: "ght_ok hash T" and new: "new h \<notin> dom h"
    and rehash: "\<And>h0 h. links_owns h0 h t T \<Longrightarrow> finite (dom h0) \<Longrightarrow>
        i_automatic_rehash T \<Longrightarrow> 2 * i_size T < i_items T \<Longrightarrow>
        \<exists>h' t'. rehash h t (2 * i_size T) = Some (h', t') \<and>
          links_owns h0 h' t' (ght_rehash hash T (2 * i_size T))"
    and finite: "finite (dom h0)"
  obtains h' t' where
    "links_insert_with rehash hash new h t d k = Some (fst (ght_insert hash T d k), h', t')"
    "links_owns h0 h' t' (snd (ght_insert hash T d k))"
proof -
  obtain bs ys where rep: "links_rep h t bs ys T" using own by (auto simp: links_owns_def)
  show ?thesis
  proof (cases rule: search_links_rep [OF rep ok, of k 0])
    case (2 h' t' bs' a d')
    then show ?thesis using that own by (simp add: links_insert_with_def ght_insert_def)
  next
    case 1
    define e where "e = \<lparr>he_data = d, he_next = None, he_prev = None, he_older = None,
                  he_newer = None, he_key = k\<rparr>"
    have free: "h (new h) = None" using new by auto
    note own1 = links_owns_new(1) [OF own free, of e] links_owns_new(2) [OF own free]
    let ?cond = "i_automatic_rehash T \<and> 2 * i_size T < i_items T"
    define T1 where "T1 = (if ?cond then ght_rehash hash T (2 * i_size T) else T)"
    obtain h1 t1 where run: "(if t_rehash t \<and> 2 * t_size t < t_items t
          then rehash (h(new h \<mapsto> e)) t (2 * t_size t) else Some (h(new h \<mapsto> e), t)) = Some (h1, t1)"
      and own2: "links_owns (h0(new h \<mapsto> e)) h1 t1 T1"
    proof (cases ?cond)
      case True
      then show ?thesis
        using rehash [OF own1(1)] finite that links_repD(1-3) [OF rep] by (auto simp: T1_def)
    next
      case False
      then have "T1 = T" unfolding T1_def by (rule if_not_P)
      then show ?thesis
        by (intro that [of "h(new h \<mapsto> e)" t]) (use False own1 links_repD(1-3) [OF rep] in auto)
    qed
    have ok1: "ght_ok hash T1" using ght_rehash_keeps [OF ok] ok by (simp add: T1_def)
    obtain h' t' where "links_place h1 t1 (links_l_key hash t1 k) (Some (new h)) = Some (h', t')"
      "links_owns h0 h' t' (ght_link hash T1 d k)"
      by (rule links_place_refines [OF own2 ok1 own1(2), where k = k and d = d]) (simp_all add: e_def)
    moreover have "ght_insert hash T d k = (0, ght_link hash T1 d k)"
      using 1(1) by (simp add: ght_insert_def T1_def Let_def)
    moreover have "he_create new h d k = (h(new h \<mapsto> e), Some (new h))"
      by (simp add: he_create_def e_def)
    ultimately show ?thesis
      using that 1 run by (simp add: links_insert_with_def)
  qed
qed


section \<open>Creation, iteration and release\<close>

lemma links_create_owns: "links_owns h h (links_create n) (ght_create n)"
proof -
  have "links_rep h (links_create n) (\<lambda>_. []) [] (ght_create n)"
    by (simp add: links_rep_def links_create_def ght_create_def split: prod.split)
  then show ?thesis by (rule links_ownsI) (simp add: restrict_map_def)
qed

lemma free_entry_chain_linked:
  assumes "linked (field he_next h) pv p as None" "distinct as" "set as \<subseteq> dom h"
  shows "free_entry_chain h (ptr_first as None) = Some (h |` (- set as))"
  using assms
proof (induction as arbitrary: h p)
  case Nil
  then show ?case by (simp add: free_entry_chain.simps)
next
  case (Cons a as)
  have cong: "linked (field he_next (h(a := None))) pv (Some a) as None \<longleftrightarrow>
      linked (field he_next h) pv (Some a) as None"
    using Cons.prems(2) by (intro linked_cong) (auto simp: field_def)
  have "free_entry_chain (h(a := None)) (ptr_first as None) = Some ((h(a := None)) |` (- set as))"
    by (rule Cons.IH [OF cong [THEN iffD2]]) (use Cons.prems in auto)
  moreover have "(h(a := None)) |` (- set as) = h |` (- set (a # as))"
    by (auto simp: restrict_map_def)
  ultimately show ?case
    using Cons.prems by (subst free_entry_chain.simps) (simp add: memory)
qed

lemma free_buckets_linked:
  assumes "\<And>i. i \<in> set is \<Longrightarrow> i < t_size t \<and> t_entries t i = ptr_first (bs i) None \<and>
      linked (field he_next h) (field he_prev h) None (bs i) None \<and> distinct (bs i) \<and> set (bs i) \<subseteq> dom h"
    and "\<And>i j. i \<noteq> j \<Longrightarrow> set (bs i) \<inter> set (bs j) = {}" "distinct is"
  obtains t' where "free_buckets h t is = Some (h |` (- (\<Union>i\<in>set is. set (bs i))), t')"
    "t_rehash t' = t_rehash t"
  using assms
proof (induction "is" arbitrary: h t thesis)
  case Nil
  then show ?case by simp
next
  case (Cons i "is")
  define h1 where "h1 = h |` (- set (bs i))"
  define t1 where "t1 = t\<lparr>t_entries := (t_entries t)(i := None)\<rparr>"
  have i: "i < t_size t" "t_entries t i = ptr_first (bs i) None" "i \<notin> set is"
    "free_entry_chain h (ptr_first (bs i) None) = Some h1"
    using Cons.prems(2) [of i] Cons.prems(4) free_entry_chain_linked [of h "field he_prev h" None "bs i"]
    by (auto simp: h1_def)
  have rest: "j < t_size t1 \<and> t_entries t1 j = ptr_first (bs j) None \<and>
      linked (field he_next h1) (field he_prev h1) None (bs j) None \<and> distinct (bs j) \<and> set (bs j) \<subseteq> dom h1"
    if "j \<in> set is" for j
  proof -
    have out: "x \<notin> set (bs i)" if "x \<in> set (bs j)" for x
      using Cons.prems(3) [of i j] i(3) that \<open>j \<in> set is\<close> by blast
    then have "linked (field he_next h1) (field he_prev h1) None (bs j) None \<longleftrightarrow>
        linked (field he_next h) (field he_prev h) None (bs j) None"
      by (intro linked_cong) (simp add: h1_def field_def)
    then show ?thesis
      using Cons.prems(2) [of j] that out i(3) by (auto simp: t1_def h1_def)
  qed
  obtain t' where "free_buckets h1 t1 is = Some (h1 |` (- (\<Union>i\<in>set is. set (bs i))), t')"
    "t_rehash t' = t_rehash t1"
    by (rule Cons.IH [of h1 t1]) (use rest Cons.prems(3,4) in auto)
  moreover have "h1 |` (- (\<Union>i\<in>set is. set (bs i))) = h |` (- (\<Union>i\<in>set (i # is). set (bs i)))"
    by (auto simp: h1_def restrict_map_def)
  ultimately show ?case
    using Cons.prems(1) i by (simp add: read_bucket_def write_bucket_def t1_def)
qed

lemma links_rep_free:
  assumes rep: "links_rep h t bs ys T" and ok: "ght_ok hash T"
  obtains t' where "free_buckets h t [0..<t_size t] = Some (h |` (- set ys), t')"
    "t_rehash t' = t_rehash t"
proof -
  have "bs b = []" if "i_size T \<le> b" for b
    using links_rep_bucket [OF rep ok, of _ b] ght_l_key_less [OF ok] that
    by (metis last_in_set leD)
  then have small: "b < i_size T" if "x \<in> set (bs b)" for x b using that by (metis empty_iff empty_set leI)
  have "(\<Union>i\<in>set [0..<t_size t]. set (bs i)) = set ys"
    unfolding links_repD(14) [OF rep] links_repD(2) [OF rep] set_upt atLeast0LessThan
    using small by (fast intro: lessThan_iff [THEN iffD2])
  moreover have "set (bs i) \<inter> set (bs j) = {}" if "i \<noteq> j" for i j
    using links_rep_bucket [OF rep ok] that by (metis disjoint_iff)
  moreover obtain t' where
    "free_buckets h t [0..<t_size t] = Some (h |` (- (\<Union>i\<in>set [0..<t_size t]. set (bs i))), t')"
    "t_rehash t' = t_rehash t"
    by (rule free_buckets_linked [of "[0..<t_size t]" t bs h])
      (use links_repD(6-8,16) [OF rep] calculation(2) in auto)
  ultimately show ?thesis using that by simp
qed

lemma links_finalize_frees:
  assumes "links_owns h0 h t T" "ght_ok hash T"
  shows "links_finalize h t = Some h0"
proof -
  obtain bs ys where rep: "links_rep h t bs ys T" and h0: "h |` (- set ys) = h0"
    using assms(1) by (auto simp: links_owns_def)
  show ?thesis
    by (rule links_rep_free [OF rep assms(2)]) (simp add: links_finalize_def h0)
qed


section \<open>Rehashing\<close>

lemma ght_entries_links:
  assumes rep: "links_rep h t bs ys T" and ok: "ght_ok hash T"
  shows "ght_entries hash T = map (entry_of h) ys"
proof -
  have "ght_get hash T (field he_key h a) = Some (field he_data h a)" if a: "a \<in> set ys" for a
  proof -
    obtain b where "a \<in> set (bs b)" using a links_repD(14) [OF rep] by auto
    then show ?thesis
      using links_rep_get [OF rep ok] links_rep_bucket [OF rep ok] by (auto simp: entry_of_def)
  qed
  then show ?thesis
    unfolding ght_entries_def links_repD(13) [OF rep, symmetric] by (simp add: entry_of_def)
qed

text \<open>An insertion into a table that does not rehash by itself.\<close>

lemma links_insert_off_refines:
  assumes "links_owns h0 h t T" "ght_ok hash T" "new h \<notin> dom h" "finite (dom h0)"
    "\<not> i_automatic_rehash T"
  obtains h' t' where
    "links_insert_with rehash hash new h t d k = Some (fst (ght_insert hash T d k), h', t')"
    "links_owns h0 h' t' (snd (ght_insert hash T d k))"
  using links_insert_with_refines [where rehash = rehash and new = new, OF assms(1,2,3) _ assms(4)] assms(5)
  by blast

text \<open>The memory \<open>ho\<close> with the old table stays as it is while the new table grows.\<close>

lemma rehash_loop_refines:
  assumes old: "linked (field he_newer ho) (field he_older ho) q zs None" "set zs \<subseteq> dom ho"
      "distinct (map (field he_key ho) zs)"
    and new: "\<And>h :: ('k, 'v) entries. finite (dom h) \<Longrightarrow> new h \<notin> dom h" and finite: "finite (dom ho)"
    and own: "links_owns ho h tmp TT" and ok: "ght_ok hash TT" and off: "\<not> i_automatic_rehash TT"
    and absent: "\<And>a. a \<in> set zs \<Longrightarrow> ght_get hash TT (field he_key ho a) = None"
  shows "\<exists>h' tmp'. rehash_loop hash new h tmp (ptr_first zs None) (ptr_first zs None, ptr_first (tl zs) None) =
      Some (h', tmp') \<and>
    links_owns ho h' tmp' (fold (\<lambda>(k, v) t. snd (ght_insert_plain hash t v k)) (map (entry_of ho) zs) TT)"
  using old own ok off absent
proof (induction zs arbitrary: q h tmp TT)
  case Nil
  then show ?case by (simp add: rehash_loop.simps)
next
  case (Cons a zs)
  define k d where "k = field he_key ho a" and "d = field he_data ho a"
  have same: "x \<in> dom h \<and> h x = ho x"
    if "x \<in> dom ho" "links_owns ho h tmp' TT'" for x h tmp' TT'
    using that by (auto simp: links_owns_def restrict_map_def split: if_splits)
  have plain: "ght_insert_plain hash TT d k = (0, ght_link hash TT d k)"
    "ght_insert hash TT d k = (0, ght_link hash TT d k)"
    using Cons.prems(6) Cons.prems(7) [of a] by (simp_all add: k_def ght_insert_plain_def ght_insert_def)
  have fin: "finite (dom h)" by (rule links_owns_finite [OF Cons.prems(4) finite])
  obtain h1 tmp1 where
    insert: "links_insert_with (\<lambda>_ _ _. None) hash new h tmp d k = Some (0, h1, tmp1)"
    and own1: "links_owns ho h1 tmp1 (ght_link hash TT d k)"
    using links_insert_off_refines [where new = new and d = d and k = k,
        OF Cons.prems(4,5) new [OF fin] finite Cons.prems(6)] plain(2)
    by auto
  have ok1: "ght_ok hash (ght_link hash TT d k)" "\<not> i_automatic_rehash (ght_link hash TT d k)"
    using Cons.prems(5-7) by (simp_all add: ght_ok_link k_def) (simp add: ght_link_def Let_def)
  have absent1: "ght_get hash (ght_link hash TT d k) (field he_key ho x) = None" if "x \<in> set zs" for x
  proof -
    have "field he_key ho x \<noteq> k" using Cons.prems(3) that by (auto simp: k_def image_iff)
    then show ?thesis using Cons.prems(7) [of x] that by (simp add: ght_get_link)
  qed
  have next1: "links_next h1 (Some a, ptr_first zs None) =
      Some (ptr_first zs None, (ptr_first zs None, ptr_first (tl zs) None))"
    using Cons.prems(1,2) same [OF _ own1]
    by (cases zs) (auto simp: links_next_def memory field_def)
  have "\<exists>h' tmp'. rehash_loop hash new h1 tmp1 (ptr_first zs None)
        (ptr_first zs None, ptr_first (tl zs) None) = Some (h', tmp') \<and>
      links_owns ho h' tmp' (fold (\<lambda>(k, v) t. snd (ght_insert_plain hash t v k))
        (map (entry_of ho) zs) (ght_link hash TT d k))"
    by (rule Cons.IH [where q = "Some a", OF _ _ _ own1 ok1])
      (use Cons.prems(1-3) absent1 in auto)
  moreover have "rehash_loop hash new h tmp (ptr_first (a # zs) None)
        (ptr_first (a # zs) None, ptr_first (tl (a # zs)) None) =
      rehash_loop hash new h1 tmp1 (ptr_first zs None) (ptr_first zs None, ptr_first (tl zs) None)"
    using Cons.prems(2) same [OF _ Cons.prems(4), of a] insert next1
    by (subst rehash_loop.simps) (auto simp: memory k_def d_def field_def)
  moreover have "entry_of ho a = (k, d)" by (simp add: entry_of_def k_def d_def)
  ultimately show ?case using plain(1) by simp
qed

lemma links_rep_moved:
  assumes "links_rep h tmp bs ys T"
  shows "links_rep h (t\<lparr>t_size := t_size tmp, t_mask := t_mask tmp, t_items := t_items tmp,
      t_entries := t_entries tmp, t_nr := t_nr tmp, t_oldest := t_oldest tmp,
      t_newest := t_newest tmp\<rparr>) bs ys (T\<lparr>i_automatic_rehash := t_rehash t\<rparr>)"
  using links_repD [OF assms] unfolding links_rep_def by (intro conjI allI) simp_all

lemma links_rehash_refines:
  assumes own: "links_owns h0 h t T" and ok: "ght_ok hash T"
    and new: "\<And>h :: ('k, 'v) entries. finite (dom h) \<Longrightarrow> new h \<notin> dom h" and finite: "finite (dom h0)"
  shows "\<exists>h' t'. links_rehash hash new h t n = Some (h', t') \<and>
    links_owns (h0 :: ('k, 'v) entries) h' t' (ght_rehash hash T n)"
proof -
  obtain bs ys where rep: "links_rep h t bs ys T" and h0: "h |` (- set ys) = h0"
    using own by (auto simp: links_owns_def)
  define p where "p = ptr_first ys None"
  define T1 where "T1 = fold (\<lambda>(k, v) t. snd (ght_insert_plain hash t v k)) (ght_entries hash T)
    (ght_set_rehash (ght_create n) False)"
  have first: "links_first h t = Some (p, (p, ptr_first (tl ys) None))"
    using links_repD(10,12,15) [OF rep] by (cases ys) (simp_all add: links_first_def p_def memory)
  have tmp: "links_owns h h ((links_create n)\<lparr>t_rehash := False\<rparr>) (ght_set_rehash (ght_create n) False)"
    using links_create_owns [of h n] by (simp add: links_create_def ght_set_rehash_def ght_create_def split: prod.splits)
  obtain h1 tmp1 where loop: "rehash_loop hash new h ((links_create n)\<lparr>t_rehash := False\<rparr>) p
      (p, ptr_first (tl ys) None) = Some (h1, tmp1)" and own1: "links_owns h h1 tmp1 T1"
    using rehash_loop_refines [OF links_repD(12,15) [OF rep] links_rep_keys(1) [OF rep ok] new
        links_owns_finite [OF own finite] tmp, of hash]
    unfolding T1_def p_def ght_entries_links [OF rep ok]
    by (auto simp: ght_create_ok ght_get_create)
  obtain bs1 ys1 where rep1: "links_rep h1 tmp1 bs1 ys1 T1" and h1: "h1 |` (- set ys1) = h"
    using own1 by (auto simp: links_owns_def)
  have old: "h1 a = h a \<and> a \<notin> set ys1" if "a \<in> set ys" for a
  proof -
    have "(h1 |` (- set ys1)) a \<noteq> None" using that links_repD(15) [OF rep] h1 by auto
    then show ?thesis using fun_cong [OF h1, of a] by (auto simp: restrict_map_def split: if_splits)
  qed
  have rep': "links_rep h1 t bs ys T" using old by (intro links_rep_frame [OF rep]) simp
  obtain t' where free: "free_buckets h1 t [0..<t_size t] = Some (h1 |` (- set ys), t')"
    "t_rehash t' = t_rehash t"
    by (rule links_rep_free [OF rep' ok])
  have "links_rep (h1 |` (- set ys)) tmp1 bs1 ys1 T1"
    using old by (intro links_rep_frame [OF rep1]) (auto simp: restrict_map_def)
  then have "links_rep (h1 |` (- set ys)) (t'\<lparr>t_size := t_size tmp1, t_mask := t_mask tmp1,
      t_items := t_items tmp1, t_entries := t_entries tmp1, t_nr := t_nr tmp1,
      t_oldest := t_oldest tmp1, t_newest := t_newest tmp1\<rparr>) bs1 ys1 (ght_rehash hash T n)"
    using links_rep_moved [of "h1 |` (- set ys)" tmp1 bs1 ys1 T1 t'] free(2) links_repD(3) [OF rep]
    by (simp add: ght_rehash_def T1_def Let_def)
  moreover have "(h1 |` (- set ys)) |` (- set ys1) = h0"
  proof -
    have "(h1 |` (- set ys)) |` (- set ys1) = (h1 |` (- set ys1)) |` (- set ys)" by (simp add: Int_commute)
    then show ?thesis by (simp only: h1 h0)
  qed
  ultimately have "links_owns h0 (h1 |` (- set ys)) (t'\<lparr>t_size := t_size tmp1, t_mask := t_mask tmp1,
      t_items := t_items tmp1, t_entries := t_entries tmp1, t_nr := t_nr tmp1,
      t_oldest := t_oldest tmp1, t_newest := t_newest tmp1\<rparr>) (ght_rehash hash T n)"
    by (rule links_ownsI)
  then show ?thesis using first loop free(1) by (simp add: links_rehash_def)
qed


section \<open>Sequences of calls\<close>

lemma iterate_loop_linked:
  assumes "linked (field he_newer h) pv q zs None" "set zs \<subseteq> dom h"
  shows "iterate_loop h (ptr_first zs None) (ptr_first zs None, ptr_first (tl zs) None) =
    Some (map (entry_of h) zs)"
  using assms
proof (induction zs arbitrary: q)
  case Nil
  then show ?case by (simp add: iterate_loop.simps)
next
  case (Cons a zs)
  have "links_next h (Some a, ptr_first zs None) =
      Some (ptr_first zs None, (ptr_first zs None, ptr_first (tl zs) None))"
    using Cons.prems by (cases zs) (auto simp: links_next_def memory)
  then show ?case
    using Cons.prems Cons.IH [of "Some a"]
    by (subst iterate_loop.simps) (simp add: memory entry_of_def)
qed

lemma links_first_linked:
  "links_rep h t bs ys T \<Longrightarrow>
     links_first h t = Some (ptr_first ys None, (ptr_first ys None, ptr_first (tl ys) None))"
  using links_repD(10,12,15) [of h t bs ys T] by (cases ys) (simp_all add: links_first_def memory)

lemma links_set_rehash_refines:
  "links_owns h0 h t T \<Longrightarrow> links_owns h0 h (links_set_rehash t b) (ght_set_rehash T b)"
  unfolding links_owns_def links_rep_def by (simp add: links_set_rehash_def ght_set_rehash_def)

lemma ght_ok_set_rehash: "ght_ok hash T \<Longrightarrow> ght_ok hash (ght_set_rehash T b)"
  by (simp add: ght_ok_def ght_set_rehash_def ght_get_def ght_l_key_def)

lemma ght_ok_call: "ght_ok hash T \<Longrightarrow> ght_ok hash (snd (ght_call hash c T))"
proof (cases c)
  case (Call_insert v k)
  assume "ght_ok hash T"
  then show ?thesis
    using ght_insert_spec [of hash T k v] Call_insert
    by (cases "ght_get hash T k") (simp_all add: ght_insert_def)
qed (simp_all add: ght_replace_spec ght_ok_remove ght_rehash_keeps ght_ok_set_rehash)

text \<open>Every call does to the memory what it does to the lists.\<close>

lemma links_call_refines:
  assumes own: "links_owns h0 h t T" and ok: "ght_ok hash T"
    and new: "\<And>h :: ('k, 'v) entries. finite (dom h) \<Longrightarrow> new h \<notin> dom h" and finite: "finite (dom h0)"
  obtains h' t' where
    "links_call heur hash new c h t = Some (fst (ght_call hash c T), h' :: ('k, 'v) entries, t')"
    "links_owns h0 h' t' (snd (ght_call hash c T))"
proof (cases c)
  case (Call_insert v k)
  have "new h \<notin> dom h" by (rule new [OF links_owns_finite [OF own finite]])
  then obtain h' t' where
    "links_insert hash new h t v k = Some (fst (ght_insert hash T v k), h', t')"
    "links_owns h0 h' t' (snd (ght_insert hash T v k))"
    using links_insert_with_refines [where rehash = "links_rehash hash new" and new = new, OF own ok _ _ finite]
      links_rehash_refines [OF _ ok new] unfolding links_insert_def by metis
  then show ?thesis using that Call_insert by simp
next
  case (Call_get k)
  obtain h' t' p where "links_get heur hash h t k = Some (h', t', p)" "links_owns h0 h' t' T"
    "(if p = None then Some None else map_option Some (read_field he_data h' p)) = Some (ght_get hash T k)"
    by (rule links_get_refines [OF own ok])
  then show ?thesis
    using that [of h' t'] Call_get
    by (cases p; cases "ght_get hash T k") simp_all
next
  case (Call_replace v k)
  obtain h' t' where "links_replace heur hash h t v k = Some (fst (ght_replace hash T v k), h', t')"
    "links_owns h0 h' t' (snd (ght_replace hash T v k))"
    by (rule links_replace_refines [OF own ok])
  then show ?thesis using that [of h' t'] Call_replace by simp
next
  case (Call_remove k)
  obtain h' t' where "links_remove hash h t k = Some (fst (ght_remove hash T k), h', t')"
    "links_owns h0 h' t' (snd (ght_remove hash T k))"
    by (rule links_remove_refines [OF own ok])
  then show ?thesis using that [of h' t'] Call_remove by simp
next
  case (Call_rehash n)
  then show ?thesis using links_rehash_refines [OF own ok new finite, of n] that by auto
next
  case (Call_set_rehash b)
  then show ?thesis using links_set_rehash_refines [OF own] that by simp
next
  case Call_iterate
  obtain bs ys where rep: "links_rep h t bs ys T" using own by (auto simp: links_owns_def)
  show ?thesis
    using that own links_first_linked [OF rep] iterate_loop_linked [OF links_repD(12,15) [OF rep]]
      ght_entries_links [OF rep ok] Call_iterate by simp
qed

text \<open>The addresses of new entries are free.\<close>

definition hands_out_free :: "(('k, 'v) entries \<Rightarrow> nat) \<Rightarrow> bool" where
  "hands_out_free new \<longleftrightarrow> (\<forall>h. finite (dom h) \<longrightarrow> new h \<notin> dom h)"

lemma links_run_refines_from:
  assumes own: "links_owns h0 h t T" and ok: "ght_ok hash T"
    and new: "\<forall>c\<in>set cs. hands_out_free (fst c)" and finite: "finite (dom h0)"
  shows "\<exists>h' t'. links_run heur hash cs h t = Some (fst (ght_run hash (map snd cs) T), h', t') \<and>
    links_finalize h' t' = Some h0"
  using own ok new
proof (induction cs arbitrary: h t T)
  case Nil
  then show ?case using links_finalize_frees by auto
next
  case (Cons nc cs)
  obtain new c where nc: "nc = (new, c)" by (cases nc)
  have new: "new h \<notin> dom h" if "finite (dom h)" for h
    using Cons.prems(3) that by (simp add: nc hands_out_free_def)
  obtain h' t' where call: "links_call heur hash new c h t = Some (fst (ght_call hash c T), h', t')"
    "links_owns h0 h' t' (snd (ght_call hash c T))"
    by (rule links_call_refines [OF Cons.prems(1,2) new finite])
  from Cons.IH [OF call(2) ght_ok_call [OF Cons.prems(2)]] Cons.prems(3) call(1) show ?case
    by (auto simp: nc split_def Let_def)
qed

text \<open>
  C12: whatever is done with a hash table in memory, from its creation on, with any hash function,
  any lookup heuristics and in any state of the rest of the memory: no call follows a null
  pointer or a pointer to an entry that was freed, none reads past the array of buckets, every
  loop ends, the answers are those of the table as lists, and after \<open>finalize\<close> the memory is what
  it was before, so that nothing is lost, freed twice or written outside the table.
\<close>

theorem links_run_refines:
  assumes "\<forall>c\<in>set cs. hands_out_free (fst c)" "finite (dom h0)"
  shows "do {
      (answers, h, t) \<leftarrow> links_run heur hash cs h0 (links_create n);
      h \<leftarrow> links_finalize h t;
      Some (answers, h)
    } = Some (fst (ght_run hash (map snd cs) (ght_create n)), h0)"
  using links_run_refines_from [OF links_create_owns ght_create_ok assms, of heur hash n]
  by auto

text \<open>All keys in one bucket, which the searches reorder.\<close>

definition next_address :: "('k, 'v) entries \<Rightarrow> nat" where
  "next_address h = Suc (Max (insert 0 (dom h)))"

lemma next_address_free: "hands_out_free next_address"
  unfolding hands_out_free_def next_address_def
  by (metis Max_ge Suc_n_not_le_n finite_insert insertI2)

definition example_calls :: "(nat, nat) table_call list" where
  "example_calls = [Call_insert 7 1, Call_insert 8 2, Call_insert 9 1, Call_get 1, Call_replace 5 2,
     Call_remove 2, Call_iterate]"

theorem links_run_refines_witness:
  "do {
      (answers, h, t) \<leftarrow> links_run 2 (\<lambda>_. 0) (map (Pair next_address) example_calls)
        Map.empty (links_create 4);
      h \<leftarrow> links_finalize h t;
      Some (answers, h)
    } = Some ([Status 0, Status 0, Status (- 1), Data (Some 7), Data (Some 8), Data (Some 5),
         Entries [(1, 7)]], Map.empty)"
proof -
  have "\<forall>c\<in>set (map (Pair next_address) example_calls). hands_out_free (fst c)"
    using next_address_free by auto
  note links_run_refines [OF this, of Map.empty 2 "\<lambda>_. 0" 4]
  moreover have "i_automatic_rehash (ght_create 4 :: (nat, nat) ght_hash_table) = False"
    by (simp add: ght_create_def split: prod.split)
  then have "fst (ght_run (\<lambda>_. 0) example_calls (ght_create 4)) =
      [Status 0, Status 0, Status (- 1), Data (Some 7), Data (Some 8), Data (Some 5), Entries [(1, 7)]]"
    by (simp add: example_calls_def ght_insert_def ght_replace_def ght_remove_def ght_get_def
        ght_l_key_def ght_link_def ght_write_def ght_entries_def Let_def)
  ultimately show ?thesis by (simp add: comp_def)
qed

end
