(* ===== verification/Ght_Crc.thy ===== *)
theory Ght_Crc
  imports Ght
begin

text \<open>
  The checksum of \<^verbatim>\<open>lib/libghthash/hash_functions_priv.h\<close> that the hash tables use. The code goes
  through a key byte by byte with a table of 256 words; the definition of a CRC goes bit by bit,
  with a shift register that is divided by the generator polynomial. Both are the same.
\<close>

text \<open>One bit of the division by the generator of CRC-32, highest bit first.\<close>

definition crc_shift :: "32 word \<Rightarrow> 32 word" where
  "crc_shift c = (if bit c 31 then push_bit 1 c XOR 0x04c11db7 else push_bit 1 c)"

definition crc_serial_step :: "32 word \<Rightarrow> byte \<Rightarrow> 32 word" where
  "crc_serial_step crc p = (crc_shift ^^ 8) (crc XOR push_bit 24 (ucast p))"

definition crc_serial :: "byte list \<Rightarrow> 32 word" where
  "crc_serial key_bytes = NOT (foldl crc_serial_step 0xffffffff key_bytes)"

text \<open>The register is linear in its content.\<close>

lemma crc_shift_xor: "crc_shift (a XOR b) = crc_shift a XOR crc_shift b"
  by (rule bit_word_eqI) (auto simp: crc_shift_def bit_simps)

lemma crc_shifts_xor: "(crc_shift ^^ n) (a XOR b) = (crc_shift ^^ n) a XOR (crc_shift ^^ n) b"
  by (induction n) (simp_all add: crc_shift_xor)

text \<open>While the highest bit is 0, a step only shifts.\<close>

lemma crc_shift_low: "\<not> bit a 31 \<Longrightarrow> crc_shift a = push_bit 1 a"
  by (simp add: crc_shift_def)

lemma crc_shifts_low:
  "(\<And>i. 32 - n \<le> i \<Longrightarrow> \<not> bit a i) \<Longrightarrow> n \<le> 32 \<Longrightarrow> (crc_shift ^^ n) a = push_bit n a"
proof (induction n)
  case (Suc n)
  have "(crc_shift ^^ n) a = push_bit n a" using Suc by simp
  moreover have "\<not> bit (push_bit n a) 31" using Suc.prems(1) [of "31 - n"] by (simp add: bit_simps)
  ultimately show ?case by (simp add: crc_shift_low push_bit_push_bit)
qed simp

text \<open>Each entry of the table gives two others.\<close>

lemma crc32_table_doubles:
  "concat (map (\<lambda>t. [crc_shift t, crc_shift t XOR 0x04c11db7]) (take 128 crc32_table)) = crc32_table"
  by (simp add: crc32_table_def crc_shift_def)

lemma concat_pairs_nth:
  "j < length xs \<Longrightarrow> concat (map (\<lambda>x. [f x, g x]) xs) ! (2 * j) = f (xs ! j) \<and>
     concat (map (\<lambda>x. [f x, g x]) xs) ! (2 * j + 1) = g (xs ! j)"
proof (induction xs arbitrary: j)
  case (Cons x xs)
  then show ?case by (cases j) auto
qed simp

lemma crc32_table_double:
  assumes "j < 128"
  shows "crc32_table ! (2 * j) = crc_shift (crc32_table ! j)"
    "crc32_table ! (2 * j + 1) = crc_shift (crc32_table ! j) XOR 0x04c11db7"
proof -
  have "j < length (take 128 crc32_table)" using assms by (simp add: length_crc32_table)
  from concat_pairs_nth [OF this, of crc_shift "\<lambda>t. crc_shift t XOR 0x04c11db7"] assms
  show "crc32_table ! (2 * j) = crc_shift (crc32_table ! j)"
    "crc32_table ! (2 * j + 1) = crc_shift (crc32_table ! j) XOR 0x04c11db7"
    unfolding crc32_table_doubles by simp_all
qed

lemma crc_shifts_generator: "(crc_shift ^^ 8) 0x1000000 = 0x04c11db7"
proof -
  have "(crc_shift ^^ 7) (push_bit 24 1) = push_bit 7 (push_bit 24 1)"
    by (rule crc_shifts_low) (unfold bit_push_bit_iff bit_1_iff, auto)
  then have "(crc_shift ^^ Suc 7) (push_bit 24 1) = crc_shift (push_bit 7 (push_bit 24 1))"
    by (simp only: funpow.simps comp_apply)
  then show ?thesis by (simp add: crc_shift_def)
qed

lemma crc_shifts_double:
  assumes "j < 128"
  shows "(crc_shift ^^ 8) (push_bit 24 (of_nat (2 * j))) =
    crc_shift ((crc_shift ^^ 8) (push_bit 24 (of_nat j)))"
proof -
  have "j div 2 ^ 7 = 0" using assms by simp
  then have "\<not> bit j 7" unfolding bit_iff_odd by (metis even_zero)
  then have "\<not> bit (of_nat j :: 32 word) 7" by (simp add: bit_of_nat_iff)
  then have "crc_shift (push_bit 24 (of_nat j)) = push_bit 1 (push_bit 24 (of_nat j :: 32 word))"
    by (intro crc_shift_low) (simp add: bit_simps)
  also have "\<dots> = push_bit 24 (of_nat (2 * j))"
    by (simp add: push_bit_eq_mult mult.commute)
  finally show ?thesis by (metis funpow_swap1)
qed

text \<open>An entry of the table is what eight steps make of its index.\<close>

lemma crc32_table_nth:
  "i < 256 \<Longrightarrow> crc32_table ! i = (crc_shift ^^ 8) (push_bit 24 (of_nat i))"
proof (induction i rule: less_induct)
  case (less i)
  have j: "i div 2 < 128" using less.prems by simp
  show ?case
  proof (cases "i = 0")
    case True
    then show ?thesis using crc_shifts_low [of 8 0] by (simp add: crc32_table_def)
  next
    case False
    then have IH: "crc32_table ! (i div 2) = (crc_shift ^^ 8) (push_bit 24 (of_nat (i div 2)))"
      using less by simp
    show ?thesis
    proof (cases "even i")
      case True
      then have "i = 2 * (i div 2)" by simp
      then show ?thesis using crc32_table_double(1) [OF j] crc_shifts_double [OF j] IH by metis
    next
      case odd: False
      then have i: "i = 2 * (i div 2) + 1" by simp
      have "(of_nat i :: 32 word) = of_nat (2 * (i div 2)) XOR 1"
        by (subst i) (simp add: xor_one_eq)
      then have "(crc_shift ^^ 8) (push_bit 24 (of_nat i)) =
          (crc_shift ^^ 8) (push_bit 24 (of_nat (2 * (i div 2)))) XOR 0x04c11db7"
        by (simp add: push_bit_xor crc_shifts_xor crc_shifts_generator del: funpow.simps)
      then show ?thesis
        using crc32_table_double(2) [OF j] crc_shifts_double [OF j] IH i by metis
    qed
  qed
qed

lemma crc_step_serial: "crc_step crc p = crc_serial_step crc p"
proof -
  define i where "i = drop_bit 24 crc XOR (ucast p :: 32 word)"
  define low where "low = crc AND mask 24"
  have "unat i < 256"
    using crc_index_in_table [of crc p] by (simp add: i_def length_crc32_table)
  then have entry: "crc32_table ! unat i = (crc_shift ^^ 8) (push_bit 24 i)"
    using crc32_table_nth [of "unat i"] by simp
  have "crc XOR push_bit 24 (ucast p) = low XOR push_bit 24 i"
    by (rule bit_word_eqI) (auto simp: low_def i_def bit_simps)
  moreover have "(crc_shift ^^ 8) low = push_bit 8 low"
    by (rule crc_shifts_low) (auto simp: low_def bit_simps)
  moreover have "push_bit 8 low = push_bit 8 crc"
    by (rule bit_word_eqI) (auto simp: low_def bit_simps)
  ultimately show ?thesis
    by (simp add: crc_step_def crc_serial_step_def i_def [symmetric] entry crc_shifts_xor del: funpow.simps)
qed

text \<open>
  C13: the checksum of a key, for which the code takes a byte at a time from a table of 256
  words, is the CRC-32 of its bytes as it is defined, bit by bit; the table is never left.
\<close>

theorem crc_hash_serial:
  "crc_hash bytes = crc_serial bytes \<and>
   unat (drop_bit 24 crc XOR (ucast (p :: byte) :: 32 word)) < length crc32_table"
  unfolding crc_hash_def crc_serial_def
  using crc_index_in_table by (auto simp: crc_step_serial [abs_def])

end
