(* ===== verification/Spec2Isabelle.thy ===== *)
theory Spec2Isabelle
  imports Fspace_Load Startup Mempool Prng Ght_Refine Ght_Crc
begin

text \<open>
  This library models cfunge, an interpreter for Befunge-93, Befunge-98 and Funge-109 written in
  C, and proves what makes it correct. File names are relative to \<^verbatim>\<open>src/\<close> of the
  repository; the files of the program proper are under \<^verbatim>\<open>src/src\<close>, its libraries
  under \<^verbatim>\<open>src/lib\<close>.

  \<^bold>\<open>The program.\<close> Funge-space (\<^verbatim>\<open>funge-space/funge-space.c\<close>) is an unbounded grid of 64-bit
  cells: a static array around the origin and a hash table (\<^verbatim>\<open>lib/libghthash\<close>) for the rest, with the number
  of used cells of each row and column, from which the bounding box is found. Instruction pointers
  (\<^verbatim>\<open>ip.c\<close>) walk over it. Each has a stack of stacks (\<^verbatim>\<open>stack.c\<close>), a mode, a storage offset, and for each
  letter a stack of instructions of fingerprints (\<^verbatim>\<open>fingerprints/manager.c\<close>). The interpreter
  (\<^verbatim>\<open>interpreter.c\<close>) runs the pointers of a list in turn, one instruction for each pointer and round; \<open>k\<close>
  (\<^verbatim>\<open>instructions/iterate.c\<close>) repeats an instruction. Input is read by lines (\<^verbatim>\<open>input.c\<close>); \<open>i\<close>, \<open>o\<close>, \<open>=\<close> and \<open>y\<close>
  work on files, commands and the system (\<^verbatim>\<open>instructions\<close>).

  \<^bold>\<open>The theories.\<close>
  \<^item> \<open>Prelude\<close>, \<open>Cells\<close>: machine words read as signed cells, cell limits, division and remainder, vectors, rectangles.
  \<^item> \<open>Stack\<close>: the growing array of cells, memory safety, its refinement of a list; \<open>Ip\<close>, \<open>Iplist\<close>: instruction
    pointers, the stack-stack, the list of concurrent pointers.
  \<^item> \<open>Ght\<close>: the hash table, generic in its keys, refines a finite map; \<open>Ght_Links\<close>: its pointers in memory,
    \<open>Ght_Chains\<close>, \<open>Ght_Refine\<close>: they behave like the lists of \<open>Ght\<close>; \<open>Ght_Crc\<close>: its checksum; \<open>Fspace\<close>, \<open>Fspace_Bounds\<close>, \<open>Fspace_Load\<close>:
    reading and writing cells, the invariant of the counts and of the box, minimising, wrapping, loading and saving.
  \<^item> \<open>Mempool\<close>: the pools (\<^verbatim>\<open>lib/mempool\<close>) from which tables and pointers take their memory, with any client.
  \<^item> \<open>Manager\<close>: opcode stacks, the table of the fingerprints, loaders, the sandbox's selection.
  \<^item> \<open>Input\<close>, \<open>Safe_Env\<close>: reading characters, lines, numbers; the perfect hash of the safe environment variables.
  \<^item> \<open>Libc\<close>: floating-point arithmetic, clocks, regular expressions and system calls, as parameters; \<open>Statics\<close>: the static
    variables of the fingerprints; \<open>World\<close>: the record \<open>world\<close> of everything that is not an instruction pointer, and the record \<open>config\<close> of what does not
    change during a run; \<open>Io\<close>, \<open>Sysinfo\<close>: \<open>,\<close> \<open>.\<close> \<open>~\<close> \<open>&\<close> \<open>i\<close> \<open>o\<close> \<open>=\<close> and \<open>y\<close>.
  \<^item> \<open>Fingerprints\<close>: the small fingerprints; \<open>Critical\<close>, \<open>Fungestring\<close>: the two-way
    string search of \<^verbatim>\<open>lib/fungestring\<close> and the theory of words behind it; \<open>Operation\<close>: what the tables of the larger ones have in common;
    \<open>Stringbuffer\<close>: the string buffer; \<open>Toys\<close>, \<open>Strn\<close>, \<open>Fp_Base\<close>, \<open>Fp_Cpli\<close>, \<open>Fp_Date\<close>, \<open>Fp_Time\<close> (TIME and HRTI),
    \<open>Fp_Turt\<close>, \<open>Fp_Float\<close> (FPSP, FPDP and FIXP), \<open>Fp_3dsp\<close>, \<open>Fp_File\<close>, \<open>Fp_Sock\<close> (SOCK and
    SCKE), \<open>Fp_Perl\<close> (PERL and DIRF), \<open>Fp_Rexp\<close> and \<open>Fp_Term\<close> (TERM and NCRS): the fingerprints
    that have their own theory; \<open>Handles\<close>: the interface of the tables of handles of FILE and SOCK; \<open>Dispatch\<close>: calling an instruction by its name.
  \<^item> \<open>Interp\<close>: every instruction of the switch, string mode, \<open>k\<close>, splitting and stopping of pointers, the main loop and its
    start; \<open>Frame\<close>: what an instruction leaves alone; \<open>Instructions\<close>: effects of single instructions; \<open>Runs\<close>: invariants of whole runs.
  \<^item> \<open>Command_Line\<close>: \<^verbatim>\<open>main.c\<close> and the settings; \<open>Startup\<close>: the program from its command line on; \<open>Prng\<close>: uniform random numbers.

  \<^bold>\<open>How the code is rendered.\<close> A cell is a \<^typ>\<open>64 word\<close>, compared as signed where the code does; arithmetic wraps. An array with
  its size is a function on indices with the size kept, so that an access out of bounds can be told. Static variables are fields of
  \<open>world\<close>. An error of an operation is a boolean or an option as in the code. An instruction is a function on \<open>mach\<close>, an
  instruction pointer with the world; what may end the process gives a \<open>result\<close>: \<open>Running\<close>, \<open>Exited\<close> with a status, \<open>Crashed\<close> when the code goes
  through a null pointer, leaves an array or fails an assertion, \<open>OutOfMemory\<close> when it gives up for lack of memory. A loop that need not end
  (over blanks and comments, a recursion of \<open>k\<close>, a scan for the end of a string) is an option, \<open>None\<close> when it goes on for ever; no fuel is used
  anywhere. The main loop is one step at a time, \<open>interpreter_step\<close>, and a run is its inductive closure \<open>reaches\<close>.

  An allocator is a predicate on the number of bytes. Where the code ends the process when memory runs out (\<open>DIAG_OOM\<close>), the functions are those of a
  run in which it does not happen, and a separate predicate tells when it would; where the code handles a failure, the failing branch is modelled.

  \<^bold>\<open>Parameters\<close>, the fields of \<open>config\<close>: the settings, the allocator, whether standard output takes bytes, the random sequence, the clocks and timers,
  \<open>system\<close>, file errors, environment and arguments, floating-point functions, regular expressions, the answers of the system calls and of the curses
  library, the XML writer, the word in front of an array, shifts that C leaves undefined. Every instruction of every fingerprint is modelled
  (\<open>loaded_opcodes_known\<close> in \<open>Dispatch\<close>).

  \<^bold>\<open>What the lemmas show.\<close> The interfaces are locales: \<open>cell_stack\<close> (\<open>Stack\<close>), through which every instruction sees a stack;
  \<open>hash_table\<close> (\<open>Ght\<close>, interpreted in \<open>Fspace\<close> for the cells and for the counts), through which funge-space sees its tables; \<open>handle_table\<close> (\<open>Handles\<close>), the tables of handles; \<open>letter_order\<close> and \<open>two_orders\<close> (\<open>Critical\<close>), the
  two directions in which the search compares letters; \<open>text_sink\<close> (\<open>Fspace_Load\<close>), the two routines that put a loaded program into space; \<open>thread_invariant\<close> (\<open>Runs\<close>): an invariant of the threads that single
  instructions, splits and stops keep is kept by \<open>k\<close>, by every instruction and by whole runs. Each is interpreted on the definitions of the code. The properties cover memory
  safety and refinement of the stack, the hash table as a map and on the heap, funge-space as a total map with exact bounds and counts, wrapping, loading and saving
  as inverse to each other, the search for a string, loading and unloading of fingerprints, reading and printing numbers, the thread table and the sandbox over whole runs, and the
  behaviour of single instructions. Where the code does not do what it means to, the theorem states what it does.

  \<^bold>\<open>What the theorems rely on\<close> is in their hypotheses and is named in the text before each: memory at hand (\<open>cf_al\<close>), files that the system grants (\<open>grants\<close>), a
  floor of quotients that is exact (\<open>floors_exact\<close>), an estimate of digits that is enough (\<open>digits_suffice\<close>). That no step goes through a null pointer needs no assumption on
  what the curses library and a Perl process answer: the two places where the code does so are exceptions of the theorem (\<open>null_read\<close> in \<open>Dispatch\<close>), as the repeated \<open>k\<close> is.

  \<^bold>\<open>Not modelled.\<close> Messages, traces and debug dumps; freeing of memory (but for the hash tables); variants of the build without
  concurrency, with 32-bit cells or for fuzzing; the vendored XML writer \<^verbatim>\<open>lib/genx\<close>, which is a
  parameter; what is done at the exit of the process.
\<close>

end
